(* ===== verification/Revlink_Prelude.thy ===== *)
theory Revlink_Prelude
  imports Main "HOL-Library.Word" "HOL-Library.Monad_Syntax"
begin

text \<open>
  Shared vocabulary of the development: the machine integer types, the (pointer, length)
  pairs the C interfaces pass around, writes into a caller's buffer, C strings, the
  saturating counters and the interface of an event driven component.

  A C pair \<open>(const T *p, size_t n)\<close> is a value of type \<open>'a span\<close>: \<open>Span xs\<close> is a non-NULL
  pointer to \<open>length xs\<close> readable elements, \<open>NullSpan n\<close> is the NULL pointer passed with the
  length \<open>n\<close>. An output buffer with its capacity is a span too. A pointer to a single object
  that may be NULL is an \<open>option\<close>.
\<close>

unbundle bit_operations_syntax

type_synonym u8 = "8 word"
type_synonym u16 = "16 word"
type_synonym u32 = "32 word"
type_synonym u64 = "64 word"

named_theorems wire_simps \<open>evaluation of byte order conversions and of buffer writes\<close>
named_theorems wire_len \<open>lengths of encoded pieces\<close>
named_theorems status_simps \<open>unfolding of the C constants\<close>

section \<open>Spans: pointer and length\<close>

datatype 'a span = NullSpan nat | Span "'a list"

fun slen :: "'a span \<Rightarrow> nat" where
  "slen (NullSpan n) = n"
| "slen (Span xs) = length xs"

fun sbytes :: "'a span \<Rightarrow> 'a list" where
  "sbytes (NullSpan n) = []"
| "sbytes (Span xs) = xs"

fun is_null :: "'a span \<Rightarrow> bool" where
  "is_null (NullSpan n) = True"
| "is_null (Span xs) = False"

text \<open>The argument check \<open>length > 0 && pointer == NULL\<close> of the C functions.\<close>

definition null_with_length :: "'a span \<Rightarrow> bool" where
  "null_with_length s \<longleftrightarrow> slen s > 0 \<and> is_null s"

lemma null_with_length_simps [simp]:
  "null_with_length (Span xs) = False"
  "null_with_length (NullSpan n) = (n > 0)"
  by (simp_all add: null_with_length_def)

lemma readable_length: "\<not> null_with_length s \<Longrightarrow> length (sbytes s) = slen s"
  by (cases s) auto

text \<open>
  \<open>size_t\<close> has 32 bits on the ESP32-P4. Sizes are natural numbers; the additions the code
  checks for overflow go through \<open>checked_add\<close>.
\<close>

definition SIZE_MAX :: nat where
  "SIZE_MAX = 2 ^ 32 - 1"

definition checked_add :: "nat \<Rightarrow> nat \<Rightarrow> nat option" where
  "checked_add left right = (if left > SIZE_MAX - right then None else Some (left + right))"

lemma checked_add_eq_Some:
  "left + right \<le> SIZE_MAX \<Longrightarrow> checked_add left right = Some (left + right)"
  by (simp add: checked_add_def)

lemma checked_add_SomeD:
  "checked_add left right = Some n \<Longrightarrow> n = left + right"
  by (auto simp: checked_add_def split: if_splits)

section \<open>Writes into a caller's buffer\<close>

text \<open>\<open>memcpy(&buf[off], xs, length xs)\<close>; \<open>memset\<close> is the same write of a replicated byte.\<close>

definition blit :: "nat \<Rightarrow> 'a list \<Rightarrow> 'a list \<Rightarrow> 'a list" where
  "blit off xs buf = take off buf @ xs @ drop (off + length xs) buf"

lemma length_blit [wire_len]:
  "off + length xs \<le> length buf \<Longrightarrow> length (blit off xs buf) = length buf"
  by (simp add: blit_def)

lemma blit_append:
  "off = length as \<Longrightarrow> length xs = length bs \<Longrightarrow> blit off xs (as @ bs @ cs) = as @ xs @ cs"
  by (simp add: blit_def)

lemma blit_prefix:
  "length xs = length bs \<Longrightarrow> blit 0 xs (bs @ cs) = xs @ cs"
  by (simp add: blit_def)

lemma blit_in_prefix:
  "off + length xs \<le> length as \<Longrightarrow> blit off xs (as @ bs) = blit off xs as @ bs"
  by (simp add: blit_def)

lemma blit_nil [simp]: "blit off [] buf = buf"
  by (simp add: blit_def)

lemma blit_Cons_Suc: "blit (Suc off) xs (b # buf) = b # blit off xs buf"
  by (simp add: blit_def)

lemma blit_0: "blit 0 xs buf = xs @ drop (length xs) buf"
  by (simp add: blit_def)

lemma take_blit_before: "n \<le> off \<Longrightarrow> off \<le> length buf \<Longrightarrow> take n (blit off xs buf) = take n buf"
  by (simp add: blit_def)

lemma take_nths: "n \<le> length xs \<Longrightarrow> take n xs = map ((!) xs) [0..<n]"
  by (rule nth_equalityI) simp_all

section \<open>C strings\<close>

text \<open>
  The string that starts at a pointer is the bytes before the first NUL. \<open>strnlen\<close> looks at
  no more than the given capacity.
\<close>

definition c_str :: "u8 list \<Rightarrow> u8 list" where
  "c_str xs = takeWhile (\<lambda>b. b \<noteq> 0) xs"

definition strnlen :: "u8 list \<Rightarrow> nat \<Rightarrow> nat" where
  "strnlen xs capacity = length (c_str (take capacity xs))"

lemma c_str_id: "0 \<notin> set xs \<Longrightarrow> c_str xs = xs"
  unfolding c_str_def by (subst takeWhile_eq_all_conv) auto

lemma c_str_terminated: "0 \<notin> set xs \<Longrightarrow> c_str (xs @ 0 # ys) = xs"
  unfolding c_str_def by (subst takeWhile_append2) auto

lemma c_str_no_nul: "0 \<notin> set (c_str xs)"
  unfolding c_str_def using set_takeWhileD by fastforce

lemma strnlen_le: "strnlen xs capacity \<le> capacity"
proof -
  have "length (c_str (take capacity xs)) \<le> length (take capacity xs)"
    unfolding c_str_def by (rule length_takeWhile_le)
  then show ?thesis by (simp add: strnlen_def)
qed

text \<open>String literals of the source as bytes.\<close>

definition ascii :: "string \<Rightarrow> u8 list" where
  "ascii s = map of_char s"

lemma ascii_simps [simp]:
  "ascii [] = []"
  "ascii (c # s) = of_char c # ascii s"
  by (simp_all add: ascii_def)

lemma length_ascii [simp]: "length (ascii s) = length s"
  by (simp add: ascii_def)

text \<open>
  \<open>snprintf\<close> into a buffer, once its text is formatted: what fits is stored with a NUL behind it,
  the return value is the length of the whole text.
\<close>

definition snprintf_into :: "u8 list \<Rightarrow> u8 list \<Rightarrow> u8 list \<times> nat" where
  "snprintf_into buf formatted =
     (if buf = [] then buf else blit 0 (take (length buf - 1) formatted @ [0]) buf, length formatted)"

lemma snprintf_fits:
  "length formatted < length buf \<Longrightarrow>
   snprintf_into buf formatted = (formatted @ 0 # drop (length formatted + 1) buf, length formatted)"
  by (auto simp: snprintf_into_def blit_0)

lemma snprintf_length [simp]:
  "length (fst (snprintf_into buf formatted)) = length buf" "snd (snprintf_into buf formatted) = length formatted"
  by (cases buf; simp add: snprintf_into_def blit_0)+

section \<open>Saturating counters\<close>

definition saturated_add :: "u32 \<Rightarrow> u32 \<Rightarrow> u32" where
  "saturated_add value increment =
     (if increment > - 1 - value then - 1 else value + increment)"

lemma unat_minus_one_u32: "unat (- 1 :: u32) = 2 ^ 32 - 1"
  using unsigned_minus_1_eq_mask [where 'a = nat and 'b = 32] by (simp add: mask_eq_exp_minus_1)

lemma unat_complement_u32: "unat (- 1 - (a :: u32)) = 2 ^ 32 - 1 - unat a"
  by (simp add: unat_sub word_order.extremum unat_minus_one_u32)

lemma unat_u32_less: "unat (a :: u32) < 2 ^ 32"
  using unsigned_less [of a] by simp

lemma unat_of_nat_u32: "n < 2 ^ 32 \<Longrightarrow> unat (of_nat n :: u32) = n"
  by (simp add: unat_of_nat take_bit_nat_eq_self)

lemma unat_saturated_add:
  "unat (saturated_add a b) = min (unat a + unat b) (2 ^ 32 - 1)"
proof (cases "b > - 1 - a")
  case True
  then have "unat b > 2 ^ 32 - 1 - unat a"
    unfolding word_less_nat_alt unat_complement_u32 .
  then show ?thesis using True unat_u32_less [of a]
    by (simp add: saturated_add_def unat_minus_one_u32)
next
  case False
  then have "unat b \<le> 2 ^ 32 - 1 - unat a"
    unfolding word_less_nat_alt unat_complement_u32 not_less .
  with unat_u32_less [of a] have "unat a + unat b < 2 ^ 32" by linarith
  then show ?thesis using False
    by (simp add: saturated_add_def unat_word_ariths)
qed

lemma saturated_add_ge: "a \<le> saturated_add a b"
  using unat_u32_less [of a] by (simp add: word_le_nat_alt unat_saturated_add)

lemma saturated_add_mono_reach:
  "c \<le> unat a + unat b \<Longrightarrow> c < 2 ^ 32 \<Longrightarrow> c \<le> unat (saturated_add a b)"
  by (simp add: unat_saturated_add)

section \<open>Event driven components\<close>

text \<open>
  Most components are a state and a handler that takes one event. What the rest of the
  firmware relies on is an invariant of the state that the handler keeps, whatever the order
  of the events. The interface fixes the handler and the invariant; a component provides the
  two laws and gets the induction over every sequence of events.
\<close>

locale event_machine =
  fixes step :: "'s \<Rightarrow> 'e \<Rightarrow> 's"
    and init :: "'s \<Rightarrow> bool"
    and inv :: "'s \<Rightarrow> bool"
  assumes init_inv: "init s \<Longrightarrow> inv s"
    and step_inv: "inv s \<Longrightarrow> inv (step s e)"
begin

inductive reachable :: "'s \<Rightarrow> bool" where
  start: "init s \<Longrightarrow> reachable s"
| step: "reachable s \<Longrightarrow> reachable (step s e)"

lemma reachable_inv: "reachable s \<Longrightarrow> inv s"
  by (induction rule: reachable.induct) (auto intro: init_inv step_inv)

lemma foldl_inv: "inv s \<Longrightarrow> inv (foldl step s es)"
  by (induction es arbitrary: s) (auto intro: step_inv)

lemma run_inv: "init s \<Longrightarrow> inv (foldl step s es)"
  by (intro foldl_inv init_inv)

lemma run_reachable: "reachable s \<Longrightarrow> reachable (foldl step s es)"
  by (induction es arbitrary: s) (auto intro: reachable.intros)

end

end
