(* ===== verification/Text_Codec.thy ===== *)
theory Text_Codec
  imports Revlink_Prelude
begin

text \<open>
  The pieces of the line oriented text files of revlink_sync: the character checks of paths and
  of cache names, decimal numbers read with an overflow check and printed by \<open>snprintf\<close>,
  hexadecimal digests, lines and tab separated fields, the bounded appends of the serializers,
  and the loop over the lines of a file. The manifest, the history and the annotations each
  carry their own copy of these helpers in C; the model has one.
\<close>

section \<open>Characters\<close>

definition is_digit :: "u8 \<Rightarrow> bool" where
  "is_digit b \<longleftrightarrow> 48 \<le> b \<and> b \<le> 57"

definition name_byte :: "u8 \<Rightarrow> bool" where
  "name_byte b \<longleftrightarrow>
     (b \<ge> 97 \<and> b \<le> 122) \<or> (b \<ge> 65 \<and> b \<le> 90) \<or> (b \<ge> 48 \<and> b \<le> 57)
     \<or> b = 46 \<or> b = 95 \<or> b = 45"

definition path_byte :: "u8 \<Rightarrow> bool" where
  "path_byte b \<longleftrightarrow>
     (b \<ge> 97 \<and> b \<le> 122) \<or> (b \<ge> 65 \<and> b \<le> 90) \<or> (b \<ge> 48 \<and> b \<le> 57)
     \<or> b = 47 \<or> b = 46 \<or> b = 95 \<or> b = 45 \<or> b = 32 \<or> b = 40 \<or> b = 41"

abbreviation (input) SYNC_PATH_CAPACITY :: nat where "SYNC_PATH_CAPACITY \<equiv> 256"
abbreviation (input) SYNC_CACHE_NAME_CAPACITY :: nat where "SYNC_CACHE_NAME_CAPACITY \<equiv> 160"
abbreviation (input) SYNC_SHA256_BYTES :: nat where "SYNC_SHA256_BYTES \<equiv> 32"
abbreviation (input) TAB :: u8 where "TAB \<equiv> 9"
abbreviation (input) NEWLINE :: u8 where "NEWLINE \<equiv> 10"

definition valid_path_bytes :: "u8 span \<Rightarrow> bool" where
  "valid_path_bytes value \<longleftrightarrow>
     \<not> is_null value \<and> slen value \<noteq> 0 \<and> slen value < SYNC_PATH_CAPACITY
     \<and> list_all path_byte (sbytes value)"

text \<open>The argument is the memory at the pointer, its string ends before the first NUL.\<close>

definition valid_cache_name :: "u8 list option \<Rightarrow> bool" where
  "valid_cache_name value =
     (case value of
        None \<Rightarrow> False
      | Some v \<Rightarrow>
          let n = length (c_str v) in
          n \<noteq> 0 \<and> n < SYNC_CACHE_NAME_CAPACITY \<and> list_all name_byte (c_str v))"

section \<open>Numbers\<close>

fun parse_digits :: "u8 list \<Rightarrow> 'a::len word \<Rightarrow> 'a word option" where
  "parse_digits [] parsed = Some parsed"
| "parse_digits (b # rest) parsed =
     (if b < 48 \<or> b > 57 then None
      else
        let digit = ucast (b - 48) in
        if parsed > (- 1 - digit) div 10 then None
        else parse_digits rest (parsed * 10 + digit))"

definition parse_u32 :: "u8 list \<Rightarrow> u32 option" where
  "parse_u32 value = (if length value = 0 \<or> length value > 10 then None else parse_digits value 0)"

definition parse_u64 :: "u8 list \<Rightarrow> u64 option" where
  "parse_u64 value = (if length value = 0 \<or> length value > 20 then None else parse_digits value 0)"

text \<open>What \<open>%u\<close> and \<open>%llu\<close> print.\<close>

fun dec_text :: "nat \<Rightarrow> u8 list" where
  "dec_text n = (if n < 10 then [48 + of_nat n] else dec_text (n div 10) @ [48 + of_nat (n mod 10)])"

declare dec_text.simps [simp del]

definition hex_value :: "u8 \<Rightarrow> int" where
  "hex_value v =
     (if v \<ge> 48 \<and> v \<le> 57 then uint v - 48
      else if v \<ge> 97 \<and> v \<le> 102 then uint v - 97 + 10
      else if v \<ge> 65 \<and> v \<le> 70 then uint v - 65 + 10
      else - 1)"

fun parse_hex_pairs :: "u8 list \<Rightarrow> u8 list option" where
  "parse_hex_pairs (h # l # rest) =
     (let high = hex_value h; low = hex_value l in
      if high < 0 \<or> low < 0 then None
      else map_option ((#) (word_of_int (push_bit 4 high OR low))) (parse_hex_pairs rest))"
| "parse_hex_pairs _ = Some []"

definition parse_hex :: "u8 list \<Rightarrow> nat \<Rightarrow> u8 list option" where
  "parse_hex text output_length =
     (if length text \<noteq> output_length * 2 then None else parse_hex_pairs text)"

definition parse_digest :: "u8 list \<Rightarrow> u8 list option" where
  "parse_digest value = parse_hex value SYNC_SHA256_BYTES"

definition HEX :: "u8 list" where
  "HEX = ascii ''0123456789abcdef''"

definition hex_byte :: "u8 \<Rightarrow> u8 list" where
  "hex_byte b = [HEX ! unat (drop_bit 4 b), HEX ! unat (b AND 0x0f)]"

definition hex_text :: "u8 list \<Rightarrow> u8 list" where
  "hex_text bytes = concat (map hex_byte bytes)"

section \<open>Lines and fields\<close>

text \<open>\<open>memchr(input, '\n', length)\<close> as an index.\<close>

definition find_newline :: "u8 list \<Rightarrow> nat option" where
  "find_newline input =
     (let n = length (takeWhile (\<lambda>b. b \<noteq> NEWLINE) input) in
      if n < length input then Some n else None)"

text \<open>
  The loop over a line that cuts it at the tabs: \<open>current\<close> holds the bytes since
  \<open>field_start\<close>, an empty field or an eighth one is an error.
\<close>

fun split_fields :: "u8 list \<Rightarrow> u8 list \<Rightarrow> u8 list list \<Rightarrow> u8 list list option" where
  "split_fields [] current fields =
     (if length fields \<ge> 7 \<or> current = [] then None else Some (fields @ [current]))"
| "split_fields (b # rest) current fields =
     (if b = TAB
      then (if length fields \<ge> 7 \<or> current = [] then None
            else split_fields rest [] (fields @ [current]))
      else split_fields rest (current @ [b]) fields)"

definition line_fields :: "u8 list \<Rightarrow> u8 list list option" where
  "line_fields line = split_fields line [] []"

definition starts_with :: "u8 list \<Rightarrow> u8 list \<Rightarrow> bool" where
  "starts_with header input \<longleftrightarrow>
     length input \<ge> length header \<and> take (length header) input = header"

text \<open>
  The \<open>while (offset < input_length)\<close> loop of the parsers. \<open>bad\<close> is the status of a missing
  newline or an empty line, \<open>step\<close> the body for one line.
\<close>

function parse_lines :: "'s \<Rightarrow> (u8 list \<Rightarrow> 't \<Rightarrow> 's + 't) \<Rightarrow> u8 list \<Rightarrow> 't \<Rightarrow> 's + 't" where
  "parse_lines bad step input table =
     (if input = [] then Inr table
      else case find_newline input of
        None \<Rightarrow> Inl bad
      | Some n \<Rightarrow>
          if n = 0 then Inl bad
          else case step (take n input) table of
            Inl status \<Rightarrow> Inl status
          | Inr table' \<Rightarrow> parse_lines bad step (drop (n + 1) input) table')"
  by pat_completeness auto

termination
  by (relation "measure (\<lambda>(bad, step, input, table). length input)") simp_all

declare parse_lines.simps [simp del]

section \<open>Bounded appends\<close>

text \<open>
  The \<open>APPEND\<close> macro: \<open>Inl needed\<close> is the early return that reports the length the output
  would have needed up to this piece.
\<close>

record text_writer =
  tw_buffer :: "u8 list"
  tw_used :: nat

definition append_bytes :: "u8 list \<Rightarrow> text_writer \<Rightarrow> (nat \<times> text_writer) + text_writer" where
  "append_bytes value w =
     (if length value > length (tw_buffer w) - tw_used w then Inl (tw_used w + length value, w)
      else Inr \<lparr>tw_buffer = blit (tw_used w) value (tw_buffer w),
                tw_used = tw_used w + length value\<rparr>)"

fun append_all :: "u8 list list \<Rightarrow> text_writer \<Rightarrow> (nat \<times> text_writer) + text_writer" where
  "append_all [] w = Inr w"
| "append_all (value # rest) w =
     (case append_bytes value w of Inl e \<Rightarrow> Inl e | Inr w' \<Rightarrow> append_all rest w')"


text \<open>
  An early return of a serializer: the status, what was written to \<open>*output_length\<close>, and the
  output. The result puts the bytes back into the caller's span.
\<close>

type_synonym 's serialize_stop = "'s \<times> nat option \<times> u8 list"

definition append_or :: "'s \<Rightarrow> u8 list list \<Rightarrow> text_writer \<Rightarrow> 's serialize_stop + text_writer" where
  "append_or too_small values w =
     (case append_all values w of
        Inl (needed, w') \<Rightarrow> Inl (too_small, Some needed, tw_buffer w')
      | Inr w' \<Rightarrow> Inr w')"

definition serialize_result ::
  "'s \<Rightarrow> u8 span \<Rightarrow> nat option \<Rightarrow> 's serialize_stop + text_writer \<Rightarrow> 's \<times> u8 span \<times> nat option" where
  "serialize_result ok output output_length result =
     (let returned = (\<lambda>buffer. if is_null output then output else Span buffer) in
      case result of
        Inl (status, needed, buffer) \<Rightarrow>
          (status, returned buffer, case needed of None \<Rightarrow> output_length | Some n \<Rightarrow> Some n)
      | Inr w \<Rightarrow> (ok, returned (tw_buffer w), Some (tw_used w)))"

section \<open>Numbers: what is read and printed\<close>

definition dec_value :: "nat \<Rightarrow> u8 list \<Rightarrow> nat" where
  "dec_value = foldl (\<lambda>n b. 10 * n + (unat b - 48))"

lemma dec_value_simps [simp]:
  "dec_value n [] = n" "dec_value n (b # bs) = dec_value (10 * n + (unat b - 48)) bs"
  by (simp_all add: dec_value_def)

lemma dec_value_append: "dec_value n (xs @ ys) = dec_value (dec_value n xs) ys"
  by (simp add: dec_value_def)

lemma dec_value_ge: "n \<le> dec_value n bs"
proof (induction bs arbitrary: n)
  case (Cons b bs)
  have "n \<le> 10 * n + (unat b - 48)" by simp
  also have "\<dots> \<le> dec_value (10 * n + (unat b - 48)) bs" by (rule Cons.IH)
  finally show ?case by simp
qed simp

lemma digit_bounds:
  "is_digit b \<Longrightarrow> unat (b - 48) = unat b - 48 \<and> unat b - 48 \<le> 9"
  by (auto simp: is_digit_def unat_sub word_le_nat_alt)

lemma digit_step:
  fixes v :: "'a::len word"
  assumes "is_digit b" and len: "8 \<le> LENGTH('a)"
  defines "d \<equiv> unat b - 48"
  shows "v > (- 1 - ucast (b - 48)) div 10 \<longleftrightarrow> 10 * unat v + d \<ge> 2 ^ LENGTH('a)"
    and "10 * unat v + d < 2 ^ LENGTH('a) \<Longrightarrow> unat (v * 10 + ucast (b - 48)) = 10 * unat v + d"
proof -
  have big: "256 \<le> (2 :: nat) ^ LENGTH('a)"
    using power_increasing [OF len, of "2 :: nat"] by simp
  have d: "unat (b - 48) = d" "d \<le> 9"
    using digit_bounds [OF assms(1)] by (simp_all add: d_def)
  have ten: "take_bit LENGTH('a) (10 :: nat) = 10"
    using big by (simp add: take_bit_nat_eq_self)
  have ucd: "unat (ucast (b - 48) :: 'a word) = d"
    using big d by (simp add: unsigned_ucast_eq take_bit_nat_eq_self)
  have top: "unat (- 1 :: 'a word) = 2 ^ LENGTH('a) - 1"
    using unsigned_minus_1_eq_mask [where 'a = nat and 'b = 'a] by (simp add: mask_eq_exp_minus_1)
  have "unat (- 1 - ucast (b - 48) :: 'a word) = 2 ^ LENGTH('a) - 1 - d"
    by (simp add: unat_sub word_order.extremum top ucd)
  then have "v > (- 1 - ucast (b - 48)) div 10 \<longleftrightarrow> unat v > (2 ^ LENGTH('a) - 1 - d) div 10"
    by (simp add: word_less_nat_alt unat_div ten)
  also have "\<dots> \<longleftrightarrow> 10 * unat v + d \<ge> 2 ^ LENGTH('a)" using big d by linarith
  finally show "v > (- 1 - ucast (b - 48)) div 10 \<longleftrightarrow> 10 * unat v + d \<ge> 2 ^ LENGTH('a)" .
  assume "10 * unat v + d < 2 ^ LENGTH('a)"
  then show "unat (v * 10 + ucast (b - 48)) = 10 * unat v + d"
    by (simp add: unat_word_ariths ten ucd mult.commute)
qed

lemma parse_digits_exact:
  fixes v :: "'a::len word"
  assumes "8 \<le> LENGTH('a)"
  shows "parse_digits bs v = (if list_all is_digit bs \<and> dec_value (unat v) bs < 2 ^ LENGTH('a)
    then Some (of_nat (dec_value (unat v) bs)) else None)"
proof (induction bs arbitrary: v)
  case Nil
  then show ?case by simp
next
  case (Cons b bs)
  let ?w = "v * 10 + ucast (b - 48)" and ?n = "10 * unat v + (unat b - 48)"
  show ?case
  proof (cases "is_digit b")
    case False
    then show ?thesis by (auto simp: is_digit_def not_le)
  next
    case True
    then have b: "\<not> (b < 48 \<or> b > 57)" by (auto simp: is_digit_def not_le)
    show ?thesis
    proof (cases "?n < 2 ^ LENGTH('a)")
      case False
      then have "dec_value ?n bs \<ge> 2 ^ LENGTH('a)" using dec_value_ge [of ?n bs] by linarith
      then show ?thesis using False digit_step(1) [OF True assms, of v] b by (simp add: not_le)
    next
      case n: True
      then show ?thesis
        using digit_step [OF True assms, of v] b True Cons.IH [of ?w] by (simp add: not_le)
    qed
  qed
qed

lemma dec_text_digits: "list_all is_digit (dec_text n)"
proof (induction n rule: dec_text.induct)
  case (1 n)
  have "is_digit (48 + of_nat m)" if "m < 10" for m :: nat
  proof -
    have "unat (48 + of_nat m :: u8) = 48 + m"
      using that by (simp add: unat_word_ariths unat_of_nat take_bit_nat_eq_self)
    then show ?thesis using that by (simp add: is_digit_def word_le_nat_alt)
  qed
  then show ?case using 1 by (subst dec_text.simps) simp
qed

lemma dec_value_text: "dec_value 0 (dec_text n) = n"
proof (induction n rule: dec_text.induct)
  case (1 n)
  have "unat (48 + of_nat m :: u8) = 48 + m" if "m < 10" for m :: nat
    using that by (simp add: unat_word_ariths unat_of_nat take_bit_nat_eq_self)
  then show ?case using 1 by (subst dec_text.simps) (simp add: dec_value_append)
qed

lemma dec_text_nonempty [simp]: "dec_text n \<noteq> []"
  by (subst dec_text.simps) simp

lemma dec_text_length: "n < 10 ^ Suc k \<Longrightarrow> length (dec_text n) \<le> Suc k"
proof (induction k arbitrary: n)
  case 0
  then show ?case by (subst dec_text.simps) simp
next
  case (Suc k)
  then have "n div 10 < 10 ^ Suc k" by (simp add: less_mult_imp_div_less)
  from Suc.IH [OF this] show ?case by (subst dec_text.simps) simp
qed

lemma dec_text_u32_length: "length (dec_text (unat (v :: u32))) \<le> 10"
  using dec_text_length [of "unat v" 9] unat_u32_less [of v] by simp

lemma dec_text_u64_length: "length (dec_text (unat (v :: u64))) \<le> 20"
  using dec_text_length [of "unat v" 19] unsigned_less [of v, where ?'a = nat] by simp

lemma parse_u32_text: "parse_u32 (dec_text (unat v)) = Some v"
proof -
  have "length (dec_text (unat v)) \<le> Suc 9"
    using unat_u32_less [of v] by (intro dec_text_length) simp
  then show ?thesis
    using unat_u32_less [of v]
    by (simp add: parse_u32_def parse_digits_exact dec_text_digits dec_value_text)
qed

lemma parse_u64_text: "parse_u64 (dec_text (unat v)) = Some v"
proof -
  have v: "unat v < 2 ^ 64" using unsigned_less [of v] by simp
  then have "length (dec_text (unat v)) \<le> Suc 19" by (intro dec_text_length) simp
  then show ?thesis using v
    by (simp add: parse_u64_def parse_digits_exact dec_text_digits dec_value_text)
qed

section \<open>Hexadecimal\<close>

lemma hex_digit_value: "n < 16 \<Longrightarrow> hex_value (HEX ! n) = int n"
proof -
  have "\<forall>n \<in> set [0,1,2,3,4,5,6,7,8,9,10,11,12,13,14,15]. hex_value (HEX ! n) = int n"
    by (simp add: HEX_def hex_value_def nth_Cons' del: nth_Cons_numeral)
  moreover assume "n < 16"
  then have "n \<in> set [0,1,2,3,4,5,6,7,8,9,10,11,12,13,14,15]" by simp presburger
  ultimately show ?thesis by blast
qed

lemma low_nibble: "b AND 0x0f = take_bit 4 (b :: u8)"
  using take_bit_eq_mask [of 4 b] by (simp add: mask_eq_exp_minus_1)

lemma byte_halves: "word_of_int (push_bit 4 (uint (drop_bit 4 b)) OR uint (b AND 0x0f)) = (b :: u8)"
  unfolding low_nibble by (rule bit_word_eqI) (auto simp: bit_simps)

lemma nibbles: "unat (drop_bit 4 (b :: u8)) < 16" "unat (b AND 0x0f :: u8) < 16"
proof -
  have "unat b < 256" using unsigned_less [of b] by simp
  then show "unat (drop_bit 4 b) < 16"
    unfolding unsigned_drop_bit_eq by (simp add: drop_bit_eq_div take_bit_nat_eq_self)
  show "unat (b AND 0x0f) < 16"
    unfolding low_nibble unsigned_take_bit_eq using take_bit_nat_less_exp [of 4 "unat b"] by simp
qed

lemma parse_hex_byte: "parse_hex_pairs (hex_byte b @ rest) = map_option ((#) b) (parse_hex_pairs rest)"
  using hex_digit_value [OF nibbles(1), of b] hex_digit_value [OF nibbles(2), of b]
  by (simp add: hex_byte_def Let_def byte_halves)

lemma parse_hex_text: "parse_hex_pairs (hex_text bs) = Some bs"
  by (induction bs) (simp_all add: hex_text_def parse_hex_byte)

lemma length_hex_text [simp]: "length (hex_text bs) = 2 * length bs"
  by (induction bs) (simp_all add: hex_text_def hex_byte_def)

lemma parse_hex_roundtrip: "length bs = n \<Longrightarrow> parse_hex (hex_text bs) n = Some bs"
  by (simp add: parse_hex_def parse_hex_text)

lemma parse_hex_pairs_length: "parse_hex_pairs ts = Some bs \<Longrightarrow> even (length ts) \<Longrightarrow> length ts = 2 * length bs"
  by (induction ts arbitrary: bs rule: parse_hex_pairs.induct) (auto simp: Let_def split: if_splits)

lemma parse_hex_length: "parse_hex ts n = Some bs \<Longrightarrow> length bs = n"
  using parse_hex_pairs_length [of ts bs] by (auto simp: parse_hex_def split: if_splits)

lemma parse_digest_roundtrip: "length bs = 32 \<Longrightarrow> parse_digest (hex_text bs) = Some bs"
  by (simp add: parse_digest_def parse_hex_roundtrip)

section \<open>Fields and lines: what is cut and joined\<close>

fun join_fields :: "u8 list list \<Rightarrow> u8 list" where
  "join_fields [] = []"
| "join_fields [f] = f"
| "join_fields (f # fs) = f @ TAB # join_fields fs"

definition field_ok :: "u8 list \<Rightarrow> bool" where
  "field_ok f \<longleftrightarrow> f \<noteq> [] \<and> TAB \<notin> set f \<and> NEWLINE \<notin> set f"

lemma valid_path_field: "valid_path_bytes (Span p) \<Longrightarrow> field_ok p \<and> length p < 256"
  by (auto simp: valid_path_bytes_def field_ok_def list_all_iff path_byte_def)

lemma valid_name_field:
  "valid_cache_name (Some v) \<Longrightarrow> 0 \<notin> set v \<Longrightarrow> field_ok v \<and> length v < 160"
  by (auto simp: valid_cache_name_def field_ok_def list_all_iff name_byte_def c_str_id Let_def)

lemma dec_text_field: "field_ok (dec_text n)"
  using dec_text_digits [of n] by (auto simp: field_ok_def list_all_iff is_digit_def)

lemma hex_text_field: "bs \<noteq> [] \<Longrightarrow> field_ok (hex_text bs)"
proof -
  have digit: "HEX ! n \<notin> {TAB, NEWLINE}" if "n < 16" for n
  proof -
    have "\<forall>b \<in> set HEX. b \<notin> {TAB, NEWLINE}" by (simp add: HEX_def)
    moreover have "HEX ! n \<in> set HEX" using that by (intro nth_mem) (simp add: HEX_def)
    ultimately show ?thesis by blast
  qed
  have "TAB \<notin> set (hex_byte b) \<and> NEWLINE \<notin> set (hex_byte b) \<and> hex_byte b \<noteq> []" for b
    using digit [OF nibbles(1), of b] digit [OF nibbles(2), of b] by (simp add: hex_byte_def)
  then show "bs \<noteq> [] \<Longrightarrow> field_ok (hex_text bs)"
    by (cases bs) (auto simp: field_ok_def hex_text_def)
qed

lemma split_fields_push:
  "TAB \<notin> set f \<Longrightarrow> split_fields (f @ rest) current parts = split_fields rest (current @ f) parts"
  by (induction f arbitrary: current) auto

lemma split_fields_join:
  "fs \<noteq> [] \<Longrightarrow> \<forall>f \<in> set fs. field_ok f \<Longrightarrow> length parts + length fs \<le> 7 \<Longrightarrow>
     split_fields (join_fields fs) [] parts = Some (parts @ fs)"
proof (induction fs arbitrary: parts rule: join_fields.induct)
  case 1
  then show ?case by simp
next
  case (2 f)
  then show ?case using split_fields_push [of f "[]" "[]" parts] by (simp add: field_ok_def)
next
  case (3 f g fs)
  then show ?case
    using split_fields_push [of f "TAB # join_fields (g # fs)" "[]" parts]
    by (simp add: field_ok_def)
qed

lemma line_fields_join:
  "fs \<noteq> [] \<Longrightarrow> list_all field_ok fs \<Longrightarrow> length fs \<le> 7 \<Longrightarrow> line_fields (join_fields fs) = Some fs"
  by (simp add: line_fields_def split_fields_join list_all_iff)

lemma join_fields_no_newline: "list_all field_ok fs \<Longrightarrow> NEWLINE \<notin> set (join_fields fs)"
  by (induction fs rule: join_fields.induct) (auto simp: field_ok_def)

lemma join_fields_nonempty: "fs \<noteq> [] \<Longrightarrow> list_all field_ok fs \<Longrightarrow> join_fields fs \<noteq> []"
  by (induction fs rule: join_fields.induct) (auto simp: field_ok_def)

lemma split_fields_sound:
  "split_fields line current parts = Some fs \<Longrightarrow> TAB \<notin> set current \<Longrightarrow>
     \<exists>gs. fs = parts @ gs \<and> gs \<noteq> [] \<and> length fs \<le> 7 \<and> current @ line = join_fields gs
       \<and> (\<forall>g \<in> set gs. g \<noteq> [] \<and> TAB \<notin> set g)"
proof (induction line arbitrary: current parts)
  case Nil
  then have "fs = parts @ [current]" "length parts < 7" "current \<noteq> []" by (auto split: if_splits)
  then show ?case using Nil.prems(2) by (intro exI [of _ "[current]"]) auto
next
  case (Cons b line)
  show ?case
  proof (cases "b = TAB")
    case False
    then show ?thesis using Cons.IH [of "current @ [b]" parts] Cons.prems by simp
  next
    case True
    then have cut: "current \<noteq> []" "split_fields line [] (parts @ [current]) = Some fs"
      using Cons.prems(1) by (auto split: if_splits)
    from Cons.IH [OF this(2)] obtain gs where gs: "fs = parts @ [current] @ gs" "gs \<noteq> []"
      "length fs \<le> 7" "line = join_fields gs" "\<forall>g \<in> set gs. g \<noteq> [] \<and> TAB \<notin> set g"
      by auto
    from gs(2) have "join_fields (current # gs) = current @ TAB # join_fields gs" by (cases gs) auto
    then show ?thesis using True cut gs Cons.prems(2)
      by (intro exI [of _ "current # gs"]) auto
  qed
qed

lemma find_newline_line: "NEWLINE \<notin> set line \<Longrightarrow> find_newline (line @ NEWLINE # rest) = Some (length line)"
proof -
  assume "NEWLINE \<notin> set line"
  then have "takeWhile (\<lambda>b. b \<noteq> NEWLINE) (line @ NEWLINE # rest) = line"
    by (subst takeWhile_append2) auto
  then show ?thesis by (simp add: find_newline_def)
qed

lemma parse_lines_Nil [simp]: "parse_lines bad step [] table = Inr table"
  by (simp add: parse_lines.simps)

lemma parse_lines_line:
  assumes "line \<noteq> []" and "NEWLINE \<notin> set line"
  shows "parse_lines bad step (line @ NEWLINE # rest) table =
    (case step line table of Inl status \<Rightarrow> Inl status | Inr table' \<Rightarrow> parse_lines bad step rest table')"
  using assms by (subst parse_lines.simps) (simp add: find_newline_line cong: sum.case_cong)

text \<open>
  The loop keeps what every line keeps.
\<close>

lemma parse_lines_inv:
  assumes "\<And>line t t'. step line t = Inr t' \<Longrightarrow> P t \<Longrightarrow> P t'"
  shows "parse_lines bad step input table = Inr table' \<Longrightarrow> P table \<Longrightarrow> P table'"
proof (induction input arbitrary: table rule: length_induct)
  case (1 input)
  show ?case
  proof (cases "input = []")
    case True
    then show ?thesis using "1.prems" by simp
  next
    case False
    with "1.prems"(1) obtain n t where n: "step (take n input) table = Inr t"
      "parse_lines bad step (drop (n + 1) input) t = Inr table'"
      by (subst (asm) parse_lines.simps) (auto split: if_splits option.splits sum.splits)
    moreover have "length (drop (n + 1) input) < length input" using False by simp
    ultimately show ?thesis using "1.IH" "1.prems"(2) assms by blast
  qed
qed

lemma parse_lines_error:
  assumes "parse_lines bad step input table = Inl status"
    and "\<And>line t s. step line t = Inl s \<Longrightarrow> P s" and "P bad"
  shows "P status"
  using assms(1)
proof (induction input arbitrary: table rule: length_induct)
  case (1 input)
  show ?case
  proof (rule ccontr)
    assume "\<not> P status"
    with "1.prems" assms(2,3) obtain n t where "input \<noteq> []"
      "parse_lines bad step (drop (n + 1) input) t = Inl status"
      by (subst (asm) parse_lines.simps) (auto split: if_splits option.splits sum.splits)
    moreover from this(1) have "length (drop (n + 1) input) < length input" by simp
    ultimately show False using "1.IH" \<open>\<not> P status\<close> by blast
  qed
qed

section \<open>Bounded appends: what is written\<close>

lemma append_all_fits:
  "tw_used w + length (concat vs) \<le> length (tw_buffer w) \<Longrightarrow>
   append_all vs w = Inr \<lparr>tw_buffer = blit (tw_used w) (concat vs) (tw_buffer w),
     tw_used = tw_used w + length (concat vs)\<rparr>"
proof (induction vs arbitrary: w)
  case Nil
  then show ?case by simp
next
  case (Cons v vs)
  let ?b = "tw_buffer w" and ?n = "tw_used w"
  let ?w = "\<lparr>tw_buffer = blit ?n v ?b, tw_used = ?n + length v\<rparr>"
  have v: "append_bytes v w = Inr ?w" using Cons.prems by (simp add: append_bytes_def)
  have "append_all vs ?w = Inr \<lparr>tw_buffer = blit (?n + length v) (concat vs) (blit ?n v ?b),
      tw_used = ?n + length v + length (concat vs)\<rparr>"
    using Cons.IH [of ?w] Cons.prems by (simp add: length_blit)
  moreover have "blit (?n + length v) (concat vs) (blit ?n v ?b) = blit ?n (v @ concat vs) ?b"
    using Cons.prems by (simp add: blit_def ac_simps)
  ultimately show ?case using v by (simp add: add.assoc)
qed

lemma append_all_full:
  "tw_used w \<le> length (tw_buffer w) \<Longrightarrow> tw_used w + length (concat vs) > length (tw_buffer w) \<Longrightarrow>
   \<exists>needed w'. append_all vs w = Inl (needed, w') \<and> needed > length (tw_buffer w)
     \<and> needed \<le> tw_used w + length (concat vs) \<and> length (tw_buffer w') = length (tw_buffer w)"
proof (induction vs arbitrary: w)
  case Nil
  then show ?case by simp
next
  case (Cons v vs)
  show ?case
  proof (cases "tw_used w + length v > length (tw_buffer w)")
    case True
    then have "append_bytes v w = Inl (tw_used w + length v, w)"
      using Cons.prems(1) by (simp add: append_bytes_def)
    then show ?thesis using True by simp
  next
    case False
    let ?w = "\<lparr>tw_buffer = blit (tw_used w) v (tw_buffer w), tw_used = tw_used w + length v\<rparr>"
    have "append_bytes v w = Inr ?w" using False by (simp add: append_bytes_def)
    then show ?thesis using Cons.IH [of ?w] Cons.prems False by (auto simp: length_blit)
  qed
qed

lemma append_all_append:
  "append_all (vs @ us) w = (case append_all vs w of Inl e \<Rightarrow> Inl e | Inr w' \<Rightarrow> append_all us w')"
  by (induction vs arbitrary: w) (auto split: sum.splits)

lemma append_or_append:
  "append_or small (vs @ us) w = (case append_or small vs w of Inl e \<Rightarrow> Inl e | Inr w' \<Rightarrow> append_or small us w')"
  by (simp add: append_or_def append_all_append split: sum.split)

lemma append_or_Nil [simp]: "append_or small [] w = Inr w"
  by (simp add: append_or_def)

text \<open>Either the whole text is written, or a length above the capacity is reported.\<close>

definition serialized :: "'s \<Rightarrow> 's \<Rightarrow> u8 list \<Rightarrow> u8 list \<Rightarrow> 's \<times> u8 span \<times> nat option \<Rightarrow> bool" where
  "serialized ok small content buffer result \<longleftrightarrow>
     (if length content \<le> length buffer
      then result = (ok, Span (blit 0 content buffer), Some (length content))
      else \<exists>needed buffer'. result = (small, Span buffer', Some needed) \<and> needed > length buffer
        \<and> needed \<le> length content \<and> length buffer' = length buffer)"

lemma serialize_result_append:
  "serialized ok small (concat vs) buffer
     (serialize_result ok (Span buffer) len (append_or small vs \<lparr>tw_buffer = buffer, tw_used = 0\<rparr>))"
proof (cases "length (concat vs) \<le> length buffer")
  case True
  then show ?thesis using append_all_fits [of "\<lparr>tw_buffer = buffer, tw_used = 0\<rparr>" vs]
    by (simp add: serialized_def serialize_result_def append_or_def)
next
  case False
  then show ?thesis using append_all_full [of "\<lparr>tw_buffer = buffer, tw_used = 0\<rparr>" vs]
    by (auto simp: serialized_def serialize_result_def append_or_def Let_def)
qed

lemma foldl_snoc: "foldl (\<lambda>xs x. xs @ [x]) ys zs = ys @ zs"
  by (induction zs arbitrary: ys) auto

section \<open>The interface of a text file\<close>

text \<open>
  A table is kept on the card as a header and one line per row. The writer promises that a row
  is one non-empty line without a newline; the reader promises that reading the line of a row
  which may be added adds exactly that row. Then reading what was written rebuilds the table.
\<close>

locale line_file =
  fixes line_of :: "'row \<Rightarrow> u8 list"
    and read_line :: "u8 list \<Rightarrow> 't \<Rightarrow> 's + 't"
    and add_row :: "'row \<Rightarrow> 't \<Rightarrow> 't"
    and may_add :: "'row \<Rightarrow> 't \<Rightarrow> bool"
    and row_ok :: "'row \<Rightarrow> bool"
  assumes line_nonempty: "row_ok r \<Longrightarrow> line_of r \<noteq> []"
    and line_no_newline: "row_ok r \<Longrightarrow> NEWLINE \<notin> set (line_of r)"
    and read_line_of: "row_ok r \<Longrightarrow> may_add r t \<Longrightarrow> read_line (line_of r) t = Inr (add_row r t)"
begin

fun addable :: "'row list \<Rightarrow> 't \<Rightarrow> bool" where
  "addable [] t = True"
| "addable (r # rs) t = (may_add r t \<and> addable rs (add_row r t))"

definition text_of :: "'row list \<Rightarrow> u8 list" where
  "text_of rs = concat (map (\<lambda>r. line_of r @ [NEWLINE]) rs)"

lemma read_text_of:
  "list_all row_ok rs \<Longrightarrow> addable rs t \<Longrightarrow>
     parse_lines bad read_line (text_of rs) t = Inr (foldl (\<lambda>t r. add_row r t) t rs)"
proof (induction rs arbitrary: t)
  case Nil
  then show ?case by (simp add: text_of_def)
next
  case (Cons r rs)
  have "text_of (r # rs) = line_of r @ NEWLINE # text_of rs" by (simp add: text_of_def)
  then show ?case using Cons
    by (simp add: parse_lines_line line_nonempty line_no_newline read_line_of)
qed

end

end
