(* ===== verification/Byte_Order.thy ===== *)
theory Byte_Order
  imports Revlink_Prelude
begin

text \<open>
  The byte order helpers of the wire protocol (\<open>store_*\<close>, \<open>load_*\<close> in
  accessport_protocol/revlink_accessport_protocol.c), which the staged map record and the
  captive DNS repeat under other names. A store is the list of bytes it writes, a load reads
  the bytes at the start of the list it is given. The lemmas are the round trips in both
  directions and the bounds of the loaded values.
\<close>

definition store_u16_be :: "u16 \<Rightarrow> u8 list" where
  "store_u16_be value = [ucast (drop_bit 8 value), ucast value]"

definition store_u16_le :: "u16 \<Rightarrow> u8 list" where
  "store_u16_le value = [ucast value, ucast (drop_bit 8 value)]"

definition store_u32_be :: "u32 \<Rightarrow> u8 list" where
  "store_u32_be value =
     [ucast (drop_bit 24 value), ucast (drop_bit 16 value), ucast (drop_bit 8 value), ucast value]"

definition store_u24_be :: "u32 \<Rightarrow> u8 list" where
  "store_u24_be value = [ucast (drop_bit 16 value), ucast (drop_bit 8 value), ucast value]"

definition store_u32_le :: "u32 \<Rightarrow> u8 list" where
  "store_u32_le value =
     [ucast value, ucast (drop_bit 8 value), ucast (drop_bit 16 value), ucast (drop_bit 24 value)]"

definition load_u16_be :: "u8 list \<Rightarrow> u16" where
  "load_u16_be input = push_bit 8 (ucast (input ! 0)) OR ucast (input ! 1)"

definition load_u16_le :: "u8 list \<Rightarrow> u16" where
  "load_u16_le input = ucast (input ! 0) OR push_bit 8 (ucast (input ! 1))"

definition load_u32_be :: "u8 list \<Rightarrow> u32" where
  "load_u32_be input = push_bit 24 (ucast (input ! 0)) OR push_bit 16 (ucast (input ! 1))
     OR push_bit 8 (ucast (input ! 2)) OR ucast (input ! 3)"

definition load_u32_le :: "u8 list \<Rightarrow> u32" where
  "load_u32_le input = ucast (input ! 0) OR push_bit 8 (ucast (input ! 1))
     OR push_bit 16 (ucast (input ! 2)) OR push_bit 24 (ucast (input ! 3))"

definition load_u24_be :: "u8 list \<Rightarrow> u32" where
  "load_u24_be input = push_bit 16 (ucast (input ! 0)) OR push_bit 8 (ucast (input ! 1))
     OR ucast (input ! 2)"

lemmas byte_order_defs = store_u16_be_def store_u16_le_def store_u32_be_def store_u24_be_def
  store_u32_le_def load_u16_be_def load_u16_le_def load_u32_be_def load_u32_le_def load_u24_be_def

lemma length_store [simp, wire_len]:
  "length (store_u16_be a) = 2" "length (store_u16_le a) = 2"
  "length (store_u32_be b) = 4" "length (store_u24_be b) = 3" "length (store_u32_le b) = 4"
  by (simp_all add: byte_order_defs)

lemma unat_u8_less: "unat (b :: u8) < 256"
  using unsigned_less [of b] by simp

lemma unat_ucast_u8 [simp]: "unat (ucast (b :: u8) :: u32) = unat b"
  using unat_u8_less [of b] by (simp add: unsigned_ucast_eq take_bit_nat_eq_self)

lemma ucast_u8_u32_inj: "(ucast b :: u32) = ucast c \<Longrightarrow> b = (c :: u8)"
  by (metis unat_ucast_u8 word_unat_eq_iff)

section \<open>Loading what was stored\<close>

lemma load_store_u16_be [simp]: "load_u16_be (store_u16_be v @ xs) = v"
  unfolding load_u16_be_def store_u16_be_def
  by (rule bit_word_eqI) (auto simp: bit_simps)

lemma load_store_u16_le [simp]: "load_u16_le (store_u16_le v @ xs) = v"
  unfolding load_u16_le_def store_u16_le_def
  by (rule bit_word_eqI) (auto simp: bit_simps)

lemma byte_cases:
  assumes "n < 32"
  obtains "n < 8" | "8 \<le> n" "n < 16" | "16 \<le> n" "n < 24" | "24 \<le> n" "n < (32 :: nat)"
  using assms by linarith

lemma load_store_u32_be [simp]: "load_u32_be (store_u32_be v @ xs) = v"
  unfolding load_u32_be_def store_u32_be_def
proof (rule bit_word_eqI, goal_cases)
  case (1 n)
  then have "n < 32" by simp
  then show ?case by (cases rule: byte_cases) (auto simp: bit_simps)
qed

lemma load_store_u32_le [simp]: "load_u32_le (store_u32_le v @ xs) = v"
  unfolding load_u32_le_def store_u32_le_def
proof (rule bit_word_eqI, goal_cases)
  case (1 n)
  then have "n < 32" by simp
  then show ?case by (cases rule: byte_cases) (auto simp: bit_simps)
qed

lemma unat_u24_bit:
  assumes "unat (v :: u32) < 2 ^ 24" and "24 \<le> n"
  shows "\<not> bit v n"
proof -
  have "(2 :: nat) ^ 24 \<le> 2 ^ n" using assms(2) by (rule power_increasing) simp
  with assms(1) have "unat v div 2 ^ n = 0" by simp
  then have "\<not> bit (unat v) n" by (simp add: bit_iff_odd)
  then show ?thesis by (simp add: bit_unsigned_iff)
qed

lemma load_store_u24_be: "unat v < 2 ^ 24 \<Longrightarrow> load_u24_be (store_u24_be v @ xs) = v"
  unfolding load_u24_be_def store_u24_be_def
proof (rule bit_word_eqI, goal_cases)
  case (1 n)
  then have "n < 32" by simp
  then show ?case using unat_u24_bit [OF 1(1), of n]
    by (cases rule: byte_cases) (auto simp: bit_simps)
qed

lemmas load_store_simps [wire_simps] = load_store_u16_be load_store_u16_le
  load_store_u32_be load_store_u32_le load_store_u24_be

lemmas load_store_exact [simp, wire_simps] =
  load_store_u16_be [of _ "[]", simplified] load_store_u16_le [of _ "[]", simplified]
  load_store_u32_be [of _ "[]", simplified] load_store_u32_le [of _ "[]", simplified]

section \<open>Storing what was loaded\<close>

lemma byte_bit_high [simp]:
  "\<not> bit (b :: u8) (8 + n)" "\<not> bit (b :: u8) (16 + n)" "\<not> bit (b :: u8) (24 + n)"
  using bit_imp_le_length [of b] by fastforce+

lemma store_load_u32_be:
  assumes "length xs = 4"
  shows "store_u32_be (load_u32_be xs) = xs"
proof -
  from assms obtain a b c d where "xs = [a, b, c, d]"
    by (auto simp: length_Suc_conv numeral_eq_Suc)
  moreover have "store_u32_be (load_u32_be [a, b, c, d]) = [a, b, c, d]"
    unfolding store_u32_be_def load_u32_be_def
    by (auto simp del: push_bit_of_0 intro!: bit_word_eqI simp: bit_simps)
  ultimately show ?thesis by simp
qed

lemma store_load_u16_be: "store_u16_be (load_u16_be xs) = [xs ! 0, xs ! 1]"
  unfolding store_u16_be_def load_u16_be_def
  by (auto simp del: push_bit_of_0 intro!: bit_word_eqI simp: bit_simps)

lemma store_load_u16_le: "store_u16_le (load_u16_le xs) = [xs ! 0, xs ! 1]"
  unfolding store_u16_le_def load_u16_le_def
  by (auto simp del: push_bit_of_0 intro!: bit_word_eqI simp: bit_simps)

lemma store_load_u24_be: "store_u24_be (load_u24_be xs) = [xs ! 0, xs ! 1, xs ! 2]"
  unfolding store_u24_be_def load_u24_be_def
  by (auto simp del: push_bit_of_0 intro!: bit_word_eqI simp: bit_simps)

lemma store_load_u32_le: "store_u32_le (load_u32_le xs) = [xs ! 0, xs ! 1, xs ! 2, xs ! 3]"
  unfolding store_u32_le_def load_u32_le_def
  by (auto simp del: push_bit_of_0 intro!: bit_word_eqI simp: bit_simps)

lemma take4_store_load: "4 \<le> length xs \<Longrightarrow> take 4 xs = store_u32_le (load_u32_le xs)"
  by (cases xs; cases "tl xs"; cases "tl (tl xs)"; cases "tl (tl (tl xs))")
    (auto simp: store_load_u32_le)

lemma load_u24_be_less: "unat (load_u24_be xs) < 2 ^ 24"
proof -
  have "load_u24_be xs = take_bit 24 (load_u24_be xs)"
    unfolding load_u24_be_def
    by (rule bit_word_eqI) (auto simp: bit_simps dest: bit_imp_le_length)
  then have "unat (load_u24_be xs) = take_bit 24 (unat (load_u24_be xs))"
    by (metis unsigned_take_bit_eq)
  then show ?thesis by (metis take_bit_nat_less_exp)
qed

lemma load_u32_be_inj:
  "length xs = 4 \<Longrightarrow> length ys = 4 \<Longrightarrow> load_u32_be xs = load_u32_be ys \<Longrightarrow> xs = ys"
  by (metis store_load_u32_be)

end
