(* ===== verification/Jamcrc.thy ===== *)
theory Jamcrc
  imports Byte_Order
begin

text \<open>
  The CRC-32/JAMCRC of the wire protocol (accessport_protocol/revlink_accessport_protocol.c):
  the bitwise update, the incremental interface for transports that stream a file, and the
  whole record form that treats the last four bytes as zero. The interface
  \<open>byte_checksum\<close> names what the protocol relies on: one byte step that is injective in the
  state and in the byte. Its clients are the streaming law and the detection of any single
  altered byte.
\<close>

section \<open>Byte wise checksums\<close>

locale byte_checksum =
  fixes step :: "'s \<Rightarrow> u8 \<Rightarrow> 's"
  assumes step_state_inj: "step s b = step t b \<Longrightarrow> s = t"
    and step_byte_inj: "step s b = step s c \<Longrightarrow> b = c"
begin

lemma run_append: "foldl step s (xs @ ys) = foldl step (foldl step s xs) ys"
  by simp

lemma run_concat: "foldl step s (concat xss) = foldl (foldl step) s xss"
  by (induction xss arbitrary: s) simp_all

lemma run_state_inj: "foldl step s xs = foldl step t xs \<Longrightarrow> s = t"
  by (induction xs arbitrary: s t) (auto dest: step_state_inj)

lemma run_detects:
  assumes "foldl step s (xs @ b # ys) = foldl step s (xs @ c # ys)"
  shows "b = c"
proof -
  from assms have "step (foldl step s xs) b = step (foldl step s xs) c"
    by (auto dest: run_state_inj)
  then show ?thesis by (rule step_byte_inj)
qed

lemma run_detects_update:
  assumes "i < length xs" and "foldl step s (xs[i := b]) = foldl step s xs"
  shows "b = xs ! i"
proof -
  from assms(1) have split: "xs = take i xs @ xs ! i # drop (Suc i) xs"
    by (rule id_take_nth_drop)
  have "xs[i := b] = take i xs @ b # drop (Suc i) xs"
    using assms(1) by (rule upd_conv_take_nth_drop)
  with split assms(2) show ?thesis by (metis run_detects)
qed

end

section \<open>The update of the code\<close>

text \<open>One turn of the inner loop, the eight turns for one byte, and the loop over the data.\<close>

definition crc_bit :: "u32 \<Rightarrow> u32" where
  "crc_bit crc = (let mask = 0 - (crc AND 1) in drop_bit 1 crc XOR (0xedb88320 AND mask))"

definition crc_byte :: "u32 \<Rightarrow> u8 \<Rightarrow> u32" where
  "crc_byte crc b = (crc_bit ^^ 8) (crc XOR ucast b)"

definition crc32_update :: "u32 \<Rightarrow> u8 list \<Rightarrow> u32" where
  "crc32_update crc data = foldl crc_byte crc data"

lemma crc_mask: "0 - (crc AND 1 :: u32) = (if bit crc 0 then - 1 else 0)"
  by (simp only: and_one_eq bit_0 mod_2_eq_odd split: if_splits) simp

lemma crc_bit_eq:
  "crc_bit crc = drop_bit 1 crc XOR (if bit crc 0 then 0xedb88320 else 0)"
  unfolding crc_bit_def Let_def crc_mask by simp

text \<open>The polynomial has its top bit set, so the bit shifted out is still visible.\<close>

lemma bit_crc_bit_31: "bit (crc_bit crc) 31 = bit crc 0"
  using bit_imp_le_length [of crc 32] by (auto simp: crc_bit_eq bit_simps)

lemma xor_right_inj: "(a :: 'a :: len word) XOR c = b XOR c \<Longrightarrow> a = b"
  by (metis xor.assoc xor_self_eq xor.right_neutral)

lemma crc_bit_inj:
  assumes "crc_bit a = crc_bit b"
  shows "a = b"
proof (rule bit_word_eqI)
  have b0: "bit a 0 = bit b 0" using assms bit_crc_bit_31 by metis
  have "drop_bit 1 a XOR (if bit a 0 then 0xedb88320 else 0)
      = drop_bit 1 b XOR (if bit a 0 then 0xedb88320 else 0)"
    using assms unfolding crc_bit_eq b0 .
  then have d: "drop_bit 1 a = drop_bit 1 b" by (rule xor_right_inj)
  fix n
  show "bit a n = bit b n"
  proof (cases n)
    case 0
    with b0 show ?thesis by simp
  next
    case (Suc m)
    have "bit (drop_bit 1 a) m = bit (drop_bit 1 b) m" using d by simp
    with Suc show ?thesis by (simp add: bit_drop_bit_eq)
  qed
qed

lemma crc_bit_pow_inj: "(crc_bit ^^ n) a = (crc_bit ^^ n) b \<Longrightarrow> a = b"
  by (induction n arbitrary: a b) (auto simp: funpow_swap1 dest: crc_bit_inj)

interpretation jam: byte_checksum crc_byte
proof
  show "crc_byte s b = crc_byte t b \<Longrightarrow> s = t" for s t b
    by (auto simp: crc_byte_def dest!: crc_bit_pow_inj xor_right_inj)
next
  fix s b c
  assume "crc_byte s b = crc_byte s c"
  then have "s XOR ucast b = s XOR (ucast c :: u32)"
    unfolding crc_byte_def by (rule crc_bit_pow_inj)
  then have "ucast b XOR s = (ucast c :: u32) XOR s" by (simp only: xor.commute)
  then have "ucast b = (ucast c :: u32)" by (rule xor_right_inj)
  then show "b = c" by (rule ucast_u8_u32_inj)
qed

lemma crc32_update_append [simp]:
  "crc32_update crc (xs @ ys) = crc32_update (crc32_update crc xs) ys"
  by (simp add: crc32_update_def)

lemma crc32_update_Nil [simp]: "crc32_update crc [] = crc"
  by (simp add: crc32_update_def)

lemma crc32_update_concat:
  "crc32_update crc (concat xss) = foldl crc32_update crc xss"
  using jam.run_concat [of crc xss] by (simp add: crc32_update_def [abs_def])

text \<open>Evaluation of the update on concrete bytes.\<close>

lemma crc_byte_unroll [code]:
  "crc_byte crc b = crc_bit (crc_bit (crc_bit (crc_bit (crc_bit (crc_bit (crc_bit (crc_bit
     (crc XOR ucast b))))))))"
  by (simp add: crc_byte_def numeral_eq_Suc)

lemmas crc_eval = crc32_update_def crc_byte_unroll crc_bit_def Let_def

section \<open>The incremental interface\<close>

record jamcrc =
  jc_value :: u32

definition zero_trailer :: "u8 list" where
  "zero_trailer = [0, 0, 0, 0]"

fun jamcrc_init :: "jamcrc option \<Rightarrow> jamcrc option" where
  "jamcrc_init None = None"
| "jamcrc_init (Some st) = Some (st\<lparr>jc_value := - 1\<rparr>)"

fun jamcrc_update :: "jamcrc option \<Rightarrow> u8 span \<Rightarrow> jamcrc option" where
  "jamcrc_update None data = None"
| "jamcrc_update (Some st) data =
     (if null_with_length data then Some st
      else Some (st\<lparr>jc_value := crc32_update (jc_value st) (sbytes data)\<rparr>))"

fun jamcrc_finish_zeroed_trailer :: "jamcrc option \<Rightarrow> u32 \<times> jamcrc option" where
  "jamcrc_finish_zeroed_trailer None = (0, None)"
| "jamcrc_finish_zeroed_trailer (Some st) =
     (let v = crc32_update (jc_value st) zero_trailer in (v, Some (st\<lparr>jc_value := v\<rparr>)))"

text \<open>The value of a complete record; its last four bytes count as zero.\<close>

definition jamcrc_zeroed_trailer :: "u8 span \<Rightarrow> u32" where
  "jamcrc_zeroed_trailer rec =
     (if is_null rec \<or> slen rec < 4 then 0
      else crc32_update (crc32_update (- 1) (take (slen rec - 4) (sbytes rec))) zero_trailer)"

lemma jamcrc_zeroed_trailer_append:
  "length t = 4 \<Longrightarrow>
   jamcrc_zeroed_trailer (Span (xs @ t)) = crc32_update (- 1) (xs @ zero_trailer)"
  by (simp add: jamcrc_zeroed_trailer_def)

lemma foldl_jamcrc_update:
  "foldl jamcrc_update (Some st) (map Span xss) =
   Some (st\<lparr>jc_value := crc32_update (jc_value st) (concat xss)\<rparr>)"
  by (induction xss arbitrary: st) auto

text \<open>
  Streaming a file through the incremental interface, in any split into pieces, gives the
  value the whole record form computes over the same bytes followed by any four byte trailer.
\<close>

lemma jamcrc_streaming:
  assumes "length trailer = 4"
  shows "fst (jamcrc_finish_zeroed_trailer
           (foldl jamcrc_update (jamcrc_init (Some st)) (map Span pieces)))
         = jamcrc_zeroed_trailer (Span (concat pieces @ trailer))"
  using assms by (simp add: foldl_jamcrc_update jamcrc_zeroed_trailer_append Let_def)

theorem jamcrc_streaming_witness:
  "fst (jamcrc_finish_zeroed_trailer
     (foldl jamcrc_update (jamcrc_init (Some \<lparr>jc_value = 0\<rparr>)) (map Span [[1, 2], [3]])))
   = jamcrc_zeroed_trailer (Span [1, 2, 3, 9, 9, 9, 9])"
  using jamcrc_streaming [of "[9, 9, 9, 9]" "\<lparr>jc_value = 0\<rparr>" "[[1, 2], [3]]"] by simp

lemma zeroed_trailer_detects:
  assumes "length t = 4" and "length u = 4" and "i < length xs"
    and "jamcrc_zeroed_trailer (Span (xs[i := b] @ t)) = jamcrc_zeroed_trailer (Span (xs @ u))"
  shows "b = xs ! i"
proof -
  from assms have "foldl crc_byte (- 1) (xs[i := b] @ zero_trailer)
      = foldl crc_byte (- 1) (xs @ zero_trailer)"
    by (simp only: jamcrc_zeroed_trailer_append crc32_update_def)
  then have "foldl crc_byte (- 1) (xs[i := b]) = foldl crc_byte (- 1) xs"
    unfolding foldl_append by (rule jam.run_state_inj)
  with assms(3) show ?thesis by (rule jam.run_detects_update)
qed

end
