(* ===== verification/Accessport_Build.thy ===== *)
theory Accessport_Build
  imports Jamcrc
begin

text \<open>
  Building wire records (accessport_protocol/revlink_accessport_protocol.c): the byte writer,
  \<open>begin_record\<close> and \<open>finish_record\<close>, the record builders and the chunk builders. A builder
  takes the output buffer (a span: its capacity is its length) and the pointer to the output
  length, and returns the status with both after the call, so that what an early return leaves
  behind is part of the model. The functional specification is \<open>archive_record\<close> and
  \<open>chunk_record\<close>: the bytes of a complete record.
\<close>

datatype ap_status = AP_OK | AP_INVALID_ARGUMENT | AP_BUFFER_TOO_SMALL | AP_RECORD_TOO_LARGE
  | AP_INVALID_FRAME | AP_INVALID_CHECKSUM | AP_SINK_ERROR | AP_UPLOAD_TARGET_REJECTED

fun ap_status_name :: "ap_status \<Rightarrow> string" where
  "ap_status_name AP_OK = ''ok''"
| "ap_status_name AP_INVALID_ARGUMENT = ''invalid argument''"
| "ap_status_name AP_BUFFER_TOO_SMALL = ''buffer too small''"
| "ap_status_name AP_RECORD_TOO_LARGE = ''record too large''"
| "ap_status_name AP_INVALID_FRAME = ''invalid frame''"
| "ap_status_name AP_INVALID_CHECKSUM = ''invalid checksum''"
| "ap_status_name AP_SINK_ERROR = ''sink error''"
| "ap_status_name AP_UPLOAD_TARGET_REJECTED = ''upload target rejected''"

abbreviation (input) AP_PREFIX_SIZE :: nat where "AP_PREFIX_SIZE \<equiv> 11"
abbreviation (input) AP_CHECKSUM_SIZE :: nat where "AP_CHECKSUM_SIZE \<equiv> 4"
abbreviation (input) AP_CHUNK_PREFIX_SIZE :: nat where "AP_CHUNK_PREFIX_SIZE \<equiv> 7"
abbreviation (input) AP_BOOST_HEADER_SIZE :: nat where "AP_BOOST_HEADER_SIZE \<equiv> 31"
abbreviation (input) AP_RECORD_OVERHEAD :: nat where "AP_RECORD_OVERHEAD \<equiv> 46"
abbreviation (input) AP_MAX_RECORD_SIZE :: nat where "AP_MAX_RECORD_SIZE \<equiv> 65542"
abbreviation (input) AP_MAX_CHUNK_PAYLOAD :: nat where "AP_MAX_CHUNK_PAYLOAD \<equiv> 16777211"

abbreviation (input) AP_OPCODE_RESPONSE :: u16 where "AP_OPCODE_RESPONSE \<equiv> 0x1601"
abbreviation (input) AP_OPCODE_SELECT_MAP :: u16 where "AP_OPCODE_SELECT_MAP \<equiv> 0x1612"
abbreviation (input) AP_OPCODE_DOWNLOAD :: u16 where "AP_OPCODE_DOWNLOAD \<equiv> 0x1620"
abbreviation (input) AP_OPCODE_TEMP_NOTICE :: u16 where "AP_OPCODE_TEMP_NOTICE \<equiv> 0x1621"
abbreviation (input) AP_OPCODE_UPLOAD :: u16 where "AP_OPCODE_UPLOAD \<equiv> 0x1622"
abbreviation (input) AP_OPCODE_DELETE :: u16 where "AP_OPCODE_DELETE \<equiv> 0x1625"
abbreviation (input) AP_OPCODE_LIST :: u16 where "AP_OPCODE_LIST \<equiv> 0x1626"

definition BOOST_HEADER :: "u8 list" where
  "BOOST_HEADER = ascii ''serialization::archive''
     @ [0x03, 0x04, 0x04, 0x04, 0x08, 0x01, 0x00, 0x00, 0x00]"

lemma length_BOOST_HEADER [simp, wire_len]: "length BOOST_HEADER = 31"
  by (simp add: BOOST_HEADER_def)

section \<open>The byte writer\<close>

record byte_writer =
  bw_cursor :: nat
  bw_remaining :: nat

type_synonym wstate = "byte_writer \<times> u8 list"
type_synonym writer = "wstate \<Rightarrow> bool \<times> wstate"

definition wr_advance :: "u8 list \<Rightarrow> wstate \<Rightarrow> wstate" where
  "wr_advance xs st =
     (case st of (w, buf) \<Rightarrow>
        (w\<lparr>bw_cursor := bw_cursor w + length xs, bw_remaining := bw_remaining w - length xs\<rparr>,
         blit (bw_cursor w) xs buf))"

definition writer_bytes :: "u8 span \<Rightarrow> writer" where
  "writer_bytes value st =
     (if slen value > bw_remaining (fst st) \<or> null_with_length value then (False, st)
      else (True, if slen value > 0 then wr_advance (sbytes value) st else st))"

definition writer_zeros :: "nat \<Rightarrow> writer" where
  "writer_zeros n st =
     (if n > bw_remaining (fst st) then (False, st)
      else (True, wr_advance (replicate n 0) st))"

definition writer_lp :: "u8 span \<Rightarrow> writer" where
  "writer_lp value st =
     (if slen value > 2 ^ 32 - 1 \<or> bw_remaining (fst st) < 4 then (False, st)
      else writer_bytes value (wr_advance (store_u32_le (of_nat (slen value))) st))"

definition writer_u32_le :: "u32 \<Rightarrow> writer" where
  "writer_u32_le value st =
     (if bw_remaining (fst st) < 4 then (False, st)
      else (True, wr_advance (store_u32_le value) st))"

text \<open>The builders chain writes with \<open>!a || !b\<close>: the first failure stops.\<close>

definition wr_and :: "writer \<Rightarrow> writer \<Rightarrow> writer" where
  "wr_and f g st = (case f st of (ok, st') \<Rightarrow> if ok then g st' else (False, st'))"

section \<open>Records\<close>

definition begin_record :: "u16 \<Rightarrow> nat \<Rightarrow> u8 span \<Rightarrow> ap_status + (u8 list \<times> nat \<times> byte_writer)" where
  "begin_record opcode payload_length output =
     (if is_null output then Inl AP_INVALID_ARGUMENT
      else case checked_add AP_RECORD_OVERHEAD payload_length of
        None \<Rightarrow> Inl AP_RECORD_TOO_LARGE
      | Some total_length \<Rightarrow>
          if total_length > AP_MAX_RECORD_SIZE then Inl AP_RECORD_TOO_LARGE
          else if slen output < total_length then Inl AP_BUFFER_TOO_SMALL
          else
            let b0 = blit 0 (replicate total_length 0) (sbytes output);
                b1 = blit 0 [0x02] b0;
                b2 = blit 3 (store_u16_be (of_nat (total_length - 7))) b1;
                b3 = blit 6 (store_u16_le opcode) b2;
                b4 = blit AP_PREFIX_SIZE BOOST_HEADER b3
            in Inr (b4, total_length,
                 \<lparr>bw_cursor = AP_PREFIX_SIZE + AP_BOOST_HEADER_SIZE,
                  bw_remaining = payload_length\<rparr>))"

type_synonym build_result = "ap_status \<times> u8 span \<times> nat option"

definition finish_record :: "u8 list \<Rightarrow> nat \<Rightarrow> byte_writer \<Rightarrow> nat option \<Rightarrow> build_result" where
  "finish_record output record_length payload_writer output_length =
     (if output_length = None then (AP_INVALID_ARGUMENT, Span output, output_length)
      else if bw_remaining payload_writer \<noteq> 0
        then (AP_INVALID_ARGUMENT, Span output, output_length)
      else
        let crc = jamcrc_zeroed_trailer (Span (take record_length output))
        in (AP_OK, Span (blit (record_length - AP_CHECKSUM_SIZE) (store_u32_be crc) output),
            Some record_length))"

text \<open>The common tail of the builders: begin, write the payload, finish.\<close>

definition with_record :: "u16 \<Rightarrow> nat \<Rightarrow> writer \<Rightarrow> u8 span \<Rightarrow> nat option \<Rightarrow> build_result" where
  "with_record opcode payload_length body output output_length =
     (case begin_record opcode payload_length output of
        Inl status \<Rightarrow> (status, output, output_length)
      | Inr (buf, record_length, w) \<Rightarrow>
          (case body (w, buf) of (ok, (w', buf')) \<Rightarrow>
             if \<not> ok then (AP_INVALID_ARGUMENT, Span buf', output_length)
             else finish_record buf' record_length w' output_length))"

definition build_record :: "u16 \<Rightarrow> u8 span \<Rightarrow> u8 span \<Rightarrow> nat option \<Rightarrow> build_result" where
  "build_record opcode payload output output_length =
     (if null_with_length payload then (AP_INVALID_ARGUMENT, output, output_length)
      else with_record opcode (slen payload) (writer_bytes payload) output output_length)"

definition build_list :: "u8 span \<Rightarrow> u8 span \<Rightarrow> nat option \<Rightarrow> build_result" where
  "build_list path output output_length =
     (if null_with_length path then (AP_INVALID_ARGUMENT, output, output_length)
      else case checked_add 4 (slen path) of
        None \<Rightarrow> (AP_INVALID_ARGUMENT, output, output_length)
      | Some payload_length \<Rightarrow>
          with_record AP_OPCODE_LIST payload_length (writer_lp path) output output_length)"

definition build_select_map :: "u8 span \<Rightarrow> u8 span \<Rightarrow> nat option \<Rightarrow> build_result" where
  "build_select_map name output output_length =
     (if null_with_length name then (AP_INVALID_ARGUMENT, output, output_length)
      else case checked_add 32 (slen name) of
        None \<Rightarrow> (AP_INVALID_ARGUMENT, output, output_length)
      | Some payload_length \<Rightarrow>
          with_record AP_OPCODE_SELECT_MAP payload_length
            (wr_and (writer_zeros 2) (wr_and (writer_lp name) (writer_zeros 26)))
            output output_length)"

definition marker :: "u8 list" where
  "marker = [0x00, 0x01]"

text \<open>The length check shared by the requests that carry a name and a path.\<close>

definition name_path_length :: "u8 span \<Rightarrow> u8 span \<Rightarrow> nat option" where
  "name_path_length name path =
     (if null_with_length name \<or> null_with_length path then None
      else do { n \<leftarrow> checked_add 37 (slen name); checked_add n (slen path) })"

definition build_download :: "u8 span \<Rightarrow> u8 span \<Rightarrow> u8 span \<Rightarrow> nat option \<Rightarrow> build_result" where
  "build_download name path output output_length =
     (case name_path_length name path of
        None \<Rightarrow> (AP_INVALID_ARGUMENT, output, output_length)
      | Some payload_length \<Rightarrow>
          with_record AP_OPCODE_DOWNLOAD payload_length
            (wr_and (writer_bytes (Span marker))
              (wr_and (writer_lp name) (wr_and (writer_zeros 27) (writer_lp path))))
            output output_length)"

definition build_temp_notice :: "u8 span \<Rightarrow> u8 span \<Rightarrow> nat option \<Rightarrow> build_result" where
  "build_temp_notice path output output_length =
     (if null_with_length path then (AP_INVALID_ARGUMENT, output, output_length)
      else case checked_add 4 (slen path) of
        None \<Rightarrow> (AP_INVALID_ARGUMENT, output, output_length)
      | Some payload_length \<Rightarrow>
          with_record AP_OPCODE_TEMP_NOTICE payload_length (writer_lp path) output output_length)"

definition build_upload ::
  "u8 span \<Rightarrow> u8 span \<Rightarrow> u32 \<Rightarrow> u32 \<Rightarrow> u8 span \<Rightarrow> nat option \<Rightarrow> build_result" where
  "build_upload name path modification_time file_size output output_length =
     (case name_path_length name path of
        None \<Rightarrow> (AP_INVALID_ARGUMENT, output, output_length)
      | Some payload_length \<Rightarrow>
          with_record AP_OPCODE_UPLOAD payload_length
            (wr_and (writer_bytes (Span marker))
              (wr_and (writer_lp name)
                (wr_and (writer_u32_le modification_time)
                  (wr_and (writer_u32_le file_size)
                    (wr_and (writer_zeros 19) (writer_lp path))))))
            output output_length)"

definition build_delete :: "u8 span \<Rightarrow> u8 span \<Rightarrow> u8 span \<Rightarrow> nat option \<Rightarrow> build_result" where
  "build_delete name path output output_length =
     (case name_path_length name path of
        None \<Rightarrow> (AP_INVALID_ARGUMENT, output, output_length)
      | Some payload_length \<Rightarrow>
          with_record AP_OPCODE_DELETE payload_length
            (wr_and (writer_bytes (Span marker))
              (wr_and (writer_lp name) (wr_and (writer_zeros 27) (writer_lp path))))
            output output_length)"

section \<open>Chunks\<close>

definition build_chunk_prefix :: "nat \<Rightarrow> u8 \<Rightarrow> u8 span \<Rightarrow> ap_status \<times> u8 span" where
  "build_chunk_prefix payload_length direction_flag output =
     (if is_null output then (AP_INVALID_ARGUMENT, output)
      else if payload_length > AP_MAX_CHUNK_PAYLOAD then (AP_RECORD_TOO_LARGE, output)
      else
        let b0 = blit 0 [0x02, 0x00] (sbytes output);
            b1 = blit 2 (store_u24_be (of_nat (payload_length + AP_CHECKSUM_SIZE))) b0;
            b2 = blit 5 [0x00, direction_flag] b1
        in (AP_OK, Span b2))"

definition build_chunk :: "u8 span \<Rightarrow> u8 \<Rightarrow> u8 span \<Rightarrow> nat option \<Rightarrow> build_result" where
  "build_chunk payload direction_flag output output_length =
     (if null_with_length payload \<or> is_null output \<or> output_length = None
        then (AP_INVALID_ARGUMENT, output, output_length)
      else if slen payload > AP_MAX_CHUNK_PAYLOAD then (AP_RECORD_TOO_LARGE, output, output_length)
      else case checked_add (AP_CHUNK_PREFIX_SIZE + AP_CHECKSUM_SIZE) (slen payload) of
        None \<Rightarrow> (AP_RECORD_TOO_LARGE, output, output_length)
      | Some total_length \<Rightarrow>
          if slen output < total_length then (AP_BUFFER_TOO_SMALL, output, output_length)
          else (case build_chunk_prefix (slen payload) direction_flag output of
            (prefix_status, out1) \<Rightarrow>
              if prefix_status \<noteq> AP_OK then (prefix_status, out1, output_length)
              else
                let b0 = (if slen payload > 0
                          then blit AP_CHUNK_PREFIX_SIZE (sbytes payload) (sbytes out1)
                          else sbytes out1);
                    b1 = blit (AP_CHUNK_PREFIX_SIZE + slen payload)
                           (replicate AP_CHECKSUM_SIZE 0) b0;
                    crc = jamcrc_zeroed_trailer (Span (take total_length b1));
                    b2 = blit (total_length - AP_CHECKSUM_SIZE) (store_u32_be crc) b1
                in (AP_OK, Span b2, Some total_length)))"

section \<open>What the writer writes\<close>

text \<open>
  \<open>wr pre zs post\<close> is a writer in the middle of its payload: \<open>pre\<close> is written, \<open>zs\<close> is the
  room that is left, \<open>post\<close> the rest of the buffer. \<open>writes f xs\<close>: with enough room, \<open>f\<close>
  succeeds and appends exactly \<open>xs\<close>.
\<close>

definition wr :: "u8 list \<Rightarrow> u8 list \<Rightarrow> u8 list \<Rightarrow> wstate" where
  "wr pre zs post = (\<lparr>bw_cursor = length pre, bw_remaining = length zs\<rparr>, pre @ zs @ post)"

definition writes :: "writer \<Rightarrow> u8 list \<Rightarrow> bool" where
  "writes f xs \<longleftrightarrow> (\<forall>pre zs post. length xs \<le> length zs \<longrightarrow>
     f (wr pre zs post) = (True, wr (pre @ xs) (drop (length xs) zs) post))"

named_theorems writes_intros \<open>what each writer operation appends\<close>

lemma wr_advance_wr:
  assumes "length xs \<le> length zs"
  shows "wr_advance xs (wr pre zs post) = wr (pre @ xs) (drop (length xs) zs) post"
  using assms by (simp add: wr_advance_def wr_def blit_def)

lemma writesI:
  "(\<And>pre zs post. length xs \<le> length zs \<Longrightarrow>
     f (wr pre zs post) = (True, wr (pre @ xs) (drop (length xs) zs) post)) \<Longrightarrow> writes f xs"
  by (simp add: writes_def)

lemma writes_bytes [writes_intros]:
  "\<not> null_with_length v \<Longrightarrow> writes (writer_bytes v) (sbytes v)"
proof (rule writesI)
  fix pre zs post :: "u8 list"
  assume n: "\<not> null_with_length v" and l: "length (sbytes v) \<le> length zs"
  have len: "slen v = length (sbytes v)" using readable_length [OF n] by simp
  show "writer_bytes v (wr pre zs post)
      = (True, wr (pre @ sbytes v) (drop (length (sbytes v)) zs) post)"
  proof (cases "sbytes v = []")
    case True
    then show ?thesis using n by (simp add: writer_bytes_def len)
  next
    case False
    then show ?thesis using n l wr_advance_wr [OF l, of pre post]
      by (simp add: writer_bytes_def len) (simp add: wr_def)
  qed
qed

lemma writes_zeros [writes_intros]: "writes (writer_zeros n) (replicate n 0)"
proof (rule writesI)
  fix pre zs post :: "u8 list"
  assume l: "length (replicate n (0 :: u8)) \<le> length zs"
  then have "\<not> n > bw_remaining (fst (wr pre zs post))" by (simp add: wr_def)
  then show "writer_zeros n (wr pre zs post)
      = (True, wr (pre @ replicate n 0) (drop (length (replicate n (0 :: u8))) zs) post)"
    using wr_advance_wr [OF l, of pre post] by (simp add: writer_zeros_def)
qed

lemma writes_u32_le [writes_intros]: "writes (writer_u32_le v) (store_u32_le v)"
proof (rule writesI)
  fix pre zs post :: "u8 list"
  assume l: "length (store_u32_le v) \<le> length zs"
  then have "\<not> bw_remaining (fst (wr pre zs post)) < 4" by (simp add: wr_def)
  then show "writer_u32_le v (wr pre zs post)
      = (True, wr (pre @ store_u32_le v) (drop (length (store_u32_le v)) zs) post)"
    using wr_advance_wr [OF l, of pre post] by (simp add: writer_u32_le_def)
qed

lemma writes_and [writes_intros]:
  assumes "writes f xs" and "writes g ys"
  shows "writes (wr_and f g) (xs @ ys)"
proof (rule writesI)
  fix pre zs post :: "u8 list"
  assume l: "length (xs @ ys) \<le> length (zs :: u8 list)"
  then have "f (wr pre zs post) = (True, wr (pre @ xs) (drop (length xs) zs) post)"
    using assms(1) by (simp add: writes_def)
  moreover have "g (wr (pre @ xs) (drop (length xs) zs) post)
      = (True, wr ((pre @ xs) @ ys) (drop (length ys) (drop (length xs) zs)) post)"
    using assms(2) l unfolding writes_def by simp
  ultimately show "wr_and f g (wr pre zs post)
      = (True, wr (pre @ xs @ ys) (drop (length (xs @ ys)) zs) post)"
    by (simp add: wr_and_def add.commute)
qed

text \<open>A length prefixed string.\<close>

definition lp_field :: "u8 list \<Rightarrow> u8 list" where
  "lp_field xs = store_u32_le (of_nat (length xs)) @ xs"

lemma length_lp_field [simp, wire_len]: "length (lp_field xs) = 4 + length xs"
  by (simp add: lp_field_def)

lemma writes_lp [writes_intros]:
  assumes "\<not> null_with_length v" and "slen v < 2 ^ 32"
  shows "writes (writer_lp v) (lp_field (sbytes v))"
proof (rule writesI)
  fix pre zs post :: "u8 list"
  assume l: "length (lp_field (sbytes v)) \<le> length (zs :: u8 list)"
  have len: "slen v = length (sbytes v)" using readable_length [OF assms(1)] by simp
  let ?n = "store_u32_le (of_nat (length (sbytes v)))"
  have a: "wr_advance ?n (wr pre zs post) = wr (pre @ ?n) (drop (length ?n) zs) post"
    using l by (intro wr_advance_wr) simp
  have b: "writer_bytes v (wr (pre @ ?n) (drop (length ?n) zs) post)
      = (True, wr ((pre @ ?n) @ sbytes v) (drop (length (sbytes v)) (drop (length ?n) zs)) post)"
    using writes_bytes [OF assms(1)] l unfolding writes_def by simp
  have "\<not> bw_remaining (fst (wr pre zs post)) < 4" using l by (simp add: wr_def)
  moreover have "\<not> slen v > 2 ^ 32 - 1" using assms(2) by simp
  ultimately show "writer_lp v (wr pre zs post)
      = (True, wr (pre @ lp_field (sbytes v)) (drop (length (lp_field (sbytes v))) zs) post)"
    using a b by (simp add: writer_lp_def len lp_field_def add.commute)
qed

section \<open>The records the builders make\<close>

definition record_head :: "u16 \<Rightarrow> nat \<Rightarrow> u8 list" where
  "record_head opcode n = [0x02, 0, 0] @ store_u16_be (of_nat (n + 39)) @ [0]
     @ store_u16_le opcode @ [0, 0, 0] @ BOOST_HEADER"

definition record_body :: "u16 \<Rightarrow> u8 list \<Rightarrow> u8 list" where
  "record_body opcode payload = record_head opcode (length payload) @ payload"

definition sealed :: "u8 list \<Rightarrow> u8 list" where
  "sealed body = body @ store_u32_be (crc32_update (- 1) (body @ zero_trailer))"

definition archive_record :: "u16 \<Rightarrow> u8 list \<Rightarrow> u8 list" where
  "archive_record opcode payload = sealed (record_body opcode payload)"

lemma length_record_head [simp, wire_len]: "length (record_head opcode n) = 42"
  by (simp add: record_head_def)

lemma length_sealed [simp, wire_len]: "length (sealed body) = length body + 4"
  by (simp add: sealed_def)

lemma length_record_body [simp, wire_len]: "length (record_body opcode p) = length p + 42"
  by (simp add: record_body_def)

lemma length_archive_record [simp, wire_len]: "length (archive_record opcode p) = length p + 46"
  by (simp add: archive_record_def)

lemma record_head_template:
  "blit 11 BOOST_HEADER (blit 6 (store_u16_le opcode)
     (blit 3 (store_u16_be (of_nat (n + 39))) (blit 0 [0x02] (replicate 42 0))))
   = record_head opcode n"
  by (simp add: record_head_def blit_def numeral_eq_Suc store_u16_be_def store_u16_le_def
      BOOST_HEADER_def)

lemma begin_record_ok:
  assumes cap: "n + 46 \<le> length out" and max: "n + 46 \<le> AP_MAX_RECORD_SIZE"
  shows "begin_record opcode n (Span out) =
    Inr (record_head opcode n @ replicate (n + 4) 0 @ drop (n + 46) out, n + 46,
         \<lparr>bw_cursor = 42, bw_remaining = n\<rparr>)"
proof -
  let ?z = "replicate 42 0 :: u8 list"
  let ?r = "replicate (n + 4) 0 @ drop (n + 46) out"
  have add: "checked_add 46 n = Some (n + 46)"
    using max checked_add_eq_Some [of 46 n] by (simp add: SIZE_MAX_def add.commute)
  have zero: "blit 0 (replicate (n + 46) 0) out = ?z @ ?r"
  proof -
    have "replicate (n + 46) (0 :: u8) = replicate (42 + (n + 4)) 0" by simp
    also have "\<dots> = ?z @ replicate (n + 4) 0" by (rule replicate_add)
    finally show ?thesis by (simp only: blit_0 length_replicate append_assoc) (simp add: add.commute)
  qed
  have "blit 11 BOOST_HEADER (blit 6 (store_u16_le opcode)
      (blit 3 (store_u16_be (of_nat (n + 39))) (blit 0 [0x02] (?z @ ?r))))
    = blit 11 BOOST_HEADER (blit 6 (store_u16_le opcode)
      (blit 3 (store_u16_be (of_nat (n + 39))) (blit 0 [0x02] ?z))) @ ?r"
    by (simp add: blit_in_prefix length_blit del: replicate.simps append.simps)
  then have image: "blit 11 BOOST_HEADER (blit 6 (store_u16_le opcode)
      (blit 3 (store_u16_be (of_nat (n + 39))) (blit 0 [0x02] (blit 0 (replicate (n + 46) 0) out))))
    = record_head opcode n @ ?r"
    by (simp only: zero record_head_template)
  have len: "n + 46 - 7 = n + 39" by simp
  show ?thesis
    unfolding begin_record_def using cap max
    by (simp only: add image len is_null.simps slen.simps sbytes.simps Let_def option.case
        if_False not_le [symmetric] HOL.simp_thms) simp
qed

lemma finish_record_ok:
  assumes "length body = record_length - 4" and "4 \<le> record_length" and "length z = 4"
  shows "finish_record (body @ z @ post) record_length
           \<lparr>bw_cursor = c, bw_remaining = 0\<rparr> (Some l)
         = (AP_OK, Span (sealed body @ post), Some record_length)"
proof -
  have "take record_length (body @ z @ post) = body @ z" using assms by simp
  moreover have "blit (record_length - 4) xs (body @ z @ post) = body @ xs @ post"
    if "length xs = 4" for xs using assms that by (intro blit_append) simp_all
  ultimately show ?thesis
    using assms(3) jamcrc_zeroed_trailer_append [of z body]
    by (simp add: finish_record_def sealed_def Let_def)
qed

lemma with_record_ok:
  assumes w: "writes body payload" and n: "n = length payload"
    and cap: "n + 46 \<le> length out" and max: "n + 46 \<le> AP_MAX_RECORD_SIZE"
  shows "with_record opcode n body (Span out) (Some l)
    = (AP_OK, Span (archive_record opcode payload @ drop (n + 46) out), Some (n + 46))"
proof -
  let ?h = "record_head opcode n" and ?post = "replicate 4 0 @ drop (n + 46) out"
  have rep: "replicate (n + 4) (0 :: u8) = replicate n 0 @ replicate 4 0" by (rule replicate_add)
  have "body (wr ?h (replicate n 0) ?post)
      = (True, wr (?h @ payload) (drop (length payload) (replicate n 0)) ?post)"
    using w n unfolding writes_def by simp
  then have run: "body (\<lparr>bw_cursor = 42, bw_remaining = n\<rparr>,
        ?h @ replicate (n + 4) 0 @ drop (n + 46) out)
      = (True, (\<lparr>bw_cursor = n + 42, bw_remaining = 0\<rparr>, (?h @ payload) @ ?post))"
    unfolding wr_def rep using n by (simp add: add.commute)
  have fin: "finish_record ((?h @ payload) @ ?post) (n + 46)
        \<lparr>bw_cursor = n + 42, bw_remaining = 0\<rparr> (Some l)
      = (AP_OK, Span (sealed (?h @ payload) @ drop (n + 46) out), Some (n + 46))"
    using n by (intro finish_record_ok) simp_all
  show ?thesis
    unfolding with_record_def begin_record_ok [OF cap max]
    using run fin n by (simp add: archive_record_def record_body_def)
qed

text \<open>
  With a valid output pointer and length pointer the outcome is decided by the sizes alone, and
  an error leaves the caller's buffer and length as they were.
\<close>

lemma with_record_cases:
  assumes w: "writes body payload" and n: "n = length payload" and max: "n + 46 \<le> SIZE_MAX"
  shows "with_record opcode n body (Span out) (Some l) =
    (if n + 46 > AP_MAX_RECORD_SIZE then (AP_RECORD_TOO_LARGE, Span out, Some l)
     else if length out < n + 46 then (AP_BUFFER_TOO_SMALL, Span out, Some l)
     else (AP_OK, Span (archive_record opcode payload @ drop (n + 46) out), Some (n + 46)))"
proof (cases "n + 46 \<le> AP_MAX_RECORD_SIZE \<and> n + 46 \<le> length out")
  case True
  then show ?thesis using with_record_ok [OF w n] by simp
next
  case False
  have "checked_add 46 n = Some (n + 46)"
    using max checked_add_eq_Some [of 46 n] by (simp add: add.commute)
  then show ?thesis using False by (auto simp: with_record_def begin_record_def)
qed

section \<open>The payload of each request\<close>

definition delete_payload :: "u8 list \<Rightarrow> u8 list \<Rightarrow> u8 list" where
  "delete_payload name path = marker @ lp_field name @ replicate 27 0 @ lp_field path"

definition upload_payload :: "u8 list \<Rightarrow> u8 list \<Rightarrow> u32 \<Rightarrow> u32 \<Rightarrow> u8 list" where
  "upload_payload name path t sz = marker @ lp_field name @ store_u32_le t
     @ store_u32_le sz @ replicate 19 0 @ lp_field path"

definition select_payload :: "u8 list \<Rightarrow> u8 list" where
  "select_payload name = replicate 2 0 @ lp_field name @ replicate 26 0"

lemma length_payloads [simp, wire_len]:
  "length (delete_payload name path) = 37 + length name + length path"
  "length (upload_payload name path t sz) = 37 + length name + length path"
  "length (select_payload name) = 32 + length name"
  by (simp_all add: delete_payload_def upload_payload_def select_payload_def marker_def)

lemma name_path_length_ok:
  "37 + length name + length path \<le> SIZE_MAX \<Longrightarrow>
   name_path_length (Span name) (Span path) = Some (37 + length name + length path)"
  by (simp add: name_path_length_def checked_add_eq_Some)

lemma writes_span_bytes [writes_intros]: "writes (writer_bytes (Span xs)) xs"
  using writes_bytes [of "Span xs"] by simp

lemma writes_span_lp: "length xs < 2 ^ 32 \<Longrightarrow> writes (writer_lp (Span xs)) (lp_field xs)"
  using writes_lp [of "Span xs"] by simp

text \<open>The outcome every builder has in terms of the payload it serialises.\<close>

definition build_outcome :: "u16 \<Rightarrow> u8 list \<Rightarrow> u8 list \<Rightarrow> nat \<Rightarrow> build_result" where
  "build_outcome opcode payload out l =
     (if length payload + 46 > AP_MAX_RECORD_SIZE then (AP_RECORD_TOO_LARGE, Span out, Some l)
      else if length out < length payload + 46 then (AP_BUFFER_TOO_SMALL, Span out, Some l)
      else (AP_OK, Span (archive_record opcode payload @ drop (length payload + 46) out),
            Some (length payload + 46)))"

lemma with_record_outcome:
  "writes body payload \<Longrightarrow> n = length payload \<Longrightarrow> n + 46 \<le> SIZE_MAX \<Longrightarrow>
   with_record opcode n body (Span out) (Some l) = build_outcome opcode payload out l"
  by (simp only: with_record_cases build_outcome_def)

lemma SIZE_MAX_less: "n \<le> SIZE_MAX \<Longrightarrow> n < 2 ^ 32"
  by (simp add: SIZE_MAX_def)

lemma build_record_outcome:
  "length payload + 46 \<le> SIZE_MAX \<Longrightarrow>
   build_record opcode (Span payload) (Span out) (Some l) = build_outcome opcode payload out l"
  by (simp add: build_record_def with_record_outcome [OF writes_span_bytes])

lemma build_list_outcome:
  assumes "length path + 50 \<le> SIZE_MAX"
  shows "build_list (Span path) (Span out) (Some l)
    = build_outcome AP_OPCODE_LIST (lp_field path) out l"
proof -
  have "writes (writer_lp (Span path)) (lp_field path)"
    using assms by (intro writes_span_lp SIZE_MAX_less) simp
  then show ?thesis
    using assms by (simp add: build_list_def checked_add_eq_Some with_record_outcome)
qed

lemma build_temp_notice_outcome:
  assumes "length path + 50 \<le> SIZE_MAX"
  shows "build_temp_notice (Span path) (Span out) (Some l)
    = build_outcome AP_OPCODE_TEMP_NOTICE (lp_field path) out l"
proof -
  have "writes (writer_lp (Span path)) (lp_field path)"
    using assms by (intro writes_span_lp SIZE_MAX_less) simp
  then show ?thesis
    using assms by (simp add: build_temp_notice_def checked_add_eq_Some with_record_outcome)
qed

lemma build_select_map_outcome:
  assumes "length name + 78 \<le> SIZE_MAX"
  shows "build_select_map (Span name) (Span out) (Some l)
    = build_outcome AP_OPCODE_SELECT_MAP (select_payload name) out l"
proof -
  have "writes (writer_lp (Span name)) (lp_field name)"
    using assms by (intro writes_span_lp SIZE_MAX_less) simp
  then have "writes (wr_and (writer_zeros 2) (wr_and (writer_lp (Span name)) (writer_zeros 26)))
      (select_payload name)"
    unfolding select_payload_def by (intro writes_and writes_zeros)
  then show ?thesis
    using assms by (simp add: build_select_map_def checked_add_eq_Some with_record_outcome)
qed

lemma writes_delete_payload:
  assumes "83 + length name + length path \<le> SIZE_MAX"
  shows "writes (wr_and (writer_bytes (Span marker))
      (wr_and (writer_lp (Span name)) (wr_and (writer_zeros 27) (writer_lp (Span path)))))
    (delete_payload name path)"
proof -
  have "length name \<le> SIZE_MAX" "length path \<le> SIZE_MAX" using assms by simp_all
  then show ?thesis unfolding delete_payload_def
    by (intro writes_and writes_zeros writes_span_bytes writes_span_lp SIZE_MAX_less)
qed

lemma build_download_outcome:
  "83 + length name + length path \<le> SIZE_MAX \<Longrightarrow>
   build_download (Span name) (Span path) (Span out) (Some l)
     = build_outcome AP_OPCODE_DOWNLOAD (delete_payload name path) out l"
  by (simp add: build_download_def name_path_length_ok
      with_record_outcome [OF writes_delete_payload])

lemma build_delete_outcome:
  "83 + length name + length path \<le> SIZE_MAX \<Longrightarrow>
   build_delete (Span name) (Span path) (Span out) (Some l)
     = build_outcome AP_OPCODE_DELETE (delete_payload name path) out l"
  by (simp add: build_delete_def name_path_length_ok
      with_record_outcome [OF writes_delete_payload])

lemma build_upload_outcome:
  assumes "83 + length name + length path \<le> SIZE_MAX"
  shows "build_upload (Span name) (Span path) t sz (Span out) (Some l)
    = build_outcome AP_OPCODE_UPLOAD (upload_payload name path t sz) out l"
proof -
  have "length name \<le> SIZE_MAX" "length path \<le> SIZE_MAX" using assms by simp_all
  then have "writes (wr_and (writer_bytes (Span marker)) (wr_and (writer_lp (Span name))
      (wr_and (writer_u32_le t) (wr_and (writer_u32_le sz)
        (wr_and (writer_zeros 19) (writer_lp (Span path)))))))
    (upload_payload name path t sz)"
    unfolding upload_payload_def
    by (intro writes_and writes_zeros writes_u32_le writes_span_bytes writes_span_lp SIZE_MAX_less)
  then show ?thesis
    using assms by (simp add: build_upload_def name_path_length_ok with_record_outcome)
qed

lemmas build_outcomes = build_record_outcome build_list_outcome build_temp_notice_outcome
  build_select_map_outcome build_download_outcome build_delete_outcome build_upload_outcome

section \<open>The chunks the builders make\<close>

definition chunk_head :: "u8 \<Rightarrow> nat \<Rightarrow> u8 list" where
  "chunk_head direction_flag n = [0x02, 0] @ store_u24_be (of_nat (n + 4)) @ [0, direction_flag]"

definition chunk_record :: "u8 \<Rightarrow> u8 list \<Rightarrow> u8 list" where
  "chunk_record direction_flag payload =
     sealed (chunk_head direction_flag (length payload) @ payload)"

lemma length_chunk_head [simp, wire_len]: "length (chunk_head f n) = 7"
  by (simp add: chunk_head_def)

lemma length_chunk_record [simp, wire_len]: "length (chunk_record f p) = length p + 11"
  by (simp add: chunk_record_def)

lemma list_of_length_7:
  assumes "length z = 7"
  obtains a b c d e f g where "z = [a, b, c, d, e, f, g]"
  using assms by (auto simp: length_Suc_conv numeral_eq_Suc)

lemma chunk_head_template:
  assumes "length z = 7"
  shows "blit 5 [0, f] (blit 2 (store_u24_be (of_nat (n + 4))) (blit 0 [0x02, 0] z))
    = chunk_head f n"
  using assms
  by (rule list_of_length_7) (simp add: chunk_head_def blit_def store_u24_be_def)

lemma build_chunk_prefix_ok:
  assumes "n \<le> AP_MAX_CHUNK_PAYLOAD" and "7 \<le> length out"
  shows "build_chunk_prefix n f (Span out) = (AP_OK, Span (chunk_head f n @ drop 7 out))"
proof -
  have split: "out = take 7 out @ drop 7 out" and l: "length (take 7 out) = 7"
    using assms(2) by simp_all
  have "blit 5 [0, f] (blit 2 (store_u24_be (of_nat (n + 4))) (blit 0 [0x02, 0] (take 7 out @ drop 7 out)))
      = blit 5 [0, f] (blit 2 (store_u24_be (of_nat (n + 4))) (blit 0 [0x02, 0] (take 7 out))) @ drop 7 out"
    using l by (simp add: blit_in_prefix length_blit del: append_take_drop_id length_take)
  also have "\<dots> = chunk_head f n @ drop 7 out" by (simp only: chunk_head_template [OF l])
  finally have "blit 5 [0, f] (blit 2 (store_u24_be (of_nat (n + 4))) (blit 0 [0x02, 0] out))
      = chunk_head f n @ drop 7 out" by simp
  then show ?thesis using assms by (simp add: build_chunk_prefix_def Let_def)
qed

lemma build_chunk_outcome:
  assumes "length payload + 11 \<le> SIZE_MAX"
  shows "build_chunk (Span payload) f (Span out) (Some l) =
    (if length payload > AP_MAX_CHUNK_PAYLOAD then (AP_RECORD_TOO_LARGE, Span out, Some l)
     else if length out < length payload + 11 then (AP_BUFFER_TOO_SMALL, Span out, Some l)
     else (AP_OK, Span (chunk_record f payload @ drop (length payload + 11) out),
           Some (length payload + 11)))"
proof (cases "length payload \<le> AP_MAX_CHUNK_PAYLOAD \<and> length payload + 11 \<le> length out")
  case False
  then show ?thesis using assms by (auto simp: build_chunk_def checked_add_eq_Some)
next
  case True
  let ?n = "length payload" and ?h = "chunk_head f (length payload)"
  let ?post = "drop (?n + 11) out"
  define mid where "mid = take ?n (drop 7 out)"
  define old where "old = take 4 (drop (?n + 7) out)"
  have lens: "length mid = ?n" "length old = 4" using True by (auto simp: mid_def old_def min_def)
  have rest: "drop 7 out = mid @ old @ ?post"
  proof -
    have "old @ ?post = drop (?n + 7) out"
      unfolding old_def using append_take_drop_id [of 4 "drop (?n + 7) out"]
      by (simp add: add.commute)
    then show ?thesis
      unfolding mid_def using append_take_drop_id [of ?n "drop 7 out"] by simp
  qed
  have pre: "build_chunk_prefix ?n f (Span out) = (AP_OK, Span (?h @ mid @ old @ ?post))"
    using True build_chunk_prefix_ok [of ?n out f] by (simp add: rest)
  have p: "(if ?n > 0 then blit 7 payload (?h @ mid @ old @ ?post) else ?h @ mid @ old @ ?post)
      = ?h @ payload @ old @ ?post"
  proof (cases "payload = []")
    case True
    then show ?thesis using lens by simp
  next
    case False
    then show ?thesis using lens by (simp add: blit_append)
  qed
  have z: "blit (7 + ?n) (replicate 4 0) (?h @ payload @ old @ ?post)
      = (?h @ payload) @ zero_trailer @ ?post"
    using lens blit_append [of "7 + ?n" "?h @ payload" "replicate 4 0" old ?post]
    by (simp add: zero_trailer_def numeral_eq_Suc)
  have t: "take (?n + 11) ((?h @ payload) @ zero_trailer @ ?post) = (?h @ payload) @ zero_trailer"
    by (simp add: zero_trailer_def)
  have c: "jamcrc_zeroed_trailer (Span ((?h @ payload) @ zero_trailer))
      = crc32_update (- 1) ((?h @ payload) @ zero_trailer)"
    by (rule jamcrc_zeroed_trailer_append) (simp add: zero_trailer_def)
  have s: "blit (?n + 11 - 4) (store_u32_be v) ((?h @ payload) @ zero_trailer @ ?post)
      = (?h @ payload) @ store_u32_be v @ ?post" for v
    by (rule blit_append) (simp_all add: zero_trailer_def)
  have add: "checked_add (7 + 4) ?n = Some (?n + 11)"
    using assms checked_add_eq_Some [of 11 ?n] by (simp add: add.commute)
  have g: "(?n > AP_MAX_CHUNK_PAYLOAD) = False" "(length out < ?n + 11) = False"
    using True by auto
  have st: "AP_OK \<noteq> AP_OK \<longleftrightarrow> False" by simp
  have "build_chunk (Span payload) f (Span out) (Some l)
      = (AP_OK, Span ((?h @ payload) @ store_u32_be (crc32_update (- 1) ((?h @ payload) @ zero_trailer))
          @ ?post), Some (?n + 11))"
    unfolding build_chunk_def
    by (simp only: g add pre p z t c s st Let_def prod.case option.case sbytes.simps slen.simps
        is_null.simps null_with_length_simps option.distinct HOL.simp_thms if_True if_False)
  then show ?thesis using True by (simp add: chunk_record_def sealed_def)
qed

end
