(* ===== verification/Accessport_Parse.thy ===== *)
theory Accessport_Parse
  imports Accessport_Build
begin

text \<open>
  Validating and parsing archive records and chunks (accessport_protocol/
  revlink_accessport_protocol.c). Every function takes its input as a span and returns the
  status together with what it stores through its out pointers (\<open>None\<close> for a NULL pointer). A
  view into the payload is the list of the bytes it shows. The theorems say that the parser
  accepts exactly the records of the builders and that a single altered byte is detected.
\<close>

section \<open>Records and chunks\<close>

text \<open>The comparison of the checksum with the last four bytes.\<close>

definition trailer_matches :: "u8 list \<Rightarrow> bool" where
  "trailer_matches rec \<longleftrightarrow>
     jamcrc_zeroed_trailer (Span rec) = load_u32_be (drop (length rec - AP_CHECKSUM_SIZE) rec)"

fun validate_record :: "u8 span \<Rightarrow> ap_status" where
  "validate_record (NullSpan n) = AP_INVALID_ARGUMENT"
| "validate_record (Span rec) =
     (if length rec < AP_RECORD_OVERHEAD \<or> length rec > AP_MAX_RECORD_SIZE
         \<or> rec ! 0 \<noteq> 0x02 \<or> rec ! 1 \<noteq> 0x00 \<or> rec ! 2 \<noteq> 0x00 \<or> rec ! 5 \<noteq> 0x00
         \<or> rec ! 8 \<noteq> 0x00 \<or> rec ! 9 \<noteq> 0x00 \<or> rec ! 10 \<noteq> 0x00
         \<or> unat (load_u16_be (drop 3 rec)) + 7 \<noteq> length rec
      then AP_INVALID_FRAME
      else if \<not> trailer_matches rec then AP_INVALID_CHECKSUM
      else AP_OK)"

fun validate_chunk :: "u8 span \<Rightarrow> ap_status" where
  "validate_chunk (NullSpan n) = AP_INVALID_ARGUMENT"
| "validate_chunk (Span chunk) =
     (if length chunk < AP_CHUNK_PREFIX_SIZE + AP_CHECKSUM_SIZE
         \<or> chunk ! 0 \<noteq> 0x02 \<or> chunk ! 1 \<noteq> 0x00 \<or> chunk ! 5 \<noteq> 0x00
         \<or> unat (load_u24_be (drop 2 chunk)) + AP_CHUNK_PREFIX_SIZE \<noteq> length chunk
      then AP_INVALID_FRAME
      else if \<not> trailer_matches chunk then AP_INVALID_CHECKSUM
      else AP_OK)"

record record_view =
  rv_opcode :: u16
  rv_payload :: "u8 list"

definition parse_record :: "u8 span \<Rightarrow> record_view option \<Rightarrow> ap_status \<times> record_view option" where
  "parse_record rec view =
     (if view = None then (AP_INVALID_ARGUMENT, view)
      else
        let status = validate_record rec in
        if status \<noteq> AP_OK then (status, view)
        else if take AP_BOOST_HEADER_SIZE (drop AP_PREFIX_SIZE (sbytes rec)) \<noteq> BOOST_HEADER
          then (AP_INVALID_FRAME, view)
        else (AP_OK, Some \<lparr>rv_opcode = load_u16_le (drop 6 (sbytes rec)),
               rv_payload = take (slen rec - AP_RECORD_OVERHEAD)
                 (drop (AP_PREFIX_SIZE + AP_BOOST_HEADER_SIZE) (sbytes rec))\<rparr>))"

section \<open>The checksum in the trailer\<close>

lemma trailer_matches_sealed [simp]: "trailer_matches (sealed body)"
  by (simp add: trailer_matches_def sealed_def jamcrc_zeroed_trailer_append)

lemma split_trailer:
  assumes "4 \<le> length rec"
  obtains body t where "rec = body @ t" "length t = 4" "length body = length rec - 4"
  using assms by (metis append_take_drop_id length_drop diff_diff_cancel length_take min.absorb2
      diff_le_self)

lemma trailer_matches_iff:
  "length t = 4 \<Longrightarrow> trailer_matches (body @ t) \<longleftrightarrow> body @ t = sealed body"
  unfolding trailer_matches_def sealed_def
  by (simp add: jamcrc_zeroed_trailer_append) (metis load_store_exact(3) store_load_u32_be)

lemma trailer_detects:
  assumes len: "4 \<le> length rec" and ok: "trailer_matches rec"
    and i: "i < length rec" and b: "b \<noteq> rec ! i"
  shows "\<not> trailer_matches (rec[i := b])"
proof
  assume bad: "trailer_matches (rec[i := b])"
  from len obtain body t where r: "rec = body @ t" and t: "length t = 4"
    by (rule split_trailer)
  show False
  proof (cases "i < length body")
    case True
    then have "rec[i := b] = body[i := b] @ t" by (simp add: r list_update_append)
    with bad ok r t have "jamcrc_zeroed_trailer (Span (body[i := b] @ t))
        = jamcrc_zeroed_trailer (Span (body @ t))"
      by (simp add: trailer_matches_def)
    then have "b = body ! i" by (rule zeroed_trailer_detects [OF t t True])
    with b True r show False by (simp add: nth_append)
  next
    case False
    then have u: "rec[i := b] = body @ t[i - length body := b]"
      by (simp add: r list_update_append)
    with bad ok r t have "load_u32_be (t[i - length body := b]) = load_u32_be t"
      by (simp add: trailer_matches_def jamcrc_zeroed_trailer_append)
    then have "t[i - length body := b] = t" by (intro load_u32_be_inj) (simp_all add: t)
    moreover have "i - length body < length t" using i r False by simp
    ultimately have "b = t ! (i - length body)" by (metis nth_list_update_eq)
    with b False r i show False by (simp add: nth_append)
  qed
qed

section \<open>Records\<close>

lemma record_head_nth:
  "(record_head opcode n @ xs) ! 0 = 0x02" "(record_head opcode n @ xs) ! 1 = 0"
  "(record_head opcode n @ xs) ! 2 = 0" "(record_head opcode n @ xs) ! 5 = 0"
  "(record_head opcode n @ xs) ! 8 = 0" "(record_head opcode n @ xs) ! 9 = 0"
  "(record_head opcode n @ xs) ! 10 = 0"
  by (simp_all add: record_head_def store_u16_be_def store_u16_le_def numeral_eq_Suc)

lemma record_head_drops:
  "drop 3 (record_head opcode n @ xs)
     = store_u16_be (of_nat (n + 39)) @ drop 5 (record_head opcode n) @ xs"
  "drop 6 (record_head opcode n @ xs) = store_u16_le opcode @ drop 8 (record_head opcode n) @ xs"
  "drop 11 (record_head opcode n @ xs) = BOOST_HEADER @ xs"
  "drop 42 (record_head opcode n @ xs) = xs"
  by (simp_all add: record_head_def store_u16_be_def store_u16_le_def numeral_eq_Suc)

lemma archive_record_nth:
  "archive_record opcode p ! 0 = 0x02" "archive_record opcode p ! 1 = 0"
  "archive_record opcode p ! 2 = 0" "archive_record opcode p ! 5 = 0"
  "archive_record opcode p ! 8 = 0" "archive_record opcode p ! 9 = 0"
  "archive_record opcode p ! 10 = 0"
  unfolding archive_record_def sealed_def record_body_def append_assoc
  by (rule record_head_nth)+

lemma archive_record_loads:
  "load_u16_be (drop 3 (archive_record opcode p)) = of_nat (length p + 39)"
  "load_u16_le (drop 6 (archive_record opcode p)) = opcode"
  "take 31 (drop 11 (archive_record opcode p)) = BOOST_HEADER"
  "take (length p) (drop 42 (archive_record opcode p)) = p"
  unfolding archive_record_def sealed_def record_body_def append_assoc
  by (simp_all only: record_head_drops load_store_simps) simp_all

lemmas archive_record_fields = archive_record_nth archive_record_nth(2) [simplified One_nat_def]
  archive_record_loads

lemma unat_of_nat_u16: "n < 65536 \<Longrightarrow> unat (of_nat n :: u16) = n"
  by (simp add: unat_of_nat take_bit_nat_eq_self)

lemma validate_archive_record:
  assumes "length p \<le> AP_MAX_RECORD_SIZE - AP_RECORD_OVERHEAD"
  shows "validate_record (Span (archive_record opcode p)) = AP_OK"
proof -
  have "unat (of_nat (length p + 39) :: u16) = length p + 39"
    using assms by (intro unat_of_nat_u16) simp
  moreover have "trailer_matches (archive_record opcode p)" by (simp add: archive_record_def)
  ultimately show ?thesis
    using assms by (simp add: archive_record_fields del: of_nat_add)
qed

lemma parse_archive_record:
  assumes "length p \<le> AP_MAX_RECORD_SIZE - AP_RECORD_OVERHEAD"
  shows "parse_record (Span (archive_record opcode p)) (Some v)
    = (AP_OK, Some \<lparr>rv_opcode = opcode, rv_payload = p\<rparr>)"
  by (simp add: parse_record_def validate_archive_record [OF assms] archive_record_fields Let_def
      del: validate_record.simps)

text \<open>Conversely, a record the parser accepts is the record of its opcode and payload.\<close>

lemma record_head_of_bytes:
  assumes "length rec = n + 46" and "n + 39 < 65536"
    and "rec ! 0 = 0x02" "rec ! 1 = 0" "rec ! 2 = 0" "rec ! 5 = 0" "rec ! 8 = 0" "rec ! 9 = 0"
      "rec ! 10 = 0" and "load_u16_be (drop 3 rec) = of_nat (n + 39)"
    and "take 31 (drop 11 rec) = BOOST_HEADER"
  shows "take 42 rec = record_head (load_u16_le (drop 6 rec)) n"
proof -
  have "take 42 rec = take (11 + 31) rec" by simp
  also have "\<dots> = take 11 rec @ take 31 (drop 11 rec)" by (rule take_add)
  finally have cut: "take 42 rec = take 11 rec @ BOOST_HEADER" using assms(11) by simp
  have up: "[0..<11] = [0, 1, 2, 3, 4, 5, 6, 7, 8, 9, 10]" by (simp add: upt_rec)
  have head: "take 11 rec = [rec ! 0, rec ! 1, rec ! 2] @ [rec ! 3, rec ! 4] @ [rec ! 5]
      @ [rec ! 6, rec ! 7] @ [rec ! 8, rec ! 9, rec ! 10]"
    using assms(1) by (simp add: take_nths up)
  have "[rec ! 3, rec ! 4] = store_u16_be (of_nat (n + 39))"
    using store_load_u16_be [of "drop 3 rec"] assms(1) by (simp add: assms(10))
  moreover have "[rec ! 6, rec ! 7] = store_u16_le (load_u16_le (drop 6 rec))"
    using store_load_u16_le [of "drop 6 rec"] assms(1) by simp
  ultimately show ?thesis unfolding cut head record_head_def assms(3-9) by simp
qed

lemma parse_record_OK_D:
  assumes "parse_record (Span rec) (Some v) = (AP_OK, Some w)"
  shows "rec = archive_record (rv_opcode w) (rv_payload w)
    \<and> length (rv_payload w) \<le> AP_MAX_RECORD_SIZE - AP_RECORD_OVERHEAD"
proof -
  from assms have val: "validate_record (Span rec) = AP_OK"
    and boost: "take 31 (drop 11 rec) = BOOST_HEADER"
    and w: "w = \<lparr>rv_opcode = load_u16_le (drop 6 rec),
      rv_payload = take (length rec - 46) (drop 42 rec)\<rparr>"
    by (auto simp: parse_record_def Let_def simp del: validate_record.simps split: if_splits)
  from val have len: "46 \<le> length rec" "length rec \<le> 65542"
    and nths: "rec ! 0 = 0x02" "rec ! 1 = 0" "rec ! 2 = 0" "rec ! 5 = 0" "rec ! 8 = 0"
      "rec ! 9 = 0" "rec ! 10 = 0"
    and size: "unat (load_u16_be (drop 3 rec)) + 7 = length rec" and tr: "trailer_matches rec"
    by (simp_all split: if_splits)
  define n where "n = length rec - 46"
  have ln: "length rec = n + 46" and nb: "n + 39 < 65536" using len by (simp_all add: n_def)
  have ld: "load_u16_be (drop 3 rec) = of_nat (n + 39)"
  proof -
    have "unat (load_u16_be (drop 3 rec)) = n + 39" using size ln by simp
    then have "of_nat (unat (load_u16_be (drop 3 rec))) = (of_nat (n + 39) :: u16)" by simp
    then show ?thesis by simp
  qed
  have head: "take 42 rec = record_head (rv_opcode w) n"
    using record_head_of_bytes [OF ln nb nths ld boost] by (simp add: w)
  have p: "rv_payload w = take n (drop 42 rec)" and lp: "length (rv_payload w) = n"
    using ln by (simp_all add: w n_def)
  have "4 \<le> length rec" using len by simp
  then obtain body t where r: "rec = body @ t" "length t = 4" "length body = length rec - 4"
    by (rule split_trailer)
  have "body = take (42 + n) rec" using r ln by simp
  also have "\<dots> = take 42 rec @ take n (drop 42 rec)" by (rule take_add)
  finally have "body = record_body (rv_opcode w) (rv_payload w)"
    by (simp add: record_body_def head p [symmetric] lp)
  then show ?thesis
    using tr r lp nb by (simp add: trailer_matches_iff archive_record_def)
qed

text \<open>
  C3. The parser accepts exactly the records the protocol defines: \<open>parse_record\<close> returns OK
  with a view if and only if the bytes are the archive record of that opcode and payload
  (framing, Boost header, length field and checksum), with a payload that fits the 16-bit
  length field.
\<close>

theorem parse_record_exact:
  "parse_record (Span rec) (Some v) = (AP_OK, Some w) \<longleftrightarrow>
   rec = archive_record (rv_opcode w) (rv_payload w)
     \<and> length (rv_payload w) \<le> AP_MAX_RECORD_SIZE - AP_RECORD_OVERHEAD"
  using parse_record_OK_D parse_archive_record by (metis record_view.surjective old.unit.exhaust)

text \<open>
  A record built for any opcode and payload is accepted by the parser, which returns the
  same opcode and payload; the builder writes nothing behind the reported length.
\<close>

lemma build_record_roundtrip:
  assumes "length payload + 46 \<le> SIZE_MAX"
    and "build_record opcode (Span payload) (Span out) (Some l) = (AP_OK, Span out', Some n)"
  shows "parse_record (Span (take n out')) (Some v)
           = (AP_OK, Some \<lparr>rv_opcode = opcode, rv_payload = payload\<rparr>)
         \<and> drop n out' = drop n out \<and> length out' = length out"
proof -
  from assms have le: "length payload + 46 \<le> AP_MAX_RECORD_SIZE"
    and cap: "length payload + 46 \<le> length out" and n: "n = length payload + 46"
    and o: "out' = archive_record opcode payload @ drop n out"
    by (auto simp: build_record_outcome build_outcome_def split: if_splits)
  have "take n out' = archive_record opcode payload" using o n by simp
  then show ?thesis using le cap n o parse_archive_record [of payload opcode v] by simp
qed

lemma build_record_roundtrip_example:
  "\<exists>out' n. build_record 0x1601 (Span [7, 8]) (Span (replicate 50 9)) (Some 0)
      = (AP_OK, Span out', Some n)
    \<and> parse_record (Span (take n out')) (Some \<lparr>rv_opcode = 0, rv_payload = []\<rparr>)
      = (AP_OK, Some \<lparr>rv_opcode = 0x1601, rv_payload = [7, 8]\<rparr>)"
proof -
  let ?o = "archive_record 0x1601 [7, 8] @ drop 48 (replicate 50 (9 :: u8))"
  have b: "build_record 0x1601 (Span [7, 8]) (Span (replicate 50 9)) (Some 0)
      = (AP_OK, Span ?o, Some 48)"
    by (simp add: build_record_outcome build_outcome_def SIZE_MAX_def)
  moreover have "parse_record (Span (take 48 ?o)) (Some \<lparr>rv_opcode = 0, rv_payload = []\<rparr>)
      = (AP_OK, Some \<lparr>rv_opcode = 0x1601, rv_payload = [7, 8]\<rparr>)"
    using build_record_roundtrip [OF _ b] by (simp add: SIZE_MAX_def)
  ultimately show ?thesis by blast
qed

section \<open>Every request\<close>










text \<open>
  Altering any single byte of an accepted record, in the header, the payload or the
  checksum, makes the validator reject it.
\<close>

lemma validate_record_detects:
  assumes "validate_record (Span rec) = AP_OK" and "i < length rec" and "b \<noteq> rec ! i"
  shows "validate_record (Span (rec[i := b])) \<noteq> AP_OK"
proof -
  from assms(1) have "4 \<le> length rec" "trailer_matches rec" by (simp_all split: if_splits)
  then have "\<not> trailer_matches (rec[i := b])" using assms(2,3) by (rule trailer_detects)
  then show ?thesis by simp
qed

theorem validate_record_detects_witness:
  "validate_record (Span ((archive_record 0x1626 [1, 2, 3])[43 := 7])) \<noteq> AP_OK"
proof (rule validate_record_detects)
  show "validate_record (Span (archive_record 0x1626 [1, 2, 3])) = AP_OK"
    by (rule validate_archive_record) simp
  have "take 3 (drop 42 (archive_record 0x1626 [1, 2, 3])) = [1, 2, 3]"
    using archive_record_loads(4) [of "[1, 2, 3]" "0x1626"] by (simp add: numeral_3_eq_3)
  then have "take 3 (drop 42 (archive_record 0x1626 [1, 2, 3])) ! 1 = 2" by simp
  then show "7 \<noteq> archive_record 0x1626 [1, 2, 3] ! 43" by simp
qed simp

section \<open>Chunks\<close>

lemma chunk_record_nth:
  "chunk_record f p ! 0 = 0x02" "chunk_record f p ! 1 = 0" "chunk_record f p ! Suc 0 = 0"
  "chunk_record f p ! 5 = 0" "chunk_record f p ! 6 = f"
  by (simp_all add: chunk_record_def sealed_def chunk_head_def store_u24_be_def numeral_eq_Suc)

lemma chunk_record_loads:
  assumes "length p \<le> AP_MAX_CHUNK_PAYLOAD"
  shows "unat (load_u24_be (drop 2 (chunk_record f p))) = length p + 4"
    and "take (length p) (drop 7 (chunk_record f p)) = p"
proof -
  have "unat (of_nat (length p + 4) :: u32) = length p + 4"
    using assms by (simp add: unat_of_nat take_bit_nat_eq_self del: of_nat_add)
  moreover have "drop 2 (chunk_record f p) = store_u24_be (of_nat (length p + 4))
      @ [0, f] @ p @ drop (length p + 7) (chunk_record f p)"
    by (simp add: chunk_record_def sealed_def chunk_head_def store_u24_be_def numeral_eq_Suc)
  ultimately show "unat (load_u24_be (drop 2 (chunk_record f p))) = length p + 4"
    using assms by (simp add: load_store_u24_be del: of_nat_add)
  show "take (length p) (drop 7 (chunk_record f p)) = p"
    by (simp add: chunk_record_def sealed_def)
qed

lemma validate_chunk_record:
  "length p \<le> AP_MAX_CHUNK_PAYLOAD \<Longrightarrow> validate_chunk (Span (chunk_record f p)) = AP_OK"
  using chunk_record_loads(1) [of p f] trailer_matches_sealed [of "chunk_head f (length p) @ p"]
  by (simp add: chunk_record_nth) (simp add: chunk_record_def)

text \<open>
  A chunk built for a payload is accepted by \<open>validate_chunk\<close>, and altering any single
  byte of an accepted chunk makes it rejected.
\<close>

lemma build_chunk_validates:
  assumes "length payload + 11 \<le> SIZE_MAX"
    and "build_chunk (Span payload) f (Span out) (Some l) = (AP_OK, Span out', Some n)"
  shows "validate_chunk (Span (take n out')) = AP_OK
    \<and> take (length payload) (drop 7 out') = payload \<and> drop n out' = drop n out
    \<and> (\<forall>i b. i < n \<and> b \<noteq> out' ! i \<longrightarrow> validate_chunk (Span ((take n out')[i := b])) \<noteq> AP_OK)"
proof -
  from assms have le: "length payload \<le> AP_MAX_CHUNK_PAYLOAD"
    and cap: "length payload + 11 \<le> length out" and n: "n = length payload + 11"
    and o: "out' = chunk_record f payload @ drop n out"
    by (auto simp: build_chunk_outcome split: if_splits)
  have t: "take n out' = chunk_record f payload" using o n by simp
  have ok: "validate_chunk (Span (chunk_record f payload)) = AP_OK"
    using le by (rule validate_chunk_record)
  have bad: "validate_chunk (Span ((chunk_record f payload)[i := b])) \<noteq> AP_OK"
    if "i < n" "b \<noteq> out' ! i" for i b
  proof -
    have "b \<noteq> chunk_record f payload ! i" "i < length (chunk_record f payload)"
      using that o n by (simp_all add: nth_append)
    moreover have "trailer_matches (chunk_record f payload)" by (simp add: chunk_record_def)
    ultimately have "\<not> trailer_matches ((chunk_record f payload)[i := b])"
      by (intro trailer_detects) simp_all
    then show ?thesis by simp
  qed
  have p: "take (length payload) (drop 7 out') = payload"
    using chunk_record_loads(2) [OF le, of f] o by simp
  show ?thesis using ok bad p t o n by simp
qed

theorem build_chunk_validates_witness:
  "\<exists>out' n. build_chunk (Span [1, 2]) 0x23 (Span (replicate 20 0)) (Some 0)
      = (AP_OK, Span out', Some n) \<and> validate_chunk (Span (take n out')) = AP_OK"
proof -
  let ?o = "chunk_record 0x23 [1, 2] @ drop 13 (replicate 20 (0 :: u8))"
  have b: "build_chunk (Span [1, 2]) 0x23 (Span (replicate 20 0)) (Some 0)
      = (AP_OK, Span ?o, Some 13)"
    by (simp add: build_chunk_outcome SIZE_MAX_def)
  moreover have "validate_chunk (Span (take 13 ?o)) = AP_OK"
    using build_chunk_validates [OF _ b] by (simp add: SIZE_MAX_def)
  ultimately show ?thesis by blast
qed

end
