(* ===== verification/Accessport_Session.thy ===== *)
theory Accessport_Session
  imports Text_Codec Accessport_Parse
begin

text \<open>
  The short messages around a session (accessport_protocol/revlink_accessport_protocol.c): plain
  acknowledgements, error codes, the captured identity requests and the polite close. The
  theorems give the exact set of byte strings each check accepts.
\<close>

section \<open>Acknowledgements\<close>

fun is_plain_ack_payload :: "u8 span \<Rightarrow> u8 span \<Rightarrow> bool" where
  "is_plain_ack_payload (Span response) (Span expected) =
     (if expected = [] then False
      else case (do { n \<leftarrow> checked_add 7 (length expected); checked_add n AP_CHECKSUM_SIZE }) of
        None \<Rightarrow> False
      | Some expected_length \<Rightarrow>
          if length response \<noteq> expected_length then False
          else if response ! 0 \<noteq> 0x02 \<or> response ! 1 \<noteq> 0x00 \<or> response ! 2 \<noteq> 0x00
            \<or> response ! 5 \<noteq> 0x00 \<or> response ! 6 \<noteq> 0x01
            \<or> unat (load_u16_be (drop 3 response)) + 7 \<noteq> length response then False
          else if take (length expected) (drop 7 response) \<noteq> expected then False
          else trailer_matches response)"
| "is_plain_ack_payload _ _ = False"

fun is_plain_ack :: "u8 span \<Rightarrow> u8 \<Rightarrow> bool" where
  "is_plain_ack (NullSpan n) expected_subtype = False"
| "is_plain_ack (Span response) expected_subtype =
     (if length response \<noteq> 12
         \<or> response ! 0 \<noteq> 0x02 \<or> response ! 1 \<noteq> 0x00 \<or> response ! 2 \<noteq> 0x00
         \<or> response ! 5 \<noteq> 0x00 \<or> response ! 6 \<noteq> 0x01 \<or> response ! 7 \<noteq> expected_subtype
         \<or> unat (load_u16_be (drop 3 response)) + 7 \<noteq> length response
      then False
      else trailer_matches response)"

fun error_digits :: "u8 list \<Rightarrow> u32 \<Rightarrow> u32 option" where
  "error_digits [] parsed = Some parsed"
| "error_digits (v # rest) parsed =
     (if v < 48 \<or> v > 57 then None
      else let parsed' = parsed * 10 + ucast (v - 48) in
        if parsed' > 65535 then None else error_digits rest parsed')"

definition plain_error_code :: "u8 span \<Rightarrow> u16 option \<Rightarrow> bool \<times> u16 option" where
  "plain_error_code response error_code =
     (if is_null response \<or> error_code = None then (False, error_code)
      else let r = sbytes response in
        if length r < 12 \<or> r ! 0 \<noteq> 0x02 \<or> r ! 1 \<noteq> 0x00 \<or> r ! 2 \<noteq> 0x00
          \<or> r ! 5 \<noteq> 0x00 \<or> r ! 6 \<noteq> 0x02
          \<or> unat (load_u16_be (drop 3 r)) + 7 \<noteq> length r
          \<or> \<not> trailer_matches r then (False, error_code)
        else case error_digits (take (length r - 7 - AP_CHECKSUM_SIZE) (drop 7 r)) 0 of
          None \<Rightarrow> (False, error_code)
        | Some parsed \<Rightarrow> (True, Some (ucast parsed)))"

section \<open>The fixed session messages\<close>

definition IDENTITY_HANDSHAKE :: "u8 list list" where
  "IDENTITY_HANDSHAKE =
    [[0x02, 0x00, 0x00, 0x00, 0x04, 0x00, 0x04, 0xcd, 0xdb, 0x75, 0x01],
     [0x02, 0x00, 0x00, 0x00, 0x04, 0x00, 0x03, 0x7f, 0xfb, 0xa9, 0x11],
     [0x02, 0x00, 0x00, 0x00, 0x04, 0x00, 0x28, 0xc9, 0xea, 0xb7, 0x04],
     [0x02, 0x00, 0x00, 0x00, 0x04, 0x00, 0x1f, 0xda, 0xeb, 0xd3, 0x92]]"

definition DISCONNECT_REQUEST :: "u8 list" where
  "DISCONNECT_REQUEST =
    [0x02, 0x00, 0x00, 0x00, 0x04, 0x00, 0x05, 0xf0, 0xbb, 0x5c, 0xb1]"

definition DISCONNECT_ACK :: "u8 list" where
  "DISCONNECT_ACK =
    [0x02, 0x00, 0x00, 0x00, 0x05, 0x00, 0x01, 0x35, 0x82, 0x6c, 0x4d, 0x38]"

definition identity_handshake_request :: "nat \<Rightarrow> u8 span \<Rightarrow> nat option \<Rightarrow> build_result" where
  "identity_handshake_request index output output_length =
     (if is_null output \<or> output_length = None \<or> index \<ge> 4
        then (AP_INVALID_ARGUMENT, output, output_length)
      else if slen output < 11 then (AP_BUFFER_TOO_SMALL, output, output_length)
      else (AP_OK, Span (blit 0 (IDENTITY_HANDSHAKE ! index) (sbytes output)), Some 11))"

definition disconnect_request :: "u8 span \<Rightarrow> nat option \<Rightarrow> build_result" where
  "disconnect_request output output_length =
     (if is_null output \<or> output_length = None then (AP_INVALID_ARGUMENT, output, output_length)
      else if slen output < 11 then (AP_BUFFER_TOO_SMALL, output, output_length)
      else (AP_OK, Span (blit 0 DISCONNECT_REQUEST (sbytes output)), Some 11))"

definition is_disconnect_ack :: "u8 span \<Rightarrow> bool" where
  "is_disconnect_ack response \<longleftrightarrow>
     \<not> is_null response \<and> slen response = 12 \<and> sbytes response = DISCONNECT_ACK"

section \<open>Mini records: acknowledgements and error codes\<close>

definition mini_record :: "u8 \<Rightarrow> u8 list \<Rightarrow> u8 list" where
  "mini_record cls payload =
     sealed ([0x02, 0, 0] @ store_u16_be (of_nat (length payload + 4)) @ [0, cls] @ payload)"

lemma length_mini_record [simp, wire_len]: "length (mini_record cls p) = length p + 11"
  by (simp add: mini_record_def)

definition mini_frame :: "u8 \<Rightarrow> u8 list \<Rightarrow> bool" where
  "mini_frame cls r \<longleftrightarrow> r ! 0 = 0x02 \<and> r ! 1 = 0 \<and> r ! 2 = 0 \<and> r ! 5 = 0 \<and> r ! 6 = cls
     \<and> unat (load_u16_be (drop 3 r)) + 7 = length r \<and> trailer_matches r"

lemma mini_record_frame:
  assumes "length p + 4 < 65536"
  shows "mini_frame cls (mini_record cls p)"
proof -
  have "unat (of_nat (length p + 4) :: u16) = length p + 4"
    using assms by (rule unat_of_nat_u16)
  moreover have "drop 3 (mini_record cls p)
      = store_u16_be (of_nat (length p + 4)) @ drop 5 (mini_record cls p)"
    by (simp add: mini_record_def sealed_def store_u16_be_def numeral_eq_Suc)
  moreover have "mini_record cls p ! 0 = 0x02" "mini_record cls p ! 1 = 0" "mini_record cls p ! 2 = 0"
    "mini_record cls p ! 5 = 0" "mini_record cls p ! 6 = cls"
    by (simp_all add: mini_record_def sealed_def store_u16_be_def numeral_eq_Suc)
  ultimately show ?thesis
    unfolding mini_frame_def by (simp del: of_nat_add) (simp add: mini_record_def)
qed

lemma mini_record_payload: "take (length p) (drop 7 (mini_record cls p)) = p"
  by (simp add: mini_record_def sealed_def)

lemma mini_frame_record:
  assumes "mini_frame cls r" and "11 \<le> length r"
  shows "r = mini_record cls (take (length r - 11) (drop 7 r)) \<and> length r - 7 < 65536"
proof -
  define p where "p = take (length r - 11) (drop 7 r)"
  have lp: "length p = length r - 11" by (simp add: p_def)
  have "unat (load_u16_be (drop 3 r)) + 7 = length r"
    using assms(1) by (simp add: mini_frame_def)
  then have u: "unat (load_u16_be (drop 3 r)) = length p + 4" using lp assms(2) by linarith
  then have "of_nat (unat (load_u16_be (drop 3 r))) = (of_nat (length p + 4) :: u16)" by simp
  then have ld: "load_u16_be (drop 3 r) = of_nat (length p + 4)" by simp
  have up: "[0..<7] = [0, 1, 2, 3, 4, 5, 6]" by (simp add: upt_rec)
  have "take 7 r = [r ! 0, r ! 1, r ! 2] @ [r ! 3, r ! 4] @ [r ! 5, r ! 6]"
    using assms(2) by (simp add: take_nths up)
  moreover have "[r ! 3, r ! 4] = store_u16_be (of_nat (length p + 4))"
    using store_load_u16_be [of "drop 3 r"] assms(2) by (simp add: ld)
  ultimately have head: "take 7 r = [0x02, 0, 0] @ store_u16_be (of_nat (length p + 4)) @ [0, cls]"
    using assms(1) by (simp add: mini_frame_def)
  have "4 \<le> length r" using assms(2) by simp
  then obtain body t where r: "r = body @ t" "length t = 4" "length body = length r - 4"
    by (rule split_trailer)
  have "length body = 7 + length p" using r(3) lp assms(2) by linarith
  then have "body = take (7 + length p) r" by (simp add: r(1))
  also have "\<dots> = take 7 r @ p" using lp by (simp add: take_add p_def)
  finally have body: "body = take 7 r @ p" .
  have "r = sealed body"
    using assms(1) trailer_matches_iff [OF r(2), of body] by (simp add: mini_frame_def r(1))
  then have "r = mini_record cls p" by (simp add: body head mini_record_def)
  moreover have "length r - 7 < 65536"
    using u lp unsigned_less [where 'a = nat, of "load_u16_be (drop 3 r)"] assms(2) by simp
  ultimately show ?thesis by (simp add: p_def)
qed

lemma mini_frame_iff:
  "11 \<le> length r \<Longrightarrow> mini_frame cls r \<longleftrightarrow> (\<exists>p. r = mini_record cls p \<and> length p + 4 < 65536)"
  using mini_frame_record [of cls r] mini_record_frame [of _ cls] by fastforce

text \<open>
  The two acknowledgement checks agree, and they accept exactly the class 0x01 record of
  the expected payload.
\<close>

lemma plain_ack_exact:
  "is_plain_ack (Span r) subtype = is_plain_ack_payload (Span r) (Span [subtype])
   \<and> (is_plain_ack_payload (Span r) (Span expected) \<longleftrightarrow>
        expected \<noteq> [] \<and> length expected + 4 < 65536 \<and> r = mini_record 0x01 expected)"
proof -
  have one: "take (Suc 0) (drop 7 r) = [r ! 7]" if "length r = 12"
    using that by (simp add: take_Suc_conv_app_nth)
  have eq: "is_plain_ack (Span r) subtype = is_plain_ack_payload (Span r) (Span [subtype])"
    by (auto simp: checked_add_def SIZE_MAX_def one)
  have unfold: "is_plain_ack_payload (Span r) (Span expected) \<longleftrightarrow>
      expected \<noteq> [] \<and> checked_add 7 (length expected) \<noteq> None
      \<and> checked_add (7 + length expected) 4 \<noteq> None \<and> length r = length expected + 11
      \<and> mini_frame 0x01 r \<and> take (length expected) (drop 7 r) = expected"
    by (auto simp: mini_frame_def checked_add_def)
  have "is_plain_ack_payload (Span r) (Span expected) \<longleftrightarrow>
      expected \<noteq> [] \<and> length expected + 4 < 65536 \<and> r = mini_record 0x01 expected"
  proof
    assume "is_plain_ack_payload (Span r) (Span expected)"
    then show "expected \<noteq> [] \<and> length expected + 4 < 65536 \<and> r = mini_record 0x01 expected"
      unfolding unfold using mini_frame_record [of "0x01" r] by auto
  next
    assume "expected \<noteq> [] \<and> length expected + 4 < 65536 \<and> r = mini_record 0x01 expected"
    then show "is_plain_ack_payload (Span r) (Span expected)"
      unfolding unfold using mini_record_frame [of expected "0x01"]
      by (auto simp: mini_record_payload checked_add_def SIZE_MAX_def)
  qed
  with eq show ?thesis by blast
qed

lemma session_checksums:
  "jamcrc_zeroed_trailer (Span [0x02, 0, 0, 0, 0x04, 0, 0x04, 0xcd, 0xdb, 0x75, 0x01]) = 0xcddb7501"
  "jamcrc_zeroed_trailer (Span [0x02, 0, 0, 0, 0x04, 0, 0x03, 0x7f, 0xfb, 0xa9, 0x11]) = 0x7ffba911"
  "jamcrc_zeroed_trailer (Span [0x02, 0, 0, 0, 0x04, 0, 0x28, 0xc9, 0xea, 0xb7, 0x04]) = 0xc9eab704"
  "jamcrc_zeroed_trailer (Span [0x02, 0, 0, 0, 0x04, 0, 0x1f, 0xda, 0xeb, 0xd3, 0x92]) = 0xdaebd392"
  "jamcrc_zeroed_trailer (Span [0x02, 0, 0, 0, 0x04, 0, 0x05, 0xf0, 0xbb, 0x5c, 0xb1]) = 0xf0bb5cb1"
  "jamcrc_zeroed_trailer (Span [0x02, 0, 0, 0, 0x05, 0, 0x01, 0x35, 0x82, 0x6c, 0x4d, 0x38]) = 0x826c4d38"
  by (simp_all add: jamcrc_zeroed_trailer_def zero_trailer_def crc_eval)

lemma session_requests_valid:
  "list_all (\<lambda>r. length r = 11 \<and> trailer_matches r) (DISCONNECT_REQUEST # IDENTITY_HANDSHAKE)"
  by (simp add: DISCONNECT_REQUEST_def IDENTITY_HANDSHAKE_def trailer_matches_def
      session_checksums load_u32_be_def)

lemma disconnect_ack_valid: "is_plain_ack (Span DISCONNECT_ACK) 0x35"
  by (simp add: DISCONNECT_ACK_def trailer_matches_def session_checksums load_u32_be_def
      load_u16_be_def)

text \<open>
  The session messages copied from captures are consistent with the checksum the code
  computes: the four identity requests and the polite close carry the right check field, and
  the captured close acknowledgement is accepted by the generic acknowledgement check with
  subtype 0x35, by \<open>is_disconnect_ack\<close>, and by nothing else of twelve bytes.
\<close>

lemma session_constants_valid:
  "list_all (\<lambda>r. length r = 11 \<and> trailer_matches r) (DISCONNECT_REQUEST # IDENTITY_HANDSHAKE)
   \<and> is_plain_ack (Span DISCONNECT_ACK) 0x35
   \<and> (is_disconnect_ack response \<longleftrightarrow> is_plain_ack response 0x35)"
proof -
  have ack: "DISCONNECT_ACK = mini_record 0x01 [0x35]"
    using disconnect_ack_valid plain_ack_exact [of DISCONNECT_ACK "0x35" "[0x35]"] by blast
  have "is_disconnect_ack response \<longleftrightarrow> is_plain_ack response 0x35"
  proof (cases response)
    case (NullSpan n)
    then show ?thesis by (simp add: is_disconnect_ack_def)
  next
    case (Span r)
    have "is_plain_ack (Span r) 0x35 \<longleftrightarrow> r = DISCONNECT_ACK"
      using plain_ack_exact [of r "0x35" "[0x35]"] ack by simp
    moreover have "length DISCONNECT_ACK = 12" by (simp add: DISCONNECT_ACK_def)
    ultimately show ?thesis using Span by (auto simp: is_disconnect_ack_def)
  qed
  with session_requests_valid disconnect_ack_valid show ?thesis by blast
qed

section \<open>Error codes\<close>

lemma unat_digit_step:
  assumes "is_digit b" and "unat (n :: u32) \<le> 65535"
  shows "unat (n * 10 + ucast (b - 48)) = 10 * unat n + (unat b - 48)"
proof -
  have b: "unat (b - 48) = unat b - 48" "unat b \<le> 57"
    using assms(1) by (simp_all add: is_digit_def unat_sub word_le_nat_alt)
  then have "unat n * 10 + unat (b - 48) < 2 ^ 32" using assms(2) by simp
  then show ?thesis using b
    by (simp add: unat_word_ariths take_bit_nat_eq_self)
qed

lemma error_digits_exact:
  "unat parsed \<le> 65535 \<Longrightarrow>
   error_digits ds parsed = Some r \<longleftrightarrow>
     list_all is_digit ds \<and> dec_value (unat parsed) ds \<le> 65535 \<and> unat r = dec_value (unat parsed) ds"
proof (induction ds arbitrary: parsed)
  case Nil
  then show ?case by (auto simp: word_unat_eq_iff)
next
  case (Cons b ds)
  let ?p = "parsed * 10 + ucast (b - 48)"
  show ?case
  proof (cases "is_digit b")
    case False
    then show ?thesis by (auto simp: is_digit_def not_le)
  next
    case True
    have u: "unat ?p = 10 * unat parsed + (unat b - 48)"
      using unat_digit_step [OF True Cons.prems] .
    show ?thesis
    proof (cases "?p > 65535")
      case True
      then have "unat ?p > 65535" by (simp add: word_less_nat_alt)
      then have "dec_value (unat parsed) (b # ds) > 65535"
        using dec_value_ge [of "unat ?p" ds] by (simp add: u)
      then show ?thesis using True \<open>is_digit b\<close> by (simp add: is_digit_def)
    next
      case False
      then have "unat ?p \<le> 65535" by (simp add: word_less_nat_alt)
      have "error_digits (b # ds) parsed = error_digits ds ?p"
        using False \<open>is_digit b\<close> by (auto simp: is_digit_def Let_def)
      then show ?thesis using Cons.IH [OF \<open>unat ?p \<le> 65535\<close>] \<open>is_digit b\<close> by (simp add: u)
    qed
  qed
qed

text \<open>
  \<open>plain_error_code\<close> succeeds exactly on a class 0x02 record whose non-empty payload is
  an ASCII decimal number of at most 65535, and stores that number.
\<close>

lemma plain_error_code_exact:
  "plain_error_code (Span r) (Some old) = (True, Some code) \<longleftrightarrow>
   (\<exists>ds. r = mini_record 0x02 ds \<and> ds \<noteq> [] \<and> length ds + 4 < 65536 \<and> list_all is_digit ds
      \<and> dec_value 0 ds = unat code)"
proof -
  let ?ds = "take (length r - 11) (drop 7 r)"
  have store: "Some (ucast parsed) = Some code \<longleftrightarrow> unat parsed = unat code"
    if "unat parsed \<le> 65535" for parsed :: u32
    using that by (simp add: word_unat_eq_iff unsigned_ucast_eq take_bit_nat_eq_self)
  have code: "unat code \<le> 65535" using unsigned_less [where 'a = nat, of code] by simp
  have frame: "plain_error_code (Span r) (Some old) = (True, Some code) \<longleftrightarrow>
      12 \<le> length r \<and> mini_frame 0x02 r
      \<and> (\<exists>parsed. error_digits ?ds 0 = Some parsed \<and> ucast parsed = code)"
    by (auto simp: plain_error_code_def mini_frame_def Let_def split: option.splits)
  have digits: "(\<exists>parsed. error_digits ?ds 0 = Some parsed \<and> ucast parsed = code)
      \<longleftrightarrow> list_all is_digit ?ds \<and> dec_value 0 ?ds = unat code"
  proof -
    have "(\<exists>parsed. error_digits ?ds 0 = Some parsed \<and> ucast parsed = code) \<longleftrightarrow>
        (\<exists>parsed :: u32. list_all is_digit ?ds \<and> dec_value 0 ?ds \<le> 65535
          \<and> unat parsed = dec_value 0 ?ds \<and> ucast parsed = code)"
      using error_digits_exact [of 0 ?ds] by simp
    also have "\<dots> \<longleftrightarrow> list_all is_digit ?ds \<and> dec_value 0 ?ds = unat code"
    proof -
      have "unat (of_nat (dec_value 0 ?ds) :: u32) = dec_value 0 ?ds" if "dec_value 0 ?ds \<le> 65535"
        using that by (simp add: unat_of_nat take_bit_nat_eq_self)
      then show ?thesis using store code by (metis option.inject)
    qed
    finally show ?thesis .
  qed
  show ?thesis
  proof
    assume "plain_error_code (Span r) (Some old) = (True, Some code)"
    then have r: "12 \<le> length r" "mini_frame 0x02 r" "list_all is_digit ?ds"
      "dec_value 0 ?ds = unat code"
      using frame digits by blast+
    have "r = mini_record 0x02 ?ds" "length r - 7 < 65536"
      using mini_frame_record [OF r(2)] r(1) by simp_all
    moreover have "?ds \<noteq> []" "length ?ds = length r - 11" using r(1) by auto
    ultimately show "\<exists>ds. r = mini_record 0x02 ds \<and> ds \<noteq> [] \<and> length ds + 4 < 65536
        \<and> list_all is_digit ds \<and> dec_value 0 ds = unat code"
      using r by (intro exI [of _ ?ds]) auto
  next
    assume "\<exists>ds. r = mini_record 0x02 ds \<and> ds \<noteq> [] \<and> length ds + 4 < 65536
        \<and> list_all is_digit ds \<and> dec_value 0 ds = unat code"
    then obtain ds where ds: "r = mini_record 0x02 ds" "ds \<noteq> []" "length ds + 4 < 65536"
      "list_all is_digit ds" "dec_value 0 ds = unat code" by blast
    have "?ds = ds" using ds(1) mini_record_payload [of ds "0x02"] by simp
    moreover have "12 \<le> length r" using ds(1,2) by (cases ds) simp_all
    ultimately show "plain_error_code (Span r) (Some old) = (True, Some code)"
      using ds mini_record_frame [OF ds(3), of "0x02"] frame digits by simp
  qed
qed

end
