(* ===== verification/Accessport_Listing.thy ===== *)
theory Accessport_Listing
  imports Accessport_Parse
begin

text \<open>
  The two structured payloads the AccessPort returns (accessport_protocol/
  revlink_accessport_protocol.c): the six line identity and the directory listing.
\<close>

section \<open>The identity payload\<close>

text \<open>\<open>read_lp_view\<close> advances the offset and returns the view; \<open>None\<close> is the result false.\<close>

definition read_lp_view :: "u8 list \<Rightarrow> nat \<Rightarrow> (nat \<times> u8 list) option" where
  "read_lp_view payload offset =
     (if offset > length payload \<or> length payload - offset < 4 then None
      else
        let encoded_length = unat (load_u32_le (drop offset payload));
            offset = offset + 4
        in if encoded_length > length payload - offset then None
           else Some (offset + encoded_length, take encoded_length (drop offset payload)))"

definition serial_byte :: "u8 \<Rightarrow> bool" where
  "serial_byte b \<longleftrightarrow> (b \<ge> 97 \<and> b \<le> 122) \<or> (b \<ge> 65 \<and> b \<le> 90) \<or> (b \<ge> 48 \<and> b \<le> 57)
     \<or> b = 45 \<or> b = 95"

definition copy_identity_field :: "u8 list \<Rightarrow> nat \<Rightarrow> bool \<Rightarrow> u8 list option" where
  "copy_identity_field value output_capacity serial_field =
     (if length value = 0 \<or> length value \<ge> output_capacity then None
      else if \<exists>b \<in> set value. (if serial_field then \<not> serial_byte b else b < 0x20 \<or> b = 0x7f)
        then None
      else Some value)"

record device_info =
  di_firmware :: "u8 list"
  di_part_number :: "u8 list"
  di_serial :: "u8 list"
  di_install_status :: "u8 list"
  di_vehicle :: "u8 list"
  di_trailing_field :: "u8 list"

text \<open>
  The loop over the text: a line ends at a newline or at the end of the text, loses one
  trailing carriage return, and is a field when something is left. A seventh field is an error.
\<close>

definition add_identity_line :: "u8 list \<Rightarrow> u8 list list \<Rightarrow> u8 list list option" where
  "add_identity_line line fs =
     (let line' = (if length line > 0 \<and> last line = 13 then butlast line else line) in
      if length line' > 0
      then (if length fs \<ge> 6 then None else Some (fs @ [line']))
      else Some fs)"

fun identity_fields :: "u8 list \<Rightarrow> u8 list \<Rightarrow> u8 list list \<Rightarrow> u8 list list option" where
  "identity_fields [] line fs = add_identity_line line fs"
| "identity_fields (b # text) line fs =
     (if b = 10
      then (case add_identity_line line fs of
              None \<Rightarrow> None
            | Some fs' \<Rightarrow> identity_fields text [] fs')
      else identity_fields text (line @ [b]) fs)"

definition parse_device_identity_payload ::
  "u8 span \<Rightarrow> device_info option \<Rightarrow> ap_status \<times> device_info option" where
  "parse_device_identity_payload payload identity =
     (if is_null payload \<or> identity = None then (AP_INVALID_ARGUMENT, identity)
      else case read_lp_view (sbytes payload) 0 of
        None \<Rightarrow> (AP_INVALID_FRAME, identity)
      | Some (offset, text) \<Rightarrow>
          if offset \<noteq> slen payload \<or> text = [] then (AP_INVALID_FRAME, identity)
          else case identity_fields text [] [] of
            None \<Rightarrow> (AP_INVALID_FRAME, identity)
          | Some fs \<Rightarrow>
              if length fs \<noteq> 6 then (AP_INVALID_FRAME, identity)
              else case (do {
                  firmware \<leftarrow> copy_identity_field (fs ! 0) 64 False;
                  part_number \<leftarrow> copy_identity_field (fs ! 1) 40 False;
                  serial \<leftarrow> copy_identity_field (fs ! 2) 64 True;
                  install_status \<leftarrow> copy_identity_field (fs ! 3) 40 False;
                  vehicle \<leftarrow> copy_identity_field (fs ! 4) 192 False;
                  trailing \<leftarrow> copy_identity_field (fs ! 5) 40 False;
                  Some \<lparr>di_firmware = firmware, di_part_number = part_number,
                    di_serial = serial, di_install_status = install_status,
                    di_vehicle = vehicle, di_trailing_field = trailing\<rparr> }) of
                None \<Rightarrow> (AP_INVALID_FRAME, identity)
              | Some parsed \<Rightarrow> (AP_OK, Some parsed))"

section \<open>The directory listing\<close>

record listing_entry =
  le_name :: "u8 list"
  le_device_time_raw :: u32
  le_size :: u32
  le_is_directory :: bool
  le_path :: "u8 list"

text \<open>One turn of the loop: the entry at \<open>offset\<close> and the offset behind it.\<close>

definition parse_listing_entry :: "u8 list \<Rightarrow> bool \<Rightarrow> nat \<Rightarrow> (nat \<times> listing_entry) option" where
  "parse_listing_entry payload first offset =
     do {
       (offset, name) \<leftarrow> read_lp_view payload offset;
       let metadata_length = (if first then 27 else 25);
       if offset > length payload \<or> metadata_length > length payload - offset then None
       else do {
         let device_time_raw = load_u32_le (drop offset payload);
         let size = load_u32_le (drop (offset + 4) payload);
         let is_directory = (payload ! (offset + metadata_length - 1) = 0x01);
         (offset, path) \<leftarrow> read_lp_view payload (offset + metadata_length);
         Some (offset, \<lparr>le_name = name, le_device_time_raw = device_time_raw,
           le_size = size, le_is_directory = is_directory, le_path = path\<rparr>)
       }
     }"

text \<open>
  The loop. \<open>remaining\<close> turns are left; \<open>entries\<close> is the caller's array, which receives the
  entries whose index is below its capacity, also when a later entry is malformed.
\<close>

fun parse_listing_loop ::
  "u8 list \<Rightarrow> nat \<Rightarrow> nat \<Rightarrow> nat \<Rightarrow> listing_entry list \<Rightarrow> nat option \<times> listing_entry list" where
  "parse_listing_loop payload 0 index offset entries = (Some offset, entries)"
| "parse_listing_loop payload (Suc remaining) index offset entries =
     (case parse_listing_entry payload (index = 0) offset of
        None \<Rightarrow> (None, entries)
      | Some (offset', entry) \<Rightarrow>
          parse_listing_loop payload remaining (Suc index) offset'
            (if index < length entries then entries[index := entry] else entries))"

definition parse_listing_payload ::
  "u8 span \<Rightarrow> listing_entry span \<Rightarrow> nat option
   \<Rightarrow> ap_status \<times> listing_entry span \<times> nat option" where
  "parse_listing_payload payload entries entry_count =
     (if is_null payload \<or> entry_count = None \<or> null_with_length entries
        then (AP_INVALID_ARGUMENT, entries, entry_count)
      else
        let p = sbytes payload in
        if length p < 8 \<or> p ! 0 \<noteq> 0x00 \<or> p ! 1 \<noteq> 0x00 \<or> p ! 6 \<noteq> 0x00 \<or> p ! 7 \<noteq> 0x01
          then (AP_INVALID_FRAME, entries, entry_count)
        else
          let encoded_count = unat (load_u32_le (drop 2 p)) in
          case parse_listing_loop p encoded_count 0 8 (sbytes entries) of
            (result, es) \<Rightarrow>
              let entries' = (if is_null entries then entries else Span es) in
              (case result of
                 None \<Rightarrow> (AP_INVALID_FRAME, entries', entry_count)
               | Some offset \<Rightarrow>
                   if offset \<noteq> length p then (AP_INVALID_FRAME, entries', entry_count)
                   else (if encoded_count > slen entries then AP_BUFFER_TOO_SMALL else AP_OK,
                         entries', Some encoded_count)))"

section \<open>Length prefixed views\<close>

text \<open>
  The readers look at the payload from an offset on. \<open>rest_at P k xs\<close>: the payload \<open>P\<close> from
  \<open>k\<close> on is \<open>xs\<close>.
\<close>

definition rest_at :: "u8 list \<Rightarrow> nat \<Rightarrow> u8 list \<Rightarrow> bool" where
  "rest_at P k xs \<longleftrightarrow> k \<le> length P \<and> drop k P = xs"

lemma rest_at_append:
  assumes "rest_at P k (xs @ ys)"
  shows "rest_at P (k + length xs) ys"
proof -
  from assms have k: "k \<le> length P" and d: "drop k P = xs @ ys" by (simp_all add: rest_at_def)
  have "length (drop k P) = length xs + length ys" using d by simp
  then have "k + length xs \<le> length P" using k by simp
  moreover have "drop (length xs) (drop k P) = ys" using d by simp
  ultimately show ?thesis by (simp add: rest_at_def add.commute)
qed

lemma rest_at_length: "rest_at P k xs \<Longrightarrow> length P = k + length xs"
  by (auto simp: rest_at_def)

lemma rest_at_nth: "rest_at P k xs \<Longrightarrow> i < length xs \<Longrightarrow> P ! (k + i) = xs ! i"
  by (auto simp: rest_at_def)

lemma read_lp_view_field:
  assumes "rest_at P k (lp_field xs @ post)" and "length xs < 2 ^ 32"
  shows "read_lp_view P k = Some (k + 4 + length xs, xs)"
proof -
  have d: "drop k P = store_u32_le (of_nat (length xs)) @ xs @ post" and k: "k \<le> length P"
    using assms(1) by (simp_all add: rest_at_def lp_field_def)
  then have d4: "drop (k + 4) P = xs @ post"
    by (metis add.commute append_eq_conv_conj drop_drop length_store(5))
  have "length P = k + 4 + length xs + length post"
    using rest_at_length [OF assms(1)] by simp
  then show ?thesis
    using unat_of_nat_u32 [OF assms(2)] by (simp add: read_lp_view_def d d4)
qed

text \<open>A view never leaves the payload, and the bytes in front of it are its length prefix.\<close>

lemma read_lp_view_SomeD:
  assumes "read_lp_view payload offset = Some (offset', xs)"
  shows "offset' = offset + 4 + length xs \<and> offset' \<le> length payload
    \<and> take (4 + length xs) (drop offset payload) = lp_field xs"
proof -
  let ?n = "unat (load_u32_le (drop offset payload))"
  from assms have o: "offset + 4 \<le> length payload" and n: "?n \<le> length payload - (offset + 4)"
    and r: "offset' = offset + 4 + ?n" "xs = take ?n (drop (offset + 4) payload)"
    by (auto simp: read_lp_view_def Let_def split: if_splits)
  have l: "length xs = ?n" using n unfolding r(2) by simp
  have up: "[0..<4] = [0, 1, 2, 3]" by (simp add: upt_rec)
  have "take 4 (drop offset payload) = store_u32_le (load_u32_le (drop offset payload))"
    using o store_load_u32_le [of "drop offset payload"] by (simp add: take_nths up)
  also have "load_u32_le (drop offset payload) = of_nat (length xs)" unfolding l by simp
  finally have four: "take 4 (drop offset payload) = store_u32_le (of_nat (length xs))" .
  have "take (length xs) (drop 4 (drop offset payload)) = xs"
    unfolding l by (simp add: r(2) add.commute)
  then have "take (4 + length xs) (drop offset payload) = lp_field xs"
    unfolding take_add four lp_field_def by (simp only:)
  moreover have "offset' = offset + 4 + length xs" using r(1) l by (simp only:)
  moreover have "offset' \<le> length payload" using r(1) n o by linarith
  ultimately show ?thesis by blast
qed

section \<open>Listings\<close>

text \<open>
  The wire form of an entry: the name, the metadata block (time, size, filler, the directory
  flag) and the path. The first entry's filler has 18 bytes, the others' 16. A non-directory
  entry may carry any flag byte but 0x01.
\<close>

record wire_entry =
  we_entry :: listing_entry
  we_filler :: "u8 list"
  we_flag :: u8

definition entry_bytes :: "wire_entry \<Rightarrow> u8 list" where
  "entry_bytes e = lp_field (le_name (we_entry e)) @ store_u32_le (le_device_time_raw (we_entry e))
     @ store_u32_le (le_size (we_entry e)) @ we_filler e @ [we_flag e]
     @ lp_field (le_path (we_entry e))"

definition wire_entry_ok :: "bool \<Rightarrow> wire_entry \<Rightarrow> bool" where
  "wire_entry_ok first e \<longleftrightarrow> length (we_filler e) = (if first then 18 else 16)
     \<and> le_is_directory (we_entry e) = (we_flag e = 0x01)
     \<and> length (le_name (we_entry e)) < 2 ^ 32 \<and> length (le_path (we_entry e)) < 2 ^ 32"

lemma parse_listing_entry_bytes:
  assumes ok: "wire_entry_ok first e" and r: "rest_at P k (entry_bytes e @ post)"
  shows "parse_listing_entry P first k = Some (k + length (entry_bytes e), we_entry e)"
proof -
  let ?x = "we_entry e" and ?m = "if first then 27 else 25 :: nat"
  let ?t = "store_u32_le (le_device_time_raw ?x)" and ?s = "store_u32_le (le_size ?x)"
  let ?path = "lp_field (le_path ?x)"
  let ?k1 = "k + (4 + length (le_name ?x))"
  have m: "length (we_filler e) + 9 = ?m" using ok by (simp add: wire_entry_ok_def)
  have r0: "rest_at P k (lp_field (le_name ?x) @ ?t @ ?s @ we_filler e @ [we_flag e] @ ?path @ post)"
    using r by (simp add: entry_bytes_def)
  have v1: "read_lp_view P k = Some (?k1, le_name ?x)"
    using read_lp_view_field [OF r0] ok by (simp add: wire_entry_ok_def add.assoc)
  have r1: "rest_at P ?k1 (?t @ ?s @ we_filler e @ [we_flag e] @ ?path @ post)"
    using rest_at_append [OF r0] by simp
  have r2: "rest_at P (?k1 + 4) (?s @ we_filler e @ [we_flag e] @ ?path @ post)"
    using rest_at_append [OF r1] by simp
  have r3: "rest_at P (?k1 + 8 + length (we_filler e)) ([we_flag e] @ ?path @ post)"
    using rest_at_append [OF rest_at_append [OF r2]] by (simp add: add.assoc)
  have r4: "rest_at P (?k1 + ?m) (?path @ post)"
  proof -
    have "?k1 + 8 + length (we_filler e) + length [we_flag e] = ?k1 + ?m" using m by simp
    then show ?thesis using rest_at_append [OF r3] by (simp only:)
  qed
  have flag: "P ! (?k1 + ?m - 1) = we_flag e"
  proof -
    have "?k1 + ?m - 1 = ?k1 + 8 + length (we_filler e) + 0" using m by linarith
    then show ?thesis using rest_at_nth [OF r3, of 0] by (simp only:) simp
  qed
  have v2: "read_lp_view P (?k1 + ?m) = Some (k + length (entry_bytes e), le_path ?x)"
    using read_lp_view_field [OF r4] ok m by (simp add: wire_entry_ok_def entry_bytes_def)
  have room: "\<not> (?k1 > length P \<or> ?m > length P - ?k1)"
    using rest_at_length [OF r1] m by simp
  have "load_u32_le (drop ?k1 P) = le_device_time_raw ?x"
    "load_u32_le (drop (?k1 + 4) P) = le_size ?x"
    using r1 r2 by (simp_all only: rest_at_def load_store_u32_le)
  moreover have "le_is_directory ?x = (we_flag e = 1)" using ok by (simp add: wire_entry_ok_def)
  ultimately show ?thesis
    unfolding parse_listing_entry_def v1
    by (simp only: Option.bind.bind_lunit prod.case Let_def room if_False v2 flag) simp
qed

lemma rest_at_take: "rest_at P k (xs @ ys) \<Longrightarrow> take (length xs) (drop k P) = xs"
  by (simp add: rest_at_def)

lemma rest_at_split:
  "k + n \<le> length P \<Longrightarrow> take n (drop k P) = xs \<Longrightarrow> rest_at P k (xs @ drop (k + n) P)"
  unfolding rest_at_def using append_take_drop_id [of n "drop k P"] by (auto simp: add.commute)

lemma read_lp_view_rest:
  assumes "read_lp_view P k = Some (k', xs)"
  shows "rest_at P k (lp_field xs @ drop k' P) \<and> k' = k + 4 + length xs \<and> length xs < 2 ^ 32"
proof -
  have d: "k' = k + 4 + length xs" "k' \<le> length P" "take (4 + length xs) (drop k P) = lp_field xs"
    using read_lp_view_SomeD [OF assms] by blast+
  have "length xs = unat (load_u32_le (drop k P))"
    using assms by (auto simp: read_lp_view_def Let_def split: if_splits)
  then have "length xs < 2 ^ 32" using unat_u32_less by metis
  moreover have k': "k + (4 + length xs) = k'" using d(1) by simp
  have "rest_at P k (lp_field xs @ drop k' P)"
    using rest_at_split [of k "4 + length xs" P, OF _ d(3)] d(2) unfolding k' by blast
  ultimately show ?thesis using d(1) by blast
qed

lemma parse_listing_entry_SomeD:
  assumes "parse_listing_entry P first k = Some (k', x)"
  shows "\<exists>e. we_entry e = x \<and> wire_entry_ok first e \<and> k' = k + length (entry_bytes e)
    \<and> rest_at P k (entry_bytes e @ drop k' P)"
proof -
  let ?m = "if first then 27 else 25 :: nat"
  from assms obtain k1 name where v1: "read_lp_view P k = Some (k1, name)"
    and room: "k1 \<le> length P" "?m \<le> length P - k1"
    and tail: "\<exists>path. read_lp_view P (k1 + ?m) = Some (k', path) \<and>
      x = \<lparr>le_name = name, le_device_time_raw = load_u32_le (drop k1 P),
           le_size = load_u32_le (drop (k1 + 4) P),
           le_is_directory = (P ! (k1 + ?m - 1) = 1), le_path = path\<rparr>"
    by (auto simp: parse_listing_entry_def Let_def bind_eq_Some_conv split: if_splits)
  from tail obtain path where v2: "read_lp_view P (k1 + ?m) = Some (k', path)"
    and x: "x = \<lparr>le_name = name, le_device_time_raw = load_u32_le (drop k1 P),
           le_size = load_u32_le (drop (k1 + 4) P),
           le_is_directory = (P ! (k1 + ?m - 1) = 1), le_path = path\<rparr>" by blast
  define filler where "filler = take (?m - 9) (drop (k1 + 8) P)"
  define e where "e = \<lparr>we_entry = x, we_filler = filler, we_flag = P ! (k1 + ?m - 1)\<rparr>"
  have lf: "length filler = ?m - 9" using room by (auto simp: filler_def)
  have four: "take 4 (drop j P) = store_u32_le (load_u32_le (drop j P))" if "j + 4 \<le> length P" for j
  proof -
    have up: "[0..<4] = [0, 1, 2, 3]" by (simp add: upt_rec)
    show ?thesis using that store_load_u32_le [of "drop j P"] by (simp add: take_nths up)
  qed
  have room1: "k1 + ?m \<le> length P" using room by simp
  have one: "take 1 (drop (k1 + ?m - 1) P) = [P ! (k1 + ?m - 1)]"
  proof -
    have "k1 + ?m - 1 < length P" using room1 by (auto split: if_splits)
    then show ?thesis by (simp add: Cons_nth_drop_Suc [symmetric])
  qed
  have meta: "take ?m (drop k1 P) = store_u32_le (le_device_time_raw x) @ store_u32_le (le_size x)
      @ filler @ [we_flag e]"
  proof -
    have "take ?m (drop k1 P) = take (4 + (4 + ((?m - 9) + 1))) (drop k1 P)" by simp
    also have "\<dots> = take 4 (drop k1 P) @ take 4 (drop (k1 + 4) P)
        @ take (?m - 9) (drop (k1 + 8) P) @ take 1 (drop (k1 + ?m - 1) P)"
      unfolding take_add by (auto simp: add.commute add.left_commute)
    also have "\<dots> = store_u32_le (load_u32_le (drop k1 P)) @ store_u32_le (load_u32_le (drop (k1 + 4) P))
        @ filler @ [P ! (k1 + ?m - 1)]"
    proof -
      have "k1 + 8 \<le> length P" using room1 by (auto split: if_splits)
      then have "take 4 (drop k1 P) = store_u32_le (load_u32_le (drop k1 P))"
        "take 4 (drop (k1 + 4) P) = store_u32_le (load_u32_le (drop (k1 + 4) P))"
        by (intro four; simp)+
      then show ?thesis by (simp only: one filler_def)
    qed
    finally show ?thesis by (simp add: x e_def)
  qed
  have r1: "rest_at P k (lp_field name @ drop k1 P)" and k1: "k1 = k + 4 + length name"
    and ln: "length name < 2 ^ 32" using read_lp_view_rest [OF v1] by blast+
  have r2: "rest_at P (k1 + ?m) (lp_field path @ drop k' P)" and k': "k' = k1 + ?m + 4 + length path"
    and lp: "length path < 2 ^ 32" using read_lp_view_rest [OF v2] by blast+
  have "drop k1 P = take ?m (drop k1 P) @ drop (k1 + ?m) P"
    using append_take_drop_id [of ?m "drop k1 P"] by (simp add: add.commute)
  also have "drop (k1 + ?m) P = lp_field path @ drop k' P" using r2 by (simp add: rest_at_def)
  finally have "rest_at P k (entry_bytes e @ drop k' P)"
    using r1 by (simp add: meta entry_bytes_def e_def x)
  moreover have "wire_entry_ok first e" using lf ln lp by (simp add: wire_entry_ok_def e_def x)
  moreover have "k' = k + length (entry_bytes e)"
    using lf k1 k' by (auto simp: entry_bytes_def e_def x)
  moreover have "we_entry e = x" by (simp add: e_def)
  ultimately show ?thesis by blast
qed

fun wire_entries_ok :: "bool \<Rightarrow> wire_entry list \<Rightarrow> bool" where
  "wire_entries_ok first [] = True"
| "wire_entries_ok first (e # es) = (wire_entry_ok first e \<and> wire_entries_ok False es)"

definition listing_body :: "wire_entry list \<Rightarrow> u8 list" where
  "listing_body es = concat (map entry_bytes es)"

definition wire_listing :: "wire_entry list \<Rightarrow> u8 list" where
  "wire_listing es = [0, 0] @ store_u32_le (of_nat (length es)) @ [0, 1] @ listing_body es"

text \<open>What the loop leaves in the caller's array: the entries that fit, in order.\<close>

definition fill :: "nat \<Rightarrow> 'a list \<Rightarrow> 'a list \<Rightarrow> 'a list" where
  "fill i xs buf = take i buf @ take (length buf - i) xs @ drop (i + length xs) buf"

lemma fill_Nil [simp]: "fill i [] buf = buf"
  by (simp add: fill_def)

lemma fill_Cons:
  "fill (Suc i) xs (if i < length buf then buf[i := x] else buf) = fill i (x # xs) buf"
proof (cases "i < length buf")
  case True
  then have "take (Suc i) (buf[i := x]) = take i buf @ [x]"
    by (simp add: take_Suc_conv_app_nth)
  moreover have "length buf - i = Suc (length buf - Suc i)" using True by simp
  ultimately show ?thesis using True by (simp add: fill_def)
next
  case False
  then show ?thesis by (simp add: fill_def)
qed

lemma parse_listing_loop_bytes:
  "wire_entries_ok (i = 0) es \<Longrightarrow> rest_at P k (listing_body es @ post) \<Longrightarrow>
   parse_listing_loop P (length es) i k buf
     = (Some (k + length (listing_body es)), fill i (map we_entry es) buf)"
proof (induction es arbitrary: i k buf)
  case Nil
  then show ?case by (simp add: listing_body_def)
next
  case (Cons e es)
  have r: "rest_at P k (entry_bytes e @ listing_body es @ post)"
    using Cons.prems(2) by (simp add: listing_body_def)
  have e: "parse_listing_entry P (i = 0) k = Some (k + length (entry_bytes e), we_entry e)"
    using Cons.prems(1) r by (intro parse_listing_entry_bytes) simp_all
  have "wire_entries_ok (Suc i = 0) es" using Cons.prems(1) by simp
  from Cons.IH [OF this rest_at_append [OF r]] show ?case
    by (simp only: list.size add_Suc_right add_0_right parse_listing_loop.simps e option.case
        prod.case fill_Cons list.map) (simp add: listing_body_def add.assoc)
qed

lemma parse_listing_loop_SomeD:
  "parse_listing_loop P n i k buf = (Some k', buf') \<Longrightarrow> k \<le> length P \<Longrightarrow>
   \<exists>es. length es = n \<and> wire_entries_ok (i = 0) es \<and> rest_at P k (listing_body es @ drop k' P)"
proof (induction n arbitrary: i k buf)
  case 0
  then show ?case by (auto simp: listing_body_def rest_at_def)
next
  case (Suc n)
  from Suc.prems(1) obtain k1 x where e: "parse_listing_entry P (i = 0) k = Some (k1, x)"
    and l: "parse_listing_loop P n (Suc i) k1 (if i < length buf then buf[i := x] else buf)
      = (Some k', buf')"
    by (auto split: option.splits prod.splits)
  from parse_listing_entry_SomeD [OF e] obtain w where w: "wire_entry_ok (i = 0) w"
    "k1 = k + length (entry_bytes w)" "rest_at P k (entry_bytes w @ drop k1 P)" by blast
  have "k1 \<le> length P" using rest_at_length [OF w(3)] w(2) by simp
  from Suc.IH [OF l this] obtain es where es: "length es = n" "wire_entries_ok (Suc i = 0) es"
    "rest_at P k1 (listing_body es @ drop k' P)" by blast
  have "rest_at P k (listing_body (w # es) @ drop k' P)"
    using w(3) es(3) by (simp add: listing_body_def rest_at_def)
  then show ?case using w(1) es(1,2)
    by (intro exI [of _ "w # es"]) simp
qed

lemma wire_listing_shape:
  "rest_at (wire_listing es) 8 (listing_body es)"
  "length (wire_listing es) = 8 + length (listing_body es)"
  by (simp_all add: wire_listing_def rest_at_def)

lemma wire_listing_header:
  "wire_listing es ! 0 = 0" "wire_listing es ! 1 = 0"
  "wire_listing es ! 6 = 0" "wire_listing es ! 7 = 1"
  by (simp_all add: wire_listing_def store_u32_le_def numeral_eq_Suc)

lemma wire_listing_count:
  "length es < 2 ^ 32 \<Longrightarrow> unat (load_u32_le (drop 2 (wire_listing es))) = length es"
  using unat_of_nat_u32 by (simp add: wire_listing_def)

lemma parse_wire_listing:
  assumes "wire_entries_ok True es" and "length es < 2 ^ 32"
  shows "parse_listing_payload (Span (wire_listing es)) (Span buf) (Some c) =
    (if length es > length buf then AP_BUFFER_TOO_SMALL else AP_OK,
     Span (fill 0 (map we_entry es) buf), Some (length es))"
proof -
  have "parse_listing_loop (wire_listing es) (length es) 0 8 buf
      = (Some (8 + length (listing_body es)), fill 0 (map we_entry es) buf)"
    using assms(1) wire_listing_shape(1) parse_listing_loop_bytes [of 0 es _ 8 "[]"] by simp
  then show ?thesis
    using wire_listing_header [of es] wire_listing_count [OF assms(2)]
    by (simp add: parse_listing_payload_def Let_def wire_listing_shape(2))
qed

lemma parse_listing_is_wire:
  assumes "fst (parse_listing_payload (Span p) (Span buf) (Some c)) \<in> {AP_OK, AP_BUFFER_TOO_SMALL}"
  shows "\<exists>es. p = wire_listing es \<and> wire_entries_ok True es \<and> length es < 2 ^ 32"
proof -
  let ?n = "unat (load_u32_le (drop 2 p))"
  from assms have h: "8 \<le> length p" "p ! 0 = 0" "p ! 1 = 0" "p ! 6 = 0" "p ! 7 = 1"
    and l: "\<exists>buf'. parse_listing_loop p ?n 0 8 buf = (Some (length p), buf')"
    by (auto simp: parse_listing_payload_def Let_def split: if_splits prod.splits option.splits)
  from l obtain buf' where "parse_listing_loop p ?n 0 8 buf = (Some (length p), buf')" by blast
  from parse_listing_loop_SomeD [OF this h(1)] obtain es where
    es: "length es = ?n" "wire_entries_ok True es" "rest_at p 8 (listing_body es)" by auto
  have len: "length es < 2 ^ 32" using es(1) unat_u32_less by metis
  have up: "[0..<8] = [0, 1, 2, 3, 4, 5, 6, 7]" by (simp add: upt_rec)
  have "p = take 8 p @ listing_body es" using es(3) by (metis append_take_drop_id rest_at_def)
  moreover have "take 8 p = [p ! 0, p ! 1] @ [p ! 2, p ! 3, p ! 4, p ! 5] @ [p ! 6, p ! 7]"
    using h(1) by (simp add: take_nths up)
  moreover have "[p ! 2, p ! 3, p ! 4, p ! 5] = store_u32_le (of_nat (length es))"
    using store_load_u32_le [of "drop 2 p"] h(1) es(1) by simp
  ultimately have "p = wire_listing es" using h by (simp add: wire_listing_def)
  with es(2) len show ?thesis by blast
qed

text \<open>
  C7. \<open>parse_listing_payload\<close> accepts exactly the listing grammar: the header with a count,
  that many entries with the first entry's longer metadata block, and nothing behind them. On
  such a payload it reports the count, stores the entries that fit the caller's array in order
  and leaves the rest of the array alone; BUFFER_TOO_SMALL is reported exactly when some entry
  did not fit. On every other payload it reports INVALID_FRAME and no count.
\<close>

theorem parse_listing_exact:
  "case parse_listing_payload (Span p) (Span buf) (Some c) of
     (status, entries, count) \<Rightarrow>
       (\<exists>es. p = wire_listing es \<and> wire_entries_ok True es \<and> length es < 2 ^ 32
         \<and> status = (if length es > length buf then AP_BUFFER_TOO_SMALL else AP_OK)
         \<and> entries = Span (fill 0 (map we_entry es) buf) \<and> count = Some (length es))
       \<or> (\<nexists>es. p = wire_listing es \<and> wire_entries_ok True es \<and> length es < 2 ^ 32)
         \<and> status = AP_INVALID_FRAME \<and> count = Some c"
proof (cases "\<exists>es. p = wire_listing es \<and> wire_entries_ok True es \<and> length es < 2 ^ 32")
  case True
  then obtain es where es: "p = wire_listing es" "wire_entries_ok True es" "length es < 2 ^ 32"
    by blast
  show ?thesis using parse_wire_listing [OF es(2,3), of buf c] es by auto
next
  case False
  then have "fst (parse_listing_payload (Span p) (Span buf) (Some c))
      \<notin> {AP_OK, AP_BUFFER_TOO_SMALL}"
    using parse_listing_is_wire by blast
  then have "fst (parse_listing_payload (Span p) (Span buf) (Some c)) = AP_INVALID_FRAME
      \<and> snd (snd (parse_listing_payload (Span p) (Span buf) (Some c))) = Some c"
    by (auto simp: parse_listing_payload_def Let_def split: if_splits prod.splits option.splits)
  with False show ?thesis by (auto split: prod.splits)
qed

section \<open>Identity payloads\<close>

lemma copy_identity_field_iff:
  "copy_identity_field value capacity serial_field = Some v \<longleftrightarrow>
     v = value \<and> value \<noteq> [] \<and> length value < capacity
     \<and> list_all (\<lambda>b. if serial_field then serial_byte b else 0x20 \<le> b \<and> b \<noteq> 0x7f) value"
  by (cases serial_field) (auto simp: copy_identity_field_def list_all_iff not_le)

text \<open>The six lines of a text joined by a line end, with or without the carriage return.\<close>

definition identity_text :: "u8 list \<Rightarrow> device_info \<Rightarrow> u8 list" where
  "identity_text eol i = di_firmware i @ eol @ di_part_number i @ eol @ di_serial i @ eol
     @ di_install_status i @ eol @ di_vehicle i @ eol @ di_trailing_field i"

definition identity_ok :: "device_info \<Rightarrow> bool" where
  "identity_ok i \<longleftrightarrow>
     (let field = (\<lambda>v capacity good. v \<noteq> [] \<and> length v < capacity \<and> list_all good v);
          printable = (\<lambda>b. 0x20 \<le> b \<and> b \<noteq> (0x7f :: u8))
      in field (di_firmware i) 64 printable \<and> field (di_part_number i) 40 printable
         \<and> field (di_serial i) (64 :: nat) serial_byte \<and> field (di_install_status i) 40 printable
         \<and> field (di_vehicle i) 192 printable \<and> field (di_trailing_field i) 40 printable)"

lemma identity_fields_line:
  "10 \<notin> set xs \<Longrightarrow> identity_fields (xs @ ys) line fs = identity_fields ys (line @ xs) fs"
  by (induction xs arbitrary: line) auto

lemma serial_byte_no_eol: "serial_byte b \<Longrightarrow> b \<noteq> 10 \<and> b \<noteq> 13"
  by (auto simp: serial_byte_def)

lemma printable_no_eol: "0x20 \<le> b \<Longrightarrow> b \<noteq> 10 \<and> b \<noteq> (13 :: u8)"
  by auto

lemma add_identity_line_plain:
  "xs \<noteq> [] \<Longrightarrow> 13 \<notin> set xs \<Longrightarrow> length fs < 6 \<Longrightarrow>
   add_identity_line xs fs = Some (fs @ [xs]) \<and> add_identity_line (xs @ [13]) fs = Some (fs @ [xs])"
  using last_in_set [of xs] by (cases "last xs = 13") (auto simp: add_identity_line_def Let_def)

lemma identity_fields_next:
  assumes "xs \<noteq> []" and "10 \<notin> set xs" and "13 \<notin> set xs" and "length fs < 6"
    and "eol \<in> {[10], [13, 10]}"
  shows "identity_fields (xs @ eol @ ys) [] fs = identity_fields ys [] (fs @ [xs])"
proof -
  have line: "identity_fields (xs @ eol @ ys) [] fs = identity_fields (eol @ ys) xs fs"
    using identity_fields_line [OF assms(2), of "eol @ ys" "[]" fs] by simp
  from assms(5) consider "eol = [10]" | "eol = [13, 10]" by blast
  then show ?thesis
    unfolding line using add_identity_line_plain [OF assms(1,3,4)] by cases simp_all
qed

lemma identity_fields_last:
  "xs \<noteq> [] \<Longrightarrow> 10 \<notin> set xs \<Longrightarrow> 13 \<notin> set xs \<Longrightarrow> length fs < 6 \<Longrightarrow>
   identity_fields xs [] fs = Some (fs @ [xs])"
  using identity_fields_line [of xs "[]" "[]" fs] add_identity_line_plain [of xs fs] by simp

lemma identity_okD:
  assumes "identity_ok i" and "f \<in> {di_firmware i, di_part_number i, di_serial i,
    di_install_status i, di_vehicle i, di_trailing_field i}"
  shows "f \<noteq> [] \<and> 10 \<notin> set f \<and> 13 \<notin> set f"
proof -
  have p: "g \<noteq> [] \<and> 10 \<notin> set g \<and> 13 \<notin> set g"
    if "g \<noteq> []" "list_all (\<lambda>b. 0x20 \<le> b \<and> b \<noteq> (0x7f :: u8)) g" for g
    using that printable_no_eol by (auto simp: list_all_iff)
  have q: "g \<noteq> [] \<and> 10 \<notin> set g \<and> 13 \<notin> set g"
    if "g \<noteq> []" "list_all serial_byte g" for g
    using that serial_byte_no_eol unfolding list_all_iff by blast
  have "list_all (\<lambda>b. 0x20 \<le> b \<and> b \<noteq> (0x7f :: u8)) f \<or> list_all serial_byte f" "f \<noteq> []"
    using assms unfolding identity_ok_def Let_def by (simp_all only: insert_iff empty_iff simp_thms) metis+
  then show ?thesis using p q by blast
qed

text \<open>
  An identity is read back from the text that lists its six fields, whether the lines end
  in LF or in CR LF.
\<close>

lemma parse_identity_roundtrip:
  assumes ok: "identity_ok i" and eol: "eol \<in> {[10], [13, 10]}"
  shows "parse_device_identity_payload (Span (lp_field (identity_text eol i))) (Some old)
    = (AP_OK, Some i)"
proof -
  let ?fs = "[di_firmware i, di_part_number i, di_serial i, di_install_status i, di_vehicle i,
    di_trailing_field i]"
  let ?t = "identity_text eol i"
  note f = identity_okD [OF ok]
  have "identity_fields ?t [] [] = Some ?fs"
    unfolding identity_text_def using f eol
    by (simp add: identity_fields_next [OF _ _ _ _ eol] identity_fields_last)
  moreover have "length ?t < 2 ^ 32"
    using ok eol by (auto simp: identity_text_def identity_ok_def Let_def)
  then have "read_lp_view (lp_field ?t) 0 = Some (4 + length ?t, ?t)"
    using read_lp_view_field [of "lp_field ?t" 0 ?t "[]"] by (simp add: rest_at_def)
  moreover have "?t \<noteq> []" using f by (auto simp: identity_text_def)
  moreover have "copy_identity_field (di_firmware i) 64 False = Some (di_firmware i)"
    "copy_identity_field (di_part_number i) 40 False = Some (di_part_number i)"
    "copy_identity_field (di_serial i) 64 True = Some (di_serial i)"
    "copy_identity_field (di_install_status i) 40 False = Some (di_install_status i)"
    "copy_identity_field (di_vehicle i) 192 False = Some (di_vehicle i)"
    "copy_identity_field (di_trailing_field i) 40 False = Some (di_trailing_field i)"
    using ok by (simp_all add: copy_identity_field_iff identity_ok_def Let_def)
  ultimately show ?thesis
    by (simp add: parse_device_identity_payload_def lp_field_def)
qed

definition sample_identity :: device_info where
  "sample_identity = \<lparr>di_firmware = ascii ''1.7.4'', di_part_number = ascii ''AP3-SUB-004'',
     di_serial = ascii ''A-1_z'', di_install_status = ascii ''Installed'',
     di_vehicle = ascii ''WRX'', di_trailing_field = ascii ''x''\<rparr>"

theorem parse_identity_roundtrip_witness:
  "parse_device_identity_payload (Span (lp_field (identity_text [13, 10] sample_identity)))
     (Some sample_identity) = (AP_OK, Some sample_identity)"
  by (rule parse_identity_roundtrip)
    (simp_all add: sample_identity_def identity_ok_def serial_byte_def of_char_def)

text \<open>
  \<open>parse_device_identity_payload\<close> never hands out an identity with an empty field, a field
  that does not fit its buffer with the terminator, a control character or a serial with a
  character outside the safe set; without success the caller's identity is unchanged.
\<close>

lemma parse_identity_sound:
  "case parse_device_identity_payload payload (Some old) of
     (status, result) \<Rightarrow> (status = AP_OK \<and> (\<exists>i. result = Some i \<and> identity_ok i))
       \<or> (status \<noteq> AP_OK \<and> result = Some old)"
  unfolding parse_device_identity_payload_def
  by (auto simp: identity_ok_def copy_identity_field_iff bind_eq_Some_conv Let_def
      split: option.splits prod.splits if_splits)

end
