(* ===== verification/Accessport_Targets.thy ===== *)
theory Accessport_Targets
  imports Accessport_Build "HOL-Library.Sublist"
begin

text \<open>
  The two write allowlists of the product (\<open>revlink_ap_validate_delete_target\<close> and
  \<open>revlink_ap_validate_upload_target\<close> in accessport_protocol/revlink_accessport_protocol.c).
  Every irreversible operation on the device passes one of them, so the theorems describe the
  accepted paths exactly.
\<close>

section \<open>The code\<close>

datatype upload_kind = UPLOAD_MAP | UPLOAD_STARTUP_SCREEN

abbreviation (input) AP_STARTUP_SCREEN_BYTES :: u32 where "AP_STARTUP_SCREEN_BYTES \<equiv> 153600"

definition to_lower :: "u8 \<Rightarrow> u8" where
  "to_lower b = (if b \<ge> 65 \<and> b \<le> 90 then b + 32 else b)"

definition ascii_equal_case_insensitive :: "u8 \<Rightarrow> u8 \<Rightarrow> bool" where
  "ascii_equal_case_insensitive left right \<longleftrightarrow> to_lower left = to_lower right"

text \<open>The scan of the file name: a NUL, a separator or two dots in a row reject the path.\<close>

fun unsafe_tail :: "u8 list \<Rightarrow> bool" where
  "unsafe_tail [] = False"
| "unsafe_tail (b # rest) =
     (b = 0 \<or> b = 47 \<or> b = 92 \<or> (b = 46 \<and> rest \<noteq> [] \<and> hd rest = 46) \<or> unsafe_tail rest)"

definition maps_prefix :: "u8 list" where "maps_prefix = ascii ''maps/''"
definition datalog_prefix :: "u8 list" where "datalog_prefix = ascii ''datalog/''"
definition startup_path :: "u8 list" where "startup_path = ascii ''images/startup_screen.fb''"
definition map_extension :: "u8 list" where "map_extension = ascii ''.ptm''"

lemma length_path_constants [simp]:
  "length maps_prefix = 5" "length datalog_prefix = 8" "length startup_path = 24"
  "length map_extension = 4"
  by (simp_all add: maps_prefix_def datalog_prefix_def startup_path_def map_extension_def)

fun validate_delete_target :: "u8 span \<Rightarrow> ap_status" where
  "validate_delete_target (NullSpan n) = AP_INVALID_ARGUMENT"
| "validate_delete_target (Span path) =
     (case (if length path > 5 \<and> take 5 path = maps_prefix then Some 5
            else if length path > 8 \<and> take 8 path = datalog_prefix then Some 8
            else None) of
        None \<Rightarrow> AP_UPLOAD_TARGET_REJECTED
      | Some file_offset \<Rightarrow>
          if unsafe_tail (drop file_offset path) then AP_UPLOAD_TARGET_REJECTED else AP_OK)"

definition validate_upload_target ::
  "u8 span \<Rightarrow> u32 \<Rightarrow> upload_kind option \<Rightarrow> ap_status \<times> upload_kind option" where
  "validate_upload_target path file_size kind =
     (if is_null path \<or> kind = None then (AP_INVALID_ARGUMENT, kind)
      else let p = sbytes path in
        if length p = 24 \<and> p = startup_path then
          (if file_size \<noteq> AP_STARTUP_SCREEN_BYTES then (AP_UPLOAD_TARGET_REJECTED, kind)
           else (AP_OK, Some UPLOAD_STARTUP_SCREEN))
        else if length p \<le> 5 + 4 \<or> take 5 p \<noteq> maps_prefix
            \<or> file_size = 0 \<or> file_size > of_nat AP_MAX_CHUNK_PAYLOAD
          then (AP_UPLOAD_TARGET_REJECTED, kind)
        else if unsafe_tail (drop 5 p) then (AP_UPLOAD_TARGET_REJECTED, kind)
        else if \<not> list_all2 ascii_equal_case_insensitive (drop (length p - 4) p) map_extension
          then (AP_UPLOAD_TARGET_REJECTED, kind)
        else (AP_OK, Some UPLOAD_MAP))"

section \<open>Safe file names\<close>

text \<open>
  A name that stays inside its directory: no NUL, no separator of either kind and no \<open>..\<close>
  anywhere in it.
\<close>

definition safe_name :: "u8 list \<Rightarrow> bool" where
  "safe_name name \<longleftrightarrow> 0 \<notin> set name \<and> 47 \<notin> set name \<and> 92 \<notin> set name \<and> \<not> sublist [46, 46] name"

lemma sublist_dots_Cons: "sublist [a, a] (b # rest) \<longleftrightarrow> (b = a \<and> rest \<noteq> [] \<and> hd rest = a) \<or> sublist [a, a] rest"
  by (cases rest) (auto simp: sublist_Cons_right)

lemma unsafe_tail_iff: "unsafe_tail name \<longleftrightarrow> \<not> safe_name name"
  by (induction name) (auto simp: safe_name_def sublist_dots_Cons)

lemma split_prefix:
  "length p > length pre \<and> take (length pre) p = pre \<longleftrightarrow> (\<exists>name. p = pre @ name \<and> name \<noteq> [])"
proof
  assume "length p > length pre \<and> take (length pre) p = pre"
  then show "\<exists>name. p = pre @ name \<and> name \<noteq> []"
    by (intro exI [of _ "drop (length pre) p"]) (metis append_take_drop_id drop_eq_Nil not_le)
qed auto

lemmas split_maps = split_prefix [of maps_prefix, simplified length_path_constants]
lemmas split_datalog = split_prefix [of datalog_prefix, simplified length_path_constants]

lemma delete_target_names:
  "validate_delete_target (Span path) =
     (if \<exists>dir \<in> {maps_prefix, datalog_prefix}. \<exists>name. path = dir @ name \<and> name \<noteq> [] \<and> safe_name name
      then AP_OK else AP_UPLOAD_TARGET_REJECTED)"
proof -
  consider (maps) name where "path = maps_prefix @ name" "name \<noteq> []"
    | (datalog) name where "path = datalog_prefix @ name" "name \<noteq> []"
    | (other) "\<nexists>name. path = maps_prefix @ name \<and> name \<noteq> []"
        "\<nexists>name. path = datalog_prefix @ name \<and> name \<noteq> []"
    by blast
  then show ?thesis
  proof cases
    case maps
    moreover have "maps_prefix @ name \<noteq> datalog_prefix @ name'" for name'
      by (simp add: maps_prefix_def datalog_prefix_def)
    ultimately show ?thesis by (simp add: unsafe_tail_iff)
  next
    case datalog
    moreover have "datalog_prefix @ name \<noteq> maps_prefix @ name'" for name'
      by (simp add: maps_prefix_def datalog_prefix_def)
    moreover have "take 5 (datalog_prefix @ name) \<noteq> maps_prefix"
      by (simp add: maps_prefix_def datalog_prefix_def)
    ultimately show ?thesis by (simp add: unsafe_tail_iff)
  next
    case other
    then have "\<not> (5 < length path \<and> take 5 path = maps_prefix)"
      "\<not> (8 < length path \<and> take 8 path = datalog_prefix)"
      using split_maps [of path] split_datalog [of path] by blast+
    then show ?thesis using other by auto
  qed
qed

text \<open>
  C5. A delete is authorised exactly for a file directly inside \<open>maps/\<close> or \<open>datalog/\<close> - a name that is
  not empty, is not a lone dot, and has no NUL, no separator of either kind and no two dots in a row -
  and for two further paths, \<open>maps/.\<close> and \<open>datalog/.\<close>, with which the code departs from its header
  (revlink_accessport_protocol.h:289 and docs/FILE_DELETE.md: never a directory itself): the lone dot
  names the directory, and the scan lets it pass. Every other path is rejected.
\<close>

theorem delete_target_exact:
  "validate_delete_target (Span path) =
     (if (\<exists>dir name. dir \<in> {ascii ''maps/'', ascii ''datalog/''} \<and> path = dir @ name
            \<and> name \<noteq> [] \<and> name \<noteq> ascii ''.'' \<and> set name \<inter> {0, 47, 92} = {} \<and> \<not> sublist [46, 46] name)
        \<or> path \<in> {ascii ''maps/.'', ascii ''datalog/.''}
      then AP_OK else AP_UPLOAD_TARGET_REJECTED)"
proof -
  have dot: "ascii ''.'' = [46]" "safe_name [46]" by (simp_all add: ascii_def of_char_def safe_name_def sublist_Cons_right)
  have two: "ascii ''maps/.'' = maps_prefix @ [46]" "ascii ''datalog/.'' = datalog_prefix @ [46]"
    by (simp_all add: maps_prefix_def datalog_prefix_def ascii_def of_char_def)
  have "(\<exists>dir \<in> {maps_prefix, datalog_prefix}. \<exists>name. path = dir @ name \<and> name \<noteq> [] \<and> safe_name name)
      \<longleftrightarrow> (\<exists>dir name. dir \<in> {maps_prefix, datalog_prefix} \<and> path = dir @ name \<and> name \<noteq> [] \<and> name \<noteq> [46] \<and> safe_name name)
        \<or> path \<in> {maps_prefix @ [46], datalog_prefix @ [46]}"
    using dot(2) by blast
  moreover have "safe_name name \<longleftrightarrow> set name \<inter> {0, 47, 92} = {} \<and> \<not> sublist [46, 46] name" for name
    by (auto simp: safe_name_def)
  ultimately show ?thesis
    unfolding delete_target_names dot(1) two maps_prefix_def [symmetric] datalog_prefix_def [symmetric]
    by (simp only:)
qed

section \<open>Uploads\<close>

lemma to_lower_extension:
  "list_all2 ascii_equal_case_insensitive xs map_extension \<longleftrightarrow> map to_lower xs = map_extension"
proof -
  have "to_lower c = c" if "c \<in> set map_extension" for c
    using that by (auto simp: map_extension_def to_lower_def)
  then have "map to_lower map_extension = map_extension" by (intro map_idI)
  moreover have "list_all2 ascii_equal_case_insensitive xs ys \<longleftrightarrow> map to_lower xs = map to_lower ys"
    for ys by (induction xs arbitrary: ys) (auto simp: ascii_equal_case_insensitive_def list_all2_Cons1
        Cons_eq_map_conv)
  ultimately show ?thesis by metis
qed

lemma split_map_path:
  "length p > 9 \<and> take 5 p = maps_prefix \<and> map to_lower (drop (length p - 4) p) = map_extension
   \<longleftrightarrow> (\<exists>stem ext. p = maps_prefix @ stem @ ext \<and> stem \<noteq> [] \<and> map to_lower ext = map_extension)"
    (is "?l \<longleftrightarrow> ?r")
proof
  assume l: ?l
  let ?n = "length p - 9"
  have "p = take 5 p @ take ?n (drop 5 p) @ drop ?n (drop 5 p)"
    by (simp only: append_take_drop_id)
  also have "drop ?n (drop 5 p) = drop (length p - 4) p" using l by (simp add: add.commute)
  finally have "p = maps_prefix @ take ?n (drop 5 p) @ drop (length p - 4) p" using l by simp
  moreover have "take ?n (drop 5 p) \<noteq> []" using l by auto
  ultimately show ?r using l by blast
next
  assume ?r
  then obtain stem ext where p: "p = maps_prefix @ stem @ ext" "stem \<noteq> []"
    and e: "map to_lower ext = map_extension" by blast
  from e have l: "length ext = 4" by (metis length_map length_path_constants(4))
  then have "drop (length p - 4) p = ext" unfolding p(1) by simp
  then show ?l using p e l by simp
qed

text \<open>
  C6. An upload is authorised exactly for the startup screen path with the size of a frame
  buffer, and for a non-empty safe name directly behind \<open>maps/\<close> that ends in \<open>.ptm\<close> in any
  case, has a stem and a size that fits one chunk. The kind tells the two apart and is only
  written on success.
\<close>

theorem upload_target_exact:
  "validate_upload_target (Span path) file_size (Some kind) =
     (if path = startup_path \<and> file_size = 153600 then (AP_OK, Some UPLOAD_STARTUP_SCREEN)
      else if (\<exists>stem ext. path = maps_prefix @ stem @ ext \<and> stem \<noteq> []
          \<and> map to_lower ext = map_extension \<and> safe_name (stem @ ext))
        \<and> 0 < unat file_size \<and> unat file_size \<le> 2 ^ 24 - 5
      then (AP_OK, Some UPLOAD_MAP)
      else (AP_UPLOAD_TARGET_REJECTED, Some kind))"
proof -
  have size: "0 < unat file_size \<and> unat file_size \<le> 2 ^ 24 - 5 \<longleftrightarrow>
      file_size \<noteq> 0 \<and> \<not> file_size > of_nat AP_MAX_CHUNK_PAYLOAD"
    by (auto simp: word_le_nat_alt not_less unat_gt_0)
  have path: "(\<exists>stem ext. path = maps_prefix @ stem @ ext \<and> stem \<noteq> []
        \<and> map to_lower ext = map_extension \<and> safe_name (stem @ ext)) \<longleftrightarrow>
      (length path > 9 \<and> take 5 path = maps_prefix
        \<and> map to_lower (drop (length path - 4) path) = map_extension) \<and> safe_name (drop 5 path)"
    unfolding split_map_path
  proof (intro iffI conjI; (elim exE conjE)?)
    fix stem ext
    assume p: "path = maps_prefix @ stem @ ext" and "safe_name (drop 5 path)" "stem \<noteq> []"
      "map to_lower ext = map_extension"
    then show "\<exists>stem ext. path = maps_prefix @ stem @ ext \<and> stem \<noteq> []
        \<and> map to_lower ext = map_extension \<and> safe_name (stem @ ext)"
      by (intro exI [of _ stem] exI [of _ ext]) simp
  qed auto
  have startup: "take 5 startup_path \<noteq> maps_prefix"
    by (simp add: startup_path_def maps_prefix_def)
  show ?thesis
    unfolding size path using startup
    by (auto simp: validate_upload_target_def Let_def unsafe_tail_iff to_lower_extension)
qed

end
