(* ===== verification/Download_Decoder.thy ===== *)
theory Download_Decoder
  imports Accessport_Parse
begin

text \<open>
  The incremental download decoder (\<open>revlink_ap_download_decoder_*\<close> in accessport_protocol/
  revlink_accessport_protocol.c). It is fed the USB transfers of one download in whatever
  pieces they arrive: an archive record announcing the response, the seven byte chunk header,
  the file and a four byte trailer. The file bytes go to a sink and are never buffered.

  The sink is a function on a world \<open>'w\<close>, given the bytes and answering whether it took them.
  \<open>payload_sink\<close> is the interface the decoder relies on; the cache writer of the SD storage
  provides it in \<open>Download_Writer\<close>.
\<close>

section \<open>The decoder\<close>

datatype dd_state = DD_ARCHIVE | DD_CHUNK_HEADER | DD_PAYLOAD | DD_TRAILER | DD_COMPLETE

record download_decoder =
  dd_state :: dd_state
  dd_expected_payload_size :: nat
  dd_archive :: "u8 list"
  dd_archive_size :: nat
  dd_archive_target_size :: nat
  dd_chunk_header :: "u8 list"
  dd_chunk_header_size :: nat
  dd_payload_size :: nat
  dd_payload_received :: nat
  dd_trailer :: "u8 list"
  dd_trailer_size :: nat
  dd_chunk_crc :: u32
  dd_trailing_bytes :: nat

abbreviation (input) AP_ARCHIVE_CAPACITY :: nat where "AP_ARCHIVE_CAPACITY \<equiv> 4096"
abbreviation (input) AP_DOWNLOAD_CHUNK_FLAG :: u8 where "AP_DOWNLOAD_CHUNK_FLAG \<equiv> 1"

type_synonym 'w sink = "u8 list \<Rightarrow> 'w \<Rightarrow> bool \<times> 'w"

definition decoder_zeroed :: download_decoder where
  "decoder_zeroed = \<lparr>dd_state = DD_ARCHIVE, dd_expected_payload_size = 0,
     dd_archive = replicate AP_ARCHIVE_CAPACITY 0, dd_archive_size = 0, dd_archive_target_size = 0,
     dd_chunk_header = replicate 7 0, dd_chunk_header_size = 0,
     dd_payload_size = 0, dd_payload_received = 0,
     dd_trailer = replicate 4 0, dd_trailer_size = 0, dd_chunk_crc = 0, dd_trailing_bytes = 0\<rparr>"

definition decoder_init :: "nat \<Rightarrow> download_decoder" where
  "decoder_init expected = decoder_zeroed\<lparr>dd_state := DD_ARCHIVE,
     dd_expected_payload_size := expected, dd_chunk_crc := - 1\<rparr>"

fun download_decoder_init :: "download_decoder option \<Rightarrow> nat \<Rightarrow> download_decoder option" where
  "download_decoder_init None expected = None"
| "download_decoder_init (Some decoder) expected = Some (decoder_init expected)"

text \<open>The difference of two \<open>size_t\<close> values wraps around.\<close>

definition size_sub :: "nat \<Rightarrow> nat \<Rightarrow> nat" where
  "size_sub a b = (if b \<le> a then a - b else a + Suc (SIZE_MAX - b))"

definition validate_download_archive :: "download_decoder \<Rightarrow> ap_status" where
  "validate_download_archive d =
     (case parse_record (Span (take (dd_archive_size d) (dd_archive d)))
             (Some \<lparr>rv_opcode = 0, rv_payload = []\<rparr>) of
        (AP_OK, Some view) \<Rightarrow> if rv_opcode view = AP_OPCODE_RESPONSE then AP_OK else AP_INVALID_FRAME
      | (status, _) \<Rightarrow> status)"

text \<open>
  One turn of the \<open>while\<close> loop in each state. The first component is the status the function
  returns with, or \<open>None\<close> when the loop continues; then come the decoder and the data left.
\<close>

type_synonym turn = "ap_status option \<times> download_decoder \<times> u8 list"

definition archive_wanted :: "download_decoder \<Rightarrow> nat" where
  "archive_wanted d =
     (if dd_archive_target_size d > 0 then size_sub (dd_archive_target_size d) (dd_archive_size d)
      else size_sub 5 (dd_archive_size d))"

definition archive_turn :: "download_decoder \<Rightarrow> u8 list \<Rightarrow> turn" where
  "archive_turn d data =
     (let count = min (archive_wanted d) (length data);
          d1 = d\<lparr>dd_archive := blit (dd_archive_size d) (take count data) (dd_archive d),
                 dd_archive_size := dd_archive_size d + count\<rparr>;
          rest = drop count data;
          archive = dd_archive d1; size = dd_archive_size d1
      in if size \<ge> 3 \<and> (archive ! 0 \<noteq> 0x02 \<or> archive ! 1 \<noteq> 0 \<or> archive ! 2 \<noteq> 0)
         then (Some AP_INVALID_FRAME, d1, rest)
         else
           let sized = (size = 5 \<and> dd_archive_target_size d1 = 0);
               d2 = (if sized
                     then d1\<lparr>dd_archive_target_size := unat (load_u16_be (drop 3 archive)) + 7\<rparr>
                     else d1);
               target = dd_archive_target_size d2
           in if sized \<and> (target < AP_RECORD_OVERHEAD \<or> target > AP_ARCHIVE_CAPACITY)
              then (Some AP_INVALID_FRAME, d2, rest)
              else if target > 0 \<and> size = target
              then (let status = validate_download_archive d2 in
                    if status \<noteq> AP_OK then (Some status, d2, rest)
                    else (None, d2\<lparr>dd_state := DD_CHUNK_HEADER\<rparr>, rest))
              else (None, d2, rest))"

definition header_turn :: "download_decoder \<Rightarrow> u8 list \<Rightarrow> turn" where
  "header_turn d data =
     (let count = min (size_sub 7 (dd_chunk_header_size d)) (length data);
          d1 = d\<lparr>dd_chunk_header :=
                    blit (dd_chunk_header_size d) (take count data) (dd_chunk_header d),
                 dd_chunk_header_size := dd_chunk_header_size d + count\<rparr>;
          rest = drop count data;
          header = dd_chunk_header d1
      in if dd_chunk_header_size d1 = 7
         then
           let declared = unat (load_u24_be (drop 2 header)) in
           if header ! 0 \<noteq> 0x02 \<or> header ! 1 \<noteq> 0 \<or> header ! 5 \<noteq> 0
             \<or> header ! 6 \<noteq> AP_DOWNLOAD_CHUNK_FLAG \<or> declared < AP_CHECKSUM_SIZE
           then (Some AP_INVALID_FRAME, d1, rest)
           else
             let d2 = d1\<lparr>dd_payload_size := declared - AP_CHECKSUM_SIZE\<rparr> in
             if dd_payload_size d2 \<noteq> dd_expected_payload_size d2
             then (Some AP_INVALID_FRAME, d2, rest)
             else (None, d2\<lparr>dd_chunk_crc := crc32_update (dd_chunk_crc d2) header,
                            dd_state := DD_PAYLOAD\<rparr>, rest)
         else (None, d1, rest))"

definition payload_turn ::
  "'w sink \<Rightarrow> download_decoder \<Rightarrow> u8 list \<Rightarrow> 'w \<Rightarrow> ap_status option \<times> download_decoder \<times> u8 list \<times> 'w" where
  "payload_turn sink d data w =
     (let count = min (size_sub (dd_payload_size d) (dd_payload_received d)) (length data);
          (accepted, w') = (if count > 0 then sink (take count data) w else (True, w))
      in if \<not> accepted then (Some AP_SINK_ERROR, d, data, w')
         else
           let d1 = d\<lparr>dd_chunk_crc := crc32_update (dd_chunk_crc d) (take count data),
                      dd_payload_received := dd_payload_received d + count\<rparr>
           in (None,
               if dd_payload_received d1 = dd_payload_size d1 then d1\<lparr>dd_state := DD_TRAILER\<rparr> else d1,
               drop count data, w'))"

definition trailer_turn :: "download_decoder \<Rightarrow> u8 list \<Rightarrow> turn" where
  "trailer_turn d data =
     (let count = min (size_sub 4 (dd_trailer_size d)) (length data);
          d1 = d\<lparr>dd_trailer := blit (dd_trailer_size d) (take count data) (dd_trailer d),
                 dd_trailer_size := dd_trailer_size d + count\<rparr>;
          rest = drop count data
      in if dd_trailer_size d1 = 4
         then
           let d2 = d1\<lparr>dd_chunk_crc := crc32_update (dd_chunk_crc d1) zero_trailer\<rparr>;
               trailer_zero = (take 4 (dd_trailer d2) = zero_trailer);
               trailer_valid = (load_u32_be (dd_trailer d2) = dd_chunk_crc d2)
           in if \<not> trailer_zero \<and> \<not> trailer_valid then (Some AP_INVALID_CHECKSUM, d2, rest)
              else (None, d2\<lparr>dd_state := DD_COMPLETE\<rparr>, rest)
         else (None, d1, rest))"

definition feed_turn ::
  "'w sink \<Rightarrow> download_decoder \<Rightarrow> u8 list \<Rightarrow> 'w \<Rightarrow> ap_status option \<times> download_decoder \<times> u8 list \<times> 'w" where
  "feed_turn sink d data w =
     (case dd_state d of
        DD_COMPLETE \<Rightarrow>
          (Some AP_OK, d\<lparr>dd_trailing_bytes := dd_trailing_bytes d + length data\<rparr>, data, w)
      | DD_ARCHIVE \<Rightarrow> (case archive_turn d data of (r, d', rest) \<Rightarrow> (r, d', rest, w))
      | DD_CHUNK_HEADER \<Rightarrow> (case header_turn d data of (r, d', rest) \<Rightarrow> (r, d', rest, w))
      | DD_PAYLOAD \<Rightarrow> payload_turn sink d data w
      | DD_TRAILER \<Rightarrow> (case trailer_turn d data of (r, d', rest) \<Rightarrow> (r, d', rest, w)))"

subsection \<open>Termination\<close>

text \<open>A turn consumes a byte, or it finds the count of its state complete and moves on.\<close>

fun dd_rank :: "download_decoder \<Rightarrow> nat" where
  "dd_rank d = (case dd_state d of
     DD_ARCHIVE \<Rightarrow> if dd_archive_target_size d = 0 then 5 else 4
   | DD_CHUNK_HEADER \<Rightarrow> 3 | DD_PAYLOAD \<Rightarrow> 2 | DD_TRAILER \<Rightarrow> 1 | DD_COMPLETE \<Rightarrow> 0)"

lemma size_sub_0: "size_sub a b = 0 \<longleftrightarrow> a = b"
  by (auto simp: size_sub_def)

lemma size_sub_le: "b \<le> a \<Longrightarrow> size_sub a b = a - b"
  by (simp add: size_sub_def)

lemma min_consumes: "n \<noteq> 0 \<Longrightarrow> data \<noteq> [] \<Longrightarrow> 0 < min n (length data)"
  by simp

lemma archive_turn_progress:
  assumes "archive_turn d data = (None, d', rest)" and "data \<noteq> []" and "dd_state d = DD_ARCHIVE"
  shows "length rest + dd_rank d' < length data + dd_rank d"
proof (cases "archive_wanted d = 0")
  case True
  with assms show ?thesis
    by (auto simp: archive_turn_def Let_def archive_wanted_def size_sub_0 split: if_splits)
next
  case False
  then have c: "0 < min (archive_wanted d) (length data)" using assms(2) by simp
  have "length rest = length data - min (archive_wanted d) (length data)"
    using assms(1) by (auto simp: archive_turn_def Let_def split: if_splits)
  moreover have "dd_rank d' \<le> dd_rank d"
    using assms(1,3) by (auto simp: archive_turn_def Let_def split: if_splits)
  ultimately show ?thesis using c by (metis add_less_le_mono diff_less length_greater_0_conv assms(2))
qed

lemma header_turn_progress:
  assumes "header_turn d data = (None, d', rest)" and "data \<noteq> []" and "dd_state d = DD_CHUNK_HEADER"
  shows "length rest + dd_rank d' < length data + dd_rank d"
proof (cases "size_sub 7 (dd_chunk_header_size d) = 0")
  case True
  then have "dd_chunk_header_size d = 7" by (simp add: size_sub_0)
  with assms True show ?thesis
    by (auto simp: header_turn_def Let_def split: if_splits)
next
  case False
  then have c: "0 < min (size_sub 7 (dd_chunk_header_size d)) (length data)" using assms(2) by simp
  have "length rest = length data - min (size_sub 7 (dd_chunk_header_size d)) (length data)"
    using assms(1) by (auto simp: header_turn_def Let_def split: if_splits)
  moreover have "dd_rank d' \<le> dd_rank d"
    using assms(1,3) by (auto simp: header_turn_def Let_def split: if_splits)
  ultimately show ?thesis using c by (metis add_less_le_mono diff_less length_greater_0_conv assms(2))
qed

lemma trailer_turn_progress:
  assumes "trailer_turn d data = (None, d', rest)" and "data \<noteq> []" and "dd_state d = DD_TRAILER"
  shows "length rest + dd_rank d' < length data + dd_rank d"
proof (cases "size_sub 4 (dd_trailer_size d) = 0")
  case True
  then have "dd_trailer_size d = 4" by (simp add: size_sub_0)
  with assms True show ?thesis
    by (auto simp: trailer_turn_def Let_def split: if_splits)
next
  case False
  then have c: "0 < min (size_sub 4 (dd_trailer_size d)) (length data)" using assms(2) by simp
  have "length rest = length data - min (size_sub 4 (dd_trailer_size d)) (length data)"
    using assms(1) by (auto simp: trailer_turn_def Let_def split: if_splits)
  moreover have "dd_rank d' \<le> dd_rank d"
    using assms(1,3) by (auto simp: trailer_turn_def Let_def split: if_splits)
  ultimately show ?thesis using c by (metis add_less_le_mono diff_less length_greater_0_conv assms(2))
qed

lemma payload_turn_progress:
  assumes "payload_turn sink d data w = (None, d', rest, w')" and "data \<noteq> []"
    and "dd_state d = DD_PAYLOAD"
  shows "length rest + dd_rank d' < length data + dd_rank d"
proof (cases "size_sub (dd_payload_size d) (dd_payload_received d) = 0")
  case True
  then have "dd_payload_size d = dd_payload_received d" by (simp add: size_sub_0)
  with assms True show ?thesis
    by (auto simp: payload_turn_def Let_def split: if_splits)
next
  case False
  then have c: "0 < min (size_sub (dd_payload_size d) (dd_payload_received d)) (length data)"
    using assms(2) by simp
  have "length rest
      = length data - min (size_sub (dd_payload_size d) (dd_payload_received d)) (length data)"
    using assms(1) by (auto simp: payload_turn_def Let_def split: if_splits prod.splits)
  moreover have "dd_rank d' \<le> dd_rank d"
    using assms(1,3) by (auto simp: payload_turn_def Let_def split: if_splits prod.splits)
  ultimately show ?thesis using c by (metis add_less_le_mono diff_less length_greater_0_conv assms(2))
qed

lemma feed_turn_progress:
  assumes "feed_turn sink d data w = (None, d', rest, w')" and "data \<noteq> []"
  shows "length rest + dd_rank d' < length data + dd_rank d"
  using assms
  by (cases "dd_state d")
    (auto simp only: feed_turn_def dd_state.case prod.inject split: prod.splits dest: archive_turn_progress
      header_turn_progress payload_turn_progress trailer_turn_progress)

function feed_loop ::
  "'w sink \<Rightarrow> download_decoder \<Rightarrow> u8 list \<Rightarrow> 'w \<Rightarrow> ap_status \<times> download_decoder \<times> 'w" where
  "feed_loop sink d data w =
     (if data = [] then (AP_OK, d, w)
      else case feed_turn sink d data w of
        (Some status, d', rest, w') \<Rightarrow> (status, d', w')
      | (None, d', rest, w') \<Rightarrow> feed_loop sink d' rest w')"
  by pat_completeness auto
termination
  by (relation "measure (\<lambda>(sink, d, data, w). length data + dd_rank d)")
    (auto simp del: dd_rank.simps dest: sym intro: feed_turn_progress)

declare feed_loop.simps [simp del]

definition download_decoder_feed ::
  "download_decoder option \<Rightarrow> u8 span \<Rightarrow> 'w sink option \<Rightarrow> 'w
   \<Rightarrow> ap_status \<times> download_decoder option \<times> 'w" where
  "download_decoder_feed decoder data sink w =
     (case (decoder, sink) of
        (Some d, Some s) \<Rightarrow>
          if null_with_length data \<or> dd_expected_payload_size d = 0
          then (AP_INVALID_ARGUMENT, decoder, w)
          else (case feed_loop s d (sbytes data) w of (status, d', w') \<Rightarrow> (status, Some d', w'))
      | _ \<Rightarrow> (AP_INVALID_ARGUMENT, decoder, w))"

fun download_decoder_complete :: "download_decoder option \<Rightarrow> bool" where
  "download_decoder_complete None = False"
| "download_decoder_complete (Some d) = (dd_state d = DD_COMPLETE)"

end
