(* ===== verification/Download_Stream.thy ===== *)
theory Download_Stream
  imports Download_Decoder
begin

text \<open>
  What the download decoder accepts. \<open>download_stream\<close> is the grammar of a download response,
  \<open>dd_rel\<close> relates the decoder to the bytes it has consumed so far. Each turn of the loop keeps
  the relation or rules the grammar out, so the outcome depends on the concatenation of the
  transfers and not on how they were cut.
\<close>

section \<open>The grammar\<close>

definition response_record :: "u8 list \<Rightarrow> bool" where
  "response_record r \<longleftrightarrow>
     (\<exists>p. r = archive_record AP_OPCODE_RESPONSE p) \<and> length r \<le> AP_ARCHIVE_CAPACITY"

definition download_trailer :: "u8 list \<Rightarrow> u8 list \<Rightarrow> bool" where
  "download_trailer payload t \<longleftrightarrow> length t = 4 \<and>
     (t = zero_trailer \<or>
      load_u32_be t = crc32_update (- 1) (chunk_head 1 (length payload) @ payload @ zero_trailer))"

definition download_stream :: "nat \<Rightarrow> u8 list \<Rightarrow> u8 list \<Rightarrow> u8 list \<Rightarrow> bool" where
  "download_stream e payload extra x \<longleftrightarrow>
     (\<exists>r t. x = r @ chunk_head 1 e @ payload @ t @ extra \<and> response_record r
        \<and> length payload = e \<and> e + 4 < 2 ^ 24 \<and> download_trailer payload t)"

text \<open>The bytes can still become a download.\<close>

definition viable :: "nat \<Rightarrow> u8 list \<Rightarrow> bool" where
  "viable e x \<longleftrightarrow> (\<exists>payload extra y. download_stream e payload extra (x @ y))"

lemma viable_prefix: "viable e (x @ y) \<Longrightarrow> viable e x"
  unfolding viable_def by (metis append_assoc)

lemma viable_stream: "download_stream e payload extra x \<Longrightarrow> viable e x"
  unfolding viable_def by (metis append_Nil2)

text \<open>The length of the record, read from its third and fourth byte.\<close>

definition record_extent :: "u8 list \<Rightarrow> nat" where
  "record_extent x = unat (load_u16_be (drop 3 x)) + 7"

lemma record_extent_append: "5 \<le> length x \<Longrightarrow> record_extent (x @ y) = record_extent x"
  unfolding record_extent_def load_u16_be_def by (auto simp: nth_append)

lemma record_extent_response:
  assumes "response_record r"
  shows "record_extent (r @ y) = length r \<and> 46 \<le> length r \<and> length r \<le> 4096
    \<and> r ! 0 = 0x02 \<and> r ! 1 = 0 \<and> r ! 2 = 0"
proof -
  from assms obtain p where r: "r = archive_record AP_OPCODE_RESPONSE p" "length p + 46 \<le> 4096"
    by (auto simp: response_record_def)
  have "unat (of_nat (length p + 39) :: u16) = length p + 39"
    using r(2) by (intro unat_of_nat_u16) simp
  then have "record_extent r = length r"
    unfolding record_extent_def r(1) archive_record_fields by simp
  moreover have "5 \<le> length r" using r by simp
  ultimately show ?thesis using r by (simp add: record_extent_append archive_record_fields)
qed

lemma response_record_parse:
  assumes "length r \<le> 4096"
  shows "(\<exists>view. parse_record (Span r) (Some v) = (AP_OK, Some view)
      \<and> rv_opcode view = AP_OPCODE_RESPONSE) \<longleftrightarrow> response_record r"
proof
  assume "\<exists>view. parse_record (Span r) (Some v) = (AP_OK, Some view)
      \<and> rv_opcode view = AP_OPCODE_RESPONSE"
  then show "response_record r"
    using parse_record_OK_D assms unfolding response_record_def by metis
next
  assume "response_record r"
  then obtain p where p: "r = archive_record AP_OPCODE_RESPONSE p" "length p + 46 \<le> 4096"
    by (auto simp: response_record_def)
  then show "\<exists>view. parse_record (Span r) (Some v) = (AP_OK, Some view)
      \<and> rv_opcode view = AP_OPCODE_RESPONSE"
    by (simp add: parse_archive_record)
qed

lemma parse_record_status: "fst (parse_record x v) \<noteq> AP_SINK_ERROR"
  by (cases x) (auto simp: parse_record_def Let_def)

lemma parse_record_view: "parse_record x (Some v) = (AP_OK, None) \<Longrightarrow> False"
  by (auto simp: parse_record_def Let_def split: if_splits)

lemma validate_download_archive_spec:
  assumes "take (dd_archive_size d) (dd_archive d) = r" and "length r \<le> 4096"
  shows "validate_download_archive d = AP_OK \<longleftrightarrow> response_record r"
    and "validate_download_archive d \<noteq> AP_SINK_ERROR"
proof -
  let ?p = "parse_record (Span r) (Some \<lparr>rv_opcode = 0, rv_payload = []\<rparr>)"
  have v: "validate_download_archive d =
      (case ?p of (AP_OK, Some view) \<Rightarrow>
          if rv_opcode view = AP_OPCODE_RESPONSE then AP_OK else AP_INVALID_FRAME
        | (status, _) \<Rightarrow> status)"
    by (simp add: validate_download_archive_def assms(1))
  have "validate_download_archive d = AP_OK \<longleftrightarrow>
      (\<exists>view. ?p = (AP_OK, Some view) \<and> rv_opcode view = AP_OPCODE_RESPONSE)"
    unfolding v using parse_record_view by (auto split: ap_status.splits option.splits prod.splits)
  then show "validate_download_archive d = AP_OK \<longleftrightarrow> response_record r"
    using response_record_parse [OF assms(2)] by simp
  show "validate_download_archive d \<noteq> AP_SINK_ERROR"
    unfolding v using parse_record_status [of "Span r" "Some \<lparr>rv_opcode = 0, rv_payload = []\<rparr>"]
    by (auto split: ap_status.splits option.splits prod.splits)
qed

section \<open>What a viable prefix shows\<close>

lemma viableE:
  assumes "viable e x"
  obtains r payload t y extra where "x @ y = r @ chunk_head 1 e @ payload @ t @ extra"
    "response_record r" "length payload = e" "e + 4 < 2 ^ 24" "download_trailer payload t"
  using assms unfolding viable_def download_stream_def by blast

lemma viable_record:
  assumes "viable e x"
  shows "3 \<le> length x \<Longrightarrow> x ! 0 = 0x02 \<and> x ! 1 = 0 \<and> x ! 2 = 0"
    and "5 \<le> length x \<Longrightarrow> 46 \<le> record_extent x \<and> record_extent x \<le> 4096"
    and "5 \<le> length x \<Longrightarrow> record_extent x \<le> length x \<Longrightarrow> response_record (take (record_extent x) x)"
proof -
  from assms obtain r z y where x: "x @ y = r @ z" and r: "response_record r"
    by (metis viableE)
  note ext = record_extent_response [OF r]
  show "x ! 0 = 0x02 \<and> x ! 1 = 0 \<and> x ! 2 = 0" if "3 \<le> length x"
  proof -
    have "x ! i = r ! i" if "i < 3" for i
    proof -
      have "x ! i = (x @ y) ! i" using that \<open>3 \<le> length x\<close> by (simp add: nth_append)
      then show ?thesis using that ext unfolding x by (auto simp: nth_append)
    qed
    then show ?thesis using ext by simp
  qed
  have e: "record_extent x = length r" if "5 \<le> length x"
    using record_extent_append [OF that, of y] ext x by metis
  then show "46 \<le> record_extent x \<and> record_extent x \<le> 4096" if "5 \<le> length x"
    using ext that by metis
  show "response_record (take (record_extent x) x)" if "5 \<le> length x" "record_extent x \<le> length x"
  proof -
    have "take (length r) x = take (length r) (x @ y)" using that e by simp
    then show ?thesis using that e r by (simp add: x)
  qed
qed

lemma stream_chunk:
  assumes x: "download_stream e payload extra (r @ z)" and r: "response_record r"
  shows "\<exists>t. z = chunk_head 1 e @ payload @ t @ extra
    \<and> length payload = e \<and> e + 4 < 2 ^ 24 \<and> download_trailer payload t"
proof -
  from x obtain r' t where x: "r @ z = r' @ chunk_head 1 e @ payload @ t @ extra"
    and r': "response_record r'"
    and p: "length payload = e" "e + 4 < 2 ^ 24" "download_trailer payload t"
    by (auto simp: download_stream_def)
  have "record_extent (r @ z) = length r" using record_extent_response [OF r] by simp
  moreover have "record_extent (r @ z) = length r'"
    unfolding x using record_extent_response [OF r'] by simp
  ultimately have "length r = length r'" by simp
  with x have "z = chunk_head 1 e @ payload @ t @ extra" by simp
  with p show ?thesis by blast
qed

lemma viable_chunk:
  assumes v: "viable e (r @ z)" and r: "response_record r"
  shows "\<exists>payload t extra y. z @ y = chunk_head 1 e @ payload @ t @ extra
    \<and> length payload = e \<and> e + 4 < 2 ^ 24 \<and> download_trailer payload t"
proof -
  from v obtain payload extra y where "download_stream e payload extra ((r @ z) @ y)"
    unfolding viable_def by blast
  then show ?thesis using stream_chunk [of e payload extra r "z @ y"] r by auto
qed

text \<open>The check of the chunk header.\<close>

definition header_ok :: "nat \<Rightarrow> u8 list \<Rightarrow> bool" where
  "header_ok e h \<longleftrightarrow> h ! 0 = 0x02 \<and> h ! 1 = 0 \<and> h ! 5 = 0 \<and> h ! 6 = 1
     \<and> 4 \<le> unat (load_u24_be (drop 2 h)) \<and> unat (load_u24_be (drop 2 h)) - 4 = e"

lemma header_ok_iff:
  assumes "length h = 7"
  shows "header_ok e h \<longleftrightarrow> h = chunk_head 1 e \<and> e + 4 < 2 ^ 24"
proof
  assume ok: "header_ok e h"
  then have e: "unat (load_u24_be (drop 2 h)) = e + 4" by (auto simp: header_ok_def)
  then have lt: "e + 4 < 2 ^ 24" using load_u24_be_less [of "drop 2 h"] by simp
  have "of_nat (unat (load_u24_be (drop 2 h))) = (of_nat (e + 4) :: u32)" using e by simp
  then have "load_u24_be (drop 2 h) = of_nat (e + 4)" by simp
  then have u: "store_u24_be (of_nat (e + 4)) = [h ! 2, h ! 3, h ! 4]"
    using store_load_u24_be [of "drop 2 h"] assms by (simp add: numeral_eq_Suc)
  have up: "[0..<7] = [0, 1, 2, 3, 4, 5, 6]" by (simp add: upt_rec)
  have "h = [h ! 0, h ! 1] @ [h ! 2, h ! 3, h ! 4] @ [h ! 5, h ! 6]"
    using take_nths [of 7 h] assms by (simp add: up)
  then have "h = chunk_head 1 e"
    using ok unfolding chunk_head_def u header_ok_def by simp
  with lt show "h = chunk_head 1 e \<and> e + 4 < 2 ^ 24" by simp
next
  assume h: "h = chunk_head 1 e \<and> e + 4 < 2 ^ 24"
  have u: "unat (of_nat (e + 4) :: u32) = e + 4"
    using h by (intro unat_of_nat_u32) simp
  then have "unat (load_u24_be (store_u24_be (of_nat (e + 4)) @ [0, 1])) = e + 4"
    using h by (subst load_store_u24_be) simp_all
  then have "unat (load_u24_be (drop 2 h)) = e + 4"
    using h by (simp add: chunk_head_def)
  then show "header_ok e h" using h
    by (simp add: header_ok_def chunk_head_def store_u24_be_def)
qed

section \<open>The relation between the decoder and the consumed bytes\<close>

definition dd_buffers :: "nat \<Rightarrow> download_decoder \<Rightarrow> bool" where
  "dd_buffers e d \<longleftrightarrow> length (dd_archive d) = 4096 \<and> length (dd_chunk_header d) = 7
     \<and> length (dd_trailer d) = 4 \<and> dd_expected_payload_size d = e \<and> 0 < e"

definition dd_rel :: "nat \<Rightarrow> u8 list \<Rightarrow> u8 list \<Rightarrow> download_decoder \<Rightarrow> bool" where
  "dd_rel e s c d \<longleftrightarrow> dd_buffers e d \<and>
    (dd_state d \<noteq> DD_COMPLETE \<longrightarrow> dd_trailing_bytes d = 0) \<and>
    (case dd_state d of
       DD_ARCHIVE \<Rightarrow> c = [] \<and> dd_archive_size d = length s \<and> take (length s) (dd_archive d) = s
         \<and> dd_chunk_header_size d = 0 \<and> dd_payload_received d = 0 \<and> dd_trailer_size d = 0
         \<and> dd_chunk_crc d = - 1
         \<and> (if length s < 5 then dd_archive_target_size d = 0
            else dd_archive_target_size d = record_extent s \<and> length s < record_extent s
              \<and> record_extent s \<le> 4096)
     | DD_CHUNK_HEADER \<Rightarrow> c = [] \<and> dd_payload_received d = 0 \<and> dd_trailer_size d = 0
         \<and> dd_chunk_crc d = - 1
         \<and> (\<exists>r h. s = r @ h \<and> response_record r \<and> dd_chunk_header_size d = length h
              \<and> length h < 7 \<and> take (length h) (dd_chunk_header d) = h)
     | DD_PAYLOAD \<Rightarrow> dd_trailer_size d = 0 \<and> dd_payload_size d = e \<and> e + 4 < 2 ^ 24
         \<and> dd_payload_received d = length c \<and> length c < e
         \<and> dd_chunk_crc d = crc32_update (- 1) (chunk_head 1 e @ c)
         \<and> (\<exists>r. s = r @ chunk_head 1 e @ c \<and> response_record r)
     | DD_TRAILER \<Rightarrow> length c = e \<and> e + 4 < 2 ^ 24
         \<and> dd_chunk_crc d = crc32_update (- 1) (chunk_head 1 e @ c)
         \<and> (\<exists>r t. s = r @ chunk_head 1 e @ c @ t \<and> response_record r \<and> dd_trailer_size d = length t
              \<and> length t < 4 \<and> take (length t) (dd_trailer d) = t)
     | DD_COMPLETE \<Rightarrow> (\<exists>extra. download_stream e c extra s \<and> dd_trailing_bytes d = length extra))"

lemma dd_rel_init: "0 < e \<Longrightarrow> dd_rel e [] [] (decoder_init e)"
  by (simp add: dd_rel_def dd_buffers_def decoder_init_def decoder_zeroed_def)

lemma take_blit_end:
  "n \<le> length buf \<Longrightarrow> take (n + length xs) (blit n xs buf) = take n buf @ xs"
  by (simp add: blit_def)

text \<open>Filling a buffer that holds \<open>s\<close> with the first bytes of the data.\<close>

lemma fill_buffer:
  assumes "take (length s) buf = s" and "length s + k \<le> length buf" and "k \<le> length data"
  defines "buf' \<equiv> blit (length s) (take k data) buf"
  shows "take (length s + k) buf' = s @ take k data" and "length buf' = length buf"
    and "i < length s + k \<Longrightarrow> buf' ! i = (s @ take k data) ! i"
proof -
  show t: "take (length s + k) buf' = s @ take k data"
    using assms take_blit_end [of "length s" buf "take k data"] by simp
  show "length buf' = length buf" using assms by (simp add: length_blit)
  assume "i < length s + k"
  then show "buf' ! i = (s @ take k data) ! i" by (metis nth_take t)
qed

text \<open>The outcome of one turn on the data \<open>data\<close> after \<open>s\<close>.\<close>

definition turn_ok :: "nat \<Rightarrow> u8 list \<Rightarrow> u8 list \<Rightarrow> u8 list \<Rightarrow> turn \<Rightarrow> bool" where
  "turn_ok e s c data = (\<lambda>(r, d', rest).
     (\<exists>k. rest = drop k data \<and>
       (case r of
          None \<Rightarrow> dd_rel e (s @ take k data) c d'
        | Some st \<Rightarrow> st \<noteq> AP_OK \<and> st \<noteq> AP_SINK_ERROR \<and> \<not> viable e (s @ take k data))))"

lemma turn_okI:
  "dd_rel e (s @ take k data) c d' \<Longrightarrow> turn_ok e s c data (None, d', drop k data)"
  "st \<noteq> AP_OK \<Longrightarrow> st \<noteq> AP_SINK_ERROR \<Longrightarrow> \<not> viable e (s @ take k data) \<Longrightarrow>
   turn_ok e s c data (Some st, d', drop k data)"
  unfolding turn_ok_def by auto

lemma dd_relD_archive:
  assumes "dd_rel e s c d" and "dd_state d = DD_ARCHIVE"
  shows "c = []" "dd_archive_size d = length s" "take (length s) (dd_archive d) = s"
    "length (dd_archive d) = 4096" "length s < 4096"
    "dd_archive_target_size d = (if length s < 5 then 0 else record_extent s)"
    "archive_wanted d = (if length s < 5 then 5 else record_extent s) - length s"
    "0 < archive_wanted d" "length s + archive_wanted d \<le> 4096"
proof -
  show "c = []" "dd_archive_size d = length s" "take (length s) (dd_archive d) = s"
    "length (dd_archive d) = 4096" "length s < 4096"
    "dd_archive_target_size d = (if length s < 5 then 0 else record_extent s)"
    using assms by (auto simp: dd_rel_def dd_buffers_def split: if_splits)
  moreover have "\<not> length s < 5 \<Longrightarrow> length s < record_extent s \<and> record_extent s \<le> 4096"
    using assms by (simp add: dd_rel_def)
  ultimately show "archive_wanted d = (if length s < 5 then 5 else record_extent s) - length s"
    "0 < archive_wanted d" "length s + archive_wanted d \<le> 4096"
    by (auto simp: archive_wanted_def size_sub_def record_extent_def)
qed

lemma archive_turn_ok:
  assumes rel: "dd_rel e s c d" and st: "dd_state d = DD_ARCHIVE"
  shows "turn_ok e s c data (archive_turn d data)"
proof -
  note D = dd_relD_archive [OF rel st]
  define k where "k = min (archive_wanted d) (length data)"
  define s' where "s' = s @ take k data"
  define A where "A = blit (length s) (take k data) (dd_archive d)"
  have k: "k \<le> length data" "length s + k \<le> 4096" using D by (simp_all add: k_def)
  have ls: "length s' = length s + k" using k by (simp add: s'_def)
  note F = fill_buffer [OF D(3) _ k(1)]
  have A: "take (length s') A = s'" "length A = 4096" "\<And>i. i < length s' \<Longrightarrow> A ! i = s' ! i"
    using F k(2) D(4) unfolding A_def s'_def ls [unfolded s'_def] by simp_all
  have nths: "A ! 0 = s' ! 0 \<and> A ! 1 = s' ! 1 \<and> A ! 2 = s' ! 2" if "3 \<le> length s'"
    using that by (intro conjI A(3)) linarith+
  have ext: "unat (load_u16_be (drop 3 A)) + 7 = record_extent s'" if "5 \<le> length s'"
    using that A(2,3) by (simp add: record_extent_def load_u16_be_def)
  let ?d1 = "d\<lparr>dd_archive := A, dd_archive_size := length s'\<rparr>"
  let ?bad = "3 \<le> length s' \<and> (A ! 0 \<noteq> 0x02 \<or> A ! 1 \<noteq> 0 \<or> A ! 2 \<noteq> 0)"
  let ?sized = "length s' = 5 \<and> dd_archive_target_size d = 0"
  let ?d2 = "if ?sized then ?d1\<lparr>dd_archive_target_size := record_extent s'\<rparr> else ?d1"
  let ?target = "dd_archive_target_size ?d2"
  have turn: "archive_turn d data =
      (if ?bad then (Some AP_INVALID_FRAME, ?d1, drop k data)
       else if ?sized \<and> (?target < 46 \<or> ?target > 4096) then (Some AP_INVALID_FRAME, ?d2, drop k data)
       else if ?target > 0 \<and> length s' = ?target
       then (if validate_download_archive ?d2 \<noteq> AP_OK
             then (Some (validate_download_archive ?d2), ?d2, drop k data)
             else (None, ?d2\<lparr>dd_state := DD_CHUNK_HEADER\<rparr>, drop k data))
       else (None, ?d2, drop k data))"
    using ext by (auto simp: archive_turn_def Let_def D(2) k_def [symmetric] A_def [symmetric] ls [symmetric])
  have target: "?target = (if length s' < 5 then 0 else record_extent s')"
  proof (cases "length s < 5")
    case True
    then have "length s' \<le> 5" using D(7) by (simp add: ls k_def)
    with True show ?thesis using D(6) by auto
  next
    case False
    then have "record_extent s' = record_extent s" by (simp add: s'_def record_extent_append)
    moreover have "dd_archive_target_size d = record_extent s" using D(6) False by simp
    ultimately show ?thesis using False ls by simp
  qed
  have le: "length s' \<le> (if length s' < 5 then 5 else record_extent s')" if "\<not> (?sized \<and> ?target < 46)"
  proof (cases "length s < 5")
    case True
    then have "length s' \<le> 5" using D(7) by (simp add: ls k_def)
    moreover have "dd_archive_target_size d = 0" using D(6) True by simp
    ultimately show ?thesis using that target by (cases "length s' < 5") auto
  next
    case False
    then have "record_extent s' = record_extent s" by (simp add: s'_def record_extent_append)
    then show ?thesis using False D(7) D(8) by (simp add: ls k_def)
  qed
  have v: "\<not> viable e s'" if "?bad"
    using viable_record(1) [of e s'] nths that by auto
  have v2: "\<not> viable e s'" if "?sized" "?target < 46 \<or> ?target > 4096"
    using viable_record(2) [of e s'] target that by auto
  have val: "(validate_download_archive ?d2 = AP_OK \<longleftrightarrow> response_record s')
      \<and> validate_download_archive ?d2 \<noteq> AP_SINK_ERROR"
  proof -
    have "take (dd_archive_size ?d2) (dd_archive ?d2) = s'" using A(1) by auto
    then show ?thesis using validate_download_archive_spec [of ?d2 s'] k(2) ls by simp
  qed
  have v3: "\<not> viable e s'" if "?target > 0" "length s' = ?target" "\<not> response_record s'"
  proof -
    have "5 \<le> length s'" "length s' = record_extent s'"
      using that(1,2) unfolding target by (simp_all split: if_splits)
    then show ?thesis using viable_record(3) [of e s'] that(3) by auto
  qed
  have buf: "dd_rel e s [] d" using rel D(1) by simp
  have cont: "dd_rel e s' [] (?d2\<lparr>dd_state := DD_CHUNK_HEADER\<rparr>)" if "response_record s'"
    using buf st A(2) that by (auto simp: dd_rel_def dd_buffers_def intro!: exI [of _ s'])
  have stay: "dd_rel e s' [] ?d2"
    if "\<not> (?sized \<and> (?target < 46 \<or> ?target > 4096))" "\<not> (?target > 0 \<and> length s' = ?target)"
  proof -
    have "\<not> length s' < 5 \<Longrightarrow> length s' < record_extent s' \<and> record_extent s' \<le> 4096"
    proof -
      assume five: "\<not> length s' < 5"
      then have t: "?target = record_extent s'" using target by (simp only: if_False)
      have pos: "0 < record_extent s'" by (simp add: record_extent_def)
      have "length s' \<le> record_extent s'" using le that(1) five by (simp only: if_False) blast
      moreover have "length s' \<noteq> record_extent s'" using that(2) pos unfolding t by blast
      ultimately have "length s' < record_extent s'" by simp
      moreover have "record_extent s' \<le> 4096"
      proof (cases "length s < 5")
        case True
        then have "length s' = 5" "dd_archive_target_size d = 0"
          using D(6,7) five by (simp_all add: ls k_def)
        then show ?thesis using that(1) unfolding t by auto
      next
        case False
        then have "record_extent s' = record_extent s" by (simp add: s'_def record_extent_append)
        then show ?thesis using False D(7,8,9) by simp
      qed
      ultimately show ?thesis by simp
    qed
    then show ?thesis
      using buf st A(1,2) target by (auto simp: dd_rel_def dd_buffers_def)
  qed
  show ?thesis
  proof -
    let ?toolong = "?sized \<and> (?target < 46 \<or> ?target > 4096)"
    let ?full = "?target > 0 \<and> length s' = ?target"
    have s': "s @ take k data = s'" by (simp only: s'_def)
    consider (bad) ?bad | (toolong) "\<not> ?bad" ?toolong
      | (invalid) "\<not> ?bad" "\<not> ?toolong" ?full "\<not> response_record s'"
      | (full) "\<not> ?bad" "\<not> ?toolong" ?full "response_record s'"
      | (more) "\<not> ?bad" "\<not> ?toolong" "\<not> ?full"
      by blast
    then show ?thesis
    proof cases
      case bad
      have "\<not> viable e (s @ take k data)" using v bad unfolding s' by blast
      then have "turn_ok e s c data (Some AP_INVALID_FRAME, ?d1, drop k data)"
        by (rule turn_okI(2) [rotated 2]) simp_all
      then show ?thesis unfolding turn if_P [OF bad] .
    next
      case toolong
      have "\<not> viable e (s @ take k data)" unfolding s' by (rule v2 [OF conjunct1 [OF toolong(2)] conjunct2 [OF toolong(2)]])
      then have "turn_ok e s c data (Some AP_INVALID_FRAME, ?d2, drop k data)"
        by (rule turn_okI(2) [rotated 2]) simp_all
      then show ?thesis unfolding turn if_not_P [OF toolong(1)] if_P [OF toolong(2)] .
    next
      case invalid
      have "\<not> viable e (s @ take k data)" unfolding s' by (rule v3 [OF conjunct1 [OF invalid(3)] conjunct2 [OF invalid(3)] invalid(4)])
      then have "turn_ok e s c data (Some (validate_download_archive ?d2), ?d2, drop k data)"
        by (rule turn_okI(2) [rotated 2]) (simp_all only: val invalid(4) not_False_eq_True)
      moreover have i: "validate_download_archive ?d2 \<noteq> AP_OK" by (simp only: val invalid(4) not_False_eq_True)
      ultimately show ?thesis
        unfolding turn if_not_P [OF invalid(1)] if_not_P [OF invalid(2)] if_P [OF invalid(3)] if_P [OF i]
        by blast
    next
      case full
      have "turn_ok e s c data (None, ?d2\<lparr>dd_state := DD_CHUNK_HEADER\<rparr>, drop k data)"
        by (rule turn_okI(1)) (unfold s' D(1), rule cont [OF full(4)])
      moreover have i: "\<not> validate_download_archive ?d2 \<noteq> AP_OK" by (simp only: val full(4) not_True_eq_False not_False_eq_True)
      ultimately show ?thesis
        unfolding turn if_not_P [OF full(1)] if_not_P [OF full(2)] if_P [OF full(3)] if_not_P [OF i]
        by blast
    next
      case more
      have "turn_ok e s c data (None, ?d2, drop k data)"
        by (rule turn_okI(1)) (unfold s' D(1), rule stay [OF more(2,3)])
      then show ?thesis unfolding turn if_not_P [OF more(1)] if_not_P [OF more(2)] if_not_P [OF more(3)] .
    qed
  qed
qed

section \<open>The remaining turns\<close>

lemma header_turn_ok:
  assumes rel: "dd_rel e s c d" and st: "dd_state d = DD_CHUNK_HEADER"
  shows "turn_ok e s c data (header_turn d data)"
proof -
  from rel st obtain r h where s: "s = r @ h" and r: "response_record r"
    and h: "dd_chunk_header_size d = length h" "length h < 7"
      "take (length h) (dd_chunk_header d) = h"
    and c: "c = []" and d: "dd_payload_received d = 0" "dd_trailer_size d = 0"
      "dd_chunk_crc d = - 1" "dd_buffers e d" "dd_trailing_bytes d = 0"
    by (auto simp: dd_rel_def)
  define k where "k = min (7 - length h) (length data)"
  define h' where "h' = h @ take k data"
  define H where "H = blit (length h) (take k data) (dd_chunk_header d)"
  have k: "k \<le> length data" "length h + k \<le> 7" using h by (simp_all add: k_def)
  have lh: "length h' = length h + k" using k by (simp add: h'_def)
  note F = fill_buffer [OF h(3) _ k(1)]
  have lH: "length (dd_chunk_header d) = 7" using d(4) by (simp add: dd_buffers_def)
  have H: "take (length h') H = h'" "length H = 7"
    using F k(2) lH unfolding H_def h'_def lh [unfolded h'_def] by simp_all
  have s': "s @ take k data = r @ h'" by (simp add: s h'_def)
  let ?d1 = "d\<lparr>dd_chunk_header := H, dd_chunk_header_size := length h'\<rparr>"
  have size: "min (size_sub 7 (length h)) (length data) = k"
    using h by (simp add: k_def size_sub_le)
  show ?thesis
  proof (cases "length h' = 7")
    case False
    then have "header_turn d data = (None, ?d1, drop k data)"
      by (simp add: header_turn_def Let_def size h(1) H_def lh)
    moreover have "dd_rel e (s @ take k data) c ?d1"
    proof -
      have "length h' < 7" using False lh k(2) by simp
      then have "\<exists>ra ha. r @ h' = ra @ ha \<and> response_record ra \<and> length h' = length ha
          \<and> length ha < 7 \<and> take (length ha) H = ha"
        using r H(1) by blast
      then show ?thesis using d c H(2) lH st
        unfolding s' by (simp add: dd_rel_def dd_buffers_def)
    qed
    ultimately show ?thesis by (simp add: turn_okI)
  next
    case True
    then have hH: "H = h'" using H by simp
    let ?n = "unat (load_u24_be (drop 2 h'))"
    have exp: "dd_expected_payload_size d = e" using d(4) by (simp add: dd_buffers_def)
    have turn: "header_turn d data =
        (if h' ! 0 \<noteq> 0x02 \<or> h' ! 1 \<noteq> 0 \<or> h' ! 5 \<noteq> 0 \<or> h' ! 6 \<noteq> 1 \<or> ?n < 4
         then (Some AP_INVALID_FRAME, ?d1, drop k data)
         else if ?n - 4 \<noteq> e
         then (Some AP_INVALID_FRAME, ?d1\<lparr>dd_payload_size := ?n - 4\<rparr>, drop k data)
         else (None, ?d1\<lparr>dd_payload_size := ?n - 4, dd_chunk_crc := crc32_update (- 1) h',
                 dd_state := DD_PAYLOAD\<rparr>, drop k data))"
    proof -
      have b: "blit (length h) (take k data) (dd_chunk_header d) = h'" using hH H_def by simp
      show ?thesis using True lh
        by (simp add: header_turn_def Let_def size h(1) exp d(3) b hH)
    qed
    show ?thesis
    proof (cases "header_ok e h'")
      case ok: True
      then have ch: "h' = chunk_head 1 e" "e + 4 < 2 ^ 24"
        using header_ok_iff [OF True] by simp_all
      have "0 < e" using d(4) by (simp add: dd_buffers_def)
      then have "dd_rel e (s @ take k data) c (?d1\<lparr>dd_payload_size := e,
          dd_chunk_crc := crc32_update (- 1) h', dd_state := DD_PAYLOAD\<rparr>)"
        using d r c H lH st ch unfolding s'
        by (auto simp: dd_rel_def dd_buffers_def)
      then have "turn_ok e s c data (None, ?d1\<lparr>dd_payload_size := e,
          dd_chunk_crc := crc32_update (- 1) h', dd_state := DD_PAYLOAD\<rparr>, drop k data)"
        by (rule turn_okI)
      then show ?thesis using ok unfolding turn by (auto simp: header_ok_def)
    next
      case False
      have "\<not> viable e (s @ take k data)"
      proof
        assume "viable e (s @ take k data)"
        then obtain z y where "h' @ y = chunk_head 1 e @ z" and lt: "e + 4 < 2 ^ 24"
          unfolding s' using viable_chunk [OF _ r] by blast
        then have "h' = chunk_head 1 e" using True by simp
        with lt False header_ok_iff [OF True] show False by simp
      qed
      then have "turn_ok e s c data (Some AP_INVALID_FRAME, d', drop k data)" for d'
        by (intro turn_okI(2)) simp_all
      then show ?thesis using False unfolding turn header_ok_def by (simp split: if_split)
    qed
  qed
qed

lemma trailer_turn_ok:
  assumes rel: "dd_rel e s c d" and st: "dd_state d = DD_TRAILER"
  shows "turn_ok e s c data (trailer_turn d data)"
proof -
  from rel st obtain r t where s: "s = r @ chunk_head 1 e @ c @ t" and r: "response_record r"
    and t: "dd_trailer_size d = length t" "length t < 4" "take (length t) (dd_trailer d) = t"
    and d: "length c = e" "e + 4 < 2 ^ 24" "dd_chunk_crc d = crc32_update (- 1) (chunk_head 1 e @ c)"
      "dd_buffers e d" "dd_trailing_bytes d = 0"
    by (auto simp: dd_rel_def)
  define k where "k = min (4 - length t) (length data)"
  define t' where "t' = t @ take k data"
  define T where "T = blit (length t) (take k data) (dd_trailer d)"
  have k: "k \<le> length data" "length t + k \<le> 4" using t by (simp_all add: k_def)
  have lt: "length t' = length t + k" using k by (simp add: t'_def)
  note F = fill_buffer [OF t(3) _ k(1)]
  have lT: "length (dd_trailer d) = 4" using d(4) by (simp add: dd_buffers_def)
  have T: "take (length t') T = t'" "length T = 4"
    using F k(2) lT unfolding T_def t'_def lt [unfolded t'_def] by simp_all
  have s': "s @ take k data = r @ chunk_head 1 e @ c @ t'" by (simp add: s t'_def)
  let ?d1 = "d\<lparr>dd_trailer := T, dd_trailer_size := length t'\<rparr>"
  have size: "min (size_sub 4 (length t)) (length data) = k"
    using t by (simp add: k_def size_sub_le)
  show ?thesis
  proof (cases "length t' = 4")
    case False
    then have "trailer_turn d data = (None, ?d1, drop k data)"
      by (simp add: trailer_turn_def Let_def size t(1) T_def lt)
    moreover have "dd_rel e (s @ take k data) c ?d1"
    proof -
      have "length t' < 4" using False lt k(2) by simp
      then have "\<exists>ra ta. r @ chunk_head 1 e @ c @ t' = ra @ chunk_head 1 e @ c @ ta
          \<and> response_record ra \<and> length t' = length ta \<and> length ta < 4 \<and> take (length ta) T = ta"
        using r T(1) by blast
      then show ?thesis using d T(2) lT st
        unfolding s' by (simp add: dd_rel_def dd_buffers_def)
    qed
    ultimately show ?thesis by (simp add: turn_okI)
  next
    case True
    then have hT: "T = t'" using T by simp
    let ?crc = "crc32_update (- 1) (chunk_head 1 e @ c @ zero_trailer)"
    let ?d2 = "?d1\<lparr>dd_chunk_crc := ?crc\<rparr>"
    have crc: "crc32_update (dd_chunk_crc d) zero_trailer = ?crc" by (simp add: d(3))
    have ok_iff: "download_trailer c t' \<longleftrightarrow> t' = zero_trailer \<or> load_u32_be t' = ?crc"
      using True by (simp add: download_trailer_def d(1))
    have turn: "trailer_turn d data =
        (if download_trailer c t' then (None, ?d2\<lparr>dd_state := DD_COMPLETE\<rparr>, drop k data)
         else (Some AP_INVALID_CHECKSUM, ?d2, drop k data))"
      unfolding ok_iff using True hT [unfolded T_def] crc
      by (simp add: trailer_turn_def Let_def size t(1) lt T_def)
    show ?thesis
    proof (cases "download_trailer c t'")
      case ok: True
      have "download_stream e c [] (s @ take k data)"
        unfolding download_stream_def s' using r d ok by auto
      then have "dd_rel e (s @ take k data) c (?d2\<lparr>dd_state := DD_COMPLETE\<rparr>)"
        using d T lT by (auto simp: dd_rel_def dd_buffers_def)
      then show ?thesis unfolding turn if_P [OF ok] by (rule turn_okI)
    next
      case False
      have "\<not> viable e (s @ take k data)"
      proof
        assume "viable e (s @ take k data)"
        then obtain payload u x y where z: "(chunk_head 1 e @ c @ t') @ y = chunk_head 1 e @ payload @ u @ x"
          and p: "length payload = e" "download_trailer payload u"
          unfolding s' using viable_chunk [OF _ r] by blast
        then have "length u = 4" by (simp add: download_trailer_def)
        with z p(1) d(1) True have "payload = c \<and> u = t'" by simp
        with p(2) False show False by simp
      qed
      then show ?thesis unfolding turn if_not_P [OF False] by (simp add: turn_okI)
    qed
  qed
qed

section \<open>Completion\<close>

lemma dd_rel_content: "dd_rel e s c d \<Longrightarrow> length c \<le> e"
  by (cases "dd_state d") (auto simp: dd_rel_def download_stream_def)

lemma dd_rel_stream:
  assumes rel: "dd_rel e s c d" and x: "download_stream e payload extra s"
  shows "dd_state d = DD_COMPLETE \<and> c = payload \<and> dd_trailing_bytes d = length extra"
proof -
  from x obtain r t where s: "s = r @ chunk_head 1 e @ payload @ t @ extra" and r: "response_record r"
    and p: "length payload = e" "length t = 4"
    by (auto simp: download_stream_def download_trailer_def)
  have ext: "record_extent s = length r" "5 \<le> length s" "length r \<le> length s"
    unfolding s using record_extent_response [OF r] by simp_all
  show ?thesis
  proof (cases "dd_state d")
    case DD_ARCHIVE
    then show ?thesis using rel ext by (simp add: dd_rel_def)
  next
    case DD_CHUNK_HEADER
    with rel obtain r' h where "s = r' @ h" "response_record r'" "length h < 7"
      by (auto simp: dd_rel_def)
    then show ?thesis using stream_chunk [of e payload extra r' h] x by auto
  next
    case DD_PAYLOAD
    with rel obtain r' where "s = r' @ chunk_head 1 e @ c" "response_record r'" "length c < e"
      by (auto simp: dd_rel_def)
    then show ?thesis using stream_chunk [of e payload extra r' "chunk_head 1 e @ c"] x by auto
  next
    case DD_TRAILER
    with rel obtain r' u where "s = r' @ chunk_head 1 e @ c @ u" "response_record r'" "length c = e"
      "length u < 4"
      by (auto simp: dd_rel_def)
    then show ?thesis using stream_chunk [of e payload extra r' "chunk_head 1 e @ c @ u"] x
      by (auto simp: download_trailer_def)
  next
    case DD_COMPLETE
    with rel obtain extra' where x': "download_stream e c extra' s"
      and tb: "dd_trailing_bytes d = length extra'" by (auto simp: dd_rel_def)
    obtain u where u: "chunk_head 1 e @ payload @ t @ extra = chunk_head 1 e @ c @ u @ extra'"
      "length c = e" "length u = 4"
      using stream_chunk [of e c extra' r] x' r unfolding s by (auto simp: download_trailer_def)
    with p have "payload = c \<and> extra = extra'" by simp
    with DD_COMPLETE tb show ?thesis by simp
  qed
qed

section \<open>The decoder and its sink\<close>

text \<open>
  What the decoder needs of a sink: bytes it takes are appended to its content, and a sink that
  is able to take \<open>n\<close> more bytes takes them in any pieces.
\<close>

locale payload_sink =
  fixes sink :: "'w sink" and content :: "'w \<Rightarrow> u8 list" and able :: "'w \<Rightarrow> nat \<Rightarrow> bool"
  assumes sink_append: "sink xs w = (True, w') \<Longrightarrow> content w' = content w @ xs"
    and sink_able: "able w n \<Longrightarrow> xs \<noteq> [] \<Longrightarrow> length xs \<le> n \<Longrightarrow>
      fst (sink xs w) \<and> able (snd (sink xs w)) (n - length xs)"
begin

text \<open>
  \<open>holds e s b A d w\<close>: after the bytes \<open>s\<close> the decoder is in step with the sink, which held \<open>b\<close>
  at the start; \<open>A\<close> says that it was able to take the whole payload.
\<close>

definition holds :: "nat \<Rightarrow> u8 list \<Rightarrow> u8 list \<Rightarrow> bool \<Rightarrow> download_decoder \<Rightarrow> 'w \<Rightarrow> bool" where
  "holds e s b A d w \<longleftrightarrow>
     (\<exists>c. dd_rel e s c d \<and> content w = b @ c \<and> (A \<longrightarrow> able w (e - length c)))"

lemma holds_init: "0 < e \<Longrightarrow> content w = b \<Longrightarrow> (A \<Longrightarrow> able w e) \<Longrightarrow> holds e [] b A (decoder_init e) w"
  unfolding holds_def using dd_rel_init by fastforce

lemma payload_turn_holds:
  assumes h: "holds e s b A d w" and st: "dd_state d = DD_PAYLOAD" and data: "data \<noteq> []"
    and turn: "payload_turn sink d data w = (r, d', rest, w')"
  shows "r = Some AP_SINK_ERROR \<and> \<not> A
    \<or> r = None \<and> (\<exists>k. rest = drop k data \<and> holds e (s @ take k data) b A d' w')"
proof -
  from h obtain c where rel: "dd_rel e s c d" and cw: "content w = b @ c"
    and able: "A \<longrightarrow> able w (e - length c)" by (auto simp: holds_def)
  from rel st obtain rr where s: "s = rr @ chunk_head 1 e @ c" and rr: "response_record rr"
    and d: "dd_payload_size d = e" "dd_payload_received d = length c" "length c < e" "e + 4 < 2 ^ 24"
      "dd_chunk_crc d = crc32_update (- 1) (chunk_head 1 e @ c)" "dd_trailer_size d = 0"
      "dd_buffers e d" "dd_trailing_bytes d = 0"
    by (auto simp: dd_rel_def)
  define k where "k = min (e - length c) (length data)"
  have k: "0 < k" "k \<le> length data" "length c + k \<le> e" "k \<le> e - length c" using d(3) data by (auto simp: k_def)
  let ?x = "take k data"
  have size: "min (size_sub e (length c)) (length data) = k"
    using d by (simp add: k_def size_sub_le)
  show ?thesis
  proof (cases "sink ?x w")
    case (Pair ok w1)
    show ?thesis
    proof (cases ok)
      case False
      then have "r = Some AP_SINK_ERROR"
        using turn Pair False k(1) d(1,2) by (simp add: payload_turn_def Let_def size)
      moreover have "\<not> A"
        using able sink_able [of w "e - length c" ?x] Pair False k data by auto
      ultimately show ?thesis by simp
    next
      case True
      let ?d1 = "d\<lparr>dd_chunk_crc := crc32_update (dd_chunk_crc d) ?x,
          dd_payload_received := dd_payload_received d + k\<rparr>"
      have t: "r = None" "rest = drop k data" "w' = w1"
        "d' = (if length c + k = e then ?d1\<lparr>dd_state := DD_TRAILER\<rparr> else ?d1)"
        using turn Pair True k(1) d(1,2) by (auto simp: payload_turn_def Let_def size)
      have "dd_rel e (s @ ?x) (c @ ?x) d'"
        using d rr k st by (auto simp: t(4) dd_rel_def dd_buffers_def s intro!: exI [of _ rr])
      moreover have "content w' = b @ c @ ?x" using sink_append Pair True cw t(3) by simp
      moreover have "A \<longrightarrow> able w' (e - length (c @ ?x))"
        using able sink_able [of w "e - length c" ?x] Pair k data t(3) by auto
      ultimately have "holds e (s @ ?x) b A d' w'" unfolding holds_def by blast
      then show ?thesis using t by blast
    qed
  qed
qed

lemma turn_ok_holds:
  assumes "turn_ok e s c data (r, d', rest)" and "content w = b @ c"
    and "A \<longrightarrow> able w (e - length c)"
  shows "(case r of
      None \<Rightarrow> \<exists>k. rest = drop k data \<and> holds e (s @ take k data) b A d' w
    | Some st \<Rightarrow> st \<noteq> AP_OK \<and> st \<noteq> AP_SINK_ERROR \<and> \<not> viable e (s @ data))"
  using assms viable_prefix [of e "s @ take k data" "drop k data" for k]
  unfolding turn_ok_def holds_def by (auto split: option.splits)

text \<open>Feeding in one call, and the outcome it can have.\<close>

definition outcome :: "nat \<Rightarrow> u8 list \<Rightarrow> u8 list \<Rightarrow> bool \<Rightarrow> ap_status \<times> download_decoder \<times> 'w \<Rightarrow> bool" where
  "outcome e s b A = (\<lambda>(st, d, w).
     (st = AP_OK \<longrightarrow> holds e s b A d w) \<and> (st = AP_SINK_ERROR \<longrightarrow> \<not> A)
     \<and> (st \<noteq> AP_OK \<and> st \<noteq> AP_SINK_ERROR \<longrightarrow> \<not> viable e s))"

lemma feed_turn_outcome:
  assumes h: "holds e s b A d w" and data: "data \<noteq> []"
    and turn: "feed_turn sink d data w = (r, d', rest, w')"
  shows "case r of
      None \<Rightarrow> \<exists>k. rest = drop k data \<and> holds e (s @ take k data) b A d' w'
    | Some st \<Rightarrow> outcome e (s @ data) b A (st, d', w')"
proof -
  from h obtain c where rel: "dd_rel e s c d" and c: "content w = b @ c" "A \<longrightarrow> able w (e - length c)"
    by (auto simp: holds_def)
  have done_by: "turn_ok e s c data (r, d', rest) \<Longrightarrow> w' = w \<Longrightarrow> ?thesis"
    using turn_ok_holds [of e s c data r d' rest w b A] c by (auto simp: outcome_def split: option.splits)
  show ?thesis
  proof (cases "dd_state d")
    case DD_ARCHIVE
    with turn done_by archive_turn_ok [OF rel DD_ARCHIVE, of data] show ?thesis
      by (auto simp: feed_turn_def split: prod.splits)
  next
    case DD_CHUNK_HEADER
    with turn done_by header_turn_ok [OF rel DD_CHUNK_HEADER, of data] show ?thesis
      by (auto simp: feed_turn_def split: prod.splits)
  next
    case DD_TRAILER
    with turn done_by trailer_turn_ok [OF rel DD_TRAILER, of data] show ?thesis
      by (auto simp: feed_turn_def split: prod.splits)
  next
    case DD_PAYLOAD
    then have "payload_turn sink d data w = (r, d', rest, w')" using turn by (simp add: feed_turn_def)
    from payload_turn_holds [OF h DD_PAYLOAD data this] show ?thesis
      by (auto simp: outcome_def)
  next
    case DD_COMPLETE
    with rel obtain extra where x: "download_stream e c extra s"
      "dd_trailing_bytes d = length extra" "dd_buffers e d" by (auto simp: dd_rel_def)
    then have "download_stream e c (extra @ data) (s @ data)" by (auto simp: download_stream_def)
    then have "dd_rel e (s @ data) c (d\<lparr>dd_trailing_bytes := dd_trailing_bytes d + length data\<rparr>)"
      using x DD_COMPLETE by (auto simp: dd_rel_def dd_buffers_def intro!: exI [of _ "extra @ data"])
    with turn DD_COMPLETE c show ?thesis
      by (auto simp: feed_turn_def outcome_def holds_def)
  qed
qed

lemma feed_loop_outcome:
  "holds e s b A d w \<Longrightarrow> outcome e (s @ data) b A (feed_loop sink d data w)"
proof (induction "length data + dd_rank d" arbitrary: s d data w rule: less_induct)
  case less
  show ?case
  proof (cases "data = []")
    case True
    then show ?thesis using less.prems by (simp add: feed_loop.simps outcome_def)
  next
    case False
    obtain r d' rest w' where turn: "feed_turn sink d data w = (r, d', rest, w')"
      using prod_cases4 by blast
    note out = feed_turn_outcome [OF less.prems False turn]
    show ?thesis
    proof (cases r)
      case (Some st)
      then show ?thesis using out False turn by (subst feed_loop.simps) simp
    next
      case None
      with out obtain k where k: "rest = drop k data" "holds e (s @ take k data) b A d' w'" by auto
      have "length rest + dd_rank d' < length data + dd_rank d"
        using feed_turn_progress [OF turn [unfolded None] False] .
      from less.hyps [OF this k(2)] have "outcome e (s @ data) b A (feed_loop sink d' rest w')"
        by (simp add: k(1))
      moreover have "feed_loop sink d data w = feed_loop sink d' rest w'"
        using None False turn by (subst feed_loop.simps) simp
      ultimately show ?thesis by simp
    qed
  qed
qed

text \<open>Feeding the pieces one after the other, up to the first status that is not OK.\<close>

lemma feed_outcome:
  assumes "holds e s b A d w"
  shows "case download_decoder_feed (Some d) (Span data) (Some sink) w of
    (st, d', w') \<Rightarrow> \<exists>d1. d' = Some d1 \<and> outcome e (s @ data) b A (st, d1, w')"
proof -
  have "dd_expected_payload_size d \<noteq> 0"
    using assms by (auto simp: holds_def dd_rel_def dd_buffers_def)
  then show ?thesis using feed_loop_outcome [OF assms, of data]
    by (auto simp: download_decoder_feed_def split: prod.splits)
qed

end

fun feed_all ::
  "download_decoder option \<Rightarrow> u8 list list \<Rightarrow> 'w sink \<Rightarrow> 'w \<Rightarrow> ap_status \<times> download_decoder option \<times> 'w"
where
  "feed_all d [] sink w = (AP_OK, d, w)"
| "feed_all d (piece # pieces) sink w =
     (case download_decoder_feed d (Span piece) (Some sink) w of
        (status, d', w') \<Rightarrow>
          if status \<noteq> AP_OK then (status, d', w') else feed_all d' pieces sink w')"

context payload_sink
begin

lemma feed_all_outcome:
  "holds e s b A d w \<Longrightarrow>
   case feed_all (Some d) pieces sink w of
     (st, d', w') \<Rightarrow> \<exists>d1. d' = Some d1 \<and>
       (st = AP_OK \<longrightarrow> holds e (s @ concat pieces) b A d1 w') \<and> (st = AP_SINK_ERROR \<longrightarrow> \<not> A)
       \<and> (st \<noteq> AP_OK \<and> st \<noteq> AP_SINK_ERROR \<longrightarrow> \<not> viable e (s @ concat pieces))"
proof (induction pieces arbitrary: s d w)
  case Nil
  then show ?case by simp
next
  case (Cons piece pieces)
  obtain st d' w' where f: "download_decoder_feed (Some d) (Span piece) (Some sink) w = (st, d', w')"
    using prod_cases3 by blast
  from feed_outcome [OF Cons.prems, of piece] f obtain d1 where d1: "d' = Some d1"
    "outcome e (s @ piece) b A (st, d1, w')" by auto
  show ?case
  proof (cases "st = AP_OK")
    case True
    then have "holds e (s @ piece) b A d1 w'" using d1(2) by (simp add: outcome_def)
    from Cons.IH [OF this] show ?thesis using f d1(1) True by simp
  next
    case False
    then show ?thesis using f d1 viable_prefix [of e "s @ piece" "concat pieces"]
      by (auto simp: outcome_def)
  qed
qed

text \<open>The two directions of the contract, for every sink that provides the interface.\<close>

lemma completed_download:
  assumes "feed_all (download_decoder_init (Some d0) e) pieces sink w = (AP_OK, d, w')"
    and "0 < e" and "download_decoder_complete d"
  shows "\<exists>payload extra. download_stream e payload extra (concat pieces)
    \<and> content w' = content w @ payload \<and> dd_trailing_bytes (the d) = length extra"
proof -
  have "holds e [] (content w) False (decoder_init e) w" using assms(2) by (intro holds_init) simp_all
  from feed_all_outcome [OF this, of pieces] assms(1) obtain d1 c where
    "d = Some d1" "dd_rel e (concat pieces) c d1" "content w' = content w @ c"
    by (auto simp: holds_def)
  then show ?thesis using assms(3) by (auto simp: dd_rel_def)
qed

lemma download_completes:
  assumes x: "download_stream e payload extra (concat pieces)" and e: "0 < e" and able: "able w e"
  shows "\<exists>d w'. feed_all (download_decoder_init (Some d0) e) pieces sink w = (AP_OK, Some d, w')
    \<and> dd_state d = DD_COMPLETE \<and> dd_trailing_bytes d = length extra
    \<and> content w' = content w @ payload"
proof -
  obtain st d' w' where f: "feed_all (Some (decoder_init e)) pieces sink w = (st, d', w')"
    using prod_cases3 by blast
  have "holds e [] (content w) True (decoder_init e) w" using e able by (intro holds_init) simp_all
  from feed_all_outcome [OF this, of pieces] f viable_stream [OF x] obtain d1 where
    d1: "d' = Some d1" "st = AP_OK" "holds e (concat pieces) (content w) True d1 w'" by auto
  then obtain c where "dd_rel e (concat pieces) c d1" "content w' = content w @ c"
    by (auto simp: holds_def)
  with dd_rel_stream [OF _ x] f d1 show ?thesis by auto
qed

lemma cut_download_incomplete:
  assumes "feed_all (download_decoder_init (Some d0) e) pieces sink w = (st, d, w')"
    and "0 < e" and "able w e" and "st \<noteq> AP_OK"
  shows "\<not> viable e (concat pieces)"
proof -
  have "holds e [] (content w) True (decoder_init e) w" using assms by (intro holds_init) simp_all
  from feed_all_outcome [OF this, of pieces] assms(1,4) show ?thesis by auto
qed

end

end
