(* ===== verification/Download_Writer.thy ===== *)
theory Download_Writer
  imports Download_Stream
begin

text \<open>
  The sink the firmware configures for downloads: the temporary cache file of the SD storage
  (\<open>download_writer\<close> and \<open>revlink_sd_download_write\<close> in esp32p4/main/revlink_sd_storage.c). It
  provides the interface \<open>payload_sink\<close>, so the decoder's contract holds for the bytes of the
  file.

  A \<open>FILE\<close> open for writing is its bytes and the room left on the medium; \<open>fwrite\<close> writes what
  fits and returns the count. The running SHA-256 belongs to the crypto library: its state \<open>'h\<close>
  and its update \<open>psa\<close>, which answers whether it succeeded, are parameters.
\<close>

record out_file =
  of_bytes :: "u8 list"
  of_room :: nat

definition fwrite :: "u8 list \<Rightarrow> out_file \<Rightarrow> nat \<times> out_file" where
  "fwrite data f =
     (let n = min (length data) (of_room f)
      in (n, f\<lparr>of_bytes := of_bytes f @ take n data, of_room := of_room f - n\<rparr>))"

record 'h download_writer =
  dw_stream :: "out_file option"
  dw_hash :: 'h
  dw_expected_size :: u32
  dw_written_size :: u32

definition sd_download_write ::
  "(u8 list \<Rightarrow> 'h \<Rightarrow> bool \<times> 'h) \<Rightarrow> u8 span \<Rightarrow> 'h download_writer \<Rightarrow> bool \<times> 'h download_writer" where
  "sd_download_write psa data w =
     (case dw_stream w of
        None \<Rightarrow> (False, w)
      | Some f \<Rightarrow>
          if is_null data \<or> slen data > unat (dw_expected_size w - dw_written_size w) then (False, w)
          else if slen data = 0 then (True, w)
          else
            let (count, f') = fwrite (sbytes data) f;
                w1 = w\<lparr>dw_stream := Some f'\<rparr>
            in if count \<noteq> slen data then (False, w1)
               else
                 let (updated, h') = psa (sbytes data) (dw_hash w1);
                     w2 = w1\<lparr>dw_hash := h'\<rparr>
                 in if \<not> updated then (False, w2)
                    else (True, w2\<lparr>dw_written_size := dw_written_size w2 + of_nat (slen data)\<rparr>))"

text \<open>The content, and the conditions under which the next \<open>n\<close> bytes are taken.\<close>

definition dw_content :: "'h download_writer \<Rightarrow> u8 list" where
  "dw_content w = (case dw_stream w of None \<Rightarrow> [] | Some f \<Rightarrow> of_bytes f)"

definition dw_able :: "(u8 list \<Rightarrow> 'h \<Rightarrow> bool \<times> 'h) \<Rightarrow> 'h download_writer \<Rightarrow> nat \<Rightarrow> bool" where
  "dw_able psa w n \<longleftrightarrow>
     (\<exists>f. dw_stream w = Some f \<and> n \<le> of_room f) \<and> n \<le> unat (dw_expected_size w - dw_written_size w)
     \<and> (\<forall>xs h. fst (psa xs h))"

abbreviation sd_sink :: "(u8 list \<Rightarrow> 'h \<Rightarrow> bool \<times> 'h) \<Rightarrow> 'h download_writer sink" where
  "sd_sink psa \<equiv> \<lambda>xs. sd_download_write psa (Span xs)"

lemma unat_minus_of_nat:
  assumes "n \<le> unat (a :: u32)"
  shows "unat (a - of_nat n) = unat a - n"
proof -
  have "unat (of_nat n :: u32) = n" using assms unat_u32_less [of a] by (intro unat_of_nat_u32) simp
  then show ?thesis using assms by (simp add: unat_sub word_le_nat_alt)
qed

interpretation sd: payload_sink "sd_sink psa" dw_content "dw_able psa" for psa
proof
  fix xs and w w' :: "'a download_writer"
  assume "sd_download_write psa (Span xs) w = (True, w')"
  then show "dw_content w' = dw_content w @ xs"
    by (auto simp: sd_download_write_def fwrite_def dw_content_def Let_def
        split: option.splits if_splits prod.splits)
next
  fix xs :: "u8 list" and w :: "'a download_writer" and n
  assume able: "dw_able psa w n" and xs: "xs \<noteq> []" "length xs \<le> n"
  then obtain f where f: "dw_stream w = Some f" "n \<le> of_room f"
    and room: "n \<le> unat (dw_expected_size w - dw_written_size w)" and psa: "\<And>xs h. fst (psa xs h)"
    by (auto simp: dw_able_def)
  have "unat (dw_expected_size w - (dw_written_size w + of_nat (length xs)))
      = unat (dw_expected_size w - dw_written_size w) - length xs"
    using unat_minus_of_nat [of "length xs" "dw_expected_size w - dw_written_size w"] room xs
    by (simp add: diff_diff_add)
  moreover obtain h' where p: "psa xs (dw_hash w) = (True, h')"
    using psa [of xs "dw_hash w"] by (metis prod.collapse)
  ultimately show "fst (sd_download_write psa (Span xs) w)
      \<and> dw_able psa (snd (sd_download_write psa (Span xs) w)) (n - length xs)"
    using f room psa xs p
    by (simp add: sd_download_write_def fwrite_def dw_able_def Let_def diff_le_mono)
qed

text \<open>A writer that has just been started for a file of \<open>fsize\<close> bytes.\<close>

definition dw_started :: "(u8 list \<Rightarrow> 'h \<Rightarrow> bool \<times> 'h) \<Rightarrow> u32 \<Rightarrow> 'h download_writer \<Rightarrow> bool" where
  "dw_started psa fsize w \<longleftrightarrow> fsize \<noteq> 0 \<and> dw_expected_size w = fsize \<and> dw_written_size w = 0
     \<and> dw_content w = [] \<and> (\<exists>f. dw_stream w = Some f \<and> unat fsize \<le> of_room f)
     \<and> (\<forall>xs h. fst (psa xs h))"

lemma dw_startedD:
  "dw_started psa fsize w \<Longrightarrow> 0 < unat fsize \<and> dw_able psa w (unat fsize) \<and> dw_content w = []"
  by (auto simp: dw_started_def dw_able_def unat_gt_0)

text \<open>
  C1. However the USB transfers cut the stream, a well formed download of a file of the
  announced size is decoded to the end, exactly its bytes are in the cache file, and the
  bytes behind the chunk are counted but not written.
\<close>

theorem download_stored:
  assumes "download_stream (unat fsize) payload extra (concat pieces)" and "dw_started psa fsize w"
  shows "\<exists>d w'. feed_all (download_decoder_init (Some d0) (unat fsize)) pieces (sd_sink psa) w
      = (AP_OK, Some d, w') \<and> download_decoder_complete (Some d)
      \<and> dd_trailing_bytes d = length extra \<and> dw_content w' = payload"
  using sd.download_completes [OF assms(1), of psa w d0] dw_startedD [OF assms(2)] by auto

definition sample_stream :: "u8 list" where
  "sample_stream = archive_record AP_OPCODE_RESPONSE [1, 2] @ chunk_head 1 3 @ [7, 8, 9] @ zero_trailer @ [5]"

definition sample_writer :: "nat download_writer" where
  "sample_writer = \<lparr>dw_stream = Some \<lparr>of_bytes = [], of_room = 100\<rparr>, dw_hash = 0,
     dw_expected_size = 3, dw_written_size = 0\<rparr>"

definition sample_psa :: "u8 list \<Rightarrow> nat \<Rightarrow> bool \<times> nat" where
  "sample_psa xs h = (True, h + length xs)"

lemma sample_stream: "download_stream (unat (3 :: u32)) [7, 8, 9] [5] sample_stream"
  unfolding download_stream_def sample_stream_def
  by (rule exI [of _ "archive_record AP_OPCODE_RESPONSE [1, 2]"], rule exI [of _ zero_trailer])
    (auto simp: response_record_def download_trailer_def zero_trailer_def)

lemma sample_started: "dw_started sample_psa 3 sample_writer"
  by (simp add: dw_started_def sample_writer_def sample_psa_def dw_content_def)

theorem download_stored_witness:
  "\<exists>d w'. feed_all (download_decoder_init (Some decoder_zeroed) (unat (3 :: u32)))
      [take 9 sample_stream, drop 9 sample_stream] (sd_sink sample_psa) sample_writer
      = (AP_OK, Some d, w') \<and> download_decoder_complete (Some d)
      \<and> dd_trailing_bytes d = 1 \<and> dw_content w' = [7, 8, 9]"
  using download_stored [of 3 "[7, 8, 9]" "[5]" "[take 9 sample_stream, drop 9 sample_stream]"
      sample_psa sample_writer decoder_zeroed] sample_stream sample_started
  by simp

text \<open>
  C2. A decoder that reports completion has seen a well formed download: the transfers
  together are the announced record, the chunk header with the expected size, the bytes that
  are now at the end of the cache file, an accepted trailer, and the counted trailing bytes.
\<close>

theorem download_sound:
  assumes "feed_all (download_decoder_init (Some d0) e) pieces (sd_sink psa) w = (AP_OK, Some d, w')"
    and "0 < e" and "download_decoder_complete (Some d)"
  shows "\<exists>payload extra. download_stream e payload extra (concat pieces)
    \<and> dw_content w' = dw_content w @ payload \<and> dd_trailing_bytes d = length extra"
  using sd.completed_download [OF assms] by simp

theorem download_sound_witness:
  "\<exists>(w' :: nat download_writer) payload extra. download_stream 3 payload extra sample_stream
    \<and> dw_content w' = dw_content sample_writer @ payload"
proof -
  obtain d w' where run: "feed_all (download_decoder_init (Some decoder_zeroed) 3) [sample_stream]
      (sd_sink sample_psa) sample_writer = (AP_OK, Some d, w')" "dd_state d = DD_COMPLETE"
    using sd.download_completes [of 3 "[7, 8, 9]" "[5]" "[sample_stream]" sample_psa sample_writer]
      sample_stream dw_startedD [OF sample_started] by auto
  have "\<exists>payload extra. download_stream 3 payload extra (concat [sample_stream])
      \<and> dw_content w' = dw_content sample_writer @ payload \<and> dd_trailing_bytes d = length extra"
    using run(2) by (intro download_sound [OF run(1)]) simp_all
  then show ?thesis unfolding concat.simps append_Nil2 by blast
qed

text \<open>
  An error is never a false alarm: with a writer that can take the file, any status but
  OK means that the transfers so far cannot be continued to a well formed download.
\<close>

lemma download_error_definite:
  assumes "feed_all (download_decoder_init (Some d0) (unat fsize)) pieces (sd_sink psa) w = (st, d, w')"
    and "dw_started psa fsize w" and "st \<noteq> AP_OK"
  shows "\<not> viable (unat fsize) (concat pieces)"
  using dw_startedD [OF assms(2)] assms(3)
  by (intro sd.cut_download_incomplete [OF assms(1)]) simp_all

theorem download_error_definite_witness:
  "\<not> viable (unat (3 :: u32)) [9, 9, 9]"
proof -
  have "feed_all (download_decoder_init (Some decoder_zeroed) (unat (3 :: u32))) [[9, 9, 9]]
      (sd_sink sample_psa) sample_writer
    = (AP_INVALID_FRAME, fst (snd (feed_all (download_decoder_init (Some decoder_zeroed)
        (unat (3 :: u32))) [[9, 9, 9]] (sd_sink sample_psa) sample_writer)),
       snd (snd (feed_all (download_decoder_init (Some decoder_zeroed)
        (unat (3 :: u32))) [[9, 9, 9]] (sd_sink sample_psa) sample_writer)))"
    by (simp add: download_decoder_feed_def decoder_init_def decoder_zeroed_def feed_loop.simps
        feed_turn_def archive_turn_def archive_wanted_def size_sub_def Let_def blit_def)
  from download_error_definite [OF this sample_started] show ?thesis by simp
qed

end
