(* ===== verification/Device_Service.thy ===== *)
theory Device_Service
  imports Revlink_Prelude
begin

text \<open>
  The device service (revlink_core/revlink_device_service.c) and the safety policy
  (revlink_core/revlink_safety_policy.c). The service keeps one snapshot of the attached
  AccessPort and moves it with the transport's events; every accepted event is published to
  an observer. The observer is a function on a world \<open>'w\<close>. An event kind outside the
  enumeration, which the code rejects, is \<open>DEV_EV_OTHER\<close>.
\<close>

section \<open>Types\<close>

datatype core_status = CORE_OK | CORE_INVALID_ARGUMENT | CORE_INVALID_TRANSITION
  | CORE_NOT_AUTHORIZED | CORE_NOT_SUPPORTED | CORE_PLATFORM_ERROR

fun core_status_name :: "core_status \<Rightarrow> string" where
  "core_status_name CORE_OK = ''ok''"
| "core_status_name CORE_INVALID_ARGUMENT = ''invalid-argument''"
| "core_status_name CORE_INVALID_TRANSITION = ''invalid-transition''"
| "core_status_name CORE_NOT_AUTHORIZED = ''not-authorized''"
| "core_status_name CORE_NOT_SUPPORTED = ''not-supported''"
| "core_status_name CORE_PLATFORM_ERROR = ''platform-error''"

datatype device_state = DEV_STOPPED | DEV_WAITING | DEV_INSPECTING | DEV_AVAILABLE
  | DEV_SESSION_ACTIVE | DEV_CONFLICT | DEV_FAULTED

fun device_state_name :: "device_state \<Rightarrow> string" where
  "device_state_name DEV_STOPPED = ''stopped''"
| "device_state_name DEV_WAITING = ''waiting''"
| "device_state_name DEV_INSPECTING = ''inspecting''"
| "device_state_name DEV_AVAILABLE = ''available''"
| "device_state_name DEV_SESSION_ACTIVE = ''session-active''"
| "device_state_name DEV_CONFLICT = ''multiple-devices''"
| "device_state_name DEV_FAULTED = ''faulted''"

record device_identity =
  id_vendor_id :: u16
  id_product_id :: u16
  id_address :: u8
  id_configuration_count :: u8
  id_matching_configuration_count :: u8
  id_interface_number :: u8
  id_bulk_out_endpoint :: u8
  id_bulk_in_endpoint :: u8
  id_bulk_max_packet_size :: u16
  id_attachment_generation :: u32
  id_high_speed :: bool

definition identity_zero :: device_identity where
  "identity_zero = \<lparr>id_vendor_id = 0, id_product_id = 0, id_address = 0,
     id_configuration_count = 0, id_matching_configuration_count = 0, id_interface_number = 0,
     id_bulk_out_endpoint = 0, id_bulk_in_endpoint = 0, id_bulk_max_packet_size = 0,
     id_attachment_generation = 0, id_high_speed = False\<rparr>"

datatype device_event_kind = DEV_EV_MONITOR_STARTED | DEV_EV_ATTACHED | DEV_EV_ACCEPTED
  | DEV_EV_SESSION_OPENED | DEV_EV_SESSION_CLOSED | DEV_EV_DETACHED
  | DEV_EV_MULTIPLE_DETECTED | DEV_EV_FAILURE | DEV_EV_OTHER nat

record device_event =
  ev_kind :: device_event_kind
  ev_identity :: device_identity
  ev_platform_error :: int
  ev_eligible_device_count :: u8
  ev_topology_revision :: u32
  ev_software_reenumeration :: bool

record device_snapshot =
  sn_state :: device_state
  sn_identity :: device_identity
  sn_last_platform_error :: int
  sn_eligible_device_count :: u8
  sn_topology_revision :: u32
  sn_conflict_recovery_required :: bool

definition snapshot_zero :: device_snapshot where
  "snapshot_zero = \<lparr>sn_state = DEV_STOPPED, sn_identity = identity_zero,
     sn_last_platform_error = 0, sn_eligible_device_count = 0, sn_topology_revision = 0,
     sn_conflict_recovery_required = False\<rparr>"

record 'w device_service =
  ds_snapshot :: device_snapshot
  ds_observer :: "(device_snapshot \<Rightarrow> 'w \<Rightarrow> 'w) option"

section \<open>The operations\<close>

definition identity_matches :: "device_identity \<Rightarrow> device_identity \<Rightarrow> bool" where
  "identity_matches left right \<longleftrightarrow>
     id_vendor_id left = id_vendor_id right \<and> id_product_id left = id_product_id right
     \<and> id_address left = id_address right
     \<and> id_attachment_generation left = id_attachment_generation right"

definition event_has_topology_revision :: "device_event \<Rightarrow> bool" where
  "event_has_topology_revision e \<longleftrightarrow>
     ev_kind e = DEV_EV_ATTACHED \<or> ev_kind e = DEV_EV_ACCEPTED \<or> ev_kind e = DEV_EV_DETACHED
     \<or> ev_kind e = DEV_EV_MULTIPLE_DETECTED"

definition publish_snapshot :: "'w device_service \<Rightarrow> 'w \<Rightarrow> 'w" where
  "publish_snapshot service w =
     (case ds_observer service of None \<Rightarrow> w | Some observer \<Rightarrow> observer (ds_snapshot service) w)"

fun device_service_init ::
  "'w device_service option \<Rightarrow> (device_snapshot \<Rightarrow> 'w \<Rightarrow> 'w) option \<Rightarrow> 'w device_service option" where
  "device_service_init None observer = None"
| "device_service_init (Some service) observer =
     Some \<lparr>ds_snapshot = snapshot_zero\<lparr>sn_state := DEV_STOPPED\<rparr>, ds_observer = observer\<rparr>"

text \<open>
  The \<open>switch\<close>: the status of an early return, or the updated snapshot and the next state.
\<close>

definition device_switch :: "device_snapshot \<Rightarrow> device_event \<Rightarrow> core_status + (device_snapshot \<times> device_state)" where
  "device_switch s e =
     (let current = sn_state s in
      case ev_kind e of
        DEV_EV_MONITOR_STARTED \<Rightarrow>
          if current \<noteq> DEV_STOPPED then Inl CORE_INVALID_TRANSITION
          else Inr (s, DEV_WAITING)
      | DEV_EV_ATTACHED \<Rightarrow>
          if current \<noteq> DEV_WAITING then Inl CORE_INVALID_TRANSITION
          else Inr (s\<lparr>sn_identity := ev_identity e, sn_eligible_device_count := 0\<rparr>, DEV_INSPECTING)
      | DEV_EV_ACCEPTED \<Rightarrow>
          if current \<noteq> DEV_INSPECTING \<or> \<not> identity_matches (sn_identity s) (ev_identity e)
          then Inl CORE_INVALID_TRANSITION
          else Inr (s\<lparr>sn_identity := ev_identity e, sn_eligible_device_count := 1\<rparr>, DEV_AVAILABLE)
      | DEV_EV_SESSION_OPENED \<Rightarrow>
          if current \<noteq> DEV_AVAILABLE then Inl CORE_INVALID_TRANSITION
          else Inr (s, DEV_SESSION_ACTIVE)
      | DEV_EV_SESSION_CLOSED \<Rightarrow>
          if current = DEV_CONFLICT then Inr (s, current)
          else if current \<noteq> DEV_SESSION_ACTIVE then Inl CORE_INVALID_TRANSITION
          else Inr (s, DEV_AVAILABLE)
      | DEV_EV_DETACHED \<Rightarrow>
          if current = DEV_STOPPED \<or> current = DEV_WAITING then Inl CORE_INVALID_TRANSITION
          else if current = DEV_CONFLICT then
            (let s1 = s\<lparr>sn_eligible_device_count := ev_eligible_device_count e\<rparr> in
             if ev_eligible_device_count e \<noteq> 0 then Inr (s1, current)
             else Inr (s1\<lparr>sn_conflict_recovery_required := False, sn_identity := identity_zero\<rparr>,
                       DEV_WAITING))
          else Inr (s\<lparr>sn_eligible_device_count := 0, sn_identity := identity_zero\<rparr>, DEV_WAITING)
      | DEV_EV_MULTIPLE_DETECTED \<Rightarrow>
          if current = DEV_STOPPED \<or> ev_eligible_device_count e < 2 then Inl CORE_INVALID_TRANSITION
          else Inr (s\<lparr>sn_identity := identity_zero,
                      sn_eligible_device_count := ev_eligible_device_count e,
                      sn_conflict_recovery_required := True\<rparr>, DEV_CONFLICT)
      | DEV_EV_FAILURE \<Rightarrow>
          Inr (s\<lparr>sn_last_platform_error := ev_platform_error e\<rparr>,
               if current \<noteq> DEV_CONFLICT then DEV_FAULTED else current)
      | DEV_EV_OTHER n \<Rightarrow> Inl CORE_INVALID_ARGUMENT)"

definition device_handle :: "device_snapshot \<Rightarrow> device_event \<Rightarrow> core_status \<times> device_snapshot" where
  "device_handle s e =
     (if event_has_topology_revision e \<and> ev_topology_revision e \<noteq> 0
         \<and> ev_topology_revision e < sn_topology_revision s
      then (CORE_INVALID_TRANSITION, s)
      else case device_switch s e of
        Inl status \<Rightarrow> (status, s)
      | Inr (s1, next_state) \<Rightarrow>
          let s2 = s1\<lparr>sn_state := next_state\<rparr> in
          (CORE_OK,
           if event_has_topology_revision e \<and> ev_topology_revision e \<noteq> 0
           then s2\<lparr>sn_topology_revision := ev_topology_revision e\<rparr> else s2))"

definition device_service_handle ::
  "'w device_service option \<Rightarrow> device_event option \<Rightarrow> 'w
   \<Rightarrow> core_status \<times> 'w device_service option \<times> 'w" where
  "device_service_handle service event w =
     (case (service, event) of
        (Some d, Some e) \<Rightarrow>
          (case device_handle (ds_snapshot d) e of
             (status, s) \<Rightarrow>
               let d' = d\<lparr>ds_snapshot := s\<rparr> in
               (status, Some d', if status = CORE_OK then publish_snapshot d' w else w))
      | _ \<Rightarrow> (CORE_INVALID_ARGUMENT, service, w))"

definition device_service_snapshot :: "'w device_service option \<Rightarrow> device_snapshot" where
  "device_service_snapshot service =
     (case service of None \<Rightarrow> snapshot_zero | Some d \<Rightarrow> ds_snapshot d)"

section \<open>The safety policy\<close>

datatype operation = OP_DISCOVER | OP_READ_DEVICE | OP_WRITE_MAP | OP_WRITE_STARTUP_SCREEN
  | OP_DELETE_DEVICE_FILE | OP_OTHER nat

record safety_policy =
  sp_allow_device_writes :: bool
  sp_allow_device_deletes :: bool

definition safety_policy_default :: safety_policy where
  "safety_policy_default = \<lparr>sp_allow_device_writes = False, sp_allow_device_deletes = False\<rparr>"

fun safety_policy_authorize :: "safety_policy option \<Rightarrow> operation \<Rightarrow> core_status" where
  "safety_policy_authorize None operation = CORE_INVALID_ARGUMENT"
| "safety_policy_authorize (Some policy) OP_DISCOVER = CORE_OK"
| "safety_policy_authorize (Some policy) OP_READ_DEVICE = CORE_OK"
| "safety_policy_authorize (Some policy) OP_WRITE_MAP =
     (if sp_allow_device_writes policy then CORE_OK else CORE_NOT_AUTHORIZED)"
| "safety_policy_authorize (Some policy) OP_WRITE_STARTUP_SCREEN =
     (if sp_allow_device_writes policy then CORE_OK else CORE_NOT_AUTHORIZED)"
| "safety_policy_authorize (Some policy) OP_DELETE_DEVICE_FILE =
     (if sp_allow_device_writes policy \<and> sp_allow_device_deletes policy then CORE_OK
      else CORE_NOT_AUTHORIZED)"
| "safety_policy_authorize (Some policy) (OP_OTHER n) = CORE_INVALID_ARGUMENT"

fun modifies_device :: "operation \<Rightarrow> bool" where
  "modifies_device OP_DISCOVER = False"
| "modifies_device OP_READ_DEVICE = False"
| "modifies_device _ = True"

text \<open>
  The default policy authorises nothing that modifies the device; under any policy
  whatever the device can be deleted from can also be written, and no operation that modifies
  it is authorised without the write permission.
\<close>

lemma safety_policy_fail_closed:
  "(safety_policy_authorize (Some safety_policy_default) op = CORE_OK \<longleftrightarrow> \<not> modifies_device op)
   \<and> (safety_policy_authorize policy op = CORE_OK \<longleftrightarrow>
        (\<exists>p. policy = Some p \<and>
          (case op of OP_DISCOVER \<Rightarrow> True | OP_READ_DEVICE \<Rightarrow> True
           | OP_DELETE_DEVICE_FILE \<Rightarrow> sp_allow_device_writes p \<and> sp_allow_device_deletes p
           | OP_OTHER n \<Rightarrow> False | _ \<Rightarrow> sp_allow_device_writes p)))"
  by (cases op; cases policy) (simp_all add: safety_policy_default_def)

section \<open>The invariant\<close>

text \<open>
  What the other components rely on: a usable device is the only eligible one, a conflict
  counts at least one device and is the only state that asks for recovery, and while no device
  is known the identity is blank.
\<close>

definition device_inv :: "device_snapshot \<Rightarrow> bool" where
  "device_inv s \<longleftrightarrow>
     (sn_conflict_recovery_required s \<longleftrightarrow> sn_state s = DEV_CONFLICT) \<and>
     (case sn_state s of
        DEV_STOPPED \<Rightarrow> sn_identity s = identity_zero \<and> sn_eligible_device_count s = 0
          \<and> sn_topology_revision s = 0
      | DEV_WAITING \<Rightarrow> sn_identity s = identity_zero \<and> sn_eligible_device_count s = 0
      | DEV_INSPECTING \<Rightarrow> sn_eligible_device_count s = 0
      | DEV_AVAILABLE \<Rightarrow> sn_eligible_device_count s = 1
      | DEV_SESSION_ACTIVE \<Rightarrow> sn_eligible_device_count s = 1
      | DEV_CONFLICT \<Rightarrow> sn_identity s = identity_zero \<and> sn_eligible_device_count s \<noteq> 0
      | DEV_FAULTED \<Rightarrow> sn_eligible_device_count s \<le> 1)"

lemma device_switch_inv:
  "device_inv s \<Longrightarrow> device_switch s e = Inr (s1, n) \<Longrightarrow> device_inv (s1\<lparr>sn_state := n\<rparr>)
     \<and> sn_topology_revision s1 = sn_topology_revision s"
  by (cases "ev_kind e"; cases "sn_state s")
    (auto simp: device_switch_def device_inv_def Let_def split: if_splits)

lemma device_switch_revision:
  "device_switch s e = Inr (s1, n) \<Longrightarrow> event_has_topology_revision e \<Longrightarrow> n \<noteq> DEV_STOPPED"
  by (cases "ev_kind e"; cases "sn_state s")
    (auto simp: device_switch_def event_has_topology_revision_def Let_def split: if_splits)

lemma device_inv_revision:
  "device_inv s \<Longrightarrow> sn_state s \<noteq> DEV_STOPPED \<Longrightarrow> device_inv (s\<lparr>sn_topology_revision := r\<rparr>)"
  by (auto simp: device_inv_def split: device_state.splits)

lemma device_handle_inv: "device_inv s \<Longrightarrow> device_inv (snd (device_handle s e))"
proof (cases "device_switch s e")
  case (Inr x)
  assume inv: "device_inv s"
  obtain s1 n where x: "x = (s1, n)" by (cases x)
  show ?thesis
    using device_switch_inv [OF inv Inr [unfolded x]] device_switch_revision [OF Inr [unfolded x]]
      device_inv_revision [of "s1\<lparr>sn_state := n\<rparr>"] inv Inr x
    by (simp add: device_handle_def Let_def)
qed (simp add: device_handle_def)

interpretation dev: event_machine "\<lambda>s e. snd (device_handle s e)" "\<lambda>s. s = snapshot_zero" device_inv
  by unfold_locales (simp_all add: device_handle_inv, simp add: device_inv_def snapshot_zero_def)

definition device_run :: "device_event list \<Rightarrow> device_snapshot" where
  "device_run es = foldl (\<lambda>s e. snd (device_handle s e)) snapshot_zero es"

text \<open>
  After any sequence of events from the transport, in any order and including rejected
  ones, the snapshot satisfies the invariant.
\<close>

lemma device_invariant: "device_inv (device_run es)"
  unfolding device_run_def by (rule dev.run_inv) (rule refl)

section \<open>Rejected and stale events\<close>

lemma device_switch_cases:
  "device_switch s e = Inl st \<Longrightarrow> st \<noteq> CORE_OK"
  "device_switch s e = Inr (s1, n) \<Longrightarrow> sn_topology_revision s1 = sn_topology_revision s"
  by (cases "ev_kind e"; auto simp: device_switch_def Let_def split: if_splits)+

lemma device_handle_outcome:
  assumes "device_handle s e = (status, s')"
  shows "(status \<noteq> CORE_OK \<longrightarrow> s' = s) \<and> sn_topology_revision s \<le> sn_topology_revision s'
    \<and> \<not> (status = CORE_OK \<and> event_has_topology_revision e \<and> ev_topology_revision e \<noteq> 0
         \<and> ev_topology_revision e < sn_topology_revision s)"
proof (cases "device_switch s e")
  case (Inl st)
  then show ?thesis using assms device_switch_cases(1) [OF Inl]
    by (auto simp: device_handle_def split: if_splits)
next
  case (Inr x)
  obtain s1 n where x: "x = (s1, n)" by (cases x)
  show ?thesis using assms Inr x device_switch_cases(2) [OF Inr [unfolded x]]
    by (auto simp: device_handle_def Let_def not_less split: if_splits)
qed

text \<open>
  A rejected event leaves the snapshot alone and publishes nothing; an accepted one
  publishes the new snapshot once. The topology revision never decreases, and a topology event
  older than the last one is rejected.
\<close>

lemma device_handle_frame:
  "case device_service_handle (Some d) (Some e) w of
     (status, d', w') \<Rightarrow> \<exists>s. d' = Some (d\<lparr>ds_snapshot := s\<rparr>)
       \<and> (if status = CORE_OK then w' = publish_snapshot (d\<lparr>ds_snapshot := s\<rparr>) w
          else s = ds_snapshot d \<and> w' = w)
       \<and> sn_topology_revision (ds_snapshot d) \<le> sn_topology_revision s
       \<and> \<not> (status = CORE_OK \<and> event_has_topology_revision e \<and> ev_topology_revision e \<noteq> 0
            \<and> ev_topology_revision e < sn_topology_revision (ds_snapshot d))"
proof -
  obtain status s where h: "device_handle (ds_snapshot d) e = (status, s)" by fastforce
  have d: "d\<lparr>ds_snapshot := ds_snapshot d\<rparr> = d" by simp
  show ?thesis
    using device_handle_outcome [OF h] d
    by (simp add: device_service_handle_def h Let_def exI [of _ s] del: d)
qed

section \<open>Where a usable device comes from\<close>

text \<open>
  \<open>vetted es i\<close>: the events \<open>es\<close> contain the attachment of a device and, later, its acceptance
  with the identity \<open>i\<close>, which agrees with the attached one in vendor, product, address and
  attachment generation.
\<close>

definition attached_in :: "device_event list \<Rightarrow> device_identity \<Rightarrow> bool" where
  "attached_in es i \<longleftrightarrow> (\<exists>a \<in> set es. ev_kind a = DEV_EV_ATTACHED \<and> ev_identity a = i)"

definition vetted :: "device_event list \<Rightarrow> device_identity \<Rightarrow> bool" where
  "vetted es i \<longleftrightarrow> (\<exists>pre c post. es = pre @ c # post \<and> ev_kind c = DEV_EV_ACCEPTED
     \<and> ev_identity c = i \<and> (\<exists>j. attached_in pre j \<and> identity_matches j i))"

definition device_history :: "device_event list \<Rightarrow> device_snapshot \<Rightarrow> bool" where
  "device_history es s \<longleftrightarrow>
     (sn_state s = DEV_INSPECTING \<longrightarrow> attached_in es (sn_identity s)) \<and>
     (sn_state s \<in> {DEV_AVAILABLE, DEV_SESSION_ACTIVE} \<longrightarrow> vetted es (sn_identity s))"

lemma attached_in_snoc [simp]:
  "attached_in (es @ [e]) i \<longleftrightarrow> attached_in es i \<or> (ev_kind e = DEV_EV_ATTACHED \<and> ev_identity e = i)"
  by (auto simp: attached_in_def)

lemma vetted_snoc: "vetted es i \<Longrightarrow> vetted (es @ [e]) i"
  unfolding vetted_def by (metis append_Cons append_assoc)

lemma vetted_accept:
  "attached_in es j \<Longrightarrow> identity_matches j (ev_identity e) \<Longrightarrow> ev_kind e = DEV_EV_ACCEPTED \<Longrightarrow>
   vetted (es @ [e]) (ev_identity e)"
  unfolding vetted_def by blast

lemma device_switch_history:
  "device_history es s \<Longrightarrow> device_switch s e = Inr (s1, n) \<Longrightarrow>
   device_history (es @ [e]) (s1\<lparr>sn_state := n\<rparr>)"
  by (cases "ev_kind e"; cases "sn_state s")
    (auto simp: device_switch_def device_history_def Let_def vetted_snoc vetted_accept split: if_splits)

lemma device_handle_history:
  assumes "device_history es s"
  shows "device_history (es @ [e]) (snd (device_handle s e))"
proof (cases "device_switch s e")
  case (Inl st)
  then show ?thesis using assms vetted_snoc
    by (auto simp: device_handle_def device_history_def)
next
  case (Inr x)
  obtain s1 n where x: "x = (s1, n)" by (cases x)
  have "device_history (es @ [e]) (s1\<lparr>sn_state := n\<rparr>)"
    using device_switch_history [OF assms Inr [unfolded x]] .
  moreover have "device_history (es @ [e]) s" using assms vetted_snoc by (auto simp: device_history_def)
  ultimately show ?thesis using Inr x by (auto simp: device_handle_def Let_def device_history_def)
qed

lemma device_run_history: "device_history es (device_run es)"
proof (induction es rule: rev_induct)
  case Nil
  then show ?case by (simp add: device_run_def device_history_def snapshot_zero_def)
next
  case (snoc e es)
  then show ?case using device_handle_history [OF snoc] by (simp add: device_run_def)
qed

text \<open>
  C11. A session can only be opened on a vetted device: whenever the state is available or
  session-active, the events contain an attachment followed by an acceptance of exactly the
  current identity, and the two agree on the device and its attachment generation.
\<close>

theorem session_device_vetted:
  assumes "sn_state (device_run es) \<in> {DEV_AVAILABLE, DEV_SESSION_ACTIVE}"
  shows "\<exists>pre c post j. es = pre @ c # post \<and> ev_kind c = DEV_EV_ACCEPTED
    \<and> ev_identity c = sn_identity (device_run es)
    \<and> attached_in pre j \<and> identity_matches j (sn_identity (device_run es))"
  using device_run_history [of es] assms unfolding device_history_def vetted_def by blast

definition sample_event :: "device_event_kind \<Rightarrow> device_event" where
  "sample_event k = \<lparr>ev_kind = k, ev_identity = identity_zero\<lparr>id_address := 7\<rparr>,
     ev_platform_error = 0, ev_eligible_device_count = 1, ev_topology_revision = 0,
     ev_software_reenumeration = False\<rparr>"

theorem session_device_vetted_witness:
  "\<exists>pre c post j. map sample_event [DEV_EV_MONITOR_STARTED, DEV_EV_ATTACHED, DEV_EV_ACCEPTED,
      DEV_EV_SESSION_OPENED] = pre @ c # post \<and> ev_kind c = DEV_EV_ACCEPTED
    \<and> attached_in pre j \<and> id_address j = 7"
proof -
  let ?es = "map sample_event [DEV_EV_MONITOR_STARTED, DEV_EV_ATTACHED, DEV_EV_ACCEPTED,
      DEV_EV_SESSION_OPENED]"
  have run: "device_run ?es = snapshot_zero\<lparr>sn_state := DEV_SESSION_ACTIVE,
      sn_identity := identity_zero\<lparr>id_address := 7\<rparr>, sn_eligible_device_count := 1\<rparr>"
    by (simp add: device_run_def device_handle_def device_switch_def sample_event_def snapshot_zero_def
        event_has_topology_revision_def identity_matches_def)
  have "sn_state (device_run ?es) \<in> {DEV_AVAILABLE, DEV_SESSION_ACTIVE}" unfolding run by simp
  from session_device_vetted [OF this] show ?thesis
    unfolding run identity_matches_def by auto
qed

end
