(* ===== verification/Sync_Coordinator.thy ===== *)
theory Sync_Coordinator
  imports Revlink_Prelude
begin

text \<open>
  The sync coordinator (revlink_sync/revlink_sync_coordinator.c): one sync operation at a time
  between the user's requests and the events of the USB transport. The transport's entry points
  and the observer are functions on a world \<open>'w\<close>; a NULL pointer is \<open>None\<close>. The world of a call
  is returned, so that what the transport was asked to do is part of the result.
\<close>

section \<open>Types\<close>

datatype sync_status = SYNC_OK | SYNC_INVALID_ARGUMENT | SYNC_INVALID_STATE | SYNC_TRANSPORT_ERROR

datatype sync_state = SYNC_IDLE | SYNC_QUEUED | SYNC_RUNNING | SYNC_CANCELLING | SYNC_COMPLETED
  | SYNC_FAILED | SYNC_CANCELLED

fun sync_state_name :: "sync_state \<Rightarrow> string" where
  "sync_state_name SYNC_IDLE = ''idle''"
| "sync_state_name SYNC_QUEUED = ''queued''"
| "sync_state_name SYNC_RUNNING = ''running''"
| "sync_state_name SYNC_CANCELLING = ''cancelling''"
| "sync_state_name SYNC_COMPLETED = ''completed''"
| "sync_state_name SYNC_FAILED = ''failed''"
| "sync_state_name SYNC_CANCELLED = ''cancelled''"

datatype sync_event_kind = SYNC_EV_STARTED | SYNC_EV_PROGRESS | SYNC_EV_COMPLETED | SYNC_EV_FAILED
  | SYNC_EV_CANCELLED | SYNC_EV_OTHER nat

record sync_policy =
  spol_auto_sync_on_attach :: bool

record sync_event =
  sev_kind :: sync_event_kind
  sev_candidates :: nat
  sev_downloaded :: nat
  sev_skipped :: nat
  sev_downloaded_bytes :: u32
  sev_pending :: nat
  sev_close_recovery_attempt :: bool
  sev_data_phase_completed :: bool
  sev_session_close_sent :: bool
  sev_session_close_acknowledged :: bool
  sev_platform_error :: int

record sync_snapshot =
  ss_state :: sync_state
  ss_candidates :: nat
  ss_downloaded :: nat
  ss_skipped :: nat
  ss_downloaded_bytes :: u32
  ss_pending :: nat
  ss_close_recovery_attempt :: bool
  ss_data_phase_completed :: bool
  ss_session_close_sent :: bool
  ss_session_close_acknowledged :: bool
  ss_last_platform_error :: int

definition sync_snapshot_zero :: sync_snapshot where
  "sync_snapshot_zero = \<lparr>ss_state = SYNC_IDLE, ss_candidates = 0, ss_downloaded = 0,
     ss_skipped = 0, ss_downloaded_bytes = 0, ss_pending = 0, ss_close_recovery_attempt = False,
     ss_data_phase_completed = False, ss_session_close_sent = False,
     ss_session_close_acknowledged = False, ss_last_platform_error = 0\<rparr>"

type_synonym 'w transport_call = "'w \<Rightarrow> sync_status \<times> 'w"

record 'w sync_config =
  cfg_request :: "'w transport_call option"
  cfg_recover_session :: "'w transport_call option"
  cfg_cancel :: "'w transport_call option"
  cfg_observer :: "(sync_snapshot \<Rightarrow> 'w \<Rightarrow> 'w) option"

record 'w sync_coordinator =
  sc_policy :: sync_policy
  sc_snapshot :: sync_snapshot
  sc_config :: "'w sync_config"

type_synonym 'w sync_result = "sync_status \<times> 'w sync_coordinator option \<times> 'w"

section \<open>The operations\<close>

definition sync_publish :: "'w sync_coordinator \<Rightarrow> 'w \<Rightarrow> 'w" where
  "sync_publish c w =
     (case cfg_observer (sc_config c) of None \<Rightarrow> w | Some observer \<Rightarrow> observer (sc_snapshot c) w)"

definition sync_is_active :: "sync_state \<Rightarrow> bool" where
  "sync_is_active s \<longleftrightarrow> s = SYNC_QUEUED \<or> s = SYNC_RUNNING \<or> s = SYNC_CANCELLING"

definition sync_coordinator_init ::
  "'w sync_coordinator option \<Rightarrow> 'w sync_config option \<Rightarrow> sync_policy option
   \<Rightarrow> sync_status \<times> 'w sync_coordinator option" where
  "sync_coordinator_init coordinator config policy =
     (case (coordinator, config, policy) of
        (Some c, Some cfg, Some p) \<Rightarrow>
          if cfg_request cfg = None \<or> cfg_cancel cfg = None then (SYNC_INVALID_ARGUMENT, coordinator)
          else (SYNC_OK, Some \<lparr>sc_policy = p, sc_snapshot = sync_snapshot_zero\<lparr>ss_state := SYNC_IDLE\<rparr>,
                  sc_config = cfg\<rparr>)
      | _ \<Rightarrow> (SYNC_INVALID_ARGUMENT, coordinator))"

definition sync_coordinator_set_policy ::
  "'w sync_coordinator option \<Rightarrow> sync_policy option \<Rightarrow> sync_status \<times> 'w sync_coordinator option" where
  "sync_coordinator_set_policy coordinator policy =
     (case (coordinator, policy) of
        (Some c, Some p) \<Rightarrow> (SYNC_OK, Some (c\<lparr>sc_policy := p\<rparr>))
      | _ \<Rightarrow> (SYNC_INVALID_ARGUMENT, coordinator))"

definition sync_coordinator_policy :: "'w sync_coordinator option \<Rightarrow> sync_policy" where
  "sync_coordinator_policy coordinator =
     (case coordinator of None \<Rightarrow> \<lparr>spol_auto_sync_on_attach = False\<rparr> | Some c \<Rightarrow> sc_policy c)"

definition request_operation ::
  "'w sync_coordinator option \<Rightarrow> 'w transport_call option \<Rightarrow> bool \<Rightarrow> 'w \<Rightarrow> 'w sync_result" where
  "request_operation coordinator request close_recovery_attempt w =
     (case coordinator of
        None \<Rightarrow> (SYNC_INVALID_ARGUMENT, coordinator, w)
      | Some c \<Rightarrow>
          if sync_is_active (ss_state (sc_snapshot c)) then (SYNC_INVALID_STATE, coordinator, w)
          else (case request of
            None \<Rightarrow> (SYNC_INVALID_STATE, coordinator, w)
          | Some call \<Rightarrow>
              (case call w of (status, w1) \<Rightarrow>
                 if status \<noteq> SYNC_OK then (status, coordinator, w1)
                 else
                   let c' = c\<lparr>sc_snapshot := sync_snapshot_zero\<lparr>ss_state := SYNC_QUEUED,
                              ss_close_recovery_attempt := close_recovery_attempt\<rparr>\<rparr>
                   in (SYNC_OK, Some c', sync_publish c' w1))))"

definition sync_coordinator_request :: "'w sync_coordinator option \<Rightarrow> 'w \<Rightarrow> 'w sync_result" where
  "sync_coordinator_request coordinator w =
     request_operation coordinator
       (case coordinator of None \<Rightarrow> None | Some c \<Rightarrow> cfg_request (sc_config c)) False w"

definition sync_coordinator_recover_session :: "'w sync_coordinator option \<Rightarrow> 'w \<Rightarrow> 'w sync_result" where
  "sync_coordinator_recover_session coordinator w =
     request_operation coordinator
       (case coordinator of None \<Rightarrow> None | Some c \<Rightarrow> cfg_recover_session (sc_config c)) True w"

text \<open>\<open>cancel\<close> is called without a NULL check: the initialisation has rejected a NULL.\<close>

definition sync_coordinator_cancel :: "'w sync_coordinator option \<Rightarrow> 'w \<Rightarrow> 'w sync_result" where
  "sync_coordinator_cancel coordinator w =
     (case coordinator of
        None \<Rightarrow> (SYNC_INVALID_ARGUMENT, coordinator, w)
      | Some c \<Rightarrow>
          if ss_state (sc_snapshot c) \<noteq> SYNC_QUEUED \<and> ss_state (sc_snapshot c) \<noteq> SYNC_RUNNING
          then (SYNC_INVALID_STATE, coordinator, w)
          else (case the (cfg_cancel (sc_config c)) w of (status, w1) \<Rightarrow>
            if status \<noteq> SYNC_OK then (status, coordinator, w1)
            else
              let c' = c\<lparr>sc_snapshot := sc_snapshot c\<lparr>ss_state := SYNC_CANCELLING\<rparr>\<rparr>
              in (SYNC_OK, Some c', sync_publish c' w1)))"

definition sync_switch :: "sync_state \<Rightarrow> sync_event_kind \<Rightarrow> sync_status + sync_state" where
  "sync_switch state kind =
     (case kind of
        SYNC_EV_STARTED \<Rightarrow>
          if state = SYNC_CANCELLING then Inr state
          else if state \<noteq> SYNC_QUEUED then Inl SYNC_INVALID_STATE
          else Inr SYNC_RUNNING
      | SYNC_EV_PROGRESS \<Rightarrow>
          if state \<noteq> SYNC_RUNNING \<and> state \<noteq> SYNC_CANCELLING then Inl SYNC_INVALID_STATE
          else Inr state
      | SYNC_EV_COMPLETED \<Rightarrow>
          if state \<noteq> SYNC_RUNNING then Inl SYNC_INVALID_STATE else Inr SYNC_COMPLETED
      | SYNC_EV_FAILED \<Rightarrow>
          if \<not> sync_is_active state then Inl SYNC_INVALID_STATE else Inr SYNC_FAILED
      | SYNC_EV_CANCELLED \<Rightarrow>
          if \<not> sync_is_active state then Inl SYNC_INVALID_STATE else Inr SYNC_CANCELLED
      | SYNC_EV_OTHER n \<Rightarrow> Inl SYNC_INVALID_ARGUMENT)"

definition sync_coordinator_handle_event ::
  "'w sync_coordinator option \<Rightarrow> sync_event option \<Rightarrow> 'w \<Rightarrow> 'w sync_result" where
  "sync_coordinator_handle_event coordinator event w =
     (case (coordinator, event) of
        (Some c, Some e) \<Rightarrow>
          (case sync_switch (ss_state (sc_snapshot c)) (sev_kind e) of
             Inl status \<Rightarrow> (status, coordinator, w)
           | Inr state \<Rightarrow>
               let c' = c\<lparr>sc_snapshot := sc_snapshot c\<lparr>
                     ss_state := state,
                     ss_candidates := sev_candidates e,
                     ss_downloaded := sev_downloaded e,
                     ss_skipped := sev_skipped e,
                     ss_downloaded_bytes := sev_downloaded_bytes e,
                     ss_pending := sev_pending e,
                     ss_close_recovery_attempt := sev_close_recovery_attempt e,
                     ss_data_phase_completed := sev_data_phase_completed e,
                     ss_session_close_sent := sev_session_close_sent e,
                     ss_session_close_acknowledged := sev_session_close_acknowledged e,
                     ss_last_platform_error := sev_platform_error e\<rparr>\<rparr>
               in (SYNC_OK, Some c', sync_publish c' w))
      | _ \<Rightarrow> (SYNC_INVALID_ARGUMENT, coordinator, w))"

definition sync_coordinator_snapshot :: "'w sync_coordinator option \<Rightarrow> sync_snapshot" where
  "sync_coordinator_snapshot coordinator =
     (case coordinator of None \<Rightarrow> sync_snapshot_zero | Some c \<Rightarrow> sc_snapshot c)"

section \<open>Sequences of calls\<close>

text \<open>
  The calls the rest of the firmware makes, in any order. \<open>sync_call\<close> is one call;
  \<open>sync_observed\<close> counts, over a sequence, the operations the transport accepted and the
  terminal events the coordinator accepted.
\<close>

datatype sync_command = Sync_Request | Sync_Recover | Sync_Cancel | Sync_Event sync_event
  | Sync_Set_Policy sync_policy

fun sync_call :: "sync_command \<Rightarrow> 'w sync_coordinator \<Rightarrow> 'w \<Rightarrow> 'w sync_result" where
  "sync_call Sync_Request c w = sync_coordinator_request (Some c) w"
| "sync_call Sync_Recover c w = sync_coordinator_recover_session (Some c) w"
| "sync_call Sync_Cancel c w = sync_coordinator_cancel (Some c) w"
| "sync_call (Sync_Event e) c w = sync_coordinator_handle_event (Some c) (Some e) w"
| "sync_call (Sync_Set_Policy p) c w =
     (case sync_coordinator_set_policy (Some c) (Some p) of (status, c') \<Rightarrow> (status, c', w))"

fun starts_operation :: "sync_command \<Rightarrow> bool" where
  "starts_operation Sync_Request = True"
| "starts_operation Sync_Recover = True"
| "starts_operation _ = False"

fun ends_operation :: "sync_command \<Rightarrow> bool" where
  "ends_operation (Sync_Event e) = (sev_kind e \<in> {SYNC_EV_COMPLETED, SYNC_EV_FAILED, SYNC_EV_CANCELLED})"
| "ends_operation _ = False"

record 'w sync_run =
  sr_coordinator :: "'w sync_coordinator"
  sr_world :: 'w
  sr_started :: nat
  sr_ended :: nat

definition sync_step :: "'w sync_run \<Rightarrow> sync_command \<Rightarrow> 'w sync_run" where
  "sync_step r cmd =
     (case sync_call cmd (sr_coordinator r) (sr_world r) of
        (status, c, w) \<Rightarrow>
          \<lparr>sr_coordinator = the c, sr_world = w,
           sr_started = sr_started r + (if status = SYNC_OK \<and> starts_operation cmd then 1 else 0),
           sr_ended = sr_ended r + (if status = SYNC_OK \<and> ends_operation cmd then 1 else 0)\<rparr>)"

definition sync_fresh :: "'w sync_run \<Rightarrow> bool" where
  "sync_fresh r \<longleftrightarrow> (\<exists>c cfg p. sync_coordinator_init c cfg p = (SYNC_OK, Some (sr_coordinator r)))
     \<and> sr_started r = 0 \<and> sr_ended r = 0"

definition sync_inv :: "'w sync_run \<Rightarrow> bool" where
  "sync_inv r \<longleftrightarrow>
     cfg_request (sc_config (sr_coordinator r)) \<noteq> None
     \<and> cfg_cancel (sc_config (sr_coordinator r)) \<noteq> None
     \<and> sr_started r = sr_ended r
         + (if sync_is_active (ss_state (sc_snapshot (sr_coordinator r))) then 1 else 0)"

lemma sync_fresh_inv: "sync_fresh r \<Longrightarrow> sync_inv r"
  by (auto simp: sync_fresh_def sync_coordinator_init_def sync_inv_def sync_snapshot_zero_def
      sync_is_active_def split: option.splits if_splits dest!: sym [of _ "sr_coordinator r"])

lemma request_operation_cases:
  "request_operation (Some c) request flag w = (status, c', w') \<Longrightarrow>
   (\<exists>c1. c' = Some c1 \<and> sc_config c1 = sc_config c
     \<and> (if status = SYNC_OK then \<not> sync_is_active (ss_state (sc_snapshot c))
          \<and> ss_state (sc_snapshot c1) = SYNC_QUEUED
        else c1 = c))"
  by (auto simp: request_operation_def Let_def split: if_splits option.splits prod.splits)

lemma sync_step_request:
  assumes "request_operation (Some (sr_coordinator r)) request flag (sr_world r) = (status, c', w')"
    and "sync_inv r"
  shows "sync_inv \<lparr>sr_coordinator = the c', sr_world = w',
    sr_started = sr_started r + (if status = SYNC_OK then 1 else 0), sr_ended = sr_ended r\<rparr>"
proof -
  from request_operation_cases [OF assms(1)] obtain c1 where c1: "c' = Some c1"
    "sc_config c1 = sc_config (sr_coordinator r)"
    "if status = SYNC_OK then \<not> sync_is_active (ss_state (sc_snapshot (sr_coordinator r)))
        \<and> ss_state (sc_snapshot c1) = SYNC_QUEUED
     else c1 = sr_coordinator r"
    by blast
  have "sync_is_active SYNC_QUEUED" by (simp add: sync_is_active_def)
  then show ?thesis using c1 assms(2) by (cases "status = SYNC_OK") (simp_all add: sync_inv_def)
qed

lemma sync_switch_active:
  "sync_switch s k = Inr s' \<Longrightarrow> sync_is_active s \<and>
    (sync_is_active s' \<longleftrightarrow> k \<notin> {SYNC_EV_COMPLETED, SYNC_EV_FAILED, SYNC_EV_CANCELLED})"
  by (auto simp: sync_switch_def sync_is_active_def split: sync_event_kind.splits if_splits)

lemma sync_switch_error: "sync_switch s k = Inl st \<Longrightarrow> st \<noteq> SYNC_OK"
  by (auto simp: sync_switch_def split: sync_event_kind.splits if_splits)

lemma sync_step_inv: "sync_inv r \<Longrightarrow> sync_inv (sync_step r cmd)"
proof (cases cmd)
  case Sync_Request
  assume "sync_inv r"
  then show ?thesis
    using sync_step_request [of r "cfg_request (sc_config (sr_coordinator r))" False]
    by (auto simp: Sync_Request sync_step_def sync_coordinator_request_def split: prod.splits)
next
  case Sync_Recover
  assume "sync_inv r"
  then show ?thesis
    using sync_step_request [of r "cfg_recover_session (sc_config (sr_coordinator r))" True]
    by (auto simp: Sync_Recover sync_step_def sync_coordinator_recover_session_def split: prod.splits)
next
  case Sync_Cancel
  assume "sync_inv r"
  then show ?thesis
    by (auto simp: Sync_Cancel sync_step_def sync_coordinator_cancel_def sync_inv_def Let_def
        sync_is_active_def split: prod.splits if_splits)
next
  case (Sync_Event e)
  assume "sync_inv r"
  then show ?thesis
    using sync_switch_active [of "ss_state (sc_snapshot (sr_coordinator r))" "sev_kind e"]
      sync_switch_error [of "ss_state (sc_snapshot (sr_coordinator r))" "sev_kind e"]
    by (auto simp: Sync_Event sync_step_def sync_coordinator_handle_event_def sync_inv_def Let_def
        split: prod.splits if_splits sum.splits)
next
  case (Sync_Set_Policy p)
  assume "sync_inv r"
  then show ?thesis
    by (simp add: Sync_Set_Policy sync_step_def sync_coordinator_set_policy_def sync_inv_def)
qed

interpretation sync: event_machine sync_step sync_fresh sync_inv
  by unfold_locales (fact sync_fresh_inv, fact sync_step_inv)

text \<open>
  At most one operation is in flight: after any sequence of calls on an initialised
  coordinator, the operations the transport accepted exceed the accepted terminal events by
  one exactly while the state is queued, running or cancelling, and agree otherwise.
\<close>

lemma sync_single_operation:
  assumes "sync_fresh r"
  shows "sr_started (foldl sync_step r cmds) = sr_ended (foldl sync_step r cmds)
    + (if sync_is_active (ss_state (sc_snapshot (sr_coordinator (foldl sync_step r cmds)))) then 1 else 0)"
  using sync.run_inv [OF assms, of cmds] by (simp add: sync_inv_def)

definition sample_config :: "nat sync_config" where
  "sample_config = \<lparr>cfg_request = Some (\<lambda>w. (SYNC_OK, w + 1)), cfg_recover_session = None,
     cfg_cancel = Some (\<lambda>w. (SYNC_OK, w)), cfg_observer = None\<rparr>"

definition sample_run :: "nat sync_run" where
  "sample_run = \<lparr>sr_coordinator = \<lparr>sc_policy = \<lparr>spol_auto_sync_on_attach = True\<rparr>,
     sc_snapshot = sync_snapshot_zero, sc_config = sample_config\<rparr>,
     sr_world = 0, sr_started = 0, sr_ended = 0\<rparr>"

lemma sample_run_fresh: "sync_fresh sample_run"
proof -
  have "sync_coordinator_init (Some (sr_coordinator sample_run)) (Some sample_config)
      (Some \<lparr>spol_auto_sync_on_attach = True\<rparr>) = (SYNC_OK, Some (sr_coordinator sample_run))"
    by (simp add: sync_coordinator_init_def sample_run_def sample_config_def sync_snapshot_zero_def)
  then show ?thesis unfolding sync_fresh_def by (auto simp: sample_run_def)
qed

theorem sync_single_operation_witness:
  "sr_started (foldl sync_step sample_run [Sync_Request, Sync_Request, Sync_Cancel]) = 1
   \<and> sr_ended (foldl sync_step sample_run [Sync_Request, Sync_Request, Sync_Cancel]) = 0"
proof -
  let ?r = "foldl sync_step sample_run [Sync_Request, Sync_Request, Sync_Cancel]"
  have "sync_is_active (ss_state (sc_snapshot (sr_coordinator ?r)))" "sr_ended ?r = 0"
    by (simp_all add: sample_run_def sample_config_def sync_step_def sync_coordinator_request_def
        request_operation_def sync_coordinator_cancel_def sync_is_active_def sync_snapshot_zero_def
        sync_publish_def Let_def)
  with sync_single_operation [OF sample_run_fresh, of "[Sync_Request, Sync_Request, Sync_Cancel]"]
  show ?thesis by simp
qed

section \<open>Cancelling\<close>

lemma cancelling_switch:
  "sync_switch SYNC_CANCELLING k = Inr s' \<Longrightarrow>
   s' \<in> {SYNC_CANCELLING, SYNC_FAILED, SYNC_CANCELLED}"
  by (auto simp: sync_switch_def split: sync_event_kind.splits if_splits)

lemma stopped_switch:
  "s \<in> {SYNC_FAILED, SYNC_CANCELLED} \<Longrightarrow> sync_switch s k = Inr s' \<Longrightarrow> False"
  by (auto simp: sync_switch_def sync_is_active_def split: sync_event_kind.splits if_splits)

fun sync_events :: "sync_event list \<Rightarrow> 'w sync_coordinator option \<Rightarrow> 'w \<Rightarrow> 'w sync_coordinator option \<times> 'w" where
  "sync_events [] c w = (c, w)"
| "sync_events (e # es) c w =
     (case sync_coordinator_handle_event c (Some e) w of (status, c', w') \<Rightarrow> sync_events es c' w')"

lemma sync_events_cancelled:
  fixes c :: "'w sync_coordinator"
  shows
  "ss_state (sc_snapshot c) \<in> {SYNC_CANCELLING, SYNC_FAILED, SYNC_CANCELLED} \<Longrightarrow>
   \<exists>c'. fst (sync_events es (Some c) w) = Some c'
     \<and> ss_state (sc_snapshot c') \<in> {SYNC_CANCELLING, SYNC_FAILED, SYNC_CANCELLED}"
proof (induction es arbitrary: c w)
  case Nil
  then show ?case by simp
next
  case (Cons e es)
  show ?case
  proof (cases "sync_switch (ss_state (sc_snapshot c)) (sev_kind e)")
    case (Inl st)
    then show ?thesis using Cons.IH [OF Cons.prems]
      by (simp add: sync_coordinator_handle_event_def)
  next
    case (Inr s')
    then have "s' \<in> {SYNC_CANCELLING, SYNC_FAILED, SYNC_CANCELLED}"
      using Cons.prems cancelling_switch [of "sev_kind e" s'] stopped_switch [OF _ Inr] by auto
    then show ?thesis using Inr
      unfolding sync_events.simps sync_coordinator_handle_event_def Let_def
      by (simp only: option.case prod.case sum.case) (rule Cons.IH, simp)
  qed
qed

text \<open>
  C10. An accepted cancellation is final: whatever the transport reports afterwards, the
  operation ends as cancelled or failed and is never reported as running or completed.
\<close>

theorem sync_cancel_final:
  assumes "sync_coordinator_cancel (Some c) w = (SYNC_OK, c', w')"
  shows "\<exists>c''. fst (sync_events es c' w') = Some c''
    \<and> ss_state (sc_snapshot c'') \<in> {SYNC_CANCELLING, SYNC_FAILED, SYNC_CANCELLED}"
proof -
  from assms obtain c1 where "c' = Some c1" "ss_state (sc_snapshot c1) = SYNC_CANCELLING"
    by (auto simp: sync_coordinator_cancel_def Let_def split: if_splits prod.splits)
  then show ?thesis using sync_events_cancelled [of c1 es w'] by simp
qed

definition sample_sync_event :: sync_event where
  "sample_sync_event = \<lparr>sev_kind = SYNC_EV_COMPLETED, sev_candidates = 3, sev_downloaded = 1,
     sev_skipped = 0, sev_downloaded_bytes = 9, sev_pending = 2, sev_close_recovery_attempt = False,
     sev_data_phase_completed = True, sev_session_close_sent = True,
     sev_session_close_acknowledged = True, sev_platform_error = 0\<rparr>"

theorem sync_cancel_final_witness:
  "\<exists>c'' :: nat sync_coordinator. ss_state (sc_snapshot c'') \<in> {SYNC_CANCELLING, SYNC_FAILED, SYNC_CANCELLED}
    \<and> fst (sync_events [sample_sync_event]
        (Some ((sr_coordinator sample_run)\<lparr>sc_snapshot := sync_snapshot_zero\<lparr>ss_state := SYNC_CANCELLING\<rparr>\<rparr>))
        0) = Some c''"
proof -
  have "sync_coordinator_cancel
      (Some ((sr_coordinator sample_run)\<lparr>sc_snapshot := sync_snapshot_zero\<lparr>ss_state := SYNC_RUNNING\<rparr>\<rparr>)) 0
    = (SYNC_OK, Some ((sr_coordinator sample_run)\<lparr>sc_snapshot :=
        sync_snapshot_zero\<lparr>ss_state := SYNC_CANCELLING\<rparr>\<rparr>), 0)"
    by (simp add: sync_coordinator_cancel_def sample_run_def sample_config_def sync_publish_def)
  from sync_cancel_final [OF this] show ?thesis by blast
qed

end
