(* ===== verification/Application.thy ===== *)
theory Application
  imports Device_Service Sync_Coordinator Accessport_Parse
begin

text \<open>
  The application (revlink_application/revlink_application.c): the device service, the safety
  policy and the sync coordinator put together, with the automatic sync on attach, its one
  retry, the one recovery of an unclean close and the lock after a device conflict.

  The application registers itself as the observer of its device service. The service's world
  is therefore the rest of the application (\<open>app_core\<close>) together with the outside world.
\<close>

section \<open>State\<close>

record 'w app_core =
  ac_safety_policy :: safety_policy
  ac_sync :: "'w sync_coordinator"
  ac_state_observer :: "(device_snapshot \<Rightarrow> 'w \<Rightarrow> 'w) option"
  ac_previous_device_state :: device_state
  ac_auto_sync_attempted :: bool
  ac_preserve_attachment :: bool
  ac_retry_unclean_close_once :: bool
  ac_unclean_close_recovery_attempted :: bool
  ac_auto_sync_disarmed_by_conflict :: bool
  ac_auto_sync_active :: bool
  ac_auto_sync_retry_eligible :: bool
  ac_auto_sync_retry_count :: u8

record 'w application =
  app_device :: "('w app_core \<times> 'w) device_service"
  app_core :: "'w app_core"

record 'w app_config =
  acfg_allow_device_writes :: bool
  acfg_allow_device_deletes :: bool
  acfg_state_observer :: "(device_snapshot \<Rightarrow> 'w \<Rightarrow> 'w) option"
  acfg_sync_policy :: sync_policy
  acfg_sync_request :: "'w transport_call option"
  acfg_sync_recover_session :: "'w transport_call option"
  acfg_sync_cancel :: "'w transport_call option"
  acfg_sync_observer :: "(sync_snapshot \<Rightarrow> 'w \<Rightarrow> 'w) option"
  acfg_retry_unclean_close_once :: bool

abbreviation (input) AUTO_SYNC_RETRY_LIMIT :: u8 where "AUTO_SYNC_RETRY_LIMIT \<equiv> 1"

section \<open>Reacting to the device\<close>

definition request_automatic_sync :: "'w app_core \<Rightarrow> bool \<Rightarrow> 'w \<Rightarrow> sync_status \<times> 'w app_core \<times> 'w" where
  "request_automatic_sync a retry w =
     (let a1 = (if retry then a\<lparr>ac_auto_sync_retry_count := ac_auto_sync_retry_count a + 1\<rparr> else a);
          a2 = a1\<lparr>ac_auto_sync_retry_eligible := False\<rparr>
      in case sync_coordinator_request (Some (ac_sync a2)) w of
        (status, c, w') \<Rightarrow>
          let a3 = a2\<lparr>ac_sync := the c\<rparr> in
          (status,
           if status = SYNC_OK
           then a3\<lparr>ac_auto_sync_attempted := True, ac_auto_sync_active := True,
                   ac_unclean_close_recovery_attempted := False\<rparr>
           else if \<not> retry then a3\<lparr>ac_auto_sync_retry_eligible := True\<rparr>
           else a3,
           w'))"

definition reset_automatic_sync :: "'w app_core \<Rightarrow> 'w app_core" where
  "reset_automatic_sync a = a\<lparr>ac_auto_sync_attempted := False, ac_auto_sync_active := False,
     ac_auto_sync_retry_eligible := False, ac_auto_sync_retry_count := 0\<rparr>"

definition handle_device_snapshot :: "device_snapshot \<Rightarrow> 'w app_core \<times> 'w \<Rightarrow> 'w app_core \<times> 'w" where
  "handle_device_snapshot snapshot st =
     (case st of (a, w) \<Rightarrow>
        let previous = ac_previous_device_state a;
            state = sn_state snapshot;
            a1 = a\<lparr>ac_previous_device_state := state\<rparr>;
            a2 = (if state = DEV_WAITING \<and> \<not> ac_preserve_attachment a1
                     \<and> \<not> ac_auto_sync_disarmed_by_conflict a1 then reset_automatic_sync a1
                  else if state = DEV_INSPECTING \<and> previous = DEV_WAITING
                     \<and> \<not> ac_preserve_attachment a1
                     \<and> \<not> ac_auto_sync_disarmed_by_conflict a1 then reset_automatic_sync a1
                  else a1);
            w1 = (case ac_state_observer a2 of None \<Rightarrow> w | Some observer \<Rightarrow> observer snapshot w);
            (a3, w2) = (if state = DEV_AVAILABLE \<and> previous = DEV_INSPECTING
                           \<and> spol_auto_sync_on_attach (sc_policy (ac_sync a2))
                           \<and> \<not> ac_auto_sync_attempted a2
                        then snd (request_automatic_sync a2 False w1)
                        else (a2, w1));
            a4 = (if state = DEV_AVAILABLE \<and> previous = DEV_INSPECTING
                  then a3\<lparr>ac_preserve_attachment := False\<rparr> else a3)
        in (a4, w2))"

section \<open>The operations\<close>

definition application_init ::
  "'w application option \<Rightarrow> 'w app_config option \<Rightarrow> core_status \<times> 'w application option" where
  "application_init application config =
     (case (application, config) of
        (Some app, Some cfg) \<Rightarrow>
          if acfg_sync_request cfg = None \<or> acfg_sync_cancel cfg = None
             \<or> (acfg_retry_unclean_close_once cfg \<and> acfg_sync_recover_session cfg = None)
          then (CORE_INVALID_ARGUMENT, application)
          else
            let policy = safety_policy_default\<lparr>
                  sp_allow_device_writes := acfg_allow_device_writes cfg,
                  sp_allow_device_deletes := acfg_allow_device_deletes cfg\<rparr>;
                sync_config = \<lparr>cfg_request = acfg_sync_request cfg,
                  cfg_recover_session = acfg_sync_recover_session cfg,
                  cfg_cancel = acfg_sync_cancel cfg, cfg_observer = acfg_sync_observer cfg\<rparr>
            in (case sync_coordinator_init (Some (ac_sync (app_core app))) (Some sync_config)
                       (Some (acfg_sync_policy cfg)) of
              (status, c) \<Rightarrow>
                let core = \<lparr>ac_safety_policy = policy, ac_sync = the c,
                      ac_state_observer = acfg_state_observer cfg,
                      ac_previous_device_state = DEV_STOPPED,
                      ac_auto_sync_attempted = False, ac_preserve_attachment = False,
                      ac_retry_unclean_close_once = acfg_retry_unclean_close_once cfg,
                      ac_unclean_close_recovery_attempted = False,
                      ac_auto_sync_disarmed_by_conflict = False, ac_auto_sync_active = False,
                      ac_auto_sync_retry_eligible = False, ac_auto_sync_retry_count = 0\<rparr>
                in if status \<noteq> SYNC_OK then (CORE_INVALID_ARGUMENT, Some (app\<lparr>app_core := core\<rparr>))
                   else (CORE_OK, Some \<lparr>app_device = the (device_service_init (Some (app_device app))
                           (Some handle_device_snapshot)), app_core = core\<rparr>))
      | _ \<Rightarrow> (CORE_INVALID_ARGUMENT, application))"

definition conflict_prologue :: "'w app_core \<Rightarrow> 'w \<Rightarrow> 'w app_core \<times> 'w" where
  "conflict_prologue a w =
     (let a1 = a\<lparr>ac_preserve_attachment := False, ac_auto_sync_attempted := True,
            ac_auto_sync_active := False, ac_auto_sync_retry_eligible := False,
            ac_auto_sync_disarmed_by_conflict := True\<rparr>;
          sync = sync_coordinator_snapshot (Some (ac_sync a1))
      in if ss_state sync = SYNC_QUEUED \<or> ss_state sync = SYNC_RUNNING
         then (case sync_coordinator_cancel (Some (ac_sync a1)) w of
                 (status, c, w') \<Rightarrow> (a1\<lparr>ac_sync := the c\<rparr>, w'))
         else (a1, w))"

definition note_reenumeration :: "device_event \<Rightarrow> 'w app_core \<Rightarrow> 'w app_core" where
  "note_reenumeration e a =
     (if ev_kind e = DEV_EV_DETACHED \<and> ev_software_reenumeration e
      then a\<lparr>ac_preserve_attachment := True\<rparr>
      else if ev_kind e = DEV_EV_ATTACHED
      then a\<lparr>ac_preserve_attachment := ev_software_reenumeration e\<rparr>
      else if ev_kind e = DEV_EV_DETACHED then a\<lparr>ac_preserve_attachment := False\<rparr>
      else a)"

definition app_handle_device_event ::
  "'w application \<Rightarrow> device_event \<Rightarrow> 'w \<Rightarrow> core_status \<times> 'w application \<times> 'w" where
  "app_handle_device_event app e w =
     (let before = device_service_snapshot (Some (app_device app)) in
      if ev_topology_revision e \<noteq> 0 \<and> ev_topology_revision e < sn_topology_revision before
      then (CORE_INVALID_TRANSITION, app, w)
      else
        let (a1, w1) = (if ev_kind e = DEV_EV_MULTIPLE_DETECTED
                        then conflict_prologue (app_core app) w else (app_core app, w));
            a2 = note_reenumeration e a1
        in case device_service_handle (Some (app_device app)) (Some e) (a2, w1) of
          (status, d, (a3, w2)) \<Rightarrow> (status, \<lparr>app_device = the d, app_core = a3\<rparr>, w2))"

definition application_handle_device_event ::
  "'w application option \<Rightarrow> device_event option \<Rightarrow> 'w \<Rightarrow> core_status \<times> 'w application option \<times> 'w" where
  "application_handle_device_event application event w =
     (case (application, event) of
        (Some app, Some e) \<Rightarrow>
          (case app_handle_device_event app e w of (status, app', w') \<Rightarrow> (status, Some app', w'))
      | _ \<Rightarrow> (CORE_INVALID_ARGUMENT, application, w))"

definition application_authorize :: "'w application option \<Rightarrow> operation \<Rightarrow> core_status" where
  "application_authorize application op =
     (case application of
        None \<Rightarrow> CORE_INVALID_ARGUMENT
      | Some app \<Rightarrow>
          if sn_state (device_service_snapshot (Some (app_device app))) = DEV_CONFLICT \<and> op \<noteq> OP_DISCOVER
          then CORE_NOT_AUTHORIZED
          else safety_policy_authorize (Some (ac_safety_policy (app_core app))) op)"

type_synonym 'w app_sync_result = "sync_status \<times> 'w application option \<times> 'w"

definition application_set_sync_policy ::
  "'w application option \<Rightarrow> sync_policy option \<Rightarrow> sync_status \<times> 'w application option" where
  "application_set_sync_policy application policy =
     (case (application, policy) of
        (Some app, Some p) \<Rightarrow>
          (case sync_coordinator_set_policy (Some (ac_sync (app_core app))) (Some p) of
             (status, c) \<Rightarrow>
               let a1 = (app_core app)\<lparr>ac_sync := the c\<rparr>;
                   a2 = (if status = SYNC_OK \<and> \<not> spol_auto_sync_on_attach p
                         then a1\<lparr>ac_auto_sync_active := False, ac_auto_sync_retry_eligible := False\<rparr>
                         else a1)
               in (status, Some (app\<lparr>app_core := a2\<rparr>)))
      | _ \<Rightarrow> (SYNC_INVALID_ARGUMENT, application))"

definition application_sync_policy :: "'w application option \<Rightarrow> sync_policy" where
  "application_sync_policy application =
     (case application of
        None \<Rightarrow> \<lparr>spol_auto_sync_on_attach = False\<rparr>
      | Some app \<Rightarrow> sync_coordinator_policy (Some (ac_sync (app_core app))))"

definition application_request_sync :: "'w application option \<Rightarrow> 'w \<Rightarrow> 'w app_sync_result" where
  "application_request_sync application w =
     (case application of
        None \<Rightarrow> (SYNC_INVALID_ARGUMENT, application, w)
      | Some app \<Rightarrow>
          if sn_state (device_service_snapshot (Some (app_device app))) \<noteq> DEV_AVAILABLE
          then (SYNC_INVALID_STATE, application, w)
          else (case sync_coordinator_request (Some (ac_sync (app_core app))) w of
            (status, c, w') \<Rightarrow>
              let a1 = (app_core app)\<lparr>ac_sync := the c\<rparr>;
                  a2 = (if status = SYNC_OK
                        then a1\<lparr>ac_auto_sync_attempted := True, ac_auto_sync_active := False,
                                ac_auto_sync_retry_eligible := False,
                                ac_auto_sync_disarmed_by_conflict := False,
                                ac_unclean_close_recovery_attempted := False\<rparr>
                        else a1)
              in (status, Some (app\<lparr>app_core := a2\<rparr>), w')))"

fun application_auto_sync_retry_needed :: "'w application option \<Rightarrow> bool" where
  "application_auto_sync_retry_needed None = False"
| "application_auto_sync_retry_needed (Some app) =
     (let a = app_core app in
      if \<not> spol_auto_sync_on_attach (sc_policy (ac_sync a))
        \<or> ac_auto_sync_disarmed_by_conflict a \<or> \<not> ac_auto_sync_retry_eligible a
        \<or> ac_auto_sync_retry_count a \<ge> AUTO_SYNC_RETRY_LIMIT
      then False
      else
        let device = device_service_snapshot (Some (app_device app));
            sync = sync_coordinator_snapshot (Some (ac_sync a))
        in sn_state device = DEV_AVAILABLE \<and> \<not> sn_conflict_recovery_required device
           \<and> \<not> sync_is_active (ss_state sync))"

definition application_retry_auto_sync :: "'w application option \<Rightarrow> 'w \<Rightarrow> 'w app_sync_result" where
  "application_retry_auto_sync application w =
     (case application of
        None \<Rightarrow> (SYNC_INVALID_ARGUMENT, application, w)
      | Some app \<Rightarrow>
          if \<not> application_auto_sync_retry_needed application then (SYNC_INVALID_STATE, application, w)
          else (case request_automatic_sync (app_core app) True w of
            (status, a, w') \<Rightarrow> (status, Some (app\<lparr>app_core := a\<rparr>), w')))"

definition application_cancel_sync :: "'w application option \<Rightarrow> 'w \<Rightarrow> 'w app_sync_result" where
  "application_cancel_sync application w =
     (case application of
        None \<Rightarrow> (SYNC_INVALID_ARGUMENT, application, w)
      | Some app \<Rightarrow>
          (case sync_coordinator_cancel (Some (ac_sync (app_core app))) w of
             (status, c, w') \<Rightarrow>
               (status, Some (app\<lparr>app_core := (app_core app)\<lparr>ac_sync := the c\<rparr>\<rparr>), w')))"

definition note_sync_outcome :: "sync_event \<Rightarrow> 'w app_core \<Rightarrow> 'w app_core" where
  "note_sync_outcome e a =
     (if sev_kind e = SYNC_EV_FAILED \<and> ac_auto_sync_active a \<and> \<not> sev_close_recovery_attempt e
         \<and> \<not> sev_data_phase_completed e \<and> sev_downloaded e = 0 \<and> sev_downloaded_bytes e = 0
         \<and> ac_auto_sync_retry_count a < AUTO_SYNC_RETRY_LIMIT
      then a\<lparr>ac_auto_sync_retry_eligible := True\<rparr>
      else if sev_kind e = SYNC_EV_COMPLETED \<or> sev_kind e = SYNC_EV_CANCELLED \<or> sev_kind e = SYNC_EV_FAILED
      then a\<lparr>ac_auto_sync_active := False, ac_auto_sync_retry_eligible := False\<rparr>
      else a)"

definition recoverable_close_failure :: "sync_event \<Rightarrow> bool" where
  "recoverable_close_failure e \<longleftrightarrow> sev_kind e = SYNC_EV_FAILED \<and> \<not> sev_close_recovery_attempt e
     \<and> sev_data_phase_completed e \<and> \<not> sev_session_close_acknowledged e"

definition app_handle_sync_event ::
  "'w application \<Rightarrow> sync_event \<Rightarrow> 'w \<Rightarrow> sync_status \<times> 'w application \<times> 'w" where
  "app_handle_sync_event app e w =
     (case sync_coordinator_handle_event (Some (ac_sync (app_core app))) (Some e) w of
        (status, c, w1) \<Rightarrow>
          let a1 = (app_core app)\<lparr>ac_sync := the c\<rparr>; app1 = app\<lparr>app_core := a1\<rparr> in
          if status \<noteq> SYNC_OK then (status, app1, w1)
          else
            let a2 = note_sync_outcome e a1; app2 = app\<lparr>app_core := a2\<rparr> in
            if \<not> ac_retry_unclean_close_once a2 \<or> \<not> recoverable_close_failure e
               \<or> ac_unclean_close_recovery_attempted a2
            then (SYNC_OK, app2, w1)
            else
              let device = device_service_snapshot (Some (app_device app2)) in
              if sn_state device \<noteq> DEV_AVAILABLE \<or> sn_conflict_recovery_required device
              then (SYNC_OK, app2, w1)
              else
                let a3 = a2\<lparr>ac_unclean_close_recovery_attempted := True\<rparr> in
                (case sync_coordinator_recover_session (Some (ac_sync a3)) w1 of
                   (status', c', w2) \<Rightarrow> (status', app\<lparr>app_core := a3\<lparr>ac_sync := the c'\<rparr>\<rparr>, w2)))"

definition application_handle_sync_event ::
  "'w application option \<Rightarrow> sync_event option \<Rightarrow> 'w \<Rightarrow> 'w app_sync_result" where
  "application_handle_sync_event application event w =
     (case (application, event) of
        (Some app, Some e) \<Rightarrow>
          (case app_handle_sync_event app e w of (status, app', w') \<Rightarrow> (status, Some app', w'))
      | _ \<Rightarrow> (SYNC_INVALID_ARGUMENT, application, w))"

definition application_sync_snapshot :: "'w application option \<Rightarrow> sync_snapshot" where
  "application_sync_snapshot application =
     (case application of
        None \<Rightarrow> sync_snapshot_zero
      | Some app \<Rightarrow> sync_coordinator_snapshot (Some (ac_sync (app_core app))))"

section \<open>The protocol self test\<close>

definition ROOT_LIST_VECTOR :: "u8 list" where
  "ROOT_LIST_VECTOR =
    [0x02, 0x00, 0x00, 0x00, 0x2b, 0x00, 0x26, 0x16, 0x00, 0x00, 0x00,
     0x73, 0x65, 0x72, 0x69, 0x61, 0x6c, 0x69, 0x7a, 0x61, 0x74, 0x69,
     0x6f, 0x6e, 0x3a, 0x3a, 0x61, 0x72, 0x63, 0x68, 0x69, 0x76, 0x65,
     0x03, 0x04, 0x04, 0x04, 0x08, 0x01, 0x00, 0x00, 0x00, 0x00, 0x00,
     0x00, 0x00, 0x39, 0xdf, 0xa4, 0x58]"

definition application_protocol_self_test :: bool where
  "application_protocol_self_test =
     (case build_list (NullSpan 0) (Span (replicate (length ROOT_LIST_VECTOR) 0)) (Some 0) of
        (status, record, record_length) \<Rightarrow>
          status = AP_OK \<and> record_length = Some (length ROOT_LIST_VECTOR)
          \<and> take (length ROOT_LIST_VECTOR) (sbytes record) = ROOT_LIST_VECTOR
          \<and> validate_record record = AP_OK
          \<and> (case parse_record record (Some \<lparr>rv_opcode = 0, rv_payload = []\<rparr>) of
               (parse_status, view) \<Rightarrow>
                 parse_status = AP_OK \<and> rv_opcode (the view) = AP_OPCODE_LIST))"

end
