(* ===== verification/Application_Safety.thy ===== *)
theory Application_Safety
  imports Application
begin

text \<open>
  What the application guarantees whatever the order of the device events, the transport's
  sync events and the user's calls: the invariant of the composed state, and on top of it who
  may modify the device, when a sync can start, and how automatic syncs are limited.
\<close>

section \<open>Sequences of calls\<close>

datatype app_command = App_Device_Event device_event | App_Set_Policy sync_policy | App_Request
  | App_Retry | App_Cancel | App_Sync_Event sync_event

fun app_step :: "'w application \<times> 'w \<Rightarrow> app_command \<Rightarrow> 'w application \<times> 'w" where
  "app_step (app, w) (App_Device_Event e) =
     (case application_handle_device_event (Some app) (Some e) w of (status, a, w') \<Rightarrow> (the a, w'))"
| "app_step (app, w) (App_Set_Policy p) =
     (case application_set_sync_policy (Some app) (Some p) of (status, a) \<Rightarrow> (the a, w))"
| "app_step (app, w) App_Request =
     (case application_request_sync (Some app) w of (status, a, w') \<Rightarrow> (the a, w'))"
| "app_step (app, w) App_Retry =
     (case application_retry_auto_sync (Some app) w of (status, a, w') \<Rightarrow> (the a, w'))"
| "app_step (app, w) App_Cancel =
     (case application_cancel_sync (Some app) w of (status, a, w') \<Rightarrow> (the a, w'))"
| "app_step (app, w) (App_Sync_Event e) =
     (case application_handle_sync_event (Some app) (Some e) w of (status, a, w') \<Rightarrow> (the a, w'))"

abbreviation app_state :: "'w application \<Rightarrow> device_state" where
  "app_state app \<equiv> sn_state (ds_snapshot (app_device app))"

abbreviation core_sync_state :: "'w app_core \<Rightarrow> sync_state" where
  "core_sync_state a \<equiv> ss_state (sc_snapshot (ac_sync a))"

definition core_syncing :: "'w app_core \<Rightarrow> bool" where
  "core_syncing a \<longleftrightarrow> sync_is_active (core_sync_state a)"

section \<open>The invariant\<close>

definition core_ok :: "safety_policy \<Rightarrow> 'w app_core \<Rightarrow> bool" where
  "core_ok p a \<longleftrightarrow> ac_safety_policy a = p \<and> ac_auto_sync_retry_count a \<le> AUTO_SYNC_RETRY_LIMIT
     \<and> (ac_auto_sync_disarmed_by_conflict a \<longrightarrow>
          ac_auto_sync_attempted a \<and> \<not> ac_auto_sync_active a \<and> \<not> ac_auto_sync_retry_eligible a)"

definition app_inv :: "safety_policy \<Rightarrow> 'w application \<times> 'w \<Rightarrow> bool" where
  "app_inv p = (\<lambda>(app, w).
     ds_observer (app_device app) = Some handle_device_snapshot
     \<and> device_inv (ds_snapshot (app_device app))
     \<and> ac_previous_device_state (app_core app) = app_state app
     \<and> core_ok p (app_core app)
     \<and> (app_state app = DEV_CONFLICT \<longrightarrow> ac_auto_sync_disarmed_by_conflict (app_core app)))"

definition app_fresh :: "safety_policy \<Rightarrow> 'w application \<times> 'w \<Rightarrow> bool" where
  "app_fresh p = (\<lambda>(app, w). \<exists>app0 cfg.
     application_init (Some app0) (Some cfg) = (CORE_OK, Some app)
     \<and> p = \<lparr>sp_allow_device_writes = acfg_allow_device_writes cfg,
            sp_allow_device_deletes = acfg_allow_device_deletes cfg\<rparr>)"

lemma app_fresh_inv:
  fixes x :: "'w application \<times> 'w"
  assumes "app_fresh p x"
  shows "app_inv p x"
proof -
  obtain app w where x: "x = (app, w)" by (cases x)
  have "device_inv (snapshot_zero\<lparr>sn_state := DEV_STOPPED\<rparr>)"
    by (simp add: device_inv_def snapshot_zero_def)
  then show ?thesis
    using assms unfolding x app_fresh_def app_inv_def application_init_def
    by (auto simp: Let_def core_ok_def safety_policy_default_def split: if_splits prod.splits)
qed

subsection \<open>Requests to the coordinator\<close>

lemma coordinator_request_cases:
  assumes "sync_coordinator_request (Some c) w = (status, c', w')"
  shows "\<exists>c1. c' = Some c1 \<and> (if status = SYNC_OK then ss_state (sc_snapshot c1) = SYNC_QUEUED
      else c1 = c)"
  using request_operation_cases [of c "cfg_request (sc_config c)" False w status c' w'] assms
  by (auto simp: sync_coordinator_request_def split: if_splits)

lemma coordinator_recover_cases:
  assumes "sync_coordinator_recover_session (Some c) w = (status, c', w')"
  shows "\<exists>c1. c' = Some c1 \<and> (status \<noteq> SYNC_OK \<longrightarrow> c1 = c)"
  using request_operation_cases [of c "cfg_recover_session (sc_config c)" True w status c' w'] assms
  by (auto simp: sync_coordinator_recover_session_def split: if_splits)

lemma coordinator_cancel_cases:
  assumes "sync_coordinator_cancel (Some c) w = (status, c', w')"
  shows "\<exists>c1. c' = Some c1 \<and> (sync_is_active (ss_state (sc_snapshot c1)) \<longrightarrow>
      sync_is_active (ss_state (sc_snapshot c)))"
  using assms by (auto simp: sync_coordinator_cancel_def Let_def sync_is_active_def
      split: if_splits prod.splits)

lemma coordinator_event_cases:
  assumes "sync_coordinator_handle_event (Some c) (Some e) w = (status, c', w')"
  shows "\<exists>c1. c' = Some c1
    \<and> (sync_is_active (ss_state (sc_snapshot c1)) \<longrightarrow> sync_is_active (ss_state (sc_snapshot c)))
    \<and> (status = SYNC_OK \<longrightarrow> sync_is_active (ss_state (sc_snapshot c)))"
  using assms sync_switch_active [of "ss_state (sc_snapshot c)" "sev_kind e"]
    sync_switch_error [of "ss_state (sc_snapshot c)" "sev_kind e"]
  by (auto simp: sync_coordinator_handle_event_def Let_def split: sum.splits)

lemma request_automatic_sync_ok:
  assumes "request_automatic_sync a retry w = (status, a', w')"
    and "core_ok p a" and "\<not> ac_auto_sync_disarmed_by_conflict a"
    and "retry \<Longrightarrow> ac_auto_sync_retry_count a < AUTO_SYNC_RETRY_LIMIT"
  shows "core_ok p a' \<and> ac_previous_device_state a' = ac_previous_device_state a
    \<and> \<not> ac_auto_sync_disarmed_by_conflict a'
    \<and> (retry \<longrightarrow> ac_auto_sync_retry_count a' = ac_auto_sync_retry_count a + 1)
    \<and> ac_preserve_attachment a' = ac_preserve_attachment a"
proof -
  have c: "ac_auto_sync_retry_count a + 1 \<le> 1" if retry
  proof -
    have "ac_auto_sync_retry_count a = 0" using assms(4) that by (simp add: word_less_nat_alt unat_eq_zero)
    then show ?thesis by simp
  qed
  show ?thesis using assms(1-3) c
    by (auto simp: request_automatic_sync_def Let_def core_ok_def split: prod.splits if_splits)
qed

subsection \<open>Device events\<close>

lemma reset_automatic_sync_ok:
  "core_ok p a \<Longrightarrow> \<not> ac_auto_sync_disarmed_by_conflict a \<Longrightarrow> core_ok p (reset_automatic_sync a)"
  by (simp add: core_ok_def reset_automatic_sync_def)

lemma handle_device_snapshot_ok:
  assumes h: "handle_device_snapshot s (a, w) = (a', w')" and ok: "core_ok p a"
  shows "core_ok p a' \<and> ac_previous_device_state a' = sn_state s
    \<and> ac_auto_sync_disarmed_by_conflict a' = ac_auto_sync_disarmed_by_conflict a
    \<and> (core_syncing a' \<longrightarrow> core_syncing a
        \<or> sn_state s = DEV_AVAILABLE \<and> \<not> ac_auto_sync_disarmed_by_conflict a)"
proof -
  let ?a1 = "a\<lparr>ac_previous_device_state := sn_state s\<rparr>"
  let ?reset = "(sn_state s = DEV_WAITING \<or>
      sn_state s = DEV_INSPECTING \<and> ac_previous_device_state a = DEV_WAITING)
    \<and> \<not> ac_preserve_attachment a \<and> \<not> ac_auto_sync_disarmed_by_conflict a"
  define a2 where "a2 = (if ?reset then reset_automatic_sync ?a1 else ?a1)"
  define w1 where "w1 = (case ac_state_observer a of None \<Rightarrow> w | Some observer \<Rightarrow> observer s w)"
  let ?edge = "sn_state s = DEV_AVAILABLE \<and> ac_previous_device_state a = DEV_INSPECTING"
  let ?auto = "?edge \<and> spol_auto_sync_on_attach (sc_policy (ac_sync a2)) \<and> \<not> ac_auto_sync_attempted a2"
  obtain st b wb where r: "request_automatic_sync a2 False w1 = (st, b, wb)" using prod_cases3 by blast
  have res: "(a', w') = ((if ?edge then (if ?auto then b else a2)\<lparr>ac_preserve_attachment := False\<rparr>
      else if ?auto then b else a2), if ?auto then wb else w1)"
    using h r unfolding handle_device_snapshot_def a2_def w1_def Let_def
    by (auto simp: reset_automatic_sync_def split: if_splits)
  have ok2: "core_ok p a2" using ok reset_automatic_sync_ok [of p ?a1]
    by (auto simp: a2_def core_ok_def)
  have a2: "ac_previous_device_state a2 = sn_state s"
    "ac_auto_sync_disarmed_by_conflict a2 = ac_auto_sync_disarmed_by_conflict a"
    "core_syncing a2 = core_syncing a"
    by (auto simp: a2_def reset_automatic_sync_def core_syncing_def)
  have undisarmed: "\<not> ac_auto_sync_disarmed_by_conflict a" if ?auto
    using that ok2 a2(2) by (auto simp: core_ok_def)
  show ?thesis
  proof (cases ?auto)
    case True
    have "core_ok p b \<and> ac_previous_device_state b = sn_state s \<and> \<not> ac_auto_sync_disarmed_by_conflict b"
      using request_automatic_sync_ok [OF r ok2] undisarmed [OF True] a2 by simp
    then show ?thesis using res True undisarmed [OF True]
      by (auto simp: core_ok_def core_syncing_def)
  next
    case False
    then have "a' = (if ?edge then a2\<lparr>ac_preserve_attachment := False\<rparr> else a2)" using res by auto
    then show ?thesis using ok2 a2 by (auto simp: core_ok_def core_syncing_def)
  qed
qed

lemma conflict_prologue_ok:
  assumes "conflict_prologue a w = (a', w')" and "core_ok p a"
  shows "core_ok p a' \<and> ac_previous_device_state a' = ac_previous_device_state a
    \<and> ac_auto_sync_disarmed_by_conflict a' \<and> (core_syncing a' \<longrightarrow> core_syncing a)"
proof -
  obtain st c w2 where c: "sync_coordinator_cancel (Some (ac_sync a)) w = (st, c, w2)"
    using prod_cases3 by blast
  from coordinator_cancel_cases [OF c] obtain c1 where "c = Some c1"
    "sync_is_active (ss_state (sc_snapshot c1)) \<longrightarrow> sync_is_active (core_sync_state a)"
    by blast
  then show ?thesis using assms c
    by (auto simp: conflict_prologue_def Let_def core_ok_def core_syncing_def split: if_splits)
qed

lemma note_reenumeration_ok:
  "core_ok p a \<Longrightarrow> core_ok p (note_reenumeration e a)
    \<and> ac_previous_device_state (note_reenumeration e a) = ac_previous_device_state a
    \<and> ac_auto_sync_disarmed_by_conflict (note_reenumeration e a) = ac_auto_sync_disarmed_by_conflict a
    \<and> core_syncing (note_reenumeration e a) = core_syncing a"
  by (simp add: note_reenumeration_def core_ok_def core_syncing_def)

lemma device_handle_conflict:
  assumes "device_handle s e = (status, s')" and "sn_state s' = DEV_CONFLICT"
  shows "sn_state s = DEV_CONFLICT \<or> ev_kind e = DEV_EV_MULTIPLE_DETECTED"
  using assms by (cases "ev_kind e")
    (auto simp: device_handle_def device_switch_def Let_def split: if_splits)

lemma app_device_event_ok:
  assumes inv: "app_inv p (app, w)" and h: "app_handle_device_event app e w = (status, app', w')"
  shows "app_inv p (app', w')"
    and "core_syncing (app_core app') \<Longrightarrow> core_syncing (app_core app)
      \<or> app_state app' = DEV_AVAILABLE \<and> \<not> ac_auto_sync_disarmed_by_conflict (app_core app)"
    and "ac_auto_sync_disarmed_by_conflict (app_core app) \<Longrightarrow>
      ac_auto_sync_disarmed_by_conflict (app_core app')"
proof -
  let ?s = "ds_snapshot (app_device app)"
  from inv have obs: "ds_observer (app_device app) = Some handle_device_snapshot"
    and dev: "device_inv ?s" and prev: "ac_previous_device_state (app_core app) = sn_state ?s"
    and ok: "core_ok p (app_core app)"
    and conf: "sn_state ?s = DEV_CONFLICT \<longrightarrow> ac_auto_sync_disarmed_by_conflict (app_core app)"
    by (simp_all add: app_inv_def)
  have all: "app_inv p (app', w')
    \<and> (core_syncing (app_core app') \<longrightarrow> core_syncing (app_core app)
      \<or> app_state app' = DEV_AVAILABLE \<and> \<not> ac_auto_sync_disarmed_by_conflict (app_core app))
    \<and> (ac_auto_sync_disarmed_by_conflict (app_core app) \<longrightarrow>
      ac_auto_sync_disarmed_by_conflict (app_core app'))"
  proof (cases "ev_topology_revision e \<noteq> 0 \<and> ev_topology_revision e < sn_topology_revision ?s")
    case True
    then have "app' = app" "w' = w"
      using h by (auto simp: app_handle_device_event_def device_service_snapshot_def Let_def)
    then show ?thesis using inv by simp
  next
    case False
    obtain a1 w1 where a1: "(if ev_kind e = DEV_EV_MULTIPLE_DETECTED
        then conflict_prologue (app_core app) w else (app_core app, w)) = (a1, w1)" by fastforce
    define a2 where "a2 = note_reenumeration e a1"
    obtain st s' where dh: "device_handle ?s e = (st, s')" by fastforce
    obtain a3 w2 where a3: "handle_device_snapshot s' (a2, w1) = (a3, w2)" by fastforce
    have core1: "core_ok p a1" "ac_previous_device_state a1 = sn_state ?s"
      "core_syncing a1 \<longrightarrow> core_syncing (app_core app)"
      "ac_auto_sync_disarmed_by_conflict a1 \<longleftrightarrow>
        ac_auto_sync_disarmed_by_conflict (app_core app) \<or> ev_kind e = DEV_EV_MULTIPLE_DETECTED"
      using a1 ok prev conflict_prologue_ok [of "app_core app" w a1 w1 p] by (auto split: if_splits)
    have core2: "core_ok p a2" "ac_previous_device_state a2 = sn_state ?s"
      "core_syncing a2 \<longrightarrow> core_syncing (app_core app)"
      "ac_auto_sync_disarmed_by_conflict a2 \<longleftrightarrow>
        ac_auto_sync_disarmed_by_conflict (app_core app) \<or> ev_kind e = DEV_EV_MULTIPLE_DETECTED"
      using note_reenumeration_ok [OF core1(1), of e] core1 by (simp_all add: a2_def)
    have res: "(status, app', w') = (st,
        \<lparr>app_device = (app_device app)\<lparr>ds_snapshot := s'\<rparr>, app_core = if st = CORE_OK then a3 else a2\<rparr>,
        if st = CORE_OK then w2 else w1)"
      using h a1 dh a3 obs False
      by (auto simp: app_handle_device_event_def device_service_snapshot_def Let_def a2_def
          device_service_handle_def publish_snapshot_def)
    have dev': "device_inv s'" using device_handle_inv [OF dev, of e] dh by simp
    have s': "st \<noteq> CORE_OK \<longrightarrow> s' = ?s" using device_handle_outcome [OF dh] by blast
    note core3 = handle_device_snapshot_ok [OF a3 core2(1)]
    show ?thesis
    proof (cases "st = CORE_OK")
      case True
      then show ?thesis
        using res core2 core3 dev' obs conf device_handle_conflict [OF dh]
        by (auto simp: app_inv_def)
    next
      case False
      then show ?thesis using res core2 s' dev obs conf by (auto simp: app_inv_def)
    qed
  qed
  then show "app_inv p (app', w')"
    and "core_syncing (app_core app') \<Longrightarrow> core_syncing (app_core app)
      \<or> app_state app' = DEV_AVAILABLE \<and> \<not> ac_auto_sync_disarmed_by_conflict (app_core app)"
    and "ac_auto_sync_disarmed_by_conflict (app_core app) \<Longrightarrow>
      ac_auto_sync_disarmed_by_conflict (app_core app')" by blast+
qed

subsection \<open>The other calls\<close>

lemma note_sync_outcome_ok:
  "core_ok p a \<Longrightarrow> core_ok p (note_sync_outcome e a)
    \<and> ac_previous_device_state (note_sync_outcome e a) = ac_previous_device_state a
    \<and> ac_auto_sync_disarmed_by_conflict (note_sync_outcome e a) = ac_auto_sync_disarmed_by_conflict a
    \<and> ac_auto_sync_retry_count (note_sync_outcome e a) = ac_auto_sync_retry_count a
    \<and> ac_sync (note_sync_outcome e a) = ac_sync a"
  by (auto simp: note_sync_outcome_def core_ok_def)

lemma app_sync_event_ok:
  assumes ok: "core_ok p (app_core app)" and h: "app_handle_sync_event app e w = (status, app', w')"
  shows "app_device app' = app_device app \<and> core_ok p (app_core app')
    \<and> ac_previous_device_state (app_core app') = ac_previous_device_state (app_core app)
    \<and> ac_auto_sync_disarmed_by_conflict (app_core app') = ac_auto_sync_disarmed_by_conflict (app_core app)
    \<and> ac_auto_sync_retry_count (app_core app') = ac_auto_sync_retry_count (app_core app)
    \<and> (core_syncing (app_core app') \<longrightarrow> core_syncing (app_core app))"
proof -
  obtain st c w1 where c: "sync_coordinator_handle_event (Some (ac_sync (app_core app))) (Some e) w
      = (st, c, w1)" using prod_cases3 by blast
  from coordinator_event_cases [OF c] obtain c1 where c1: "c = Some c1"
    "sync_is_active (ss_state (sc_snapshot c1)) \<longrightarrow> core_syncing (app_core app)"
    "st = SYNC_OK \<longrightarrow> core_syncing (app_core app)"
    by (auto simp: core_syncing_def)
  define a2 where "a2 = note_sync_outcome e ((app_core app)\<lparr>ac_sync := c1\<rparr>)"
  have ok1: "core_ok p ((app_core app)\<lparr>ac_sync := c1\<rparr>)" using ok by (simp add: core_ok_def)
  note a2 = note_sync_outcome_ok [OF ok1, of e, folded a2_def]
  obtain st2 c2 w2 where c2: "sync_coordinator_recover_session (Some (ac_sync a2)) w1 = (st2, c2, w2)"
    using prod_cases3 by blast
  show ?thesis
  proof (cases "st = SYNC_OK")
    case False
    then have "app' = app\<lparr>app_core := (app_core app)\<lparr>ac_sync := c1\<rparr>\<rparr>"
      using h c c1(1) by (simp add: app_handle_sync_event_def Let_def)
    then show ?thesis using ok1 c1(2) by (simp add: core_syncing_def)
  next
    case True
    then have "core_syncing (app_core app)" using c1(3) by simp
    moreover have "app' = app\<lparr>app_core := a2\<rparr> \<or> app' = app\<lparr>app_core :=
        a2\<lparr>ac_unclean_close_recovery_attempted := True, ac_sync := the c2\<rparr>\<rparr>"
      using h c c1(1) c2 True
      by (auto simp: app_handle_sync_event_def Let_def a2_def [symmetric] split: if_splits)
    ultimately show ?thesis using a2 by (auto simp: core_ok_def)
  qed
qed

lemma app_request_ok:
  assumes inv: "app_inv p (app, w)"
    and h: "application_request_sync (Some app) w = (status, Some app', w')"
  shows "app_inv p (app', w')
    \<and> (core_syncing (app_core app') \<longrightarrow> core_syncing (app_core app) \<or> app_state app' = DEV_AVAILABLE)"
proof -
  obtain st c w1 where c: "sync_coordinator_request (Some (ac_sync (app_core app))) w = (st, c, w1)"
    using prod_cases3 by blast
  from coordinator_request_cases [OF c] show ?thesis
    using inv h c
    by (auto simp: application_request_sync_def device_service_snapshot_def Let_def app_inv_def
        core_ok_def core_syncing_def split: if_splits)
qed

lemma app_retry_ok:
  assumes inv: "app_inv p (app, w)"
    and h: "application_retry_auto_sync (Some app) w = (status, Some app', w')"
  shows "app_inv p (app', w')
    \<and> (ac_auto_sync_disarmed_by_conflict (app_core app) \<longrightarrow> app' = app)
    \<and> (core_syncing (app_core app') \<longrightarrow> core_syncing (app_core app) \<or> app_state app' = DEV_AVAILABLE)
    \<and> ac_auto_sync_retry_count (app_core app) \<le> ac_auto_sync_retry_count (app_core app')
    \<and> (application_auto_sync_retry_needed (Some app) \<longrightarrow> ac_auto_sync_retry_count (app_core app') = 1)"
proof (cases "application_auto_sync_retry_needed (Some app)")
  case False
  then have "app' = app" "w' = w"
    using h by (simp_all add: application_retry_auto_sync_def del: application_auto_sync_retry_needed.simps)
  then show ?thesis using inv False by simp
next
  case True
  then have n: "\<not> ac_auto_sync_disarmed_by_conflict (app_core app)" "app_state app = DEV_AVAILABLE"
    "\<not> 1 \<le> ac_auto_sync_retry_count (app_core app)"
    by (auto simp: Let_def device_service_snapshot_def split: if_splits)
  obtain st a w1 where a: "request_automatic_sync (app_core app) True w = (st, a, w1)"
    using prod_cases3 by blast
  have app': "app' = app\<lparr>app_core := a\<rparr>" "w' = w1"
    using h True a
    by (simp_all add: application_retry_auto_sync_def del: application_auto_sync_retry_needed.simps)
  have "ac_auto_sync_retry_count (app_core app) = 0"
    using n(3) by (simp add: word_le_nat_alt unat_eq_zero not_le)
  then show ?thesis
    using inv n app' request_automatic_sync_ok [OF a, of p]
    by (auto simp: app_inv_def)
qed

lemma app_cancel_ok:
  assumes inv: "app_inv p (app, w)"
    and h: "application_cancel_sync (Some app) w = (status, Some app', w')"
  shows "app_inv p (app', w') \<and> app_device app' = app_device app
    \<and> (core_syncing (app_core app') \<longrightarrow> core_syncing (app_core app))
    \<and> ac_auto_sync_disarmed_by_conflict (app_core app') = ac_auto_sync_disarmed_by_conflict (app_core app)
    \<and> ac_auto_sync_retry_count (app_core app') = ac_auto_sync_retry_count (app_core app)"
proof -
  obtain st c w1 where c: "sync_coordinator_cancel (Some (ac_sync (app_core app))) w = (st, c, w1)"
    using prod_cases3 by blast
  from coordinator_cancel_cases [OF c] show ?thesis
    using inv h c by (auto simp: application_cancel_sync_def app_inv_def core_ok_def core_syncing_def)
qed

lemma app_policy_ok:
  assumes inv: "app_inv p (app, w)"
    and h: "application_set_sync_policy (Some app) (Some q) = (status, Some app')"
  shows "app_inv p (app', w) \<and> app_device app' = app_device app
    \<and> (core_syncing (app_core app') \<longrightarrow> core_syncing (app_core app))
    \<and> ac_auto_sync_disarmed_by_conflict (app_core app') = ac_auto_sync_disarmed_by_conflict (app_core app)
    \<and> ac_auto_sync_retry_count (app_core app') = ac_auto_sync_retry_count (app_core app)"
  using inv h
  by (auto simp: application_set_sync_policy_def sync_coordinator_set_policy_def Let_def app_inv_def
      core_ok_def core_syncing_def split: if_splits)

lemma app_results_Some:
  "\<exists>a'. fst (snd (application_request_sync (Some app) w)) = Some a'"
  "\<exists>a'. fst (snd (application_retry_auto_sync (Some app) w)) = Some a'"
  "\<exists>a'. fst (snd (application_cancel_sync (Some app) w)) = Some a'"
  "\<exists>a'. snd (application_set_sync_policy (Some app) (Some q)) = Some a'"
  by (auto simp: application_request_sync_def application_retry_auto_sync_def
      application_cancel_sync_def application_set_sync_policy_def Let_def
      simp del: application_auto_sync_retry_needed.simps split: prod.splits)

section \<open>One step\<close>

lemma app_step_ok:
  assumes inv: "app_inv p (app, w)" and step: "app_step (app, w) cmd = (app', w')"
  shows "app_inv p (app', w')
    \<and> (core_syncing (app_core app') \<longrightarrow> core_syncing (app_core app) \<or> app_state app' = DEV_AVAILABLE)
    \<and> (ac_auto_sync_disarmed_by_conflict (app_core app) \<and> cmd \<noteq> App_Request \<longrightarrow>
         ac_auto_sync_disarmed_by_conflict (app_core app')
         \<and> (core_syncing (app_core app') \<longrightarrow> core_syncing (app_core app)))
    \<and> ((\<forall>e. cmd \<noteq> App_Device_Event e) \<longrightarrow>
         ac_auto_sync_retry_count (app_core app) \<le> ac_auto_sync_retry_count (app_core app'))"
proof (cases cmd)
  case (App_Device_Event e)
  obtain st a w1 where h: "app_handle_device_event app e w = (st, a, w1)" using prod_cases3 by blast
  have "a = app'" "w1 = w'" using step h by (simp_all add: App_Device_Event application_handle_device_event_def)
  then show ?thesis using app_device_event_ok [OF inv h] App_Device_Event by auto
next
  case (App_Set_Policy q)
  obtain st where h: "application_set_sync_policy (Some app) (Some q) = (st, Some app')"
    using app_results_Some(4) [of app q] step
    by (auto simp: App_Set_Policy split: prod.splits)
  have "w' = w" using step by (auto simp: App_Set_Policy split: prod.splits)
  then show ?thesis using app_policy_ok [OF inv h] App_Set_Policy by auto
next
  case App_Request
  obtain st where h: "application_request_sync (Some app) w = (st, Some app', w')"
    using app_results_Some(1) [of app w] step by (auto simp: App_Request split: prod.splits)
  have "ac_auto_sync_retry_count (app_core app') = ac_auto_sync_retry_count (app_core app)"
    using h by (auto simp: application_request_sync_def Let_def split: if_splits prod.splits)
  then show ?thesis using app_request_ok [OF inv h] App_Request by auto
next
  case App_Retry
  obtain st where h: "application_retry_auto_sync (Some app) w = (st, Some app', w')"
    using app_results_Some(2) [of app w] step
    by (auto simp: App_Retry simp del: application_auto_sync_retry_needed.simps split: prod.splits)
  show ?thesis using app_retry_ok [OF inv h] App_Retry by auto
next
  case App_Cancel
  obtain st where h: "application_cancel_sync (Some app) w = (st, Some app', w')"
    using app_results_Some(3) [of app w] step by (auto simp: App_Cancel split: prod.splits)
  then show ?thesis using app_cancel_ok [OF inv h] App_Cancel by auto
next
  case (App_Sync_Event e)
  obtain st a w1 where h: "app_handle_sync_event app e w = (st, a, w1)" using prod_cases3 by blast
  have a: "a = app'" "w1 = w'"
    using step h by (simp_all add: App_Sync_Event application_handle_sync_event_def)
  have "core_ok p (app_core app)" using inv by (simp add: app_inv_def)
  from app_sync_event_ok [OF this h] show ?thesis using inv a App_Sync_Event
    by (auto simp: app_inv_def)
qed

lemma app_step_inv: "app_inv p x \<Longrightarrow> app_inv p (app_step x cmd)"
  using app_step_ok by (metis surj_pair)

interpretation app: event_machine app_step "app_fresh p" "app_inv p" for p
  by unfold_locales (fact app_fresh_inv, fact app_step_inv)

section \<open>The guarantees\<close>

text \<open>A concrete application for the witnesses. Its transport refuses the first request.\<close>

definition flaky_config :: "nat app_config" where
  "flaky_config = \<lparr>acfg_allow_device_writes = True, acfg_allow_device_deletes = False,
     acfg_state_observer = None, acfg_sync_policy = \<lparr>spol_auto_sync_on_attach = True\<rparr>,
     acfg_sync_request = Some (\<lambda>w. (if w = 0 then SYNC_TRANSPORT_ERROR else SYNC_OK, w + 1)),
     acfg_sync_recover_session = None, acfg_sync_cancel = Some (\<lambda>w. (SYNC_OK, w)),
     acfg_sync_observer = None, acfg_retry_unclean_close_once = False\<rparr>"

definition flaky_policy :: safety_policy where
  "flaky_policy = \<lparr>sp_allow_device_writes = True, sp_allow_device_deletes = False\<rparr>"

definition flaky_core :: "nat app_core" where
  "flaky_core = \<lparr>ac_safety_policy = flaky_policy,
     ac_sync = \<lparr>sc_policy = \<lparr>spol_auto_sync_on_attach = True\<rparr>,
       sc_snapshot = sync_snapshot_zero,
       sc_config = \<lparr>cfg_request = acfg_sync_request flaky_config, cfg_recover_session = None,
         cfg_cancel = acfg_sync_cancel flaky_config, cfg_observer = None\<rparr>\<rparr>,
     ac_state_observer = None, ac_previous_device_state = DEV_STOPPED,
     ac_auto_sync_attempted = False, ac_preserve_attachment = False,
     ac_retry_unclean_close_once = False, ac_unclean_close_recovery_attempted = False,
     ac_auto_sync_disarmed_by_conflict = False, ac_auto_sync_active = False,
     ac_auto_sync_retry_eligible = False, ac_auto_sync_retry_count = 0\<rparr>"

definition flaky_app :: "nat application" where
  "flaky_app = \<lparr>app_device = \<lparr>ds_snapshot = snapshot_zero, ds_observer = Some handle_device_snapshot\<rparr>,
     app_core = flaky_core\<rparr>"

lemma flaky_fresh: "app_fresh flaky_policy (flaky_app, 0)"
proof -
  have "snapshot_zero\<lparr>sn_state := DEV_STOPPED\<rparr> = snapshot_zero"
    "sync_snapshot_zero\<lparr>ss_state := SYNC_IDLE\<rparr> = sync_snapshot_zero"
    by (simp_all add: snapshot_zero_def sync_snapshot_zero_def)
  then have "application_init (Some flaky_app) (Some flaky_config) = (CORE_OK, Some flaky_app)"
    by (simp add: application_init_def flaky_config_def sync_coordinator_init_def Let_def
        flaky_app_def flaky_core_def flaky_policy_def safety_policy_default_def)
  then show ?thesis unfolding app_fresh_def
    by (auto simp: flaky_policy_def flaky_config_def intro!: exI [of _ flaky_app] exI [of _ flaky_config])
qed

definition attach_commands :: "app_command list" where
  "attach_commands = map (\<lambda>k. App_Device_Event (sample_event k))
     [DEV_EV_MONITOR_STARTED, DEV_EV_ATTACHED, DEV_EV_ACCEPTED]"

definition conflict_commands :: "app_command list" where
  "conflict_commands = [App_Device_Event (sample_event DEV_EV_MONITOR_STARTED),
     App_Device_Event ((sample_event DEV_EV_MULTIPLE_DETECTED)\<lparr>ev_eligible_device_count := 2\<rparr>)]"

lemmas app_run_eval = application_handle_device_event_def app_handle_device_event_def
  device_service_handle_def device_handle_def device_switch_def event_has_topology_revision_def
  publish_snapshot_def device_service_snapshot_def handle_device_snapshot_def
  request_automatic_sync_def sync_coordinator_request_def request_operation_def
  note_reenumeration_def reset_automatic_sync_def conflict_prologue_def
  sync_coordinator_snapshot_def sync_coordinator_cancel_def sync_publish_def sync_is_active_def
  sample_event_def snapshot_zero_def sync_snapshot_zero_def identity_matches_def
  flaky_app_def flaky_core_def flaky_config_def

lemma attached_run:
  "\<exists>app. foldl app_step (flaky_app, 0) attach_commands = (app, 1) \<and> app_state app = DEV_AVAILABLE
     \<and> \<not> core_syncing (app_core app) \<and> application_auto_sync_retry_needed (Some app)
     \<and> core_syncing (app_core (fst (app_step (app, 1) App_Retry)))"
  by (simp add: attach_commands_def app_run_eval core_syncing_def application_retry_auto_sync_def)

lemma conflict_run:
  "\<exists>app. foldl app_step (flaky_app, 0) conflict_commands = (app, 0) \<and> app_state app = DEV_CONFLICT
     \<and> \<not> core_syncing (app_core app)"
  by (simp add: conflict_commands_def app_run_eval core_syncing_def)

subsection \<open>Who is in conflict\<close>

text \<open>
  Over a history, \<open>latched\<close> says that something was raised and not cleared since; what raises
  and clears may depend on the history before.
\<close>

definition latched :: "('a list \<Rightarrow> 'a \<Rightarrow> bool) \<Rightarrow> ('a list \<Rightarrow> 'a \<Rightarrow> bool) \<Rightarrow> 'a list \<Rightarrow> bool" where
  "latched raises clears cs \<longleftrightarrow> (\<exists>pre c post. cs = pre @ c # post \<and> raises pre c
     \<and> (\<forall>mid d rest. post = mid @ d # rest \<longrightarrow> \<not> clears (pre @ c # mid) d))"

lemma latched_Nil [simp]: "\<not> latched raises clears []"
  by (simp add: latched_def)

lemma latched_snoc:
  "latched raises clears (cs @ [x]) \<longleftrightarrow> raises cs x \<or> latched raises clears cs \<and> \<not> clears cs x"
  (is "?l \<longleftrightarrow> ?r")
proof
  assume ?l
  then obtain pre c post where l: "cs @ [x] = pre @ c # post" "raises pre c"
    "\<And>mid d rest. post = mid @ d # rest \<Longrightarrow> \<not> clears (pre @ c # mid) d"
    unfolding latched_def by blast
  show ?r
  proof (cases post rule: rev_cases)
    case Nil
    then show ?thesis using l by simp
  next
    case (snoc post' y)
    then have cs: "cs = pre @ c # post'" "y = x" using l(1) by simp_all
    have "\<not> clears cs x" using l(3) [of post' y "[]"] snoc cs by simp
    moreover have "\<not> clears (pre @ c # mid) d" if "post' = mid @ d # rest" for mid d rest
      using l(3) [of mid d "rest @ [y]"] snoc that by simp
    then have "latched raises clears cs" unfolding latched_def using l(2) cs(1) by blast
    ultimately show ?thesis by simp
  qed
next
  assume r: ?r
  show ?l
  proof (cases "raises cs x")
    case True
    then show ?thesis unfolding latched_def by (intro exI [of _ cs] exI [of _ x] exI [of _ "[]"]) simp
  next
    case False
    then obtain pre c post where l: "cs = pre @ c # post" "raises pre c" "\<not> clears cs x"
      "\<And>mid d rest. post = mid @ d # rest \<Longrightarrow> \<not> clears (pre @ c # mid) d"
      using r unfolding latched_def by blast
    have "\<not> clears (pre @ c # mid) d" if "post @ [x] = mid @ d # rest" for mid d rest
    proof (cases rest rule: rev_cases)
      case Nil
      then have "mid = post" "d = x" using that by simp_all
      then show ?thesis using l(1,3) by simp
    next
      case (snoc rest' z)
      then show ?thesis using that l(4) [of mid d rest'] by simp
    qed
    moreover have "cs @ [x] = pre @ c # (post @ [x])" using l(1) by simp
    ultimately show ?thesis unfolding latched_def using l(2) by blast
  qed
qed

text \<open>
  The history in which the application stands is the list of the calls so far. \<open>taken\<close>: the
  application takes the event after them; \<open>conflict_raised\<close> and \<open>conflict_cleared\<close> read the report of
  several devices and the departure of the last one off the calls.
\<close>

definition taken :: "'w application \<times> 'w \<Rightarrow> app_command list \<Rightarrow> device_event \<Rightarrow> bool" where
  "taken x cmds e \<longleftrightarrow>
     fst (application_handle_device_event (Some (fst (foldl app_step x cmds))) (Some e)
       (snd (foldl app_step x cmds))) = CORE_OK"

definition conflict_raised :: "'w application \<times> 'w \<Rightarrow> app_command list \<Rightarrow> app_command \<Rightarrow> bool" where
  "conflict_raised x cmds c \<longleftrightarrow>
     (\<exists>e. c = App_Device_Event e \<and> ev_kind e = DEV_EV_MULTIPLE_DETECTED \<and> taken x cmds e)"

definition conflict_cleared :: "'w application \<times> 'w \<Rightarrow> app_command list \<Rightarrow> app_command \<Rightarrow> bool" where
  "conflict_cleared x cmds c \<longleftrightarrow>
     (\<exists>e. c = App_Device_Event e \<and> ev_kind e = DEV_EV_DETACHED \<and> ev_eligible_device_count e = 0 \<and> taken x cmds e)"

definition monitor_running :: "app_command list \<Rightarrow> bool" where
  "monitor_running cmds \<longleftrightarrow>
     (\<exists>e. App_Device_Event e \<in> set cmds \<and> ev_kind e \<in> {DEV_EV_MONITOR_STARTED, DEV_EV_FAILURE})"

definition up_to_date :: "'w application \<Rightarrow> device_event \<Rightarrow> bool" where
  "up_to_date app e \<longleftrightarrow> ev_topology_revision e = 0
     \<or> sn_topology_revision (ds_snapshot (app_device app)) \<le> ev_topology_revision e"

lemma device_event_snapshot:
  assumes inv: "app_inv p (app, w)" and h: "app_handle_device_event app e w = (st, app', w')"
  shows "ds_snapshot (app_device app') = (if st = CORE_OK then snd (device_handle (ds_snapshot (app_device app)) e)
      else ds_snapshot (app_device app))
    \<and> (st = CORE_OK \<longleftrightarrow> up_to_date app e \<and> fst (device_handle (ds_snapshot (app_device app)) e) = CORE_OK)"
proof -
  let ?s = "ds_snapshot (app_device app)"
  obtain st' s' where dh: "device_handle ?s e = (st', s')" by fastforce
  have "st' \<noteq> CORE_OK \<longrightarrow> s' = ?s" using device_handle_outcome [OF dh] by blast
  then show ?thesis
    using h dh
    by (auto simp: app_handle_device_event_def device_service_snapshot_def Let_def device_service_handle_def
        up_to_date_def not_less split: if_splits prod.splits)
qed

lemma other_calls_keep_device:
  assumes "app_step (app, w) cmd = (app', w')" and "\<And>e. cmd \<noteq> App_Device_Event e"
  shows "app_device app' = app_device app"
  using assms
  by (cases cmd) (auto simp: application_set_sync_policy_def application_request_sync_def
      application_retry_auto_sync_def application_cancel_sync_def application_handle_sync_event_def
      app_handle_sync_event_def Let_def simp del: application_auto_sync_retry_needed.simps
      split: prod.splits if_splits)

lemma device_handle_conflict_exact:
  "sn_state (snd (device_handle s e)) = DEV_CONFLICT \<longleftrightarrow>
     fst (device_handle s e) = CORE_OK \<and> ev_kind e = DEV_EV_MULTIPLE_DETECTED
     \<or> sn_state s = DEV_CONFLICT
       \<and> \<not> (fst (device_handle s e) = CORE_OK \<and> ev_kind e = DEV_EV_DETACHED \<and> ev_eligible_device_count e = 0)"
  by (cases "ev_kind e") (auto simp: device_handle_def device_switch_def Let_def)

lemma device_handle_running:
  assumes "device_inv s"
  shows "sn_state (snd (device_handle s e)) = DEV_STOPPED \<longleftrightarrow>
     sn_state s = DEV_STOPPED \<and> ev_kind e \<notin> {DEV_EV_MONITOR_STARTED, DEV_EV_FAILURE}"
  using assms by (cases "ev_kind e") (auto simp: device_handle_def device_switch_def device_inv_def
      event_has_topology_revision_def Let_def)

lemma run_taken:
  assumes "app_fresh p x" and "foldl app_step x cmds = (app, w)"
  shows "taken x cmds e \<longleftrightarrow> up_to_date app e \<and> fst (device_handle (ds_snapshot (app_device app)) e) = CORE_OK"
proof -
  have inv: "app_inv p (app, w)" using app.run_inv [OF assms(1), of cmds] assms(2) by simp
  obtain st app' w' where h: "app_handle_device_event app e w = (st, app', w')" using prod_cases3 by blast
  show ?thesis using device_event_snapshot [OF inv h] assms(2)
    by (simp add: taken_def application_handle_device_event_def h)
qed

lemma run_conflict:
  assumes "app_fresh p x"
  shows "(app_state (fst (foldl app_step x cmds)) = DEV_CONFLICT \<longleftrightarrow>
      latched (conflict_raised x) (conflict_cleared x) cmds)
    \<and> (app_state (fst (foldl app_step x cmds)) = DEV_STOPPED \<longleftrightarrow> \<not> monitor_running cmds)"
proof (induction cmds rule: rev_induct)
  case Nil
  obtain app w where x: "x = (app, w)" by (cases x)
  have "app_state app = DEV_STOPPED"
    using assms by (auto simp: x app_fresh_def application_init_def Let_def split: if_splits prod.splits)
  then show ?case by (simp add: x monitor_running_def)
next
  case (snoc c cmds)
  obtain app w where run: "foldl app_step x cmds = (app, w)" by (cases "foldl app_step x cmds")
  obtain app' w' where step: "app_step (app, w) c = (app', w')" by fastforce
  have inv: "app_inv p (app, w)" using app.run_inv [OF assms, of cmds] run by simp
  show ?case
  proof (cases "\<exists>e. c = App_Device_Event e")
    case False
    then have "app_device app' = app_device app" using other_calls_keep_device [OF step] by blast
    moreover have "\<not> conflict_raised x cmds c" "\<not> conflict_cleared x cmds c"
      using False by (auto simp: conflict_raised_def conflict_cleared_def)
    moreover have "monitor_running (cmds @ [c]) = monitor_running cmds"
      using False by (auto simp: monitor_running_def)
    ultimately show ?thesis using snoc run step by (simp add: latched_snoc)
  next
    case True
    then obtain e where c: "c = App_Device_Event e" by blast
    let ?s = "ds_snapshot (app_device app)"
    obtain st a v where h: "app_handle_device_event app e w = (st, a, v)" using prod_cases3 by blast
    have a: "a = app'" using step h by (simp add: c application_handle_device_event_def)
    note snap = device_event_snapshot [OF inv h, unfolded a]
    have taken: "taken x cmds e \<longleftrightarrow> st = CORE_OK" using run_taken [OF assms run] snap by blast
    have dev: "device_inv ?s" using inv by (simp add: app_inv_def)
    have "up_to_date app e" if "app_state app = DEV_STOPPED"
      using dev that by (simp add: up_to_date_def device_inv_def)
    then have stopped: "app_state app' = DEV_STOPPED \<longleftrightarrow>
        app_state app = DEV_STOPPED \<and> ev_kind e \<notin> {DEV_EV_MONITOR_STARTED, DEV_EV_FAILURE}"
      using snap device_handle_running [OF dev, of e] device_handle_outcome [of ?s e]
      by (cases "device_handle ?s e") auto
    have "app_state app' = DEV_CONFLICT \<longleftrightarrow> taken x cmds e \<and> ev_kind e = DEV_EV_MULTIPLE_DETECTED
        \<or> app_state app = DEV_CONFLICT
          \<and> \<not> (taken x cmds e \<and> ev_kind e = DEV_EV_DETACHED \<and> ev_eligible_device_count e = 0)"
      using snap taken device_handle_conflict_exact [of ?s e] by auto
    moreover have "monitor_running (cmds @ [c]) \<longleftrightarrow>
        monitor_running cmds \<or> ev_kind e \<in> {DEV_EV_MONITOR_STARTED, DEV_EV_FAILURE}"
      by (auto simp: monitor_running_def c)
    ultimately show ?thesis using snoc run step stopped
      by (auto simp: latched_snoc conflict_raised_def conflict_cleared_def c)
  qed
qed

text \<open>
  C8. Who may do what, read off the calls since the start. Discovery is always allowed. Everything
  else is refused while a conflict is open: the report of several devices was taken and no detachment
  of the last of them since. Outside a conflict reading is allowed, writing a map or the startup
  screen exactly when the configuration allows writes, deleting exactly when it allows writes and
  deletes, and an operation outside the enumeration never. A report of several devices is
  taken exactly when the monitor is running, it counts at least two and it is not older than the
  topology known; during a conflict a detachment is taken unless it is older than the topology known.
\<close>

theorem app_authorize_exact:
  assumes "app_fresh p x" and "foldl app_step x cmds = (app, w)"
    and "ev_kind several = DEV_EV_MULTIPLE_DETECTED" and "ev_kind gone = DEV_EV_DETACHED"
  shows "(application_authorize (Some app) op = CORE_OK \<longleftrightarrow>
      op = OP_DISCOVER
      \<or> \<not> latched (conflict_raised x) (conflict_cleared x) cmds
        \<and> (case op of OP_DISCOVER \<Rightarrow> True | OP_READ_DEVICE \<Rightarrow> True
           | OP_WRITE_MAP \<Rightarrow> sp_allow_device_writes p | OP_WRITE_STARTUP_SCREEN \<Rightarrow> sp_allow_device_writes p
           | OP_DELETE_DEVICE_FILE \<Rightarrow> sp_allow_device_writes p \<and> sp_allow_device_deletes p
           | OP_OTHER n \<Rightarrow> False))
    \<and> (taken x cmds several \<longleftrightarrow>
        monitor_running cmds \<and> 2 \<le> ev_eligible_device_count several \<and> up_to_date app several)
    \<and> (latched (conflict_raised x) (conflict_cleared x) cmds \<longrightarrow> taken x cmds gone = up_to_date app gone)"
proof -
  have policy: "ac_safety_policy (app_core app) = p"
    using app.run_inv [OF assms(1), of cmds] assms(2) by (simp add: app_inv_def core_ok_def)
  have conflict: "app_state app = DEV_CONFLICT \<longleftrightarrow> latched (conflict_raised x) (conflict_cleared x) cmds"
    and running: "app_state app = DEV_STOPPED \<longleftrightarrow> \<not> monitor_running cmds"
    using run_conflict [OF assms(1), of cmds] assms(2) by simp_all
  have "application_authorize (Some app) op = CORE_OK \<longleftrightarrow>
      safety_policy_authorize (Some p) op = CORE_OK \<and> (app_state app = DEV_CONFLICT \<longrightarrow> op = OP_DISCOVER)"
    by (auto simp: application_authorize_def device_service_snapshot_def policy)
  moreover have "taken x cmds several \<longleftrightarrow>
      monitor_running cmds \<and> 2 \<le> ev_eligible_device_count several \<and> up_to_date app several"
    unfolding run_taken [OF assms(1,2)] using running assms(3)
    by (auto simp: device_handle_def device_switch_def up_to_date_def Let_def not_less)
  moreover have "app_state app = DEV_CONFLICT \<longrightarrow> taken x cmds gone = up_to_date app gone"
    unfolding run_taken [OF assms(1,2)] using assms(4)
    by (auto simp: device_handle_def device_switch_def up_to_date_def Let_def not_less)
  ultimately show ?thesis using conflict by (cases op) auto
qed

theorem app_authorize_exact_witness:
  "\<exists>app. foldl app_step (flaky_app, 0) conflict_commands = (app, 0)
    \<and> application_authorize (Some app) OP_WRITE_MAP \<noteq> CORE_OK
    \<and> application_authorize (Some app) OP_DISCOVER = CORE_OK
    \<and> taken (flaky_app, 0) conflict_commands (sample_event DEV_EV_DETACHED)"
proof -
  let ?x = "(flaky_app, 0 :: nat)"
  let ?several = "(sample_event DEV_EV_MULTIPLE_DETECTED)\<lparr>ev_eligible_device_count := 2\<rparr>"
  from conflict_run obtain app where run: "foldl app_step ?x conflict_commands = (app, 0)" by blast
  have gone: "ev_kind ?several = DEV_EV_MULTIPLE_DETECTED" "ev_kind (sample_event DEV_EV_DETACHED) = DEV_EV_DETACHED"
    by (simp_all add: sample_event_def)
  have split: "conflict_commands = [App_Device_Event (sample_event DEV_EV_MONITOR_STARTED)] @ [App_Device_Event ?several]"
    by (simp add: conflict_commands_def)
  obtain app1 w1 where run1: "foldl app_step ?x [App_Device_Event (sample_event DEV_EV_MONITOR_STARTED)] = (app1, w1)"
    by fastforce
  have "monitor_running [App_Device_Event (sample_event DEV_EV_MONITOR_STARTED)]"
    by (simp add: monitor_running_def sample_event_def)
  then have "taken ?x [App_Device_Event (sample_event DEV_EV_MONITOR_STARTED)] ?several"
    using app_authorize_exact [OF flaky_fresh run1 gone] by (simp add: up_to_date_def sample_event_def)
  then have "latched (conflict_raised ?x) (conflict_cleared ?x) conflict_commands"
    unfolding split latched_snoc by (simp add: conflict_raised_def sample_event_def)
  moreover have "up_to_date app (sample_event DEV_EV_DETACHED)" by (simp add: up_to_date_def sample_event_def)
  ultimately show ?thesis
    using app_authorize_exact [OF flaky_fresh run gone] run by auto
qed

text \<open>
  A sync operation only ever starts on an available device, the only eligible one: this
  holds for the user's requests, the automatic sync on attach, its retry and the recovery of an
  unclean close.
\<close>

lemma app_sync_starts_available:
  assumes "app_fresh p x" and "foldl app_step x cmds = (app, w)"
    and "app_step (app, w) cmd = (app', w')"
    and "\<not> core_syncing (app_core app)" and "core_syncing (app_core app')"
  shows "app_state app' = DEV_AVAILABLE \<and> sn_eligible_device_count (ds_snapshot (app_device app')) = 1"
proof -
  have inv: "app_inv p (app, w)" using app.run_inv [OF assms(1), of cmds] assms(2) by simp
  from app_step_ok [OF inv assms(3)] assms(4,5) have "app_inv p (app', w')" "app_state app' = DEV_AVAILABLE"
    by blast+
  then show ?thesis by (simp add: app_inv_def device_inv_def)
qed

theorem app_sync_starts_available_witness:
  "\<exists>app. foldl app_step (flaky_app, 0) (attach_commands @ [App_Retry]) = (app, 2)
    \<and> sn_eligible_device_count (ds_snapshot (app_device app)) = 1"
proof -
  from attached_run obtain app where run: "foldl app_step (flaky_app, 0) attach_commands = (app, 1)"
    "\<not> core_syncing (app_core app)" "core_syncing (app_core (fst (app_step (app, 1) App_Retry)))"
    by blast
  obtain app' w' where step: "app_step (app, 1) App_Retry = (app', w')" by fastforce
  have "w' = 2"
  proof -
    have "snd (foldl app_step (flaky_app, 0) (attach_commands @ [App_Retry])) = 2"
      by (simp add: attach_commands_def app_run_eval application_retry_auto_sync_def)
    then show ?thesis using run(1) step by simp
  qed
  then show ?thesis
    using app_sync_starts_available [OF flaky_fresh run(1) step run(2)] run step by simp
qed

text \<open>
  C40. A device conflict locks the automation: from a conflict with no operation in flight, no
  sequence of device events, sync events, retries, cancellations and policy changes starts a
  sync, even when the conflict is over and a device is attached and accepted again; only the user's
  request does.
\<close>

theorem conflict_locks_automation:
  assumes "app_fresh p x" and "foldl app_step x cmds = (app, w)" and "app_state app = DEV_CONFLICT"
    and "\<not> core_syncing (app_core app)" and "App_Request \<notin> set later"
  shows "\<not> core_syncing (app_core (fst (foldl app_step (app, w) later)))"
proof -
  have inv: "app_inv p (app, w)" using app.run_inv [OF assms(1), of cmds] assms(2) by simp
  then have "ac_auto_sync_disarmed_by_conflict (app_core app)" using assms(3) by (simp add: app_inv_def)
  with inv assms(4,5) show ?thesis
  proof (induction later arbitrary: app w)
    case (Cons cmd later)
    obtain app1 w1 where step: "app_step (app, w) cmd = (app1, w1)" by fastforce
    from app_step_ok [OF Cons.prems(1) step] Cons.prems(2-4)
    have "app_inv p (app1, w1)" "\<not> core_syncing (app_core app1)"
      "ac_auto_sync_disarmed_by_conflict (app_core app1)" by auto
    with Cons.IH [of app1 w1] Cons.prems(3) step show ?case by simp
  qed simp
qed

theorem conflict_locks_automation_witness:
  "\<not> core_syncing (app_core (fst (foldl app_step (flaky_app, 0)
      (conflict_commands @ attach_commands @ [App_Retry]))))"
proof -
  from conflict_run obtain app where run: "foldl app_step (flaky_app, 0) conflict_commands = (app, 0)"
    "app_state app = DEV_CONFLICT" "\<not> core_syncing (app_core app)" by blast
  have "App_Request \<notin> set (attach_commands @ [App_Retry])" by (simp add: attach_commands_def)
  from conflict_locks_automation [OF flaky_fresh run this] show ?thesis using run(1) by simp
qed

text \<open>
  An automatic sync is retried at most once per attachment: after a retry no further retry
  is due, whatever the sync events, requests, cancellations and policy changes, until the next
  device event.
\<close>

lemma auto_sync_retried_once:
  assumes "app_fresh p x" and "foldl app_step x cmds = (app, w)"
    and "application_auto_sync_retry_needed (Some app)" and "app_step (app, w) App_Retry = (app1, w1)"
    and "\<forall>cmd \<in> set later. \<forall>e. cmd \<noteq> App_Device_Event e"
  shows "\<not> application_auto_sync_retry_needed (Some (fst (foldl app_step (app1, w1) later)))"
proof -
  have inv: "app_inv p (app, w)" using app.run_inv [OF assms(1), of cmds] assms(2) by simp
  obtain st where "application_retry_auto_sync (Some app) w = (st, Some app1, w1)"
    using app_results_Some(2) [of app w] assms(4)
    by (auto simp del: application_auto_sync_retry_needed.simps split: prod.splits)
  from app_retry_ok [OF inv this] assms(3)
  have "app_inv p (app1, w1)" "1 \<le> ac_auto_sync_retry_count (app_core app1)" by auto
  with assms(5) have "1 \<le> ac_auto_sync_retry_count (app_core (fst (foldl app_step (app1, w1) later)))"
  proof (induction later arbitrary: app1 w1)
    case (Cons cmd later)
    obtain app2 w2 where step: "app_step (app1, w1) cmd = (app2, w2)" by fastforce
    have "app_inv p (app2, w2)"
      "ac_auto_sync_retry_count (app_core app1) \<le> ac_auto_sync_retry_count (app_core app2)"
      using app_step_ok [OF Cons.prems(2) step] Cons.prems(1) by auto
    with Cons.IH [of app2 w2] Cons.prems(1,3) step show ?case by (auto intro: order_trans)
  qed simp
  then show ?thesis by (simp add: Let_def)
qed

theorem auto_sync_retried_once_witness:
  "\<exists>app app1. foldl app_step (flaky_app, 0) attach_commands = (app, 1)
    \<and> app_step (app, 1) App_Retry = (app1, 2)
    \<and> \<not> application_auto_sync_retry_needed (Some (fst (foldl app_step (app1, 2) [App_Cancel])))"
proof -
  from attached_run obtain app where run: "foldl app_step (flaky_app, 0) attach_commands = (app, 1)"
    "application_auto_sync_retry_needed (Some app)" by blast
  obtain app1 w1 where step: "app_step (app, 1) App_Retry = (app1, w1)" by fastforce
  have "w1 = 2"
  proof -
    have "snd (foldl app_step (flaky_app, 0) (attach_commands @ [App_Retry])) = 2"
      by (simp add: attach_commands_def app_run_eval application_retry_auto_sync_def)
    then show ?thesis using run(1) step by simp
  qed
  moreover have "\<forall>cmd \<in> set [App_Cancel]. \<forall>e. cmd \<noteq> App_Device_Event e" by simp
  ultimately show ?thesis
    using auto_sync_retried_once [OF flaky_fresh run step] run(1) step by blast
qed

section \<open>The self test\<close>

lemma root_list_checksum:
  "jamcrc_zeroed_trailer (Span ROOT_LIST_VECTOR) = 0x39dfa458"
  by (simp add: ROOT_LIST_VECTOR_def jamcrc_zeroed_trailer_def zero_trailer_def crc_eval)

lemma root_list_record: "archive_record AP_OPCODE_LIST (lp_field []) = ROOT_LIST_VECTOR"
proof -
  have body: "take 46 ROOT_LIST_VECTOR = record_body AP_OPCODE_LIST (lp_field [])"
    by (simp add: ROOT_LIST_VECTOR_def record_body_def record_head_def lp_field_def BOOST_HEADER_def
        of_char_def store_u16_be_def store_u16_le_def store_u32_le_def)
  have len: "length ROOT_LIST_VECTOR = 50" by (simp add: ROOT_LIST_VECTOR_def)
  have "trailer_matches ROOT_LIST_VECTOR"
    unfolding trailer_matches_def root_list_checksum len
    by (simp add: ROOT_LIST_VECTOR_def load_u32_be_def)
  then have "trailer_matches (take 46 ROOT_LIST_VECTOR @ drop 46 ROOT_LIST_VECTOR)" by simp
  then have "take 46 ROOT_LIST_VECTOR @ drop 46 ROOT_LIST_VECTOR = sealed (take 46 ROOT_LIST_VECTOR)"
    using len trailer_matches_iff [of "drop 46 ROOT_LIST_VECTOR" "take 46 ROOT_LIST_VECTOR"] by simp
  then have "ROOT_LIST_VECTOR = sealed (take 46 ROOT_LIST_VECTOR)" by (simp only: append_take_drop_id)
  then show ?thesis unfolding archive_record_def body by (rule sym)
qed

lemma build_list_null: "build_list (NullSpan 0) out l = build_list (Span []) out l"
proof -
  have "writer_lp (NullSpan 0) = writer_lp (Span [])"
    by (rule ext) (simp add: writer_lp_def writer_bytes_def)
  then show ?thesis unfolding build_list_def by (simp only: null_with_length_simps slen.simps) simp
qed

text \<open>
  The protocol self test succeeds: the builder reproduces the captured root listing
  request, and the validator and the parser accept it.
\<close>

lemma protocol_self_test_passes: "application_protocol_self_test"
proof -
  have len: "length ROOT_LIST_VECTOR = 50" by (simp add: ROOT_LIST_VECTOR_def)
  have "build_list (NullSpan 0) (Span (replicate 50 0)) (Some 0)
      = (AP_OK, Span ROOT_LIST_VECTOR, Some 50)"
    by (simp add: build_list_null build_list_outcome SIZE_MAX_def build_outcome_def root_list_record)
  moreover have "length (lp_field []) \<le> AP_MAX_RECORD_SIZE - AP_RECORD_OVERHEAD" by simp
  then have "validate_record (Span ROOT_LIST_VECTOR) = AP_OK"
    "parse_record (Span ROOT_LIST_VECTOR) (Some v)
      = (AP_OK, Some \<lparr>rv_opcode = AP_OPCODE_LIST, rv_payload = lp_field []\<rparr>)" for v
    unfolding root_list_record [symmetric]
    by (rule validate_archive_record, rule parse_archive_record)
  ultimately show ?thesis
    by (simp add: application_protocol_self_test_def len del: validate_record.simps)
qed

end
