(* ===== verification/Staged_Map.thy ===== *)
theory Staged_Map
  imports Jamcrc
begin

text \<open>
  The staged map (revlink_staged_map/revlink_staged_map.c): the fixed size record that keeps an
  uploaded map together with the AccessPort it was staged for, and the decision whether it may
  be written to the attached device. Character arrays are byte lists of their capacity.
\<close>

section \<open>The checksum\<close>

definition ieee_bit :: "u32 \<Rightarrow> u32" where
  "ieee_bit crc = (let mask = - (crc AND 1) in drop_bit 1 crc XOR (0xEDB88320 AND mask))"

definition ieee_byte :: "u32 \<Rightarrow> u8 \<Rightarrow> u32" where
  "ieee_byte crc b = (ieee_bit ^^ 8) (crc XOR ucast b)"

definition crc32_ieee :: "u8 list \<Rightarrow> u32" where
  "crc32_ieee data = NOT (foldl ieee_byte 0xFFFFFFFF data)"

lemma ieee_byte_jam: "ieee_byte = crc_byte"
proof -
  have "ieee_bit = crc_bit" by (rule ext) (simp add: ieee_bit_def crc_bit_def)
  then show ?thesis by (intro ext) (simp add: ieee_byte_def crc_byte_def)
qed

interpretation ieee: byte_checksum ieee_byte
  unfolding ieee_byte_jam by unfold_locales (fact jam.step_state_inj, fact jam.step_byte_inj)

lemma crc32_ieee_detects:
  assumes "i < length xs" and "crc32_ieee (xs[i := b]) = crc32_ieee xs"
  shows "b = xs ! i"
proof -
  have "foldl ieee_byte 0xFFFFFFFF (xs[i := b]) = foldl ieee_byte 0xFFFFFFFF xs"
    using assms(2) unfolding crc32_ieee_def by (metis bit.double_compl)
  with assms(1) show ?thesis by (rule ieee.run_detects_update)
qed

section \<open>The record\<close>

datatype sm_status = SM_OK | SM_INVALID_ARGUMENT | SM_TRUNCATED | SM_BAD_MAGIC
  | SM_UNSUPPORTED_VERSION | SM_BAD_CHECKSUM | SM_MALFORMED_FIELD

fun sm_status_name :: "sm_status \<Rightarrow> string" where
  "sm_status_name SM_OK = ''ok''"
| "sm_status_name SM_INVALID_ARGUMENT = ''invalid-argument''"
| "sm_status_name SM_TRUNCATED = ''truncated''"
| "sm_status_name SM_BAD_MAGIC = ''bad-magic''"
| "sm_status_name SM_UNSUPPORTED_VERSION = ''unsupported-version''"
| "sm_status_name SM_BAD_CHECKSUM = ''bad-checksum''"
| "sm_status_name SM_MALFORMED_FIELD = ''malformed-field''"

datatype sm_kind = SM_KIND_MAP | SM_KIND_STARTUP_IMAGE | SM_KIND_OTHER u32

fun sm_kind_code :: "sm_kind \<Rightarrow> u32" where
  "sm_kind_code SM_KIND_MAP = 0"
| "sm_kind_code SM_KIND_STARTUP_IMAGE = 1"
| "sm_kind_code (SM_KIND_OTHER n) = n"

record sm_record =
  sm_kind :: sm_kind
  sm_size :: u32
  sm_sha256 :: "u8 list"
  sm_name :: "u8 list"
  sm_destination :: "u8 list"
  sm_target_part_number :: "u8 list"
  sm_target_serial :: "u8 list"

abbreviation (input) SM_MAGIC :: u32 where "SM_MAGIC \<equiv> 0x544C5652"
abbreviation (input) SM_VERSION :: u32 where "SM_VERSION \<equiv> 1"
abbreviation (input) SM_RECORD_BYTES :: nat where "SM_RECORD_BYTES \<equiv> 540"
abbreviation (input) SM_OFFSET_CRC :: nat where "SM_OFFSET_CRC \<equiv> 536"

definition put_u32 :: "nat \<Rightarrow> u32 \<Rightarrow> u8 list \<Rightarrow> u8 list" where
  "put_u32 offset value buffer =
     blit offset [ucast (value AND 0xFF), ucast (drop_bit 8 value AND 0xFF),
       ucast (drop_bit 16 value AND 0xFF), ucast (drop_bit 24 value AND 0xFF)] buffer"

definition get_u32 :: "u8 list \<Rightarrow> nat \<Rightarrow> u32" where
  "get_u32 buffer offset = ucast (buffer ! offset) OR push_bit 8 (ucast (buffer ! (offset + 1)))
     OR push_bit 16 (ucast (buffer ! (offset + 2))) OR push_bit 24 (ucast (buffer ! (offset + 3)))"

definition put_string :: "nat \<Rightarrow> nat \<Rightarrow> u8 list \<Rightarrow> u8 list \<Rightarrow> bool \<times> u8 list" where
  "put_string offset capacity value buffer =
     (let n = strnlen value capacity in
      if n = 0 \<or> n \<ge> capacity then (False, buffer)
      else (True, blit offset (take n value) (blit offset (replicate capacity 0) buffer)))"

text \<open>The output of \<open>get_string\<close> is a field of a zeroed record.\<close>

definition get_string :: "u8 list \<Rightarrow> nat \<Rightarrow> nat \<Rightarrow> u8 list option" where
  "get_string buffer offset capacity =
     (let n = strnlen (drop offset buffer) capacity in
      if n = 0 \<or> n \<ge> capacity then None
      else Some (take n (drop offset buffer) @ replicate (capacity - n) 0))"

definition staged_map_encode ::
  "sm_record option \<Rightarrow> u8 span \<Rightarrow> nat option \<Rightarrow> sm_status \<times> u8 span \<times> nat option" where
  "staged_map_encode rec buffer written =
     (case rec of
        None \<Rightarrow> (SM_INVALID_ARGUMENT, buffer, written)
      | Some r \<Rightarrow>
          if is_null buffer \<or> slen buffer < SM_RECORD_BYTES then (SM_INVALID_ARGUMENT, buffer, written)
          else if sm_size r = 0 \<or> (sm_kind r \<noteq> SM_KIND_MAP \<and> sm_kind r \<noteq> SM_KIND_STARTUP_IMAGE)
          then (SM_INVALID_ARGUMENT, buffer, written)
          else
            let zeros = replicate SM_RECORD_BYTES 0;
                b0 = blit 0 zeros (sbytes buffer);
                b1 = put_u32 0 SM_MAGIC b0;
                b2 = put_u32 4 SM_VERSION b1;
                b3 = put_u32 8 (sm_kind_code (sm_kind r)) b2;
                b4 = put_u32 12 (sm_size r) b3;
                b5 = blit 16 (sm_sha256 r) b4;
                (ok1, b6) = put_string 48 128 (sm_name r) b5;
                (ok2, b7) = (if ok1 then put_string 176 256 (sm_destination r) b6 else (False, b6));
                (ok3, b8) = (if ok2 then put_string 432 40 (sm_target_part_number r) b7 else (False, b7));
                (ok4, b9) = (if ok3 then put_string 472 64 (sm_target_serial r) b8 else (False, b8))
            in if \<not> ok4 then (SM_INVALID_ARGUMENT, Span (blit 0 zeros b9), written)
               else (SM_OK, Span (put_u32 SM_OFFSET_CRC (crc32_ieee (take SM_OFFSET_CRC b9)) b9),
                     if written = None then None else Some SM_RECORD_BYTES))"

definition staged_map_decode :: "u8 span \<Rightarrow> sm_record option \<Rightarrow> sm_status \<times> sm_record option" where
  "staged_map_decode buffer rec =
     (if is_null buffer \<or> rec = None then (SM_INVALID_ARGUMENT, rec)
      else
        let b = sbytes buffer in
        if length b < SM_RECORD_BYTES then (SM_TRUNCATED, rec)
        else if get_u32 b 0 \<noteq> SM_MAGIC then (SM_BAD_MAGIC, rec)
        else if get_u32 b 4 \<noteq> SM_VERSION then (SM_UNSUPPORTED_VERSION, rec)
        else if get_u32 b SM_OFFSET_CRC \<noteq> crc32_ieee (take SM_OFFSET_CRC b) then (SM_BAD_CHECKSUM, rec)
        else
          let kind = get_u32 b 8; fsize = get_u32 b 12 in
          if fsize = 0 \<or> (kind \<noteq> 0 \<and> kind \<noteq> 1) then (SM_MALFORMED_FIELD, rec)
          else case (do {
              name \<leftarrow> get_string b 48 128;
              destination \<leftarrow> get_string b 176 256;
              part_number \<leftarrow> get_string b 432 40;
              serial \<leftarrow> get_string b 472 64;
              Some \<lparr>sm_kind = (if kind = 0 then SM_KIND_MAP else SM_KIND_STARTUP_IMAGE),
                sm_size = fsize, sm_sha256 = take 32 (drop 16 b), sm_name = name,
                sm_destination = destination, sm_target_part_number = part_number,
                sm_target_serial = serial\<rparr> }) of
            None \<Rightarrow> (SM_MALFORMED_FIELD, rec)
          | Some decoded \<Rightarrow> (SM_OK, Some decoded))"

section \<open>The decision\<close>

datatype apply_decision = APPLY_ALLOWED | APPLY_WRITES_NOT_COMPILED | APPLY_CONSENT_DISABLED
  | APPLY_AUTO_APPLY_DISABLED | APPLY_NOTHING_STAGED | APPLY_UNPINNED | APPLY_NO_DEVICE
  | APPLY_TARGET_MISMATCH | APPLY_SYNC_INCOMPLETE | APPLY_TRANSFER_BUSY
  | APPLY_RECOVERY_REQUIRED | APPLY_ALREADY_ATTEMPTED

fun apply_decision_name :: "apply_decision \<Rightarrow> string" where
  "apply_decision_name APPLY_ALLOWED = ''allowed''"
| "apply_decision_name APPLY_WRITES_NOT_COMPILED = ''writes-not-compiled''"
| "apply_decision_name APPLY_CONSENT_DISABLED = ''consent-disabled''"
| "apply_decision_name APPLY_AUTO_APPLY_DISABLED = ''auto-apply-disabled''"
| "apply_decision_name APPLY_NOTHING_STAGED = ''nothing-staged''"
| "apply_decision_name APPLY_UNPINNED = ''unpinned''"
| "apply_decision_name APPLY_NO_DEVICE = ''no-device''"
| "apply_decision_name APPLY_TARGET_MISMATCH = ''target-mismatch''"
| "apply_decision_name APPLY_SYNC_INCOMPLETE = ''sync-incomplete''"
| "apply_decision_name APPLY_TRANSFER_BUSY = ''transfer-busy''"
| "apply_decision_name APPLY_RECOVERY_REQUIRED = ''recovery-required''"
| "apply_decision_name APPLY_ALREADY_ATTEMPTED = ''already-attempted''"

record apply_context =
  ax_writes_compiled :: bool
  ax_consent_enabled :: bool
  ax_auto_apply_enabled :: bool
  ax_staged :: bool
  ax_target_part_number :: "u8 list"
  ax_target_serial :: "u8 list"
  ax_device_identified :: bool
  ax_attached_part_number :: "u8 list"
  ax_attached_serial :: "u8 list"
  ax_sync_completed_clean :: bool
  ax_sync_pending :: nat
  ax_transfer_running :: bool
  ax_recovery_required :: bool
  ax_already_attempted_this_attach :: bool

definition bounded_equal :: "u8 list \<Rightarrow> u8 list \<Rightarrow> nat \<Rightarrow> bool" where
  "bounded_equal a b capacity =
     (let n = strnlen a capacity in
      if n = 0 \<or> n \<ge> capacity then False
      else if strnlen b capacity \<noteq> n then False
      else take n a = take n b)"

fun evaluate_apply :: "apply_context option \<Rightarrow> apply_decision" where
  "evaluate_apply None = APPLY_WRITES_NOT_COMPILED"
| "evaluate_apply (Some c) =
     (if \<not> ax_writes_compiled c then APPLY_WRITES_NOT_COMPILED
      else if \<not> ax_consent_enabled c then APPLY_CONSENT_DISABLED
      else if \<not> ax_auto_apply_enabled c then APPLY_AUTO_APPLY_DISABLED
      else if \<not> ax_staged c then APPLY_NOTHING_STAGED
      else if strnlen (ax_target_part_number c) 40 = 0 \<or> strnlen (ax_target_serial c) 64 = 0
        then APPLY_UNPINNED
      else if \<not> ax_device_identified c \<or> strnlen (ax_attached_serial c) 64 = 0 then APPLY_NO_DEVICE
      else if \<not> bounded_equal (ax_target_serial c) (ax_attached_serial c) 64
        \<or> \<not> bounded_equal (ax_target_part_number c) (ax_attached_part_number c) 40
        then APPLY_TARGET_MISMATCH
      else if ax_recovery_required c then APPLY_RECOVERY_REQUIRED
      else if ax_already_attempted_this_attach c then APPLY_ALREADY_ATTEMPTED
      else if ax_transfer_running c then APPLY_TRANSFER_BUSY
      else if \<not> ax_sync_completed_clean c \<or> ax_sync_pending c \<noteq> 0 then APPLY_SYNC_INCOMPLETE
      else APPLY_ALLOWED)"

fun apply_decision_is_transient :: "apply_decision \<Rightarrow> bool" where
  "apply_decision_is_transient APPLY_SYNC_INCOMPLETE = True"
| "apply_decision_is_transient APPLY_TRANSFER_BUSY = True"
| "apply_decision_is_transient _ = False"

section \<open>Strings in fixed fields\<close>

lemma c_str_prefix: "c_str xs = take (length (c_str xs)) xs"
  unfolding c_str_def by (rule takeWhile_eq_take)

lemma strnlen_prefix: "take (strnlen xs n) xs = c_str (take n xs)"
proof -
  have "strnlen xs n \<le> n" by (rule strnlen_le)
  then have "take (strnlen xs n) (take n xs) = take (strnlen xs n) xs" by simp
  then show ?thesis using c_str_prefix [of "take n xs"] by (simp add: strnlen_def)
qed

text \<open>The string of an array and the array that holds a string in a zeroed field.\<close>

definition padded :: "nat \<Rightarrow> u8 list \<Rightarrow> u8 list" where
  "padded capacity xs = c_str (take capacity xs) @ replicate (capacity - strnlen xs capacity) 0"

definition fits :: "nat \<Rightarrow> u8 list \<Rightarrow> bool" where
  "fits capacity xs \<longleftrightarrow> 0 < strnlen xs capacity \<and> strnlen xs capacity < capacity"

lemma length_padded [simp]: "length (padded capacity xs) = capacity"
  using strnlen_le [of xs capacity] by (simp add: padded_def strnlen_def)

lemma strnlen_padded:
  assumes "fits capacity xs"
  shows "strnlen (padded capacity xs @ ys) capacity = strnlen xs capacity"
    and "take (strnlen xs capacity) (padded capacity xs @ ys) = c_str (take capacity xs)"
proof -
  let ?s = "c_str (take capacity xs)"
  have n: "strnlen xs capacity = length ?s" by (simp add: strnlen_def)
  obtain m where m: "capacity - length ?s = Suc m" using assms n by (cases "capacity - length ?s") (auto simp: fits_def)
  have "take capacity (padded capacity xs @ ys) = ?s @ 0 # replicate m 0"
    using m n by (simp add: padded_def)
  then have "c_str (take capacity (padded capacity xs @ ys)) = ?s"
    by (simp only: c_str_terminated [OF c_str_no_nul])
  then show "strnlen (padded capacity xs @ ys) capacity = strnlen xs capacity"
    by (simp add: strnlen_def)
  show "take (strnlen xs capacity) (padded capacity xs @ ys) = ?s"
    by (simp add: padded_def n)
qed

lemma get_string_padded:
  assumes "drop offset buffer = padded capacity xs @ ys" and "fits capacity xs"
  shows "get_string buffer offset capacity = Some (padded capacity xs)"
  using strnlen_padded [OF assms(2), of ys] assms
  by (simp add: get_string_def fits_def Let_def) (simp add: padded_def)

lemma put_string_append:
  assumes "length as = offset" and "length bs = capacity"
  shows "put_string offset capacity value (as @ bs @ cs) =
    (if fits capacity value then (True, as @ padded capacity value @ cs) else (False, as @ bs @ cs))"
proof (cases "fits capacity value")
  case True
  let ?n = "strnlen value capacity"
  have n: "?n \<le> capacity" by (rule strnlen_le)
  have l: "length (take ?n value) = ?n" unfolding strnlen_prefix by (simp add: strnlen_def)
  from n have z: "replicate capacity 0 = replicate ?n (0 :: u8) @ replicate (capacity - ?n) 0"
    by (simp add: replicate_add [symmetric])
  have "blit offset (replicate capacity 0) (as @ bs @ cs) = as @ replicate capacity 0 @ cs"
    using assms by (intro blit_append) simp_all
  also have "\<dots> = as @ replicate ?n 0 @ (replicate (capacity - ?n) 0 @ cs)" unfolding z by simp
  finally have "blit offset (take ?n value) (blit offset (replicate capacity 0) (as @ bs @ cs))
      = as @ take ?n value @ (replicate (capacity - ?n) 0 @ cs)"
    using assms(1) l by (simp only:) (rule blit_append, simp_all)
  then show ?thesis using True
    by (simp add: put_string_def Let_def fits_def padded_def strnlen_prefix)
next
  case False
  then show ?thesis by (auto simp: put_string_def Let_def fits_def not_less)
qed

lemma byte_mask: "(ucast (v AND 0xFF :: u32) :: u8) = ucast v"
proof -
  have "v AND 0xFF = take_bit 8 v" by (simp add: take_bit_eq_mask mask_eq_exp_minus_1)
  then show ?thesis by (simp add: bit_word_eqI bit_simps)
qed

lemma put_u32_append:
  "length as = offset \<Longrightarrow> length bs = 4 \<Longrightarrow> put_u32 offset v (as @ bs @ cs) = as @ store_u32_le v @ cs"
  by (simp add: put_u32_def byte_mask store_u32_le_def blit_append)

lemma get_u32_load:
  "offset + 4 \<le> length b \<Longrightarrow> get_u32 b offset = load_u32_le (drop offset b)"
  by (simp add: get_u32_def load_u32_le_def)

section \<open>The encoding\<close>

definition staged_body :: "sm_record \<Rightarrow> u8 list" where
  "staged_body r = store_u32_le SM_MAGIC @ store_u32_le SM_VERSION
     @ store_u32_le (sm_kind_code (sm_kind r)) @ store_u32_le (sm_size r) @ sm_sha256 r
     @ padded 128 (sm_name r) @ padded 256 (sm_destination r)
     @ padded 40 (sm_target_part_number r) @ padded 64 (sm_target_serial r)"

definition staged_bytes :: "sm_record \<Rightarrow> u8 list" where
  "staged_bytes r = staged_body r @ store_u32_le (crc32_ieee (staged_body r))"

text \<open>The records the encoder accepts.\<close>

definition staged_ok :: "sm_record \<Rightarrow> bool" where
  "staged_ok r \<longleftrightarrow> sm_size r \<noteq> 0 \<and> sm_kind r \<in> {SM_KIND_MAP, SM_KIND_STARTUP_IMAGE}
     \<and> fits 128 (sm_name r) \<and> fits 256 (sm_destination r)
     \<and> fits 40 (sm_target_part_number r) \<and> fits 64 (sm_target_serial r)"

text \<open>The record with the bytes behind its strings cleared.\<close>

definition cleared :: "sm_record \<Rightarrow> sm_record" where
  "cleared r = r\<lparr>sm_name := padded 128 (sm_name r), sm_destination := padded 256 (sm_destination r),
     sm_target_part_number := padded 40 (sm_target_part_number r),
     sm_target_serial := padded 64 (sm_target_serial r)\<rparr>"

lemma length_staged_body: "length (sm_sha256 r) = 32 \<Longrightarrow> length (staged_body r) = 536"
  by (simp add: staged_body_def)

lemma length_staged_bytes: "length (sm_sha256 r) = 32 \<Longrightarrow> length (staged_bytes r) = 540"
  by (simp add: staged_bytes_def length_staged_body)

lemma staged_zeros:
  "(replicate 540 0 :: u8 list) = replicate 4 0 @ replicate 4 0 @ replicate 4 0 @ replicate 4 0
     @ replicate 32 0 @ replicate 128 0 @ replicate 256 0 @ replicate 40 0 @ replicate 64 0
     @ replicate 4 0"
  by (simp add: replicate_add [symmetric])

lemma encode_header:
  assumes "length (sm_sha256 r) = 32"
  shows "blit 16 (sm_sha256 r) (put_u32 12 (sm_size r) (put_u32 8 (sm_kind_code (sm_kind r))
      (put_u32 4 SM_VERSION (put_u32 0 SM_MAGIC (replicate 540 0 @ rest)))))
    = (store_u32_le SM_MAGIC @ store_u32_le SM_VERSION
        @ store_u32_le (sm_kind_code (sm_kind r)) @ store_u32_le (sm_size r) @ sm_sha256 r)
      @ replicate 128 0 @ replicate 256 0 @ replicate 40 0 @ replicate 64 0 @ replicate 4 0 @ rest"
proof -
  let ?tail = "replicate 128 0 @ replicate 256 0 @ replicate 40 0 @ replicate 64 0 @ replicate 4 0 @ rest"
  let ?z = "replicate 4 (0 :: u8)"
  have "replicate 540 0 @ rest = [] @ ?z @ (?z @ ?z @ ?z @ replicate 32 0 @ ?tail)"
    unfolding staged_zeros by simp
  then have 1: "put_u32 0 SM_MAGIC (replicate 540 0 @ rest)
      = store_u32_le SM_MAGIC @ ?z @ (?z @ ?z @ replicate 32 0 @ ?tail)"
    by (simp only:) (subst put_u32_append, simp_all)
  have 2: "put_u32 4 SM_VERSION (store_u32_le SM_MAGIC @ ?z @ (?z @ ?z @ replicate 32 0 @ ?tail))
      = (store_u32_le SM_MAGIC @ store_u32_le SM_VERSION) @ ?z @ (?z @ replicate 32 0 @ ?tail)"
    by (subst put_u32_append) simp_all
  have 3: "put_u32 8 k ((store_u32_le SM_MAGIC @ store_u32_le SM_VERSION) @ ?z @ (?z @ replicate 32 0 @ ?tail))
      = (store_u32_le SM_MAGIC @ store_u32_le SM_VERSION @ store_u32_le k) @ ?z @ (replicate 32 0 @ ?tail)"
    for k by (subst put_u32_append) simp_all
  have 4: "put_u32 12 n ((store_u32_le SM_MAGIC @ store_u32_le SM_VERSION @ store_u32_le k) @ ?z
        @ (replicate 32 0 @ ?tail))
      = (store_u32_le SM_MAGIC @ store_u32_le SM_VERSION @ store_u32_le k @ store_u32_le n)
        @ replicate 32 0 @ ?tail"
    for n k by (subst put_u32_append) simp_all
  have 5: "blit 16 (sm_sha256 r) ((store_u32_le SM_MAGIC @ store_u32_le SM_VERSION @ store_u32_le k
        @ store_u32_le n) @ replicate 32 0 @ ?tail)
      = (store_u32_le SM_MAGIC @ store_u32_le SM_VERSION @ store_u32_le k @ store_u32_le n @ sm_sha256 r)
        @ ?tail"
    for n k using assms by (subst blit_append) simp_all
  show ?thesis unfolding 1 2 3 4 5 by (rule refl)
qed

lemma staged_map_encode_outcome:
  assumes sha: "length (sm_sha256 r) = 32" and cap: "540 \<le> length buf"
  shows "staged_map_encode (Some r) (Span buf) (Some l) =
    (if staged_ok r then (SM_OK, Span (staged_bytes r @ drop 540 buf), Some 540)
     else (SM_INVALID_ARGUMENT,
       if sm_size r = 0 \<or> (sm_kind r \<noteq> SM_KIND_MAP \<and> sm_kind r \<noteq> SM_KIND_STARTUP_IMAGE)
       then Span buf else Span (replicate 540 0 @ drop 540 buf), Some l))"
proof (cases "sm_size r = 0 \<or> (sm_kind r \<noteq> SM_KIND_MAP \<and> sm_kind r \<noteq> SM_KIND_STARTUP_IMAGE)")
  case True
  then show ?thesis using cap by (auto simp: staged_map_encode_def staged_ok_def)
next
  case False
  let ?h = "store_u32_le SM_MAGIC @ store_u32_le SM_VERSION
      @ store_u32_le (sm_kind_code (sm_kind r)) @ store_u32_le (sm_size r) @ sm_sha256 r"
  let ?p1 = "padded 128 (sm_name r)" and ?p2 = "padded 256 (sm_destination r)"
  let ?p3 = "padded 40 (sm_target_part_number r)" and ?p4 = "padded 64 (sm_target_serial r)"
  let ?d = "drop 540 buf"
  have b0: "blit 0 (replicate 540 0) buf = replicate 540 0 @ ?d"
    by (simp add: blit_def)
  have h: "length ?h = 48" using sha by simp
  define B0 where "B0 = ?h @ replicate 128 0 @ replicate 256 0 @ replicate 40 0
      @ replicate 64 0 @ replicate 4 0 @ ?d"
  define B1 where "B1 = (?h @ ?p1) @ replicate 256 0 @ replicate 40 0 @ replicate 64 0
      @ replicate 4 0 @ ?d"
  define B2 where "B2 = (?h @ ?p1 @ ?p2) @ replicate 40 0 @ replicate 64 0 @ replicate 4 0 @ ?d"
  define B3 where "B3 = (?h @ ?p1 @ ?p2 @ ?p3) @ replicate 64 0 @ replicate 4 0 @ ?d"
  define B4 where "B4 = staged_body r @ replicate 4 0 @ ?d"
  have s1: "put_string 48 128 (sm_name r) B0 = (if fits 128 (sm_name r) then (True, B1) else (False, B0))"
    unfolding B0_def B1_def using h by (subst put_string_append) simp_all
  have s2: "put_string 176 256 (sm_destination r) B1
      = (if fits 256 (sm_destination r) then (True, B2) else (False, B1))"
    unfolding B1_def B2_def using h by (subst put_string_append) simp_all
  have s3: "put_string 432 40 (sm_target_part_number r) B2
      = (if fits 40 (sm_target_part_number r) then (True, B3) else (False, B2))"
    unfolding B2_def B3_def using h by (subst put_string_append) simp_all
  have s4: "put_string 472 64 (sm_target_serial r) B3
      = (if fits 64 (sm_target_serial r) then (True, B4) else (False, B3))"
    unfolding B3_def B4_def staged_body_def using h by (subst put_string_append) simp_all
  have crc: "put_u32 536 (crc32_ieee (take 536 B4)) B4 = staged_bytes r @ ?d"
  proof -
    have "take 536 B4 = staged_body r" using length_staged_body [OF sha] by (simp add: B4_def)
    moreover have "put_u32 536 v B4 = staged_body r @ store_u32_le v @ ?d" for v
      unfolding B4_def using length_staged_body [OF sha] by (subst put_u32_append) simp_all
    ultimately show ?thesis by (simp add: staged_bytes_def)
  qed
  have z: "blit 0 (replicate 540 0) B0 = replicate 540 0 @ ?d"
    "blit 0 (replicate 540 0) B1 = replicate 540 0 @ ?d"
    "blit 0 (replicate 540 0) B2 = replicate 540 0 @ ?d"
    "blit 0 (replicate 540 0) B3 = replicate 540 0 @ ?d"
    using sha by (simp_all add: blit_0 B0_def B1_def B2_def B3_def)
  have guards: "\<not> (is_null (Span buf) \<or> slen (Span buf) < 540)" using cap by simp
  have ok: "staged_ok r \<longleftrightarrow> fits 128 (sm_name r) \<and> fits 256 (sm_destination r)
      \<and> fits 40 (sm_target_part_number r) \<and> fits 64 (sm_target_serial r)"
    using False by (auto simp: staged_ok_def)
  show ?thesis
    unfolding staged_map_encode_def option.case sbytes.simps Let_def b0 encode_header [OF sha]
      B0_def [symmetric] s1 if_not_P [OF guards] if_not_P [OF False] ok
    by (cases "fits 128 (sm_name r)"; cases "fits 256 (sm_destination r)";
        cases "fits 40 (sm_target_part_number r)"; cases "fits 64 (sm_target_serial r)")
      (simp_all add: s2 s3 s4 z crc)
qed

section \<open>Reading a record back\<close>

lemma staged_bytes_fields:
  assumes "length (sm_sha256 r) = 32"
  shows "get_u32 (staged_bytes r @ xs) 0 = SM_MAGIC" "get_u32 (staged_bytes r @ xs) 4 = SM_VERSION"
    "get_u32 (staged_bytes r @ xs) 8 = sm_kind_code (sm_kind r)"
    "get_u32 (staged_bytes r @ xs) 12 = sm_size r"
    "take 32 (drop 16 (staged_bytes r @ xs)) = sm_sha256 r"
    "drop 48 (staged_bytes r @ xs) = padded 128 (sm_name r) @ drop 176 (staged_bytes r @ xs)"
    "drop 176 (staged_bytes r @ xs) = padded 256 (sm_destination r) @ drop 432 (staged_bytes r @ xs)"
    "drop 432 (staged_bytes r @ xs) = padded 40 (sm_target_part_number r) @ drop 472 (staged_bytes r @ xs)"
    "drop 472 (staged_bytes r @ xs) = padded 64 (sm_target_serial r) @ drop 536 (staged_bytes r @ xs)"
    "get_u32 (staged_bytes r @ xs) 536 = crc32_ieee (staged_body r)"
    "take 536 (staged_bytes r @ xs) = staged_body r"
  using assms length_staged_body [OF assms]
  by (simp_all add: get_u32_load length_staged_bytes)
    (simp_all add: staged_bytes_def staged_body_def)

lemma decode_staged_bytes:
  assumes ok: "staged_ok r" and sha: "length (sm_sha256 r) = 32"
  shows "staged_map_decode (Span (staged_bytes r @ xs)) (Some r0) = (SM_OK, Some (cleared r))"
proof -
  define out where "out = staged_bytes r @ xs"
  note f = staged_bytes_fields [OF sha, of xs, folded out_def]
  have s: "get_string out 48 128 = Some (padded 128 (sm_name r))"
    "get_string out 176 256 = Some (padded 256 (sm_destination r))"
    "get_string out 432 40 = Some (padded 40 (sm_target_part_number r))"
    "get_string out 472 64 = Some (padded 64 (sm_target_serial r))"
    using ok get_string_padded [OF f(6)] get_string_padded [OF f(7)] get_string_padded [OF f(8)]
      get_string_padded [OF f(9)] by (simp_all add: staged_ok_def)
  have k: "sm_kind r = SM_KIND_MAP \<or> sm_kind r = SM_KIND_STARTUP_IMAGE" "sm_size r \<noteq> 0"
    using ok by (auto simp: staged_ok_def)
  have len: "540 \<le> length out" using sha by (simp add: out_def length_staged_bytes)
  show ?thesis
    using k len unfolding staged_map_decode_def out_def [symmetric]
    by (auto simp: Let_def f(1-5,10,11) s cleared_def)
qed

text \<open>
  C9. A staged map record survives the card: what the encoder writes is decoded to the same
  record, with the unused bytes of its strings cleared, whatever follows it in the file.
\<close>

theorem staged_map_roundtrip:
  assumes "staged_map_encode (Some r) (Span buf) (Some l) = (SM_OK, Span out, Some n)"
    and "length (sm_sha256 r) = 32"
  shows "n = 540 \<and> length out = length buf
    \<and> staged_map_decode (Span out) (Some r0) = (SM_OK, Some (cleared r))"
proof -
  have cap: "540 \<le> length buf"
    using assms(1) by (auto simp: staged_map_encode_def split: if_splits)
  from assms(1) have ok: "staged_ok r" and out: "out = staged_bytes r @ drop 540 buf" and n: "n = 540"
    unfolding staged_map_encode_outcome [OF assms(2) cap] by (auto split: if_splits)
  have len: "length out = length buf" using cap assms(2) by (simp add: out length_staged_bytes)
  have "staged_map_decode (Span out) (Some r0) = (SM_OK, Some (cleared r))"
    unfolding out by (rule decode_staged_bytes [OF ok assms(2)])
  with n len show ?thesis by simp
qed

definition sample_record :: sm_record where
  "sample_record = \<lparr>sm_kind = SM_KIND_MAP, sm_size = 16, sm_sha256 = replicate 32 7,
     sm_name = ascii ''a.ptm'' @ [0], sm_destination = ascii ''maps/a.ptm'' @ [0, 9],
     sm_target_part_number = ascii ''AP3'' @ [0], sm_target_serial = ascii ''S1'' @ [0]\<rparr>"

lemma sample_record_ok: "staged_ok sample_record" "length (sm_sha256 sample_record) = 32"
  by (simp_all add: staged_ok_def sample_record_def fits_def strnlen_def c_str_def of_char_def)

theorem staged_map_roundtrip_witness:
  "staged_map_decode (Span (staged_bytes sample_record)) (Some sample_record)
     = (SM_OK, Some (cleared sample_record))"
proof -
  have "staged_map_encode (Some sample_record) (Span (replicate 540 0)) (Some 0)
      = (SM_OK, Span (staged_bytes sample_record), Some 540)"
    by (subst staged_map_encode_outcome) (simp_all add: sample_record_ok)
  from staged_map_roundtrip [OF this sample_record_ok(2)] show ?thesis by blast
qed

text \<open>
  The checksum protects the whole record: altering any single byte of an encoded record
  makes the decoder refuse it and leave the caller's record alone.
\<close>

lemma staged_map_detects:
  assumes "staged_map_encode (Some r) (Span buf) (Some l) = (SM_OK, Span out, Some n)"
    and "length (sm_sha256 r) = 32" and "i < 540" and "b \<noteq> out ! i"
  shows "fst (staged_map_decode (Span (out[i := b])) (Some r0)) \<noteq> SM_OK
    \<and> snd (staged_map_decode (Span (out[i := b])) (Some r0)) = Some r0"
proof -
  have cap: "540 \<le> length buf"
    using assms(1) by (auto simp: staged_map_encode_def split: if_splits)
  from assms(1) have out: "out = staged_bytes r @ drop 540 buf"
    unfolding staged_map_encode_outcome [OF assms(2) cap] by (auto split: if_splits)
  note f = staged_bytes_fields [OF assms(2), of "drop 540 buf", folded out]
  have len: "length out = length buf" using cap assms(2) by (simp add: out length_staged_bytes)
  let ?x = "out[i := b]"
  have "get_u32 ?x 536 \<noteq> crc32_ieee (take 536 ?x)"
  proof (cases "i < 536")
    case True
    have "get_u32 ?x 536 = get_u32 out 536" using True by (simp add: get_u32_def)
    moreover have "crc32_ieee (take 536 ?x) \<noteq> crc32_ieee (take 536 out)"
      using crc32_ieee_detects [of i "take 536 out" b] True assms(4) len cap
      by (auto simp: take_update_swap)
    ultimately show ?thesis using f(10,11) by simp
  next
    case False
    have u: "take 4 (drop 536 ?x) = (take 4 (drop 536 out))[i - 536 := b]"
      using False by (simp add: drop_update_swap take_update_swap)
    have "load_u32_le (drop 536 ?x) \<noteq> load_u32_le (drop 536 out)"
    proof
      assume "load_u32_le (drop 536 ?x) = load_u32_le (drop 536 out)"
      then have "store_u32_le (load_u32_le (drop 536 ?x)) = store_u32_le (load_u32_le (drop 536 out))"
        by simp
      then have "take 4 (drop 536 ?x) = take 4 (drop 536 out)"
        using len cap take4_store_load [of "drop 536 ?x"] take4_store_load [of "drop 536 out"] by simp
      moreover have "(take 4 (drop 536 out))[i - 536 := b] ! (i - 536) = b"
        using assms(3) False len cap by (intro nth_list_update_eq) simp
      ultimately have "take 4 (drop 536 out) ! (i - 536) = b" using u by simp
      then show False using assms(3,4) False len cap by simp
    qed
    moreover have "take 536 ?x = take 536 out" using False by simp
    ultimately show ?thesis using f(10,11) len cap by (simp add: get_u32_load)
  qed
  then show ?thesis by (simp add: staged_map_decode_def Let_def)
qed

theorem staged_map_detects_witness:
  "fst (staged_map_decode (Span ((staged_bytes sample_record)[0 := 1])) (Some sample_record)) \<noteq> SM_OK"
proof -
  have enc: "staged_map_encode (Some sample_record) (Span (replicate 540 0)) (Some 0)
      = (SM_OK, Span (staged_bytes sample_record), Some 540)"
    by (subst staged_map_encode_outcome) (simp_all add: sample_record_ok)
  have "(1 :: u8) \<noteq> staged_bytes sample_record ! 0"
    by (simp add: staged_bytes_def staged_body_def store_u32_le_def)
  from staged_map_detects [OF enc sample_record_ok(2) _ this] show ?thesis by simp
qed

section \<open>When a staged map is written\<close>

lemma bounded_equal_iff:
  "bounded_equal a b n \<longleftrightarrow> fits n a \<and> c_str (take n a) = c_str (take n b)"
proof -
  have "strnlen b n = strnlen a n \<and> take (strnlen a n) a = take (strnlen a n) b
      \<longleftrightarrow> c_str (take n a) = c_str (take n b)"
    using strnlen_prefix [of a n] strnlen_prefix [of b n] by (metis strnlen_def)
  then show ?thesis by (auto simp: bounded_equal_def fits_def Let_def not_le)
qed

text \<open>
  The decision permits a device write exactly when every gate is open: the build and both
  owner switches, a staged payload that names its target, an identified device with exactly
  that serial and part number, a clean and complete sync, no transfer or recovery, and no
  earlier attempt on this attachment. In particular a map staged for one AccessPort is never
  applied to another.
\<close>

lemma apply_allowed_exact:
  "evaluate_apply (Some c) = APPLY_ALLOWED \<longleftrightarrow>
     ax_writes_compiled c \<and> ax_consent_enabled c \<and> ax_auto_apply_enabled c \<and> ax_staged c
     \<and> ax_device_identified c
     \<and> fits 64 (ax_target_serial c) \<and> fits 40 (ax_target_part_number c)
     \<and> c_str (take 64 (ax_target_serial c)) = c_str (take 64 (ax_attached_serial c))
     \<and> c_str (take 40 (ax_target_part_number c)) = c_str (take 40 (ax_attached_part_number c))
     \<and> \<not> ax_recovery_required c \<and> \<not> ax_already_attempted_this_attach c
     \<and> \<not> ax_transfer_running c \<and> ax_sync_completed_clean c \<and> ax_sync_pending c = 0"
proof -
  have "0 < strnlen (ax_attached_serial c) 64"
    if "fits 64 (ax_target_serial c)"
      "c_str (take 64 (ax_target_serial c)) = c_str (take 64 (ax_attached_serial c))"
    using that by (simp add: fits_def strnlen_def)
  then show ?thesis by (auto simp: bounded_equal_iff) (auto simp: fits_def)
qed

text \<open>
  A decision that asks to be evaluated again describes only the transfer or the sync: with
  the same build, owner, staging, identity and recovery state and the work finished, the write
  is allowed; any other refusal stays a refusal however the sync and the transfer go on.
\<close>

lemma apply_transient_exact:
  "apply_decision_is_transient (evaluate_apply (Some c)) \<longleftrightarrow>
     evaluate_apply (Some c) \<noteq> APPLY_ALLOWED \<and>
     evaluate_apply (Some (c\<lparr>ax_transfer_running := False, ax_sync_completed_clean := True,
       ax_sync_pending := 0\<rparr>)) = APPLY_ALLOWED"
  by simp

end
