(* ===== verification/Keyed_Table.thy ===== *)
theory Keyed_Table
  imports Text_Codec "HOL-Library.Multiset"
begin

text \<open>
  Tables with a key, kept in an array with a count: the linear search, the update in place or
  append, the removal that moves the last row into the gap and the removal that shifts the
  tail. The lemmas give their meaning as a map from keys to rows.
\<close>

section \<open>The array operations\<close>

text \<open>The index the search loop stops at: of the first match, or the count.\<close>

definition index_of :: "('e \<Rightarrow> bool) \<Rightarrow> 'e list \<Rightarrow> nat" where
  "index_of P xs = length (takeWhile (\<lambda>x. \<not> P x) xs)"

definition put_row :: "nat \<Rightarrow> 'e \<Rightarrow> 'e list \<Rightarrow> 'e list" where
  "put_row i e xs = (if i < length xs then xs[i := e] else xs @ [e])"

definition swap_remove :: "nat \<Rightarrow> 'e list \<Rightarrow> 'e list" where
  "swap_remove i xs = butlast (if i + 1 < length xs then xs[i := last xs] else xs)"

definition shift_remove :: "nat \<Rightarrow> 'e list \<Rightarrow> 'e list" where
  "shift_remove i xs = take i xs @ drop (i + 1) xs"

section \<open>Their meaning\<close>

lemma index_of_le: "index_of P xs \<le> length xs"
  by (simp add: index_of_def length_takeWhile_le)

lemma index_of_less_iff: "index_of P xs < length xs \<longleftrightarrow> (\<exists>x \<in> set xs. P x)"
  unfolding index_of_def
  by (metis length_takeWhile_le takeWhile_eq_all_conv nat_less_le nth_length_takeWhile nth_mem
      takeWhile_eq_take take_all_iff)

lemma index_of_nth: "index_of P xs < length xs \<Longrightarrow> P (xs ! index_of P xs)"
  unfolding index_of_def using nth_length_takeWhile by fastforce

lemma index_of_none: "\<not> index_of P xs < length xs \<Longrightarrow> \<forall>x \<in> set xs. \<not> P x"
  using index_of_less_iff by blast

lemma find_index_of: "find P xs = (if index_of P xs < length xs then Some (xs ! index_of P xs) else None)"
  by (induction xs) (auto simp: index_of_def)

lemma find_key_iff:
  "distinct (map key xs) \<Longrightarrow> find (\<lambda>x. key x = k) xs = Some e \<longleftrightarrow> e \<in> set xs \<and> key e = k"
  by (induction xs) (auto simp: image_iff)

lemma find_key_None: "find (\<lambda>x. key x = k) xs = None \<longleftrightarrow> k \<notin> key ` set xs"
  by (auto simp: find_None_iff)

lemma find_key_eqI:
  assumes "distinct (map key xs)" and "distinct (map key ys)"
    and "\<And>e. key e = k \<Longrightarrow> e \<in> set xs \<longleftrightarrow> e \<in> set ys"
  shows "find (\<lambda>x. key x = k) xs = find (\<lambda>x. key x = k) ys"
proof (cases "find (\<lambda>x. key x = k) ys")
  case None
  then have "k \<notin> key ` set xs" using assms(3) find_key_None [of key k ys] by auto
  then show ?thesis using None find_key_None [of key k xs] by simp
next
  case (Some e)
  then show ?thesis using find_key_iff [OF assms(1)] find_key_iff [OF assms(2)] assms(3) by metis
qed

lemma swap_remove_mset: "i < length xs \<Longrightarrow> mset xs = mset (xs ! i # swap_remove i xs)"
proof -
  assume i: "i < length xs"
  then have "xs \<noteq> []" by auto
  then have last: "mset ys = add_mset (last ys) (mset (butlast ys))" if "ys \<noteq> []" for ys :: "'a list"
    using that append_butlast_last_id [of ys] by (metis mset_append mset.simps add_mset_add_single)
  show ?thesis
  proof (cases "i + 1 < length xs")
    case False
    then have "i = length xs - 1" using i by simp
    then have "xs ! i = last xs" using \<open>xs \<noteq> []\<close> last_conv_nth [of xs] by simp
    then show ?thesis using last [OF \<open>xs \<noteq> []\<close>] False by (simp add: swap_remove_def)
  next
    case True
    let ?ys = "xs[i := last xs]"
    have "last ?ys = last xs" using True \<open>xs \<noteq> []\<close> by (simp add: last_list_update)
    then have "add_mset (last xs) (mset (butlast ?ys)) = mset ?ys"
      using last [of ?ys] \<open>xs \<noteq> []\<close> by simp
    also have "\<dots> = add_mset (last xs) (mset xs - {#xs ! i#})" using i by (rule mset_update)
    finally show ?thesis using True i by (simp add: swap_remove_def)
  qed
qed

lemma shift_remove_mset: "i < length xs \<Longrightarrow> mset xs = mset (xs ! i # shift_remove i xs)"
proof -
  assume "i < length xs"
  then have "xs = take i xs @ xs ! i # drop (i + 1) xs" by (simp add: Cons_nth_drop_Suc)
  then have "mset xs = mset (take i xs @ xs ! i # drop (i + 1) xs)" by simp
  then show ?thesis by (simp add: shift_remove_def)
qed

text \<open>A table with one row less.\<close>

lemma removed_row:
  assumes "mset xs = mset (x # ys)" and "distinct (map key xs)"
  shows "distinct (map key ys)" and "key x \<notin> key ` set ys" and "set xs = insert x (set ys)"
    and "length xs = Suc (length ys)"
proof -
  have "mset (map key xs) = mset (map key (x # ys))" using assms(1) by simp
  then have "distinct (map key (x # ys))" using assms(2) mset_eq_imp_distinct_iff by blast
  then show "distinct (map key ys)" "key x \<notin> key ` set ys" by simp_all
  show "set xs = insert x (set ys)" using mset_eq_setD [OF assms(1)] by simp
  show "length xs = Suc (length ys)" using mset_eq_length [OF assms(1)] by simp
qed

lemma find_removed:
  assumes "mset xs = mset (x # ys)" and "distinct (map key xs)"
  shows "find (\<lambda>e. key e = k) ys = (if k = key x then None else find (\<lambda>e. key e = k) xs)"
proof (cases "k = key x")
  case True
  then show ?thesis using removed_row(2) [OF assms] by (simp add: find_key_None)
next
  case False
  then show ?thesis
    using removed_row [OF assms] assms(2) by (auto intro: find_key_eqI)
qed

text \<open>A table with one row put at its key.\<close>

lemma put_row_set:
  fixes key :: "'e \<Rightarrow> 'k" and e :: 'e
  assumes "distinct (map key xs)"
  defines "i \<equiv> index_of (\<lambda>x. key x = key e) xs"
  shows "set (put_row i e xs) = insert e {x \<in> set xs. key x \<noteq> key e}"
    and "distinct (map key (put_row i e xs))"
    and "length (put_row i e xs) = (if i < length xs then length xs else Suc (length xs))"
proof -
  have "set (put_row i e xs) = insert e {x \<in> set xs. key x \<noteq> key e} \<and> distinct (map key (put_row i e xs))"
  proof (cases "i < length xs")
    case False
    then show ?thesis
      using index_of_none [of "\<lambda>x. key x = key e" xs] assms by (auto simp: put_row_def)
  next
    case True
    have k: "key (xs ! i) = key e" using index_of_nth True unfolding i_def by fastforce
    have map: "map key (xs[i := e]) = map key xs"
      using True k by (simp add: map_update list_update_same_conv)
    have "x = xs ! i" if "x \<in> set xs" "key x = key e" for x
      using assms(1) that nth_mem [OF True] k unfolding distinct_map inj_on_def by metis
    then have "{x \<in> set xs. key x \<noteq> key e} = set xs - {xs ! i}"
      using k by blast
    moreover have "distinct xs" using assms(1) by (simp add: distinct_map)
    ultimately have "set (xs[i := e]) = insert e {x \<in> set xs. key x \<noteq> key e}"
      using set_update_distinct [OF _ True, of e] by simp
    moreover have "distinct (map key (xs[i := e]))" unfolding map by (rule assms(1))
    ultimately show ?thesis using True by (simp only: put_row_def if_True)
  qed
  then show "set (put_row i e xs) = insert e {x \<in> set xs. key x \<noteq> key e}"
    "distinct (map key (put_row i e xs))" by blast+
  show "length (put_row i e xs) = (if i < length xs then length xs else Suc (length xs))"
    by (simp add: put_row_def)
qed

lemma find_put_row:
  assumes "distinct (map key xs)"
  shows "find (\<lambda>x. key x = k) (put_row (index_of (\<lambda>x. key x = key e) xs) e xs)
    = (if k = key e then Some e else find (\<lambda>x. key x = k) xs)"
proof (cases "k = key e")
  case True
  then show ?thesis
    using put_row_set [OF assms, of e] find_key_iff [OF put_row_set(2) [OF assms, of e]] by auto
next
  case False
  then show ?thesis
    using put_row_set [OF assms, of e] assms by (auto intro: find_key_eqI)
qed

lemma shift_remove_update [simp]: "shift_remove i (xs[i := x]) = shift_remove i xs"
  by (simp add: shift_remove_def)

lemma put_row_less: "i < length xs \<Longrightarrow> xs[i := e] = put_row i e xs"
  by (simp add: put_row_def)

lemma shift_remove_put [simp]: "i < length xs \<Longrightarrow> shift_remove i (put_row i e xs) = shift_remove i xs"
  by (simp add: put_row_def)

text \<open>The removal at the index of a key, of either kind, drops exactly that key.\<close>

lemma removal_at_key:
  assumes "distinct (map key xs)" and "i = index_of (\<lambda>x. key x = k) xs" and "i < length xs"
    and "mset xs = mset (xs ! i # ys)"
  shows "find (\<lambda>x. key x = k') ys = (if k' = k then None else find (\<lambda>x. key x = k') xs)"
    and "distinct (map key ys)" and "set ys \<subseteq> set xs" and "length ys < length xs"
proof -
  have "key (xs ! i) = k" using index_of_nth assms(2,3) by fastforce
  then show "find (\<lambda>x. key x = k') ys = (if k' = k then None else find (\<lambda>x. key x = k') xs)"
    using find_removed [OF assms(4,1)] by simp
  show "distinct (map key ys)" "set ys \<subseteq> set xs" "length ys < length xs"
    using removed_row [OF assms(4,1)] by auto
qed

end
