(* ===== verification/Sync_Manifest.thy ===== *)
theory Sync_Manifest
  imports Keyed_Table
begin

text \<open>
  The sync manifest (revlink_sync/revlink_sync_manifest.c): the catalogue of the files on the
  card, keyed by their path on the device, with its text form.

  A manifest is the list of its first \<open>count\<close> entries. The character arrays of an entry are
  only ever cleared and then filled with a string that fits; the model keeps that string. A
  digest argument is a pointer to 32 bytes.
\<close>

section \<open>Data\<close>

datatype manifest_status = MF_OK | MF_INVALID_ARGUMENT | MF_INVALID_FORMAT | MF_CAPACITY_EXCEEDED
  | MF_BUFFER_TOO_SMALL | MF_ALLOCATION_FAILED

fun manifest_status_name :: "manifest_status \<Rightarrow> string" where
  "manifest_status_name MF_OK = ''ok''"
| "manifest_status_name MF_INVALID_ARGUMENT = ''invalid argument''"
| "manifest_status_name MF_INVALID_FORMAT = ''invalid format''"
| "manifest_status_name MF_CAPACITY_EXCEEDED = ''capacity exceeded''"
| "manifest_status_name MF_BUFFER_TOO_SMALL = ''buffer too small''"
| "manifest_status_name MF_ALLOCATION_FAILED = ''allocation failed''"

datatype sync_presence = PRESENCE_UNKNOWN | PRESENCE_ON_DEVICE | PRESENCE_ABSENT

fun sync_presence_name :: "sync_presence \<Rightarrow> string" where
  "sync_presence_name PRESENCE_ON_DEVICE = ''on-device''"
| "sync_presence_name PRESENCE_ABSENT = ''absent''"
| "sync_presence_name PRESENCE_UNKNOWN = ''unknown''"

record manifest_entry =
  me_path :: "u8 list"
  me_device_time_raw :: u32
  me_size :: u32
  me_initial_sync_utc :: u64
  me_sha256 :: "u8 list"
  me_cache_name :: "u8 list"
  me_presence :: sync_presence

type_synonym manifest = "manifest_entry list"

abbreviation (input) SYNC_MANIFEST_CAPACITY :: nat where "SYNC_MANIFEST_CAPACITY \<equiv> 128"

definition MANIFEST_HEADER_V1 :: "u8 list" where
  "MANIFEST_HEADER_V1 = ascii ''REVLINK-MANIFEST'' @ [TAB] @ ascii ''1'' @ [NEWLINE]"

definition MANIFEST_HEADER_V2 :: "u8 list" where
  "MANIFEST_HEADER_V2 = ascii ''REVLINK-MANIFEST'' @ [TAB] @ ascii ''2'' @ [NEWLINE]"

definition MANIFEST_HEADER_V3 :: "u8 list" where
  "MANIFEST_HEADER_V3 = ascii ''REVLINK-MANIFEST'' @ [TAB] @ ascii ''3'' @ [NEWLINE]"

section \<open>The operations\<close>

fun sync_manifest_init :: "manifest option \<Rightarrow> manifest option" where
  "sync_manifest_init None = None"
| "sync_manifest_init (Some m) = Some []"

definition has_path :: "u8 list \<Rightarrow> manifest_entry \<Rightarrow> bool" where
  "has_path path entry \<longleftrightarrow> me_path entry = path"

definition sync_manifest_find :: "manifest option \<Rightarrow> u8 span \<Rightarrow> manifest_entry option" where
  "sync_manifest_find manifest path =
     (case manifest of
        None \<Rightarrow> None
      | Some m \<Rightarrow> if \<not> valid_path_bytes path then None else find (has_path (sbytes path)) m)"

fun sync_manifest_metadata_matches :: "manifest_entry option \<Rightarrow> u32 \<Rightarrow> u32 \<Rightarrow> bool" where
  "sync_manifest_metadata_matches None device_time_raw fsize = False"
| "sync_manifest_metadata_matches (Some entry) device_time_raw fsize \<longleftrightarrow>
     device_time_raw \<noteq> 0 \<and> me_device_time_raw entry = device_time_raw \<and> me_size entry = fsize"

definition sync_manifest_upsert_at ::
  "manifest option \<Rightarrow> u8 span \<Rightarrow> u32 \<Rightarrow> u32 \<Rightarrow> u64 \<Rightarrow> u8 list option \<Rightarrow> u8 list option
   \<Rightarrow> manifest_status \<times> manifest option" where
  "sync_manifest_upsert_at manifest path device_time_raw fsize initial_sync_utc sha256 cache_name =
     (case (manifest, sha256, cache_name) of
        (Some m, Some digest, Some name) \<Rightarrow>
          if fsize = 0 \<or> \<not> valid_path_bytes path \<or> \<not> valid_cache_name (Some name)
          then (MF_INVALID_ARGUMENT, manifest)
          else
            let target = index_of (has_path (sbytes path)) m;
                had_entry = target < length m
            in if target = length m \<and> length m \<ge> SYNC_MANIFEST_CAPACITY
               then (MF_CAPACITY_EXCEEDED, manifest)
               else
                 let same_version = (had_entry \<and> me_sha256 (m ! target) = digest);
                     preserved_initial_sync =
                       (if same_version then me_initial_sync_utc (m ! target) else initial_sync_utc);
                     preserved_presence =
                       (if had_entry then me_presence (m ! target) else PRESENCE_UNKNOWN)
                 in (MF_OK, Some (put_row target
                      \<lparr>me_path = sbytes path, me_device_time_raw = device_time_raw, me_size = fsize,
                       me_initial_sync_utc = preserved_initial_sync, me_sha256 = digest,
                       me_cache_name = c_str name, me_presence = preserved_presence\<rparr> m))
      | _ \<Rightarrow> (MF_INVALID_ARGUMENT, manifest))"

definition sync_manifest_upsert ::
  "manifest option \<Rightarrow> u8 span \<Rightarrow> u32 \<Rightarrow> u32 \<Rightarrow> u8 list option \<Rightarrow> u8 list option
   \<Rightarrow> manifest_status \<times> manifest option" where
  "sync_manifest_upsert manifest path device_time_raw fsize sha256 cache_name =
     sync_manifest_upsert_at manifest path device_time_raw fsize 0 sha256 cache_name"

definition sync_manifest_set_presence ::
  "manifest option \<Rightarrow> u8 span \<Rightarrow> sync_presence \<Rightarrow> bool \<times> manifest option" where
  "sync_manifest_set_presence manifest path presence =
     (case manifest of
        None \<Rightarrow> (False, manifest)
      | Some m \<Rightarrow>
          if \<not> valid_path_bytes path then (False, manifest)
          else
            let index = index_of (has_path (sbytes path)) m in
            if index < length m then (True, Some (m[index := (m ! index)\<lparr>me_presence := presence\<rparr>]))
            else (False, manifest))"

definition sync_manifest_remove :: "manifest option \<Rightarrow> u8 span \<Rightarrow> bool \<times> manifest option" where
  "sync_manifest_remove manifest path =
     (case manifest of
        None \<Rightarrow> (False, manifest)
      | Some m \<Rightarrow>
          if \<not> valid_path_bytes path then (False, manifest)
          else
            let index = index_of (has_path (sbytes path)) m in
            if index < length m then (True, Some (swap_remove index m)) else (False, manifest))"

definition sync_manifest_digest_users :: "manifest option \<Rightarrow> u8 list option \<Rightarrow> nat" where
  "sync_manifest_digest_users manifest sha256 =
     (case (manifest, sha256) of
        (Some m, Some digest) \<Rightarrow> length (filter (\<lambda>entry. me_sha256 entry = digest) m)
      | _ \<Rightarrow> 0)"

section \<open>Writing\<close>

fun presence_text :: "sync_presence \<Rightarrow> u8 list" where
  "presence_text PRESENCE_ON_DEVICE = ascii ''1''"
| "presence_text PRESENCE_ABSENT = ascii ''2''"
| "presence_text PRESENCE_UNKNOWN = ascii ''0''"

definition entry_prefix :: "manifest_entry \<Rightarrow> u8 list" where
  "entry_prefix e =
     me_path e @ [TAB] @ dec_text (unat (me_device_time_raw e)) @ [TAB] @ dec_text (unat (me_size e))
       @ [TAB] @ dec_text (unat (me_initial_sync_utc e)) @ [TAB]"

definition serialize_entry :: "manifest_entry \<Rightarrow> text_writer \<Rightarrow> manifest_status serialize_stop + text_writer" where
  "serialize_entry e w =
     (if \<not> valid_path_bytes (Span (me_path e)) \<or> \<not> valid_cache_name (Some (me_cache_name e))
         \<or> me_size e = 0
      then Inl (MF_INVALID_ARGUMENT, None, tw_buffer w)
      else if length (entry_prefix e) \<ge> SYNC_PATH_CAPACITY + 64
      then Inl (MF_INVALID_ARGUMENT, None, tw_buffer w)
      else append_or MF_BUFFER_TOO_SMALL [entry_prefix e, hex_text (me_sha256 e), [TAB], me_cache_name e, [TAB],
             presence_text (me_presence e), [NEWLINE]] w)"

fun serialize_entries :: "manifest_entry list \<Rightarrow> text_writer \<Rightarrow> manifest_status serialize_stop + text_writer" where
  "serialize_entries [] w = Inr w"
| "serialize_entries (e # es) w =
     (case serialize_entry e w of Inl stop \<Rightarrow> Inl stop | Inr w' \<Rightarrow> serialize_entries es w')"

definition sync_manifest_serialize ::
  "manifest option \<Rightarrow> u8 span \<Rightarrow> nat option \<Rightarrow> manifest_status \<times> u8 span \<times> nat option" where
  "sync_manifest_serialize manifest output output_length =
     (case (manifest, output_length) of
        (Some m, Some len) \<Rightarrow>
          if null_with_length output \<or> length m > SYNC_MANIFEST_CAPACITY
          then (MF_INVALID_ARGUMENT, output, output_length)
          else
            serialize_result MF_OK output output_length
              (case append_or MF_BUFFER_TOO_SMALL [MANIFEST_HEADER_V3]
                      \<lparr>tw_buffer = sbytes output, tw_used = 0\<rparr> of
                 Inl stop \<Rightarrow> Inl stop
               | Inr w \<Rightarrow> serialize_entries m w)
      | _ \<Rightarrow> (MF_INVALID_ARGUMENT, output, output_length))"

section \<open>Reading\<close>

definition manifest_version :: "u8 list \<Rightarrow> (nat \<times> nat) option" where
  "manifest_version input =
     (if starts_with MANIFEST_HEADER_V3 input then Some (3, length MANIFEST_HEADER_V3)
      else if starts_with MANIFEST_HEADER_V2 input then Some (2, length MANIFEST_HEADER_V2)
      else if starts_with MANIFEST_HEADER_V1 input then Some (1, length MANIFEST_HEADER_V1)
      else None)"

definition parse_presence :: "nat \<Rightarrow> u8 list list \<Rightarrow> sync_presence option" where
  "parse_presence version fs =
     (if version \<noteq> 3 then Some PRESENCE_UNKNOWN
      else if length (fs ! 6) \<noteq> 1 then None
      else if fs ! 6 = ascii ''0'' then Some PRESENCE_UNKNOWN
      else if fs ! 6 = ascii ''1'' then Some PRESENCE_ON_DEVICE
      else if fs ! 6 = ascii ''2'' then Some PRESENCE_ABSENT
      else None)"

text \<open>The cache name is copied into a buffer and terminated; its string ends at the first NUL.\<close>

definition read_entry :: "nat \<Rightarrow> u8 list \<Rightarrow> manifest_entry option" where
  "read_entry version line =
     do { fs \<leftarrow> line_fields line;
          let version_two = (version \<ge> 2);
          let expected_fields = (if version = 3 then 7 else if version_two then 6 else 5);
          let cache_field = (if version_two then 5 else 4);
          let digest_field = (if version_two then 4 else 3);
          (if length fs \<noteq> expected_fields \<or> \<not> valid_path_bytes (Span (fs ! 0))
             \<or> length (fs ! cache_field) \<ge> SYNC_CACHE_NAME_CAPACITY then None else Some ());
          let cache_name = c_str (fs ! cache_field);
          device_time_raw \<leftarrow> parse_u32 (fs ! 1);
          fsize \<leftarrow> parse_u32 (fs ! 2);
          initial_sync_utc \<leftarrow> (if version_two then parse_u64 (fs ! 3) else Some 0);
          digest \<leftarrow> parse_digest (fs ! digest_field);
          (if fsize = 0 \<or> \<not> valid_cache_name (Some cache_name) then None else Some ());
          presence \<leftarrow> parse_presence version fs;
          Some \<lparr>me_path = fs ! 0, me_device_time_raw = device_time_raw, me_size = fsize,
            me_initial_sync_utc = initial_sync_utc, me_sha256 = digest,
            me_cache_name = cache_name, me_presence = presence\<rparr> }"

definition parse_manifest_line :: "nat \<Rightarrow> u8 list \<Rightarrow> manifest \<Rightarrow> manifest_status + manifest" where
  "parse_manifest_line version line parsed =
     (case read_entry version line of
        None \<Rightarrow> Inl MF_INVALID_FORMAT
      | Some e \<Rightarrow>
          (case sync_manifest_upsert_at (Some parsed) (Span (me_path e)) (me_device_time_raw e)
                  (me_size e) (me_initial_sync_utc e) (Some (me_sha256 e)) (Some (me_cache_name e)) of
             (status, table) \<Rightarrow>
               if status \<noteq> MF_OK
               then Inl (if status = MF_CAPACITY_EXCEEDED then status else MF_INVALID_FORMAT)
               else Inr (the (snd (sync_manifest_set_presence table (Span (me_path e)) (me_presence e))))))"

text \<open>\<open>allocated\<close> is the outcome of \<open>calloc\<close>.\<close>

definition sync_manifest_parse ::
  "bool \<Rightarrow> u8 span \<Rightarrow> manifest option \<Rightarrow> manifest_status \<times> manifest option" where
  "sync_manifest_parse allocated input manifest =
     (if is_null input \<or> manifest = None then (MF_INVALID_FORMAT, manifest)
      else case manifest_version (sbytes input) of
        None \<Rightarrow> (MF_INVALID_FORMAT, manifest)
      | Some (version, header_length) \<Rightarrow>
          if \<not> allocated then (MF_ALLOCATION_FAILED, manifest)
          else (case parse_lines MF_INVALID_FORMAT (parse_manifest_line version)
                       (drop header_length (sbytes input)) [] of
                  Inl status \<Rightarrow> (status, manifest)
                | Inr parsed \<Rightarrow> (MF_OK, Some parsed)))"

section \<open>The invariant\<close>

definition entry_ok :: "manifest_entry \<Rightarrow> bool" where
  "entry_ok e \<longleftrightarrow>
     valid_path_bytes (Span (me_path e)) \<and> valid_cache_name (Some (me_cache_name e))
     \<and> 0 \<notin> set (me_cache_name e) \<and> me_size e \<noteq> 0 \<and> length (me_sha256 e) = SYNC_SHA256_BYTES"

definition manifest_ok :: "manifest \<Rightarrow> bool" where
  "manifest_ok m \<longleftrightarrow>
     length m \<le> SYNC_MANIFEST_CAPACITY \<and> distinct (map me_path m) \<and> list_all entry_ok m"

lemma has_path_eq: "has_path p = (\<lambda>e. me_path e = p)"
  by (simp add: has_path_def fun_eq_iff)

text \<open>What an accepted upsert stores.\<close>

definition upserted ::
  "manifest \<Rightarrow> u8 list \<Rightarrow> u32 \<Rightarrow> u32 \<Rightarrow> u64 \<Rightarrow> u8 list \<Rightarrow> u8 list \<Rightarrow> manifest_entry" where
  "upserted m path device_time_raw fsize utc digest name =
     (let old = find (has_path path) m in
      \<lparr>me_path = path, me_device_time_raw = device_time_raw, me_size = fsize,
       me_initial_sync_utc = (case old of None \<Rightarrow> utc
         | Some e \<Rightarrow> if me_sha256 e = digest then me_initial_sync_utc e else utc),
       me_sha256 = digest, me_cache_name = c_str name,
       me_presence = (case old of None \<Rightarrow> PRESENCE_UNKNOWN | Some e \<Rightarrow> me_presence e)\<rparr>)"

lemma upsert_cases:
  assumes "sync_manifest_upsert_at (Some m) path t n utc (Some digest) (Some name) = (status, m')"
  shows "(status \<noteq> MF_OK \<and> m' = Some m
      \<and> (status = MF_CAPACITY_EXCEEDED \<longrightarrow> length m \<ge> SYNC_MANIFEST_CAPACITY))
    \<or> (status = MF_OK \<and> n \<noteq> 0 \<and> valid_path_bytes path \<and> valid_cache_name (Some name)
      \<and> (\<not> index_of (has_path (sbytes path)) m < length m \<longrightarrow> length m < SYNC_MANIFEST_CAPACITY)
      \<and> m' = Some (put_row (index_of (has_path (sbytes path)) m)
            (upserted m (sbytes path) t n utc digest name) m))"
proof -
  let ?i = "index_of (has_path (sbytes path)) m"
  have "?i = length m \<longleftrightarrow> \<not> ?i < length m" using index_of_le [of "has_path (sbytes path)" m] by linarith
  then show ?thesis
    using assms
    by (auto simp: sync_manifest_upsert_at_def upserted_def find_index_of Let_def split: if_splits)
qed

lemma upsert_status:
  "fst (sync_manifest_upsert_at (Some m) path t n utc (Some digest) (Some name)) =
     (if n = 0 \<or> \<not> valid_path_bytes path \<or> \<not> valid_cache_name (Some name) then MF_INVALID_ARGUMENT
      else if sbytes path \<notin> set (map me_path m) \<and> SYNC_MANIFEST_CAPACITY \<le> length m then MF_CAPACITY_EXCEEDED
      else MF_OK)"
proof -
  let ?i = "index_of (has_path (sbytes path)) m"
  have "?i = length m \<longleftrightarrow> \<not> ?i < length m" using index_of_le [of "has_path (sbytes path)" m] by linarith
  moreover have "?i < length m \<longleftrightarrow> sbytes path \<in> set (map me_path m)"
    using index_of_less_iff [of "has_path (sbytes path)" m] by (auto simp: has_path_def intro: rev_image_eqI)
  ultimately show ?thesis
    by (auto simp: sync_manifest_upsert_at_def Let_def)
qed

lemma upserted_simps [simp]:
  "me_path (upserted m path t n utc digest name) = path"
  "me_sha256 (upserted m path t n utc digest name) = digest"
  "me_size (upserted m path t n utc digest name) = n"
  "me_cache_name (upserted m path t n utc digest name) = c_str name"
  by (simp_all add: upserted_def Let_def)

lemma c_str_idem [simp]: "c_str (c_str xs) = c_str xs"
  by (simp add: c_str_id c_str_no_nul)

lemma upsert_ok:
  assumes "manifest_ok m" and "length digest = SYNC_SHA256_BYTES"
    and "sync_manifest_upsert_at (Some m) path t n utc (Some digest) (Some name) = (status, Some m')"
  shows "manifest_ok m'"
proof -
  let ?e = "upserted m (sbytes path) t n utc digest name"
  from upsert_cases [OF assms(3)] consider "m' = m"
    | "n \<noteq> 0" "valid_path_bytes path" "valid_cache_name (Some name)"
      "\<not> index_of (has_path (sbytes path)) m < length m \<longrightarrow> length m < SYNC_MANIFEST_CAPACITY"
      "m' = put_row (index_of (has_path (sbytes path)) m) ?e m" by auto
  then show ?thesis
  proof cases
    case 1
    then show ?thesis using assms(1) by simp
  next
    case 2
    have "entry_ok ?e" using 2(1-3) assms(2)
      by (cases path) (auto simp: entry_ok_def valid_path_bytes_def valid_cache_name_def c_str_no_nul)
    moreover have "distinct (map me_path m)" using assms(1) by (simp add: manifest_ok_def)
    note put_row_set [OF this, of ?e]
    ultimately show ?thesis using 2(4,5) assms(1)
      by (auto simp: manifest_ok_def has_path_eq list_all_iff split: if_splits)
  qed
qed

lemma set_presence_cases:
  assumes "sync_manifest_set_presence (Some m) path presence = (found, m')"
  shows "(\<not> found \<and> m' = Some m \<and> (valid_path_bytes path \<longrightarrow> find (has_path (sbytes path)) m = None))
    \<or> (found \<and> valid_path_bytes path \<and> (\<exists>e. find (has_path (sbytes path)) m = Some e \<and> me_path e = sbytes path
        \<and> e \<in> set m
        \<and> m' = Some (put_row (index_of (has_path (sbytes path)) m) (e\<lparr>me_presence := presence\<rparr>) m)))"
  using assms index_of_nth [of "has_path (sbytes path)" m]
  by (auto simp: sync_manifest_set_presence_def find_index_of put_row_def has_path_def Let_def
      split: if_splits)

lemma remove_cases:
  assumes "sync_manifest_remove (Some m) path = (found, m')"
  shows "(\<not> found \<and> m' = Some m \<and> (valid_path_bytes path \<longrightarrow> find (has_path (sbytes path)) m = None))
    \<or> (found \<and> valid_path_bytes path \<and> (\<exists>e rest. find (has_path (sbytes path)) m = Some e \<and> me_path e = sbytes path
        \<and> m' = Some rest \<and> mset m = mset (e # rest)))"
  using assms index_of_nth [of "has_path (sbytes path)" m]
    swap_remove_mset [of "index_of (has_path (sbytes path)) m" m]
  by (auto simp: sync_manifest_remove_def find_index_of has_path_def Let_def simp del: mset.simps
      split: if_splits)

lemma set_presence_ok:
  assumes "manifest_ok m" and "sync_manifest_set_presence (Some m) path presence = (found, Some m')"
  shows "manifest_ok m'"
proof -
  from set_presence_cases [OF assms(2)] consider "m' = m"
    | e where "me_path e = sbytes path" "e \<in> set m"
      "m' = put_row (index_of (has_path (sbytes path)) m) (e\<lparr>me_presence := presence\<rparr>) m" by auto
  then show ?thesis
  proof cases
    case 1
    then show ?thesis using assms(1) by simp
  next
    case 2
    have "entry_ok e" using assms(1) 2(2) by (simp add: manifest_ok_def list_all_iff)
    then have "entry_ok (e\<lparr>me_presence := presence\<rparr>)" by (simp add: entry_ok_def)
    moreover have "distinct (map me_path m)" using assms(1) by (simp add: manifest_ok_def)
    note put_row_set [OF this, of "e\<lparr>me_presence := presence\<rparr>"]
    moreover have "index_of (has_path (sbytes path)) m < length m"
      using 2(1,2) index_of_less_iff [of "has_path (sbytes path)" m] by (auto simp: has_path_def)
    ultimately show ?thesis using 2(1,3) assms(1)
      by (auto simp: manifest_ok_def has_path_eq list_all_iff)
  qed
qed

lemma remove_ok:
  assumes "manifest_ok m" and "sync_manifest_remove (Some m) path = (found, Some m')"
  shows "manifest_ok m'"
proof -
  from remove_cases [OF assms(2)] consider "m' = m" | e where "mset m = mset (e # m')" by auto
  then show ?thesis
  proof cases
    case 2
    from removed_row [OF this, of me_path] assms(1) show ?thesis
      by (auto simp: manifest_ok_def list_all_iff)
  qed (use assms(1) in simp)
qed

section \<open>The table as a map\<close>

text \<open>
  The specification of the table: a map from paths to entries. Order and position of the
  entries are not part of it.
\<close>

definition catalogue :: "manifest \<Rightarrow> u8 list \<Rightarrow> manifest_entry option" where
  "catalogue m = map_of (map (\<lambda>e. (me_path e, e)) m)"

lemma catalogue_find: "catalogue m path = find (has_path path) m"
  by (induction m) (auto simp: catalogue_def has_path_def)

lemma catalogue_dom:
  "dom (catalogue m) = set (map me_path m)"
  by (simp add: catalogue_def dom_map_of_conv_image_fst image_comp comp_def)

lemma catalogue_put:
  assumes "distinct (map me_path m)"
  shows "catalogue (put_row (index_of (has_path (me_path e)) m) e m) = (catalogue m)(me_path e \<mapsto> e)"
  using find_put_row [OF assms, of _ e] by (simp add: catalogue_find has_path_eq fun_eq_iff)

lemma catalogue_removed:
  assumes "distinct (map me_path m)" and "mset m = mset (e # rest)"
  shows "catalogue rest = (catalogue m)(me_path e := None)"
  using find_removed [OF assms(2,1)] by (simp add: catalogue_find has_path_eq fun_eq_iff)

lemma manifest_map_laws:
  assumes "manifest_ok m"
  shows "sync_manifest_find (Some m) path = (if valid_path_bytes path then catalogue m (sbytes path) else None)"
    and "case sync_manifest_upsert_at (Some m) path t n utc (Some digest) (Some name) of
      (status, m') \<Rightarrow>
        if status = MF_OK
        then catalogue (the m') = (catalogue m)(sbytes path \<mapsto> upserted m (sbytes path) t n utc digest name)
        else m' = Some m \<and> (status = MF_CAPACITY_EXCEEDED \<longrightarrow> length m = SYNC_MANIFEST_CAPACITY)"
    and "case sync_manifest_set_presence (Some m) path presence of
      (found, m') \<Rightarrow>
        found = (sync_manifest_find (Some m) path \<noteq> None)
        \<and> catalogue (the m') = (if found then (catalogue m)(sbytes path \<mapsto>
            (the (catalogue m (sbytes path)))\<lparr>me_presence := presence\<rparr>) else catalogue m)"
    and "case sync_manifest_remove (Some m) path of
      (found, m') \<Rightarrow>
        found = (sync_manifest_find (Some m) path \<noteq> None)
        \<and> catalogue (the m') = (if found then (catalogue m)(sbytes path := None) else catalogue m)"
proof -
  have d: "distinct (map me_path m)" and len: "length m \<le> SYNC_MANIFEST_CAPACITY"
    using assms by (simp_all add: manifest_ok_def)
  show "sync_manifest_find (Some m) path = (if valid_path_bytes path then catalogue m (sbytes path) else None)"
    by (simp add: sync_manifest_find_def catalogue_find)
  obtain st m1 where u: "sync_manifest_upsert_at (Some m) path t n utc (Some digest) (Some name) = (st, m1)"
    by fastforce
  show "case sync_manifest_upsert_at (Some m) path t n utc (Some digest) (Some name) of
      (status, m') \<Rightarrow>
        if status = MF_OK
        then catalogue (the m') = (catalogue m)(sbytes path \<mapsto> upserted m (sbytes path) t n utc digest name)
        else m' = Some m \<and> (status = MF_CAPACITY_EXCEEDED \<longrightarrow> length m = SYNC_MANIFEST_CAPACITY)"
    using upsert_cases [OF u] catalogue_put [OF d, of "upserted m (sbytes path) t n utc digest name"] len
    by (auto simp: u)
  have put: "catalogue (put_row (index_of (has_path (sbytes path)) m) (e\<lparr>me_presence := presence\<rparr>) m)
      = (catalogue m)(sbytes path \<mapsto> e\<lparr>me_presence := presence\<rparr>)" if "me_path e = sbytes path" for e
    using catalogue_put [OF d, of "e\<lparr>me_presence := presence\<rparr>"] that by simp
  obtain f m2 where p: "sync_manifest_set_presence (Some m) path presence = (f, m2)" by fastforce
  show "case sync_manifest_set_presence (Some m) path presence of
      (found, m') \<Rightarrow>
        found = (sync_manifest_find (Some m) path \<noteq> None)
        \<and> catalogue (the m') = (if found then (catalogue m)(sbytes path \<mapsto>
            (the (catalogue m (sbytes path)))\<lparr>me_presence := presence\<rparr>) else catalogue m)"
    using set_presence_cases [OF p] put by (auto simp: p sync_manifest_find_def catalogue_find [of m])
  obtain g m3 where r: "sync_manifest_remove (Some m) path = (g, m3)" by fastforce
  show "case sync_manifest_remove (Some m) path of
      (found, m') \<Rightarrow>
        found = (sync_manifest_find (Some m) path \<noteq> None)
        \<and> catalogue (the m') = (if found then (catalogue m)(sbytes path := None) else catalogue m)"
    using remove_cases [OF r] catalogue_removed [OF d]
    by (auto simp: r sync_manifest_find_def catalogue_find)
qed

lemma digest_users_card:
  assumes "distinct (map me_path m)"
  shows "sync_manifest_digest_users (Some m) (Some digest)
    = card {path. \<exists>e. catalogue m path = Some e \<and> me_sha256 e = digest}"
proof -
  have "{path. \<exists>e. catalogue m path = Some e \<and> me_sha256 e = digest}
      = set (map me_path (filter (\<lambda>e. me_sha256 e = digest) m))"
    using find_key_iff [OF assms] by (auto simp: catalogue_find has_path_eq)
  moreover have "distinct (map me_path (filter (\<lambda>e. me_sha256 e = digest) m))"
    using assms by (rule distinct_map_filter)
  ultimately have "card {path. \<exists>e. catalogue m path = Some e \<and> me_sha256 e = digest}
      = length (filter (\<lambda>e. me_sha256 e = digest) m)"
    using distinct_card by fastforce
  then show ?thesis by (simp add: sync_manifest_digest_users_def)
qed

section \<open>The text form\<close>

definition entry_fields :: "manifest_entry \<Rightarrow> u8 list list" where
  "entry_fields e = [me_path e, dec_text (unat (me_device_time_raw e)), dec_text (unat (me_size e)),
     dec_text (unat (me_initial_sync_utc e)), hex_text (me_sha256 e), me_cache_name e,
     presence_text (me_presence e)]"

definition entry_line :: "manifest_entry \<Rightarrow> u8 list" where
  "entry_line e = join_fields (entry_fields e)"

lemma entry_pieces:
  "concat [entry_prefix e, hex_text (me_sha256 e), [TAB], me_cache_name e, [TAB],
     presence_text (me_presence e), [NEWLINE]] = entry_line e @ [NEWLINE]"
  by (simp add: entry_prefix_def entry_line_def entry_fields_def)

lemma entry_names:
  assumes "entry_ok e"
  shows "field_ok (me_path e)" "length (me_path e) < 256" "field_ok (me_cache_name e)"
    "length (me_cache_name e) < 160" "c_str (me_cache_name e) = me_cache_name e"
  using assms c_str_id [of "me_cache_name e"]
  by (auto simp: entry_ok_def valid_path_field valid_name_field)

lemma entry_fields_ok: "entry_ok e \<Longrightarrow> list_all field_ok (entry_fields e)"
proof -
  assume ok: "entry_ok e"
  then have "me_sha256 e \<noteq> []" by (auto simp: entry_ok_def)
  moreover have "field_ok (presence_text (me_presence e))"
    by (cases "me_presence e") (simp_all add: field_ok_def)
  ultimately show ?thesis
    using entry_names(1,3) [OF ok] by (simp add: entry_fields_def dec_text_field hex_text_field)
qed

lemma entry_prefix_length:
  assumes "entry_ok e"
  shows "length (entry_prefix e) < SYNC_PATH_CAPACITY + 64"
proof -
  show ?thesis
    using entry_names(2) [OF assms] dec_text_u32_length [of "me_device_time_raw e"]
      dec_text_u32_length [of "me_size e"] dec_text_u64_length [of "me_initial_sync_utc e"]
    by (simp add: entry_prefix_def)
qed

lemma read_entry_line:
  assumes "entry_ok e"
  shows "read_entry 3 (entry_line e) = Some e"
proof -
  have "line_fields (entry_line e) = Some (entry_fields e)"
    unfolding entry_line_def
    by (rule line_fields_join [OF _ entry_fields_ok [OF assms]]) (simp_all add: entry_fields_def)
  moreover have "parse_presence 3 (entry_fields e) = Some (me_presence e)"
    by (cases "me_presence e") (simp_all add: parse_presence_def entry_fields_def)
  moreover have "(entry_fields e) ! 0 = me_path e" "(entry_fields e) ! 1 = dec_text (unat (me_device_time_raw e))"
    "(entry_fields e) ! 2 = dec_text (unat (me_size e))" "(entry_fields e) ! 3 = dec_text (unat (me_initial_sync_utc e))"
    "(entry_fields e) ! 4 = hex_text (me_sha256 e)" "(entry_fields e) ! 5 = me_cache_name e"
    "length (entry_fields e) = 7"
    by (simp_all add: entry_fields_def)
  ultimately show ?thesis
    using assms entry_names [OF assms]
    by (simp add: read_entry_def entry_ok_def parse_u32_text parse_u64_text parse_digest_roundtrip Let_def)
qed

lemma parse_manifest_entry:
  assumes "entry_ok e" and "me_path e \<notin> me_path ` set m \<and> length m < SYNC_MANIFEST_CAPACITY"
  shows "parse_manifest_line 3 (entry_line e) m = Inr (m @ [e])"
proof -
  have none: "find (has_path (me_path e)) m = None" using assms(2) by (simp add: has_path_eq find_key_None)
  then have i: "index_of (has_path (me_path e)) m = length m"
    using index_of_le [of "has_path (me_path e)" m] by (auto simp: find_index_of split: if_splits)
  let ?u = "e\<lparr>me_presence := PRESENCE_UNKNOWN\<rparr>"
  have "valid_path_bytes (Span (me_path e))" "valid_cache_name (Some (me_cache_name e))" "me_size e \<noteq> 0"
    "c_str (me_cache_name e) = me_cache_name e"
    using assms(1) by (simp_all add: entry_ok_def entry_names(5))
  then have "sync_manifest_upsert_at (Some m) (Span (me_path e)) (me_device_time_raw e) (me_size e)
      (me_initial_sync_utc e) (Some (me_sha256 e)) (Some (me_cache_name e)) = (MF_OK, Some (m @ [?u]))"
    using assms(2) i by (simp add: sync_manifest_upsert_at_def put_row_def Let_def)
  moreover have "takeWhile (\<lambda>x. \<not> has_path (me_path e) x) (m @ [?u]) = m"
    using i none by (subst takeWhile_append2) (auto simp: find_None_iff has_path_def)
  then have "index_of (has_path (me_path e)) (m @ [?u]) = length m" by (simp add: index_of_def)
  then have "sync_manifest_set_presence (Some (m @ [?u])) (Span (me_path e)) (me_presence e)
      = (True, Some (m @ [e]))"
    using \<open>valid_path_bytes (Span (me_path e))\<close> by (simp add: sync_manifest_set_presence_def Let_def)
  ultimately show ?thesis using assms(1) by (simp add: parse_manifest_line_def read_entry_line)
qed

interpretation mf_file: line_file entry_line "parse_manifest_line 3" "\<lambda>e m. m @ [e]"
  "\<lambda>e m. me_path e \<notin> me_path ` set m \<and> length m < SYNC_MANIFEST_CAPACITY" entry_ok
proof unfold_locales
  fix e :: manifest_entry
  assume ok: "entry_ok e"
  show "entry_line e \<noteq> []" "NEWLINE \<notin> set (entry_line e)"
    unfolding entry_line_def
    using join_fields_nonempty [OF _ entry_fields_ok [OF ok]] join_fields_no_newline [OF entry_fields_ok [OF ok]]
    by (simp_all add: entry_fields_def)
qed (rule parse_manifest_entry)

definition manifest_text :: "manifest \<Rightarrow> u8 list" where
  "manifest_text m = MANIFEST_HEADER_V3 @ concat (map (\<lambda>e. entry_line e @ [NEWLINE]) m)"

definition entry_pieces_of :: "manifest_entry \<Rightarrow> u8 list list" where
  "entry_pieces_of e = [entry_prefix e, hex_text (me_sha256 e), [TAB], me_cache_name e, [TAB],
     presence_text (me_presence e), [NEWLINE]]"

lemma serialize_entries_append:
  "list_all entry_ok es \<Longrightarrow> serialize_entries es w = append_or MF_BUFFER_TOO_SMALL (concat (map entry_pieces_of es)) w"
proof (induction es arbitrary: w)
  case Nil
  then show ?case by simp
next
  case (Cons e es)
  then have e: "entry_ok e" by simp
  then have "serialize_entry e w = append_or MF_BUFFER_TOO_SMALL (entry_pieces_of e) w"
    using entry_prefix_length [OF e]
    by (simp add: serialize_entry_def entry_pieces_of_def entry_ok_def)
  then show ?case using Cons by (simp add: append_or_append split: sum.split)
qed

lemma concat_entry_pieces: "concat (concat (map entry_pieces_of es)) = mf_file.text_of es"
  using entry_pieces by (induction es) (simp_all add: entry_pieces_of_def mf_file.text_of_def)

lemma manifest_text_eq: "manifest_text m = concat (MANIFEST_HEADER_V3 # concat (map entry_pieces_of m))"
  by (simp add: manifest_text_def concat_entry_pieces mf_file.text_of_def)

lemma serialize_manifest:
  assumes "manifest_ok m"
  shows "serialized MF_OK MF_BUFFER_TOO_SMALL (manifest_text m) buffer
    (sync_manifest_serialize (Some m) (Span buffer) (Some len))"
proof -
  let ?pieces = "concat (map entry_pieces_of m)"
  have all: "list_all entry_ok m" "length m \<le> SYNC_MANIFEST_CAPACITY"
    using assms by (simp_all add: manifest_ok_def)
  have "sync_manifest_serialize (Some m) (Span buffer) (Some len) = serialize_result MF_OK (Span buffer)
      (Some len) (append_or MF_BUFFER_TOO_SMALL ([MANIFEST_HEADER_V3] @ ?pieces) \<lparr>tw_buffer = buffer, tw_used = 0\<rparr>)"
    using all(2) unfolding append_or_append
    by (simp add: sync_manifest_serialize_def serialize_entries_append [OF all(1)] cong: sum.case_cong)
  then show ?thesis
    using serialize_result_append [of MF_OK MF_BUFFER_TOO_SMALL "[MANIFEST_HEADER_V3] @ ?pieces" buffer "Some len"]
    by (simp add: manifest_text_eq)
qed

lemma addable_all:
  "distinct (map me_path (m @ es)) \<Longrightarrow> length (m @ es) \<le> SYNC_MANIFEST_CAPACITY \<Longrightarrow> mf_file.addable es m"
  by (induction es arbitrary: m) auto

lemma manifest_text_version:
  "manifest_version (manifest_text m) = Some (3, length MANIFEST_HEADER_V3)"
  by (simp add: manifest_version_def manifest_text_def starts_with_def)

lemma parse_manifest_text:
  assumes "manifest_ok m"
  shows "sync_manifest_parse True (Span (manifest_text m)) (Some old) = (MF_OK, Some m)"
proof -
  have "mf_file.addable m []" using assms addable_all [of "[]" m] by (simp add: manifest_ok_def)
  then have "parse_lines MF_INVALID_FORMAT (parse_manifest_line 3) (mf_file.text_of m) [] = Inr m"
    using mf_file.read_text_of [of m "[]"] assms by (simp add: manifest_ok_def foldl_snoc)
  moreover have "drop (length MANIFEST_HEADER_V3) (manifest_text m) = mf_file.text_of m"
    by (simp add: manifest_text_def mf_file.text_of_def)
  ultimately show ?thesis by (simp add: sync_manifest_parse_def manifest_text_version)
qed

section \<open>Every sequence of calls\<close>

lemma read_entry_digest: "read_entry version line = Some e \<Longrightarrow> length (me_sha256 e) = SYNC_SHA256_BYTES"
  by (auto simp: read_entry_def parse_digest_def Let_def parse_hex_length
      split: Option.bind_splits if_splits)

lemma parse_manifest_line_ok:
  assumes "parse_manifest_line version line m = Inr m'" and "manifest_ok m"
  shows "manifest_ok m'"
proof -
  from assms(1) obtain e where e: "read_entry version line = Some e"
    by (auto simp: parse_manifest_line_def split: option.splits)
  obtain st t where u: "sync_manifest_upsert_at (Some m) (Span (me_path e)) (me_device_time_raw e) (me_size e)
      (me_initial_sync_utc e) (Some (me_sha256 e)) (Some (me_cache_name e)) = (st, t)" by fastforce
  then have t: "t = Some (the t)" using upsert_cases [OF u] by auto
  have ok: "manifest_ok (the t)"
    using upsert_ok [OF assms(2) read_entry_digest [OF e]] u t by metis
  obtain b m2 where p: "sync_manifest_set_presence (Some (the t)) (Span (me_path e)) (me_presence e) = (b, m2)"
    by fastforce
  then have "m2 = Some (the m2)" using set_presence_cases [OF p] by auto
  then have "manifest_ok (the m2)" using set_presence_ok [OF ok] p by metis
  moreover have "m' = the m2" using assms(1) e u t p by (simp add: parse_manifest_line_def split: if_splits)
  ultimately show ?thesis by simp
qed

lemma manifest_parse_outcome:
  "case sync_manifest_parse allocated input (Some old) of
     (status, m') \<Rightarrow> if status = MF_OK then \<exists>m. m' = Some m \<and> manifest_ok m else m' = Some old"
proof -
  have "manifest_ok m" if "parse_lines MF_INVALID_FORMAT (parse_manifest_line v) ls [] = Inr m" for v ls m
    using parse_lines_inv [where P = manifest_ok, OF parse_manifest_line_ok that]
    by (simp add: manifest_ok_def)
  moreover have "st \<noteq> MF_OK" if "parse_lines MF_INVALID_FORMAT (parse_manifest_line v) ls t = Inl st" for v ls t st
  proof (rule parse_lines_error [OF that])
    show "s \<noteq> MF_OK" if "parse_manifest_line v line t = Inl s" for line t s
      using that by (auto simp: parse_manifest_line_def split: option.splits prod.splits if_splits)
  qed simp
  ultimately show ?thesis by (auto simp: sync_manifest_parse_def split: option.split sum.split)
qed

datatype manifest_call = MF_Upsert "u8 span" u32 u32 u64 "u8 list" "u8 list"
  | MF_Set_Presence "u8 span" sync_presence | MF_Remove "u8 span" | MF_Load bool "u8 span"

text \<open>A call with a digest of another length than 32 is outside the interface and ignored.\<close>

fun manifest_step :: "manifest \<Rightarrow> manifest_call \<Rightarrow> manifest" where
  "manifest_step m (MF_Upsert path t n utc digest name) =
     (if length digest = SYNC_SHA256_BYTES
      then the (snd (sync_manifest_upsert_at (Some m) path t n utc (Some digest) (Some name))) else m)"
| "manifest_step m (MF_Set_Presence path presence) = the (snd (sync_manifest_set_presence (Some m) path presence))"
| "manifest_step m (MF_Remove path) = the (snd (sync_manifest_remove (Some m) path))"
| "manifest_step m (MF_Load allocated input) = the (snd (sync_manifest_parse allocated input (Some m)))"

lemma manifest_step_ok:
  assumes "manifest_ok m"
  shows "manifest_ok (manifest_step m call)"
proof (cases call)
  case (MF_Upsert path t n utc digest name)
  obtain st m' where u: "sync_manifest_upsert_at (Some m) path t n utc (Some digest) (Some name) = (st, m')"
    by fastforce
  then have "m' = Some (the m')" using upsert_cases [OF u] by auto
  then show ?thesis using upsert_ok [OF assms, of digest path t n utc name st "the m'"] u MF_Upsert assms by auto
next
  case (MF_Set_Presence path presence)
  obtain b m' where p: "sync_manifest_set_presence (Some m) path presence = (b, m')" by fastforce
  then have "m' = Some (the m')" using set_presence_cases [OF p] by auto
  then show ?thesis using set_presence_ok [OF assms, of path presence b "the m'"] p MF_Set_Presence by auto
next
  case (MF_Remove path)
  obtain b m' where p: "sync_manifest_remove (Some m) path = (b, m')" by fastforce
  then have "m' = Some (the m')" using remove_cases [OF p] by auto
  then show ?thesis using remove_ok [OF assms, of path b "the m'"] p MF_Remove by auto
next
  case (MF_Load allocated input)
  then show ?thesis using manifest_parse_outcome [where allocated = allocated and input = input and old = m] assms
    by (auto split: prod.splits if_splits)
qed

interpretation mf: event_machine manifest_step "\<lambda>m. m = []" manifest_ok
  by unfold_locales (simp add: manifest_ok_def, rule manifest_step_ok)

lemma catalogue_card:
  assumes "distinct (map me_path m)"
  shows "card (dom (catalogue m)) = length m"
  using distinct_card [OF assms] by (simp add: catalogue_dom)

text \<open>
  C12. The manifest implements a map from paths to entries: find looks a valid path up. An upsert
  is refused as invalid exactly for an empty file, an invalid path or an invalid cache name, and for
  lack of room exactly when the path is new and 128 paths are taken; an accepted one binds exactly its
  path to the given content, where a known path keeps its presence and, for the same digest, the first
  sync time, and a new path starts with the given sync time and with the presence unknown (the comment
  in the code says that a fresh entry is recorded as on the device; the code records it as unknown).
  Setting a presence changes only that, and removal drops exactly one path; a digest has as many users
  as paths with that content. A refused operation changes nothing.
\<close>

theorem manifest_refines_map:
  assumes "manifest_ok m"
  shows "sync_manifest_find (Some m) path = (if valid_path_bytes path then catalogue m (sbytes path) else None)
    \<and> (case sync_manifest_upsert_at (Some m) path t n utc (Some digest) (Some name) of
        (status, m') \<Rightarrow>
          status = (if n = 0 \<or> \<not> valid_path_bytes path \<or> \<not> valid_cache_name (Some name) then MF_INVALID_ARGUMENT
            else if sbytes path \<notin> dom (catalogue m) \<and> card (dom (catalogue m)) = 128 then MF_CAPACITY_EXCEEDED
            else MF_OK)
          \<and> (if status = MF_OK
             then catalogue (the m') = (catalogue m)(sbytes path \<mapsto>
               \<lparr>me_path = sbytes path, me_device_time_raw = t, me_size = n,
                me_initial_sync_utc = (case catalogue m (sbytes path) of None \<Rightarrow> utc
                  | Some old \<Rightarrow> if me_sha256 old = digest then me_initial_sync_utc old else utc),
                me_sha256 = digest, me_cache_name = c_str name,
                me_presence = (case catalogue m (sbytes path) of None \<Rightarrow> PRESENCE_UNKNOWN
                  | Some old \<Rightarrow> me_presence old)\<rparr>)
             else m' = Some m))
    \<and> (case sync_manifest_set_presence (Some m) path presence of
        (found, m') \<Rightarrow>
          found = (valid_path_bytes path \<and> sbytes path \<in> dom (catalogue m))
          \<and> catalogue (the m') = (if found then (catalogue m)(sbytes path \<mapsto>
              (the (catalogue m (sbytes path)))\<lparr>me_presence := presence\<rparr>) else catalogue m))
    \<and> (case sync_manifest_remove (Some m) path of
        (found, m') \<Rightarrow>
          found = (valid_path_bytes path \<and> sbytes path \<in> dom (catalogue m))
          \<and> catalogue (the m') = (if found then (catalogue m)(sbytes path := None) else catalogue m))
    \<and> sync_manifest_digest_users (Some m) (Some digest)
        = card {p. \<exists>e. catalogue m p = Some e \<and> me_sha256 e = digest}"
proof -
  have d: "distinct (map me_path m)" and len: "length m \<le> SYNC_MANIFEST_CAPACITY"
    using assms by (simp_all add: manifest_ok_def)
  note laws = manifest_map_laws [OF assms, of path]
  have found: "sync_manifest_find (Some m) path \<noteq> None \<longleftrightarrow> valid_path_bytes path \<and> sbytes path \<in> dom (catalogue m)"
    unfolding laws(1) by auto
  obtain st m1 where u: "sync_manifest_upsert_at (Some m) path t n utc (Some digest) (Some name) = (st, m1)"
    by fastforce
  have "st = (if n = 0 \<or> \<not> valid_path_bytes path \<or> \<not> valid_cache_name (Some name) then MF_INVALID_ARGUMENT
      else if sbytes path \<notin> dom (catalogue m) \<and> card (dom (catalogue m)) = 128 then MF_CAPACITY_EXCEEDED
      else MF_OK)"
    using upsert_status [of m path t n utc digest name] u len catalogue_card [OF d] by (auto simp: catalogue_dom)
  moreover have "if st = MF_OK
      then catalogue (the m1) = (catalogue m)(sbytes path \<mapsto> upserted m (sbytes path) t n utc digest name)
      else m1 = Some m"
    using laws(2) [of t n utc digest name] u by (auto split: if_splits)
  ultimately show ?thesis
    using laws(1) laws(3) [of presence] laws(4) digest_users_card [OF d, of digest]
    unfolding found u upserted_def catalogue_find [symmetric] Let_def prod.case by blast
qed

definition sample_entry :: manifest_entry where
  "sample_entry = \<lparr>me_path = ascii ''maps/a.ptm'', me_device_time_raw = 7, me_size = 9,
     me_initial_sync_utc = 11, me_sha256 = replicate 32 5, me_cache_name = ascii ''a.bin'',
     me_presence = PRESENCE_ON_DEVICE\<rparr>"

lemma sample_manifest_ok: "manifest_ok [sample_entry]"
  by (simp add: manifest_ok_def entry_ok_def sample_entry_def valid_path_bytes_def
      valid_cache_name_def c_str_def path_byte_def name_byte_def)

theorem manifest_refines_map_witness:
  "catalogue (the (snd (sync_manifest_remove (Some [sample_entry]) (Span (me_path sample_entry))))) (me_path sample_entry) = None"
proof -
  let ?path = "Span (me_path sample_entry)"
  obtain f m' where r: "sync_manifest_remove (Some [sample_entry]) ?path = (f, m')" by fastforce
  have "sbytes ?path \<in> dom (catalogue [sample_entry])" "valid_path_bytes ?path"
    by (simp_all add: catalogue_def sample_entry_def valid_path_bytes_def path_byte_def)
  with manifest_refines_map [OF sample_manifest_ok, of ?path, THEN conjunct2, THEN conjunct2, THEN conjunct2,
      THEN conjunct1]
  show ?thesis unfolding r by (simp only: prod.case snd_conv simp_thms if_True fun_upd_same sbytes.simps)
qed

text \<open>
  C13. The catalogue survives the card: after any calls since the start, a large enough buffer
  receives the text of the manifest, and reading that text gives back the same manifest, entry
  by entry and in order; a smaller buffer is refused with a length it would have to exceed.
\<close>

theorem manifest_survives_card:
  "let m = foldl manifest_step [] calls in
    serialized MF_OK MF_BUFFER_TOO_SMALL (manifest_text m) buffer
      (sync_manifest_serialize (Some m) (Span buffer) (Some len))
    \<and> sync_manifest_parse True (Span (manifest_text m)) (Some old) = (MF_OK, Some m)"
proof -
  have "manifest_ok (foldl manifest_step [] calls)" by (rule mf.run_inv) simp
  from serialize_manifest [OF this] parse_manifest_text [OF this] show ?thesis
    unfolding Let_def by (intro conjI)
qed

text \<open>
  C14. Reading a manifest is transactional: whatever the bytes of the file and the outcome of the
  allocation, either the caller's manifest is untouched and an error is returned, or it is
  replaced by a well formed one: at most 128 entries, distinct valid paths, valid cache names,
  sizes that are not zero.
\<close>

theorem manifest_parse_transactional:
  "case sync_manifest_parse allocated input (Some old) of
     (status, m') \<Rightarrow> if status = MF_OK then \<exists>m. m' = Some m \<and> manifest_ok m else m' = Some old"
  by (rule manifest_parse_outcome)

end
