(* ===== verification/Sync_History.thy ===== *)
theory Sync_History
  imports Sync_Manifest
begin

text \<open>
  The version history (revlink_sync/revlink_sync_history.c): the append-only list of the observed
  versions of the files, each with a sequence number that is never used again, and its text
  form. The helpers for characters, numbers and digests are those of Text_Codec, of which the C
  file has its own copy.
\<close>

section \<open>Data\<close>

record history_entry =
  he_sequence :: u32
  he_path :: "u8 list"
  he_device_time_raw :: u32
  he_size :: u32
  he_initial_sync_utc :: u64
  he_sha256 :: "u8 list"
  he_object_name :: "u8 list"

record sync_history =
  hi_entries :: "history_entry list"
  hi_next_sequence :: u32

abbreviation (input) SYNC_HISTORY_CAPACITY :: nat where "SYNC_HISTORY_CAPACITY \<equiv> 512"

definition HISTORY_HEADER_V1_PREFIX :: "u8 list" where
  "HISTORY_HEADER_V1_PREFIX = ascii ''REVLINK-HISTORY'' @ [TAB] @ ascii ''1'' @ [TAB]"

definition HISTORY_HEADER_V2_PREFIX :: "u8 list" where
  "HISTORY_HEADER_V2_PREFIX = ascii ''REVLINK-HISTORY'' @ [TAB] @ ascii ''2'' @ [TAB]"

section \<open>The operations\<close>

fun sync_history_init :: "sync_history option \<Rightarrow> sync_history option" where
  "sync_history_init None = None"
| "sync_history_init (Some h) = Some \<lparr>hi_entries = [], hi_next_sequence = 1\<rparr>"

definition has_version :: "u8 list \<Rightarrow> u8 list \<Rightarrow> history_entry \<Rightarrow> bool" where
  "has_version path digest e \<longleftrightarrow> he_path e = path \<and> he_sha256 e = digest"

definition sync_history_find_version ::
  "sync_history option \<Rightarrow> u8 span \<Rightarrow> u8 list option \<Rightarrow> history_entry option" where
  "sync_history_find_version history path sha256 =
     (case (history, sha256) of
        (Some h, Some digest) \<Rightarrow>
          if \<not> valid_path_bytes path then None
          else find (has_version (sbytes path) digest) (hi_entries h)
      | _ \<Rightarrow> None)"

definition sync_history_record_at ::
  "sync_history option \<Rightarrow> u8 span \<Rightarrow> u32 \<Rightarrow> u32 \<Rightarrow> u64 \<Rightarrow> u8 list option \<Rightarrow> u8 list option
   \<Rightarrow> u32 option \<Rightarrow> manifest_status \<times> sync_history option \<times> u32 option" where
  "sync_history_record_at history path device_time_raw fsize initial_sync_utc sha256 object_name sequence =
     (case (history, sha256, sequence, object_name) of
        (Some h, Some digest, Some sequence0, Some name) \<Rightarrow>
          if fsize = 0 \<or> \<not> valid_path_bytes path \<or> \<not> valid_cache_name (Some name)
             \<or> hi_next_sequence h = 0
          then (MF_INVALID_ARGUMENT, history, sequence)
          else (case sync_history_find_version history path sha256 of
            Some existing \<Rightarrow> (MF_OK, history, Some (he_sequence existing))
          | None \<Rightarrow>
              if length (hi_entries h) \<ge> SYNC_HISTORY_CAPACITY \<or> hi_next_sequence h = - 1
              then (MF_CAPACITY_EXCEEDED, history, sequence)
              else
                let entry = \<lparr>he_sequence = hi_next_sequence h, he_path = sbytes path,
                      he_device_time_raw = device_time_raw, he_size = fsize,
                      he_initial_sync_utc = initial_sync_utc, he_sha256 = digest,
                      he_object_name = c_str name\<rparr>
                in (MF_OK, Some \<lparr>hi_entries = hi_entries h @ [entry],
                      hi_next_sequence = hi_next_sequence h + 1\<rparr>, Some (he_sequence entry)))
      | _ \<Rightarrow> (MF_INVALID_ARGUMENT, history, sequence))"

definition sync_history_record ::
  "sync_history option \<Rightarrow> u8 span \<Rightarrow> u32 \<Rightarrow> u32 \<Rightarrow> u8 list option \<Rightarrow> u8 list option
   \<Rightarrow> u32 option \<Rightarrow> manifest_status \<times> sync_history option \<times> u32 option" where
  "sync_history_record history path device_time_raw fsize sha256 object_name sequence =
     sync_history_record_at history path device_time_raw fsize 0 sha256 object_name sequence"

section \<open>Writing\<close>

definition history_header :: "u32 \<Rightarrow> u8 list" where
  "history_header next_sequence = HISTORY_HEADER_V2_PREFIX @ dec_text (unat next_sequence) @ [NEWLINE]"

definition version_prefix :: "history_entry \<Rightarrow> u8 list" where
  "version_prefix e =
     dec_text (unat (he_sequence e)) @ [TAB] @ he_path e @ [TAB]
       @ dec_text (unat (he_device_time_raw e)) @ [TAB] @ dec_text (unat (he_size e)) @ [TAB]
       @ dec_text (unat (he_initial_sync_utc e)) @ [TAB]"

definition serialize_version :: "history_entry \<Rightarrow> text_writer \<Rightarrow> manifest_status serialize_stop + text_writer" where
  "serialize_version e w =
     (if he_sequence e = 0 \<or> he_size e = 0 \<or> \<not> valid_path_bytes (Span (he_path e))
         \<or> \<not> valid_cache_name (Some (he_object_name e))
      then Inl (MF_INVALID_ARGUMENT, None, tw_buffer w)
      else if length (version_prefix e) \<ge> SYNC_PATH_CAPACITY + 80
      then Inl (MF_INVALID_ARGUMENT, None, tw_buffer w)
      else append_or MF_BUFFER_TOO_SMALL [version_prefix e, hex_text (he_sha256 e), [TAB], he_object_name e, [NEWLINE]] w)"

fun serialize_versions :: "history_entry list \<Rightarrow> text_writer \<Rightarrow> manifest_status serialize_stop + text_writer" where
  "serialize_versions [] w = Inr w"
| "serialize_versions (e # es) w =
     (case serialize_version e w of Inl stop \<Rightarrow> Inl stop | Inr w' \<Rightarrow> serialize_versions es w')"

definition sync_history_serialize ::
  "sync_history option \<Rightarrow> u8 span \<Rightarrow> nat option \<Rightarrow> manifest_status \<times> u8 span \<times> nat option" where
  "sync_history_serialize history output output_length =
     (case (history, output_length) of
        (Some h, Some len) \<Rightarrow>
          if null_with_length output \<or> length (hi_entries h) > SYNC_HISTORY_CAPACITY
             \<or> hi_next_sequence h = 0
          then (MF_INVALID_ARGUMENT, output, output_length)
          else if length (history_header (hi_next_sequence h)) \<ge> 64
          then (MF_INVALID_ARGUMENT, output, output_length)
          else
            serialize_result MF_OK output output_length
              (case append_or MF_BUFFER_TOO_SMALL [history_header (hi_next_sequence h)]
                      \<lparr>tw_buffer = sbytes output, tw_used = 0\<rparr> of
                 Inl stop \<Rightarrow> Inl stop
               | Inr w \<Rightarrow> serialize_versions (hi_entries h) w)
      | _ \<Rightarrow> (MF_INVALID_ARGUMENT, output, output_length))"

section \<open>Reading\<close>

definition history_version :: "u8 list \<Rightarrow> (bool \<times> nat) option" where
  "history_version input =
     (if length input > length HISTORY_HEADER_V2_PREFIX \<and> starts_with HISTORY_HEADER_V2_PREFIX input
      then Some (True, length HISTORY_HEADER_V2_PREFIX)
      else if length input > length HISTORY_HEADER_V1_PREFIX \<and> starts_with HISTORY_HEADER_V1_PREFIX input
      then Some (False, length HISTORY_HEADER_V1_PREFIX)
      else None)"

text \<open>One line: \<open>None\<close> is a format error found before the object name is looked at.\<close>

definition read_version :: "bool \<Rightarrow> u32 \<Rightarrow> u8 list \<Rightarrow> history_entry option" where
  "read_version version_two highest_sequence line =
     do { fs \<leftarrow> line_fields line;
          let expected_fields = (if version_two then 7 else 6);
          let digest_field = (if version_two then 5 else 4);
          let object_field = (if version_two then 6 else 5);
          (if length fs \<noteq> expected_fields then None else Some ());
          sequence \<leftarrow> parse_u32 (fs ! 0);
          (if sequence = 0 \<or> sequence \<le> highest_sequence \<or> \<not> valid_path_bytes (Span (fs ! 1))
           then None else Some ());
          device_time_raw \<leftarrow> parse_u32 (fs ! 2);
          fsize \<leftarrow> parse_u32 (fs ! 3);
          (if fsize = 0 then None else Some ());
          initial_sync_utc \<leftarrow> (if version_two then parse_u64 (fs ! 4) else Some 0);
          digest \<leftarrow> parse_digest (fs ! digest_field);
          (if length (fs ! object_field) \<ge> SYNC_CACHE_NAME_CAPACITY then None else Some ());
          Some \<lparr>he_sequence = sequence, he_path = fs ! 1, he_device_time_raw = device_time_raw,
            he_size = fsize, he_initial_sync_utc = initial_sync_utc, he_sha256 = digest,
            he_object_name = c_str (fs ! object_field)\<rparr> }"

type_synonym history_scan = "history_entry list \<times> u32"

definition parse_history_line :: "bool \<Rightarrow> u8 list \<Rightarrow> history_scan \<Rightarrow> manifest_status + history_scan" where
  "parse_history_line version_two line scan =
     (case scan of (entries, highest_sequence) \<Rightarrow>
        case read_version version_two highest_sequence line of
          None \<Rightarrow> Inl MF_INVALID_FORMAT
        | Some e \<Rightarrow>
            if \<not> valid_cache_name (Some (he_object_name e)) \<or> length entries \<ge> SYNC_HISTORY_CAPACITY
            then Inl (if length entries \<ge> SYNC_HISTORY_CAPACITY then MF_CAPACITY_EXCEEDED
                      else MF_INVALID_FORMAT)
            else Inr (entries @ [e], he_sequence e))"

definition sync_history_parse ::
  "bool \<Rightarrow> u8 span \<Rightarrow> sync_history option \<Rightarrow> manifest_status \<times> sync_history option" where
  "sync_history_parse allocated input history =
     (if is_null input \<or> history = None then (MF_INVALID_FORMAT, history)
      else case history_version (sbytes input) of
        None \<Rightarrow> (MF_INVALID_FORMAT, history)
      | Some (version_two, header_prefix_length) \<Rightarrow>
          (case do { newline \<leftarrow> find_newline (sbytes input);
                     encoded_next \<leftarrow> parse_u32 (drop header_prefix_length (take newline (sbytes input)));
                     (if encoded_next = 0 then None else Some (newline, encoded_next)) } of
             None \<Rightarrow> (MF_INVALID_FORMAT, history)
           | Some (newline, encoded_next) \<Rightarrow>
               if \<not> allocated then (MF_ALLOCATION_FAILED, history)
               else (case parse_lines MF_INVALID_FORMAT (parse_history_line version_two)
                            (drop (newline + 1) (sbytes input)) ([], 0) of
                       Inl status \<Rightarrow> (status, history)
                     | Inr (entries, highest_sequence) \<Rightarrow>
                         if highest_sequence \<ge> encoded_next then (MF_INVALID_FORMAT, history)
                         else (MF_OK, Some \<lparr>hi_entries = entries, hi_next_sequence = encoded_next\<rparr>))))"

section \<open>The invariant\<close>

definition version_ok :: "history_entry \<Rightarrow> bool" where
  "version_ok e \<longleftrightarrow>
     he_sequence e \<noteq> 0 \<and> he_size e \<noteq> 0 \<and> valid_path_bytes (Span (he_path e))
     \<and> valid_cache_name (Some (he_object_name e)) \<and> 0 \<notin> set (he_object_name e)
     \<and> length (he_sha256 e) = SYNC_SHA256_BYTES"

text \<open>The sequence numbers grow along the list and stay below the next one.\<close>

definition history_ok :: "sync_history \<Rightarrow> bool" where
  "history_ok h \<longleftrightarrow>
     length (hi_entries h) \<le> SYNC_HISTORY_CAPACITY \<and> list_all version_ok (hi_entries h)
     \<and> sorted_wrt (<) (map he_sequence (hi_entries h))
     \<and> (\<forall>e \<in> set (hi_entries h). he_sequence e < hi_next_sequence h) \<and> hi_next_sequence h \<noteq> 0"

lemma next_sequence_greater:
  assumes "(n :: u32) \<noteq> - 1"
  shows "n < n + 1"
proof -
  have "unat n \<noteq> unat (- 1 :: u32)" using assms by (simp add: word_eq_iff_unsigned [where 'a = nat])
  then have "unat n + 1 < 2 ^ 32" using unat_u32_less [of n] by (simp add: unat_minus_one_u32)
  then show ?thesis by (simp add: word_less_nat_alt unat_word_ariths take_bit_nat_eq_self)
qed

lemma record_cases:
  assumes "sync_history_record_at (Some h) path t n utc (Some digest) (Some name) (Some old) = (status, h', sequence)"
  shows "(status \<noteq> MF_OK \<and> h' = Some h \<and> sequence = Some old)
    \<or> (status = MF_OK \<and> valid_path_bytes path \<and> h' = Some h
      \<and> (\<exists>e. find (has_version (sbytes path) digest) (hi_entries h) = Some e \<and> sequence = Some (he_sequence e)))
    \<or> (status = MF_OK \<and> find (has_version (sbytes path) digest) (hi_entries h) = None
      \<and> valid_path_bytes path \<and> valid_cache_name (Some name) \<and> n \<noteq> 0 \<and> hi_next_sequence h \<noteq> 0
      \<and> hi_next_sequence h \<noteq> - 1 \<and> length (hi_entries h) < SYNC_HISTORY_CAPACITY
      \<and> sequence = Some (hi_next_sequence h)
      \<and> h' = Some \<lparr>hi_entries = hi_entries h @ [\<lparr>he_sequence = hi_next_sequence h, he_path = sbytes path,
            he_device_time_raw = t, he_size = n, he_initial_sync_utc = utc, he_sha256 = digest,
            he_object_name = c_str name\<rparr>], hi_next_sequence = hi_next_sequence h + 1\<rparr>)"
  using assms
  by (auto simp: sync_history_record_at_def sync_history_find_version_def Let_def
      split: if_splits option.splits)

lemma find_append: "find P (xs @ ys) = (case find P xs of None \<Rightarrow> find P ys | Some x \<Rightarrow> Some x)"
  by (induction xs) auto

lemma record_ok:
  assumes "history_ok h" and "length digest = SYNC_SHA256_BYTES"
    and "sync_history_record_at (Some h) path t n utc (Some digest) (Some name) (Some old) = (status, Some h', sequence)"
  shows "history_ok h'"
proof -
  let ?e = "\<lparr>he_sequence = hi_next_sequence h, he_path = sbytes path, he_device_time_raw = t, he_size = n,
    he_initial_sync_utc = utc, he_sha256 = digest, he_object_name = c_str name\<rparr>"
  from record_cases [OF assms(3)] consider "h' = h"
    | "valid_path_bytes path" "valid_cache_name (Some name)" "n \<noteq> 0" "hi_next_sequence h \<noteq> 0"
      "hi_next_sequence h \<noteq> - 1" "length (hi_entries h) < SYNC_HISTORY_CAPACITY"
      "h' = \<lparr>hi_entries = hi_entries h @ [?e], hi_next_sequence = hi_next_sequence h + 1\<rparr>"
    by auto
  then show ?thesis
  proof cases
    case 1
    then show ?thesis using assms(1) by simp
  next
    case 2
    have less: "hi_next_sequence h < hi_next_sequence h + 1" using 2(5) by (rule next_sequence_greater)
    then have "hi_next_sequence h + 1 \<noteq> 0" using word_not_simps(1) [of "hi_next_sequence h"] by auto
    moreover have "version_ok ?e" using 2(1-4) assms(2)
      by (cases path) (auto simp: version_ok_def valid_path_bytes_def valid_cache_name_def c_str_no_nul)
    moreover have "x < hi_next_sequence h + 1" if "x < hi_next_sequence h" for x
      using that less by (rule less_trans)
    ultimately show ?thesis using 2(6,7) assms(1) less
      by (auto simp: history_ok_def sorted_wrt_append)
  qed
qed

text \<open>
  Recording a version is idempotent and append-only. A version already in the history keeps
  its sequence number and the history is unchanged; a new one is appended, is found from then
  on, and gets a number above every earlier one. A refused call changes neither the history nor
  the caller's number.
\<close>

lemma history_record_exact:
  assumes "history_ok h"
  shows "case sync_history_record_at (Some h) path t n utc (Some digest) (Some name) (Some old) of
    (status, h', sequence) \<Rightarrow>
      if status = MF_OK
      then \<exists>e. sync_history_find_version h' path (Some digest) = Some e \<and> sequence = Some (he_sequence e)
        \<and> (if sync_history_find_version (Some h) path (Some digest) = None
           then hi_entries (the h') = hi_entries h @ [e]
             \<and> (\<forall>x \<in> set (hi_entries h). he_sequence x < he_sequence e)
           else h' = Some h)
      else h' = Some h \<and> sequence = Some old"
proof -
  obtain status h' sequence where r: "sync_history_record_at (Some h) path t n utc (Some digest) (Some name)
      (Some old) = (status, h', sequence)" using prod_cases3 by blast
  show ?thesis
    using record_cases [OF r] assms
    by (auto simp: r sync_history_find_version_def find_append has_version_def history_ok_def)
qed

definition sample_history :: sync_history where
  "sample_history = \<lparr>hi_entries = [\<lparr>he_sequence = 4, he_path = ascii ''maps/a.ptm'', he_device_time_raw = 7,
     he_size = 9, he_initial_sync_utc = 11, he_sha256 = replicate 32 5, he_object_name = ascii ''o''\<rparr>],
     hi_next_sequence = 6\<rparr>"

lemma sample_history_ok: "history_ok sample_history"
  by (simp add: history_ok_def version_ok_def sample_history_def valid_path_bytes_def
      valid_cache_name_def c_str_def path_byte_def name_byte_def)

theorem history_record_exact_witness:
  "case sync_history_record_at (Some sample_history) (Span (ascii ''maps/a.ptm'')) 8 9 0
     (Some (replicate 32 6)) (Some (ascii ''p'')) (Some 0) of
   (status, h', sequence) \<Rightarrow> status = MF_OK \<and> sequence = Some 6 \<and> length (hi_entries (the h')) = 2"
proof -
  let ?r = "sync_history_record_at (Some sample_history) (Span (ascii ''maps/a.ptm'')) 8 9 0
     (Some (replicate 32 6)) (Some (ascii ''p'')) (Some 0)"
  have "fst ?r = MF_OK" "snd (snd ?r) = Some 6"
    "sync_history_find_version (Some sample_history) (Span (ascii ''maps/a.ptm'')) (Some (replicate 32 6)) = None"
    by (simp_all add: sync_history_record_at_def sync_history_find_version_def sample_history_def
        valid_path_bytes_def valid_cache_name_def c_str_def path_byte_def name_byte_def has_version_def Let_def)
  moreover have "length (hi_entries sample_history) = 1" by (simp add: sample_history_def)
  ultimately show ?thesis
    using history_record_exact [OF sample_history_ok, where path = "Span (ascii ''maps/a.ptm'')" and t = 8
        and n = 9 and utc = 0 and digest = "replicate 32 6" and name = "ascii ''p''" and old = 0]
    by (auto split: prod.splits)
qed

section \<open>The text form\<close>

definition version_fields :: "history_entry \<Rightarrow> u8 list list" where
  "version_fields e = [dec_text (unat (he_sequence e)), he_path e, dec_text (unat (he_device_time_raw e)),
     dec_text (unat (he_size e)), dec_text (unat (he_initial_sync_utc e)), hex_text (he_sha256 e),
     he_object_name e]"

definition version_line :: "history_entry \<Rightarrow> u8 list" where
  "version_line e = join_fields (version_fields e)"

definition version_pieces :: "history_entry \<Rightarrow> u8 list list" where
  "version_pieces e = [version_prefix e, hex_text (he_sha256 e), [TAB], he_object_name e, [NEWLINE]]"

lemma concat_version_pieces: "concat (version_pieces e) = version_line e @ [NEWLINE]"
  by (simp add: version_pieces_def version_prefix_def version_line_def version_fields_def)

lemma version_names:
  assumes "version_ok e"
  shows "field_ok (he_path e)" "length (he_path e) < 256" "field_ok (he_object_name e)"
    "length (he_object_name e) < 160" "c_str (he_object_name e) = he_object_name e"
  using assms c_str_id [of "he_object_name e"]
  by (auto simp: version_ok_def valid_path_field valid_name_field)

lemma version_fields_ok: "version_ok e \<Longrightarrow> list_all field_ok (version_fields e)"
proof -
  assume ok: "version_ok e"
  then have "he_sha256 e \<noteq> []" by (auto simp: version_ok_def)
  then show ?thesis
    using version_names(1,3) [OF ok] by (simp add: version_fields_def dec_text_field hex_text_field)
qed

lemma version_prefix_length:
  assumes "version_ok e"
  shows "length (version_prefix e) < SYNC_PATH_CAPACITY + 80"
  using version_names(2) [OF assms] dec_text_u32_length [of "he_sequence e"]
    dec_text_u32_length [of "he_device_time_raw e"] dec_text_u32_length [of "he_size e"]
    dec_text_u64_length [of "he_initial_sync_utc e"]
  by (simp add: version_prefix_def)

lemma read_version_line:
  assumes "version_ok e" and "highest < he_sequence e"
  shows "read_version True highest (version_line e) = Some e"
proof -
  have "line_fields (version_line e) = Some (version_fields e)"
    unfolding version_line_def
    by (rule line_fields_join [OF _ version_fields_ok [OF assms(1)]]) (simp_all add: version_fields_def)
  moreover have "version_fields e ! 0 = dec_text (unat (he_sequence e))" "version_fields e ! 1 = he_path e"
    "version_fields e ! 2 = dec_text (unat (he_device_time_raw e))"
    "version_fields e ! 3 = dec_text (unat (he_size e))"
    "version_fields e ! 4 = dec_text (unat (he_initial_sync_utc e))"
    "version_fields e ! 5 = hex_text (he_sha256 e)" "version_fields e ! 6 = he_object_name e"
    "length (version_fields e) = 7"
    by (simp_all add: version_fields_def)
  ultimately show ?thesis
    using assms version_names [OF assms(1)]
    by (simp add: read_version_def version_ok_def parse_u32_text parse_u64_text parse_digest_roundtrip
        Let_def not_le)
qed

abbreviation scan_before :: "history_entry \<Rightarrow> history_scan \<Rightarrow> bool" where
  "scan_before e scan \<equiv> snd scan < he_sequence e \<and> length (fst scan) < SYNC_HISTORY_CAPACITY"

interpretation hi_file: line_file version_line "parse_history_line True"
  "\<lambda>e scan. (fst scan @ [e], he_sequence e)" scan_before version_ok
proof unfold_locales
  fix e and scan :: history_scan
  assume ok: "version_ok e"
  show "version_line e \<noteq> []" "NEWLINE \<notin> set (version_line e)"
    unfolding version_line_def
    using join_fields_nonempty [OF _ version_fields_ok [OF ok]] join_fields_no_newline [OF version_fields_ok [OF ok]]
    by (simp_all add: version_fields_def)
  assume before: "scan_before e scan"
  then have "read_version True (snd scan) (version_line e) = Some e" using ok by (simp add: read_version_line)
  moreover have "valid_cache_name (Some (he_object_name e))" using ok by (simp add: version_ok_def)
  ultimately show "parse_history_line True (version_line e) scan = Inr (fst scan @ [e], he_sequence e)"
    using before by (cases scan) (simp add: parse_history_line_def)
qed

definition history_text :: "sync_history \<Rightarrow> u8 list" where
  "history_text h = history_header (hi_next_sequence h)
     @ concat (map (\<lambda>e. version_line e @ [NEWLINE]) (hi_entries h))"

lemma serialize_versions_append:
  "list_all version_ok es \<Longrightarrow> serialize_versions es w = append_or MF_BUFFER_TOO_SMALL (concat (map version_pieces es)) w"
proof (induction es arbitrary: w)
  case Nil
  then show ?case by simp
next
  case (Cons e es)
  then have e: "version_ok e" by simp
  then have "serialize_version e w = append_or MF_BUFFER_TOO_SMALL (version_pieces e) w"
    using version_prefix_length [OF e]
    by (simp add: serialize_version_def version_pieces_def version_ok_def)
  then show ?case using Cons by (simp add: append_or_append split: sum.split)
qed

lemma history_text_eq:
  "history_text h = concat (history_header (hi_next_sequence h) # concat (map version_pieces (hi_entries h)))"
proof -
  have "concat (concat (map version_pieces es)) = concat (map (\<lambda>e. version_line e @ [NEWLINE]) es)" for es
    by (induction es) (simp_all add: concat_version_pieces)
  then show ?thesis by (simp add: history_text_def)
qed

lemma history_header_length: "length (history_header n) < 64"
  using dec_text_u32_length [of n] by (simp add: history_header_def HISTORY_HEADER_V2_PREFIX_def)

lemma serialize_history:
  assumes "history_ok h"
  shows "serialized MF_OK MF_BUFFER_TOO_SMALL (history_text h) buffer
    (sync_history_serialize (Some h) (Span buffer) (Some len))"
proof -
  let ?pieces = "concat (map version_pieces (hi_entries h))" and ?header = "history_header (hi_next_sequence h)"
  have all: "list_all version_ok (hi_entries h)" "length (hi_entries h) \<le> SYNC_HISTORY_CAPACITY"
    "hi_next_sequence h \<noteq> 0"
    using assms by (simp_all add: history_ok_def)
  have "sync_history_serialize (Some h) (Span buffer) (Some len) = serialize_result MF_OK (Span buffer)
      (Some len) (append_or MF_BUFFER_TOO_SMALL ([?header] @ ?pieces) \<lparr>tw_buffer = buffer, tw_used = 0\<rparr>)"
    using all(2,3) history_header_length [of "hi_next_sequence h"] unfolding append_or_append
    by (simp add: sync_history_serialize_def serialize_versions_append [OF all(1)] not_le cong: sum.case_cong)
  then show ?thesis
    using serialize_result_append [of MF_OK MF_BUFFER_TOO_SMALL "[?header] @ ?pieces" buffer "Some len"]
    by (simp add: history_text_eq)
qed

lemma addable_versions:
  "sorted_wrt (<) (map he_sequence es) \<Longrightarrow> \<forall>e \<in> set es. highest < he_sequence e \<Longrightarrow>
   length done_entries + length es \<le> SYNC_HISTORY_CAPACITY \<Longrightarrow> hi_file.addable es (done_entries, highest)"
  by (induction es arbitrary: done_entries highest) auto

lemma foldl_versions:
  "foldl (\<lambda>scan e. (fst scan @ [e], he_sequence e)) (done_entries, highest) es
    = (done_entries @ es, if es = [] then highest else he_sequence (last es))"
  by (induction es arbitrary: done_entries highest) auto

lemma parse_history_text:
  assumes "history_ok h"
  shows "sync_history_parse True (Span (history_text h)) (Some old) = (MF_OK, Some h)"
proof -
  let ?n = "hi_next_sequence h" and ?es = "hi_entries h"
  let ?number = "dec_text (unat ?n)" and ?prefix = HISTORY_HEADER_V2_PREFIX
  have ok: "list_all version_ok ?es" "?n \<noteq> 0" "\<forall>e \<in> set ?es. he_sequence e < ?n"
    using assms by (simp_all add: history_ok_def)
  have "hi_file.addable ?es ([], 0)"
  proof (rule addable_versions)
    show "\<forall>e \<in> set ?es. 0 < he_sequence e"
      using ok(1) by (auto simp: list_all_iff version_ok_def word_gt_0)
  qed (use assms in \<open>simp_all add: history_ok_def\<close>)
  then have lines: "parse_lines MF_INVALID_FORMAT (parse_history_line True) (hi_file.text_of ?es) ([], 0)
      = Inr (?es, if ?es = [] then 0 else he_sequence (last ?es))"
    using hi_file.read_text_of [OF ok(1)] by (simp add: foldl_versions)
  have "history_text h = (?prefix @ ?number) @ NEWLINE # hi_file.text_of ?es"
    by (simp add: history_text_def history_header_def hi_file.text_of_def)
  moreover have clean: "NEWLINE \<notin> set (?prefix @ ?number)"
    using dec_text_field [of "unat ?n"] by (simp add: HISTORY_HEADER_V2_PREFIX_def field_ok_def)
  ultimately have "find_newline (history_text h) = Some (length (?prefix @ ?number))"
    "take (length (?prefix @ ?number)) (history_text h) = ?prefix @ ?number"
    "drop (length (?prefix @ ?number) + 1) (history_text h) = hi_file.text_of ?es"
    "history_version (history_text h) = Some (True, length ?prefix)"
    using find_newline_line [OF clean] by (simp_all add: history_version_def starts_with_def)
  moreover have "(if ?es = [] then 0 else he_sequence (last ?es)) < ?n"
    using ok(2,3) by (auto simp: word_gt_0)
  ultimately show ?thesis
    using lines ok(2) by (simp add: sync_history_parse_def parse_u32_text not_le)
qed

section \<open>Every sequence of calls\<close>

definition scan_ok :: "history_scan \<Rightarrow> bool" where
  "scan_ok scan \<longleftrightarrow>
     length (fst scan) \<le> SYNC_HISTORY_CAPACITY \<and> list_all version_ok (fst scan)
     \<and> sorted_wrt (<) (map he_sequence (fst scan)) \<and> (\<forall>e \<in> set (fst scan). he_sequence e \<le> snd scan)"

lemma read_version_sound:
  assumes "read_version version_two highest line = Some e"
  shows "highest < he_sequence e" "he_sequence e \<noteq> 0" "he_size e \<noteq> 0" "valid_path_bytes (Span (he_path e))"
    "0 \<notin> set (he_object_name e)" "length (he_sha256 e) = SYNC_SHA256_BYTES"
  using assms
  by (auto simp: read_version_def parse_digest_def Let_def parse_hex_length not_le c_str_no_nul
      split: Option.bind_splits if_splits)

lemma parse_history_line_ok:
  assumes "parse_history_line version_two line scan = Inr scan'" and "scan_ok scan"
  shows "scan_ok scan'"
proof -
  obtain es highest where scan: "scan = (es, highest)" by fastforce
  with assms(1) obtain e where e: "read_version version_two highest line = Some e"
    "valid_cache_name (Some (he_object_name e))" "length es < SYNC_HISTORY_CAPACITY"
    "scan' = (es @ [e], he_sequence e)"
    by (auto simp: parse_history_line_def split: option.splits if_splits)
  have "version_ok e" using read_version_sound [OF e(1)] e(2) by (simp add: version_ok_def)
  moreover have "x < he_sequence e" if "x \<le> highest" for x
    using that read_version_sound(1) [OF e(1)] by (rule le_less_trans)
  ultimately show ?thesis using assms(2) e(3,4)
    by (auto simp: scan_ok_def scan sorted_wrt_append intro: less_imp_le)
qed

lemma history_parse_outcome:
  "case sync_history_parse allocated input (Some old) of
     (status, h') \<Rightarrow> if status = MF_OK then \<exists>h. h' = Some h \<and> history_ok h else h' = Some old"
proof -
  have ok: "scan_ok scan" if "parse_lines MF_INVALID_FORMAT (parse_history_line v) ls ([], 0) = Inr scan" for v ls scan
    using parse_lines_inv [where P = scan_ok, OF parse_history_line_ok that] by (simp add: scan_ok_def)
  have err: "st \<noteq> MF_OK" if "parse_lines MF_INVALID_FORMAT (parse_history_line v) ls t = Inl st" for v ls t st
  proof (rule parse_lines_error [OF that])
    show "s \<noteq> MF_OK" if "parse_history_line v line t = Inl s" for line t s
      using that by (auto simp: parse_history_line_def split: option.splits prod.splits if_splits)
  qed simp
  have "history_ok \<lparr>hi_entries = es, hi_next_sequence = n\<rparr>"
    if "parse_lines MF_INVALID_FORMAT (parse_history_line v) ls ([], 0) = Inr (es, highest)" "highest < n" for v ls es highest n
    using ok [OF that(1)] that(2) by (auto simp: scan_ok_def history_ok_def word_gt_0 intro: le_less_trans)
  with err show ?thesis
    by (auto simp: sync_history_parse_def not_le split: option.split sum.split Option.bind_splits prod.splits)
qed

datatype history_call = HI_Record "u8 span" u32 u32 u64 "u8 list" "u8 list" | HI_Load bool "u8 span"

text \<open>A call with a digest of another length than 32 is outside the interface and ignored.\<close>

fun history_step :: "sync_history \<Rightarrow> history_call \<Rightarrow> sync_history" where
  "history_step h (HI_Record path t n utc digest name) =
     (if length digest = SYNC_SHA256_BYTES
      then the (fst (snd (sync_history_record_at (Some h) path t n utc (Some digest) (Some name) (Some 0)))) else h)"
| "history_step h (HI_Load allocated input) = the (snd (sync_history_parse allocated input (Some h)))"

lemma history_step_ok:
  assumes "history_ok h"
  shows "history_ok (history_step h call)"
proof (cases call)
  case (HI_Record path t n utc digest name)
  obtain st h' sequence where r: "sync_history_record_at (Some h) path t n utc (Some digest) (Some name)
      (Some 0) = (st, h', sequence)" using prod_cases3 by blast
  then have "h' = Some (the h')" using record_cases [OF r] by auto
  then have "history_ok (the h')" if "length digest = SYNC_SHA256_BYTES"
    using record_ok [OF assms that] r by metis
  then show ?thesis using HI_Record r assms by simp
next
  case (HI_Load allocated input)
  then show ?thesis
    using history_parse_outcome [where allocated = allocated and input = input and old = h] assms
    by (auto split: prod.splits if_splits)
qed

interpretation hi: event_machine history_step "\<lambda>h. sync_history_init (Some h) = Some h" history_ok
proof
  show "history_ok h" if "sync_history_init (Some h) = Some h" for h
  proof -
    from that have "h = \<lparr>hi_entries = [], hi_next_sequence = 1\<rparr>" by simp
    then show ?thesis by (simp add: history_ok_def)
  qed
qed (rule history_step_ok)

text \<open>
  The history survives the card: after any recordings and loads since the start, a large
  enough buffer receives its text, and reading that text gives back the same versions with the
  same numbers and the same next number; a smaller buffer is refused.
\<close>

lemma history_survives_card:
  "let h = foldl history_step (the (sync_history_init (Some any))) calls in
    serialized MF_OK MF_BUFFER_TOO_SMALL (history_text h) buffer
      (sync_history_serialize (Some h) (Span buffer) (Some len))
    \<and> sync_history_parse True (Span (history_text h)) (Some old) = (MF_OK, Some h)"
proof -
  have "history_ok (foldl history_step (the (sync_history_init (Some any))) calls)"
    by (rule hi.run_inv) simp
  from serialize_history [OF this] parse_history_text [OF this] show ?thesis
    unfolding Let_def by (intro conjI)
qed

end
