(* ===== verification/Sync_Annotations.thy ===== *)
theory Sync_Annotations
  imports Keyed_Table
begin

text \<open>
  The annotations (revlink_sync/revlink_sync_annotations.c): notes on exact versions of a file
  and links from a datalog to the map it was recorded with, keyed by the digest of the version,
  with their text form. An annotation with neither a note nor a link is not kept.

  The entries behind \<open>count\<close> are zero at all times, so a new entry starts without a link. The
  digests are pointers to 32 bytes.
\<close>

section \<open>Data\<close>

datatype annotation_status = AN_OK | AN_INVALID_ARGUMENT | AN_INVALID_FORMAT | AN_CAPACITY_EXCEEDED
  | AN_BUFFER_TOO_SMALL | AN_ALLOCATION_FAILED

record annotation =
  an_sha256 :: "u8 list"
  an_updated_at_utc :: u64
  an_note :: "u8 list"
  an_has_map_sha256 :: bool
  an_map_sha256 :: "u8 list"

type_synonym annotations = "annotation list"

abbreviation (input) ANNOTATION_CAPACITY :: nat where "ANNOTATION_CAPACITY \<equiv> 128"
abbreviation (input) NOTE_CAPACITY :: nat where "NOTE_CAPACITY \<equiv> 768"

definition zero_digest :: "u8 list" where
  "zero_digest = replicate SYNC_SHA256_BYTES 0"

definition ANNOTATION_HEADER :: "u8 list" where
  "ANNOTATION_HEADER = ascii ''REVLINK-ANNOTATIONS'' @ [TAB] @ ascii ''2'' @ [NEWLINE]"

definition LEGACY_ANNOTATION_HEADER :: "u8 list" where
  "LEGACY_ANNOTATION_HEADER = ascii ''REVLINK-ANNOTATIONS'' @ [TAB] @ ascii ''1'' @ [NEWLINE]"

section \<open>The operations\<close>

definition valid_note :: "u8 span \<Rightarrow> bool" where
  "valid_note note \<longleftrightarrow>
     \<not> is_null note \<and> slen note < NOTE_CAPACITY \<and> list_all (\<lambda>b. b \<noteq> 0 \<and> b \<noteq> 13) (sbytes note)"

fun annotations_init :: "annotations option \<Rightarrow> annotations option" where
  "annotations_init None = None"
| "annotations_init (Some a) = Some []"

definition has_digest :: "u8 list \<Rightarrow> annotation \<Rightarrow> bool" where
  "has_digest digest entry \<longleftrightarrow> an_sha256 entry = digest"

fun annotations_find :: "annotations option \<Rightarrow> u8 list option \<Rightarrow> annotation option" where
  "annotations_find (Some a) (Some digest) = find (has_digest digest) a"
| "annotations_find _ _ = None"

definition annotations_set ::
  "annotations option \<Rightarrow> u8 list option \<Rightarrow> u8 span \<Rightarrow> u64 \<Rightarrow> annotation_status \<times> annotations option" where
  "annotations_set annotations sha256 note updated_at_utc =
     (case (annotations, sha256) of
        (Some a, Some digest) \<Rightarrow>
          if \<not> valid_note note then (AN_INVALID_ARGUMENT, annotations)
          else
            let target = index_of (has_digest digest) a in
            if slen note = 0
            then (AN_OK, Some
              (if target < length a
               then (if an_has_map_sha256 (a ! target)
                     then a[target := (a ! target)\<lparr>an_note := [], an_updated_at_utc := updated_at_utc\<rparr>]
                     else shift_remove target a)
               else a))
            else if target = length a \<and> length a \<ge> ANNOTATION_CAPACITY
            then (AN_CAPACITY_EXCEEDED, annotations)
            else
              let preserve_map = (target < length a \<and> an_has_map_sha256 (a ! target)) in
              (AN_OK, Some (put_row target
                 \<lparr>an_sha256 = digest, an_updated_at_utc = updated_at_utc, an_note = sbytes note,
                  an_has_map_sha256 = preserve_map,
                  an_map_sha256 = (if preserve_map then an_map_sha256 (a ! target) else zero_digest)\<rparr> a))
      | _ \<Rightarrow> (AN_INVALID_ARGUMENT, annotations))"

definition annotations_set_map ::
  "annotations option \<Rightarrow> u8 list option \<Rightarrow> u8 list option \<Rightarrow> u64 \<Rightarrow> annotation_status \<times> annotations option" where
  "annotations_set_map annotations sha256 map_sha256 updated_at_utc =
     (case (annotations, sha256) of
        (Some a, Some digest) \<Rightarrow>
          let target = index_of (has_digest digest) a in
          (case map_sha256 of
             None \<Rightarrow>
               (AN_OK, Some
                 (if target < length a
                  then
                    let entry = (a ! target)\<lparr>an_has_map_sha256 := False, an_map_sha256 := zero_digest,
                          an_updated_at_utc := updated_at_utc\<rparr>
                    in if an_note entry = [] then shift_remove target (a[target := entry])
                       else a[target := entry]
                  else a))
           | Some map_digest \<Rightarrow>
               if target = length a \<and> length a \<ge> ANNOTATION_CAPACITY
               then (AN_CAPACITY_EXCEEDED, annotations)
               else
                 let entry = (if target < length a then a ! target
                       else \<lparr>an_sha256 = digest, an_updated_at_utc = 0, an_note = [],
                             an_has_map_sha256 = False, an_map_sha256 = zero_digest\<rparr>)
                 in (AN_OK, Some (put_row target
                      (entry\<lparr>an_has_map_sha256 := True, an_map_sha256 := map_digest,
                             an_updated_at_utc := updated_at_utc\<rparr>) a)))
      | _ \<Rightarrow> (AN_INVALID_ARGUMENT, annotations))"

section \<open>Writing\<close>

definition annotation_prefix :: "annotation \<Rightarrow> u8 list" where
  "annotation_prefix e =
     [TAB] @ dec_text (unat (an_updated_at_utc e)) @ [TAB] @ dec_text (length (an_note e)) @ [TAB]"

definition map_text :: "annotation \<Rightarrow> u8 list" where
  "map_text e = (if an_has_map_sha256 e then hex_text (an_map_sha256 e) else ascii ''-'')"

definition annotation_pieces :: "annotation \<Rightarrow> u8 list list" where
  "annotation_pieces e =
     [hex_text (an_sha256 e), annotation_prefix e] @ map hex_byte (an_note e)
       @ [[TAB], map_text e, [NEWLINE]]"

text \<open>The digest is appended before the length of the prefix is looked at.\<close>

definition serialize_annotation :: "annotation \<Rightarrow> text_writer \<Rightarrow> annotation_status serialize_stop + text_writer" where
  "serialize_annotation e w =
     (if \<not> valid_note (Span (an_note e)) \<or> (length (an_note e) = 0 \<and> \<not> an_has_map_sha256 e)
      then Inl (AN_INVALID_ARGUMENT, None, tw_buffer w)
      else if length (annotation_prefix e) \<ge> 48
      then (case append_or AN_BUFFER_TOO_SMALL [hex_text (an_sha256 e)] w of
              Inl stop \<Rightarrow> Inl stop
            | Inr w' \<Rightarrow> Inl (AN_INVALID_ARGUMENT, None, tw_buffer w'))
      else append_or AN_BUFFER_TOO_SMALL (annotation_pieces e) w)"

fun serialize_annotations :: "annotation list \<Rightarrow> text_writer \<Rightarrow> annotation_status serialize_stop + text_writer" where
  "serialize_annotations [] w = Inr w"
| "serialize_annotations (e # es) w =
     (case serialize_annotation e w of Inl stop \<Rightarrow> Inl stop | Inr w' \<Rightarrow> serialize_annotations es w')"

definition annotations_serialize ::
  "annotations option \<Rightarrow> u8 span \<Rightarrow> nat option \<Rightarrow> annotation_status \<times> u8 span \<times> nat option" where
  "annotations_serialize annotations output output_length =
     (case (annotations, output_length) of
        (Some a, Some len) \<Rightarrow>
          if is_null output \<or> length a > ANNOTATION_CAPACITY
          then (AN_INVALID_ARGUMENT, output, output_length)
          else
            serialize_result AN_OK output output_length
              (case append_or AN_BUFFER_TOO_SMALL [ANNOTATION_HEADER]
                      \<lparr>tw_buffer = sbytes output, tw_used = 0\<rparr> of
                 Inl stop \<Rightarrow> Inl stop
               | Inr w \<Rightarrow> serialize_annotations a w)
      | _ \<Rightarrow> (AN_INVALID_ARGUMENT, output, output_length))"

section \<open>Reading\<close>

text \<open>The pieces of a line between its first tabs, at most the given number of tabs.\<close>

fun cut_tabs :: "nat \<Rightarrow> u8 list \<Rightarrow> u8 list list" where
  "cut_tabs 0 line = [line]"
| "cut_tabs (Suc n) line =
     (let f = takeWhile (\<lambda>b. b \<noteq> TAB) line in
      if length f < length line then f # cut_tabs n (drop (length f + 1) line) else [line])"

definition read_annotation :: "bool \<Rightarrow> u8 list \<Rightarrow> (u8 list \<times> u64 \<times> u8 list \<times> u8 list) option" where
  "read_annotation legacy line =
     do { let pieces = cut_tabs 4 line;
          (if length pieces \<noteq> (if legacy then 4 else 5) then None else Some ());
          digest \<leftarrow> parse_hex (pieces ! 0) SYNC_SHA256_BYTES;
          updated \<leftarrow> parse_u64 (pieces ! 1);
          encoded_length \<leftarrow> parse_u64 (pieces ! 2);
          (if (legacy \<and> encoded_length = 0) \<or> encoded_length \<ge> 768
             \<or> length (pieces ! 3) \<noteq> unat (encoded_length * 2) then None else Some ());
          note \<leftarrow> parse_hex (pieces ! 3) (unat encoded_length);
          Some (digest, updated, note, if legacy then [] else pieces ! 4) }"

definition parse_annotation_line ::
  "bool \<Rightarrow> u8 list \<Rightarrow> annotations \<Rightarrow> annotation_status + annotations" where
  "parse_annotation_line legacy line parsed =
     (case read_annotation legacy line of
        None \<Rightarrow> Inl AN_INVALID_FORMAT
      | Some (digest, updated, note, map_field) \<Rightarrow>
          (case annotations_set (Some parsed) (Some digest) (Span note) updated of
             (status, table) \<Rightarrow>
               if status \<noteq> AN_OK then Inl status
               else if legacy then Inr (the table)
               else if map_field = ascii ''-'' then Inr (the table)
               else (case parse_hex map_field SYNC_SHA256_BYTES of
                  None \<Rightarrow> Inl AN_INVALID_FORMAT
                | Some map_digest \<Rightarrow>
                    (case annotations_set_map table (Some digest) (Some map_digest) updated of
                       (status, table) \<Rightarrow> if status \<noteq> AN_OK then Inl status else Inr (the table)))))"

definition annotations_parse ::
  "bool \<Rightarrow> u8 span \<Rightarrow> annotations option \<Rightarrow> annotation_status \<times> annotations option" where
  "annotations_parse allocated input annotations =
     (if is_null input \<or> annotations = None then (AN_INVALID_FORMAT, annotations)
      else
        let legacy = starts_with LEGACY_ANNOTATION_HEADER (sbytes input) in
        if \<not> legacy \<and> \<not> starts_with ANNOTATION_HEADER (sbytes input) then (AN_INVALID_FORMAT, annotations)
        else if \<not> allocated then (AN_ALLOCATION_FAILED, annotations)
        else
          (case parse_lines AN_INVALID_FORMAT (parse_annotation_line legacy)
                  (drop (if legacy then length LEGACY_ANNOTATION_HEADER else length ANNOTATION_HEADER)
                    (sbytes input)) [] of
             Inl status \<Rightarrow> (status, annotations)
           | Inr parsed \<Rightarrow> (AN_OK, Some parsed)))"

section \<open>The invariant\<close>

definition annotation_ok :: "annotation \<Rightarrow> bool" where
  "annotation_ok e \<longleftrightarrow>
     length (an_sha256 e) = SYNC_SHA256_BYTES \<and> valid_note (Span (an_note e))
     \<and> (an_note e \<noteq> [] \<or> an_has_map_sha256 e) \<and> length (an_map_sha256 e) = SYNC_SHA256_BYTES
     \<and> (\<not> an_has_map_sha256 e \<longrightarrow> an_map_sha256 e = zero_digest)"

definition annotations_ok :: "annotations \<Rightarrow> bool" where
  "annotations_ok a \<longleftrightarrow>
     length a \<le> ANNOTATION_CAPACITY \<and> distinct (map an_sha256 a) \<and> list_all annotation_ok a"

section \<open>The table as a map\<close>

text \<open>
  The specification: what is known of a version is its note, the map it is linked to and the
  time of the last change. A version without note and link is not kept.
\<close>

type_synonym remark = "u8 list \<times> u8 list option \<times> u64"

definition remark_of :: "annotation \<Rightarrow> remark" where
  "remark_of e = (an_note e, if an_has_map_sha256 e then Some (an_map_sha256 e) else None, an_updated_at_utc e)"

definition remarks :: "annotations \<Rightarrow> u8 list \<Rightarrow> remark option" where
  "remarks a digest = map_option remark_of (find (has_digest digest) a)"

fun note_of :: "remark option \<Rightarrow> u8 list" where
  "note_of None = []"
| "note_of (Some (note, link, updated)) = note"

fun link_of :: "remark option \<Rightarrow> u8 list option" where
  "link_of None = None"
| "link_of (Some (note, link, updated)) = link"

definition keep_remark :: "u8 list \<Rightarrow> remark \<Rightarrow> (u8 list \<Rightarrow> remark option) \<Rightarrow> u8 list \<Rightarrow> remark option" where
  "keep_remark digest r known =
     known(digest := (if note_of (Some r) = [] \<and> link_of (Some r) = None then None else Some r))"

lemma has_digest_eq: "has_digest d = (\<lambda>e. an_sha256 e = d)"
  by (simp add: has_digest_def fun_eq_iff)

lemma remarks_put:
  assumes "distinct (map an_sha256 a)" and "an_sha256 e = d"
  shows "remarks (put_row (index_of (has_digest d) a) e a) = (remarks a)(d \<mapsto> remark_of e)"
  using find_put_row [OF assms(1), of _ e] assms(2)
  by (auto simp: remarks_def has_digest_eq fun_eq_iff)

lemma remarks_removed:
  assumes "distinct (map an_sha256 a)" and "index_of (has_digest d) a < length a"
  shows "remarks (shift_remove (index_of (has_digest d) a) a) = (remarks a)(d := None)"
  using removal_at_key(1) [OF assms(1) _ assms(2) shift_remove_mset [OF assms(2)], of d]
  by (auto simp: remarks_def has_digest_eq fun_eq_iff)

lemma remarks_at:
  assumes "index_of (has_digest d) a < length a"
  shows "remarks a d = Some (remark_of (a ! index_of (has_digest d) a))"
    "an_sha256 (a ! index_of (has_digest d) a) = d"
  using assms index_of_nth [OF assms] by (simp_all add: remarks_def find_index_of has_digest_def)

lemma remarks_none: "\<not> index_of (has_digest d) a < length a \<Longrightarrow> remarks a d = None"
  by (simp add: remarks_def find_index_of)

lemma annotations_set_remarks:
  assumes "distinct (map an_sha256 a)"
  shows "case annotations_set (Some a) (Some d) note t of
    (status, a') \<Rightarrow> if status = AN_OK
      then remarks (the a') = keep_remark d (sbytes note, link_of (remarks a d), t) (remarks a)
      else a' = Some a \<and> status = (if valid_note note then AN_CAPACITY_EXCEEDED else AN_INVALID_ARGUMENT)
          \<and> (if valid_note note then length a \<ge> ANNOTATION_CAPACITY \<and> remarks a d = None else True)"
proof -
  let ?i = "index_of (has_digest d) a"
  have i: "?i = length a \<longleftrightarrow> \<not> ?i < length a" using index_of_le [of "has_digest d" a] by linarith
  have n: "sbytes note = [] \<longleftrightarrow> slen note = 0" if "valid_note note"
    using that by (cases "note") (auto simp: valid_note_def)
  have none: "(remarks a)(d := None) = remarks a" if "\<not> ?i < length a"
    using remarks_none [OF that] by (simp add: fun_upd_idem)
  show ?thesis
  proof (cases "?i < length a")
    case True
    with remarks_at [OF True] remarks_removed [OF assms True] remarks_put [OF assms, of _ d] n i show ?thesis
      by (auto simp: annotations_set_def keep_remark_def remark_of_def put_row_less Let_def)
  next
    case False
    with none remarks_none [OF False] remarks_put [OF assms, of _ d] n i show ?thesis
      by (auto simp: annotations_set_def keep_remark_def remark_of_def Let_def)
  qed
qed

lemma annotations_set_map_remarks:
  assumes "distinct (map an_sha256 a)"
  shows "case annotations_set_map (Some a) (Some d) link t of
    (status, a') \<Rightarrow> if status = AN_OK
      then remarks (the a') = keep_remark d (note_of (remarks a d), link, t) (remarks a)
      else a' = Some a \<and> status = AN_CAPACITY_EXCEEDED \<and> length a \<ge> ANNOTATION_CAPACITY \<and> remarks a d = None"
proof -
  let ?i = "index_of (has_digest d) a"
  have i: "?i = length a \<longleftrightarrow> \<not> ?i < length a" using index_of_le [of "has_digest d" a] by linarith
  have none: "(remarks a)(d := None) = remarks a" if "\<not> ?i < length a"
    using remarks_none [OF that] by (simp add: fun_upd_idem)
  show ?thesis
  proof (cases "?i < length a")
    case True
    with remarks_at [OF True] remarks_removed [OF assms True] remarks_put [OF assms, of _ d] i show ?thesis
      by (cases link) (auto simp: annotations_set_map_def keep_remark_def remark_of_def put_row_less Let_def)
  next
    case False
    with none remarks_none [OF False] remarks_put [OF assms, of _ d] i show ?thesis
      by (cases link) (auto simp: annotations_set_map_def keep_remark_def remark_of_def Let_def)
  qed
qed

lemma annotations_status:
  assumes "length a \<le> ANNOTATION_CAPACITY"
  shows "fst (annotations_set (Some a) (Some d) note t) =
     (if \<not> valid_note note then AN_INVALID_ARGUMENT
      else if sbytes note \<noteq> [] \<and> remarks a d = None \<and> length a = 128 then AN_CAPACITY_EXCEEDED else AN_OK)"
    and "fst (annotations_set_map (Some a) (Some d) link t) =
     (if link \<noteq> None \<and> remarks a d = None \<and> length a = 128 then AN_CAPACITY_EXCEEDED else AN_OK)"
proof -
  let ?i = "index_of (has_digest d) a"
  have i: "?i = length a \<longleftrightarrow> remarks a d = None"
    using index_of_le [of "has_digest d" a] remarks_none [of d a] remarks_at(1) [of d a] by fastforce
  have n: "sbytes note = [] \<longleftrightarrow> slen note = 0" if "valid_note note"
    using that by (cases "note") (auto simp: valid_note_def)
  show "fst (annotations_set (Some a) (Some d) note t) =
     (if \<not> valid_note note then AN_INVALID_ARGUMENT
      else if sbytes note \<noteq> [] \<and> remarks a d = None \<and> length a = 128 then AN_CAPACITY_EXCEEDED else AN_OK)"
    using i n assms by (cases "length a = 128") (auto simp: annotations_set_def Let_def)
  show "fst (annotations_set_map (Some a) (Some d) link t) =
     (if link \<noteq> None \<and> remarks a d = None \<and> length a = 128 then AN_CAPACITY_EXCEEDED else AN_OK)"
    using i assms by (cases link) (simp_all add: annotations_set_map_def Let_def)
qed

section \<open>The operations keep the invariant\<close>

lemma annotations_ok_put:
  assumes "annotations_ok a" and "annotation_ok e" and "an_sha256 e = d"
    and "index_of (has_digest d) a < length a \<or> length a < ANNOTATION_CAPACITY"
  shows "annotations_ok (put_row (index_of (has_digest d) a) e a)"
proof -
  have "distinct (map an_sha256 a)" using assms(1) by (simp add: annotations_ok_def)
  from put_row_set [OF this, of e] show ?thesis
    using assms by (auto simp: annotations_ok_def has_digest_eq list_all_iff)
qed

lemma annotations_ok_removed:
  assumes "annotations_ok a" and "index_of (has_digest d) a < length a"
  shows "annotations_ok (shift_remove (index_of (has_digest d) a) a)"
proof -
  have "distinct (map an_sha256 a)" using assms(1) by (simp add: annotations_ok_def)
  from removal_at_key(2-4) [OF this _ assms(2) shift_remove_mset [OF assms(2)], of d] show ?thesis
    using assms(1) by (auto simp: annotations_ok_def list_all_iff has_digest_eq)
qed

lemma zero_digest_length [simp]: "length zero_digest = SYNC_SHA256_BYTES"
  by (simp add: zero_digest_def)

lemma nth_annotation_ok:
  "annotations_ok a \<Longrightarrow> i < length a \<Longrightarrow> annotation_ok (a ! i)"
  by (simp add: annotations_ok_def list_all_length)

lemma annotations_set_ok:
  assumes "annotations_ok a" and "length d = SYNC_SHA256_BYTES"
    and "annotations_set (Some a) (Some d) note t = (status, Some a')"
  shows "annotations_ok a'"
proof -
  let ?i = "index_of (has_digest d) a"
  have i: "?i = length a \<longleftrightarrow> \<not> ?i < length a" using index_of_le [of "has_digest d" a] by linarith
  have valid: "valid_note (Span (sbytes note))" if "valid_note note"
    using that by (cases "note") (auto simp: valid_note_def)
  have empty: "valid_note (Span [])" by (simp add: valid_note_def)
  have nonempty: "sbytes note \<noteq> []" if "slen note \<noteq> 0" "valid_note note"
    using that by (cases "note") (auto simp: valid_note_def)
  show ?thesis
  proof (cases "?i < length a")
    case True
    have e: "annotation_ok (a ! ?i)" using nth_annotation_ok [OF assms(1) True] .
    have key: "an_sha256 (a ! ?i) = d" using remarks_at(2) [OF True] .
    have "annotation_ok ((a ! ?i)\<lparr>an_note := [], an_updated_at_utc := t\<rparr>)" if "an_has_map_sha256 (a ! ?i)"
      using e that empty by (simp add: annotation_ok_def)
    moreover have "annotation_ok \<lparr>an_sha256 = d, an_updated_at_utc = t, an_note = sbytes note,
        an_has_map_sha256 = an_has_map_sha256 (a ! ?i),
        an_map_sha256 = (if an_has_map_sha256 (a ! ?i) then an_map_sha256 (a ! ?i) else zero_digest)\<rparr>"
      if "slen note \<noteq> 0" "valid_note note"
      using e that valid nonempty assms(2) by (simp add: annotation_ok_def)
    ultimately show ?thesis
      using assms(1,3) True i key annotations_ok_put [OF assms(1), of _ d] annotations_ok_removed [OF assms(1) True]
      by (auto simp: annotations_set_def put_row_less Let_def split: if_splits)
  next
    case False
    then show ?thesis
      using assms i valid nonempty annotations_ok_put [OF assms(1), of _ d]
      by (auto simp: annotations_set_def annotation_ok_def Let_def split: if_splits)
  qed
qed

lemma annotations_set_map_ok:
  assumes "annotations_ok a" and "length d = SYNC_SHA256_BYTES"
    and "case link of None \<Rightarrow> True | Some m \<Rightarrow> length m = SYNC_SHA256_BYTES"
    and "annotations_set_map (Some a) (Some d) link t = (status, Some a')"
  shows "annotations_ok a'"
proof -
  let ?i = "index_of (has_digest d) a"
  have i: "?i = length a \<longleftrightarrow> \<not> ?i < length a" using index_of_le [of "has_digest d" a] by linarith
  have empty: "valid_note (Span [])" by (simp add: valid_note_def)
  show ?thesis
  proof (cases "?i < length a")
    case True
    have e: "annotation_ok (a ! ?i)" using nth_annotation_ok [OF assms(1) True] .
    have key: "an_sha256 (a ! ?i) = d" using remarks_at(2) [OF True] .
    have "annotation_ok ((a ! ?i)\<lparr>an_has_map_sha256 := False, an_map_sha256 := zero_digest, an_updated_at_utc := t\<rparr>)"
      if "an_note (a ! ?i) \<noteq> []" using e that by (simp add: annotation_ok_def)
    moreover have "annotation_ok ((a ! ?i)\<lparr>an_has_map_sha256 := True, an_map_sha256 := m, an_updated_at_utc := t\<rparr>)"
      if "length m = SYNC_SHA256_BYTES" for m using e that by (simp add: annotation_ok_def)
    ultimately show ?thesis
      using assms(1,3,4) True i key annotations_ok_put [OF assms(1), of _ d] annotations_ok_removed [OF assms(1) True]
      by (auto simp: annotations_set_map_def put_row_less Let_def split: if_splits option.splits)
  next
    case False
    then show ?thesis
      using assms i empty annotations_ok_put [OF assms(1), of _ d]
      by (auto simp: annotations_set_map_def annotation_ok_def Let_def split: if_splits option.splits)
  qed
qed

section \<open>The text form\<close>

definition annotation_line :: "annotation \<Rightarrow> u8 list" where
  "annotation_line e = hex_text (an_sha256 e) @ annotation_prefix e @ hex_text (an_note e) @ [TAB] @ map_text e"

lemma concat_annotation_pieces: "concat (annotation_pieces e) = annotation_line e @ [NEWLINE]"
  by (simp add: annotation_pieces_def annotation_line_def hex_text_def)

lemma cut_tabs_field: "TAB \<notin> set f \<Longrightarrow> cut_tabs (Suc n) (f @ TAB # rest) = f # cut_tabs n rest"
proof -
  assume "TAB \<notin> set f"
  then have "takeWhile (\<lambda>b. b \<noteq> TAB) (f @ TAB # rest) = f" by (subst takeWhile_append2) auto
  then show ?thesis by simp
qed

lemma hex_text_clean: "TAB \<notin> set (hex_text bs)" "NEWLINE \<notin> set (hex_text bs)"
  using hex_text_field [of bs] by (cases "bs = []"; simp add: field_ok_def hex_text_def)+

lemma dec_text_clean: "TAB \<notin> set (dec_text n)" "NEWLINE \<notin> set (dec_text n)"
  using dec_text_field [of n] by (simp_all add: field_ok_def)

lemma annotation_line_pieces:
  "cut_tabs 4 (annotation_line e) = [hex_text (an_sha256 e), dec_text (unat (an_updated_at_utc e)),
     dec_text (length (an_note e)), hex_text (an_note e), map_text e]"
  by (simp add: annotation_line_def annotation_prefix_def numeral_eq_Suc cut_tabs_field hex_text_clean
      dec_text_clean del: cut_tabs.simps(2))

lemma note_length_word:
  assumes "n < 768"
  shows "parse_u64 (dec_text n) = Some (of_nat n)" "unat (of_nat n :: u64) = n" "unat (of_nat n * 2 :: u64) = n * 2"
    "(768 :: u64) \<le> of_nat n \<longleftrightarrow> False"
proof -
  show u: "unat (of_nat n :: u64) = n" using assms by (simp add: unat_of_nat take_bit_nat_eq_self)
  show "parse_u64 (dec_text n) = Some (of_nat n)" using parse_u64_text [of "of_nat n"] by (simp only: u)
  show "unat (of_nat n * 2 :: u64) = n * 2"
    using assms by (simp add: unat_word_ariths u take_bit_nat_eq_self)
  show "(768 :: u64) \<le> of_nat n \<longleftrightarrow> False" using assms by (simp add: word_le_nat_alt u)
qed

lemma valid_note_length: "annotation_ok e \<Longrightarrow> length (an_note e) < 768"
  by (simp add: annotation_ok_def valid_note_def)

lemma read_annotation_line:
  assumes "annotation_ok e"
  shows "read_annotation False (annotation_line e)
    = Some (an_sha256 e, an_updated_at_utc e, an_note e, map_text e)"
  using assms note_length_word [OF valid_note_length [OF assms]]
  by (simp add: read_annotation_def annotation_line_pieces Let_def parse_u64_text parse_hex_roundtrip
      annotation_ok_def)

lemma parse_annotation_entry:
  assumes "annotation_ok e" and "an_sha256 e \<notin> an_sha256 ` set a \<and> length a < ANNOTATION_CAPACITY"
  shows "parse_annotation_line False (annotation_line e) a = Inr (a @ [e])"
proof -
  let ?d = "an_sha256 e"
  let ?bare = "e\<lparr>an_has_map_sha256 := False, an_map_sha256 := zero_digest\<rparr>"
  have none: "\<forall>x \<in> set a. \<not> has_digest ?d x" using assms(2) by (metis has_digest_def imageI)
  then have i: "index_of (has_digest ?d) a = length a"
    using index_of_le [of "has_digest ?d" a] index_of_less_iff [of "has_digest ?d" a] by auto
  have "takeWhile (\<lambda>x. \<not> has_digest ?d x) (a @ [?bare]) = a"
    using none by (subst takeWhile_append2) (auto simp: has_digest_def)
  then have j: "index_of (has_digest ?d) (a @ [?bare]) = length a" by (simp add: index_of_def)
  have e: "valid_note (Span (an_note e))" "an_note e \<noteq> [] \<or> an_has_map_sha256 e"
    "length (an_map_sha256 e) = SYNC_SHA256_BYTES" "\<not> an_has_map_sha256 e \<Longrightarrow> an_map_sha256 e = zero_digest"
    using assms(1) by (simp_all add: annotation_ok_def)
  have set: "annotations_set (Some a) (Some ?d) (Span (an_note e)) (an_updated_at_utc e)
      = (AN_OK, Some (if an_note e = [] then a else a @ [?bare]))"
    using e(1) i assms(2) by (cases e) (simp add: annotations_set_def put_row_def Let_def)
  have link: "annotations_set_map (Some (if an_note e = [] then a else a @ [?bare])) (Some ?d)
      (Some (an_map_sha256 e)) (an_updated_at_utc e) = (AN_OK, Some (a @ [e]))" if "an_has_map_sha256 e"
    using i j assms(2) that by (cases e) (simp add: annotations_set_map_def put_row_def Let_def)
  show ?thesis
  proof (cases "an_has_map_sha256 e")
    case True
    then have "map_text e = hex_text (an_map_sha256 e)" by (simp add: map_text_def)
    moreover have "hex_text (an_map_sha256 e) \<noteq> ascii ''-''"
      using e(3) by (auto dest: arg_cong [where f = length])
    ultimately show ?thesis
      using set link [OF True] e(3)
      by (simp add: parse_annotation_line_def read_annotation_line [OF assms(1)] parse_hex_roundtrip)
  next
    case False
    then have "?bare = e" "an_note e \<noteq> []" "map_text e = ascii ''-''"
      using e(2,4) by (cases e; simp add: map_text_def)+
    then show ?thesis using set
      by (simp add: parse_annotation_line_def read_annotation_line [OF assms(1)])
  qed
qed

interpretation an_file: line_file annotation_line "parse_annotation_line False" "\<lambda>e a. a @ [e]"
  "\<lambda>e a. an_sha256 e \<notin> an_sha256 ` set a \<and> length a < ANNOTATION_CAPACITY" annotation_ok
proof unfold_locales
  fix e
  show "annotation_line e \<noteq> []" by (simp add: annotation_line_def annotation_prefix_def)
  show "NEWLINE \<notin> set (annotation_line e)"
    by (simp add: annotation_line_def annotation_prefix_def map_text_def hex_text_clean dec_text_clean)
qed (rule parse_annotation_entry)

definition annotations_text :: "annotations \<Rightarrow> u8 list" where
  "annotations_text a = ANNOTATION_HEADER @ concat (map (\<lambda>e. annotation_line e @ [NEWLINE]) a)"

lemma serialize_annotations_append:
  "list_all annotation_ok es \<Longrightarrow> serialize_annotations es w = append_or AN_BUFFER_TOO_SMALL (concat (map annotation_pieces es)) w"
proof (induction es arbitrary: w)
  case Nil
  then show ?case by simp
next
  case (Cons e es)
  then have e: "annotation_ok e" by simp
  have "length (dec_text (length (an_note e))) \<le> Suc 2"
    using valid_note_length [OF e] by (intro dec_text_length) simp
  then have "length (annotation_prefix e) < 48"
    using dec_text_u64_length [of "an_updated_at_utc e"] by (simp add: annotation_prefix_def)
  then have "serialize_annotation e w = append_or AN_BUFFER_TOO_SMALL (annotation_pieces e) w"
    using e by (auto simp: serialize_annotation_def annotation_ok_def)
  then show ?case using Cons by (simp add: append_or_append split: sum.split)
qed

lemma annotations_text_eq:
  "annotations_text a = concat ([ANNOTATION_HEADER] @ concat (map annotation_pieces a))"
proof -
  have "concat (concat (map annotation_pieces es)) = concat (map (\<lambda>e. annotation_line e @ [NEWLINE]) es)" for es
    by (induction es) (simp_all add: concat_annotation_pieces)
  then show ?thesis by (simp add: annotations_text_def)
qed

lemma serialize_annotations_file:
  assumes "annotations_ok a"
  shows "serialized AN_OK AN_BUFFER_TOO_SMALL (annotations_text a) buffer
    (annotations_serialize (Some a) (Span buffer) (Some len))"
proof -
  let ?pieces = "[ANNOTATION_HEADER] @ concat (map annotation_pieces a)"
  have all: "list_all annotation_ok a" "length a \<le> ANNOTATION_CAPACITY"
    using assms by (simp_all add: annotations_ok_def)
  have "annotations_serialize (Some a) (Span buffer) (Some len) = serialize_result AN_OK (Span buffer)
      (Some len) (append_or AN_BUFFER_TOO_SMALL ?pieces \<lparr>tw_buffer = buffer, tw_used = 0\<rparr>)"
    using all(2) unfolding append_or_append
    by (simp add: annotations_serialize_def serialize_annotations_append [OF all(1)] cong: sum.case_cong)
  then show ?thesis
    using serialize_result_append [of AN_OK AN_BUFFER_TOO_SMALL ?pieces buffer "Some len"]
    by (simp only: annotations_text_eq)
qed

lemma addable_annotations:
  "distinct (map an_sha256 (a @ es)) \<Longrightarrow> length (a @ es) \<le> ANNOTATION_CAPACITY \<Longrightarrow> an_file.addable es a"
  by (induction es arbitrary: a) auto

lemma parse_annotations_text:
  assumes "annotations_ok a"
  shows "annotations_parse True (Span (annotations_text a)) (Some old) = (AN_OK, Some a)"
proof -
  have "an_file.addable a []" using assms addable_annotations [of "[]" a] by (simp add: annotations_ok_def)
  then have "parse_lines AN_INVALID_FORMAT (parse_annotation_line False) (an_file.text_of a) [] = Inr a"
    using an_file.read_text_of [of a "[]"] assms by (simp add: annotations_ok_def foldl_snoc)
  moreover have "drop (length ANNOTATION_HEADER) (annotations_text a) = an_file.text_of a"
    by (simp add: annotations_text_def an_file.text_of_def)
  moreover have "starts_with ANNOTATION_HEADER (annotations_text a)"
    "\<not> starts_with LEGACY_ANNOTATION_HEADER (annotations_text a)"
    by (simp_all add: annotations_text_def starts_with_def ANNOTATION_HEADER_def LEGACY_ANNOTATION_HEADER_def)
  ultimately show ?thesis by (simp add: annotations_parse_def)
qed

section \<open>Every sequence of calls\<close>

lemma annotations_set_cases:
  "\<exists>a'. snd (annotations_set (Some a) (Some d) note t) = Some a'"
  "\<exists>a'. snd (annotations_set_map (Some a) (Some d) link t) = Some a'"
  by (simp_all add: annotations_set_def annotations_set_map_def Let_def split: option.split)

lemma read_annotation_digest:
  "read_annotation legacy line = Some (d, t, note, m) \<Longrightarrow> length d = SYNC_SHA256_BYTES"
  by (auto simp: read_annotation_def Let_def parse_hex_length split: Option.bind_splits if_splits)

lemma parse_annotation_line_ok:
  assumes "parse_annotation_line legacy line a = Inr a'" and "annotations_ok a"
  shows "annotations_ok a'"
proof -
  from assms(1) obtain d t "note" m where r: "read_annotation legacy line = Some (d, t, note, m)"
    by (auto simp: parse_annotation_line_def split: option.splits)
  note d = read_annotation_digest [OF r]
  obtain status b where b: "annotations_set (Some a) (Some d) (Span note) t = (status, Some b)"
    using annotations_set_cases(1) [of a d "Span note" t] by (metis prod.collapse)
  have ok: "annotations_ok b" using annotations_set_ok [OF assms(2) d b] .
  consider "a' = b"
    | link where "parse_hex m SYNC_SHA256_BYTES = Some link"
        "a' = the (snd (annotations_set_map (Some b) (Some d) (Some link) t))"
    using assms(1) r b by (auto simp: parse_annotation_line_def split: if_splits option.splits prod.splits)
  then show ?thesis
  proof cases
    case 1
    then show ?thesis using ok by simp
  next
    case 2
    obtain st c where c: "annotations_set_map (Some b) (Some d) (Some link) t = (st, Some c)"
      using annotations_set_cases(2) [of b d "Some link" t] by (metis prod.collapse)
    from annotations_set_map_ok [OF ok d _ c] parse_hex_length [OF 2(1)] show ?thesis using 2(2) c by simp
  qed
qed

lemma annotations_parse_outcome:
  "case annotations_parse allocated input (Some old) of
     (status, a') \<Rightarrow> if status = AN_OK then \<exists>a. a' = Some a \<and> annotations_ok a else a' = Some old"
proof -
  have "annotations_ok a" if "parse_lines AN_INVALID_FORMAT (parse_annotation_line v) ls [] = Inr a" for v ls a
    using parse_lines_inv [where P = annotations_ok, OF parse_annotation_line_ok that]
    by (simp add: annotations_ok_def)
  moreover have "st \<noteq> AN_OK" if "parse_lines AN_INVALID_FORMAT (parse_annotation_line v) ls t = Inl st" for v ls t st
  proof (rule parse_lines_error [OF that])
    show "s \<noteq> AN_OK" if "parse_annotation_line v line t = Inl s" for line t s
      using that by (auto simp: parse_annotation_line_def split: option.splits prod.splits if_splits)
  qed simp
  ultimately show ?thesis by (auto simp: annotations_parse_def Let_def split: sum.split)
qed

datatype annotation_call = AN_Set "u8 list" "u8 span" u64 | AN_Set_Map "u8 list" "u8 list option" u64
  | AN_Load bool "u8 span"

definition link_length_ok :: "u8 list option \<Rightarrow> bool" where
  "link_length_ok link \<longleftrightarrow> (case link of None \<Rightarrow> True | Some m \<Rightarrow> length m = SYNC_SHA256_BYTES)"

text \<open>A call with a digest of another length than 32 is outside the interface and ignored.\<close>

fun annotation_step :: "annotations \<Rightarrow> annotation_call \<Rightarrow> annotations" where
  "annotation_step a (AN_Set d note t) =
     (if length d = SYNC_SHA256_BYTES then the (snd (annotations_set (Some a) (Some d) note t)) else a)"
| "annotation_step a (AN_Set_Map d link t) =
     (if length d = SYNC_SHA256_BYTES \<and> link_length_ok link
      then the (snd (annotations_set_map (Some a) (Some d) link t)) else a)"
| "annotation_step a (AN_Load allocated input) = the (snd (annotations_parse allocated input (Some a)))"

lemma annotation_step_ok:
  assumes "annotations_ok a"
  shows "annotations_ok (annotation_step a call)"
proof (cases call)
  case (AN_Set d "note" t)
  obtain st b where "annotations_set (Some a) (Some d) note t = (st, Some b)"
    using annotations_set_cases(1) [of a d "note" t] by (metis prod.collapse)
  then show ?thesis using annotations_set_ok [OF assms] AN_Set assms by simp
next
  case (AN_Set_Map d link t)
  obtain st b where "annotations_set_map (Some a) (Some d) link t = (st, Some b)"
    using annotations_set_cases(2) [of a d link t] by (metis prod.collapse)
  then show ?thesis using annotations_set_map_ok [OF assms, of d link t st b] AN_Set_Map assms
    by (simp add: link_length_ok_def)
next
  case (AN_Load allocated input)
  then show ?thesis
    using annotations_parse_outcome [where allocated = allocated and input = input and old = a] assms
    by (auto split: prod.splits if_splits)
qed

interpretation an: event_machine annotation_step "\<lambda>a. a = []" annotations_ok
  by unfold_locales (simp add: annotations_ok_def, rule annotation_step_ok)

text \<open>
  C15. The annotations implement a map from versions to a note, a linked map and the time of the
  last change, after any calls since the start. Writing a note keeps the link and records the time. An
  empty note forgets the version when no map is linked to it; a version with a linked map is kept, its
  note emptied and its time updated, although the header says that an empty note removes the
  annotation. Linking or unlinking a map keeps the note and records the time; unlinking forgets
  a version without a note. No other version is touched. A note is refused as invalid exactly when it
  is not a valid note; either call is refused for lack of room exactly when it would add a version to
  128 others, and a refused call changes nothing.
\<close>

theorem annotations_refine_map:
  "let a = foldl annotation_step [] calls; known = remarks a d in
    (case annotations_set (Some a) (Some d) note t of
      (status, a') \<Rightarrow>
        status = (if \<not> valid_note note then AN_INVALID_ARGUMENT
          else if sbytes note \<noteq> [] \<and> known = None \<and> length a = 128 then AN_CAPACITY_EXCEEDED else AN_OK)
        \<and> (if status = AN_OK
           then remarks (the a') = (remarks a)(d :=
             (if sbytes note = [] \<and> link_of known = None then None
              else Some (sbytes note, link_of known, t)))
           else a' = Some a))
    \<and> (case annotations_set_map (Some a) (Some d) link t of
      (status, a') \<Rightarrow>
        status = (if link \<noteq> None \<and> known = None \<and> length a = 128 then AN_CAPACITY_EXCEEDED else AN_OK)
        \<and> (if status = AN_OK
           then remarks (the a') = (remarks a)(d :=
             (if note_of known = [] \<and> link = None then None else Some (note_of known, link, t)))
           else a' = Some a))"
proof -
  have ok: "annotations_ok (foldl annotation_step [] calls)" by (rule an.run_inv) simp
  then have d: "distinct (map an_sha256 (foldl annotation_step [] calls))"
    and len: "length (foldl annotation_step [] calls) \<le> ANNOTATION_CAPACITY"
    by (simp_all add: annotations_ok_def)
  let ?a = "foldl annotation_step [] calls"
  obtain st1 a1 st2 a2 where r: "annotations_set (Some ?a) (Some d) note t = (st1, a1)"
    "annotations_set_map (Some ?a) (Some d) link t = (st2, a2)" by fastforce
  have "st1 = (if \<not> valid_note note then AN_INVALID_ARGUMENT
      else if sbytes note \<noteq> [] \<and> remarks ?a d = None \<and> length ?a = 128 then AN_CAPACITY_EXCEEDED else AN_OK)"
    "st2 = (if link \<noteq> None \<and> remarks ?a d = None \<and> length ?a = 128 then AN_CAPACITY_EXCEEDED else AN_OK)"
    using annotations_status(1) [OF len, of d "note" t] annotations_status(2) [OF len, of d link t]
    unfolding r fst_conv by blast+
  moreover have "if st1 = AN_OK then remarks (the a1) = keep_remark d (sbytes note, link_of (remarks ?a d), t) (remarks ?a)
      else a1 = Some ?a"
    using annotations_set_remarks [OF d, of d "note" t] by (simp add: r split: if_splits)
  moreover have "if st2 = AN_OK then remarks (the a2) = keep_remark d (note_of (remarks ?a d), link, t) (remarks ?a)
      else a2 = Some ?a"
    using annotations_set_map_remarks [OF d, of d link t] by (simp add: r split: if_splits)
  ultimately show ?thesis
    unfolding Let_def r prod.case keep_remark_def note_of.simps link_of.simps by blast
qed

text \<open>
  The annotations survive the card: after any calls since the start, a large enough buffer
  receives their text, and reading that text gives back the same annotations; a smaller buffer
  is refused.
\<close>

lemma annotations_survive_card:
  "let a = foldl annotation_step [] calls in
    serialized AN_OK AN_BUFFER_TOO_SMALL (annotations_text a) buffer
      (annotations_serialize (Some a) (Span buffer) (Some len))
    \<and> annotations_parse True (Span (annotations_text a)) (Some old) = (AN_OK, Some a)"
proof -
  have "annotations_ok (foldl annotation_step [] calls)" by (rule an.run_inv) simp
  from serialize_annotations_file [OF this] parse_annotations_text [OF this] show ?thesis
    unfolding Let_def by (intro conjI)
qed

end
