(* ===== verification/Network_Coordinator.thy ===== *)
theory Network_Coordinator
  imports Revlink_Prelude
begin

text \<open>
  The network coordinator (revlink_network/revlink_network_coordinator.c): the policy that
  decides between a saved Wi-Fi network and the own hotspot. It is a pure state machine: an
  event goes in, at most one action for the radio comes out. A value outside of an enumeration,
  which the code rejects, is \<open>NET_EV_OTHER\<close>.
\<close>

section \<open>Data\<close>

datatype net_state = NET_STOPPED | NET_SEARCHING | NET_CONNECTING | NET_CLIENT_READY
  | NET_RECONNECTING | NET_HOTSPOT_STARTING | NET_HOTSPOT_READY | NET_FAULTED

fun net_state_name :: "net_state \<Rightarrow> string" where
  "net_state_name NET_STOPPED = ''stopped''"
| "net_state_name NET_SEARCHING = ''searching''"
| "net_state_name NET_CONNECTING = ''connecting''"
| "net_state_name NET_CLIENT_READY = ''client-ready''"
| "net_state_name NET_RECONNECTING = ''reconnecting''"
| "net_state_name NET_HOTSPOT_STARTING = ''hotspot-starting''"
| "net_state_name NET_HOTSPOT_READY = ''hotspot-ready''"
| "net_state_name NET_FAULTED = ''faulted''"

datatype net_event_kind = NET_EV_START | NET_EV_SCAN_SELECTED | NET_EV_SCAN_EMPTY
  | NET_EV_CLIENT_CONNECTED | NET_EV_CLIENT_FAILED | NET_EV_CLIENT_LOST | NET_EV_CLIENT_HEALTHY
  | NET_EV_CLIENT_UNHEALTHY | NET_EV_HOTSPOT_STARTED | NET_EV_HOTSPOT_FAILED
  | NET_EV_RETRY_SAVED | NET_EV_FORCE_HOTSPOT | NET_EV_TRANSFER_STARTED
  | NET_EV_TRANSFER_FINISHED | NET_EV_TICK | NET_EV_STOP | NET_EV_OTHER nat

record net_event =
  nev_kind :: net_event_kind
  nev_network_id :: u32
  nev_elapsed_ms :: u32
  nev_platform_error :: int

datatype net_action_kind = NET_ACT_NONE | NET_ACT_SCAN_SAVED | NET_ACT_CONNECT_SAVED
  | NET_ACT_RECOVER_SAVED | NET_ACT_PROBE_CLIENT | NET_ACT_START_HOTSPOT | NET_ACT_STOP_RADIO

record net_action =
  nact_kind :: net_action_kind
  nact_network_id :: u32

datatype net_status = NET_OK | NET_INVALID_ARGUMENT | NET_INVALID_STATE | NET_TRANSFER_LOCKED

record net_config =
  ncfg_startup_timeout_ms :: u32
  ncfg_startup_attempt_limit :: u32
  ncfg_reconnect_timeout_ms :: u32
  ncfg_health_probe_interval_ms :: u32
  ncfg_health_failure_threshold :: u32

record net_snapshot =
  ns_state :: net_state
  ns_selected_network_id :: u32
  ns_phase_elapsed_ms :: u32
  ns_phase_timeout_ms :: u32
  ns_startup_attempt_count :: u32
  ns_health_elapsed_ms :: u32
  ns_consecutive_health_failures :: u32
  ns_last_platform_error :: int
  ns_transfer_active :: bool

definition net_snapshot_zero :: net_snapshot where
  "net_snapshot_zero = \<lparr>ns_state = NET_STOPPED, ns_selected_network_id = 0, ns_phase_elapsed_ms = 0,
     ns_phase_timeout_ms = 0, ns_startup_attempt_count = 0, ns_health_elapsed_ms = 0,
     ns_consecutive_health_failures = 0, ns_last_platform_error = 0, ns_transfer_active = False\<rparr>"

record net_coordinator =
  nc_config :: net_config
  nc_snapshot :: net_snapshot

section \<open>The operations\<close>

definition clear_action :: net_action where
  "clear_action = \<lparr>nact_kind = NET_ACT_NONE, nact_network_id = 0\<rparr>"

definition net_transition :: "net_config \<Rightarrow> net_state \<Rightarrow> net_snapshot \<Rightarrow> net_snapshot" where
  "net_transition cfg state s =
     (let s1 = s\<lparr>ns_state := state, ns_phase_elapsed_ms := 0\<rparr>;
          s2 = (if state \<noteq> NET_CLIENT_READY then s1\<lparr>ns_health_elapsed_ms := 0\<rparr> else s1)
      in s2\<lparr>ns_phase_timeout_ms :=
           (if state = NET_SEARCHING \<or> state = NET_CONNECTING then ncfg_startup_timeout_ms cfg
            else if state = NET_RECONNECTING then ncfg_reconnect_timeout_ms cfg
            else 0)\<rparr>)"

definition request_hotspot ::
  "net_config \<Rightarrow> net_snapshot \<Rightarrow> net_action \<Rightarrow> net_snapshot \<times> net_action" where
  "request_hotspot cfg s action =
     ((net_transition cfg NET_HOTSPOT_STARTING s)\<lparr>ns_selected_network_id := 0\<rparr>,
      action\<lparr>nact_kind := NET_ACT_START_HOTSPOT\<rparr>)"

definition is_ready_state :: "net_state \<Rightarrow> bool" where
  "is_ready_state state \<longleftrightarrow> state = NET_CLIENT_READY \<or> state = NET_HOTSPOT_READY"

definition network_coordinator_init ::
  "net_coordinator option \<Rightarrow> net_config option \<Rightarrow> bool \<times> net_coordinator option" where
  "network_coordinator_init coordinator config =
     (case (coordinator, config) of
        (Some c, Some cfg) \<Rightarrow>
          if ncfg_startup_timeout_ms cfg = 0 \<or> ncfg_startup_attempt_limit cfg = 0
             \<or> ncfg_reconnect_timeout_ms cfg = 0 \<or> ncfg_health_probe_interval_ms cfg = 0
             \<or> ncfg_health_failure_threshold cfg = 0
          then (False, coordinator)
          else (True, Some \<lparr>nc_config = cfg, nc_snapshot = net_snapshot_zero\<lparr>ns_state := NET_STOPPED\<rparr>\<rparr>)
      | _ \<Rightarrow> (False, coordinator))"

type_synonym net_outcome = "net_status \<times> net_snapshot \<times> net_action"

definition handle_tick :: "net_config \<Rightarrow> net_snapshot \<Rightarrow> net_event \<Rightarrow> net_action \<Rightarrow> net_outcome" where
  "handle_tick cfg s e action =
     (if nev_elapsed_ms e = 0 then (NET_INVALID_ARGUMENT, s, action)
      else if ns_state s = NET_CLIENT_READY then
        if ns_transfer_active s then (NET_OK, s\<lparr>ns_health_elapsed_ms := 0\<rparr>, action)
        else
          let s1 = s\<lparr>ns_health_elapsed_ms := saturated_add (ns_health_elapsed_ms s) (nev_elapsed_ms e)\<rparr>
          in if ns_health_elapsed_ms s1 \<ge> ncfg_health_probe_interval_ms cfg
             then (NET_OK, s1\<lparr>ns_health_elapsed_ms := 0\<rparr>,
                   action\<lparr>nact_kind := NET_ACT_PROBE_CLIENT,
                          nact_network_id := ns_selected_network_id s1\<rparr>)
             else (NET_OK, s1, action)
      else if ns_state s \<noteq> NET_SEARCHING \<and> ns_state s \<noteq> NET_CONNECTING
         \<and> ns_state s \<noteq> NET_RECONNECTING then (NET_OK, s, action)
      else
        let s1 = s\<lparr>ns_phase_elapsed_ms := saturated_add (ns_phase_elapsed_ms s) (nev_elapsed_ms e)\<rparr>
        in if ns_phase_elapsed_ms s1 \<ge> ns_phase_timeout_ms s1
           then (NET_OK, request_hotspot cfg s1 action)
           else (NET_OK, s1, action))"

text \<open>The events about the client connection.\<close>

definition client_failed :: "net_config \<Rightarrow> net_snapshot \<Rightarrow> net_event \<Rightarrow> net_action \<Rightarrow> net_outcome" where
  "client_failed cfg s e action =
     (if ns_state s \<noteq> NET_CONNECTING \<and> ns_state s \<noteq> NET_RECONNECTING
      then (NET_INVALID_STATE, s, action)
      else
        let s1 = s\<lparr>ns_last_platform_error := nev_platform_error e\<rparr> in
        if ns_state s1 = NET_RECONNECTING then (NET_OK, s1, action)
        else if ns_startup_attempt_count s1 < ncfg_startup_attempt_limit cfg
        then (NET_OK,
              net_transition cfg NET_CONNECTING
                (s1\<lparr>ns_startup_attempt_count := ns_startup_attempt_count s1 + 1\<rparr>),
              action\<lparr>nact_kind := NET_ACT_RECOVER_SAVED,
                     nact_network_id := ns_selected_network_id s1\<rparr>)
        else (NET_OK, request_hotspot cfg s1 action))"

definition client_unhealthy :: "net_config \<Rightarrow> net_snapshot \<Rightarrow> net_event \<Rightarrow> net_action \<Rightarrow> net_outcome" where
  "client_unhealthy cfg s e action =
     (if ns_state s \<noteq> NET_CLIENT_READY then (NET_INVALID_STATE, s, action)
      else if ns_transfer_active s then (NET_TRANSFER_LOCKED, s, action)
      else
        let s1 = s\<lparr>ns_last_platform_error := nev_platform_error e,
                   ns_consecutive_health_failures := saturated_add (ns_consecutive_health_failures s) 1\<rparr>
        in if ns_consecutive_health_failures s1 \<ge> ncfg_health_failure_threshold cfg
           then (NET_OK, net_transition cfg NET_RECONNECTING s1,
                 action\<lparr>nact_kind := NET_ACT_RECOVER_SAVED,
                        nact_network_id := ns_selected_network_id s1\<rparr>)
           else (NET_OK, s1, action))"

definition net_switch :: "net_config \<Rightarrow> net_snapshot \<Rightarrow> net_event \<Rightarrow> net_action \<Rightarrow> net_outcome" where
  "net_switch cfg s e action =
     (case nev_kind e of
        NET_EV_START \<Rightarrow>
          if ns_state s \<noteq> NET_STOPPED \<and> ns_state s \<noteq> NET_FAULTED then (NET_INVALID_STATE, s, action)
          else (NET_OK,
                net_transition cfg NET_SEARCHING
                  (s\<lparr>ns_last_platform_error := 0, ns_selected_network_id := 0,
                     ns_startup_attempt_count := 0, ns_transfer_active := False\<rparr>),
                action\<lparr>nact_kind := NET_ACT_SCAN_SAVED\<rparr>)
      | NET_EV_SCAN_SELECTED \<Rightarrow>
          if ns_state s \<noteq> NET_SEARCHING \<or> nev_network_id e = 0
          then (if nev_network_id e = 0 then NET_INVALID_ARGUMENT else NET_INVALID_STATE, s, action)
          else (NET_OK,
                net_transition cfg NET_CONNECTING
                  (s\<lparr>ns_selected_network_id := nev_network_id e, ns_startup_attempt_count := 1\<rparr>),
                action\<lparr>nact_kind := NET_ACT_CONNECT_SAVED, nact_network_id := nev_network_id e\<rparr>)
      | NET_EV_SCAN_EMPTY \<Rightarrow>
          if ns_state s \<noteq> NET_SEARCHING then (NET_INVALID_STATE, s, action)
          else (NET_OK, request_hotspot cfg s action)
      | NET_EV_CLIENT_CONNECTED \<Rightarrow>
          if ns_state s \<noteq> NET_CONNECTING \<and> ns_state s \<noteq> NET_RECONNECTING
          then (NET_INVALID_STATE, s, action)
          else (NET_OK,
                net_transition cfg NET_CLIENT_READY
                  (s\<lparr>ns_last_platform_error := 0, ns_health_elapsed_ms := 0,
                     ns_consecutive_health_failures := 0\<rparr>), action)
      | NET_EV_CLIENT_FAILED \<Rightarrow> client_failed cfg s e action
      | NET_EV_CLIENT_LOST \<Rightarrow>
          if ns_state s \<noteq> NET_CLIENT_READY \<or> ns_selected_network_id s = 0
          then (NET_INVALID_STATE, s, action)
          else (NET_OK,
                net_transition cfg NET_RECONNECTING (s\<lparr>ns_last_platform_error := nev_platform_error e\<rparr>),
                action\<lparr>nact_kind := NET_ACT_CONNECT_SAVED,
                       nact_network_id := ns_selected_network_id s\<rparr>)
      | NET_EV_CLIENT_HEALTHY \<Rightarrow>
          if ns_state s \<noteq> NET_CLIENT_READY then (NET_INVALID_STATE, s, action)
          else (NET_OK, s\<lparr>ns_last_platform_error := 0, ns_consecutive_health_failures := 0\<rparr>, action)
      | NET_EV_CLIENT_UNHEALTHY \<Rightarrow> client_unhealthy cfg s e action
      | NET_EV_HOTSPOT_STARTED \<Rightarrow>
          if ns_state s \<noteq> NET_HOTSPOT_STARTING then (NET_INVALID_STATE, s, action)
          else (NET_OK, net_transition cfg NET_HOTSPOT_READY (s\<lparr>ns_last_platform_error := 0\<rparr>), action)
      | NET_EV_HOTSPOT_FAILED \<Rightarrow>
          if ns_state s \<noteq> NET_HOTSPOT_STARTING then (NET_INVALID_STATE, s, action)
          else (NET_OK,
                net_transition cfg NET_FAULTED (s\<lparr>ns_last_platform_error := nev_platform_error e\<rparr>), action)
      | NET_EV_RETRY_SAVED \<Rightarrow>
          if \<not> is_ready_state (ns_state s) then (NET_INVALID_STATE, s, action)
          else if ns_transfer_active s then (NET_TRANSFER_LOCKED, s, action)
          else (NET_OK,
                net_transition cfg NET_SEARCHING
                  (s\<lparr>ns_last_platform_error := 0, ns_selected_network_id := 0\<rparr>),
                action\<lparr>nact_kind := NET_ACT_SCAN_SAVED\<rparr>)
      | NET_EV_FORCE_HOTSPOT \<Rightarrow>
          if ns_state s = NET_STOPPED \<or> ns_state s = NET_HOTSPOT_STARTING
             \<or> ns_state s = NET_HOTSPOT_READY then (NET_INVALID_STATE, s, action)
          else if ns_transfer_active s then (NET_TRANSFER_LOCKED, s, action)
          else (NET_OK, request_hotspot cfg s action)
      | NET_EV_TRANSFER_STARTED \<Rightarrow>
          if \<not> is_ready_state (ns_state s) \<or> ns_transfer_active s then (NET_INVALID_STATE, s, action)
          else (NET_OK, s\<lparr>ns_transfer_active := True\<rparr>, action)
      | NET_EV_TRANSFER_FINISHED \<Rightarrow>
          if \<not> ns_transfer_active s then (NET_INVALID_STATE, s, action)
          else (NET_OK, s\<lparr>ns_transfer_active := False\<rparr>, action)
      | NET_EV_TICK \<Rightarrow> handle_tick cfg s e action
      | NET_EV_STOP \<Rightarrow>
          (NET_OK,
           s\<lparr>ns_state := NET_STOPPED, ns_selected_network_id := 0, ns_phase_elapsed_ms := 0,
             ns_phase_timeout_ms := 0, ns_startup_attempt_count := 0, ns_health_elapsed_ms := 0,
             ns_consecutive_health_failures := 0, ns_last_platform_error := 0,
             ns_transfer_active := False\<rparr>,
           action\<lparr>nact_kind := NET_ACT_STOP_RADIO\<rparr>)
      | NET_EV_OTHER n \<Rightarrow> (NET_INVALID_ARGUMENT, s, action))"

definition network_coordinator_handle ::
  "net_coordinator option \<Rightarrow> net_event option \<Rightarrow> net_action option
   \<Rightarrow> net_status \<times> net_coordinator option \<times> net_action option" where
  "network_coordinator_handle coordinator event action =
     (case (coordinator, event, action) of
        (Some c, Some e, Some a) \<Rightarrow>
          (case net_switch (nc_config c) (nc_snapshot c) e clear_action of
             (status, s, a') \<Rightarrow> (status, Some (c\<lparr>nc_snapshot := s\<rparr>), Some a'))
      | _ \<Rightarrow> (NET_INVALID_ARGUMENT, coordinator, action))"

definition network_coordinator_snapshot :: "net_coordinator option \<Rightarrow> net_snapshot" where
  "network_coordinator_snapshot coordinator =
     (case coordinator of None \<Rightarrow> net_snapshot_zero | Some c \<Rightarrow> nc_snapshot c)"

section \<open>The invariant\<close>

lemmas net_switch_defs = net_switch_def handle_tick_def client_failed_def client_unhealthy_def
  request_hotspot_def net_transition_def is_ready_state_def clear_action_def Let_def

definition net_config_ok :: "net_config \<Rightarrow> bool" where
  "net_config_ok cfg \<longleftrightarrow>
     ncfg_startup_timeout_ms cfg \<noteq> 0 \<and> ncfg_startup_attempt_limit cfg \<noteq> 0
     \<and> ncfg_reconnect_timeout_ms cfg \<noteq> 0 \<and> ncfg_health_probe_interval_ms cfg \<noteq> 0
     \<and> ncfg_health_failure_threshold cfg \<noteq> 0"

definition phase_timeout :: "net_config \<Rightarrow> net_state \<Rightarrow> u32" where
  "phase_timeout cfg state =
     (case state of NET_SEARCHING \<Rightarrow> ncfg_startup_timeout_ms cfg
      | NET_CONNECTING \<Rightarrow> ncfg_startup_timeout_ms cfg
      | NET_RECONNECTING \<Rightarrow> ncfg_reconnect_timeout_ms cfg | _ \<Rightarrow> 0)"

text \<open>
  A network is selected exactly while the client side is in use; the clocks stay below the
  limits that would have ended their phase; a transfer is never in progress while the radio is
  stopped, searching or connecting for the first time.
\<close>

definition net_inv :: "net_config \<Rightarrow> net_snapshot \<Rightarrow> bool" where
  "net_inv cfg s \<longleftrightarrow>
     (ns_selected_network_id s \<noteq> 0 \<longleftrightarrow> ns_state s \<in> {NET_CONNECTING, NET_CLIENT_READY, NET_RECONNECTING})
     \<and> ns_phase_timeout_ms s = phase_timeout cfg (ns_state s)
     \<and> (ns_phase_timeout_ms s = 0 \<longrightarrow> ns_phase_elapsed_ms s = 0)
     \<and> (ns_phase_timeout_ms s \<noteq> 0 \<longrightarrow> ns_phase_elapsed_ms s < ns_phase_timeout_ms s)
     \<and> ns_startup_attempt_count s \<le> ncfg_startup_attempt_limit cfg
     \<and> ns_health_elapsed_ms s < ncfg_health_probe_interval_ms cfg
     \<and> (ns_state s = NET_CLIENT_READY \<longrightarrow>
          ns_consecutive_health_failures s < ncfg_health_failure_threshold cfg)
     \<and> (ns_transfer_active s \<longrightarrow> ns_state s \<notin> {NET_STOPPED, NET_SEARCHING, NET_CONNECTING})"

lemma net_switch_inv:
  assumes "net_config_ok cfg" and "net_inv cfg s"
  shows "net_inv cfg (fst (snd (net_switch cfg s e clear_action)))"
proof -
  have pos: "0 < ncfg_startup_timeout_ms cfg" "0 < ncfg_reconnect_timeout_ms cfg"
    "ncfg_startup_timeout_ms cfg \<noteq> 0" "ncfg_reconnect_timeout_ms cfg \<noteq> 0"
    "0 < ncfg_health_probe_interval_ms cfg" "0 < ncfg_health_failure_threshold cfg"
    "ncfg_startup_attempt_limit cfg \<noteq> 0"
    using assms(1) by (simp_all add: net_config_ok_def word_gt_0)
  have one: "1 \<le> ncfg_startup_attempt_limit cfg"
    using assms(1) unfolding net_config_ok_def by (simp add: word_le_nat_alt unat_gt_0 Suc_le_eq)
  have succ: "n + 1 \<le> m" if "n < m" for n m :: u32
    using that by (rule inc_le)
  show ?thesis
    using assms(2) pos one succ
    by (cases "nev_kind e"; cases "ns_state s")
      (simp_all add: net_inv_def net_switch_defs phase_timeout_def not_le)
qed

section \<open>Every sequence of events\<close>

definition net_step :: "net_coordinator \<Rightarrow> net_event \<Rightarrow> net_coordinator" where
  "net_step c e = the (fst (snd (network_coordinator_handle (Some c) (Some e) (Some clear_action))))"

definition net_action_of :: "net_coordinator \<Rightarrow> net_event \<Rightarrow> net_action" where
  "net_action_of c e = the (snd (snd (network_coordinator_handle (Some c) (Some e) (Some clear_action))))"

lemma net_step_simps:
  "nc_config (net_step c e) = nc_config c"
  "nc_snapshot (net_step c e) = fst (snd (net_switch (nc_config c) (nc_snapshot c) e clear_action))"
  "net_action_of c e = snd (snd (net_switch (nc_config c) (nc_snapshot c) e clear_action))"
  by (simp_all add: net_step_def net_action_of_def network_coordinator_handle_def split: prod.split)

definition net_ok :: "net_coordinator \<Rightarrow> bool" where
  "net_ok c \<longleftrightarrow> net_config_ok (nc_config c) \<and> net_inv (nc_config c) (nc_snapshot c)"

definition net_fresh :: "net_coordinator \<Rightarrow> bool" where
  "net_fresh c \<longleftrightarrow> net_config_ok (nc_config c)
     \<and> network_coordinator_init (Some c) (Some (nc_config c)) = (True, Some c)"

interpretation net: event_machine net_step net_fresh net_ok
proof
  show "net_ok c" if "net_fresh c" for c
  proof -
    have "nc_snapshot c = net_snapshot_zero"
      using that by (auto simp: net_fresh_def network_coordinator_init_def net_snapshot_zero_def
          split: if_splits dest: arg_cong [where f = nc_snapshot])
    then show ?thesis using that
      by (simp add: net_ok_def net_fresh_def net_inv_def net_snapshot_zero_def phase_timeout_def
          net_config_ok_def word_gt_0)
  qed
  show "net_ok (net_step c e)" if "net_ok c" for c e
    using that net_switch_inv [of "nc_config c" "nc_snapshot c" e] by (simp add: net_ok_def net_step_simps)
qed

lemma net_init_fresh:
  "network_coordinator_init (Some c0) (Some cfg) = (True, Some c) \<Longrightarrow> net_fresh c \<and> nc_config c = cfg"
  by (auto simp: network_coordinator_init_def net_fresh_def net_config_ok_def split: if_splits)

lemma net_config_run: "nc_config (foldl net_step c es) = nc_config c"
  by (induction es arbitrary: c) (simp_all add: net_step_simps)

text \<open>
  After any events since the start, a network is selected exactly while the client side is
  in use, every clock and counter is below the limit that ends its phase, and no transfer is in
  progress while the radio is stopped or looking for its first connection.
\<close>

lemma net_invariant:
  assumes "network_coordinator_init (Some c0) (Some cfg) = (True, Some c)"
  shows "net_inv cfg (network_coordinator_snapshot (Some (foldl net_step c es)))"
  using net.run_inv [of c es] net_init_fresh [OF assms] net_config_run [of c es]
  by (simp add: net_ok_def network_coordinator_snapshot_def)

definition sample_net_config :: net_config where
  "sample_net_config = \<lparr>ncfg_startup_timeout_ms = 30, ncfg_startup_attempt_limit = 2,
     ncfg_reconnect_timeout_ms = 20, ncfg_health_probe_interval_ms = 10,
     ncfg_health_failure_threshold = 3\<rparr>"

definition sample_net :: net_coordinator where
  "sample_net = \<lparr>nc_config = sample_net_config, nc_snapshot = net_snapshot_zero\<rparr>"

lemma sample_net_init:
  "network_coordinator_init (Some sample_net) (Some sample_net_config) = (True, Some sample_net)"
  by (simp add: network_coordinator_init_def sample_net_def sample_net_config_def net_snapshot_zero_def)

definition net_ev :: "net_event_kind \<Rightarrow> u32 \<Rightarrow> net_event" where
  "net_ev kind n = \<lparr>nev_kind = kind, nev_network_id = n, nev_elapsed_ms = n, nev_platform_error = 0\<rparr>"

theorem net_invariant_witness:
  "net_inv sample_net_config (network_coordinator_snapshot
     (Some (foldl net_step sample_net [net_ev NET_EV_START 0, net_ev NET_EV_SCAN_SELECTED 5])))"
  by (rule net_invariant [OF sample_net_init])

section \<open>Falling back to the hotspot\<close>

text \<open>
  The time the coordinator can still wait before it gives up on the saved network: what is left
  of the phase, and one full phase for every connection attempt that remains.
\<close>

definition net_waiting :: "net_snapshot \<Rightarrow> bool" where
  "net_waiting s \<longleftrightarrow> ns_state s \<in> {NET_SEARCHING, NET_CONNECTING, NET_RECONNECTING}"

definition net_budget :: "net_config \<Rightarrow> net_snapshot \<Rightarrow> nat" where
  "net_budget cfg s =
     unat (ns_phase_timeout_ms s) - unat (ns_phase_elapsed_ms s)
     + (if ns_state s = NET_CONNECTING
        then (unat (ncfg_startup_attempt_limit cfg) - unat (ns_startup_attempt_count s))
               * unat (ncfg_startup_timeout_ms cfg)
        else 0)"

definition bad_news :: "net_event \<Rightarrow> bool" where
  "bad_news e \<longleftrightarrow> nev_kind e = NET_EV_CLIENT_FAILED \<or> (nev_kind e = NET_EV_TICK \<and> nev_elapsed_ms e \<noteq> 0)"

definition waited :: "net_event \<Rightarrow> nat" where
  "waited e = (if nev_kind e = NET_EV_TICK then unat (nev_elapsed_ms e) else 0)"

fun net_actions :: "net_coordinator \<Rightarrow> net_event list \<Rightarrow> net_action_kind list" where
  "net_actions c [] = []"
| "net_actions c (e # es) = nact_kind (net_action_of c e) # net_actions (net_step c e) es"

lemma net_budget_positive: "net_inv cfg s \<Longrightarrow> net_config_ok cfg \<Longrightarrow> net_waiting s \<Longrightarrow> net_budget cfg s > 0"
  by (auto simp: net_inv_def net_waiting_def net_budget_def net_config_ok_def phase_timeout_def word_less_nat_alt)

lemma net_tick_waiting:
  assumes "net_inv cfg s" and "net_waiting s" and "nev_kind e = NET_EV_TICK" and "nev_elapsed_ms e \<noteq> 0"
  shows "case net_switch cfg s e clear_action of (status, s', a) \<Rightarrow>
    nact_kind a = NET_ACT_START_HOTSPOT
    \<or> (net_waiting s' \<and> net_budget cfg s' + unat (nev_elapsed_ms e) \<le> net_budget cfg s)"
proof (cases "saturated_add (ns_phase_elapsed_ms s) (nev_elapsed_ms e) \<ge> ns_phase_timeout_ms s")
  case True
  then show ?thesis using assms
    by (auto simp: net_waiting_def net_switch_def handle_tick_def request_hotspot_def Let_def)
next
  case False
  let ?n = "unat (ns_phase_elapsed_ms s) + unat (nev_elapsed_ms e)"
  have "min ?n (2 ^ 32 - 1) < unat (ns_phase_timeout_ms s)"
    using False by (simp add: not_le word_less_nat_alt unat_saturated_add)
  then have "unat (saturated_add (ns_phase_elapsed_ms s) (nev_elapsed_ms e)) = ?n"
    "?n < unat (ns_phase_timeout_ms s)"
    using unat_u32_less [of "ns_phase_timeout_ms s"] by (simp_all add: unat_saturated_add)
  then show ?thesis using assms False
    by (auto simp: net_waiting_def net_switch_def handle_tick_def net_budget_def Let_def)
qed

lemma net_failed_waiting:
  assumes "net_inv cfg s" and "net_waiting s" and "nev_kind e = NET_EV_CLIENT_FAILED"
  shows "case net_switch cfg s e clear_action of (status, s', a) \<Rightarrow>
    nact_kind a = NET_ACT_START_HOTSPOT \<or> (net_waiting s' \<and> net_budget cfg s' \<le> net_budget cfg s)"
proof (cases "ns_state s = NET_CONNECTING \<and> ns_startup_attempt_count s < ncfg_startup_attempt_limit cfg")
  case True
  then have less: "unat (ns_startup_attempt_count s) < unat (ncfg_startup_attempt_limit cfg)"
    by (simp add: word_less_nat_alt)
  then have "unat (ns_startup_attempt_count s + 1) = unat (ns_startup_attempt_count s) + 1"
    using unat_u32_less [of "ncfg_startup_attempt_limit cfg"]
    by (simp add: unat_word_ariths take_bit_nat_eq_self)
  moreover have "(unat (ncfg_startup_attempt_limit cfg) - unat (ns_startup_attempt_count s)) * t
      = (unat (ncfg_startup_attempt_limit cfg) - (unat (ns_startup_attempt_count s) + 1)) * t + t" for t
    using less by (metis Suc_diff_Suc Suc_eq_plus1 add.commute mult_Suc)
  ultimately show ?thesis using True assms
    by (simp add: net_waiting_def net_switch_def client_failed_def net_budget_def net_transition_def Let_def)
next
  case False
  then show ?thesis using assms
    by (auto simp: net_waiting_def net_switch_def client_failed_def net_budget_def request_hotspot_def Let_def)
qed

lemma net_fallback_run:
  "net_ok c \<Longrightarrow> net_waiting (nc_snapshot c) \<Longrightarrow> list_all bad_news es \<Longrightarrow>
   sum_list (map waited es) \<ge> net_budget (nc_config c) (nc_snapshot c) \<Longrightarrow>
   NET_ACT_START_HOTSPOT \<in> set (net_actions c es)"
proof (induction es arbitrary: c)
  case Nil
  then show ?case using net_budget_positive [of "nc_config c" "nc_snapshot c"] by (simp add: net_ok_def)
next
  case (Cons e es)
  have inv: "net_inv (nc_config c) (nc_snapshot c)" using Cons.prems(1) by (simp add: net_ok_def)
  have step: "net_ok (net_step c e)" using Cons.prems(1) by (rule net.step_inv)
  let ?b = "net_budget (nc_config c)"
  have "nact_kind (net_action_of c e) = NET_ACT_START_HOTSPOT
      \<or> (net_waiting (nc_snapshot (net_step c e))
        \<and> ?b (nc_snapshot (net_step c e)) + waited e \<le> ?b (nc_snapshot c))
      \<or> (net_waiting (nc_snapshot (net_step c e))
        \<and> ?b (nc_snapshot (net_step c e)) \<le> ?b (nc_snapshot c) \<and> waited e = 0)"
    using Cons.prems(3) net_tick_waiting [OF inv Cons.prems(2), of e] net_failed_waiting [OF inv Cons.prems(2), of e]
    by (auto simp: bad_news_def waited_def net_step_simps split: prod.splits)
  then show ?case
    using Cons.IH [OF step] Cons.prems(3,4) by (auto simp: net_step_simps)
qed

text \<open>
  C16. The device does not stay unreachable: once the coordinator is searching, connecting or
  reconnecting, and nothing but failures and the clock is heard, it requests the hotspot within
  the time left in its phase plus one startup timeout for each attempt that remains.
\<close>

theorem net_falls_back:
  assumes "network_coordinator_init (Some c0) (Some cfg) = (True, Some c)"
    and "net_waiting (nc_snapshot (foldl net_step c before))"
    and "list_all bad_news es"
    and "sum_list (map waited es) \<ge> net_budget cfg (nc_snapshot (foldl net_step c before))"
  shows "NET_ACT_START_HOTSPOT \<in> set (net_actions (foldl net_step c before) es)"
  using net_fallback_run [of "foldl net_step c before" es] net.run_inv [of c before]
    net_init_fresh [OF assms(1)] net_config_run [of c before] assms(2-4)
  by simp

theorem net_falls_back_witness:
  "NET_ACT_START_HOTSPOT \<in> set (net_actions
     (foldl net_step sample_net [net_ev NET_EV_START 0, net_ev NET_EV_SCAN_SELECTED 5])
     [net_ev NET_EV_TICK 25, net_ev NET_EV_CLIENT_FAILED 0, net_ev NET_EV_TICK 20, net_ev NET_EV_TICK 20])"
proof (rule net_falls_back [OF sample_net_init])
  have s: "nc_snapshot (foldl net_step sample_net [net_ev NET_EV_START 0, net_ev NET_EV_SCAN_SELECTED 5])
      = \<lparr>ns_state = NET_CONNECTING, ns_selected_network_id = 5, ns_phase_elapsed_ms = 0,
         ns_phase_timeout_ms = 30, ns_startup_attempt_count = 1, ns_health_elapsed_ms = 0,
         ns_consecutive_health_failures = 0, ns_last_platform_error = 0, ns_transfer_active = False\<rparr>"
    by (simp add: net_step_simps net_switch_def net_transition_def net_ev_def sample_net_def
        sample_net_config_def net_snapshot_zero_def)
  show "net_waiting (nc_snapshot (foldl net_step sample_net [net_ev NET_EV_START 0, net_ev NET_EV_SCAN_SELECTED 5]))"
    unfolding s by (simp add: net_waiting_def)
  show "net_budget sample_net_config (nc_snapshot (foldl net_step sample_net
      [net_ev NET_EV_START 0, net_ev NET_EV_SCAN_SELECTED 5]))
    \<le> sum_list (map waited [net_ev NET_EV_TICK 25, net_ev NET_EV_CLIENT_FAILED 0, net_ev NET_EV_TICK 20, net_ev NET_EV_TICK 20])"
    unfolding s by (simp add: net_budget_def sample_net_config_def waited_def net_ev_def)
qed (simp add: bad_news_def net_ev_def)

text \<open>
  A transfer is not disturbed by policy: while one is in progress on a working connection,
  only the loss of the client, a stop and the end of the transfer have an effect; every other
  event leaves the connection as it is and asks nothing of the radio.
\<close>

lemma net_transfer_undisturbed:
  assumes "ns_transfer_active (nc_snapshot c)" and "is_ready_state (ns_state (nc_snapshot c))"
    and "nev_kind e \<notin> {NET_EV_CLIENT_LOST, NET_EV_STOP, NET_EV_TRANSFER_FINISHED}"
  shows "ns_state (nc_snapshot (net_step c e)) = ns_state (nc_snapshot c)
    \<and> ns_selected_network_id (nc_snapshot (net_step c e)) = ns_selected_network_id (nc_snapshot c)
    \<and> ns_transfer_active (nc_snapshot (net_step c e)) \<and> nact_kind (net_action_of c e) = NET_ACT_NONE"
  using assms by (cases "nev_kind e") (auto simp: net_step_simps net_switch_defs)

theorem net_transfer_undisturbed_witness:
  "nact_kind (net_action_of (sample_net\<lparr>nc_snapshot := net_snapshot_zero\<lparr>ns_state := NET_CLIENT_READY,
      ns_transfer_active := True\<rparr>\<rparr>) (net_ev NET_EV_FORCE_HOTSPOT 0)) = NET_ACT_NONE"
  by (rule net_transfer_undisturbed [THEN conjunct2, THEN conjunct2, THEN conjunct2])
    (simp_all add: is_ready_state_def net_ev_def)

end
