(* ===== verification/Update_Health.thy ===== *)
theory Update_Health
  imports Revlink_Prelude
begin

text \<open>
  The health gate of a firmware update (revlink_update/revlink_update_health.c): a freshly
  booted image is accepted when every required part has reported ready, rejected when the
  safety policy has failed, and given up after a timeout.
\<close>

section \<open>Data\<close>

datatype health_value = HEALTH_UNKNOWN | HEALTH_READY | HEALTH_RECOVERABLE | HEALTH_FAILED
  | HEALTH_OTHER int

datatype update_state = UPD_WAITING | UPD_READY | UPD_TIMED_OUT | UPD_REJECTED

fun update_state_name :: "update_state \<Rightarrow> string" where
  "update_state_name UPD_WAITING = ''waiting''"
| "update_state_name UPD_READY = ''ready''"
| "update_state_name UPD_TIMED_OUT = ''timed-out''"
| "update_state_name UPD_REJECTED = ''rejected''"

datatype update_blocker = BLOCKER_NONE | BLOCKER_NVS | BLOCKER_STORAGE | BLOCKER_DISPLAY
  | BLOCKER_NETWORK | BLOCKER_PORTAL | BLOCKER_USB | BLOCKER_SAFETY_POLICY

fun update_blocker_name :: "update_blocker \<Rightarrow> string" where
  "update_blocker_name BLOCKER_NONE = ''none''"
| "update_blocker_name BLOCKER_NVS = ''nvs''"
| "update_blocker_name BLOCKER_STORAGE = ''storage''"
| "update_blocker_name BLOCKER_DISPLAY = ''display''"
| "update_blocker_name BLOCKER_NETWORK = ''network''"
| "update_blocker_name BLOCKER_PORTAL = ''portal''"
| "update_blocker_name BLOCKER_USB = ''usb''"
| "update_blocker_name BLOCKER_SAFETY_POLICY = ''safety-policy''"

record health_config =
  hcfg_timeout_ms :: u32
  hcfg_display_required :: bool

record observation =
  ob_nvs :: health_value
  ob_storage :: health_value
  ob_display :: health_value
  ob_network :: health_value
  ob_portal :: health_value
  ob_usb :: health_value
  ob_safety_policy :: health_value

record health_snapshot =
  hs_state :: update_state
  hs_blocker :: update_blocker
  hs_elapsed_ms :: u32

record health_gate =
  hg_config :: health_config
  hg_snapshot :: health_snapshot

section \<open>The operations\<close>

fun valid_health_value :: "health_value \<Rightarrow> bool" where
  "valid_health_value (HEALTH_OTHER n) = False"
| "valid_health_value _ = True"

definition health_ready :: "health_value \<Rightarrow> bool" where
  "health_ready value \<longleftrightarrow> value = HEALTH_READY"

definition first_blocker :: "health_gate \<Rightarrow> observation \<Rightarrow> update_blocker" where
  "first_blocker gate ob =
     (if \<not> health_ready (ob_nvs ob) then BLOCKER_NVS
      else if \<not> health_ready (ob_storage ob) \<and> ob_storage ob \<noteq> HEALTH_RECOVERABLE then BLOCKER_STORAGE
      else if hcfg_display_required (hg_config gate) \<and> \<not> health_ready (ob_display ob) then BLOCKER_DISPLAY
      else if \<not> health_ready (ob_network ob) then BLOCKER_NETWORK
      else if \<not> health_ready (ob_portal ob) then BLOCKER_PORTAL
      else if \<not> health_ready (ob_usb ob) then BLOCKER_USB
      else if \<not> health_ready (ob_safety_policy ob) then BLOCKER_SAFETY_POLICY
      else BLOCKER_NONE)"

definition update_health_init :: "health_gate option \<Rightarrow> health_config option \<Rightarrow> bool \<times> health_gate option" where
  "update_health_init gate config =
     (case (gate, config) of
        (Some g, Some cfg) \<Rightarrow>
          if hcfg_timeout_ms cfg = 0 then (False, gate)
          else (True, Some \<lparr>hg_config = cfg,
                  hg_snapshot = \<lparr>hs_state = UPD_WAITING, hs_blocker = BLOCKER_NVS, hs_elapsed_ms = 0\<rparr>\<rparr>)
      | _ \<Rightarrow> (False, gate))"

definition rejected_snapshot :: health_snapshot where
  "rejected_snapshot = \<lparr>hs_state = UPD_REJECTED, hs_blocker = BLOCKER_NONE, hs_elapsed_ms = 0\<rparr>"

definition all_valid :: "observation \<Rightarrow> bool" where
  "all_valid ob \<longleftrightarrow>
     valid_health_value (ob_nvs ob) \<and> valid_health_value (ob_storage ob)
     \<and> valid_health_value (ob_display ob) \<and> valid_health_value (ob_network ob)
     \<and> valid_health_value (ob_portal ob) \<and> valid_health_value (ob_usb ob)
     \<and> valid_health_value (ob_safety_policy ob)"

definition update_health_observe ::
  "health_gate option \<Rightarrow> observation option \<Rightarrow> u32 \<Rightarrow> health_snapshot \<times> health_gate option" where
  "update_health_observe gate observation elapsed_ms =
     (case (gate, observation) of
        (Some g, Some ob) \<Rightarrow>
          let s = hg_snapshot g in
          if hs_state s \<noteq> UPD_WAITING then (s, gate)
          else if \<not> all_valid ob
          then let s1 = s\<lparr>hs_state := UPD_REJECTED, hs_blocker := BLOCKER_NONE\<rparr>
               in (s1, Some (g\<lparr>hg_snapshot := s1\<rparr>))
          else
            let s1 = s\<lparr>hs_elapsed_ms := saturated_add (hs_elapsed_ms s) elapsed_ms\<rparr>;
                s2 = s1\<lparr>hs_blocker := first_blocker g ob\<rparr>;
                s3 = (if ob_safety_policy ob = HEALTH_FAILED
                      then s2\<lparr>hs_state := UPD_REJECTED, hs_blocker := BLOCKER_SAFETY_POLICY\<rparr>
                      else if hs_blocker s2 = BLOCKER_NONE then s2\<lparr>hs_state := UPD_READY\<rparr>
                      else if hs_elapsed_ms s2 \<ge> hcfg_timeout_ms (hg_config g)
                      then s2\<lparr>hs_state := UPD_TIMED_OUT\<rparr>
                      else s2)
            in (s3, Some (g\<lparr>hg_snapshot := s3\<rparr>))
      | _ \<Rightarrow> (rejected_snapshot, gate))"

definition update_health_snapshot :: "health_gate option \<Rightarrow> health_snapshot" where
  "update_health_snapshot gate = (case gate of None \<Rightarrow> rejected_snapshot | Some g \<Rightarrow> hg_snapshot g)"

section \<open>What the gate decides\<close>

text \<open>An observation that shows a healthy image, for the given configuration.\<close>

definition healthy :: "health_config \<Rightarrow> observation \<Rightarrow> bool" where
  "healthy cfg ob \<longleftrightarrow>
     all_valid ob \<and> ob_nvs ob = HEALTH_READY \<and> ob_storage ob \<in> {HEALTH_READY, HEALTH_RECOVERABLE}
     \<and> (hcfg_display_required cfg \<longrightarrow> ob_display ob = HEALTH_READY) \<and> ob_network ob = HEALTH_READY
     \<and> ob_portal ob = HEALTH_READY \<and> ob_usb ob = HEALTH_READY \<and> ob_safety_policy ob = HEALTH_READY"

definition condemned :: "observation \<Rightarrow> bool" where
  "condemned ob \<longleftrightarrow> \<not> all_valid ob \<or> ob_safety_policy ob = HEALTH_FAILED"

lemma blocker_none: "first_blocker g ob = BLOCKER_NONE \<and> all_valid ob \<longleftrightarrow> healthy (hg_config g) ob"
  by (auto simp: first_blocker_def healthy_def health_ready_def)

definition gate_step :: "health_gate \<Rightarrow> observation \<times> u32 \<Rightarrow> health_gate" where
  "gate_step g x = the (snd (update_health_observe (Some g) (Some (fst x)) (snd x)))"

abbreviation gate_state :: "health_gate \<Rightarrow> update_state" where
  "gate_state g \<equiv> hs_state (hg_snapshot g)"

lemma gate_step_config: "hg_config (gate_step g x) = hg_config g"
  by (simp add: gate_step_def update_health_observe_def Let_def)

lemma gate_step_waiting:
  assumes "gate_state g = UPD_WAITING"
  shows "gate_state (gate_step g (ob, n)) =
      (if condemned ob then UPD_REJECTED else if healthy (hg_config g) ob then UPD_READY
       else if saturated_add (hs_elapsed_ms (hg_snapshot g)) n \<ge> hcfg_timeout_ms (hg_config g) then UPD_TIMED_OUT
       else UPD_WAITING)"
    and "all_valid ob \<Longrightarrow>
      hs_elapsed_ms (hg_snapshot (gate_step g (ob, n))) = saturated_add (hs_elapsed_ms (hg_snapshot g)) n"
  using assms blocker_none [of g ob]
  by (auto simp: gate_step_def update_health_observe_def condemned_def Let_def)

lemma gate_step_decided: "gate_state g \<noteq> UPD_WAITING \<Longrightarrow> gate_step g x = g"
  by (simp add: gate_step_def update_health_observe_def Let_def)

lemma gate_decided: "gate_state g \<noteq> UPD_WAITING \<Longrightarrow> foldl gate_step g xs = g"
  by (induction xs) (simp_all add: gate_step_decided)

text \<open>
  The reference: the first observation that settles the matter does so, with the time that has
  passed until then.
\<close>

fun verdict :: "health_config \<Rightarrow> nat \<Rightarrow> (observation \<times> u32) list \<Rightarrow> update_state" where
  "verdict cfg t [] = UPD_WAITING"
| "verdict cfg t ((ob, n) # xs) =
     (if condemned ob then UPD_REJECTED
      else if healthy cfg ob then UPD_READY
      else if t + unat n \<ge> unat (hcfg_timeout_ms cfg) then UPD_TIMED_OUT
      else verdict cfg (t + unat n) xs)"

lemma gate_run_verdict:
  "gate_state g = UPD_WAITING \<Longrightarrow> unat (hs_elapsed_ms (hg_snapshot g)) = t \<Longrightarrow>
   gate_state (foldl gate_step g xs) = verdict (hg_config g) t xs"
proof (induction xs arbitrary: g t)
  case Nil
  then show ?case by simp
next
  case (Cons x xs)
  obtain ob n where x: "x = (ob, n)" by fastforce
  let ?g = "gate_step g (ob, n)" and ?T = "hcfg_timeout_ms (hg_config g)"
  note step = gate_step_waiting [OF Cons.prems(1), of ob n]
  have late: "saturated_add (hs_elapsed_ms (hg_snapshot g)) n \<ge> ?T \<longleftrightarrow> t + unat n \<ge> unat ?T"
    using Cons.prems(2) unat_u32_less [of ?T] by (simp add: word_le_nat_alt unat_saturated_add)
  show ?case
  proof (cases "gate_state ?g = UPD_WAITING")
    case False
    then show ?thesis using step(1) late gate_decided [OF False] by (auto simp: x split: if_splits)
  next
    case True
    then have go: "\<not> condemned ob" "\<not> healthy (hg_config g) ob" "\<not> t + unat n \<ge> unat ?T"
      using step(1) late by (auto split: if_splits)
    then have "unat (hs_elapsed_ms (hg_snapshot ?g)) = t + unat n"
      using step(2) Cons.prems(2) unat_u32_less [of ?T] by (simp add: condemned_def unat_saturated_add)
    then show ?thesis using Cons.IH [OF True] go by (simp add: x gate_step_config)
  qed
qed

text \<open>
  C17. The gate follows its specification over any sequence of observations: the first one that
  condemns the image, shows it healthy or reaches the timeout decides, and the decision stands.
\<close>

theorem update_gate_exact:
  assumes "update_health_init (Some g0) (Some cfg) = (True, Some g)"
  shows "hs_state (update_health_snapshot (Some (foldl gate_step g xs))) = verdict cfg 0 xs"
proof -
  have "gate_state g = UPD_WAITING" "hs_elapsed_ms (hg_snapshot g) = 0" "hg_config g = cfg"
    using assms by (auto simp: update_health_init_def split: if_splits)
  then show ?thesis using gate_run_verdict [of g 0 xs] by (simp add: update_health_snapshot_def)
qed

definition sample_observation :: observation where
  "sample_observation = \<lparr>ob_nvs = HEALTH_READY, ob_storage = HEALTH_RECOVERABLE, ob_display = HEALTH_UNKNOWN,
     ob_network = HEALTH_READY, ob_portal = HEALTH_READY, ob_usb = HEALTH_READY, ob_safety_policy = HEALTH_READY\<rparr>"

definition sample_gate :: health_gate where
  "sample_gate = \<lparr>hg_config = \<lparr>hcfg_timeout_ms = 50, hcfg_display_required = False\<rparr>,
     hg_snapshot = \<lparr>hs_state = UPD_WAITING, hs_blocker = BLOCKER_NVS, hs_elapsed_ms = 0\<rparr>\<rparr>"

theorem update_gate_exact_witness:
  "hs_state (update_health_snapshot (Some (foldl gate_step sample_gate
     [(sample_observation\<lparr>ob_usb := HEALTH_UNKNOWN\<rparr>, 30), (sample_observation, 5)]))) = UPD_READY"
proof -
  have "update_health_init (Some sample_gate) (Some \<lparr>hcfg_timeout_ms = 50, hcfg_display_required = False\<rparr>)
      = (True, Some sample_gate)"
    by (simp add: update_health_init_def sample_gate_def)
  from update_gate_exact [OF this, of "[(sample_observation\<lparr>ob_usb := HEALTH_UNKNOWN\<rparr>, 30), (sample_observation, 5)]"]
  show ?thesis by (simp add: condemned_def healthy_def all_valid_def sample_observation_def)
qed

end
