(* ===== verification/Storage_Recovery.thy ===== *)
theory Storage_Recovery
  imports Revlink_Prelude
begin

text \<open>
  The recovery of an unreadable card (revlink_storage_recovery/revlink_storage_recovery.c):
  formatting needs a first double press, which shows a warning, and a second one before the
  warning times out.
\<close>

section \<open>Data and operations\<close>

datatype recovery_state = REC_UNAVAILABLE | REC_AWAITING_REQUEST | REC_AWAITING_CONFIRMATION
  | REC_FORMATTING

datatype recovery_action = REC_NO_ACTION | REC_SHOW_WARNING | REC_WARNING_TIMED_OUT
  | REC_FORMAT_REQUESTED

record storage_recovery =
  rec_state :: recovery_state
  rec_confirmation_timeout_ms :: u32
  rec_confirmation_elapsed_ms :: u32

definition storage_recovery_init ::
  "storage_recovery option \<Rightarrow> bool \<Rightarrow> u32 \<Rightarrow> bool \<times> storage_recovery option" where
  "storage_recovery_init recovery format_available confirmation_timeout_ms =
     (if recovery = None \<or> confirmation_timeout_ms = 0 then (False, recovery)
      else (True, Some \<lparr>rec_state = (if format_available then REC_AWAITING_REQUEST else REC_UNAVAILABLE),
              rec_confirmation_timeout_ms = confirmation_timeout_ms,
              rec_confirmation_elapsed_ms = 0\<rparr>))"

fun storage_recovery_double_press ::
  "storage_recovery option \<Rightarrow> recovery_action \<times> storage_recovery option" where
  "storage_recovery_double_press None = (REC_NO_ACTION, None)"
| "storage_recovery_double_press (Some r) =
     (if rec_state r = REC_AWAITING_REQUEST
      then (REC_SHOW_WARNING,
            Some (r\<lparr>rec_state := REC_AWAITING_CONFIRMATION, rec_confirmation_elapsed_ms := 0\<rparr>))
      else if rec_state r = REC_AWAITING_CONFIRMATION
        \<and> rec_confirmation_elapsed_ms r < rec_confirmation_timeout_ms r
      then (REC_FORMAT_REQUESTED, Some (r\<lparr>rec_state := REC_FORMATTING\<rparr>))
      else (REC_NO_ACTION, Some r))"

fun storage_recovery_tick ::
  "storage_recovery option \<Rightarrow> u32 \<Rightarrow> recovery_action \<times> storage_recovery option" where
  "storage_recovery_tick None elapsed_ms = (REC_NO_ACTION, None)"
| "storage_recovery_tick (Some r) elapsed_ms =
     (if elapsed_ms = 0 \<or> rec_state r \<noteq> REC_AWAITING_CONFIRMATION then (REC_NO_ACTION, Some r)
      else
        let r1 = r\<lparr>rec_confirmation_elapsed_ms :=
              saturated_add (rec_confirmation_elapsed_ms r) elapsed_ms\<rparr>
        in if rec_confirmation_elapsed_ms r1 < rec_confirmation_timeout_ms r1
           then (REC_NO_ACTION, Some r1)
           else (REC_WARNING_TIMED_OUT,
                 Some (r1\<lparr>rec_confirmation_elapsed_ms := 0, rec_state := REC_AWAITING_REQUEST\<rparr>)))"

fun storage_recovery_seconds_remaining :: "storage_recovery option \<Rightarrow> u32" where
  "storage_recovery_seconds_remaining None = 0"
| "storage_recovery_seconds_remaining (Some r) =
     (if rec_state r \<noteq> REC_AWAITING_CONFIRMATION
         \<or> rec_confirmation_elapsed_ms r \<ge> rec_confirmation_timeout_ms r then 0
      else
        let remaining_ms = rec_confirmation_timeout_ms r - rec_confirmation_elapsed_ms r
        in (remaining_ms + 999) div 1000)"

fun storage_recovery_format_failed :: "storage_recovery option \<Rightarrow> storage_recovery option" where
  "storage_recovery_format_failed None = None"
| "storage_recovery_format_failed (Some r) =
     Some (r\<lparr>rec_confirmation_elapsed_ms := 0, rec_state := REC_AWAITING_REQUEST\<rparr>)"

section \<open>A format is confirmed twice\<close>

datatype recovery_event = Double_Press | Tick u32 | Format_Failed

fun recovery_call :: "storage_recovery \<Rightarrow> recovery_event \<Rightarrow> recovery_action \<times> storage_recovery" where
  "recovery_call r Double_Press = apsnd the (storage_recovery_double_press (Some r))"
| "recovery_call r (Tick n) = apsnd the (storage_recovery_tick (Some r) n)"
| "recovery_call r Format_Failed = (REC_NO_ACTION, the (storage_recovery_format_failed (Some r)))"

definition recovery_run :: "storage_recovery \<Rightarrow> recovery_event list \<Rightarrow> storage_recovery" where
  "recovery_run r es = foldl (\<lambda>r e. snd (recovery_call r e)) r es"

definition action_after :: "storage_recovery \<Rightarrow> recovery_event list \<Rightarrow> recovery_event \<Rightarrow> recovery_action" where
  "action_after r es e = fst (recovery_call (recovery_run r es) e)"

lemma recovery_run_snoc: "recovery_run r (es @ [e]) = snd (recovery_call (recovery_run r es) e)"
  by (simp add: recovery_run_def)

lemma recovery_timeout_run: "rec_confirmation_timeout_ms (recovery_run r es) = rec_confirmation_timeout_ms r"
proof (induction es rule: rev_induct)
  case (snoc e es)
  then show ?case by (cases e) (simp_all add: recovery_run_snoc Let_def)
qed (simp add: recovery_run_def)

text \<open>Since the warning was shown nothing but time has passed, and less than the timeout.\<close>

definition armed :: "storage_recovery \<Rightarrow> recovery_event list \<Rightarrow> u32 list \<Rightarrow> bool" where
  "armed r es ticks \<longleftrightarrow>
     (\<exists>earlier. es = earlier @ Double_Press # map Tick ticks
        \<and> action_after r earlier Double_Press = REC_SHOW_WARNING)"

lemma armed_snoc: "armed r es ticks \<Longrightarrow> armed r (es @ [Tick n]) (ticks @ [n])"
  by (auto simp: armed_def)

lemma awaiting_armed:
  assumes "rec_state r \<noteq> REC_AWAITING_CONFIRMATION" and "rec_confirmation_timeout_ms r \<noteq> 0"
  shows "rec_state (recovery_run r es) = REC_AWAITING_CONFIRMATION \<Longrightarrow>
    \<exists>ticks. armed r es ticks \<and> unat (rec_confirmation_elapsed_ms (recovery_run r es)) = sum_list (map unat ticks)
      \<and> sum_list (map unat ticks) < unat (rec_confirmation_timeout_ms r)"
proof (induction es rule: rev_induct)
  case Nil
  then show ?case using assms(1) by (simp add: recovery_run_def)
next
  case (snoc e es)
  let ?r = "recovery_run r es" and ?T = "rec_confirmation_timeout_ms r"
  have T: "rec_confirmation_timeout_ms ?r = ?T" by (rule recovery_timeout_run)
  show ?case
  proof (cases e)
    case Double_Press
    then have "rec_state ?r = REC_AWAITING_REQUEST"
      using snoc.prems snoc.IH T by (auto simp: recovery_run_snoc word_less_nat_alt split: if_splits)
    then have "armed r (es @ [e]) []" "rec_confirmation_elapsed_ms (recovery_run r (es @ [e])) = 0"
      using Double_Press by (simp_all add: armed_def action_after_def recovery_run_snoc)
    then show ?thesis using assms(2) by (intro exI [of _ "[]"]) (simp add: unat_gt_0)
  next
    case (Tick n)
    then have state: "rec_state ?r = REC_AWAITING_CONFIRMATION"
      using snoc.prems by (auto simp: recovery_run_snoc Let_def split: if_splits)
    from snoc.IH [OF this] obtain ticks where ticks: "armed r es ticks"
      "unat (rec_confirmation_elapsed_ms ?r) = sum_list (map unat ticks)"
      "sum_list (map unat ticks) < unat ?T" by blast
    show ?thesis
    proof (cases "n = 0")
      case True
      then show ?thesis using ticks armed_snoc [OF ticks(1), of n] Tick state
        by (intro exI [of _ "ticks @ [n]"]) (simp add: recovery_run_snoc)
    next
      case False
      let ?e = "saturated_add (rec_confirmation_elapsed_ms ?r) n"
      have less: "?e < ?T" and run: "rec_confirmation_elapsed_ms (recovery_run r (es @ [e])) = ?e"
        using snoc.prems Tick False state T by (auto simp: recovery_run_snoc Let_def split: if_splits)
      have "min (sum_list (map unat ticks) + unat n) (2 ^ 32 - 1) < unat ?T"
        using less by (simp add: word_less_nat_alt unat_saturated_add ticks(2))
      then have "sum_list (map unat ticks) + unat n < unat ?T" "unat ?e = sum_list (map unat ticks) + unat n"
        using unat_u32_less [of ?T] by (simp_all add: unat_saturated_add ticks(2))
      then show ?thesis using armed_snoc [OF ticks(1), of n] run Tick
        by (intro exI [of _ "ticks @ [n]"]) simp
    qed
  next
    case Format_Failed
    then show ?thesis using snoc.prems by (simp add: recovery_run_snoc)
  qed
qed

text \<open>
  The card is only formatted on a confirmed request: whenever a format is requested, the
  event is a double press, and before it there was another one that showed the warning, with
  nothing but less than the timeout of waiting in between.
\<close>

lemma format_confirmed_twice:
  assumes "storage_recovery_init (Some r0) available timeout = (True, Some r)"
    and "action_after r es e = REC_FORMAT_REQUESTED"
  shows "e = Double_Press \<and> (\<exists>earlier ticks. es = earlier @ Double_Press # map Tick ticks
    \<and> action_after r earlier Double_Press = REC_SHOW_WARNING \<and> sum_list (map unat ticks) < unat timeout)"
proof -
  have r: "rec_state r \<noteq> REC_AWAITING_CONFIRMATION" "rec_confirmation_timeout_ms r = timeout" "timeout \<noteq> 0"
    using assms(1) by (auto simp: storage_recovery_init_def split: if_splits)
  have e: "e = Double_Press" "rec_state (recovery_run r es) = REC_AWAITING_CONFIRMATION"
    using assms(2) by (cases e; auto simp: action_after_def Let_def split: if_splits)+
  from awaiting_armed [OF r(1) _ e(2)] r(2,3) e(1) show ?thesis unfolding armed_def by auto
qed

definition sample_recovery :: storage_recovery where
  "sample_recovery = \<lparr>rec_state = REC_AWAITING_REQUEST, rec_confirmation_timeout_ms = 100,
     rec_confirmation_elapsed_ms = 0\<rparr>"

theorem format_confirmed_twice_witness:
  "\<exists>earlier ticks. [Tick 5, Double_Press, Tick 40] = earlier @ Double_Press # map Tick ticks
     \<and> action_after sample_recovery earlier Double_Press = REC_SHOW_WARNING
     \<and> sum_list (map unat ticks) < unat (100 :: u32)"
proof -
  have "storage_recovery_init (Some sample_recovery) True 100 = (True, Some sample_recovery)"
    by (simp add: storage_recovery_init_def sample_recovery_def)
  moreover have "action_after sample_recovery [Tick 5, Double_Press, Tick 40] Double_Press = REC_FORMAT_REQUESTED"
    by (simp add: action_after_def recovery_run_def sample_recovery_def saturated_add_def)
  ultimately show ?thesis by (rule format_confirmed_twice [THEN conjunct2])
qed

text \<open>The countdown on the display never shows zero while a confirmation is still accepted.\<close>

lemma seconds_remaining_positive:
  assumes "rec_state r = REC_AWAITING_CONFIRMATION"
    and "rec_confirmation_elapsed_ms r < rec_confirmation_timeout_ms r"
    and "unat (rec_confirmation_timeout_ms r) + 999 < 2 ^ 32"
  shows "storage_recovery_seconds_remaining (Some r) > 0"
proof -
  let ?m = "rec_confirmation_timeout_ms r - rec_confirmation_elapsed_ms r"
  have m: "unat ?m = unat (rec_confirmation_timeout_ms r) - unat (rec_confirmation_elapsed_ms r)"
    using assms(2) by (simp add: unat_sub less_imp_le)
  have "unat (?m + 999) = unat ?m + 999"
    using assms(3) m by (simp add: unat_word_ariths take_bit_nat_eq_self)
  moreover have "unat ?m > 0" using m assms(2) by (simp add: word_less_nat_alt)
  ultimately have "unat ((?m + 999) div 1000) > 0" by (simp add: unat_div)
  then show ?thesis using assms(1,2) by (simp add: Let_def not_le word_less_nat_alt)
qed

end
