(* ===== verification/Power_Button.thy ===== *)
theory Power_Button
  imports Revlink_Prelude
begin

text \<open>
  The power button (revlink_power/revlink_power_button.c): debouncing of the raw level, short
  presses and the hold that requests a shutdown.
\<close>

section \<open>Data and operations\<close>

datatype button_action = BUTTON_NO_ACTION | BUTTON_SHORT_PRESS_RELEASED | BUTTON_SHUTDOWN_REQUESTED

record button_config =
  bcfg_debounce_ms :: u32
  bcfg_shutdown_hold_ms :: u32

record power_button =
  pb_config :: button_config
  pb_candidate_ms :: u32
  pb_pressed_ms :: u32
  pb_candidate_pressed :: bool
  pb_stable_pressed :: bool
  pb_shutdown_latched :: bool

definition power_button_init ::
  "power_button option \<Rightarrow> button_config option \<Rightarrow> bool \<times> power_button option" where
  "power_button_init button config =
     (case (button, config) of
        (Some b, Some cfg) \<Rightarrow>
          if bcfg_debounce_ms cfg = 0 \<or> bcfg_shutdown_hold_ms cfg = 0 then (False, button)
          else (True, Some \<lparr>pb_config = cfg, pb_candidate_ms = 0, pb_pressed_ms = 0,
                  pb_candidate_pressed = False, pb_stable_pressed = False,
                  pb_shutdown_latched = False\<rparr>)
      | _ \<Rightarrow> (False, button))"

text \<open>The candidate level and how long it has been seen.\<close>

definition note_level :: "power_button \<Rightarrow> bool \<Rightarrow> u32 \<Rightarrow> power_button" where
  "note_level b raw_pressed elapsed_ms =
     (if raw_pressed \<noteq> pb_candidate_pressed b
      then b\<lparr>pb_candidate_pressed := raw_pressed, pb_candidate_ms := elapsed_ms\<rparr>
      else b\<lparr>pb_candidate_ms := saturated_add (pb_candidate_ms b) elapsed_ms\<rparr>)"

text \<open>A level seen long enough becomes the stable one: (changed, short press released, button).\<close>

definition settle_level :: "power_button \<Rightarrow> bool \<times> bool \<times> power_button" where
  "settle_level b =
     (if pb_candidate_pressed b \<noteq> pb_stable_pressed b
         \<and> pb_candidate_ms b \<ge> bcfg_debounce_ms (pb_config b)
      then
        let b1 = b\<lparr>pb_stable_pressed := pb_candidate_pressed b\<rparr>;
            (short_press_released, b2) =
              (if \<not> pb_stable_pressed b1
               then (\<not> pb_shutdown_latched b1, b1\<lparr>pb_shutdown_latched := False\<rparr>)
               else (False, b1))
        in (True, short_press_released, b2\<lparr>pb_pressed_ms := 0\<rparr>)
      else (False, False, b))"

definition power_button_update ::
  "power_button option \<Rightarrow> bool \<Rightarrow> u32 \<Rightarrow> button_action \<times> power_button option" where
  "power_button_update button raw_pressed elapsed_ms =
     (case button of
        None \<Rightarrow> (BUTTON_NO_ACTION, button)
      | Some b \<Rightarrow>
          if elapsed_ms = 0 then (BUTTON_NO_ACTION, button)
          else
            (case settle_level (note_level b raw_pressed elapsed_ms) of
               (stable_changed, short_press_released, b1) \<Rightarrow>
                 let b2 = (if pb_stable_pressed b1 \<and> \<not> stable_changed
                       then b1\<lparr>pb_pressed_ms := saturated_add (pb_pressed_ms b1) elapsed_ms\<rparr>
                       else b1)
                 in if pb_stable_pressed b2 \<and> \<not> pb_shutdown_latched b2
                       \<and> pb_pressed_ms b2 \<ge> bcfg_shutdown_hold_ms (pb_config b2)
                    then (BUTTON_SHUTDOWN_REQUESTED, Some (b2\<lparr>pb_shutdown_latched := True\<rparr>))
                    else if short_press_released then (BUTTON_SHORT_PRESS_RELEASED, Some b2)
                    else (BUTTON_NO_ACTION, Some b2)))"

section \<open>A shutdown needs a debounced hold\<close>

type_synonym sample = "bool \<times> u32"

definition button_step :: "power_button \<Rightarrow> sample \<Rightarrow> power_button" where
  "button_step b x = the (snd (power_button_update (Some b) (fst x) (snd x)))"

definition sampled_action :: "power_button \<Rightarrow> sample list \<Rightarrow> sample \<Rightarrow> button_action" where
  "sampled_action b xs x = fst (power_button_update (Some (foldl button_step b xs)) (fst x) (snd x))"

definition duration :: "sample list \<Rightarrow> nat" where
  "duration xs = sum_list (map (unat \<circ> snd) xs)"

definition level :: "bool \<Rightarrow> sample list \<Rightarrow> bool" where
  "level pressed xs \<longleftrightarrow> list_all (\<lambda>x. fst x = pressed) xs"

lemma duration_simps [simp]:
  "duration [] = 0" "duration (xs @ ys) = duration xs + duration ys" "duration [(l, n)] = unat n"
  by (simp_all add: duration_def)

lemma level_simps [simp]:
  "level l []" "level l (xs @ ys) \<longleftrightarrow> level l xs \<and> level l ys" "level l [(k, n)] \<longleftrightarrow> k = l"
  by (simp_all add: level_def)

text \<open>How long the level at the end of the samples has been seen without interruption.\<close>

definition held :: "bool \<Rightarrow> sample list \<Rightarrow> sample list" where
  "held l xs = rev (takeWhile (\<lambda>x. fst x = l) (rev xs))"

lemma held_snoc: "held l (xs @ [(k, n)]) = (if k = l then held l xs @ [(k, n)] else [])"
  by (simp add: held_def)

lemma held_suffix: "\<exists>ys. xs = ys @ held l xs"
proof -
  have "rev xs = takeWhile (\<lambda>x. fst x = l) (rev xs) @ dropWhile (\<lambda>x. fst x = l) (rev xs)" by simp
  then have "xs = rev (dropWhile (\<lambda>x. fst x = l) (rev xs)) @ held l xs"
    unfolding held_def by (metis rev_append rev_rev_ident)
  then show ?thesis by blast
qed

lemma held_level: "level l (held l xs)"
  unfolding held_def level_def list_all_iff by (auto dest: set_takeWhileD)

lemma held_longest: "level l r \<Longrightarrow> duration r \<le> duration (held l (xs @ r))"
proof (induction r arbitrary: xs rule: rev_induct)
  case (snoc x r)
  obtain k n where x: "x = (k, n)" by fastforce
  then show ?case using snoc held_snoc [of l "xs @ r" k n] by simp
qed simp

text \<open>No release in the samples lasts long enough to count.\<close>

definition unreleased :: "u32 \<Rightarrow> sample list \<Rightarrow> bool" where
  "unreleased debounce zs \<longleftrightarrow>
     (\<forall>a r c. zs = a @ r @ c \<longrightarrow> level False r \<longrightarrow> duration r < unat debounce)"

lemma unreleased_snoc:
  assumes "unreleased d zs" and "d \<noteq> 0"
    and "fst x = False \<Longrightarrow> duration (held False (xs @ zs @ [x])) < unat d"
  shows "unreleased d (zs @ [x])"
  unfolding unreleased_def
proof (intro allI impI)
  fix a r c
  assume split: "zs @ [x] = a @ r @ c" and released: "level False r"
  show "duration r < unat d"
  proof (cases "c = []")
    case False
    then have "zs = a @ r @ butlast c" using split by (metis append_assoc butlast_append butlast_snoc)
    then show ?thesis using assms(1) released unfolding unreleased_def by blast
  next
    case True
    show ?thesis
    proof (cases "r = []")
      case True
      then show ?thesis using assms(2) by (simp add: unat_gt_0)
    next
      case False
      then have "last r = x" using split \<open>c = []\<close> by (metis append.right_neutral last_appendR last_snoc)
      then have "fst x = False" using released False by (auto simp: level_def list_all_iff)
      moreover have "xs @ zs @ [x] = (xs @ a) @ r" using split \<open>c = []\<close> by simp
      ultimately show ?thesis using assms(3) held_longest [OF released, of "xs @ a"] by simp
    qed
  qed
qed

text \<open>
  The history behind a stable press: a debounced press, and since then no debounced release and,
  while the latch is open, no request.
\<close>

definition press_history :: "power_button \<Rightarrow> sample list \<Rightarrow> sample list \<Rightarrow> bool" where
  "press_history b xs zs \<longleftrightarrow>
     (let d = bcfg_debounce_ms (pb_config b) in
      \<exists>ys p. xs = ys @ p @ zs \<and> level True p \<and> duration p \<ge> unat d \<and> unreleased d zs)"

definition no_request :: "power_button \<Rightarrow> sample list \<Rightarrow> sample list \<Rightarrow> bool" where
  "no_request b xs zs \<longleftrightarrow>
     (\<forall>ys a x c. xs = ys @ zs \<and> zs = a @ x # c \<longrightarrow>
        sampled_action b (ys @ a) x \<noteq> BUTTON_SHUTDOWN_REQUESTED)"

definition button_ghost :: "power_button \<Rightarrow> sample list \<Rightarrow> power_button \<Rightarrow> bool" where
  "button_ghost b0 xs b \<longleftrightarrow>
     pb_config b = pb_config b0
     \<and> (if xs = [] then \<not> pb_candidate_pressed b else fst (last xs) = pb_candidate_pressed b)
     \<and> unat (pb_candidate_ms b) = min (duration (held (pb_candidate_pressed b) xs)) (2 ^ 32 - 1)
     \<and> (pb_stable_pressed b \<longrightarrow> (\<exists>zs. press_history b0 xs zs
          \<and> unat (pb_pressed_ms b) = min (duration zs) (2 ^ 32 - 1)
          \<and> (\<not> pb_shutdown_latched b \<longrightarrow> no_request b0 xs zs)))"

lemma note_level_ghost:
  fixes raw :: bool and n :: u32
  assumes "button_ghost b0 xs b"
  defines "b1 \<equiv> note_level b raw n"
  shows "pb_candidate_pressed b1 = raw"
    and "unat (pb_candidate_ms b1) = min (duration (held raw (xs @ [(raw, n)]))) (2 ^ 32 - 1)"
    and "pb_config b1 = pb_config b0" "pb_stable_pressed b1 = pb_stable_pressed b"
    "pb_pressed_ms b1 = pb_pressed_ms b" "pb_shutdown_latched b1 = pb_shutdown_latched b"
proof -
  have held: "held raw xs = []" if "raw \<noteq> pb_candidate_pressed b"
    using assms(1) that by (cases xs rule: rev_cases) (auto simp: button_ghost_def held_def split: if_splits)
  show "unat (pb_candidate_ms b1) = min (duration (held raw (xs @ [(raw, n)]))) (2 ^ 32 - 1)"
    using assms(1) held unat_u32_less [of n]
    by (auto simp: b1_def note_level_def held_snoc button_ghost_def unat_saturated_add)
qed (use assms in \<open>simp_all add: note_level_def button_ghost_def\<close>)

lemma duration_held_less:
  fixes d m :: u32
  assumes "unat m = min (duration xs) (2 ^ 32 - 1)" and "\<not> m \<ge> d"
  shows "duration xs < unat d"
  using assms unat_u32_less [of d] by (simp add: not_le word_less_nat_alt min_def split: if_splits)

text \<open>A sample that does not change the stable level extends the press.\<close>

lemma press_continues:
  assumes ghost: "button_ghost b0 xs b" and "pb_stable_pressed b"
    and "bcfg_debounce_ms (pb_config b0) \<noteq> 0"
    and calm: "\<not> (raw \<noteq> pb_stable_pressed b
      \<and> pb_candidate_ms (note_level b raw n) \<ge> bcfg_debounce_ms (pb_config b0))"
  shows "\<exists>zs. press_history b0 (xs @ [(raw, n)]) (zs @ [(raw, n)])
    \<and> unat (saturated_add (pb_pressed_ms b) n) = min (duration (zs @ [(raw, n)])) (2 ^ 32 - 1)
    \<and> (\<not> pb_shutdown_latched b \<longrightarrow> no_request b0 xs zs)"
proof -
  let ?d = "bcfg_debounce_ms (pb_config b0)" and ?x = "(raw, n)"
  obtain zs where zs: "press_history b0 xs zs" "unat (pb_pressed_ms b) = min (duration zs) (2 ^ 32 - 1)"
    "\<not> pb_shutdown_latched b \<longrightarrow> no_request b0 xs zs"
    using ghost assms(2) by (auto simp: button_ghost_def)
  from zs(1) obtain ys p where yp: "xs = ys @ p @ zs" "level True p" "duration p \<ge> unat ?d" "unreleased ?d zs"
    by (auto simp: press_history_def Let_def)
  have "unreleased ?d (zs @ [?x])"
  proof (rule unreleased_snoc [OF yp(4) assms(3)])
    assume "fst ?x = False"
    then have "\<not> pb_candidate_ms (note_level b raw n) \<ge> ?d" "raw = False" using calm assms(2) by auto
    then show "duration (held False ((ys @ p) @ zs @ [?x])) < unat ?d"
      using duration_held_less [OF note_level_ghost(2) [OF ghost, of raw n]] yp(1) by simp
  qed
  then have "press_history b0 (xs @ [?x]) (zs @ [?x])"
    unfolding press_history_def Let_def using yp by (intro exI [of _ ys] exI [of _ p]) simp
  moreover have "unat (saturated_add (pb_pressed_ms b) n) = min (duration (zs @ [?x])) (2 ^ 32 - 1)"
    unfolding unat_saturated_add zs(2) by simp
  ultimately show ?thesis using zs(3) by blast
qed

lemma no_request_snoc:
  assumes "no_request b0 xs zs" and "sampled_action b0 xs x \<noteq> BUTTON_SHUTDOWN_REQUESTED"
  shows "no_request b0 (xs @ [x]) (zs @ [x])"
  unfolding no_request_def
proof (intro allI impI)
  fix us a z c
  assume split: "xs @ [x] = us @ zs @ [x] \<and> zs @ [x] = a @ z # c"
  show "sampled_action b0 (us @ a) z \<noteq> BUTTON_SHUTDOWN_REQUESTED"
  proof (cases c rule: rev_cases)
    case Nil
    then show ?thesis using split assms(2) by auto
  next
    case (snoc c' y)
    then have "xs = us @ zs" "zs = a @ z # c'" using split by auto
    then show ?thesis using assms(1) unfolding no_request_def by blast
  qed
qed

lemma button_step_ghost:
  assumes ghost: "button_ghost b0 xs b" and b: "b = foldl button_step b0 xs"
    and "bcfg_debounce_ms (pb_config b0) \<noteq> 0" and "n \<noteq> 0"
  shows "button_ghost b0 (xs @ [(raw, n)]) (button_step b (raw, n))"
proof -
  let ?b1 = "note_level b raw n" and ?d = "bcfg_debounce_ms (pb_config b0)" and ?x = "(raw, n)"
  let ?b' = "button_step b ?x"
  note g = note_level_ghost [OF ghost, of raw n]
  have level: "pb_candidate_pressed ?b' = raw" "pb_candidate_ms ?b' = pb_candidate_ms ?b1" "pb_config ?b' = pb_config b0"
    using assms(4) g(1,3)
    by (auto simp: button_step_def power_button_update_def settle_level_def Let_def)
  have stable: "\<exists>zs. press_history b0 (xs @ [?x]) zs \<and> unat (pb_pressed_ms ?b') = min (duration zs) (2 ^ 32 - 1)
      \<and> (\<not> pb_shutdown_latched ?b' \<longrightarrow> no_request b0 (xs @ [?x]) zs)" if pressed: "pb_stable_pressed ?b'"
  proof (cases "raw \<noteq> pb_stable_pressed b \<and> pb_candidate_ms ?b1 \<ge> ?d")
    case True
    then have new: "raw" "pb_pressed_ms ?b' = 0"
      using pressed g assms(4)
      by (auto simp: button_step_def power_button_update_def settle_level_def Let_def split: if_splits)
    obtain ys where ys: "xs @ [?x] = ys @ held True (xs @ [?x])" using held_suffix by blast
    have "duration (held True (xs @ [?x])) \<ge> unat ?d"
      using True g(2) new(1) by (simp add: word_le_nat_alt)
    then have "press_history b0 (xs @ [?x]) []"
      unfolding press_history_def Let_def using ys held_level assms(3)
      by (intro exI [of _ ys] exI [of _ "held True (xs @ [?x])"]) (simp add: unreleased_def unat_gt_0)
    then show ?thesis using new(2) by (intro exI [of _ "[]"]) (simp add: no_request_def)
  next
    case False
    then have settle: "settle_level ?b1 = (False, False, ?b1)" using g by (auto simp: settle_level_def)
    then have old: "pb_stable_pressed b"
      using pressed g(4) assms(4) by (auto simp: button_step_def power_button_update_def Let_def split: if_splits)
    have ms: "pb_pressed_ms ?b' = saturated_add (pb_pressed_ms b) n"
      using settle old g(4,5) assms(4) by (simp add: button_step_def power_button_update_def Let_def)
    have "\<not> pb_shutdown_latched ?b' \<Longrightarrow> \<not> pb_shutdown_latched b \<and> sampled_action b0 xs ?x \<noteq> BUTTON_SHUTDOWN_REQUESTED"
      using settle g(6) assms(4)
      by (auto simp: button_step_def sampled_action_def power_button_update_def b [symmetric] Let_def split: if_splits)
    then show ?thesis
      using press_continues [OF ghost old assms(3) False] no_request_snoc [of b0 xs _ ?x] ms by metis
  qed
  show ?thesis
    unfolding button_ghost_def using level g(2) stable by simp
qed

lemma button_run_ghost:
  assumes "power_button_init (Some b00) (Some cfg) = (True, Some b)"
  shows "list_all (\<lambda>x. snd x \<noteq> 0) xs \<Longrightarrow> button_ghost b xs (foldl button_step b xs)"
proof (induction xs rule: rev_induct)
  case Nil
  then show ?case using assms
    by (auto simp: power_button_init_def button_ghost_def held_def split: if_splits)
next
  case (snoc x xs)
  obtain raw n where x: "x = (raw, n)" by fastforce
  have "bcfg_debounce_ms (pb_config b) \<noteq> 0"
    using assms by (auto simp: power_button_init_def split: if_splits)
  then show ?case using snoc x button_step_ghost [of b xs "foldl button_step b xs" n raw] by simp
qed

text \<open>After a request the latch stays closed until a debounced release that ends after it.\<close>

definition released_since :: "u32 \<Rightarrow> sample list \<Rightarrow> sample list \<Rightarrow> bool" where
  "released_since debounce xs zs \<longleftrightarrow>
     (\<exists>a r c. xs @ zs = a @ r @ c \<and> length c < length zs \<and> level False r \<and> duration r \<ge> unat debounce)"

lemma released_since_snoc: "released_since d xs zs \<Longrightarrow> released_since d xs (zs @ [w])"
proof -
  assume "released_since d xs zs"
  then obtain a r c where r: "xs @ zs = a @ r @ c" "length c < length zs" "level False r" "duration r \<ge> unat d"
    by (auto simp: released_since_def)
  then have "xs @ zs @ [w] = a @ r @ c @ [w]" by (metis append_assoc)
  then show ?thesis unfolding released_since_def
    using r by (intro exI [of _ a] exI [of _ r] exI [of _ "c @ [w]"]) simp
qed

lemma latched_by_request:
  assumes "fst (power_button_update (Some b) raw n) = BUTTON_SHUTDOWN_REQUESTED"
  shows "pb_stable_pressed (button_step b (raw, n)) \<and> pb_shutdown_latched (button_step b (raw, n))"
  using assms
  by (cases "settle_level (note_level b raw n)") (auto simp: button_step_def power_button_update_def Let_def split: if_splits)

lemma request_latches:
  assumes init: "power_button_init (Some b00) (Some cfg) = (True, Some b)"
    and request: "sampled_action b ys z = BUTTON_SHUTDOWN_REQUESTED"
  shows "list_all (\<lambda>x. snd x \<noteq> 0) (ys @ z # zs) \<Longrightarrow>
    released_since (bcfg_debounce_ms cfg) (ys @ [z]) zs
    \<or> (let t = foldl button_step b (ys @ z # zs) in pb_stable_pressed t \<and> pb_shutdown_latched t)"
proof (induction zs rule: rev_induct)
  case Nil
  show ?case using latched_by_request [of "foldl button_step b ys" "fst z" "snd z"] request
    by (simp add: sampled_action_def)
next
  case (snoc w zs)
  let ?t = "foldl button_step b (ys @ z # zs)"
  obtain raw n where w: "w = (raw, n)" by fastforce
  have cfg: "pb_config b = cfg" using init by (auto simp: power_button_init_def split: if_splits)
  have n: "n \<noteq> 0" and old: "list_all (\<lambda>x. snd x \<noteq> 0) (ys @ z # zs)" using snoc.prems w by simp_all
  show ?case
  proof (cases "released_since (bcfg_debounce_ms cfg) (ys @ [z]) zs")
    case True
    then show ?thesis using released_since_snoc by blast
  next
    case False
    then have t: "pb_stable_pressed ?t" "pb_shutdown_latched ?t" using snoc.IH [OF old] by (auto simp: Let_def)
    have ghost: "button_ghost b (ys @ z # zs) ?t" using button_run_ghost [OF init old] .
    note g = note_level_ghost [OF ghost, of raw n]
    show ?thesis
    proof (cases "\<not> raw \<and> pb_candidate_ms (note_level ?t raw n) \<ge> bcfg_debounce_ms cfg")
      case True
      obtain us where us: "(ys @ z # zs) @ [w] = us @ held raw ((ys @ z # zs) @ [w])" using held_suffix by blast
      have "unat (bcfg_debounce_ms cfg) \<le> unat (pb_candidate_ms (note_level ?t raw n))"
        using True unfolding word_le_nat_alt by blast
      then have "duration (held raw ((ys @ z # zs) @ [w])) \<ge> unat (bcfg_debounce_ms cfg)"
        unfolding g(2) w by simp
      then have "released_since (bcfg_debounce_ms cfg) (ys @ [z]) (zs @ [w])"
        unfolding released_since_def using us True held_level [of raw "(ys @ z # zs) @ [w]"]
        by (intro exI [of _ us] exI [of _ "held raw ((ys @ z # zs) @ [w])"] exI [of _ "[]"]) simp
      then show ?thesis by blast
    next
      case False
      then have settle: "settle_level (note_level ?t raw n) = (False, False, note_level ?t raw n)"
        using g t cfg by (auto simp: settle_level_def)
      have "pb_stable_pressed (button_step ?t w) \<and> pb_shutdown_latched (button_step ?t w)"
        using settle g t n w by (simp add: button_step_def power_button_update_def Let_def)
      then show ?thesis by simp
    qed
  qed
qed

lemma open_at_request:
  assumes "power_button_init (Some b00) (Some cfg) = (True, Some b)"
    and "list_all (\<lambda>x. snd x \<noteq> 0) (xs @ [x])"
    and "sampled_action b xs x = BUTTON_SHUTDOWN_REQUESTED"
  shows "pb_stable_pressed (foldl button_step b xs) \<and> \<not> pb_shutdown_latched (foldl button_step b xs)"
proof -
  obtain raw n where x: "x = (raw, n)" by fastforce
  have cfg: "pb_config b = cfg" "bcfg_shutdown_hold_ms cfg \<noteq> 0"
    using assms(1) by (auto simp: power_button_init_def split: if_splits)
  have ghost: "button_ghost b xs (foldl button_step b xs)" using button_run_ghost [OF assms(1)] assms(2) by simp
  note g = note_level_ghost [OF ghost, of raw n]
  show ?thesis
    using assms(2,3) g cfg
    by (auto simp: sampled_action_def power_button_update_def settle_level_def x Let_def split: if_splits)
qed

lemma shutdown_hold:
  assumes "power_button_init (Some b00) (Some cfg) = (True, Some b)"
    and "list_all (\<lambda>x. snd x \<noteq> 0) (xs @ [x])"
    and "sampled_action b xs x = BUTTON_SHUTDOWN_REQUESTED"
  shows "\<exists>ys p zs. xs = ys @ p @ zs \<and> level True p \<and> duration p \<ge> unat (bcfg_debounce_ms cfg)
    \<and> duration (zs @ [x]) \<ge> unat (bcfg_shutdown_hold_ms cfg) \<and> unreleased (bcfg_debounce_ms cfg) (zs @ [x])
    \<and> (\<forall>a z c. zs = a @ z # c \<longrightarrow> sampled_action b (ys @ p @ a) z \<noteq> BUTTON_SHUTDOWN_REQUESTED)"
proof -
  let ?b = "foldl button_step b xs"
  obtain raw n where x: "x = (raw, n)" by fastforce
  have cfg: "pb_config b = cfg" "bcfg_debounce_ms cfg \<noteq> 0" "bcfg_shutdown_hold_ms cfg \<noteq> 0"
    using assms(1) by (auto simp: power_button_init_def split: if_splits)
  have ghost: "button_ghost b xs ?b" using button_run_ghost [OF assms(1)] assms(2) by simp
  note g = note_level_ghost [OF ghost, of raw n]
  have req: "pb_stable_pressed ?b" "\<not> pb_shutdown_latched ?b"
    "\<not> (raw \<noteq> pb_stable_pressed ?b \<and> pb_candidate_ms (note_level ?b raw n) \<ge> bcfg_debounce_ms (pb_config b))"
    "saturated_add (pb_pressed_ms ?b) n \<ge> bcfg_shutdown_hold_ms cfg"
    using assms(2,3) g cfg
    by (auto simp: sampled_action_def power_button_update_def settle_level_def x Let_def split: if_splits)
  from press_continues [OF ghost req(1) _ req(3)] cfg(1,2) req(2) x obtain zs where
    zs: "press_history b (xs @ [x]) (zs @ [x])" "no_request b xs zs"
      "unat (saturated_add (pb_pressed_ms ?b) n) = min (duration (zs @ [x])) (2 ^ 32 - 1)" by auto
  then have "duration (zs @ [x]) \<ge> unat (bcfg_shutdown_hold_ms cfg)"
    using req(4) by (simp add: word_le_nat_alt)
  moreover from zs(1) obtain ys p where "xs = ys @ p @ zs" "level True p" "duration p \<ge> unat (bcfg_debounce_ms cfg)"
    "unreleased (bcfg_debounce_ms cfg) (zs @ [x])"
    by (auto simp: press_history_def Let_def cfg(1))
  moreover from this have "\<forall>a z c. zs = a @ z # c \<longrightarrow> sampled_action b ((ys @ p) @ a) z \<noteq> BUTTON_SHUTDOWN_REQUESTED"
    using zs(2) unfolding no_request_def by (metis append_assoc)
  ultimately show ?thesis by (metis append_assoc)
qed

text \<open>
  C18. A shutdown is requested only by a deliberate hold, and once per press: when one is requested,
  the samples end with a debounced press followed by at least the hold time without a debounced
  release, in which no shutdown has been requested yet; and behind every earlier request there is a
  debounced release - the button was let go and pressed again, so that one press, however long it
  lasts, requests one shutdown.
\<close>

theorem shutdown_needs_hold:
  assumes "power_button_init (Some b00) (Some cfg) = (True, Some b)"
    and "list_all (\<lambda>x. snd x \<noteq> 0) (xs @ [x])"
    and "sampled_action b xs x = BUTTON_SHUTDOWN_REQUESTED"
  shows "(\<exists>ys p zs. xs = ys @ p @ zs \<and> level True p \<and> duration p \<ge> unat (bcfg_debounce_ms cfg)
      \<and> duration (zs @ [x]) \<ge> unat (bcfg_shutdown_hold_ms cfg) \<and> unreleased (bcfg_debounce_ms cfg) (zs @ [x])
      \<and> (\<forall>a z c. zs = a @ z # c \<longrightarrow> sampled_action b (ys @ p @ a) z \<noteq> BUTTON_SHUTDOWN_REQUESTED))
    \<and> (\<forall>ys z zs. xs = ys @ z # zs \<longrightarrow> sampled_action b ys z = BUTTON_SHUTDOWN_REQUESTED \<longrightarrow>
        (\<exists>a r c. xs = a @ r @ c \<and> length c < length zs
           \<and> level False r \<and> duration r \<ge> unat (bcfg_debounce_ms cfg)))"
proof (intro conjI allI impI)
  fix ys z zs
  assume xs: "xs = ys @ z # zs" and request: "sampled_action b ys z = BUTTON_SHUTDOWN_REQUESTED"
  have "\<not> pb_shutdown_latched (foldl button_step b xs) \<or> \<not> pb_stable_pressed (foldl button_step b xs)"
    using open_at_request [OF assms] by blast
  then show "\<exists>a r c. xs = a @ r @ c \<and> length c < length zs \<and> level False r \<and> duration r \<ge> unat (bcfg_debounce_ms cfg)"
    using request_latches [OF assms(1) request, of zs] assms(2) xs by (auto simp: Let_def released_since_def)
qed (rule shutdown_hold [OF assms])

definition sample_button :: power_button where
  "sample_button = \<lparr>pb_config = \<lparr>bcfg_debounce_ms = 20, bcfg_shutdown_hold_ms = 50\<rparr>, pb_candidate_ms = 0,
     pb_pressed_ms = 0, pb_candidate_pressed = False, pb_stable_pressed = False, pb_shutdown_latched = False\<rparr>"

theorem shutdown_needs_hold_witness:
  "(\<exists>ys p zs. [(True, 15), (True, 15), (False, 10), (True, 30)] = ys @ p @ zs \<and> level True p
     \<and> duration p \<ge> unat (20 :: u32) \<and> duration (zs @ [(True, 15)]) \<ge> unat (50 :: u32))
   \<and> (\<exists>a r c. [(True, 30), (True, 60), (False, 25), (True, 30)] = a @ r @ c \<and> length c < 2 \<and> level False r)"
proof -
  have init: "power_button_init (Some sample_button) (Some \<lparr>bcfg_debounce_ms = 20, bcfg_shutdown_hold_ms = 50\<rparr>)
      = (True, Some sample_button)"
    by (simp add: power_button_init_def sample_button_def)
  note eval = sampled_action_def button_step_def power_button_update_def settle_level_def note_level_def
    sample_button_def saturated_add_def Let_def
  have action: "sampled_action sample_button [(True, 15), (True, 15), (False, 10), (True, 30)] (True, 15)
      = BUTTON_SHUTDOWN_REQUESTED"
    by (simp add: eval)
  have once: "sampled_action sample_button [(True, 30)] (True, 60) = BUTTON_SHUTDOWN_REQUESTED"
    and again: "sampled_action sample_button [(True, 30), (True, 60), (False, 25), (True, 30)] (True, 50)
      = BUTTON_SHUTDOWN_REQUESTED"
    by (simp_all add: eval)
  have nonzero: "list_all (\<lambda>x. snd x \<noteq> 0) ([(True, 30), (True, 60), (False, 25), (True, 30)] @ [(True, 50 :: u32)])"
    and split: "[(True, 30), (True, 60), (False, 25), (True, 30 :: u32)] = [(True, 30)] @ (True, 60) # [(False, 25), (True, 30)]"
    by simp_all
  obtain a r c where "[(True, 30), (True, 60), (False, 25), (True, 30)] = a @ r @ c"
      "length c < length [(False, 25 :: u32), (True, 30)]" "level False r"
    using shutdown_needs_hold [OF init nonzero again, THEN conjunct2, rule_format, OF split once] by blast
  then have "\<exists>a r c. [(True, 30), (True, 60), (False, 25), (True, 30)] = a @ r @ c \<and> length c < 2 \<and> level False r"
    by (intro exI [of _ a] exI [of _ r] exI [of _ c] conjI) (assumption, simp, assumption)
  moreover have "\<exists>ys p zs. [(True, 15), (True, 15), (False, 10), (True, 30)] = ys @ p @ zs \<and> level True p
     \<and> duration p \<ge> unat (20 :: u32) \<and> duration (zs @ [(True, 15)]) \<ge> unat (50 :: u32)"
    using shutdown_needs_hold [OF init _ action, THEN conjunct1] by simp blast
  ultimately show ?thesis by blast
qed

end
