(* ===== verification/Accessport_Catalog.thy ===== *)
theory Accessport_Catalog
  imports Revlink_Prelude "HOL-Library.List_Lexorder"
begin

text \<open>
  The catalog of published part numbers (accessport_catalog/revlink_accessport_catalog.c): the
  two constant tables and the binary search over the sorted one. \<open>strcmp\<close> is the order of C
  strings as byte lists; the search is shown to find exactly what a scan of the table finds.
\<close>

section \<open>Data\<close>

datatype family = FAMILY_ACTIVATION | FAMILY_AU_SUBARU | FAMILY_BMW | FAMILY_FORD
  | FAMILY_FORD_PERFORMANCE | FAMILY_HONDA | FAMILY_MAZDA | FAMILY_MITSUBISHI | FAMILY_NISSAN
  | FAMILY_PORSCHE | FAMILY_SUBARU | FAMILY_VOLKSWAGEN_AUDI

record family_description =
  fd_code :: "u8 list"
  fd_name :: "u8 list"
  fd_family :: family

record part_record =
  pr_part_number :: "u8 list"
  pr_family :: family

record catalog_entry =
  ce_part_number :: "u8 list"
  ce_family_code :: "u8 list"
  ce_family_name :: "u8 list"
  ce_family :: family
  ce_read_only_file_sync_supported :: bool

abbreviation (input) described :: "string \<Rightarrow> string \<Rightarrow> family \<Rightarrow> family_description" where
  "described code name f \<equiv> \<lparr>fd_code = ascii code, fd_name = ascii name, fd_family = f\<rparr>"

abbreviation (input) part :: "string \<Rightarrow> family \<Rightarrow> part_record" where
  "part number f \<equiv> \<lparr>pr_part_number = ascii number, pr_family = f\<rparr>"

definition FAMILIES :: "family_description list" where
  "FAMILIES = [
    described ''APA'' ''AccessPort Activation'' FAMILY_ACTIVATION,
    described ''AU'' ''Australian Subaru'' FAMILY_AU_SUBARU,
    described ''BMW'' ''BMW'' FAMILY_BMW,
    described ''FOR'' ''Ford'' FAMILY_FORD,
    described ''FRP'' ''Ford Performance'' FAMILY_FORD_PERFORMANCE,
    described ''HON'' ''Honda'' FAMILY_HONDA,
    described ''MAZ'' ''Mazda'' FAMILY_MAZDA,
    described ''MIT'' ''Mitsubishi'' FAMILY_MITSUBISHI,
    described ''NIS'' ''Nissan'' FAMILY_NISSAN,
    described ''POR'' ''Porsche'' FAMILY_PORSCHE,
    described ''SUB'' ''Subaru'' FAMILY_SUBARU,
    described ''VLK'' ''Volkswagen / Audi'' FAMILY_VOLKSWAGEN_AUDI]"

definition PARTS :: "part_record list" where
  "PARTS = [
    part ''AP3-APA-001'' FAMILY_ACTIVATION, part ''AP3-AU-SUB-003'' FAMILY_AU_SUBARU,
    part ''AP3-AU-SUB-004'' FAMILY_AU_SUBARU, part ''AP3-AU-SUB-006'' FAMILY_AU_SUBARU,
    part ''AP3-BMW-001'' FAMILY_BMW, part ''AP3-BMW-002'' FAMILY_BMW,
    part ''AP3-FOR-001'' FAMILY_FORD, part ''AP3-FOR-002'' FAMILY_FORD,
    part ''AP3-FOR-003'' FAMILY_FORD, part ''AP3-FOR-004'' FAMILY_FORD,
    part ''AP3-FOR-005'' FAMILY_FORD, part ''AP3-FOR-006'' FAMILY_FORD,
    part ''AP3-FOR-007'' FAMILY_FORD, part ''AP3-FOR-008'' FAMILY_FORD,
    part ''AP3-FOR-009'' FAMILY_FORD, part ''AP3-FOR-010'' FAMILY_FORD,
    part ''AP3-FOR-011'' FAMILY_FORD, part ''AP3-FOR-012'' FAMILY_FORD,
    part ''AP3-FOR-013'' FAMILY_FORD, part ''AP3-FOR-014'' FAMILY_FORD,
    part ''AP3-FRP-001'' FAMILY_FORD_PERFORMANCE, part ''AP3-HON-001'' FAMILY_HONDA,
    part ''AP3-HON-002'' FAMILY_HONDA, part ''AP3-HON-003'' FAMILY_HONDA,
    part ''AP3-HON-004'' FAMILY_HONDA, part ''AP3-MAZ-002'' FAMILY_MAZDA,
    part ''AP3-MIT-002'' FAMILY_MITSUBISHI, part ''AP3-NIS-005'' FAMILY_NISSAN,
    part ''AP3-NIS-006'' FAMILY_NISSAN, part ''AP3-NIS-007'' FAMILY_NISSAN,
    part ''AP3-NIS-008'' FAMILY_NISSAN, part ''AP3-POR-001'' FAMILY_PORSCHE,
    part ''AP3-POR-002'' FAMILY_PORSCHE, part ''AP3-POR-003'' FAMILY_PORSCHE,
    part ''AP3-POR-004'' FAMILY_PORSCHE, part ''AP3-POR-005'' FAMILY_PORSCHE,
    part ''AP3-POR-006'' FAMILY_PORSCHE, part ''AP3-POR-007'' FAMILY_PORSCHE,
    part ''AP3-POR-008'' FAMILY_PORSCHE, part ''AP3-POR-009'' FAMILY_PORSCHE,
    part ''AP3-POR-010'' FAMILY_PORSCHE, part ''AP3-POR-011'' FAMILY_PORSCHE,
    part ''AP3-POR-012'' FAMILY_PORSCHE, part ''AP3-POR-013'' FAMILY_PORSCHE,
    part ''AP3-POR-014'' FAMILY_PORSCHE, part ''AP3-POR-015'' FAMILY_PORSCHE,
    part ''AP3-POR-016'' FAMILY_PORSCHE, part ''AP3-POR-018'' FAMILY_PORSCHE,
    part ''AP3-POR-019'' FAMILY_PORSCHE, part ''AP3-POR-020'' FAMILY_PORSCHE,
    part ''AP3-POR-021'' FAMILY_PORSCHE, part ''AP3-SUB-001'' FAMILY_SUBARU,
    part ''AP3-SUB-002'' FAMILY_SUBARU, part ''AP3-SUB-003'' FAMILY_SUBARU,
    part ''AP3-SUB-004'' FAMILY_SUBARU, part ''AP3-SUB-005'' FAMILY_SUBARU,
    part ''AP3-SUB-006'' FAMILY_SUBARU, part ''AP3-SUB-007'' FAMILY_SUBARU,
    part ''AP3-VLK-001'' FAMILY_VOLKSWAGEN_AUDI, part ''AP3-VLK-002'' FAMILY_VOLKSWAGEN_AUDI,
    part ''AP3-VLK-003'' FAMILY_VOLKSWAGEN_AUDI, part ''AP3-VLK-004'' FAMILY_VOLKSWAGEN_AUDI,
    part ''AP3-VLK-005'' FAMILY_VOLKSWAGEN_AUDI, part ''AP3-VLK-006'' FAMILY_VOLKSWAGEN_AUDI]"

section \<open>The operations\<close>

text \<open>\<open>strcmp\<close> on two C strings: the sign of the first difference of the bytes as unsigned char.\<close>

fun strcmp :: "u8 list \<Rightarrow> u8 list \<Rightarrow> int" where
  "strcmp [] [] = 0"
| "strcmp [] (b # bs) = - 1"
| "strcmp (a # as) [] = 1"
| "strcmp (a # as) (b # bs) = (if a = b then strcmp as bs else if a < b then - 1 else 1)"

fun family_description_in :: "family_description list \<Rightarrow> family \<Rightarrow> family_description option" where
  "family_description_in [] f = None"
| "family_description_in (d # ds) f = (if fd_family d = f then Some d else family_description_in ds f)"

definition family_description :: "family \<Rightarrow> family_description option" where
  "family_description f = family_description_in FAMILIES f"

text \<open>The output pointer may be NULL; the result is the return value and what it points to.\<close>

definition copy_entry :: "part_record \<Rightarrow> catalog_entry option \<Rightarrow> bool \<times> catalog_entry option" where
  "copy_entry rec entry =
     (case family_description (pr_family rec) of
        None \<Rightarrow> (False, entry)
      | Some d \<Rightarrow>
          (True, map_option (\<lambda>_. \<lparr>ce_part_number = pr_part_number rec, ce_family_code = fd_code d,
             ce_family_name = fd_name d, ce_family = pr_family rec,
             ce_read_only_file_sync_supported = True\<rparr>) entry))"

function catalog_search ::
  "u8 list \<Rightarrow> catalog_entry option \<Rightarrow> nat \<Rightarrow> nat \<Rightarrow> bool \<times> catalog_entry option" where
  "catalog_search part_number entry lower upper =
     (if lower < upper then
        let middle = lower + (upper - lower) div 2;
            comparison = strcmp part_number (pr_part_number (PARTS ! middle))
        in if comparison = 0 then copy_entry (PARTS ! middle) entry
           else if comparison < 0 then catalog_search part_number entry lower middle
           else catalog_search part_number entry (middle + 1) upper
      else (False, entry))"
  by pat_completeness auto

termination
  by (relation "measure (\<lambda>(part_number, entry, lower, upper). upper - lower)") auto

declare catalog_search.simps [simp del]

definition catalog_lookup :: "u8 list option \<Rightarrow> catalog_entry option \<Rightarrow> bool \<times> catalog_entry option" where
  "catalog_lookup part_number entry =
     (case part_number of
        None \<Rightarrow> (False, entry)
      | Some p \<Rightarrow>
          if c_str p = [] then (False, entry)
          else catalog_search (c_str p) entry 0 (length PARTS))"

definition catalog_count :: nat where
  "catalog_count = length PARTS"

definition catalog_entry_at :: "nat \<Rightarrow> catalog_entry option \<Rightarrow> bool \<times> catalog_entry option" where
  "catalog_entry_at index entry =
     (if index \<ge> catalog_count \<or> entry = None then (False, entry)
      else copy_entry (PARTS ! index) entry)"

section \<open>The order of the table\<close>

lemma strcmp_zero [simp]: "strcmp xs ys = 0 \<longleftrightarrow> xs = ys"
  by (induction xs ys rule: strcmp.induct) auto

lemma strcmp_less: "strcmp xs ys < 0 \<longleftrightarrow> xs < ys"
  by (induction xs ys rule: strcmp.induct) auto

abbreviation numbers :: "u8 list list" where
  "numbers \<equiv> map pr_part_number PARTS"

lemma parts_sorted: "sorted_wrt (<) numbers"
proof -
  have single: "sorted_wrt (<) [x]" for x :: "u8 list" by simp
  show ?thesis
    unfolding PARTS_def by (simp add: sorted_wrt2 transp_on_less single del: sorted_wrt.simps)
qed

lemma length_parts: "length PARTS = 64"
  by (simp add: PARTS_def)

lemma number_less:
  "i < j \<Longrightarrow> j < length PARTS \<Longrightarrow> pr_part_number (PARTS ! i) < pr_part_number (PARTS ! j)"
  using sorted_wrt_nth_less [OF parts_sorted, of i j] by simp

lemma number_mono:
  "i \<le> j \<Longrightarrow> j < length PARTS \<Longrightarrow> pr_part_number (PARTS ! i) \<le> pr_part_number (PARTS ! j)"
  using number_less [of i j] by (cases "i = j") (auto intro: less_imp_le)

lemma number_inj:
  "i < length PARTS \<Longrightarrow> j < length PARTS \<Longrightarrow>
   pr_part_number (PARTS ! i) = pr_part_number (PARTS ! j) \<Longrightarrow> i = j"
  using number_less [of i j] number_less [of j i] by (metis linorder_neqE_nat order_less_irrefl)

lemma described_family: "\<exists>d. family_description f = Some d \<and> fd_family d = f"
  by (cases f) (simp_all add: family_description_def FAMILIES_def)

lemma family_description_in_Some:
  "family_description_in ds f = Some d \<Longrightarrow> d \<in> set ds \<and> fd_family d = f"
  by (induction ds) (auto split: if_splits)

section \<open>The search\<close>

text \<open>What a scan of the whole table finds.\<close>

definition catalog_scan :: "u8 list \<Rightarrow> part_record option" where
  "catalog_scan p = find (\<lambda>rec. pr_part_number rec = p) PARTS"

lemma scan_nth: "i < length PARTS \<Longrightarrow> catalog_scan (pr_part_number (PARTS ! i)) = Some (PARTS ! i)"
  unfolding catalog_scan_def find_Some_iff using number_inj by (metis less_trans nat_neq_iff)

lemma scan_None: "(\<And>i. i < length PARTS \<Longrightarrow> pr_part_number (PARTS ! i) \<noteq> p) \<Longrightarrow> catalog_scan p = None"
  unfolding catalog_scan_def find_None_iff by (auto simp: in_set_conv_nth)

text \<open>Everything before \<open>lower\<close> is smaller and everything from \<open>upper\<close> on is larger.\<close>

lemma search_finds:
  assumes "upper \<le> length PARTS"
    and "\<And>i. i < lower \<Longrightarrow> i < length PARTS \<Longrightarrow> pr_part_number (PARTS ! i) < p"
    and "\<And>i. upper \<le> i \<Longrightarrow> i < length PARTS \<Longrightarrow> p < pr_part_number (PARTS ! i)"
  shows "catalog_search p entry lower upper =
    (case catalog_scan p of None \<Rightarrow> (False, entry) | Some rec \<Rightarrow> copy_entry rec entry)"
  using assms
proof (induction p entry lower upper rule: catalog_search.induct)
  case (1 p entry lower upper)
  define middle where "middle = lower + (upper - lower) div 2"
  show ?case
  proof (cases "lower < upper")
    case False
    with 1(4,5) have "pr_part_number (PARTS ! i) \<noteq> p" if "i < length PARTS" for i
      using that by (metis not_less order_less_irrefl order_trans less_le_not_le linorder_le_less_linear)
    then have "catalog_scan p = None" by (rule scan_None)
    then show ?thesis using False by (simp add: catalog_search.simps)
  next
    case True
    then have m: "lower \<le> middle" "middle < upper" by (auto simp: middle_def)
    with 1(3) have m': "middle < length PARTS" by simp
    let ?m = "pr_part_number (PARTS ! middle)"
    consider "p = ?m" | "p < ?m" | "?m < p" by fastforce
    then show ?thesis
    proof cases
      case 1
      then show ?thesis using True scan_nth [OF m']
        by (simp add: catalog_search.simps Let_def flip: middle_def)
    next
      case 2
      then have c: "strcmp p ?m < 0" "strcmp p ?m \<noteq> 0" by (simp_all add: strcmp_less)
      have "catalog_search p entry lower middle =
          (case catalog_scan p of None \<Rightarrow> (False, entry) | Some rec \<Rightarrow> copy_entry rec entry)"
        using True m' c 2 number_mono 1
        by (intro 1(1) [OF True middle_def refl]) (auto intro: less_le_trans)
      then show ?thesis using True c by (simp add: catalog_search.simps [of p entry lower] Let_def flip: middle_def)
    next
      case 3
      then have c: "\<not> strcmp p ?m < 0" "strcmp p ?m \<noteq> 0" by (simp_all add: strcmp_less)
      have "catalog_search p entry (middle + 1) upper =
          (case catalog_scan p of None \<Rightarrow> (False, entry) | Some rec \<Rightarrow> copy_entry rec entry)"
        using c 1(3,5)
      proof (intro 1(2) [OF True middle_def refl])
        show "pr_part_number (PARTS ! i) < p" if "i < middle + 1" for i
          using number_mono [of i middle] that m' 3 by (auto intro: le_less_trans)
      qed auto
      then show ?thesis using True c by (simp add: catalog_search.simps [of p entry lower] Let_def flip: middle_def)
    qed
  qed
qed

lemma lookup_scan:
  "catalog_lookup part_number entry =
    (case part_number of
       None \<Rightarrow> (False, entry)
     | Some p \<Rightarrow>
         (case catalog_scan (c_str p) of
            None \<Rightarrow> (False, entry)
          | Some rec \<Rightarrow> copy_entry rec entry))"
proof (cases part_number)
  case (Some p)
  have "catalog_scan [] = None"
    by (simp add: catalog_scan_def PARTS_def)
  then show ?thesis
    using Some search_finds [of "length PARTS" 0 "c_str p" entry] by (simp add: catalog_lookup_def)
qed (simp add: catalog_lookup_def)

lemma copy_entry_row:
  "\<exists>d. d \<in> set FAMILIES \<and> fd_family d = pr_family rec \<and>
     copy_entry rec entry = (True, map_option (\<lambda>_. \<lparr>ce_part_number = pr_part_number rec,
       ce_family_code = fd_code d, ce_family_name = fd_name d, ce_family = fd_family d,
       ce_read_only_file_sync_supported = True\<rparr>) entry)"
proof -
  obtain d where d: "family_description (pr_family rec) = Some d"
    using described_family by blast
  then have "d \<in> set FAMILIES \<and> fd_family d = pr_family rec"
    unfolding family_description_def by (rule family_description_in_Some)
  then show ?thesis using d by (auto simp: copy_entry_def)
qed

text \<open>
  The part number lookup by binary search is exact: it finds a part number if and only if
  the table holds it (byte for byte, no prefixes), it then reports the row of the table with the
  description of its family, otherwise it leaves the output alone; and every row of the table is
  found under its own part number with the entry that enumeration by index reports.
\<close>

lemma catalog_lookup_exact:
  "(case find (\<lambda>rec. pr_part_number rec = c_str p) PARTS of
      None \<Rightarrow> catalog_lookup (Some p) entry = (False, entry)
    | Some rec \<Rightarrow>
        \<exists>d. d \<in> set FAMILIES \<and> fd_family d = pr_family rec \<and>
          catalog_lookup (Some p) entry =
            (True, map_option (\<lambda>_. \<lparr>ce_part_number = c_str p, ce_family_code = fd_code d,
               ce_family_name = fd_name d, ce_family = pr_family rec,
               ce_read_only_file_sync_supported = True\<rparr>) entry))
   \<and> map (\<lambda>i. catalog_lookup (Some (pr_part_number (PARTS ! i))) (Some e)) [0..<catalog_count]
     = map (\<lambda>i. catalog_entry_at i (Some e)) [0..<catalog_count]"
proof (rule conjI)
  show "case find (\<lambda>rec. pr_part_number rec = c_str p) PARTS of
      None \<Rightarrow> catalog_lookup (Some p) entry = (False, entry)
    | Some rec \<Rightarrow>
        \<exists>d. d \<in> set FAMILIES \<and> fd_family d = pr_family rec \<and>
          catalog_lookup (Some p) entry =
            (True, map_option (\<lambda>_. \<lparr>ce_part_number = c_str p, ce_family_code = fd_code d,
               ce_family_name = fd_name d, ce_family = pr_family rec,
               ce_read_only_file_sync_supported = True\<rparr>) entry)"
  proof (cases "find (\<lambda>rec. pr_part_number rec = c_str p) PARTS")
    case None
    then show ?thesis by (simp add: lookup_scan catalog_scan_def)
  next
    case (Some rec)
    then have "pr_part_number rec = c_str p" by (auto simp: find_Some_iff)
    then show ?thesis using Some copy_entry_row [of rec entry] by (auto simp: lookup_scan catalog_scan_def)
  qed
  have "list_all (\<lambda>x. c_str x = x) numbers"
    by (simp add: PARTS_def c_str_def)
  then have "c_str (pr_part_number (PARTS ! i)) = pr_part_number (PARTS ! i)" if "i < length PARTS" for i
    using that by (simp add: list_all_length)
  then show "map (\<lambda>i. catalog_lookup (Some (pr_part_number (PARTS ! i))) (Some e)) [0..<catalog_count]
     = map (\<lambda>i. catalog_entry_at i (Some e)) [0..<catalog_count]"
    by (auto simp: lookup_scan scan_nth catalog_entry_at_def catalog_count_def)
qed

end
