(* ===== verification/Captive_Dns.thy ===== *)
theory Captive_Dns
  imports Byte_Order
begin

text \<open>
  The captive portal's DNS responder (revlink_captive_dns/revlink_captive_dns.c): the walk over
  the labels of the question and the construction of the answer in the caller's buffer.
\<close>

section \<open>The operations\<close>

datatype dns_status = DNS_OK | DNS_IGNORED | DNS_INVALID_ARGUMENT | DNS_MALFORMED | DNS_NO_SPACE

abbreviation (input) DNS_HEADER_SIZE :: nat where "DNS_HEADER_SIZE \<equiv> 12"
abbreviation (input) DNS_TYPE_A :: u16 where "DNS_TYPE_A \<equiv> 1"
abbreviation (input) DNS_CLASS_IN :: u16 where "DNS_CLASS_IN \<equiv> 1"
abbreviation (input) DNS_QUESTION_TRAILER_SIZE :: nat where "DNS_QUESTION_TRAILER_SIZE \<equiv> 4"
abbreviation (input) DNS_A_ANSWER_SIZE :: nat where "DNS_A_ANSWER_SIZE \<equiv> 16"

definition read_u16 :: "u8 list \<Rightarrow> u16" where
  "read_u16 value = push_bit 8 (ucast (value ! 0)) OR ucast (value ! 1)"

definition write_u16 :: "u16 \<Rightarrow> u8 list" where
  "write_u16 value = [ucast (drop_bit 8 value), ucast value]"

text \<open>The loop of \<open>question_end\<close> from a cursor on; the call starts behind the header.\<close>

function question_end_from :: "u8 list \<Rightarrow> nat \<Rightarrow> nat" where
  "question_end_from query cursor =
     (if cursor < length query then
        let label_size = query ! cursor;
            next_byte = cursor + 1
        in if label_size = 0 then
             (if next_byte + DNS_QUESTION_TRAILER_SIZE \<le> length query
              then next_byte + DNS_QUESTION_TRAILER_SIZE else 0)
           else if label_size AND 0xc0 \<noteq> 0 \<or> label_size > 63
                \<or> next_byte + unat label_size > length query then 0
           else question_end_from query (next_byte + unat label_size)
      else 0)"
  by pat_completeness auto

termination
  by (relation "measure (\<lambda>(query, cursor). length query - cursor)") auto

declare question_end_from.simps [simp del]

definition question_end :: "u8 list \<Rightarrow> nat" where
  "question_end query = question_end_from query DNS_HEADER_SIZE"

definition write_answer :: "nat \<Rightarrow> u32 \<Rightarrow> u8 list \<Rightarrow> u8 list" where
  "write_answer answer ipv4_network_order response =
     (let r1 = blit answer [0xc0] response;
          r2 = blit (answer + 1) [0x0c] r1;
          r3 = blit (answer + 2) (write_u16 DNS_TYPE_A) r2;
          r4 = blit (answer + 4) (write_u16 DNS_CLASS_IN) r3;
          r5 = blit (answer + 6) (replicate 4 0) r4;
          r6 = blit (answer + 10) (write_u16 4) r5
      in blit (answer + 12) (store_u32_le ipv4_network_order) r6)"

text \<open>
  The IPv4 address is an integer whose bytes in memory are in network order; the processor is
  little endian, so \<open>memcpy\<close> of the integer is \<open>store_u32_le\<close>.
\<close>

definition captive_dns_build_response ::
  "u8 span \<Rightarrow> u32 \<Rightarrow> u8 span \<Rightarrow> nat option \<Rightarrow> dns_status \<times> u8 span \<times> nat option" where
  "captive_dns_build_response query ipv4_network_order response response_size =
     (if is_null query \<or> is_null response \<or> response_size = None
      then (DNS_INVALID_ARGUMENT, response, response_size)
      else
        let q = sbytes query in
        if slen query < DNS_HEADER_SIZE then (DNS_MALFORMED, response, Some 0)
        else
          let request_flags = read_u16 (drop 2 q);
              question_count = read_u16 (drop 4 q)
          in if request_flags AND 0x8000 \<noteq> 0 \<or> request_flags AND 0x7800 \<noteq> 0 \<or> question_count \<noteq> 1
             then (DNS_IGNORED, response, Some 0)
             else
               let end_of_question = question_end q in
               if end_of_question = 0 then (DNS_MALFORMED, response, Some 0)
               else
                 let question_type = read_u16 (drop (end_of_question - 4) q);
                     question_class = read_u16 (drop (end_of_question - 2) q);
                     answer_a = (question_type = DNS_TYPE_A \<and> question_class = DNS_CLASS_IN);
                     required = end_of_question + (if answer_a then DNS_A_ANSWER_SIZE else 0)
                 in if slen response < required then (DNS_NO_SPACE, response, Some 0)
                    else
                      let r1 = blit 0 (take end_of_question q) (sbytes response);
                          response_flags = 0x8400 OR (request_flags AND 0x0100);
                          r2 = blit 2 (write_u16 response_flags) r1;
                          r3 = blit 4 (write_u16 1) r2;
                          r4 = blit 6 (write_u16 (if answer_a then 1 else 0)) r3;
                          r5 = blit 8 (write_u16 0) r4;
                          r6 = blit 10 (write_u16 0) r5;
                          r7 = (if answer_a then write_answer end_of_question ipv4_network_order r6 else r6)
                      in (DNS_OK, Span r7, Some required))"

lemma dns_u16 [simp]: "read_u16 = load_u16_be" "write_u16 = store_u16_be"
  by (simp_all add: fun_eq_iff read_u16_def write_u16_def load_u16_be_def store_u16_be_def)

section \<open>The grammar of a question\<close>

definition label_ok :: "u8 list \<Rightarrow> bool" where
  "label_ok l \<longleftrightarrow> 1 \<le> length l \<and> length l \<le> 63"

definition name_wire :: "u8 list list \<Rightarrow> u8 list" where
  "name_wire labels = concat (map (\<lambda>l. of_nat (length l) # l) labels) @ [0]"

lemma name_wire_simps [simp]:
  "name_wire [] = [0]"
  "name_wire (l # labels) = of_nat (length l) # l @ name_wire labels"
  by (simp_all add: name_wire_def)

lemma label_octet:
  assumes "label_ok l"
  shows "unat (of_nat (length l) :: u8) = length l"
    and "(of_nat (length l) :: u8) \<noteq> 0"
    and "(of_nat (length l) :: u8) AND 0xc0 = 0"
    and "\<not> 63 < (of_nat (length l) :: u8)"
proof -
  let ?v = "of_nat (length l) :: u8"
  show u: "unat ?v = length l"
    using assms by (simp add: label_ok_def unat_of_nat take_bit_nat_eq_self)
  show "?v \<noteq> 0" using u assms by (auto simp: label_ok_def)
  show le: "\<not> 63 < ?v" using u assms by (simp add: label_ok_def word_less_nat_alt)
  have "unat ?v < 2 ^ 6" using u assms by (simp add: label_ok_def)
  then have "take_bit 6 ?v = ?v"
    by (metis take_bit_nat_eq_self unsigned_take_bit_eq word_unat_eq_iff)
  then have m: "?v AND mask 6 = ?v" by (simp only: take_bit_eq_mask)
  have "?v AND 0xc0 = (?v AND mask 6) AND 0xc0" by (simp only: m)
  also have "\<dots> = ?v AND (mask 6 AND 0xc0)" by (simp only: and.assoc)
  also have "(mask 6 AND 0xc0 :: u8) = 0" by (simp add: mask_eq_exp_minus_1)
  finally show "?v AND 0xc0 = 0" by simp
qed

lemma question_end_sound:
  "question_end_from query cursor = e \<Longrightarrow> e \<noteq> 0 \<Longrightarrow>
   \<exists>labels trailer rest. drop cursor query = name_wire labels @ trailer @ rest
     \<and> length trailer = 4 \<and> list_all label_ok labels \<and> e = cursor + length (name_wire labels) + 4"
proof (induction query cursor rule: question_end_from.induct)
  case (1 query cursor)
  let ?b = "query ! cursor"
  have c: "cursor < length query" using 1(2,3) by (auto simp: question_end_from.simps split: if_splits)
  then have d: "drop cursor query = ?b # drop (cursor + 1) query" by (simp add: Cons_nth_drop_Suc)
  show ?case
  proof (cases "?b = 0")
    case True
    with 1(2,3) c have e: "cursor + 5 \<le> length query" "e = cursor + 5"
      by (auto simp: question_end_from.simps [of query cursor] Let_def split: if_splits)
    then have "drop cursor query = name_wire [] @ take 4 (drop (cursor + 1) query) @ drop (cursor + 5) query"
      using d True append_take_drop_id [of 4 "drop (cursor + 1) query"] by (simp add: add.commute)
    then show ?thesis using e by (intro exI [of _ "[]"] exI [of _ "take 4 (drop (cursor + 1) query)"]
        exI [of _ "drop (cursor + 5) query"]) auto
  next
    case False
    let ?l = "take (unat ?b) (drop (cursor + 1) query)"
    from False 1(2,3) c have ok: "\<not> (?b AND 0xc0 \<noteq> 0 \<or> ?b > 63 \<or> cursor + 1 + unat ?b > length query)"
      and r: "question_end_from query (cursor + 1 + unat ?b) = e"
      by (auto simp: question_end_from.simps [of query cursor] Let_def split: if_splits)
    from 1(1) [OF c refl refl False ok r 1(3)] obtain labels trailer rest where ih:
      "drop (cursor + 1 + unat ?b) query = name_wire labels @ trailer @ rest" "length trailer = 4"
      "list_all label_ok labels" "e = cursor + 1 + unat ?b + length (name_wire labels) + 4"
      by auto
    from ok have len: "length ?l = unat ?b" by auto
    have "label_ok ?l" using ok False len by (simp add: label_ok_def word_less_nat_alt unat_gt_0 Suc_leI)
    moreover have "drop (cursor + 1) query = ?l @ drop (cursor + 1 + unat ?b) query"
      by (metis add.commute append_take_drop_id drop_drop)
    ultimately show ?thesis
      using d ih len by (intro exI [of _ "?l # labels"] exI [of _ trailer] exI [of _ rest]) auto
  qed
qed

lemma question_end_complete:
  "drop cursor query = name_wire labels @ trailer @ rest \<Longrightarrow> length trailer = 4 \<Longrightarrow>
   list_all label_ok labels \<Longrightarrow> question_end_from query cursor = cursor + length (name_wire labels) + 4"
proof (induction labels arbitrary: cursor)
  case Nil
  then have "cursor < length query" by (metis append_Cons drop_eq_Nil list.distinct(1) name_wire_simps(1) not_le)
  moreover from this have "query ! cursor = 0" "length (drop cursor query) = 5 + length rest"
    using Nil by (simp_all flip: hd_drop_conv_nth)
  ultimately show ?case by (simp add: question_end_from.simps)
next
  case (Cons l labels)
  then have ok: "label_ok l" by simp
  from Cons.prems have c: "cursor < length query"
    by (metis append_Cons drop_eq_Nil list.distinct(1) name_wire_simps(2) not_le)
  have d: "drop cursor query = query ! cursor # drop (cursor + 1) query"
    using c by (simp add: Cons_nth_drop_Suc)
  with Cons.prems have b: "query ! cursor = of_nat (length l)"
    and t: "drop (cursor + 1) query = l @ name_wire labels @ trailer @ rest" by auto
  from t have "drop (cursor + 1 + length l) query = name_wire labels @ trailer @ rest"
    by (metis add.commute append_eq_conv_conj drop_drop)
  with Cons have r: "question_end_from query (cursor + 1 + length l) = cursor + 1 + length l + length (name_wire labels) + 4"
    by simp
  have "length (drop (cursor + 1) query) \<ge> length l" using t by simp
  then have "cursor + 1 + length l \<le> length query" using c by simp
  then show ?case using r b c label_octet [OF ok]
    by (subst question_end_from.simps) (simp add: Let_def)
qed

section \<open>The answer\<close>

lemma blit_chain: "n = length p \<Longrightarrow> blit n xs (p @ t) = (p @ xs) @ drop (length xs) t"
  by (simp add: blit_def)

definition answer_record :: "u32 \<Rightarrow> u8 list" where
  "answer_record ip = [0xc0, 0x0c] @ store_u16_be DNS_TYPE_A @ store_u16_be DNS_CLASS_IN
     @ replicate 4 0 @ store_u16_be 4 @ store_u32_le ip"

lemma length_answer [simp]: "length (answer_record ip) = 16"
  by (simp add: answer_record_def)

lemma write_answer_eq:
  "length p = n \<Longrightarrow> write_answer n ip (p @ t) = p @ answer_record ip @ drop 16 t"
  by (simp add: write_answer_def Let_def blit_chain del: append_assoc)
    (simp add: answer_record_def)

definition dns_query ::
  "u8 list \<Rightarrow> u16 \<Rightarrow> u8 list \<Rightarrow> u8 list list \<Rightarrow> u16 \<Rightarrow> u16 \<Rightarrow> u8 list \<Rightarrow> u8 list" where
  "dns_query ident flags counts labels qtype qclass rest =
     ident @ store_u16_be flags @ store_u16_be 1 @ counts
     @ name_wire labels @ store_u16_be qtype @ store_u16_be qclass @ rest"

definition dns_reply :: "u8 list \<Rightarrow> u16 \<Rightarrow> u8 list list \<Rightarrow> u16 \<Rightarrow> u16 \<Rightarrow> u32 \<Rightarrow> u8 list" where
  "dns_reply ident flags labels qtype qclass ip =
     (let a = (qtype = DNS_TYPE_A \<and> qclass = DNS_CLASS_IN)
      in ident @ store_u16_be (0x8400 OR (flags AND 0x0100)) @ store_u16_be 1
         @ store_u16_be (if a then 1 else 0) @ store_u16_be 0 @ store_u16_be 0
         @ name_wire labels @ store_u16_be qtype @ store_u16_be qclass
         @ (if a then answer_record ip else []))"

definition header_ok :: "u8 list \<Rightarrow> u8 list \<Rightarrow> u8 list list \<Rightarrow> u16 \<Rightarrow> bool" where
  "header_ok ident counts labels flags \<longleftrightarrow>
     length ident = 2 \<and> length counts = 6 \<and> list_all label_ok labels \<and> flags AND 0xf800 = 0"

lemma flags_plain: "(flags :: u16) AND 0xf800 = 0 \<longleftrightarrow> flags AND 0x8000 = 0 \<and> flags AND 0x7800 = 0"
proof -
  have "flags AND 0xf800 = (flags AND 0x8000) OR (flags AND 0x7800)"
    by (simp flip: bit.conj_disj_distrib)
  then show ?thesis by (simp add: or_eq_0_iff)
qed

lemma header_blits:
  "blit 2 [x, y] (a # b # c # d # t) = a # b # x # y # t"
  "blit 4 [x, y] (a # b # c # d # e # f # t) = a # b # c # d # x # y # t"
  "blit 6 [x, y] (a # b # c # d # e # f # g # h # t) = a # b # c # d # e # f # x # y # t"
  "blit 8 [x, y] (a # b # c # d # e # f # g # h # i # j # t) =
     a # b # c # d # e # f # g # h # x # y # t"
  "blit 10 [x, y] (a # b # c # d # e # f # g # h # i # j # k # l # t) =
     a # b # c # d # e # f # g # h # i # j # x # y # t"
  by (simp_all add: blit_def)

lemma query_shape:
  assumes "header_ok ident counts labels flags"
  shows "\<exists>a b c d e f g h. ident = [a, b] \<and> counts = [c, d, e, f, g, h]"
  using assms by (auto simp: header_ok_def length_Suc_conv numeral_eq_Suc)

lemma question_end_query:
  assumes "header_ok ident counts labels flags"
  shows "question_end (dns_query ident flags counts labels qtype qclass rest) = 12 + length (name_wire labels) + 4"
proof -
  let ?q = "dns_query ident flags counts labels qtype qclass rest"
  have "drop 12 ?q = name_wire labels @ (store_u16_be qtype @ store_u16_be qclass) @ rest"
    using assms by (auto simp: header_ok_def dns_query_def)
  from question_end_complete [OF this] show ?thesis
    using assms by (simp add: question_end_def header_ok_def)
qed

lemma response_to_query:
  assumes ok: "header_ok ident counts labels flags"
  shows "captive_dns_build_response (Span (dns_query ident flags counts labels qtype qclass rest)) ip
      (Span out) (Some n) =
    (let reply = dns_reply ident flags labels qtype qclass ip in
     if length out < length reply then (DNS_NO_SPACE, Span out, Some 0)
     else (DNS_OK, Span (reply @ drop (length reply) out), Some (length reply)))"
proof -
  define q where "q = dns_query ident flags counts labels qtype qclass rest"
  define e where "e = 12 + length (name_wire labels) + 4"
  define a where "a \<longleftrightarrow> qtype = DNS_TYPE_A \<and> qclass = DNS_CLASS_IN"
  define head where "head = ident @ store_u16_be (0x8400 OR (flags AND 0x0100)) @ store_u16_be 1
         @ store_u16_be (if a then 1 else 0) @ store_u16_be 0 @ store_u16_be 0
         @ name_wire labels @ store_u16_be qtype @ store_u16_be qclass"
  define kept where "kept = ident @ store_u16_be flags @ store_u16_be 1 @ counts
      @ name_wire labels @ store_u16_be qtype @ store_u16_be qclass"
  obtain b0 b1 c d e' f g h where h: "ident = [b0, b1]" "counts = [c, d, e', f, g, h]"
    using query_shape [OF ok] by blast
  have behind: "drop 12 q = name_wire labels @ store_u16_be qtype @ store_u16_be qclass @ rest"
    by (simp add: q_def dns_query_def h)
  have at: "drop (e - 4) q = drop (length (name_wire labels)) (drop 12 q)"
    "drop (e - 2) q = drop (length (name_wire labels) + 2) (drop 12 q)"
    by (simp_all add: e_def add.commute)
  have reads: "load_u16_be (drop 2 q) = flags" "load_u16_be (drop 4 q) = 1"
    "load_u16_be (drop (e - 4) q) = qtype" "load_u16_be (drop (e - 2) q) = qclass"
    unfolding at behind by (simp_all add: q_def dns_query_def h)
  have "q = kept @ rest" "length kept = e"
    by (simp_all add: q_def kept_def e_def dns_query_def h)
  then have "take e q = kept" and "length (take e q) = e" by (metis append_eq_conv_conj)+
  then have copied: "blit 0 (take e q) out = kept @ drop e out" by (simp only: blit_0)
  have patch: "blit 10 (store_u16_be 0) (blit 8 (store_u16_be 0) (blit 6 (store_u16_be (if a then 1 else 0))
      (blit 4 (store_u16_be 1) (blit 2 (store_u16_be (0x8400 OR (flags AND 0x0100))) (kept @ t)))))
    = head @ t" for t
    by (simp add: h store_u16_be_def header_blits kept_def head_def)
  have reply: "dns_reply ident flags labels qtype qclass ip = head @ (if a then answer_record ip else [])"
    by (simp add: dns_reply_def head_def a_def Let_def)
  have len: "length head = e" "12 \<le> length q" "e \<noteq> 0"
    by (simp_all add: h head_def e_def q_def dns_query_def)
  have plain: "\<not> (flags AND 0x8000 \<noteq> 0 \<or> flags AND 0x7800 \<noteq> 0 \<or> (1 :: u16) \<noteq> 1)"
    using ok by (simp add: header_ok_def flags_plain)
  have "question_end q = e" using question_end_query [OF ok] by (simp add: q_def e_def)
  then have "captive_dns_build_response (Span q) ip (Span out) (Some n) =
    (if length out < e + (if a then 16 else 0) then (DNS_NO_SPACE, Span out, Some 0)
     else (DNS_OK, Span (if a then write_answer e ip (head @ drop e out) else head @ drop e out),
           Some (e + (if a then 16 else 0))))"
    using len plain patch [of "drop e out", folded copied] unfolding a_def
    by (simp only: captive_dns_build_response_def Let_def reads dns_u16 slen.simps sbytes.simps
        is_null.simps option.distinct simp_thms if_False not_le flip: a_def not_less)
  then show ?thesis
    using len(1) by (simp add: reply Let_def write_answer_eq add.commute flip: q_def)
qed

lemma accepted_query:
  assumes "fst (captive_dns_build_response (Span query) ip (Span out) (Some n)) = DNS_OK"
  shows "\<exists>ident flags counts labels qtype qclass rest.
    query = dns_query ident flags counts labels qtype qclass rest \<and> header_ok ident counts labels flags"
proof -
  let ?flags = "load_u16_be (drop 2 query)"
  from assms have len: "12 \<le> length query" and flags: "?flags AND 0xf800 = 0"
    and one: "load_u16_be (drop 4 query) = 1" and e: "question_end_from query 12 \<noteq> 0"
    by (auto simp: captive_dns_build_response_def Let_def flags_plain question_end_def split: if_splits)
  from question_end_sound [OF refl e] obtain labels trailer rest where
    q: "drop 12 query = name_wire labels @ trailer @ rest" "length trailer = 4" "list_all label_ok labels"
    by blast
  from len obtain b0 b1 b2 b3 b4 b5 c d e f g h t where
    bytes: "query = [b0, b1, b2, b3, b4, b5, c, d, e, f, g, h] @ t"
    using append_take_drop_id [of 12 query]
    by (auto simp: le_iff_add length_Suc_conv numeral_eq_Suc)
  from q(2) obtain t0 t1 t2 t3 where trailer: "trailer = [t0, t1, t2, t3]"
    by (auto simp: length_Suc_conv numeral_eq_Suc)
  have "trailer = store_u16_be (load_u16_be [t0, t1]) @ store_u16_be (load_u16_be [t2, t3])"
    by (simp add: trailer store_load_u16_be)
  moreover have "[b2, b3] = store_u16_be ?flags" "[b4, b5] = store_u16_be 1"
    by (simp_all add: bytes store_load_u16_be flip: one)
  moreover have "t = name_wire labels @ trailer @ rest" using q(1) by (simp add: bytes)
  ultimately have "query = dns_query [b0, b1] ?flags [c, d, e, f, g, h] labels
      (load_u16_be [t0, t1]) (load_u16_be [t2, t3]) rest"
    by (simp add: dns_query_def bytes)
  moreover have "header_ok [b0, b1] [c, d, e, f, g, h] labels ?flags"
    using q(3) flags by (simp add: header_ok_def)
  ultimately show ?thesis by blast
qed

text \<open>
  C19. The captive portal answers exactly the ordinary queries with one well formed question
  that leave room for the answer: the reply repeats the identifier, the name, the type and the
  class, keeps only the recursion flag, and carries the address of the portal with a zero time
  to live for A/IN questions and no answer otherwise; the bytes behind it are unchanged. Every
  other datagram leaves the output buffer alone and reports length zero.
\<close>

theorem captive_dns_exact:
  "(captive_dns_build_response (Span query) ip (Span out) (Some n) = (DNS_OK, Span out', Some n'))
     = (\<exists>ident flags counts labels qtype qclass rest.
          query = dns_query ident flags counts labels qtype qclass rest
          \<and> header_ok ident counts labels flags
          \<and> n' = length (dns_reply ident flags labels qtype qclass ip) \<and> n' \<le> length out
          \<and> out' = dns_reply ident flags labels qtype qclass ip @ drop n' out)
   \<and> (case captive_dns_build_response (Span query) ip (Span out) (Some n) of
        (status, response, response_size) \<Rightarrow> status = DNS_OK \<or> response = Span out \<and> response_size = Some 0)"
  (is "?accepted = ?spec \<and> ?other")
proof (rule conjI)
  show "?accepted = ?spec"
  proof
    assume ?accepted
    moreover from this obtain ident flags counts labels qtype qclass rest where
      q: "query = dns_query ident flags counts labels qtype qclass rest" "header_ok ident counts labels flags"
      using accepted_query [of query ip out n] by auto
    ultimately show ?spec
      using response_to_query [OF q(2), of qtype qclass rest ip out n]
      by (intro exI [of _ ident] exI [of _ flags] exI [of _ counts] exI [of _ labels] exI [of _ qtype]
          exI [of _ qclass] exI [of _ rest]) (auto simp: Let_def split: if_splits)
  next
    assume ?spec
    then show ?accepted by (auto simp: response_to_query Let_def)
  qed
  show ?other by (simp add: captive_dns_build_response_def Let_def)
qed

end
