(* ===== verification/Usb_Control.thy ===== *)
theory Usb_Control
  imports Revlink_Prelude
begin

text \<open>
  The USB link control (revlink_usb_control/revlink_usb_control.c): it sequences the data switch
  and the VBUS switch through the driver's callbacks. The callbacks act on a world of type
  \<open>'w\<close>; a call through a callback that was never set is \<open>the None\<close>, about which nothing is
  known, and the initialisation refuses such a configuration.
\<close>

section \<open>Data\<close>

datatype usb_status = USB_OK | USB_INVALID_ARGUMENT | USB_INVALID_STATE | USB_DRIVER_ERROR

datatype usb_link_state = LINK_UNINITIALIZED | LINK_ISOLATED | LINK_ATTACHING | LINK_ATTACHED
  | LINK_ISOLATING | LINK_FAULT

fun usb_control_state_name :: "usb_link_state \<Rightarrow> string" where
  "usb_control_state_name LINK_UNINITIALIZED = ''uninitialized''"
| "usb_control_state_name LINK_ISOLATED = ''isolated''"
| "usb_control_state_name LINK_ATTACHING = ''attaching''"
| "usb_control_state_name LINK_ATTACHED = ''attached''"
| "usb_control_state_name LINK_ISOLATING = ''isolating''"
| "usb_control_state_name LINK_FAULT = ''fault''"

text \<open>A value outside of the enumeration is \<open>VBUS_OTHER\<close>.\<close>

datatype vbus_mode = VBUS_SUPPLIED_BY_REVLINK | VBUS_EXTERNALLY_POWERED | VBUS_OTHER nat

type_synonym 'w set_output = "bool \<Rightarrow> 'w \<Rightarrow> bool \<times> 'w"

record 'w usb_config =
  ucfg_set_data_connected :: "'w set_output option"
  ucfg_set_vbus_enabled :: "'w set_output option"
  ucfg_delay :: "(u32 \<Rightarrow> 'w \<Rightarrow> 'w) option"
  ucfg_vbus_settle_ms :: u32
  ucfg_data_settle_ms :: u32
  ucfg_isolate_settle_ms :: u32

record usb_snapshot =
  us_state :: usb_link_state
  us_data_connected :: bool
  us_vbus_enabled :: bool
  us_vbus_mode :: vbus_mode

definition usb_snapshot_zero :: usb_snapshot where
  "usb_snapshot_zero = \<lparr>us_state = LINK_UNINITIALIZED, us_data_connected = False,
     us_vbus_enabled = False, us_vbus_mode = VBUS_SUPPLIED_BY_REVLINK\<rparr>"

record 'w usb_control =
  uctl_config :: "'w usb_config"
  uctl_snapshot :: usb_snapshot
  uctl_initialized :: bool

section \<open>The operations\<close>

fun valid_mode :: "vbus_mode \<Rightarrow> bool" where
  "valid_mode VBUS_SUPPLIED_BY_REVLINK = True"
| "valid_mode VBUS_EXTERNALLY_POWERED = True"
| "valid_mode (VBUS_OTHER n) = False"

definition delay_if_requested :: "'w usb_config \<Rightarrow> u32 \<Rightarrow> 'w \<Rightarrow> 'w" where
  "delay_if_requested cfg delay_ms w = (if delay_ms \<noteq> 0 then the (ucfg_delay cfg) delay_ms w else w)"

definition enter_fault :: "usb_snapshot \<Rightarrow> usb_snapshot" where
  "enter_fault s = s\<lparr>us_state := LINK_FAULT\<rparr>"

text \<open>The body behind the argument check, on the snapshot and the world.\<close>

definition isolate_outputs :: "'w usb_config \<Rightarrow> usb_snapshot \<Rightarrow> 'w \<Rightarrow> usb_status \<times> usb_snapshot \<times> 'w" where
  "isolate_outputs cfg s w =
     (let s1 = s\<lparr>us_state := LINK_ISOLATING\<rparr>;
          (data_disabled, w1) = the (ucfg_set_data_connected cfg) False w;
          s2 = (if data_disabled then s1\<lparr>us_data_connected := False\<rparr> else s1);
          w2 = delay_if_requested cfg (ucfg_isolate_settle_ms cfg) w1;
          (vbus_disabled, w3) = the (ucfg_set_vbus_enabled cfg) False w2;
          s3 = (if vbus_disabled then s2\<lparr>us_vbus_enabled := False\<rparr> else s2)
      in if \<not> data_disabled \<or> \<not> vbus_disabled then (USB_DRIVER_ERROR, enter_fault s3, w3)
         else (USB_OK, s3\<lparr>us_state := LINK_ISOLATED, us_vbus_mode := VBUS_SUPPLIED_BY_REVLINK\<rparr>, w3))"

definition usb_control_force_isolate ::
  "'w usb_control option \<Rightarrow> 'w \<Rightarrow> usb_status \<times> 'w usb_control option \<times> 'w" where
  "usb_control_force_isolate control w =
     (case control of
        None \<Rightarrow> (USB_INVALID_STATE, control, w)
      | Some c \<Rightarrow>
          if \<not> uctl_initialized c then (USB_INVALID_STATE, control, w)
          else case isolate_outputs (uctl_config c) (uctl_snapshot c) w of
            (status, s, w') \<Rightarrow> (status, Some (c\<lparr>uctl_snapshot := s\<rparr>), w'))"

definition usb_control_init ::
  "'w usb_control option \<Rightarrow> 'w usb_config option \<Rightarrow> 'w \<Rightarrow> usb_status \<times> 'w usb_control option \<times> 'w" where
  "usb_control_init control config w =
     (case (control, config) of
        (Some c, Some cfg) \<Rightarrow>
          if ucfg_set_data_connected cfg = None \<or> ucfg_set_vbus_enabled cfg = None \<or> ucfg_delay cfg = None
          then (USB_INVALID_ARGUMENT, control, w)
          else usb_control_force_isolate
            (Some \<lparr>uctl_config = cfg, uctl_snapshot = usb_snapshot_zero, uctl_initialized = True\<rparr>) w
      | _ \<Rightarrow> (USB_INVALID_ARGUMENT, control, w))"

text \<open>The three error exits of \<open>attach\<close>: fault, isolate, and fault again.\<close>

definition attach_failed :: "'w usb_config \<Rightarrow> usb_snapshot \<Rightarrow> 'w \<Rightarrow> usb_status \<times> usb_snapshot \<times> 'w" where
  "attach_failed cfg s w =
     (case isolate_outputs cfg (enter_fault s) w of
        (_, s', w') \<Rightarrow> (USB_DRIVER_ERROR, enter_fault s', w'))"

definition attach_data :: "'w usb_config \<Rightarrow> usb_snapshot \<Rightarrow> 'w \<Rightarrow> usb_status \<times> usb_snapshot \<times> 'w" where
  "attach_data cfg s w =
     (case the (ucfg_set_data_connected cfg) True w of
        (connected, w1) \<Rightarrow>
          if \<not> connected then attach_failed cfg s w1
          else (USB_OK, s\<lparr>us_data_connected := True, us_state := LINK_ATTACHED\<rparr>,
                delay_if_requested cfg (ucfg_data_settle_ms cfg) w1))"

definition attach_outputs ::
  "'w usb_config \<Rightarrow> usb_snapshot \<Rightarrow> vbus_mode \<Rightarrow> 'w \<Rightarrow> usb_status \<times> usb_snapshot \<times> 'w" where
  "attach_outputs cfg s mode w =
     (let s1 = s\<lparr>us_state := LINK_ATTACHING, us_vbus_mode := mode\<rparr> in
      if mode = VBUS_SUPPLIED_BY_REVLINK
      then case the (ucfg_set_vbus_enabled cfg) True w of
        (enabled, w1) \<Rightarrow>
          if \<not> enabled then attach_failed cfg s1 w1
          else attach_data cfg (s1\<lparr>us_vbus_enabled := True\<rparr>)
                 (delay_if_requested cfg (ucfg_vbus_settle_ms cfg) w1)
      else case the (ucfg_set_vbus_enabled cfg) False w of
        (disabled, w1) \<Rightarrow>
          if \<not> disabled then attach_failed cfg s1 w1
          else attach_data cfg (s1\<lparr>us_vbus_enabled := False\<rparr>) w1)"

definition usb_control_attach ::
  "'w usb_control option \<Rightarrow> vbus_mode \<Rightarrow> 'w \<Rightarrow> usb_status \<times> 'w usb_control option \<times> 'w" where
  "usb_control_attach control mode w =
     (case control of
        None \<Rightarrow> (USB_INVALID_STATE, control, w)
      | Some c \<Rightarrow>
          if \<not> uctl_initialized c then (USB_INVALID_STATE, control, w)
          else if \<not> valid_mode mode then (USB_INVALID_ARGUMENT, control, w)
          else if us_state (uctl_snapshot c) \<noteq> LINK_ISOLATED then (USB_INVALID_STATE, control, w)
          else case attach_outputs (uctl_config c) (uctl_snapshot c) mode w of
            (status, s, w') \<Rightarrow> (status, Some (c\<lparr>uctl_snapshot := s\<rparr>), w'))"

definition usb_control_isolate ::
  "'w usb_control option \<Rightarrow> 'w \<Rightarrow> usb_status \<times> 'w usb_control option \<times> 'w" where
  "usb_control_isolate control w =
     (case control of
        None \<Rightarrow> (USB_INVALID_STATE, control, w)
      | Some c \<Rightarrow>
          if \<not> uctl_initialized c then (USB_INVALID_STATE, control, w)
          else if us_state (uctl_snapshot c) = LINK_ISOLATED then (USB_OK, control, w)
          else if us_state (uctl_snapshot c) \<noteq> LINK_ATTACHED then (USB_INVALID_STATE, control, w)
          else usb_control_force_isolate control w)"

definition usb_control_snapshot :: "'w usb_control option \<Rightarrow> usb_snapshot" where
  "usb_control_snapshot control =
     (case control of
        None \<Rightarrow> usb_snapshot_zero
      | Some c \<Rightarrow> if uctl_initialized c then uctl_snapshot c else usb_snapshot_zero)"

section \<open>The driver and the link\<close>

text \<open>
  What the hardware promises: a switch that reports success has the requested position, one that
  reports failure is where it was, and neither the other switch nor a delay moves it.
\<close>

definition driver_ok :: "'w usb_config \<Rightarrow> ('w \<Rightarrow> bool) \<Rightarrow> ('w \<Rightarrow> bool) \<Rightarrow> bool" where
  "driver_ok cfg data_pin vbus_pin \<longleftrightarrow>
     (\<exists>set_data set_vbus wait.
        ucfg_set_data_connected cfg = Some set_data \<and> ucfg_set_vbus_enabled cfg = Some set_vbus
        \<and> ucfg_delay cfg = Some wait
        \<and> (\<forall>on w r w'. set_data on w = (r, w') \<longrightarrow>
             data_pin w' = (if r then on else data_pin w) \<and> vbus_pin w' = vbus_pin w)
        \<and> (\<forall>on w r w'. set_vbus on w = (r, w') \<longrightarrow>
             vbus_pin w' = (if r then on else vbus_pin w) \<and> data_pin w' = data_pin w)
        \<and> (\<forall>ms w. data_pin (wait ms w) = data_pin w \<and> vbus_pin (wait ms w) = vbus_pin w))"

datatype usb_call = Attach vbus_mode | Isolate | Force_Isolate

fun usb_call_step :: "'w usb_control option \<times> 'w \<Rightarrow> usb_call \<Rightarrow> 'w usb_control option \<times> 'w" where
  "usb_call_step (c, w) (Attach mode) = snd (usb_control_attach c mode w)"
| "usb_call_step (c, w) Isolate = snd (usb_control_isolate c w)"
| "usb_call_step (c, w) Force_Isolate = snd (usb_control_force_isolate c w)"

text \<open>What the published state means for the two switches.\<close>

definition link_truth :: "('w \<Rightarrow> bool) \<Rightarrow> ('w \<Rightarrow> bool) \<Rightarrow> usb_snapshot \<Rightarrow> 'w \<Rightarrow> bool" where
  "link_truth data_pin vbus_pin s w \<longleftrightarrow>
     us_data_connected s = data_pin w \<and> us_vbus_enabled s = vbus_pin w
     \<and> (case us_state s of
          LINK_ISOLATED \<Rightarrow> \<not> data_pin w \<and> \<not> vbus_pin w
        | LINK_ATTACHED \<Rightarrow> data_pin w \<and> vbus_pin w = (us_vbus_mode s = VBUS_SUPPLIED_BY_REVLINK)
        | LINK_FAULT \<Rightarrow> True
        | _ \<Rightarrow> False)"

definition link_inv ::
  "'w usb_config \<Rightarrow> ('w \<Rightarrow> bool) \<Rightarrow> ('w \<Rightarrow> bool) \<Rightarrow> 'w usb_control option \<times> 'w \<Rightarrow> bool" where
  "link_inv cfg data_pin vbus_pin cw \<longleftrightarrow>
     driver_ok cfg data_pin vbus_pin \<and>
     (\<exists>c w. cw = (Some c, w) \<and> uctl_initialized c \<and> uctl_config c = cfg
        \<and> link_truth data_pin vbus_pin (uctl_snapshot c) w)"

definition link_fresh ::
  "'w usb_config \<Rightarrow> ('w \<Rightarrow> bool) \<Rightarrow> ('w \<Rightarrow> bool) \<Rightarrow> 'w usb_control option \<times> 'w \<Rightarrow> bool" where
  "link_fresh cfg data_pin vbus_pin cw \<longleftrightarrow>
     driver_ok cfg data_pin vbus_pin
     \<and> (\<exists>c w. usb_control_init c (Some cfg) w = (USB_OK, cw))"

text \<open>Isolating and attaching from switches whose positions the snapshot knows.\<close>

definition flags_true :: "('w \<Rightarrow> bool) \<Rightarrow> ('w \<Rightarrow> bool) \<Rightarrow> usb_snapshot \<Rightarrow> 'w \<Rightarrow> bool" where
  "flags_true data_pin vbus_pin s w \<longleftrightarrow>
     us_data_connected s = data_pin w \<and> us_vbus_enabled s = vbus_pin w"

lemma flags_true_fault [simp]:
  "flags_true dp vp (enter_fault s) w = flags_true dp vp s w" "us_state (enter_fault s) = LINK_FAULT"
  by (simp_all add: flags_true_def enter_fault_def)

lemma driver_laws:
  assumes "driver_ok cfg dp vp"
  shows "the (ucfg_set_data_connected cfg) on w = (r, w') \<Longrightarrow> dp w' = (if r then on else dp w) \<and> vp w' = vp w"
    and "the (ucfg_set_vbus_enabled cfg) on w = (r, w') \<Longrightarrow> vp w' = (if r then on else vp w) \<and> dp w' = dp w"
    and "dp (delay_if_requested cfg ms w) = dp w" and "vp (delay_if_requested cfg ms w) = vp w"
proof -
  from assms obtain d v t where cfg: "ucfg_set_data_connected cfg = Some d"
    "ucfg_set_vbus_enabled cfg = Some v" "ucfg_delay cfg = Some t"
    and d: "\<And>on w r w'. d on w = (r, w') \<Longrightarrow> dp w' = (if r then on else dp w) \<and> vp w' = vp w"
    and v: "\<And>on w r w'. v on w = (r, w') \<Longrightarrow> vp w' = (if r then on else vp w) \<and> dp w' = dp w"
    and t: "\<And>ms w. dp (t ms w) = dp w \<and> vp (t ms w) = vp w"
    unfolding driver_ok_def by blast
  show "the (ucfg_set_data_connected cfg) on w = (r, w') \<Longrightarrow> dp w' = (if r then on else dp w) \<and> vp w' = vp w"
    using d by (simp add: cfg)
  show "the (ucfg_set_vbus_enabled cfg) on w = (r, w') \<Longrightarrow> vp w' = (if r then on else vp w) \<and> dp w' = dp w"
    using v by (simp add: cfg)
  show "dp (delay_if_requested cfg ms w) = dp w" and "vp (delay_if_requested cfg ms w) = vp w"
    using t by (simp_all add: cfg delay_if_requested_def)
qed

lemma isolate_outcome:
  assumes "driver_ok cfg dp vp" and "isolate_outputs cfg s w = (status, s', w')"
  shows "(status = USB_OK \<and> us_state s' = LINK_ISOLATED \<and> flags_true dp vp s' w' \<and> \<not> dp w' \<and> \<not> vp w')
      \<or> (status = USB_DRIVER_ERROR \<and> us_state s' = LINK_FAULT
        \<and> (flags_true dp vp s w \<longrightarrow> flags_true dp vp s' w') \<and> (dp w' \<longrightarrow> dp w) \<and> (vp w' \<longrightarrow> vp w))"
proof -
  obtain a w1 where a: "the (ucfg_set_data_connected cfg) False w = (a, w1)" by fastforce
  define w2 where "w2 = delay_if_requested cfg (ucfg_isolate_settle_ms cfg) w1"
  obtain b w3 where b: "the (ucfg_set_vbus_enabled cfg) False w2 = (b, w3)" by fastforce
  note laws = driver_laws [OF assms(1)]
  have "dp w1 = (if a then False else dp w) \<and> vp w1 = vp w" "dp w2 = dp w1" "vp w2 = vp w1"
    "vp w3 = (if b then False else vp w2) \<and> dp w3 = dp w2"
    using laws(1) [OF a] laws(2) [OF b] laws(3,4) by (simp_all add: w2_def)
  then show ?thesis
    using assms(2) by (cases a; cases b)
      (auto simp: isolate_outputs_def a b flags_true_def enter_fault_def simp flip: w2_def)
qed

lemma attach_failed_outcome:
  assumes "driver_ok cfg dp vp" and "flags_true dp vp s w" and "attach_failed cfg s w = (status, s', w')"
  shows "status = USB_DRIVER_ERROR \<and> us_state s' = LINK_FAULT \<and> flags_true dp vp s' w' \<and> (dp w' \<longrightarrow> dp w)"
proof -
  obtain st s1 w1 where i: "isolate_outputs cfg (enter_fault s) w = (st, s1, w1)" by (metis prod_cases3)
  from assms(3) have "status = USB_DRIVER_ERROR" "s' = enter_fault s1" "w' = w1"
    by (simp_all add: attach_failed_def i)
  then show ?thesis using isolate_outcome [OF assms(1) i] assms(2) by auto
qed

lemma attach_data_outcome:
  assumes "driver_ok cfg dp vp" and "flags_true dp vp s w" and "\<not> dp w"
    and "attach_data cfg s w = (status, s', w')"
  shows "flags_true dp vp s' w' \<and>
    (status = USB_OK \<and> us_state s' = LINK_ATTACHED \<and> dp w' \<and> vp w' = vp w \<and> us_vbus_mode s' = us_vbus_mode s
     \<or> status = USB_DRIVER_ERROR \<and> us_state s' = LINK_FAULT \<and> \<not> dp w')"
proof -
  obtain a w1 where a: "the (ucfg_set_data_connected cfg) True w = (a, w1)" by fastforce
  have w1: "dp w1 = (if a then True else dp w)" "vp w1 = vp w"
    using driver_laws(1) [OF assms(1) a] by simp_all
  show ?thesis
  proof (cases a)
    case True
    then show ?thesis using assms(2,4) w1 driver_laws(3,4) [OF assms(1)]
      by (auto simp: attach_data_def a flags_true_def)
  next
    case False
    then have "attach_failed cfg s w1 = (status, s', w')" "flags_true dp vp s w1" "\<not> dp w1"
      using assms w1 by (auto simp: attach_data_def a flags_true_def)
    with attach_failed_outcome [OF assms(1)] show ?thesis by blast
  qed
qed

lemma attach_outcome:
  assumes ok: "driver_ok cfg dp vp" and s: "flags_true dp vp s w" "\<not> dp w"
    and r: "attach_outputs cfg s mode w = (status, s', w')"
  shows "flags_true dp vp s' w' \<and>
    (status = USB_OK \<and> us_state s' = LINK_ATTACHED \<and> dp w'
       \<and> vp w' = (mode = VBUS_SUPPLIED_BY_REVLINK) \<and> us_vbus_mode s' = mode
     \<or> status = USB_DRIVER_ERROR \<and> us_state s' = LINK_FAULT \<and> \<not> dp w')"
proof -
  define on where "on = (mode = VBUS_SUPPLIED_BY_REVLINK)"
  define s1 where "s1 = s\<lparr>us_state := LINK_ATTACHING, us_vbus_mode := mode\<rparr>"
  obtain b w1 where b: "the (ucfg_set_vbus_enabled cfg) on w = (b, w1)" by fastforce
  have w1: "vp w1 = (if b then on else vp w)" "\<not> dp w1"
    using driver_laws(2) [OF ok b] s by simp_all
  show ?thesis
  proof (cases b)
    case False
    with r b have "attach_failed cfg s1 w1 = (status, s', w')"
      by (cases on) (auto simp: attach_outputs_def on_def s1_def)
    moreover have "flags_true dp vp s1 w1" using s w1 False by (simp add: flags_true_def s1_def)
    ultimately show ?thesis using attach_failed_outcome [OF ok] w1(2) by blast
  next
    case True
    define w2 where "w2 = (if on then delay_if_requested cfg (ucfg_vbus_settle_ms cfg) w1 else w1)"
    have w2: "dp w2 = dp w1" "vp w2 = vp w1" using driver_laws(3,4) [OF ok] by (simp_all add: w2_def)
    have "attach_data cfg (s1\<lparr>us_vbus_enabled := on\<rparr>) w2 = (status, s', w')"
      using r b True by (cases on) (auto simp: attach_outputs_def on_def s1_def w2_def)
    moreover have "flags_true dp vp (s1\<lparr>us_vbus_enabled := on\<rparr>) w2"
      using s w1 w2 True by (simp add: flags_true_def s1_def)
    ultimately have "flags_true dp vp s' w' \<and>
      (status = USB_OK \<and> us_state s' = LINK_ATTACHED \<and> dp w' \<and> vp w' = vp w2
         \<and> us_vbus_mode s' = us_vbus_mode (s1\<lparr>us_vbus_enabled := on\<rparr>)
       \<or> status = USB_DRIVER_ERROR \<and> us_state s' = LINK_FAULT \<and> \<not> dp w')"
      using attach_data_outcome [OF ok] w1(2) w2 by blast
    then show ?thesis using w1 w2 True by (auto simp: s1_def on_def)
  qed
qed

lemma truth_flags: "link_truth dp vp s w \<Longrightarrow> flags_true dp vp s w"
  by (simp add: link_truth_def flags_true_def)

lemma outputs_truth:
  assumes "driver_ok cfg dp vp"
  shows "link_truth dp vp s w \<Longrightarrow> isolate_outputs cfg s w = (status, s', w') \<Longrightarrow> link_truth dp vp s' w'"
    and "link_truth dp vp s w \<Longrightarrow> us_state s = LINK_ISOLATED \<Longrightarrow>
      attach_outputs cfg s mode w = (status, s', w') \<Longrightarrow> link_truth dp vp s' w'"
    and "isolate_outputs cfg s w = (USB_OK, s', w') \<Longrightarrow> link_truth dp vp s' w'"
proof -
  show "link_truth dp vp s w \<Longrightarrow> isolate_outputs cfg s w = (status, s', w') \<Longrightarrow> link_truth dp vp s' w'"
    using isolate_outcome [OF assms, of s w status s' w'] truth_flags [of dp vp s w]
    by (auto simp: link_truth_def flags_true_def)
  show "link_truth dp vp s w \<Longrightarrow> us_state s = LINK_ISOLATED \<Longrightarrow>
      attach_outputs cfg s mode w = (status, s', w') \<Longrightarrow> link_truth dp vp s' w'"
    using attach_outcome [OF assms, of s w mode status s' w'] truth_flags [of dp vp s w]
    by (auto simp: link_truth_def flags_true_def)
  show "isolate_outputs cfg s w = (USB_OK, s', w') \<Longrightarrow> link_truth dp vp s' w'"
    using isolate_outcome [OF assms, of s w USB_OK s' w'] by (auto simp: link_truth_def flags_true_def)
qed

lemma link_fresh_inv: "link_fresh cfg dp vp cw \<Longrightarrow> link_inv cfg dp vp cw"
  by (auto simp: link_fresh_def link_inv_def usb_control_init_def usb_control_force_isolate_def
      outputs_truth(3) split: option.splits if_splits prod.splits)

lemma link_inv_step:
  assumes "link_inv cfg dp vp cw"
  shows "link_inv cfg dp vp (usb_call_step cw call)"
proof -
  from assms obtain c w where cw: "cw = (Some c, w)" "uctl_initialized c" "uctl_config c = cfg"
    and ok: "driver_ok cfg dp vp" and t: "link_truth dp vp (uctl_snapshot c) w"
    by (auto simp: link_inv_def)
  have inv: "link_inv cfg dp vp (Some (c\<lparr>uctl_snapshot := s'\<rparr>), w')" if "link_truth dp vp s' w'" for s' w'
    using cw ok that by (simp add: link_inv_def)
  have force: "link_inv cfg dp vp (snd (usb_control_force_isolate (Some c) w))"
    using cw inv outputs_truth(1) [OF ok t]
    by (auto simp: usb_control_force_isolate_def split: prod.splits)
  show ?thesis
  proof (cases call)
    case (Attach mode)
    then show ?thesis using cw assms inv outputs_truth(2) [OF ok t]
      by (auto simp: usb_control_attach_def split: prod.splits)
  next
    case Isolate
    then show ?thesis using cw assms force by (simp add: usb_control_isolate_def)
  qed (use cw force in simp)
qed

interpretation usb: event_machine usb_call_step "link_fresh cfg dp vp" "link_inv cfg dp vp" for cfg dp vp
  by unfold_locales (fact link_fresh_inv, fact link_inv_step)

text \<open>
  With a driver whose switches do what they report, the published link state is the truth
  about the hardware: after a successful initialisation and any calls the flags are the
  positions of the two switches, an isolated link has both open, and an attached link has the
  data connected and VBUS on exactly when RevLink supplies it. An attach succeeds into that
  state, or it fails with the data lines disconnected and the link in fault, or it is refused
  and touches nothing.
\<close>

lemma usb_link_truthful:
  assumes "driver_ok cfg data_pin vbus_pin"
    and "usb_control_init c0 (Some cfg) w0 = (USB_OK, c1, w1)"
    and "foldl usb_call_step (c1, w1) calls = (c, w)"
  shows "link_truth data_pin vbus_pin (usb_control_snapshot c) w \<and>
    (case usb_control_attach c mode w of
       (status, c', w') \<Rightarrow>
         if status = USB_OK
         then us_state (usb_control_snapshot c') = LINK_ATTACHED \<and> data_pin w'
              \<and> vbus_pin w' = (mode = VBUS_SUPPLIED_BY_REVLINK)
         else if status = USB_DRIVER_ERROR
         then us_state (usb_control_snapshot c') = LINK_FAULT \<and> \<not> data_pin w'
         else c' = c \<and> w' = w)"
proof -
  have "link_fresh cfg data_pin vbus_pin (c1, w1)" using assms(1,2) by (auto simp: link_fresh_def)
  from usb.run_inv [OF this, of calls] obtain k where k: "c = Some k" "uctl_initialized k" "uctl_config k = cfg"
    and t: "link_truth data_pin vbus_pin (uctl_snapshot k) w"
    unfolding assms(3) link_inv_def by auto
  have off: "\<not> data_pin w" if "us_state (uctl_snapshot k) = LINK_ISOLATED"
    using t that by (simp add: link_truth_def)
  show ?thesis
    using k t off attach_outcome [OF assms(1) truth_flags [OF t] off]
    by (auto simp: usb_control_attach_def usb_control_snapshot_def split: prod.splits)
qed

definition sample_usb_config :: "(bool \<times> bool) usb_config" where
  "sample_usb_config = \<lparr>ucfg_set_data_connected = Some (\<lambda>on (d, v). (True, on, v)),
     ucfg_set_vbus_enabled = Some (\<lambda>on (d, v). if on then (False, d, v) else (True, d, False)),
     ucfg_delay = Some (\<lambda>ms w. w), ucfg_vbus_settle_ms = 50, ucfg_data_settle_ms = 0,
     ucfg_isolate_settle_ms = 10\<rparr>"

lemma sample_driver: "driver_ok sample_usb_config fst snd"
  by (auto simp: driver_ok_def sample_usb_config_def split: if_splits)

theorem usb_link_truthful_witness:
  "case usb_control_init (Some \<lparr>uctl_config = sample_usb_config, uctl_snapshot = usb_snapshot_zero,
       uctl_initialized = False\<rparr>) (Some sample_usb_config) (True, True) of
     (status, c1, w1) \<Rightarrow> status = USB_OK \<and>
       (case foldl usb_call_step (c1, w1) [Attach VBUS_EXTERNALLY_POWERED, Isolate] of
          (c, w) \<Rightarrow> us_state (usb_control_snapshot c) = LINK_ISOLATED \<and> \<not> fst w
            \<and> (case usb_control_attach c VBUS_SUPPLIED_BY_REVLINK w of
                 (status', c', w') \<Rightarrow> status' = USB_DRIVER_ERROR \<and> \<not> fst w'))"
proof -
  let ?raw = "Some \<lparr>uctl_config = sample_usb_config, uctl_snapshot = usb_snapshot_zero,
    uctl_initialized = False\<rparr>"
  let ?run = "\<lambda>c1 w1. foldl usb_call_step (c1, w1) [Attach VBUS_EXTERNALLY_POWERED, Isolate]"
  obtain c1 w1 where init: "usb_control_init ?raw (Some sample_usb_config) (True, True) = (USB_OK, c1, w1)"
    by (simp add: usb_control_init_def usb_control_force_isolate_def isolate_outputs_def
        sample_usb_config_def delay_if_requested_def)
  obtain c w where run: "?run c1 w1 = (c, w)" by (rule prod.exhaust)
  from init run have known: "us_state (usb_control_snapshot c) = LINK_ISOLATED"
    "fst (usb_control_attach c VBUS_SUPPLIED_BY_REVLINK w) = USB_DRIVER_ERROR"
    by (auto simp: usb_control_init_def usb_control_force_isolate_def isolate_outputs_def
        sample_usb_config_def delay_if_requested_def usb_control_attach_def attach_outputs_def
        attach_data_def attach_failed_def usb_control_isolate_def usb_control_snapshot_def)
  from usb_link_truthful [OF sample_driver init run, of VBUS_SUPPLIED_BY_REVLINK] known init run
  show ?thesis by (auto simp: link_truth_def split: prod.splits)
qed

end
