(* ===== verification/Local_Identity.thy ===== *)
theory Local_Identity
  imports Text_Codec
begin

text \<open>
  The names of the device (revlink_identity/revlink_identity.c): the network name, host name and
  address text derived from the hardware MAC, and the random device identifier with its check.
  The identifier's format is shown to be exactly what the check accepts, and the derived names
  are shown to tell devices and collision indices apart.
\<close>

section \<open>The operations\<close>

abbreviation (input) IDENTITY_RANDOM_BYTES :: nat where "IDENTITY_RANDOM_BYTES \<equiv> 16"
abbreviation (input) IDENTITY_DEVICE_ID_CAPACITY :: nat where "IDENTITY_DEVICE_ID_CAPACITY \<equiv> 36"

definition UPPER_HEX :: "u8 list" where
  "UPPER_HEX = ascii ''0123456789ABCDEF''"

definition upper_hex_byte :: "u8 \<Rightarrow> u8 list" where
  "upper_hex_byte b = [UPPER_HEX ! unat (drop_bit 4 b), UPPER_HEX ! unat (b AND 0x0f)]"

definition mac_colons :: "u8 list \<Rightarrow> u8 list" where
  "mac_colons mac = hex_byte (mac ! 0) @ 58 # hex_byte (mac ! 1) @ 58 # hex_byte (mac ! 2)
     @ 58 # hex_byte (mac ! 3) @ 58 # hex_byte (mac ! 4) @ 58 # hex_byte (mac ! 5)"

definition name_suffix :: "u16 \<Rightarrow> u8 list" where
  "name_suffix collision_index = (if collision_index = 0 then [] else 45 # dec_text (unat collision_index))"

definition ssid_text :: "u8 list \<Rightarrow> u16 \<Rightarrow> u8 list" where
  "ssid_text mac collision_index =
     ascii ''RevLink-'' @ concat (map (\<lambda>i. upper_hex_byte (mac ! i)) [2, 3, 4, 5]) @ name_suffix collision_index"

definition hostname_text :: "u8 list \<Rightarrow> u16 \<Rightarrow> u8 list" where
  "hostname_text mac collision_index =
     ascii ''revlink-'' @ concat (map (\<lambda>i. hex_byte (mac ! i)) [2, 3, 4, 5]) @ name_suffix collision_index"

text \<open>The result is the return value and the three output buffers, truncated ones included.\<close>

definition identity_format_local ::
  "u8 list option \<Rightarrow> u16 \<Rightarrow> u8 span \<Rightarrow> u8 span \<Rightarrow> u8 span \<Rightarrow> bool \<times> u8 span \<times> u8 span \<times> u8 span" where
  "identity_format_local hardware_mac collision_index ssid hostname mac_text =
     (if hardware_mac = None \<or> is_null ssid \<or> is_null hostname \<or> is_null mac_text \<or> collision_index = 1
      then (False, ssid, hostname, mac_text)
      else if length (name_suffix collision_index) \<ge> 8 then (False, ssid, hostname, mac_text)
      else
        let mac = the hardware_mac;
            (ssid', ssid_length) = snprintf_into (sbytes ssid) (ssid_text mac collision_index);
            (hostname', hostname_length) = snprintf_into (sbytes hostname) (hostname_text mac collision_index);
            (mac', mac_length) = snprintf_into (sbytes mac_text) (mac_colons mac)
        in (ssid_length > 0 \<and> hostname_length > 0 \<and> mac_length > 0
              \<and> ssid_length < slen ssid \<and> hostname_length < slen hostname \<and> mac_length < slen mac_text,
            Span ssid', Span hostname', Span mac'))"

fun write_hex_digits :: "nat \<Rightarrow> u8 list \<Rightarrow> u8 list \<Rightarrow> u8 list" where
  "write_hex_digits index [] device_id = device_id"
| "write_hex_digits index (b # bytes) device_id =
     write_hex_digits (index + 1) bytes
       (blit (4 + index * 2) [HEX ! unat (b AND 0x0f)]
         (blit (3 + index * 2) [HEX ! unat (drop_bit 4 b)] device_id))"

definition identity_format_device_id :: "u8 list option \<Rightarrow> u8 span \<Rightarrow> bool \<times> u8 span" where
  "identity_format_device_id random_bytes device_id =
     (if random_bytes = None \<or> is_null device_id \<or> slen device_id < IDENTITY_DEVICE_ID_CAPACITY
      then (False, device_id)
      else
        let d1 = blit 0 (ascii ''r1_'') (sbytes device_id);
            d2 = write_hex_digits 0 (take IDENTITY_RANDOM_BYTES (the random_bytes)) d1
        in (True, Span (blit (IDENTITY_DEVICE_ID_CAPACITY - 1) [0] d2)))"

definition lower_hex_digit :: "u8 \<Rightarrow> bool" where
  "lower_hex_digit v \<longleftrightarrow> (v \<ge> 48 \<and> v \<le> 57) \<or> (v \<ge> 97 \<and> v \<le> 102)"

text \<open>The argument is the memory at the pointer.\<close>

definition identity_device_id_valid :: "u8 list option \<Rightarrow> bool" where
  "identity_device_id_valid device_id =
     (case device_id of
        None \<Rightarrow> False
      | Some d \<Rightarrow>
          if strnlen d (IDENTITY_DEVICE_ID_CAPACITY + 1) \<noteq> IDENTITY_DEVICE_ID_CAPACITY - 1
             \<or> take 3 d \<noteq> ascii ''r1_'' then False
          else list_all (\<lambda>index. lower_hex_digit (d ! index)) [3..<IDENTITY_DEVICE_ID_CAPACITY - 1])"

section \<open>The device identifier\<close>

lemma length_hex_byte [simp]: "length (hex_byte b) = 2" "length (upper_hex_byte b) = 2"
  by (simp_all add: hex_byte_def upper_hex_byte_def)

lemma write_hex_digits_text:
  "length p = 3 + 2 * k \<Longrightarrow>
   write_hex_digits k bytes (p @ t) = p @ hex_text bytes @ drop (2 * length bytes) t"
proof (induction bytes arbitrary: k p t)
  case (Cons b bytes)
  have "blit (4 + k * 2) [HEX ! unat (b AND 0x0f)] (blit (3 + k * 2) [HEX ! unat (drop_bit 4 b)] (p @ t))
    = (p @ hex_byte b) @ drop 2 t"
    using Cons.prems by (simp add: blit_def hex_byte_def numeral_eq_Suc)
  then show ?case using Cons.IH [of "p @ hex_byte b" "k + 1" "drop 2 t"] Cons.prems
    by (simp add: hex_text_def)
qed (simp add: hex_text_def)

lemma format_device_id:
  assumes "length bytes = 16"
  shows "identity_format_device_id (Some bytes) (Span buf) =
    (if length buf < 36 then (False, Span buf)
     else (True, Span (ascii ''r1_'' @ hex_text bytes @ 0 # drop 36 buf)))"
proof -
  have "write_hex_digits 0 bytes (ascii ''r1_'' @ t) = ascii ''r1_'' @ hex_text bytes @ drop 32 t" for t
    using write_hex_digits_text [of "ascii ''r1_''" 0 bytes t] assms by simp
  moreover have "blit 35 [0] (ascii ''r1_'' @ hex_text bytes @ t) = ascii ''r1_'' @ hex_text bytes @ 0 # drop 1 t" for t
    using assms by (simp add: blit_def)
  ultimately show ?thesis
    using assms by (simp add: identity_format_device_id_def blit_0 Let_def del: ascii_simps)
qed

lemma unat_of_nat_u8: "m < 256 \<Longrightarrow> unat (of_nat m :: u8) = m"
  by (simp add: unat_of_nat take_bit_nat_eq_self)

lemma HEX_nth:
  assumes "n < 16"
  shows "HEX ! n = (if n < 10 then of_nat (48 + n) else of_nat (87 + n))"
proof -
  have "n \<in> set [0, 1, 2, 3, 4, 5, 6, 7, 8, 9, 10, 11, 12, 13, 14, 15]"
    using assms by (simp, presburger)
  then show ?thesis by (auto simp: HEX_def)
qed

lemma lower_hex_digit_unat: "lower_hex_digit v \<longleftrightarrow> (48 \<le> unat v \<and> unat v \<le> 57) \<or> (97 \<le> unat v \<and> unat v \<le> 102)"
  by (simp add: lower_hex_digit_def word_le_nat_alt)

lemma unat_HEX: "n < 16 \<Longrightarrow> unat (HEX ! n) = (if n < 10 then 48 + n else 87 + n)"
  using unat_of_nat_u8 [of "48 + n"] unat_of_nat_u8 [of "87 + n"] by (auto simp: HEX_nth)

lemma lower_hex_digit_HEX: "lower_hex_digit v \<longleftrightarrow> (\<exists>n < 16. v = HEX ! n)"
proof
  assume v: "lower_hex_digit v"
  define n where "n = (if unat v \<le> 57 then unat v - 48 else unat v - 87)"
  have "n < 16" "unat (HEX ! n) = unat v"
    using v unat_HEX [of n] by (auto simp: n_def lower_hex_digit_unat)
  then show "\<exists>n < 16. v = HEX ! n" by (metis word_unat_eq_iff)
qed (auto simp: lower_hex_digit_unat unat_HEX split: if_splits)

lemma hex_byte_nibbles:
  assumes "h < 16" and "l < 16"
  shows "hex_byte (of_nat (16 * h + l)) = [HEX ! h, HEX ! l]"
proof -
  let ?b = "of_nat (16 * h + l) :: u8"
  have u: "unat ?b = 16 * h + l" by (rule unat_of_nat_u8) (use assms in simp)
  have "unat (drop_bit 4 ?b) = h"
    using assms by (simp only: unat_drop_bit_eq u) (simp add: drop_bit_eq_div)
  moreover have "unat (?b AND 0x0f) = l"
    using assms by (simp only: low_nibble unsigned_take_bit_eq u) (simp add: take_bit_eq_mod)
  ultimately show ?thesis by (simp only: hex_byte_def)
qed

lemma hex_text_exact: "(\<exists>bytes. length bytes = k \<and> cs = hex_text bytes) \<longleftrightarrow> length cs = 2 * k \<and> list_all lower_hex_digit cs"
proof (induction k arbitrary: cs)
  case (Suc k)
  show ?case
  proof
    assume "\<exists>bytes. length bytes = Suc k \<and> cs = hex_text bytes"
    then obtain b bs where bs: "length bs = k" "cs = hex_byte b @ hex_text bs"
      by (auto simp: length_Suc_conv hex_text_def)
    with Suc [of "hex_text bs"] have "length (hex_text bs) = 2 * k" "list_all lower_hex_digit (hex_text bs)" by blast+
    moreover have "list_all lower_hex_digit (hex_byte b)"
      using nibbles [of b] by (auto simp: hex_byte_def lower_hex_digit_HEX)
    ultimately show "length cs = 2 * Suc k \<and> list_all lower_hex_digit cs" using bs by simp
  next
    assume cs: "length cs = 2 * Suc k \<and> list_all lower_hex_digit cs"
    then obtain x y ys where xs: "cs = x # y # ys" "length ys = 2 * k"
      by (auto simp: length_Suc_conv)
    with cs obtain h l where "h < 16" "x = HEX ! h" "l < 16" "y = HEX ! l"
      by (auto simp: lower_hex_digit_HEX)
    then have "hex_byte (of_nat (16 * h + l)) = [x, y]" using hex_byte_nibbles by simp
    moreover obtain bs where "length bs = k" "ys = hex_text bs" using Suc [of ys] xs cs by auto
    ultimately show "\<exists>bytes. length bytes = Suc k \<and> cs = hex_text bytes"
      using xs by (intro exI [of _ "of_nat (16 * h + l) # bs"]) (simp add: hex_text_def)
  qed
qed (auto simp: hex_text_def)

lemma slice_nths: "b \<le> length d \<Longrightarrow> drop a (take b d) = map ((!) d) [a..<b]"
  by (rule nth_equalityI) simp_all

lemma valid_device_id:
  "identity_device_id_valid (Some d) \<longleftrightarrow>
   (\<exists>bytes. length bytes = 16 \<and> c_str (take 37 d) = ascii ''r1_'' @ hex_text bytes)"
proof -
  let ?s = "c_str (take 37 d)"
  have "?s = take (length ?s) (take 37 d)" unfolding c_str_def by (rule takeWhile_eq_take)
  moreover have "length ?s \<le> 37" using strnlen_le [of d 37] by (simp add: strnlen_def)
  ultimately have prefix: "?s = take (length ?s) d" by (simp add: min_absorb1)
  have "identity_device_id_valid (Some d) \<longleftrightarrow>
    length ?s = 35 \<and> take 3 d = ascii ''r1_'' \<and> list_all (\<lambda>i. lower_hex_digit (d ! i)) [3..<35]"
    by (auto simp: identity_device_id_valid_def strnlen_def)
  also have "\<dots> \<longleftrightarrow> length ?s = 35 \<and> take 3 ?s = ascii ''r1_'' \<and> list_all lower_hex_digit (drop 3 ?s)"
  proof (cases "length ?s = 35")
    case True
    then have s: "?s = take 35 d" "35 \<le> length d"
      using prefix by (metis, metis length_take min.cobounded1)
    have "list_all (\<lambda>i. lower_hex_digit (d ! i)) [3..<35] \<longleftrightarrow> list_all lower_hex_digit (drop 3 (take 35 d))"
      by (simp only: slice_nths [OF s(2)] list.pred_map comp_def)
    then show ?thesis using True s by (simp del: ascii_simps)
  qed simp
  also have "\<dots> \<longleftrightarrow> (\<exists>bytes. length bytes = 16 \<and> ?s = ascii ''r1_'' @ hex_text bytes)"
  proof -
    have "?s = ascii ''r1_'' @ t \<longleftrightarrow> take 3 ?s = ascii ''r1_'' \<and> drop 3 ?s = t" for t
    proof -
      have "length (ascii ''r1_'') = 3" by simp
      with append_eq_conv_conj [of "ascii ''r1_''" t ?s] show ?thesis by metis
    qed
    then have "(\<exists>bytes. length bytes = 16 \<and> ?s = ascii ''r1_'' @ hex_text bytes) \<longleftrightarrow>
        take 3 ?s = ascii ''r1_'' \<and> (\<exists>bytes. length bytes = 16 \<and> drop 3 ?s = hex_text bytes)"
      by blast
    also have "\<dots> \<longleftrightarrow> take 3 ?s = ascii ''r1_'' \<and> length (drop 3 ?s) = 32 \<and> list_all lower_hex_digit (drop 3 ?s)"
      using hex_text_exact [of 16 "drop 3 ?s"] by simp
    finally show ?thesis by (auto simp del: ascii_simps)
  qed
  finally show ?thesis .
qed

lemma device_id_terminated:
  assumes "length bytes = 16"
  shows "c_str (take 37 (ascii ''r1_'' @ hex_text bytes @ 0 # rest)) = ascii ''r1_'' @ hex_text bytes"
proof -
  have "list_all lower_hex_digit (hex_text bytes)" using hex_text_exact [of 16 "hex_text bytes"] assms by blast
  then have "0 \<notin> set (ascii ''r1_'' @ hex_text bytes)" by (auto simp: list_all_iff lower_hex_digit_def)
  then show ?thesis using assms c_str_terminated [of "ascii ''r1_'' @ hex_text bytes"] by simp
qed

text \<open>
  The device identifier and its check agree exactly: sixteen random bytes give
  \<open>r1_\<close> and 32 lower case hexadecimal digits, terminated and with the rest of the buffer kept,
  whenever the buffer has room; a string passes the check if and only if it is the identifier
  of some sixteen bytes, and the identifier gives the bytes back.
\<close>

lemma identity_device_id_exact:
  assumes "length random = 16"
  shows "identity_format_device_id (Some random) (Span buf) =
      (if length buf < 36 then (False, Span buf)
       else (True, Span (ascii ''r1_'' @ hex_text random @ 0 # drop 36 buf)))"
    and "parse_hex (drop 3 (ascii ''r1_'' @ hex_text random)) 16 = Some random"
    and "identity_device_id_valid (Some memory) =
      (\<exists>bytes. length bytes = 16 \<and> c_str (take 37 memory) = ascii ''r1_'' @ hex_text bytes)"
  using assms by (simp add: format_device_id del: ascii_simps, simp add: parse_hex_roundtrip)
    (rule valid_device_id)

theorem identity_device_id_exact_witness:
  "identity_format_device_id (Some (replicate 16 0xa5)) (Span (replicate 40 1))
     = (True, Span (ascii ''r1_'' @ hex_text (replicate 16 0xa5) @ 0 # replicate 4 1))
   \<and> identity_device_id_valid (Some (ascii ''r1_'' @ hex_text (replicate 16 0xa5) @ [0]))"
proof (rule conjI)
  note exact = identity_device_id_exact [of "replicate 16 0xa5", OF length_replicate]
  show "identity_format_device_id (Some (replicate 16 0xa5)) (Span (replicate 40 1))
     = (True, Span (ascii ''r1_'' @ hex_text (replicate 16 0xa5) @ 0 # replicate 4 1))"
    using exact(1) [of "replicate 40 1"] by (simp del: ascii_simps)
  show "identity_device_id_valid (Some (ascii ''r1_'' @ hex_text (replicate 16 0xa5) @ [0]))"
    unfolding exact(3)
    using device_id_terminated [of "replicate 16 0xa5" "[]"]
    by (intro exI [of _ "replicate 16 0xa5"]) simp
qed

section \<open>The derived names\<close>

lemma dec_text_inj: "dec_text m = dec_text n \<Longrightarrow> m = n"
  by (metis dec_value_text)

lemma name_suffix_inj: "name_suffix i = name_suffix j \<Longrightarrow> i = j"
  by (auto simp: name_suffix_def word_unat_eq_iff split: if_splits dest!: dec_text_inj)

lemma hex_byte_inj [simp]: "hex_byte a @ xs = hex_byte b @ ys \<longleftrightarrow> a = b \<and> xs = ys"
proof -
  have "a = b" if "hex_byte a = hex_byte b"
    using that parse_hex_byte [of a "[]"] parse_hex_byte [of b "[]"] by simp
  then show ?thesis by auto
qed

text \<open>
  Two names are equal only for the same last four bytes of the address and the same collision
  index, so a collision is always resolved by another index.
\<close>

lemma hostname_inj:
  "hostname_text mac i = hostname_text mac' j \<Longrightarrow> i = j \<and> (\<forall>k \<in> {2, 3, 4, 5}. mac ! k = mac' ! k)"
  by (auto simp: hostname_text_def dest: name_suffix_inj)

end
