(* ===== verification/Credentials.thy ===== *)
theory Credentials
  imports Revlink_Prelude
begin

text \<open>
  The Wi-Fi credentials (revlink_credentials/revlink_credentials.c): the checks of a network name
  and a password and the copy into a fixed size record that is wiped first.
\<close>

abbreviation (input) WIFI_SSID_CAPACITY :: nat where "WIFI_SSID_CAPACITY \<equiv> 33"
abbreviation (input) WIFI_PASSWORD_CAPACITY :: nat where "WIFI_PASSWORD_CAPACITY \<equiv> 64"

record wifi_credentials =
  wc_ssid :: "u8 list"
  wc_password :: "u8 list"

definition printable_byte :: "u8 \<Rightarrow> bool" where
  "printable_byte character \<longleftrightarrow> \<not> (character < 0x20 \<or> character > 0x7e)"

definition printable_ascii :: "u8 list \<Rightarrow> nat \<Rightarrow> bool" where
  "printable_ascii value len = list_all printable_byte (take len value)"

fun wifi_credentials_clear :: "wifi_credentials option \<Rightarrow> wifi_credentials option" where
  "wifi_credentials_clear None = None"
| "wifi_credentials_clear (Some c) =
     Some \<lparr>wc_ssid = replicate WIFI_SSID_CAPACITY 0, wc_password = replicate WIFI_PASSWORD_CAPACITY 0\<rparr>"

definition wifi_password_valid :: "u8 list option \<Rightarrow> bool \<Rightarrow> bool" where
  "wifi_password_valid password allow_empty =
     (case password of
        None \<Rightarrow> False
      | Some p \<Rightarrow>
          let len = strnlen p WIFI_PASSWORD_CAPACITY in
          ((len = 0 \<and> allow_empty) \<or> (len \<ge> 8 \<and> len < WIFI_PASSWORD_CAPACITY))
          \<and> printable_ascii p len)"

definition wifi_credentials_assign ::
  "wifi_credentials option \<Rightarrow> u8 list option \<Rightarrow> u8 list option \<Rightarrow> bool \<times> wifi_credentials option" where
  "wifi_credentials_assign credentials ssid password =
     (case (credentials, ssid, password) of
        (Some c, Some s, Some p) \<Rightarrow>
          let ssid_length = strnlen s WIFI_SSID_CAPACITY;
              password_length = strnlen p WIFI_PASSWORD_CAPACITY
          in if ssid_length = 0 \<or> ssid_length \<ge> WIFI_SSID_CAPACITY \<or> \<not> printable_ascii s ssid_length
               \<or> \<not> wifi_password_valid password True
             then (False, credentials)
             else
               let cleared = the (wifi_credentials_clear credentials)
               in (True, Some (cleared\<lparr>wc_ssid := blit 0 (take ssid_length s) (wc_ssid cleared),
                                       wc_password := blit 0 (take password_length p) (wc_password cleared)\<rparr>))
      | _ \<Rightarrow> (False, credentials))"

section \<open>What is accepted and stored\<close>

lemma c_str_take: "c_str (take n xs) = take n (c_str xs)"
  unfolding c_str_def by (induction xs arbitrary: n) (auto simp: take_Cons')

lemma strnlen_c_str: "strnlen xs n = min n (length (c_str xs))"
  by (simp add: strnlen_def c_str_take min.commute)

lemma take_c_str: "n \<le> length (c_str xs) \<Longrightarrow> take n xs = take n (c_str xs)"
  unfolding c_str_def by (metis take_take min.absorb1 takeWhile_eq_take)

lemma take_c_str_all [simp]: "take (length (c_str xs)) xs = c_str xs"
  by (simp add: take_c_str)

lemma min_c_str [simp]: "min (length xs) (length (c_str xs)) = length (c_str xs)"
  unfolding c_str_def by (simp add: length_takeWhile_le)

lemma printable_c_str [simp]:
  "printable_ascii xs (length (c_str xs)) = list_all printable_byte (c_str xs)" "printable_ascii xs 0"
  by (simp_all add: printable_ascii_def)

definition ssid_ok :: "u8 list \<Rightarrow> bool" where
  "ssid_ok s \<longleftrightarrow> 1 \<le> length s \<and> length s \<le> 32 \<and> list_all printable_byte s"

definition password_ok :: "u8 list \<Rightarrow> bool" where
  "password_ok p \<longleftrightarrow> (p = [] \<or> 8 \<le> length p \<and> length p \<le> 63) \<and> list_all printable_byte p"

lemma password_valid_exact:
  "wifi_password_valid (Some p) allow_empty
     \<longleftrightarrow> password_ok (c_str p) \<and> (allow_empty \<or> c_str p \<noteq> [])"
  by (auto simp: wifi_password_valid_def password_ok_def Let_def strnlen_c_str min_def
      split: if_splits)

text \<open>
  Credentials are accepted exactly when the name has 1 to 32 and the password no or 8 to 63
  printable characters; accepted ones are stored terminated with every other byte of the record
  zero, whatever it held before, refused ones leave the record alone.
\<close>

lemma credentials_assign_exact:
  "wifi_credentials_assign (Some c) (Some s) (Some p) =
    (if ssid_ok (c_str s) \<and> password_ok (c_str p)
     then (True, Some \<lparr>wc_ssid = c_str s @ replicate (33 - length (c_str s)) 0,
                       wc_password = c_str p @ replicate (64 - length (c_str p)) 0\<rparr>)
     else (False, Some c))"
proof -
  have "ssid_ok (c_str s) \<longleftrightarrow> \<not> (strnlen s 33 = 0 \<or> strnlen s 33 \<ge> 33 \<or> \<not> printable_ascii s (strnlen s 33))"
    by (auto simp: ssid_ok_def strnlen_c_str min_def Suc_le_eq split: if_splits)
  moreover have "strnlen xs n = length (c_str xs)" if "length (c_str xs) < n" for xs :: "u8 list" and n
    using that by (simp add: strnlen_c_str)
  ultimately show ?thesis
    by (auto simp: wifi_credentials_assign_def Let_def password_valid_exact blit_0 ssid_ok_def password_ok_def)
qed

end
