(* ===== verification/Trusted_Time.thy ===== *)
theory Trusted_Time
  imports Revlink_Prelude
begin

text \<open>
  The wall clock service (revlink_time/revlink_time.c): an observation anchors UTC to the
  monotonic clock, a query extrapolates from the last anchor. The monotonic clock is a callback
  that reads the world. The three shared cells are atomics that another task may read between
  two stores; the second half models the stores and loads as single steps.
\<close>

section \<open>The operations\<close>

abbreviation (input) TIME_MINIMUM_TRUSTED_UTC :: u64 where "TIME_MINIMUM_TRUSTED_UTC \<equiv> 1577836800"

text \<open>A value above the last enumerator is \<open>TIME_OTHER\<close>.\<close>

datatype time_source = TIME_UNTRUSTED | TIME_CLIENT | TIME_NETWORK | TIME_RTC | TIME_OTHER nat

fun time_source_name :: "time_source \<Rightarrow> string" where
  "time_source_name TIME_CLIENT = ''client''"
| "time_source_name TIME_NETWORK = ''network''"
| "time_source_name TIME_RTC = ''rtc''"
| "time_source_name TIME_UNTRUSTED = ''untrusted''"
| "time_source_name (TIME_OTHER n) = ''untrusted''"

record 'w time_service =
  ts_monotonic_ms :: "('w \<Rightarrow> u64) option"
  ts_observed_utc :: u64
  ts_observed_monotonic_ms :: u64
  ts_source :: time_source

definition time_init ::
  "'w time_service option \<Rightarrow> ('w \<Rightarrow> u64) option option \<Rightarrow> bool \<times> 'w time_service option" where
  "time_init service config =
     (case (service, config) of
        (Some s, Some (Some clock)) \<Rightarrow>
          (True, Some \<lparr>ts_monotonic_ms = Some clock, ts_observed_utc = 0, ts_observed_monotonic_ms = 0,
                       ts_source = TIME_UNTRUSTED\<rparr>)
      | _ \<Rightarrow> (False, service))"

fun trusted_source :: "time_source \<Rightarrow> bool" where
  "trusted_source TIME_UNTRUSTED = False"
| "trusted_source (TIME_OTHER n) = False"
| "trusted_source _ = True"

definition time_observe ::
  "'w time_service option \<Rightarrow> time_source \<Rightarrow> u64 \<Rightarrow> 'w \<Rightarrow> bool \<times> 'w time_service option" where
  "time_observe service source utc_seconds w =
     (case service of
        None \<Rightarrow> (False, service)
      | Some s \<Rightarrow>
          (case ts_monotonic_ms s of
             None \<Rightarrow> (False, service)
           | Some clock \<Rightarrow>
               if \<not> trusted_source source \<or> utc_seconds < TIME_MINIMUM_TRUSTED_UTC then (False, service)
               else (True, Some (s\<lparr>ts_observed_monotonic_ms := clock w, ts_observed_utc := utc_seconds,
                                   ts_source := source\<rparr>))))"

text \<open>The extrapolation behind the loads; the result is the time and what is written to \<open>*source\<close>.\<close>

definition time_extrapolate :: "time_source \<Rightarrow> u64 \<Rightarrow> u64 \<Rightarrow> u64 \<Rightarrow> u64 \<times> time_source" where
  "time_extrapolate observed_source utc anchor monotonic =
     (if monotonic < anchor then (0, TIME_UNTRUSTED)
      else
        let elapsed_seconds = (monotonic - anchor) div 1000
        in if utc > - 1 - elapsed_seconds then (0, TIME_UNTRUSTED)
           else (utc + elapsed_seconds, observed_source))"

definition time_now :: "'w time_service option \<Rightarrow> 'w \<Rightarrow> u64 \<times> time_source" where
  "time_now service w =
     (case service of
        None \<Rightarrow> (0, TIME_UNTRUSTED)
      | Some s \<Rightarrow>
          (case ts_monotonic_ms s of
             None \<Rightarrow> (0, TIME_UNTRUSTED)
           | Some clock \<Rightarrow>
               if ts_source s = TIME_UNTRUSTED then (0, TIME_UNTRUSTED)
               else time_extrapolate (ts_source s) (ts_observed_utc s) (ts_observed_monotonic_ms s) (clock w)))"

section \<open>The reported time\<close>

lemma unat_complement_u64: "unat (- 1 - (a :: u64)) = 2 ^ 64 - 1 - unat a"
proof -
  have "unat (- 1 :: u64) = 2 ^ 64 - 1"
    using unsigned_minus_1_eq_mask [where 'a = nat and 'b = 64] by (simp add: mask_eq_exp_minus_1)
  then show ?thesis by (simp add: unat_sub word_order.extremum)
qed

lemma extrapolate_value:
  "time_extrapolate src utc anchor monotonic =
    (let t = unat utc + (unat monotonic - unat anchor) div 1000 in
     if anchor \<le> monotonic \<and> t < 2 ^ 64 then (of_nat t, src) else (0, TIME_UNTRUSTED))"
proof (cases "monotonic < anchor")
  case False
  define e where "e = (monotonic - anchor) div 1000"
  have e: "unat e = (unat monotonic - unat anchor) div 1000"
    using False by (simp add: e_def unat_div unat_sub not_less)
  have "unat e < 2 ^ 64" using unsigned_less [of e] by simp
  then have "utc > - 1 - e \<longleftrightarrow> \<not> unat utc + unat e < 2 ^ 64"
    by (simp only: word_less_nat_alt unat_complement_u64) linarith
  moreover have "of_nat (unat utc + unat e) = utc + e" by simp
  ultimately show ?thesis using False
    unfolding time_extrapolate_def Let_def e [symmetric] e_def [symmetric] by (simp add: not_less leD)
qed (auto simp: time_extrapolate_def Let_def)

text \<open>The last accepted observation of a history, with the clock reading it was anchored to.\<close>

fun last_accepted :: "('w \<Rightarrow> u64) \<Rightarrow> (time_source \<times> u64 \<times> 'w) list \<Rightarrow> (time_source \<times> u64 \<times> u64) option" where
  "last_accepted clock [] = None"
| "last_accepted clock ((src, utc, w) # later) =
     (case last_accepted clock later of
        Some o' \<Rightarrow> Some o'
      | None \<Rightarrow> if trusted_source src \<and> utc \<ge> TIME_MINIMUM_TRUSTED_UTC then Some (src, utc, clock w) else None)"

definition observe_all :: "'w time_service option \<Rightarrow> (time_source \<times> u64 \<times> 'w) list \<Rightarrow> 'w time_service option" where
  "observe_all s os = foldl (\<lambda>s (src, utc, w). snd (time_observe s src utc w)) s os"

lemma observe_all_Cons: "observe_all s ((src, utc, w) # os) = observe_all (snd (time_observe s src utc w)) os"
  by (simp add: observe_all_def)

lemma observe_all_last:
  assumes "ts_monotonic_ms s = Some clock"
  shows "observe_all (Some s) os =
    (case last_accepted clock os of
       None \<Rightarrow> Some s
     | Some (src, utc, anchor) \<Rightarrow>
         Some (s\<lparr>ts_observed_monotonic_ms := anchor, ts_observed_utc := utc, ts_source := src\<rparr>))"
  using assms
proof (induction os arbitrary: s)
  case (Cons o' os)
  obtain src utc w where o': "o' = (src, utc, w)" by (metis prod_cases3)
  let ?s = "s\<lparr>ts_observed_monotonic_ms := clock w, ts_observed_utc := utc, ts_source := src\<rparr>"
  have "ts_monotonic_ms ?s = Some clock" using Cons.prems by simp
  from Cons.IH [OF this] Cons.IH [OF Cons.prems] show ?case
    using Cons.prems by (auto simp: o' observe_all_Cons time_observe_def split: option.splits)
qed (simp add: observe_all_def)

lemma last_accepted_trusted:
  "last_accepted clock os = Some (src, utc, anchor) \<Longrightarrow> trusted_source src \<and> utc \<ge> TIME_MINIMUM_TRUSTED_UTC"
  by (induction os) (auto split: option.splits if_splits)

text \<open>
  After any observations since the start, the clock reports the last accepted one advanced
  by the whole seconds the monotonic clock has counted since, with its source; it reports zero
  and no source before the first accepted observation, when the monotonic clock is behind the
  anchor, and when the sum does not fit in 64 bits.
\<close>

lemma time_now_exact:
  "time_now (observe_all (snd (time_init (Some s) (Some (Some clock)))) os) w =
    (case last_accepted clock os of
       None \<Rightarrow> (0, TIME_UNTRUSTED)
     | Some (src, utc, anchor) \<Rightarrow>
         (let t = unat utc + (unat (clock w) - unat anchor) div 1000 in
          if anchor \<le> clock w \<and> t < 2 ^ 64 then (of_nat t, src) else (0, TIME_UNTRUSTED)))"
proof -
  obtain s0 where s0: "time_init (Some s) (Some (Some clock)) = (True, Some s0)"
    "ts_monotonic_ms s0 = Some clock" "ts_source s0 = TIME_UNTRUSTED"
    by (auto simp: time_init_def)
  show ?thesis
    using last_accepted_trusted [of clock os]
    by (cases "last_accepted clock os")
      (auto simp: s0 observe_all_last [OF s0(2)] time_now_def extrapolate_value split: prod.splits)
qed

section \<open>Stores and loads as single steps\<close>

text \<open>
  An observation is three stores, anchor first and source last; a query loads the source first,
  then the time, then the anchor, and then reads the clock. The loads of a query may fall
  between the stores of an observation made by another task.
\<close>

record time_cells =
  cell_utc :: u64
  cell_anchor :: u64
  cell_source :: time_source

definition observe_stores :: "time_source \<Rightarrow> u64 \<Rightarrow> u64 \<Rightarrow> (time_cells \<Rightarrow> time_cells) list" where
  "observe_stores source utc monotonic =
     [\<lambda>c. c\<lparr>cell_anchor := monotonic\<rparr>, \<lambda>c. c\<lparr>cell_utc := utc\<rparr>, \<lambda>c. c\<lparr>cell_source := source\<rparr>]"

text \<open>The cells after the first \<open>k\<close> stores.\<close>

definition cells_after :: "time_cells \<Rightarrow> (time_cells \<Rightarrow> time_cells) list \<Rightarrow> nat \<Rightarrow> time_cells" where
  "cells_after c stores k = foldl (\<lambda>c store. store c) c (take k stores)"

text \<open>A query whose three loads see the cells after \<open>i\<close>, \<open>j\<close> and \<open>k\<close> of the stores.\<close>

definition now_loads ::
  "time_cells \<Rightarrow> (time_cells \<Rightarrow> time_cells) list \<Rightarrow> nat \<Rightarrow> nat \<Rightarrow> nat \<Rightarrow> u64 \<Rightarrow> u64 \<times> time_source" where
  "now_loads c stores i j k monotonic =
     (let observed_source = cell_source (cells_after c stores i)
      in if observed_source = TIME_UNTRUSTED then (0, TIME_UNTRUSTED)
         else time_extrapolate observed_source (cell_utc (cells_after c stores j))
           (cell_anchor (cells_after c stores k)) monotonic)"

text \<open>
  The first observation is published safely: a query that overlaps it reports nothing or the
  whole observation.
\<close>

lemma first_observation_atomic:
  assumes "cell_source c = TIME_UNTRUSTED" and "i \<le> j" and "j \<le> k"
  shows "now_loads c (observe_stores src utc stamp) i j k monotonic \<in>
    {(0, TIME_UNTRUSTED), time_extrapolate src utc stamp monotonic}"
proof (cases "i < 3")
  case True
  then have "i = 0 \<or> i = 1 \<or> i = 2" by linarith
  then show ?thesis using assms(1)
    by (auto simp: now_loads_def cells_after_def observe_stores_def numeral_eq_Suc)
next
  case False
  then have "cells_after c (observe_stores src utc stamp) n = \<lparr>cell_utc = utc, cell_anchor = stamp, cell_source = src\<rparr>"
    if "n \<ge> i" for n
    using that by (cases c) (simp add: cells_after_def observe_stores_def)
  then show ?thesis using assms(2,3) by (simp add: now_loads_def)
qed

text \<open>
  A later observation is not: a query between its first two stores pairs the old time with the
  new anchor and reports a time that lies behind by all the seconds since the old anchor, here
  an hour, although nothing was wrong with either observation.
\<close>

lemma later_observation_torn:
  "let c = \<lparr>cell_utc = 1700000000, cell_anchor = 1000, cell_source = TIME_CLIENT\<rparr>;
       stores = observe_stores TIME_NETWORK 1700003600 3601000
   in now_loads c stores 0 0 0 3601000 = (1700003600, TIME_CLIENT)
      \<and> now_loads c stores 0 0 1 3601000 = (1700000000, TIME_CLIENT)
      \<and> now_loads c stores 3 3 3 3601000 = (1700003600, TIME_NETWORK)"
  by (simp add: now_loads_def cells_after_def observe_stores_def extrapolate_value Let_def
      time_extrapolate_def)

end
