(* ===== verification/Status_Model.thy ===== *)
theory Status_Model
  imports Device_Service Sync_Coordinator Network_Coordinator
begin

text \<open>
  The status model (revlink_status/revlink_status_model.c): the latest snapshots of the device,
  the synchronisation and the network, and the one screen they amount to. \<open>size_t\<close> has 32 bits,
  so sums and products of counters are taken modulo \<open>2 ^ 32\<close>.
\<close>

section \<open>Data\<close>

datatype status_kind = STATUS_BOOTING | STATUS_WAITING | STATUS_INSPECTING | STATUS_READY
  | STATUS_SYNC_QUEUED | STATUS_SYNCING | STATUS_RECOVERING | STATUS_COMPLETE | STATUS_CANCELLING
  | STATUS_WIFI_RECONNECTING | STATUS_ATTENTION

abbreviation (input) VEHICLE_LABEL_CAPACITY :: nat where "VEHICLE_LABEL_CAPACITY \<equiv> 24"
abbreviation (input) PART_NUMBER_CAPACITY :: nat where "PART_NUMBER_CAPACITY \<equiv> 24"
abbreviation (input) CONNECTED_LABEL_CAPACITY :: nat where "CONNECTED_LABEL_CAPACITY \<equiv> 36"

record status_model =
  sm_device :: device_snapshot
  sm_network :: net_snapshot
  sm_sync :: sync_snapshot
  sm_vehicle_label :: "u8 list"
  sm_part_number :: "u8 list"
  sm_connected_label :: "u8 list"
  sm_boot_complete :: bool

record status_view =
  sv_kind :: status_kind
  sv_headline :: "u8 list"
  sv_detail :: "u8 list"
  sv_footer :: "u8 list"
  sv_progress_percent :: u8
  sv_countdown_seconds :: u16
  sv_show_progress :: bool
  sv_progress_indeterminate :: bool

section \<open>Progress\<close>

definition sync_progress :: "sync_snapshot \<Rightarrow> u8" where
  "sync_progress sync =
     (if ss_state sync = SYNC_COMPLETED then 100
      else if ss_candidates sync = 0 then 0
      else
        let finished = (ss_downloaded sync + ss_skipped sync) mod 2 ^ 32;
            finished' = (if finished > ss_candidates sync then ss_candidates sync else finished)
        in of_nat ((finished' * 100) mod 2 ^ 32 div ss_candidates sync))"

definition network_progress :: "net_snapshot \<Rightarrow> u8" where
  "network_progress network =
     (if ns_phase_timeout_ms network = 0 then 0
      else
        let elapsed = (if ns_phase_elapsed_ms network > ns_phase_timeout_ms network
                       then ns_phase_timeout_ms network else ns_phase_elapsed_ms network)
        in ucast ((ucast elapsed * 100 :: u64) div ucast (ns_phase_timeout_ms network)))"

definition network_seconds_remaining :: "net_snapshot \<Rightarrow> u16" where
  "network_seconds_remaining network =
     (if ns_phase_timeout_ms network = 0 \<or> ns_phase_elapsed_ms network \<ge> ns_phase_timeout_ms network
      then 0
      else
        let remaining = ns_phase_timeout_ms network - ns_phase_elapsed_ms network;
            seconds = remaining div 1000 + (if remaining mod 1000 = 0 then 0 else 1)
        in if seconds > 0xffff then 0xffff else ucast seconds)"

section \<open>The setters\<close>

definition status_model_zero :: status_model where
  "status_model_zero = \<lparr>sm_device = snapshot_zero, sm_network = net_snapshot_zero,
     sm_sync = sync_snapshot_zero, sm_vehicle_label = replicate VEHICLE_LABEL_CAPACITY 0,
     sm_part_number = replicate PART_NUMBER_CAPACITY 0,
     sm_connected_label = replicate CONNECTED_LABEL_CAPACITY 0, sm_boot_complete = False\<rparr>"

fun status_model_init :: "status_model option \<Rightarrow> status_model option" where
  "status_model_init None = None"
| "status_model_init (Some m) =
     Some (status_model_zero
       \<lparr>sm_device := (sm_device status_model_zero)\<lparr>sn_state := DEV_STOPPED\<rparr>,
        sm_sync := (sm_sync status_model_zero)\<lparr>ss_state := SYNC_IDLE\<rparr>\<rparr>)"

definition status_model_set_boot_complete :: "status_model option \<Rightarrow> bool \<Rightarrow> status_model option" where
  "status_model_set_boot_complete model complete = map_option (\<lambda>m. m\<lparr>sm_boot_complete := complete\<rparr>) model"

fun status_model_set_device :: "status_model option \<Rightarrow> device_snapshot option \<Rightarrow> status_model option" where
  "status_model_set_device (Some m) (Some s) = Some (m\<lparr>sm_device := s\<rparr>)"
| "status_model_set_device model _ = model"

fun status_model_set_sync :: "status_model option \<Rightarrow> sync_snapshot option \<Rightarrow> status_model option" where
  "status_model_set_sync (Some m) (Some s) = Some (m\<lparr>sm_sync := s\<rparr>)"
| "status_model_set_sync model _ = model"

fun status_model_set_network :: "status_model option \<Rightarrow> net_snapshot option \<Rightarrow> status_model option" where
  "status_model_set_network (Some m) (Some s) = Some (m\<lparr>sm_network := s\<rparr>)"
| "status_model_set_network model _ = model"

text \<open>\<open>strstr\<close> as an offset.\<close>

fun strstr :: "u8 list \<Rightarrow> u8 list \<Rightarrow> nat option" where
  "strstr [] needle = (if needle = [] then Some 0 else None)"
| "strstr (h # hay) needle =
     (if take (length needle) (h # hay) = needle then Some 0 else map_option Suc (strstr hay needle))"

definition VEHICLE_SUFFIXES :: "u8 list list" where
  "VEHICLE_SUFFIXES = [ascii '' COBB'', ascii '' CCF'', ascii '' ACCESSPORT'']"

definition cut_suffix :: "u8 list \<Rightarrow> nat \<Rightarrow> u8 list \<Rightarrow> nat" where
  "cut_suffix vehicle source_length suffix =
     (case strstr vehicle suffix of
        Some offset \<Rightarrow> if offset < source_length then offset else source_length
      | None \<Rightarrow> source_length)"

fun trim_spaces :: "u8 list \<Rightarrow> nat \<Rightarrow> nat" where
  "trim_spaces vehicle 0 = 0"
| "trim_spaces vehicle (Suc n) = (if vehicle ! n = 32 then trim_spaces vehicle n else Suc n)"

fun back_to_space :: "u8 list \<Rightarrow> nat \<Rightarrow> nat" where
  "back_to_space vehicle 0 = 0"
| "back_to_space vehicle (Suc n) = (if vehicle ! Suc n \<noteq> 32 then back_to_space vehicle n else Suc n)"

definition vehicle_label_length :: "u8 list \<Rightarrow> nat" where
  "vehicle_label_length vehicle =
     (let source_length = foldl (cut_suffix vehicle) (length vehicle) VEHICLE_SUFFIXES;
          source_length = trim_spaces vehicle source_length
      in if source_length \<ge> VEHICLE_LABEL_CAPACITY
         then
           let shortened = back_to_space vehicle (VEHICLE_LABEL_CAPACITY - 1)
           in if shortened = 0 then VEHICLE_LABEL_CAPACITY - 1 else shortened
         else source_length)"

text \<open>The arguments of the text setters are the memory at the pointer.\<close>

definition status_model_set_vehicle :: "status_model option \<Rightarrow> u8 list option \<Rightarrow> status_model option" where
  "status_model_set_vehicle model vehicle =
     (case model of
        None \<Rightarrow> None
      | Some m \<Rightarrow>
          let m = m\<lparr>sm_vehicle_label := replicate VEHICLE_LABEL_CAPACITY 0\<rparr>
          in (case vehicle of
                None \<Rightarrow> Some m
              | Some memory \<Rightarrow>
                  let v = c_str memory in
                  if v = [] then Some m
                  else
                    let source_length = vehicle_label_length v
                    in Some (m\<lparr>sm_vehicle_label :=
                         blit source_length [0] (blit 0 (take source_length v) (sm_vehicle_label m))\<rparr>)))"

definition status_model_set_part_number :: "status_model option \<Rightarrow> u8 list option \<Rightarrow> status_model option" where
  "status_model_set_part_number model part_number =
     (case model of
        None \<Rightarrow> None
      | Some m \<Rightarrow>
          let cleared = m\<lparr>sm_part_number := replicate PART_NUMBER_CAPACITY 0,
                          sm_connected_label := replicate CONNECTED_LABEL_CAPACITY 0\<rparr>
          in (case part_number of
                None \<Rightarrow> Some cleared
              | Some memory \<Rightarrow>
                  let source_length = strnlen memory PART_NUMBER_CAPACITY
                  in if source_length = 0 \<or> source_length \<ge> PART_NUMBER_CAPACITY then Some cleared
                     else
                       let part = blit source_length [0]
                             (blit 0 (take source_length memory) (sm_part_number cleared));
                           (label, count) = snprintf_into (sm_connected_label cleared)
                             (c_str part @ ascii '' CONNECTED'')
                       in if count = 0 \<or> count \<ge> CONNECTED_LABEL_CAPACITY then Some cleared
                          else Some (cleared\<lparr>sm_part_number := part, sm_connected_label := label\<rparr>)))"

section \<open>The view\<close>

definition screen :: "status_kind \<Rightarrow> string \<Rightarrow> string \<Rightarrow> string \<Rightarrow> status_view" where
  "screen kind headline detail footer =
     \<lparr>sv_kind = kind, sv_headline = ascii headline, sv_detail = ascii detail,
      sv_footer = ascii footer, sv_progress_percent = 0, sv_countdown_seconds = 0,
      sv_show_progress = False, sv_progress_indeterminate = False\<rparr>"

definition label_or :: "u8 list \<Rightarrow> string \<Rightarrow> u8 list" where
  "label_or label fallback = (if c_str label \<noteq> [] then c_str label else ascii fallback)"

text \<open>The screens of an operation that is under way.\<close>

definition active_sync_view :: "sync_snapshot \<Rightarrow> status_view option" where
  "active_sync_view sync =
     (case ss_state sync of
        SYNC_QUEUED \<Rightarrow> Some ((screen STATUS_SYNC_QUEUED ''SYNC QUEUED'' ''PREPARING BACKUP'' ''PLEASE WAIT'')
          \<lparr>sv_show_progress := True, sv_progress_indeterminate := True\<rparr>)
      | SYNC_RUNNING \<Rightarrow>
          if ss_close_recovery_attempt sync
          then Some ((screen STATUS_RECOVERING ''RECOVERING'' ''SAFE USB CLOSE'' ''KEEP CONNECTED'')
            \<lparr>sv_show_progress := True, sv_progress_indeterminate := True\<rparr>)
          else Some ((screen STATUS_SYNCING ''SYNCING'' ''BACKING UP LOGS'' ''KEEP CONNECTED'')
            \<lparr>sv_progress_percent := sync_progress sync, sv_show_progress := True,
             sv_progress_indeterminate := (ss_candidates sync = 0)\<rparr>)
      | SYNC_CANCELLING \<Rightarrow> Some ((screen STATUS_CANCELLING ''FINISHING'' ''CLOSING SAFELY'' ''KEEP CONNECTED'')
          \<lparr>sv_show_progress := True, sv_progress_indeterminate := True\<rparr>)
      | _ \<Rightarrow> None)"

text \<open>The last switch, on the state of the device.\<close>

definition device_view :: "status_model \<Rightarrow> status_view" where
  "device_view m =
     (case sn_state (sm_device m) of
        DEV_INSPECTING \<Rightarrow> (screen STATUS_INSPECTING ''CHECKING'' ''ACCESSPORT'' ''USB HIGH SPEED'')
          \<lparr>sv_progress_indeterminate := True\<rparr>
      | DEV_AVAILABLE \<Rightarrow> (screen STATUS_READY '''' '''' ''READY TO SYNC'')
          \<lparr>sv_headline := label_or (sm_vehicle_label m) ''ACCESSPORT'',
           sv_detail := label_or (sm_connected_label m) ''DEVICE CONNECTED''\<rparr>
      | DEV_SESSION_ACTIVE \<Rightarrow> (screen STATUS_SYNCING ''CONNECTED'' ''SESSION ACTIVE'' ''KEEP CONNECTED'')
          \<lparr>sv_progress_indeterminate := True\<rparr>
      | _ \<Rightarrow> screen STATUS_ATTENTION ''ATTENTION'' ''STATUS UNKNOWN'' ''OPEN REVLINK'')"

definition status_model_view :: "status_model option \<Rightarrow> status_view" where
  "status_model_view model =
     (case model of
        None \<Rightarrow> (screen STATUS_BOOTING ''STARTING'' ''SYSTEM CHECK'' ''REVLINK'')
          \<lparr>sv_progress_indeterminate := True\<rparr>
      | Some m \<Rightarrow>
          if \<not> sm_boot_complete m
          then (screen STATUS_BOOTING ''STARTING'' ''SYSTEM CHECK'' ''REVLINK'')
            \<lparr>sv_progress_indeterminate := True\<rparr>
          else (case active_sync_view (sm_sync m) of
            Some view \<Rightarrow> view
          | None \<Rightarrow>
              let network = sm_network m; state = sn_state (sm_device m); sync = ss_state (sm_sync m) in
              if ns_state network = NET_RECONNECTING
              then (screen STATUS_WIFI_RECONNECTING ''WIFI LOST'' ''RETRYING'' ''HOTSPOT NEXT'')
                \<lparr>sv_progress_percent := network_progress network,
                 sv_countdown_seconds := network_seconds_remaining network\<rparr>
              else if state = DEV_STOPPED \<or> state = DEV_WAITING
              then screen STATUS_WAITING ''NO DEVICE'' ''ACCESSPORT OFFLINE'' ''CONNECT TO SYNC''
              else if state = DEV_FAULTED
              then screen STATUS_ATTENTION ''ATTENTION'' ''USB NEEDS CHECK'' ''OPEN REVLINK''
              else if state = DEV_CONFLICT
              then screen STATUS_ATTENTION ''MULTIPLE DEVICES'' ''UNPLUG ALL DEVICES'' ''THEN RECONNECT ONE''
              else if sync = SYNC_COMPLETED
              then (screen STATUS_COMPLETE '''' ''BACKUP COMPLETE'' ''SAFE TO DISCONNECT'')
                \<lparr>sv_headline := label_or (sm_vehicle_label m) ''SYNC COMPLETE'', sv_progress_percent := 100\<rparr>
              else if sync = SYNC_FAILED
              then screen STATUS_ATTENTION ''ATTENTION'' ''SYNC NEEDS CHECK'' ''OPEN REVLINK''
              else device_view m))"

section \<open>Progress stays a percentage\<close>

lemma share_le: "c \<noteq> 0 \<Longrightarrow> n \<le> c \<Longrightarrow> (n * 100) mod k div c \<le> (100 :: nat)"
proof -
  assume c: "c \<noteq> 0" "n \<le> c"
  have "(n * 100) mod k div c \<le> n * 100 div c" by (intro div_le_mono mod_less_eq_dividend)
  also have "\<dots> \<le> c * 100 div c" using c by (intro div_le_mono mult_le_mono1)
  finally show ?thesis using c by simp
qed

lemma sync_progress_le: "unat (sync_progress s) \<le> 100"
proof (cases "ss_state s = SYNC_COMPLETED \<or> ss_candidates s = 0")
  case False
  define f where "f = (let finished = (ss_downloaded s + ss_skipped s) mod 2 ^ 32
    in if finished > ss_candidates s then ss_candidates s else finished)"
  have "(f * 100) mod 2 ^ 32 div ss_candidates s \<le> 100"
    using False by (intro share_le) (auto simp: f_def Let_def)
  then have "unat (of_nat ((f * 100) mod 2 ^ 32 div ss_candidates s) :: u8) \<le> 100"
    by (simp add: unat_of_nat take_bit_nat_eq_self)
  then show ?thesis using False by (simp add: sync_progress_def f_def Let_def)
qed (auto simp: sync_progress_def)

lemma network_progress_value:
  "ns_phase_timeout_ms n \<noteq> 0 \<Longrightarrow>
   unat (network_progress n) =
     min (unat (ns_phase_elapsed_ms n)) (unat (ns_phase_timeout_ms n)) * 100 div unat (ns_phase_timeout_ms n)"
proof -
  assume t: "ns_phase_timeout_ms n \<noteq> 0"
  define e where "e = (if ns_phase_elapsed_ms n > ns_phase_timeout_ms n
    then ns_phase_timeout_ms n else ns_phase_elapsed_ms n)"
  let ?t = "ns_phase_timeout_ms n"
  have e: "unat e = min (unat (ns_phase_elapsed_ms n)) (unat ?t)"
    by (auto simp: e_def word_less_nat_alt)
  have wide: "unat (ucast x :: u64) = unat x" for x :: u32
    using unat_u32_less [of x] by (simp add: unsigned_ucast_eq take_bit_nat_eq_self)
  have "unat (ucast e * 100 :: u64) = unat e * 100"
    using unat_u32_less [of e] by (simp add: unat_word_ariths wide)
  then have "unat ((ucast e * 100 :: u64) div ucast ?t) = unat e * 100 div unat ?t"
    by (simp add: unat_div wide)
  moreover have "unat e * 100 div unat ?t \<le> 100"
    using share_le [of "unat ?t" "unat e" "Suc (unat e * 100)"] t by (simp add: e unat_eq_0)
  ultimately show ?thesis
    using t by (simp add: network_progress_def Let_def unsigned_ucast_eq take_bit_nat_eq_self flip: e_def e)
qed

lemma network_progress_le: "unat (network_progress n) \<le> 100"
proof (cases "ns_phase_timeout_ms n = 0")
  case False
  then have "min a (unat (ns_phase_timeout_ms n)) * 100 div unat (ns_phase_timeout_ms n) \<le> 100" for a
    using share_le [of "unat (ns_phase_timeout_ms n)" "min a (unat (ns_phase_timeout_ms n))"
        "Suc (min a (unat (ns_phase_timeout_ms n)) * 100)"] by (simp add: unat_eq_0)
  then show ?thesis using False by (simp add: network_progress_value)
qed (simp add: network_progress_def)

text \<open>
  The screen never promises too much. It says that the device may be disconnected exactly
  when the start-up is complete, the last synchronisation completed, the network is not being
  recovered and a device is present without fault or conflict; it asks to keep it connected
  exactly while an operation runs or is being cancelled, or a session is open with no result
  or network recovery to show; and the progress is a percentage.
\<close>

lemma status_view_exact:
  "let v = status_model_view (Some m); sync = ss_state (sm_sync m); dev = sn_state (sm_device m);
       lost = (ns_state (sm_network m) = NET_RECONNECTING)
   in (sv_footer v = ascii ''SAFE TO DISCONNECT'')
        = (sm_boot_complete m \<and> sync = SYNC_COMPLETED \<and> \<not> lost
           \<and> dev \<in> {DEV_INSPECTING, DEV_AVAILABLE, DEV_SESSION_ACTIVE})
    \<and> (sv_footer v = ascii ''KEEP CONNECTED'')
        = (sm_boot_complete m
           \<and> (sync \<in> {SYNC_RUNNING, SYNC_CANCELLING}
              \<or> sync \<in> {SYNC_IDLE, SYNC_CANCELLED} \<and> \<not> lost \<and> dev = DEV_SESSION_ACTIVE))
    \<and> unat (sv_progress_percent v) \<le> 100"
proof -
  note defs = status_model_view_def active_sync_view_def device_view_def screen_def Let_def
  show ?thesis
    by (cases "ss_state (sm_sync m)"; cases "sn_state (sm_device m)")
      (simp_all add: defs sync_progress_le network_progress_le)
qed

section \<open>The labels\<close>

lemma trim_spaces_le: "trim_spaces v n \<le> n"
  by (induction n) auto

lemma back_to_space_le: "back_to_space v n \<le> n"
  by (induction n) auto

lemma cut_suffix_le: "cut_suffix v n suffix \<le> n"
  by (simp add: cut_suffix_def split: option.splits)

lemma vehicle_label_length:
  "vehicle_label_length v < 24" "vehicle_label_length v \<le> length v"
proof -
  define n where "n = trim_spaces v (foldl (cut_suffix v) (length v) VEHICLE_SUFFIXES)"
  have n: "n \<le> length v"
    unfolding n_def VEHICLE_SUFFIXES_def foldl.simps
    by (meson cut_suffix_le order_trans trim_spaces_le)
  show "vehicle_label_length v < 24" "vehicle_label_length v \<le> length v"
    using n back_to_space_le [of v 23]
    by (auto simp: vehicle_label_length_def Let_def simp flip: n_def split: if_splits)
qed

text \<open>The label is the start of the vehicle's name, terminated inside its buffer.\<close>

lemma set_vehicle_label:
  "status_model_set_vehicle (Some m) (Some memory) =
    Some (m\<lparr>sm_vehicle_label := take (vehicle_label_length (c_str memory)) (c_str memory)
       @ replicate (24 - vehicle_label_length (c_str memory)) 0\<rparr>)"
proof (cases "c_str memory = []")
  case True
  have "vehicle_label_length [] = 0" using vehicle_label_length(2) [of "[]"] by simp
  then show ?thesis using True by (simp add: status_model_set_vehicle_def Let_def)
next
  case False
  let ?n = "vehicle_label_length (c_str memory)"
  have n: "?n < 24" "?n \<le> length (c_str memory)" by (rule vehicle_label_length)+
  then have "replicate (24 - ?n) (0 :: u8) = 0 # replicate (23 - ?n) 0"
    by (simp flip: replicate_Suc add: Suc_diff_le)
  then show ?thesis using False n
    by (simp add: status_model_set_vehicle_def Let_def blit_0 blit_def)
qed

end
