(* ===== verification/Control.thy ===== *)
theory Control
  imports Device_Service Sync_Coordinator Text_Codec
begin

text \<open>
  The control interface (revlink_control/revlink_control_service.c) and its command line
  (revlink_cli/revlink_cli.c): a text line is parsed into a request, the service carries it out
  through the callbacks of the application and answers with a snapshot, the answer is printed.
\<close>

section \<open>Data\<close>

datatype control_status = CONTROL_OK | CONTROL_INVALID_ARGUMENT | CONTROL_INVALID_STATE
  | CONTROL_TRANSPORT_ERROR | CONTROL_NOT_SUPPORTED

fun control_status_name :: "control_status \<Rightarrow> string" where
  "control_status_name CONTROL_OK = ''ok''"
| "control_status_name CONTROL_INVALID_ARGUMENT = ''invalid-argument''"
| "control_status_name CONTROL_INVALID_STATE = ''invalid-state''"
| "control_status_name CONTROL_TRANSPORT_ERROR = ''transport-error''"
| "control_status_name CONTROL_NOT_SUPPORTED = ''not-supported''"

datatype control_command = CMD_GET_STATUS | CMD_SET_AUTO_SYNC | CMD_REQUEST_SYNC | CMD_CANCEL_SYNC
  | CMD_OTHER nat

record control_snapshot =
  cs_device :: device_snapshot
  cs_sync_policy :: sync_policy
  cs_sync :: sync_snapshot
  cs_writes_compiled :: bool
  cs_deletes_compiled :: bool
  cs_shutdown_requested :: bool

definition control_snapshot_zero :: control_snapshot where
  "control_snapshot_zero = \<lparr>cs_device = snapshot_zero, cs_sync_policy = \<lparr>spol_auto_sync_on_attach = False\<rparr>,
     cs_sync = sync_snapshot_zero, cs_writes_compiled = False, cs_deletes_compiled = False,
     cs_shutdown_requested = False\<rparr>"

record control_request =
  cr_command :: control_command
  cr_enabled :: bool

record control_response =
  rs_status :: control_status
  rs_snapshot :: control_snapshot

type_synonym 'w control_action = "'w \<Rightarrow> control_status \<times> 'w"

text \<open>\<open>read_snapshot\<close> gets the zeroed snapshot and returns what it wrote to it.\<close>

record 'w control_config =
  cc_read_snapshot :: "(control_snapshot \<Rightarrow> 'w \<Rightarrow> control_status \<times> control_snapshot \<times> 'w) option"
  cc_set_auto_sync :: "(bool \<Rightarrow> 'w control_action) option"
  cc_request_sync :: "'w control_action option"
  cc_cancel_sync :: "'w control_action option"

record 'w control_service =
  csv_config :: "'w control_config"
  csv_initialized :: bool

section \<open>The service\<close>

definition control_service_init ::
  "'w control_service option \<Rightarrow> 'w control_config option \<Rightarrow> control_status \<times> 'w control_service option" where
  "control_service_init service config =
     (case (service, config) of
        (Some s, Some cfg) \<Rightarrow>
          if cc_read_snapshot cfg = None \<or> cc_set_auto_sync cfg = None \<or> cc_request_sync cfg = None
             \<or> cc_cancel_sync cfg = None
          then (CONTROL_INVALID_ARGUMENT, service)
          else (CONTROL_OK, Some \<lparr>csv_config = cfg, csv_initialized = True\<rparr>)
      | _ \<Rightarrow> (CONTROL_INVALID_ARGUMENT, service))"

definition run_command :: "'w control_config \<Rightarrow> control_request \<Rightarrow> 'w control_action" where
  "run_command cfg request w =
     (case cr_command request of
        CMD_GET_STATUS \<Rightarrow> (CONTROL_OK, w)
      | CMD_SET_AUTO_SYNC \<Rightarrow> the (cc_set_auto_sync cfg) (cr_enabled request) w
      | CMD_REQUEST_SYNC \<Rightarrow> the (cc_request_sync cfg) w
      | CMD_CANCEL_SYNC \<Rightarrow> the (cc_cancel_sync cfg) w
      | CMD_OTHER n \<Rightarrow> (CONTROL_NOT_SUPPORTED, w))"

definition control_service_execute ::
  "'w control_service option \<Rightarrow> control_request option \<Rightarrow> control_response option \<Rightarrow> 'w
   \<Rightarrow> control_status \<times> control_response option \<times> 'w" where
  "control_service_execute service request response w =
     (case (service, request, response) of
        (Some s, Some r, Some out) \<Rightarrow>
          if \<not> csv_initialized s
          then (CONTROL_INVALID_STATE,
                Some \<lparr>rs_status = CONTROL_INVALID_STATE, rs_snapshot = control_snapshot_zero\<rparr>, w)
          else
            (case run_command (csv_config s) r w of
               (status, w1) \<Rightarrow>
                 (case the (cc_read_snapshot (csv_config s)) control_snapshot_zero w1 of
                    (snapshot_status, snapshot, w2) \<Rightarrow>
                      let status = (if status = CONTROL_OK \<and> snapshot_status \<noteq> CONTROL_OK
                                    then snapshot_status else status)
                      in (status, Some \<lparr>rs_status = status, rs_snapshot = snapshot\<rparr>, w2)))
      | _ \<Rightarrow> (CONTROL_INVALID_ARGUMENT, response, w))"

section \<open>The command line\<close>

datatype cli_status = CLI_PARSED | CLI_HELP | CLI_INVALID

text \<open>\<open>strcmp(line, literal) == 0\<close> on the memory at \<open>line\<close>.\<close>

definition is_line :: "u8 list \<Rightarrow> string \<Rightarrow> bool" where
  "is_line line literal \<longleftrightarrow> c_str line = ascii literal"

definition cli_parse :: "u8 list option \<Rightarrow> control_request option \<Rightarrow> cli_status \<times> control_request option" where
  "cli_parse line request =
     (case (line, request) of
        (Some l, Some r) \<Rightarrow>
          if is_line l ''help'' \<or> is_line l ''?'' then (CLI_HELP, request)
          else if is_line l ''status''
          then (CLI_PARSED, Some \<lparr>cr_command = CMD_GET_STATUS, cr_enabled = False\<rparr>)
          else if is_line l ''sync''
          then (CLI_PARSED, Some \<lparr>cr_command = CMD_REQUEST_SYNC, cr_enabled = False\<rparr>)
          else if is_line l ''cancel''
          then (CLI_PARSED, Some \<lparr>cr_command = CMD_CANCEL_SYNC, cr_enabled = False\<rparr>)
          else if is_line l ''auto on'' \<or> is_line l ''auto off''
          then (CLI_PARSED, Some \<lparr>cr_command = CMD_SET_AUTO_SYNC, cr_enabled = is_line l ''auto on''\<rparr>)
          else (CLI_INVALID, request)
      | _ \<Rightarrow> (CLI_INVALID, request))"

text \<open>\<open>unsigned int\<close> has 32 bits.\<close>

definition response_text :: "control_response \<Rightarrow> u8 list" where
  "response_text response =
     (let s = rs_snapshot response; sync = cs_sync s;
          u = (\<lambda>n. dec_text (n mod 2 ^ 32));
          completed = ss_downloaded sync mod 2 ^ 32 + ss_skipped sync mod 2 ^ 32
      in ascii ''status='' @ ascii (control_status_name (rs_status response))
         @ ascii '' device='' @ ascii (device_state_name (sn_state (cs_device s)))
         @ ascii '' sync='' @ ascii (sync_state_name (ss_state sync))
         @ ascii '' auto='' @ ascii (if spol_auto_sync_on_attach (cs_sync_policy s) then ''on'' else ''off'')
         @ ascii '' progress='' @ u completed @ ascii ''/'' @ u (ss_candidates sync)
         @ ascii '' downloaded='' @ u (ss_downloaded sync) @ ascii '' skipped='' @ u (ss_skipped sync)
         @ ascii '' pending='' @ u (ss_pending sync)
         @ ascii '' writes='' @ ascii (if cs_writes_compiled s then ''available'' else ''locked'')
         @ ascii '' shutdown='' @ ascii (if cs_shutdown_requested s then ''yes'' else ''no''))"

definition cli_format_response :: "control_response option \<Rightarrow> u8 span \<Rightarrow> bool \<times> u8 span" where
  "cli_format_response response out =
     (case response of
        None \<Rightarrow> (False, out)
      | Some r \<Rightarrow>
          if is_null out \<or> slen out = 0 then (False, out)
          else case snprintf_into (sbytes out) (response_text r) of
            (written, count) \<Rightarrow> (count < slen out, Span written))"

definition cli_help :: string where
  "cli_help = ''commands: status | sync | cancel | auto on | auto off | help''"

section \<open>What a line does\<close>

text \<open>The lines of the help text and the requests they stand for.\<close>

definition cli_table :: "(string \<times> control_command \<times> bool) list" where
  "cli_table = [(''status'', CMD_GET_STATUS, False), (''sync'', CMD_REQUEST_SYNC, False),
     (''cancel'', CMD_CANCEL_SYNC, False), (''auto on'', CMD_SET_AUTO_SYNC, True),
     (''auto off'', CMD_SET_AUTO_SYNC, False)]"

lemma cli_parse_table:
  "cli_parse (Some line) (Some r) =
    (case find (\<lambda>(l, c, e). is_line line l) cli_table of
       Some (l, c, e) \<Rightarrow> (CLI_PARSED, Some \<lparr>cr_command = c, cr_enabled = e\<rparr>)
     | None \<Rightarrow> (if is_line line ''help'' \<or> is_line line ''?'' then CLI_HELP else CLI_INVALID, Some r))"
  by (auto simp: cli_parse_def cli_table_def is_line_def)

text \<open>A line runs the callback of its command once and at most that one, then reads the snapshot.\<close>

definition service_with :: "'w control_config \<Rightarrow> 'w control_service \<Rightarrow> bool" where
  "service_with cfg s \<longleftrightarrow> csv_initialized s \<and> csv_config s = cfg"

lemma init_service:
  "control_service_init (Some s0) (Some cfg) = (CONTROL_OK, Some s) \<Longrightarrow> service_with cfg s"
  by (auto simp: control_service_init_def service_with_def split: if_splits)

lemma response_text_length:
  "length (response_text r) \<le> 250"
proof -
  have u: "length (dec_text (n mod 2 ^ 32)) \<le> 10" for n
    using dec_text_length [of "n mod 2 ^ 32" 9] mod_less_divisor [of "2 ^ 32" n] by simp
  have c: "length (control_status_name s) \<le> 16" for s by (cases s) auto
  have d: "length (device_state_name s) \<le> 16" for s by (cases s) auto
  have y: "length (sync_state_name s) \<le> 10" for s by (cases s) auto
  show ?thesis
    using u [of "ss_downloaded (cs_sync (rs_snapshot r)) mod 2 ^ 32 + ss_skipped (cs_sync (rs_snapshot r)) mod 2 ^ 32"]
      u [of "ss_candidates (cs_sync (rs_snapshot r))"] u [of "ss_downloaded (cs_sync (rs_snapshot r))"]
      u [of "ss_skipped (cs_sync (rs_snapshot r))"] u [of "ss_pending (cs_sync (rs_snapshot r))"]
      c [of "rs_status r"] d [of "sn_state (cs_device (rs_snapshot r))"]
      y [of "ss_state (cs_sync (rs_snapshot r))"]
    by (simp add: response_text_def Let_def del: mod_mod_trivial)
qed

end
