(* ===== verification/Usb_Host.thy ===== *)
theory Usb_Host
  imports Device_Service Sync_Coordinator Accessport_Listing "HOL-Library.State_Monad"
begin

text \<open>
  The surroundings of the AccessPort transport (accessport_usb/revlink_accessport_usb.c): the USB
  host stack, FreeRTOS, the allocator, the atomic flags shared with the other tasks and the
  configured sinks and observers. Each of them is a function on an environment \<open>'d\<close>, a parameter
  of the model. The state of a transaction is that environment with the list of the calls made
  on it and their results, so that what the code did, and in which order, is part of its result.
  The last section is the calculus in which the later theories prove what a routine may call.
\<close>

section \<open>Error codes\<close>

type_synonym esp_err = int

abbreviation (input) ESP_OK :: esp_err where "ESP_OK \<equiv> 0"
abbreviation (input) ESP_FAIL :: esp_err where "ESP_FAIL \<equiv> - 1"
abbreviation (input) ESP_ERR_NO_MEM :: esp_err where "ESP_ERR_NO_MEM \<equiv> 0x101"
abbreviation (input) ESP_ERR_INVALID_ARG :: esp_err where "ESP_ERR_INVALID_ARG \<equiv> 0x102"
abbreviation (input) ESP_ERR_INVALID_STATE :: esp_err where "ESP_ERR_INVALID_STATE \<equiv> 0x103"
abbreviation (input) ESP_ERR_NOT_FOUND :: esp_err where "ESP_ERR_NOT_FOUND \<equiv> 0x105"
abbreviation (input) ESP_ERR_NOT_SUPPORTED :: esp_err where "ESP_ERR_NOT_SUPPORTED \<equiv> 0x106"
abbreviation (input) ESP_ERR_TIMEOUT :: esp_err where "ESP_ERR_TIMEOUT \<equiv> 0x107"
abbreviation (input) ESP_ERR_INVALID_RESPONSE :: esp_err where "ESP_ERR_INVALID_RESPONSE \<equiv> 0x108"
abbreviation (input) ESP_ERR_INVALID_CRC :: esp_err where "ESP_ERR_INVALID_CRC \<equiv> 0x109"

section \<open>Requests and their events\<close>

text \<open>The character arrays of a request hold the whole buffer, terminator included.\<close>

record map_upload_request =
  mu_name :: "u8 list"
  mu_path :: "u8 list"
  mu_expected_part_number :: "u8 list"
  mu_expected_serial :: "u8 list"
  mu_modification_time :: u32
  mu_size :: u32
  mu_source_sha256 :: "u8 list"

record delete_request =
  dr_name :: "u8 list"
  dr_path :: "u8 list"
  dr_expected_part_number :: "u8 list"
  dr_expected_serial :: "u8 list"

datatype upload_state = UPLOAD_IDLE | UPLOAD_RUNNING | UPLOAD_VERIFIED | UPLOAD_FAILED

datatype delete_state = DELETE_IDLE | DELETE_RUNNING | DELETE_REMOVED | DELETE_FAILED

record upload_event =
  ue_state :: upload_state
  ue_request :: map_upload_request
  ue_readback_sha256 :: "u8 list"
  ue_recovery_required :: bool
  ue_platform_error :: esp_err

record delete_event =
  de_state :: delete_state
  de_request :: delete_request
  de_recovery_required :: bool
  de_platform_error :: esp_err

section \<open>The calls\<close>

datatype transfer_status = TRANSFER_COMPLETED | TRANSFER_ERROR | TRANSFER_OTHER nat

text \<open>
  What the completion callback leaves in the wait context: the status, and the
  \<open>actual_num_bytes\<close> bytes of the buffer that were moved.
\<close>

record transfer_done =
  td_status :: transfer_status
  td_bytes :: "u8 list"

datatype usb_call =
    CALL_CLAIM esp_err | CALL_RELEASE_INTERFACE esp_err | CALL_ALLOCATE bool
  | CALL_SUBMIT u8 "u8 list" nat esp_err | CALL_TAKE nat bool | CALL_TAKE_FOREVER
  | CALL_HALT u8 esp_err | CALL_FLUSH u8 esp_err | CALL_CLEAR u8 esp_err
  | CALL_DONE u8 transfer_done
  | CALL_CANCEL_READ bool | CALL_RECOVERY_READ bool | CALL_RECOVERY_STORE bool | CALL_TIME int
  | CALL_SELECT_DEVICE device_info esp_err | CALL_RELEASE_DEVICE
  | CALL_IS_CURRENT "u8 list" u32 u32 bool
  | CALL_BEGIN "u8 list" "u8 list" u32 u32 esp_err | CALL_WRITE "u8 list" bool
  | CALL_COMMIT esp_err | CALL_ABORT
  | CALL_SCAN_BEGIN | CALL_SCAN_OBSERVE "u8 list" | CALL_SCAN_END bool
  | CALL_SOURCE_OPEN map_upload_request esp_err | CALL_SOURCE_READ nat esp_err "u8 list"
  | CALL_SOURCE_REWIND esp_err | CALL_SOURCE_CLOSE
  | CALL_CACHED_MATCHES "u8 list" u32 "u8 list" bool
  | CALL_UPLOAD_EVENT upload_event | CALL_DELETE_EVENT delete_event
  | CALL_DEVICE_EVENT device_event | CALL_SYNC_EVENT sync_event | CALL_IDENTITY device_info

record 'd usb_world =
  uw_env :: 'd
  uw_calls :: "usb_call list"

type_synonym ('d, 'a) usb = "('d usb_world, 'a) state"

abbreviation (input) ret :: "'a \<Rightarrow> ('d, 'a) usb" where "ret \<equiv> State_Monad.return"

definition call :: "('d \<Rightarrow> 'a \<times> 'd) \<Rightarrow> ('a \<Rightarrow> usb_call) \<Rightarrow> ('d, 'a) usb" where
  "call f item = State (\<lambda>w. case f (uw_env w) of
     (a, d) \<Rightarrow> (a, \<lparr>uw_env = d, uw_calls = uw_calls w @ [item a]\<rparr>))"

text \<open>The continuation runs on results of the first part only; loops terminate by this rule.\<close>

lemma bind_cong [fundef_cong]:
  "m = n \<Longrightarrow> (\<And>w a w'. run_state n w = (a, w') \<Longrightarrow> f a = g a) \<Longrightarrow>
   State_Monad.bind m f = State_Monad.bind n g"
  by (cases m, cases n) (auto simp: State_Monad.bind_def fun_eq_iff split: prod.splits)

section \<open>The environment\<close>

record 'd usb_env =
  env_claim :: "'d \<Rightarrow> esp_err \<times> 'd"
  env_release_interface :: "'d \<Rightarrow> esp_err \<times> 'd"
  env_allocate :: "'d \<Rightarrow> bool \<times> 'd"
  env_submit :: "u8 \<Rightarrow> u8 list \<Rightarrow> nat \<Rightarrow> 'd \<Rightarrow> esp_err \<times> 'd"
  env_take :: "nat \<Rightarrow> 'd \<Rightarrow> bool \<times> 'd"
  env_take_forever :: "'d \<Rightarrow> unit \<times> 'd"
  env_halt :: "u8 \<Rightarrow> 'd \<Rightarrow> esp_err \<times> 'd"
  env_flush :: "u8 \<Rightarrow> 'd \<Rightarrow> esp_err \<times> 'd"
  env_clear :: "u8 \<Rightarrow> 'd \<Rightarrow> esp_err \<times> 'd"
  env_completion :: "u8 \<Rightarrow> 'd \<Rightarrow> transfer_done \<times> 'd"
  env_cancel_requested :: "'d \<Rightarrow> bool \<times> 'd"
  env_recovery_required :: "'d \<Rightarrow> bool \<times> 'd"
  env_store_recovery :: "bool \<Rightarrow> 'd \<Rightarrow> unit \<times> 'd"
  env_time :: "'d \<Rightarrow> int \<times> 'd"
  env_device_observer :: "(device_event \<Rightarrow> 'd \<Rightarrow> unit \<times> 'd) option"
  env_sync_observer :: "(sync_event \<Rightarrow> 'd \<Rightarrow> unit \<times> 'd) option"
  env_identity_observer :: "(device_info \<Rightarrow> 'd \<Rightarrow> unit \<times> 'd) option"
  env_delete_observer :: "(delete_event \<Rightarrow> 'd \<Rightarrow> unit \<times> 'd) option"

text \<open>
  A sink or a source as the configuration functions accept it: the callbacks they require are
  present, the optional ones may be missing.
\<close>

record 'd download_sink =
  dk_select_device :: "device_info \<Rightarrow> 'd \<Rightarrow> esp_err \<times> 'd"
  dk_release_device :: "'d \<Rightarrow> unit \<times> 'd"
  dk_is_current :: "(u8 list \<Rightarrow> u32 \<Rightarrow> u32 \<Rightarrow> 'd \<Rightarrow> bool \<times> 'd) option"
  dk_begin :: "u8 list \<Rightarrow> u8 list \<Rightarrow> u32 \<Rightarrow> u32 \<Rightarrow> 'd \<Rightarrow> esp_err \<times> 'd"
  dk_write :: "u8 list \<Rightarrow> 'd \<Rightarrow> bool \<times> 'd"
  dk_commit :: "'d \<Rightarrow> esp_err \<times> 'd"
  dk_abort :: "'d \<Rightarrow> unit \<times> 'd"
  dk_scan_begin :: "('d \<Rightarrow> unit \<times> 'd) option"
  dk_scan_observe :: "(u8 list \<Rightarrow> 'd \<Rightarrow> unit \<times> 'd) option"
  dk_scan_end :: "(bool \<Rightarrow> 'd \<Rightarrow> unit \<times> 'd) option"

record 'd upload_source =
  us_open :: "map_upload_request \<Rightarrow> 'd \<Rightarrow> esp_err \<times> 'd"
  us_read :: "nat \<Rightarrow> 'd \<Rightarrow> (esp_err \<times> u8 list) \<times> 'd"
  us_rewind :: "'d \<Rightarrow> esp_err \<times> 'd"
  us_close :: "'d \<Rightarrow> unit \<times> 'd"
  us_cached_file_matches :: "u8 list \<Rightarrow> u32 \<Rightarrow> u8 list \<Rightarrow> 'd \<Rightarrow> bool \<times> 'd"
  us_observe :: "upload_event \<Rightarrow> 'd \<Rightarrow> unit \<times> 'd"

text \<open>A callback that may be NULL.\<close>

definition notify :: "('b \<Rightarrow> 'd \<Rightarrow> unit \<times> 'd) option \<Rightarrow> ('b \<Rightarrow> usb_call) \<Rightarrow> 'b \<Rightarrow> ('d, unit) usb" where
  "notify observer item event =
     (case observer of None \<Rightarrow> ret () | Some f \<Rightarrow> call (f event) (\<lambda>_. item event))"

definition publish_event :: "'d usb_env \<Rightarrow> device_event \<Rightarrow> ('d, unit) usb" where
  "publish_event env = notify (env_device_observer env) CALL_DEVICE_EVENT"

definition publish_sync_event :: "'d usb_env \<Rightarrow> sync_event \<Rightarrow> ('d, unit) usb" where
  "publish_sync_event env = notify (env_sync_observer env) CALL_SYNC_EVENT"

definition sync_cancelled :: "'d usb_env \<Rightarrow> ('d, bool) usb" where
  "sync_cancelled env = call (env_cancel_requested env) CALL_CANCEL_READ"

text \<open>The evaluation of \<open>a && b\<close> and of \<open>a || b\<close>.\<close>

definition and_then :: "('d, bool) usb \<Rightarrow> ('d, bool) usb \<Rightarrow> ('d, bool) usb" where
  "and_then a b = do { x \<leftarrow> a; if x then b else ret False }"

definition or_else :: "('d, bool) usb \<Rightarrow> ('d, bool) usb \<Rightarrow> ('d, bool) usb" where
  "or_else a b = do { x \<leftarrow> a; if x then ret True else b }"

section \<open>The calculus of calls\<close>

text \<open>
  \<open>emits m Q\<close>: in every state \<open>m\<close> returns, appends some calls to the list, and the result and
  these calls satisfy \<open>Q\<close>. The environment is not constrained.
\<close>

definition emits :: "('d, 'a) usb \<Rightarrow> ('a \<Rightarrow> usb_call list \<Rightarrow> bool) \<Rightarrow> bool" where
  "emits m Q \<longleftrightarrow> (\<forall>w. \<exists>cs. uw_calls (snd (run_state m w)) = uw_calls w @ cs
     \<and> Q (fst (run_state m w)) cs)"

lemma emits_run:
  "emits m Q \<Longrightarrow> run_state m w = (a, w') \<Longrightarrow> uw_calls w' = uw_calls w @ cs \<Longrightarrow> Q a cs"
  unfolding emits_def by (metis fst_conv snd_conv same_append_eq)

lemma emitsI:
  "(\<And>w a w'. run_state m w = (a, w') \<Longrightarrow> \<exists>cs. uw_calls w' = uw_calls w @ cs \<and> Q a cs) \<Longrightarrow> emits m Q"
  unfolding emits_def by (metis prod.collapse)

lemma emitsE:
  assumes "emits m Q" and "run_state m w = (a, w')"
  obtains cs where "uw_calls w' = uw_calls w @ cs" and "Q a cs"
  using assms unfolding emits_def by (metis fst_conv snd_conv)

lemma emits_weaken: "emits m Q \<Longrightarrow> (\<And>a cs. Q a cs \<Longrightarrow> R a cs) \<Longrightarrow> emits m R"
  unfolding emits_def by blast

lemma emits_conj: "emits m Q \<Longrightarrow> emits m R \<Longrightarrow> emits m (\<lambda>a cs. Q a cs \<and> R a cs)"
  by (rule emitsI) (metis emitsE same_append_eq)

lemma emits_ret: "Q a [] \<Longrightarrow> emits (State_Monad.return a) Q"
  by (simp add: emits_def)

lemma emits_bind:
  assumes m: "emits m Q" and f: "\<And>a cs. Q a cs \<Longrightarrow> emits (f a) (\<lambda>b ds. R b (cs @ ds))"
  shows "emits (State_Monad.bind m f) R"
proof (rule emitsI)
  fix w b w'
  assume "run_state (State_Monad.bind m f) w = (b, w')"
  then obtain a w1 where run: "run_state m w = (a, w1)" "run_state (f a) w1 = (b, w')"
    by (auto split: prod.splits)
  obtain cs where cs: "uw_calls w1 = uw_calls w @ cs" "Q a cs" by (rule emitsE [OF m run(1)])
  obtain ds where "uw_calls w' = uw_calls w1 @ ds" "R b (cs @ ds)" by (rule emitsE [OF f [OF cs(2)] run(2)])
  then show "\<exists>cs. uw_calls w' = uw_calls w @ cs \<and> R b cs" using cs(1) by simp
qed

lemma emits_call: "(\<And>a. Q a [item a]) \<Longrightarrow> emits (call f item) Q"
  by (rule emitsI) (auto simp: call_def split: prod.splits)

lemma emits_if:
  "(b \<Longrightarrow> emits m Q) \<Longrightarrow> (\<not> b \<Longrightarrow> emits n Q) \<Longrightarrow> emits (if b then m else n) Q"
  by simp

lemma emits_option:
  "(x = None \<Longrightarrow> emits m Q) \<Longrightarrow> (\<And>a. x = Some a \<Longrightarrow> emits (n a) Q)
   \<Longrightarrow> emits (case x of None \<Rightarrow> m | Some a \<Rightarrow> n a) Q"
  by (cases x) simp_all

lemma emits_notify:
  "Q () [] \<Longrightarrow> Q () [item event] \<Longrightarrow> emits (notify observer item event) Q"
  unfolding notify_def by (intro emits_option emits_ret emits_call) simp_all

lemma emits_and_then:
  assumes "emits a Q" and "\<And>cs. Q False cs \<Longrightarrow> R False cs"
    and "\<And>cs. Q True cs \<Longrightarrow> emits b (\<lambda>x ds. R x (cs @ ds))"
  shows "emits (and_then a b) R"
  unfolding and_then_def
  by (rule emits_bind [OF assms(1)]) (auto intro!: emits_ret simp: assms(2,3))

lemma emits_or_else:
  assumes "emits a Q" and "\<And>cs. Q True cs \<Longrightarrow> R True cs"
    and "\<And>cs. Q False cs \<Longrightarrow> emits b (\<lambda>x ds. R x (cs @ ds))"
  shows "emits (or_else a b) R"
  unfolding or_else_def
  by (rule emits_bind [OF assms(1)]) (auto intro!: emits_ret simp: assms(2,3))

section \<open>What went over the wire\<close>

abbreviation (input) BULK_OUT :: u8 where "BULK_OUT \<equiv> 0x03"
abbreviation (input) BULK_IN :: u8 where "BULK_IN \<equiv> 0x82"

datatype wire_item = Sent "u8 list" | Received "u8 list"

text \<open>
  An OUT transfer counts as sent when it is handed to the host, an IN transfer as received when
  it completed in time with some bytes.
\<close>

fun wire_of :: "usb_call \<Rightarrow> wire_item list" where
  "wire_of (CALL_SUBMIT endpoint buffer n err) = (if endpoint = BULK_OUT then [Sent (take n buffer)] else [])"
| "wire_of (CALL_DONE endpoint t) =
     (if endpoint = BULK_IN \<and> td_status t = TRANSFER_COMPLETED \<and> td_bytes t \<noteq> []
      then [Received (td_bytes t)] else [])"
| "wire_of _ = []"

definition wire :: "usb_call list \<Rightarrow> wire_item list" where
  "wire cs = concat (map wire_of cs)"

text \<open>The calls on the application: sinks, sources, observers and the recovery flag.\<close>

fun is_action :: "usb_call \<Rightarrow> bool" where
  "is_action (CALL_CLAIM _) = False"
| "is_action (CALL_RELEASE_INTERFACE _) = False"
| "is_action (CALL_ALLOCATE _) = False"
| "is_action (CALL_SUBMIT _ _ _ _) = False"
| "is_action (CALL_TAKE _ _) = False"
| "is_action CALL_TAKE_FOREVER = False"
| "is_action (CALL_HALT _ _) = False"
| "is_action (CALL_FLUSH _ _) = False"
| "is_action (CALL_CLEAR _ _) = False"
| "is_action (CALL_DONE _ _) = False"
| "is_action (CALL_CANCEL_READ _) = False"
| "is_action (CALL_RECOVERY_READ _) = False"
| "is_action (CALL_TIME _) = False"
| "is_action _ = True"

definition actions :: "usb_call list \<Rightarrow> usb_call list" where
  "actions cs = filter is_action cs"

lemma wire_simps [simp]:
  "wire [] = []" "wire (c # cs) = wire_of c @ wire cs" "wire (cs @ ds) = wire cs @ wire ds"
  by (simp_all add: wire_def)

lemma actions_simps [simp]:
  "actions [] = []" "actions (c # cs) = (if is_action c then c # actions cs else actions cs)"
  "actions (cs @ ds) = actions cs @ actions ds"
  by (simp_all add: actions_def)

fun sent_of :: "wire_item \<Rightarrow> u8 list list" where
  "sent_of (Sent xs) = [xs]"
| "sent_of (Received xs) = []"

fun received_of :: "wire_item \<Rightarrow> u8 list list" where
  "received_of (Received xs) = [xs]"
| "received_of (Sent xs) = []"

definition sent :: "usb_call list \<Rightarrow> u8 list list" where
  "sent cs = concat (map sent_of (wire cs))"

definition received :: "usb_call list \<Rightarrow> u8 list list" where
  "received cs = concat (map received_of (wire cs))"

lemma sent_simps [simp]:
  "sent [] = []" "sent (c # cs) = concat (map sent_of (wire_of c)) @ sent cs"
  "sent (cs @ ds) = sent cs @ sent ds"
  by (simp_all add: sent_def)

lemma received_simps [simp]:
  "received [] = []" "received (c # cs) = concat (map received_of (wire_of c)) @ received cs"
  "received (cs @ ds) = received cs @ received ds"
  by (simp_all add: received_def)

text \<open>The calls of a routine that neither transfers anything nor calls the application.\<close>

definition quiet :: "usb_call list \<Rightarrow> bool" where
  "quiet cs \<longleftrightarrow> wire cs = [] \<and> actions cs = []"

lemma quiet_simps [simp]: "quiet []" "quiet (cs @ ds) \<longleftrightarrow> quiet cs \<and> quiet ds"
  by (auto simp: quiet_def)

section \<open>What a routine may send and call\<close>

text \<open>
  \<open>allowed P A m\<close>: whatever the environment does, \<open>m\<close> sends only requests with \<open>P\<close> and makes
  only calls on the application with \<open>A\<close>. The rules follow the structure of a routine.
\<close>

named_theorems allowed_intros

definition allowed :: "(u8 list \<Rightarrow> bool) \<Rightarrow> (usb_call \<Rightarrow> bool) \<Rightarrow> ('d, 'a) usb \<Rightarrow> bool" where
  "allowed P A m \<longleftrightarrow> emits m (\<lambda>_ cs. list_all P (sent cs) \<and> list_all A (actions cs))"

lemma allowedI:
  "emits m Q \<Longrightarrow> (\<And>a cs. Q a cs \<Longrightarrow> list_all P (sent cs) \<and> list_all A (actions cs)) \<Longrightarrow> allowed P A m"
  unfolding allowed_def by (rule emits_weaken)

lemma allowed_weaken: "allowed P A m \<Longrightarrow> (\<And>c. A c \<Longrightarrow> A' c) \<Longrightarrow> allowed P A' m"
  unfolding allowed_def by (erule emits_weaken) (auto simp: list_all_iff)

lemma allowed_ret [allowed_intros]: "allowed P A (State_Monad.return a)"
  by (simp add: allowed_def emits_ret)

lemma allowed_bind [allowed_intros]:
  "allowed P A m \<Longrightarrow> (\<And>a. allowed P A (f a)) \<Longrightarrow> allowed P A (State_Monad.bind m f)"
  unfolding allowed_def by (erule emits_bind) (auto elim!: emits_weaken)

lemma allowed_if [allowed_intros]:
  "(b \<Longrightarrow> allowed P A m) \<Longrightarrow> (\<not> b \<Longrightarrow> allowed P A n) \<Longrightarrow> allowed P A (if b then m else n)"
  by simp

lemma allowed_option [allowed_intros]:
  "(x = None \<Longrightarrow> allowed P A m) \<Longrightarrow> (\<And>a. x = Some a \<Longrightarrow> allowed P A (n a))
   \<Longrightarrow> allowed P A (case x of None \<Rightarrow> m | Some a \<Rightarrow> n a)"
  by (cases x) simp_all

lemma allowed_let [allowed_intros]: "(\<And>a. allowed P A (f a)) \<Longrightarrow> allowed P A (let x = e in f x)"
  by simp

lemma allowed_call [allowed_intros]:
  "(\<And>a. wire_of (item a) = []) \<Longrightarrow> (\<And>a. is_action (item a) \<longrightarrow> A (item a)) \<Longrightarrow> allowed P A (call f item)"
  unfolding allowed_def by (rule emits_call) (simp add: sent_def)

lemma allowed_notify [allowed_intros]:
  "wire_of (item event) = [] \<Longrightarrow> (is_action (item event) \<longrightarrow> A (item event)) \<Longrightarrow>
   allowed P A (notify observer item event)"
  unfolding notify_def by (intro allowed_intros) simp_all

end
