(* ===== verification/Usb_Transaction.thy ===== *)
theory Usb_Transaction
  imports Usb_Host Accessport_Session Accessport_Catalog Download_Stream
begin

text \<open>
  The bounded transfers of the AccessPort transport and the exchanges built from them
  (accessport_usb/revlink_accessport_usb.c): one submission with its deadline, the OUT and IN
  transfers of a session, the polite close, one archive record, the identity handshake and the
  download of one file into the configured sink. Lemmas give the wire traffic and the calls on
  the sink of each.
\<close>

named_theorems usb_emits

section \<open>One transfer\<close>

definition wait_for_bounded_transfer :: "'d usb_env \<Rightarrow> u8 \<Rightarrow> nat \<Rightarrow> ('d, bool) usb" where
  "wait_for_bounded_transfer env endpoint deadline_ms = do {
     done \<leftarrow> call (env_take env deadline_ms) (CALL_TAKE deadline_ms);
     if done then ret True
     else do {
       halt_status \<leftarrow> call (env_halt env endpoint) (CALL_HALT endpoint);
       flush_status \<leftarrow> (if halt_status = ESP_OK
          then call (env_flush env endpoint) (CALL_FLUSH endpoint) else ret halt_status);
       call (env_take_forever env) (\<lambda>_. CALL_TAKE_FOREVER);
       (if halt_status = ESP_OK then call (env_clear env endpoint) (CALL_CLEAR endpoint)
        else ret halt_status);
       ret False } }"

text \<open>The wait context after the call; \<open>None\<close> is the result false.\<close>

definition submit_and_wait ::
  "'d usb_env \<Rightarrow> u8 \<Rightarrow> u8 list \<Rightarrow> nat \<Rightarrow> nat \<Rightarrow> ('d, transfer_done option) usb" where
  "submit_and_wait env endpoint buffer num_bytes deadline_ms = do {
     submit_status \<leftarrow> call (env_submit env endpoint buffer num_bytes)
       (CALL_SUBMIT endpoint buffer num_bytes);
     if submit_status \<noteq> ESP_OK then ret None
     else do {
       done \<leftarrow> wait_for_bounded_transfer env endpoint deadline_ms;
       if done then do { t \<leftarrow> call (env_completion env endpoint) (CALL_DONE endpoint); ret (Some t) }
       else ret None } }"

definition acceptance_out :: "'d usb_env \<Rightarrow> u8 list \<Rightarrow> ('d, bool) usb" where
  "acceptance_out env request = do {
     r \<leftarrow> submit_and_wait env BULK_OUT request (length request) 3000;
     ret (case r of None \<Rightarrow> False
          | Some t \<Rightarrow> td_status t = TRANSFER_COMPLETED \<and> length (td_bytes t) = length request) }"

text \<open>An IN transfer of at most \<open>num_bytes\<close> bytes; \<open>None\<close> when it failed or moved nothing.\<close>

definition bulk_in :: "'d usb_env \<Rightarrow> nat \<Rightarrow> nat \<Rightarrow> ('d, u8 list option) usb" where
  "bulk_in env num_bytes deadline_ms = do {
     r \<leftarrow> submit_and_wait env BULK_IN [] num_bytes deadline_ms;
     ret (case r of None \<Rightarrow> None
          | Some t \<Rightarrow> if td_status t = TRANSFER_COMPLETED \<and> length (td_bytes t) > 0
              then Some (td_bytes t) else None) }"

definition acceptance_in :: "'d usb_env \<Rightarrow> ('d, u8 list option) usb" where
  "acceptance_in env = bulk_in env 16384 5000"

text \<open>The bytes of a request buffer that a builder filled.\<close>

fun request_bytes :: "build_result \<Rightarrow> u8 list option" where
  "request_bytes (AP_OK, Span buffer, Some n) = Some (take n buffer)"
| "request_bytes _ = None"

definition out_request :: "'d usb_env \<Rightarrow> build_result \<Rightarrow> ('d, bool) usb" where
  "out_request env built =
     (case request_bytes built of None \<Rightarrow> ret False | Some request \<Rightarrow> acceptance_out env request)"

text \<open>The request buffer of \<open>REVLINK_DOWNLOAD_REQUEST_CAPACITY\<close> bytes.\<close>

definition request_buffer :: "u8 span" where
  "request_buffer = Span (replicate 512 0)"

text \<open>The result is the pair of the return value and \<open>*acknowledged\<close>.\<close>

definition send_polite_disconnect :: "'d usb_env \<Rightarrow> bool \<Rightarrow> bool \<Rightarrow> ('d, bool \<times> bool) usb" where
  "send_polite_disconnect env out_transfer in_transfer =
     (if \<not> out_transfer then ret (False, False)
      else do {
        out_ok \<leftarrow> out_request env (disconnect_request (Span (replicate 11 0)) (Some 0));
        if \<not> out_ok then ret (False, False)
        else if \<not> in_transfer then ret (True, False)
        else do {
          r \<leftarrow> bulk_in env 512 1500;
          ret (True, case r of None \<Rightarrow> False | Some bytes \<Rightarrow> is_disconnect_ack (Span bytes)) } })"

section \<open>One archive record\<close>

text \<open>
  \<open>minimum\<close> is the smallest declared length the caller accepts; \<open>target = 0\<close> means that the
  length is not known yet.
\<close>

definition declared_length :: "nat \<Rightarrow> nat \<Rightarrow> u8 list \<Rightarrow> nat option" where
  "declared_length capacity minimum record =
     (if record ! 0 \<noteq> 0x02 \<or> record ! 1 \<noteq> 0x00 \<or> record ! 2 \<noteq> 0x00 then None
      else let target = unat (load_u16_be (drop 3 record)) + 7 in
        if target > capacity \<or> target < minimum then None else Some target)"

definition record_target :: "nat \<Rightarrow> nat \<Rightarrow> nat \<Rightarrow> u8 list \<Rightarrow> nat option" where
  "record_target capacity minimum target record =
     (if target = 0 \<and> 5 \<le> length record then declared_length capacity minimum record
      else Some target)"

definition complete_record :: "u8 list \<Rightarrow> nat \<Rightarrow> u8 list option" where
  "complete_record record target =
     (if target = 0 \<or> length record \<noteq> target then None else Some record)"

primrec archive_reads :: "'d usb_env \<Rightarrow> nat \<Rightarrow> nat \<Rightarrow> u8 list \<Rightarrow> nat \<Rightarrow> ('d, u8 list option) usb" where
  "archive_reads env 0 capacity record target = ret None"
| "archive_reads env (Suc reads) capacity record target = do {
     cancelled \<leftarrow> sync_cancelled env;
     if cancelled then ret None
     else do {
       r \<leftarrow> acceptance_in env;
       case r of
         None \<Rightarrow> ret None
       | Some bytes \<Rightarrow>
           if length bytes > capacity - length record then ret None
           else let record = record @ bytes in
             case record_target capacity 15 target record of
               None \<Rightarrow> ret None
             | Some target \<Rightarrow>
                 if target \<noteq> 0 \<and> length record \<ge> target then ret (complete_record record target)
                 else archive_reads env reads capacity record target } }"

definition read_archive_record :: "'d usb_env \<Rightarrow> nat \<Rightarrow> ('d, u8 list option) usb" where
  "read_archive_record env capacity =
     (if capacity < 15 then ret None else archive_reads env (capacity div 512 + 2) capacity [] 0)"

section \<open>The identity of the device\<close>

definition device_info_zero :: device_info where
  "device_info_zero = \<lparr>di_firmware = [], di_part_number = [], di_serial = [],
     di_install_status = [], di_vehicle = [], di_trailing_field = []\<rparr>"

text \<open>The payload of a response record; \<open>None\<close> for every other answer.\<close>

definition response_payload :: "u8 list \<Rightarrow> u8 list option" where
  "response_payload response =
     (case parse_record (Span response) (Some \<lparr>rv_opcode = 0, rv_payload = []\<rparr>) of
        (AP_OK, Some view) \<Rightarrow> if rv_opcode view = AP_OPCODE_RESPONSE then Some (rv_payload view) else None
      | _ \<Rightarrow> None)"

definition identity_response :: "nat \<Rightarrow> u8 list \<Rightarrow> device_info \<Rightarrow> device_info option" where
  "identity_response index response identity =
     (case response_payload response of
        None \<Rightarrow> None
      | Some payload \<Rightarrow>
          if index = 2 then
            (case parse_device_identity_payload (Span payload) (Some identity) of
               (AP_OK, identity') \<Rightarrow> identity' | _ \<Rightarrow> None)
          else Some identity)"

fun identity_exchanges :: "'d usb_env \<Rightarrow> nat list \<Rightarrow> device_info \<Rightarrow> ('d, device_info option) usb" where
  "identity_exchanges env [] identity = ret (Some identity)"
| "identity_exchanges env (index # rest) identity = do {
     cancelled \<leftarrow> sync_cancelled env;
     if cancelled then ret None
     else do {
       out_ok \<leftarrow> out_request env (identity_handshake_request index request_buffer (Some 0));
       if \<not> out_ok then ret None
       else do {
         r \<leftarrow> read_archive_record env 16384;
         case r of
           None \<Rightarrow> ret None
         | Some response \<Rightarrow>
             case identity_response index response identity of
               None \<Rightarrow> ret None
             | Some identity \<Rightarrow> identity_exchanges env rest identity } } }"

definition read_true_device_identity :: "'d usb_env \<Rightarrow> ('d, device_info option) usb" where
  "read_true_device_identity env = do {
     response \<leftarrow> call (env_allocate env) CALL_ALLOCATE;
     if \<not> response then ret None
     else do {
       r \<leftarrow> identity_exchanges env [0, 1, 2, 3] device_info_zero;
       ret (case r of None \<Rightarrow> None
            | Some identity \<Rightarrow> if di_serial identity = [] then None else Some identity) } }"

definition catalog_entry_zero :: catalog_entry where
  "catalog_entry_zero = \<lparr>ce_part_number = [], ce_family_code = [], ce_family_name = [],
     ce_family = FAMILY_ACTIVATION, ce_read_only_file_sync_supported = False\<rparr>"

text \<open>The check of an identity against the catalog that every file operation makes.\<close>

definition device_supported :: "device_info \<Rightarrow> bool" where
  "device_supported identity =
     (case catalog_lookup (Some (di_part_number identity)) (Some catalog_entry_zero) of
        (found, entry) \<Rightarrow> found \<and> ce_read_only_file_sync_supported (the entry))"

text \<open>The semaphore and the two transfers; the result says which transfers were allocated.\<close>

definition session_transfers :: "'d usb_env \<Rightarrow> ('d, bool \<times> bool) usb" where
  "session_transfers env = do {
     completion \<leftarrow> call (env_allocate env) CALL_ALLOCATE;
     if \<not> completion then ret (False, False)
     else do {
       out_transfer \<leftarrow> call (env_allocate env) CALL_ALLOCATE;
       if \<not> out_transfer then ret (False, False)
       else do {
         in_transfer \<leftarrow> call (env_allocate env) CALL_ALLOCATE;
         ret (True, in_transfer) } } }"

section \<open>The download of one file\<close>

definition sink_write :: "'d download_sink \<Rightarrow> 'd usb_world sink" where
  "sink_write sink data = run_state (call (dk_write sink data) (CALL_WRITE data))"

definition feed ::
  "'d download_sink \<Rightarrow> download_decoder option \<Rightarrow> u8 list
   \<Rightarrow> ('d, ap_status \<times> download_decoder option) usb" where
  "feed sink decoder data = State (\<lambda>w.
     case download_decoder_feed decoder (Span data) (Some (sink_write sink)) w of
       (status, decoder', w') \<Rightarrow> ((status, decoder'), w'))"

text \<open>\<open>None\<close> is the jump to the cleanup.\<close>

primrec payload_reads ::
  "'d usb_env \<Rightarrow> 'd download_sink \<Rightarrow> nat \<Rightarrow> download_decoder option
   \<Rightarrow> ('d, download_decoder option option) usb" where
  "payload_reads env sink 0 decoder = ret (Some decoder)"
| "payload_reads env sink (Suc reads) decoder = do {
     cancelled \<leftarrow> sync_cancelled env;
     if cancelled then ret None
     else do {
       r \<leftarrow> acceptance_in env;
       case r of
         None \<Rightarrow> ret None
       | Some bytes \<Rightarrow> do {
           fed \<leftarrow> feed sink decoder bytes;
           if fst fed \<noteq> AP_OK then ret None
           else if download_decoder_complete (snd fed) then ret (Some (snd fed))
           else payload_reads env sink reads (snd fed) } } }"

text \<open>The sum is one of 32 bit words.\<close>

definition maximum_payload_reads :: "u32 \<Rightarrow> nat" where
  "maximum_payload_reads file_size = unat (file_size + 8192 + 512 - 1) div 512 + 2"

definition temporary_prefix :: "u8 list" where
  "temporary_prefix = ascii ''/tmp/revlink/''"

definition download_transfer ::
  "'d usb_env \<Rightarrow> 'd download_sink \<Rightarrow> listing_entry \<Rightarrow> ('d, bool) usb" where
  "download_transfer env sink entry = do {
     out_ok \<leftarrow> out_request env
       (build_download (Span (le_name entry)) (Span (le_path entry)) request_buffer (Some 0));
     if \<not> out_ok then ret False
     else if length temporary_prefix + length (le_name entry) > 192 then ret False
     else do {
       out_ok \<leftarrow> out_request env
         (build_temp_notice (Span (temporary_prefix @ le_name entry)) request_buffer (Some 0));
       if \<not> out_ok then ret False
       else do {
         decoder \<leftarrow> call (env_allocate env) CALL_ALLOCATE;
         if \<not> decoder then ret False
         else do {
           r \<leftarrow> payload_reads env sink (maximum_payload_reads (le_size entry))
             (download_decoder_init (Some decoder_zeroed) (unat (le_size entry)));
           ret (case r of None \<Rightarrow> False | Some decoder \<Rightarrow> download_decoder_complete decoder) } } } }"

definition download_file_entry ::
  "'d usb_env \<Rightarrow> 'd download_sink \<Rightarrow> listing_entry \<Rightarrow> ('d, bool) usb" where
  "download_file_entry env sink entry = do {
     cancelled \<leftarrow> sync_cancelled env;
     if cancelled then ret False
     else do {
       status \<leftarrow> call (dk_begin sink (le_name entry) (le_path entry) (le_device_time_raw entry) (le_size entry))
         (CALL_BEGIN (le_name entry) (le_path entry) (le_device_time_raw entry) (le_size entry));
       if status \<noteq> ESP_OK then ret False
       else do {
         transferred \<leftarrow> download_transfer env sink entry;
         if transferred then do {
           status \<leftarrow> call (dk_commit sink) CALL_COMMIT;
           ret (status = ESP_OK) }
         else do {
           call (dk_abort sink) (\<lambda>_. CALL_ABORT);
           ret False } } } }"

section \<open>The requests as they go out\<close>

text \<open>A builder fills the request buffer with the record, when it fits.\<close>

lemma request_buffer_len: "request_buffer = Span (replicate 512 0)"
  by (simp add: request_buffer_def)

lemma small_buffer:
  "length out < n + 46 \<Longrightarrow> request_bytes (with_record opcode n body (Span out) l) = None"
  by (auto simp: with_record_def begin_record_def Let_def split: option.splits
      dest!: checked_add_SomeD)

lemma request_outcome:
  "request_bytes (build_outcome opcode payload (replicate 512 0) l)
     = (if length payload + 46 \<le> 512 then Some (archive_record opcode payload) else None)"
  by (simp add: build_outcome_def)

lemma request_list:
  "request_bytes (build_list (Span path) request_buffer (Some 0))
     = (if length path + 50 \<le> 512 then Some (archive_record AP_OPCODE_LIST (lp_field path)) else None)"
proof (cases "length path + 50 \<le> 512")
  case True
  then show ?thesis by (simp add: request_buffer_def build_list_outcome request_outcome SIZE_MAX_def)
next
  case False
  then show ?thesis
    by (auto simp: request_buffer_def build_list_def small_buffer split: option.splits
        dest!: checked_add_SomeD)
qed

lemma request_temp_notice:
  "request_bytes (build_temp_notice (Span path) request_buffer (Some 0))
     = (if length path + 50 \<le> 512 then Some (archive_record AP_OPCODE_TEMP_NOTICE (lp_field path))
        else None)"
proof (cases "length path + 50 \<le> 512")
  case True
  then show ?thesis by (simp add: request_buffer_def build_temp_notice_outcome request_outcome SIZE_MAX_def)
next
  case False
  then show ?thesis
    by (auto simp: request_buffer_def build_temp_notice_def small_buffer split: option.splits
        dest!: checked_add_SomeD)
qed

lemma name_path_length_SomeD:
  "name_path_length (Span name) (Span path) = Some n \<Longrightarrow> n = 37 + length name + length path"
  by (auto simp: name_path_length_def split: bind_splits dest!: checked_add_SomeD)

lemma request_download:
  "request_bytes (build_download (Span name) (Span path) request_buffer (Some 0))
     = (if length name + length path + 83 \<le> 512
        then Some (archive_record AP_OPCODE_DOWNLOAD (delete_payload name path)) else None)"
proof (cases "length name + length path + 83 \<le> 512")
  case True
  then show ?thesis by (simp add: request_buffer_def build_download_outcome request_outcome SIZE_MAX_def)
next
  case False
  then show ?thesis
    by (auto simp: request_buffer_def build_download_def small_buffer split: option.splits
        dest!: name_path_length_SomeD)
qed

lemma request_delete:
  "request_bytes (build_delete (Span name) (Span path) request_buffer (Some 0))
     = (if length name + length path + 83 \<le> 512
        then Some (archive_record AP_OPCODE_DELETE (delete_payload name path)) else None)"
proof (cases "length name + length path + 83 \<le> 512")
  case True
  then show ?thesis by (simp add: request_buffer_def build_delete_outcome request_outcome SIZE_MAX_def)
next
  case False
  then show ?thesis
    by (auto simp: request_buffer_def build_delete_def small_buffer split: option.splits
        dest!: name_path_length_SomeD)
qed

lemma request_upload:
  "request_bytes (build_upload (Span name) (Span path) t sz request_buffer (Some 0))
     = (if length name + length path + 83 \<le> 512
        then Some (archive_record AP_OPCODE_UPLOAD (upload_payload name path t sz)) else None)"
proof (cases "length name + length path + 83 \<le> 512")
  case True
  then show ?thesis by (simp add: request_buffer_def build_upload_outcome request_outcome SIZE_MAX_def)
next
  case False
  then show ?thesis
    by (auto simp: request_buffer_def build_upload_def small_buffer split: option.splits
        dest!: name_path_length_SomeD)
qed

lemma request_disconnect:
  "request_bytes (disconnect_request (Span (replicate 11 0)) (Some 0)) = Some DISCONNECT_REQUEST"
  by (simp add: disconnect_request_def blit_0 DISCONNECT_REQUEST_def)

lemma handshake_lengths: "index < 4 \<Longrightarrow> length (IDENTITY_HANDSHAKE ! index) = 11"
  by (auto simp: less_Suc_eq numeral_eq_Suc IDENTITY_HANDSHAKE_def)

lemma request_handshake:
  "request_bytes (identity_handshake_request index request_buffer (Some 0))
     = (if index < 4 then Some (IDENTITY_HANDSHAKE ! index) else None)"
  by (simp add: request_buffer_def identity_handshake_request_def blit_0 handshake_lengths)

lemmas request_simps = request_list request_temp_notice request_download request_delete
  request_upload request_disconnect request_handshake

section \<open>Traffic of the transfers\<close>

lemma quiet_call_bind:
  assumes "\<And>a. quiet [item a]" and "\<And>a cs. quiet cs \<Longrightarrow> emits (f a) (\<lambda>b ds. R b (cs @ ds))"
  shows "emits (State_Monad.bind (call g item) f) R"
  by (rule emits_bind [where Q = "\<lambda>_ cs. quiet cs"]) (simp_all add: emits_call assms)

lemma quiet_call: "(\<And>a. quiet [item a]) \<Longrightarrow> emits (call g item) (\<lambda>_ cs. quiet cs)"
  by (simp add: emits_call)

lemma wait_emits: "emits (wait_for_bounded_transfer env endpoint deadline) (\<lambda>_ cs. quiet cs)"
proof -
  have optional: "emits (if b then call g item else State_Monad.return x) (\<lambda>_ cs. quiet cs)"
    if "\<And>a. quiet [item a]" for b g item x
    using that by (simp add: quiet_call emits_ret)
  show ?thesis
    unfolding wait_for_bounded_transfer_def
    apply (rule quiet_call_bind, simp add: quiet_def, rule emits_if, rule emits_ret, simp)
    apply (rule quiet_call_bind, simp add: quiet_def)
    apply (rule emits_bind [OF optional], simp add: quiet_def)
    apply (rule quiet_call_bind, simp add: quiet_def)
    apply (rule emits_bind [OF optional], simp add: quiet_def, rule emits_ret, simp)
    done
qed

lemma submit_emits:
  "emits (submit_and_wait env endpoint buffer n deadline)
     (\<lambda>r cs. actions cs = []
       \<and> wire cs = (if endpoint = BULK_OUT then [Sent (take n buffer)] else [])
          @ (case r of None \<Rightarrow> [] | Some t \<Rightarrow> wire_of (CALL_DONE endpoint t)))"
  unfolding submit_and_wait_def
  apply (rule emits_bind [where Q = "\<lambda>a cs. cs = [CALL_SUBMIT endpoint buffer n a]"])
   apply (simp add: emits_call)
  apply (rule emits_if)
   apply (rule emits_ret, simp)
  apply (rule emits_bind [OF wait_emits])
  apply (auto intro!: emits_ret emits_bind [where Q = "\<lambda>t cs. cs = [CALL_DONE endpoint t]"] emits_call
      simp: quiet_def)
  done

lemma acceptance_out_emits:
  "emits (acceptance_out env request) (\<lambda>ok cs. actions cs = [] \<and> wire cs = [Sent request])"
  unfolding acceptance_out_def
  by (rule emits_bind [OF submit_emits], rule emits_ret) (auto split: option.splits)

lemma out_request_emits:
  "emits (out_request env built) (\<lambda>ok cs. actions cs = []
     \<and> (case request_bytes built of None \<Rightarrow> \<not> ok \<and> wire cs = [] | Some request \<Rightarrow> wire cs = [Sent request]))"
  unfolding out_request_def
  by (rule emits_option) (auto intro!: emits_ret emits_weaken [OF acceptance_out_emits])

lemma bulk_in_emits:
  "emits (bulk_in env n deadline) (\<lambda>r cs. actions cs = []
     \<and> wire cs = (case r of None \<Rightarrow> [] | Some bytes \<Rightarrow> [Received bytes]) \<and> r \<noteq> Some [])"
  unfolding bulk_in_def
  by (rule emits_bind [OF submit_emits], rule emits_ret) (auto split: option.splits)

lemmas acceptance_in_emits = bulk_in_emits [of _ 16384 5000, folded acceptance_in_def]

lemma cancelled_emits: "emits (sync_cancelled env) (\<lambda>b cs. cs = [CALL_CANCEL_READ b])"
  unfolding sync_cancelled_def by (rule emits_call) simp

text \<open>The polite close sends one request and reads at most one answer.\<close>

lemma disconnect_emits:
  "emits (send_polite_disconnect env out_transfer in_transfer) (\<lambda>(sent_ok, acknowledged) cs.
     actions cs = [] \<and> (\<not> out_transfer \<longrightarrow> \<not> sent_ok \<and> \<not> acknowledged \<and> wire cs = [])
     \<and> (out_transfer \<longrightarrow> (\<exists>answers. wire cs = Sent DISCONNECT_REQUEST # map Received answers
         \<and> (acknowledged \<longrightarrow> sent_ok \<and> answers = [DISCONNECT_ACK]))))"
  unfolding send_polite_disconnect_def
  apply (rule emits_if)
   apply (rule emits_ret, simp)
  apply (rule emits_bind [OF out_request_emits])
  apply (rule emits_if)
   apply (rule emits_ret, simp add: request_disconnect)
  apply (rule emits_if)
   apply (rule emits_ret, simp add: request_disconnect)
  apply (rule emits_bind [OF bulk_in_emits])
  apply (rule emits_ret)
  subgoal for a cs r ds
    by (rule exI [of _ "case r of None \<Rightarrow> [] | Some bytes \<Rightarrow> [bytes]"] | clarsimp
      | auto simp: request_disconnect is_disconnect_ack_def split: option.splits)+
  done

section \<open>One record\<close>

text \<open>The bytes are one record as its own header declares it.\<close>

definition framed :: "nat \<Rightarrow> nat \<Rightarrow> u8 list \<Rightarrow> bool" where
  "framed capacity minimum record \<longleftrightarrow>
     5 \<le> length record \<and> declared_length capacity minimum record = Some (length record)"

text \<open>The target is known as soon as the header is.\<close>

definition target_known :: "nat \<Rightarrow> nat \<Rightarrow> nat \<Rightarrow> u8 list \<Rightarrow> bool" where
  "target_known capacity minimum target record \<longleftrightarrow>
     (if target = 0 then length record < 5
      else 5 \<le> length record \<and> declared_length capacity minimum record = Some target)"

lemma declared_length_append:
  "5 \<le> length record \<Longrightarrow>
   declared_length capacity minimum (record @ bytes) = declared_length capacity minimum record"
  by (auto simp: numeral_eq_Suc Suc_le_length_iff declared_length_def load_u16_be_def Let_def)

lemma declared_length_pos: "declared_length capacity minimum record = Some t \<Longrightarrow> 0 < t"
  by (auto simp: declared_length_def Let_def split: if_splits)

lemma record_target_known:
  assumes "record_target capacity minimum target (record @ bytes) = Some target'"
    and "target_known capacity minimum target record"
  shows "target_known capacity minimum target' (record @ bytes)"
  using assms declared_length_pos [of capacity minimum "record @ bytes"]
    declared_length_append [of "record" capacity minimum bytes]
  by (auto simp: record_target_def target_known_def split: if_splits)

lemma complete_record_framed:
  "complete_record record target = Some x \<Longrightarrow> target_known capacity minimum target record \<Longrightarrow>
   x = record \<and> framed capacity minimum record"
  by (auto simp: complete_record_def target_known_def framed_def split: if_splits)

text \<open>A reader of one record receives some pieces, and what it returns is what it received.\<close>

definition record_traffic :: "nat \<Rightarrow> nat \<Rightarrow> u8 list \<Rightarrow> u8 list option \<Rightarrow> usb_call list \<Rightarrow> bool" where
  "record_traffic capacity minimum earlier r cs \<longleftrightarrow> actions cs = [] \<and> (\<exists>pieces. wire cs = map Received pieces
     \<and> (\<forall>x. r = Some x \<longrightarrow> x = earlier @ concat pieces \<and> framed capacity minimum x))"

lemma record_traffic_None [simp]:
  "record_traffic capacity minimum earlier None cs \<longleftrightarrow> actions cs = [] \<and> (\<exists>pieces. wire cs = map Received pieces)"
  by (simp add: record_traffic_def)

lemma record_traffic_step:
  "actions cs = [] \<Longrightarrow> wire cs = [Received bytes] \<Longrightarrow> record_traffic capacity minimum (earlier @ bytes) r ds
   \<Longrightarrow> record_traffic capacity minimum earlier r (cs @ ds)"
  unfolding record_traffic_def by (auto intro: exI [of _ "bytes # _"])

lemma archive_reads_emits:
  "target_known capacity 15 target record \<Longrightarrow>
   emits (archive_reads env reads capacity record target) (record_traffic capacity 15 record)"
proof (induction reads arbitrary: "record" target)
  case 0
  then show ?case by (simp add: emits_ret)
next
  case (Suc reads)
  have none: "emits (State_Monad.return None) (\<lambda>r ds. record_traffic capacity 15 record r (cs @ ds))"
    if "actions cs = []" "\<exists>pieces. wire cs = map Received pieces" for cs
    using that by (simp add: emits_ret)
  have step: "emits m (\<lambda>r ds. record_traffic capacity 15 record r (cs @ ds))"
    if "actions cs = []" "wire cs = [Received bytes]" "emits m (record_traffic capacity 15 (record @ bytes))"
    for m cs bytes
    using that by (blast intro: emits_weaken [OF that(3)] record_traffic_step)
  show ?case
    apply simp
    apply (rule emits_bind [OF cancelled_emits])
    apply (rule emits_if, rule none, simp, simp)
    apply (rule emits_bind [OF acceptance_in_emits])
    apply (rule emits_option)
     apply (rule emits_ret, simp)
    subgoal for b cs r ds bytes
      apply (rule emits_if, rule emits_ret, simp, rule exI [of _ "[bytes]"], simp)
      apply (simp only: Let_def append_assoc [symmetric])
      apply (rule step; simp?)
      apply (rule emits_option, rule emits_ret, simp)
      subgoal for target'
        using record_target_known [OF _ Suc.prems, of bytes target']
        by (auto intro!: emits_ret Suc.IH simp: record_traffic_def dest: complete_record_framed)
      done
    done
qed

lemma read_record_emits: "emits (read_archive_record env capacity) (record_traffic capacity 15 [])"
  unfolding read_archive_record_def
  by (rule emits_if) (simp_all add: emits_ret archive_reads_emits target_known_def del: archive_reads.simps)

section \<open>The identity\<close>

lemma response_payload_Some:
  "response_payload r = Some p \<longleftrightarrow> r = archive_record AP_OPCODE_RESPONSE p \<and> length p \<le> 65496"
  (is "?l \<longleftrightarrow> ?r")
proof
  assume ?l
  then obtain view where "parse_record (Span r) (Some \<lparr>rv_opcode = 0, rv_payload = []\<rparr>) = (AP_OK, Some view)"
    "rv_opcode view = AP_OPCODE_RESPONSE" "rv_payload view = p"
    by (auto simp: response_payload_def split: prod.splits ap_status.splits option.splits if_splits)
  with parse_record_OK_D [OF this(1)] show ?r by simp
next
  assume ?r
  then show ?l by (simp add: response_payload_def parse_archive_record)
qed

text \<open>Requests with the pieces of their answers; the last answer may be missing or cut short.\<close>

definition conversation :: "u8 list list \<Rightarrow> u8 list list list \<Rightarrow> wire_item list" where
  "conversation requests answers =
     concat (map2 (\<lambda>request pieces. Sent request # map Received pieces) requests answers)"

lemma conversation_simps [simp]:
  "conversation [] answers = []" "conversation requests [] = []"
  "conversation (q # requests) (ps # answers) = Sent q # map Received ps @ conversation requests answers"
  by (simp_all add: conversation_def)

fun identity_parse :: "nat list \<Rightarrow> u8 list list \<Rightarrow> device_info \<Rightarrow> device_info option" where
  "identity_parse (index # rest) (r # rs) identity =
     (case identity_response index r identity of
        None \<Rightarrow> None | Some identity' \<Rightarrow> identity_parse rest rs identity')"
| "identity_parse _ _ identity = Some identity"

definition exchange_traffic ::
  "nat list \<Rightarrow> device_info \<Rightarrow> device_info option \<Rightarrow> usb_call list \<Rightarrow> bool" where
  "exchange_traffic indices identity r cs \<longleftrightarrow> actions cs = [] \<and>
     (\<exists>answers. length answers \<le> length indices
        \<and> wire cs = conversation (map ((!) IDENTITY_HANDSHAKE) indices) answers
        \<and> (\<forall>identity'. r = Some identity' \<longrightarrow> length answers = length indices
             \<and> identity_parse indices (map concat answers) identity = Some identity'))"

lemma exchange_stops:
  "actions cs = [] \<Longrightarrow> wire cs = [] \<Longrightarrow> exchange_traffic indices identity None cs"
  unfolding exchange_traffic_def by (auto intro: exI [of _ "[]"])

lemma exchange_cut:
  "actions cs = [] \<Longrightarrow> wire cs = Sent (IDENTITY_HANDSHAKE ! index) # map Received pieces \<Longrightarrow>
   exchange_traffic (index # rest) identity None cs"
  unfolding exchange_traffic_def by (auto intro: exI [of _ "[pieces]"])

lemma exchange_step:
  assumes "actions cs = []" and "wire cs = Sent (IDENTITY_HANDSHAKE ! index) # map Received pieces"
    and "identity_response index (concat pieces) identity = Some identity'"
    and t: "exchange_traffic rest identity' r ds"
  shows "exchange_traffic (index # rest) identity r (cs @ ds)"
proof -
  from t obtain answers where "length answers \<le> length rest" "actions ds = []"
    "wire ds = conversation (map ((!) IDENTITY_HANDSHAKE) rest) answers"
    "\<forall>i. r = Some i \<longrightarrow> length answers = length rest
      \<and> identity_parse rest (map concat answers) identity' = Some i"
    by (auto simp: exchange_traffic_def)
  then show ?thesis
    unfolding exchange_traffic_def using assms(1-3) by (auto intro!: exI [of _ "pieces # answers"])
qed

lemma exchanges_emits:
  "\<forall>index \<in> set indices. index < 4 \<Longrightarrow>
   emits (identity_exchanges env indices identity) (exchange_traffic indices identity)"
proof (induction indices arbitrary: identity)
  case Nil
  then show ?case by (simp add: emits_ret exchange_traffic_def)
next
  case (Cons index rest)
  show ?case
    apply simp
    apply (rule emits_bind [OF cancelled_emits])
    apply (rule emits_if, rule emits_ret, simp add: exchange_stops)
    apply (rule emits_bind [OF out_request_emits])
    apply (rule emits_if, rule emits_ret)
    subgoal for b cs ok ds
      using Cons.prems by (auto simp: request_handshake intro: exchange_cut [where pieces = "[]"])
    apply (rule emits_bind [OF read_record_emits])
    subgoal for b cs ok ds r es
      using Cons.prems
      apply (cases r)
       apply (clarsimp simp: request_handshake)
       apply (rule emits_ret, rule exchange_cut, simp, simp)
      apply (clarsimp simp: request_handshake record_traffic_def)
      subgoal for pieces
        apply (rule emits_option, rule emits_ret, rule exchange_cut [where pieces = pieces], simp, simp)
        subgoal for identity'
          by (rule emits_weaken [OF Cons.IH]) (auto intro!: exchange_step
              [of "CALL_CANCEL_READ False # ds @ es" index pieces _ identity', simplified])
        done
      done
    done
qed

lemma handshake_requests: "map ((!) IDENTITY_HANDSHAKE) [0, 1, 2, 3] = IDENTITY_HANDSHAKE"
  by (simp add: IDENTITY_HANDSHAKE_def)

text \<open>
  The device has identified itself: four response records, of which the third carries the
  identity.
\<close>

definition identifies :: "u8 list list \<Rightarrow> device_info \<Rightarrow> bool" where
  "identifies responses identity \<longleftrightarrow>
     (\<exists>payloads. responses = map (archive_record AP_OPCODE_RESPONSE) payloads \<and> length payloads = 4
        \<and> parse_device_identity_payload (Span (payloads ! 2)) (Some device_info_zero) = (AP_OK, Some identity))
     \<and> di_serial identity \<noteq> []"

definition identity_traffic :: "device_info option \<Rightarrow> usb_call list \<Rightarrow> bool" where
  "identity_traffic r cs \<longleftrightarrow> actions cs = [] \<and>
     (\<exists>answers. length answers \<le> 4 \<and> wire cs = conversation IDENTITY_HANDSHAKE answers
        \<and> (\<forall>identity. r = Some identity \<longrightarrow> identifies (map concat answers) identity))"

lemma identity_parse_identifies:
  assumes "identity_parse [0, 1, 2, 3] rs device_info_zero = Some identity" and "length rs = 4"
    and "di_serial identity \<noteq> []"
  shows "identifies rs identity"
proof -
  from assms(2) obtain a b c d where rs: "rs = [a, b, c, d]"
    by (auto simp: numeral_eq_Suc length_Suc_conv)
  from assms(1) obtain p q s t where p: "response_payload a = Some p" "response_payload b = Some q"
    "response_payload c = Some s" "response_payload d = Some t"
    and i: "parse_device_identity_payload (Span s) (Some device_info_zero) = (AP_OK, Some identity)"
    by (auto simp: rs identity_response_def split: option.splits prod.splits ap_status.splits)
  show ?thesis
    unfolding identifies_def
    using p i assms(3) by (auto simp: rs response_payload_Some intro!: exI [of _ "[p, q, s, t]"])
qed

lemma handshake_emits:
  "emits (identity_exchanges env [0, 1, 2, 3] device_info_zero) (\<lambda>r cs. actions cs = [] \<and>
     (\<exists>answers. length answers \<le> 4 \<and> wire cs = conversation IDENTITY_HANDSHAKE answers
        \<and> (\<forall>identity. r = Some identity \<longrightarrow> length answers = 4
             \<and> identity_parse [0, 1, 2, 3] (map concat answers) device_info_zero = Some identity)))"
proof (rule emits_weaken [OF exchanges_emits])
  fix r cs
  assume "exchange_traffic [0, 1, 2, 3] device_info_zero r cs"
  then show "actions cs = [] \<and>
     (\<exists>answers. length answers \<le> 4 \<and> wire cs = conversation IDENTITY_HANDSHAKE answers
        \<and> (\<forall>identity. r = Some identity \<longrightarrow> length answers = 4
             \<and> identity_parse [0, 1, 2, 3] (map concat answers) device_info_zero = Some identity))"
    unfolding exchange_traffic_def handshake_requests by (simp add: eval_nat_numeral)
qed simp

lemma identity_emits: "emits (read_true_device_identity env) identity_traffic"
  unfolding read_true_device_identity_def
  apply (rule quiet_call_bind, simp add: quiet_def)
  apply (rule emits_if, rule emits_ret, simp add: identity_traffic_def quiet_def, rule exI [of _ "[]"], simp)
  apply (rule emits_bind [OF handshake_emits], rule emits_ret)
  subgoal for b cs r ds
    unfolding identity_traffic_def
    by (clarsimp simp: quiet_def) (rule exI, auto intro!: identity_parse_identifies split: option.splits if_splits)
  done

section \<open>The sink of a download\<close>

text \<open>What the sink has stored: the bytes of the writes it accepted.\<close>

fun written_of :: "usb_call \<Rightarrow> u8 list" where
  "written_of (CALL_WRITE data True) = data"
| "written_of _ = []"

definition written :: "usb_call list \<Rightarrow> u8 list" where
  "written cs = concat (map written_of cs)"

lemma written_simps [simp]:
  "written [] = []" "written (c # cs) = written_of c @ written cs"
  "written (cs @ ds) = written cs @ written ds"
  by (simp_all add: written_def)

abbreviation accepted :: "u8 list \<Rightarrow> usb_call" where "accepted data \<equiv> CALL_WRITE data True"

lemma written_accepted [simp]: "written (map accepted ds) = concat ds"
  by (induction ds) simp_all

lemma written_actions: "written (actions cs) = written cs"
proof (induction cs)
  case (Cons c cs)
  then show ?case by (cases c) simp_all
qed simp

lemma sink_write_run:
  "sink_write sink data w = (ok, w') \<Longrightarrow> uw_calls w' = uw_calls w @ [CALL_WRITE data ok]"
  by (auto simp: sink_write_def call_def split: prod.splits)

interpretation usb_sink: payload_sink "sink_write sink" "\<lambda>w. written (uw_calls w)"
  "\<lambda>w n. \<forall>data d. fst (dk_write sink data d)" for sink :: "'d download_sink"
proof
  fix xs w w'
  assume "sink_write sink xs w = (True, w')"
  then show "written (uw_calls w') = written (uw_calls w) @ xs" by (simp add: sink_write_run)
next
  fix w :: "'d usb_world" and n xs
  assume "\<forall>data d. fst (dk_write sink data d)"
  then show "fst (sink_write sink xs w) \<and> (\<forall>data d. fst (dk_write sink data d))"
    by (simp add: sink_write_def call_def split: prod.splits) (metis fst_conv)
qed

text \<open>Feeding calls the sink only, and goes on after accepted writes only.\<close>

definition only_writes :: "ap_status \<Rightarrow> usb_call list \<Rightarrow> bool" where
  "only_writes status cs \<longleftrightarrow> (\<exists>ds. cs = map accepted ds
     \<or> status = AP_SINK_ERROR \<and> (\<exists>data. cs = map accepted ds @ [CALL_WRITE data False]))"

lemma only_writes_intros:
  "only_writes status []" "only_writes status [accepted x]"
  "only_writes AP_SINK_ERROR [CALL_WRITE x False]"
  "only_writes status cs \<Longrightarrow> only_writes status (accepted x # cs)"
proof -
  show "only_writes status []" by (simp add: only_writes_def)
  show "only_writes status [accepted x]"
    unfolding only_writes_def by (rule exI [of _ "[x]"]) simp
  show "only_writes AP_SINK_ERROR [CALL_WRITE x False]"
    unfolding only_writes_def by (rule exI [of _ "[]"]) simp
  assume "only_writes status cs"
  then show "only_writes status (accepted x # cs)"
    unfolding only_writes_def by (elim exE, intro exI [of _ "x # _"]) auto
qed

lemma only_writes_wire: "only_writes status cs \<Longrightarrow> wire cs = [] \<and> actions cs = cs"
proof -
  have "wire (map accepted ds) = [] \<and> actions (map accepted ds) = map accepted ds" for ds
    by (induction ds) simp_all
  then show "only_writes status cs \<Longrightarrow> wire cs = [] \<and> actions cs = cs"
    by (auto simp: only_writes_def)
qed

lemma feed_turn_calls:
  assumes "feed_turn (sink_write sink) d data w = (r, d', rest, w')"
  shows "uw_calls w' = uw_calls w \<or> r = Some AP_SINK_ERROR \<and> (\<exists>x. uw_calls w' = uw_calls w @ [CALL_WRITE x False])
    \<or> (\<exists>x. uw_calls w' = uw_calls w @ [accepted x])"
  using assms
  by (cases "dd_state d") (auto simp: feed_turn_def payload_turn_def Let_def
      split: prod.splits if_splits dest!: sink_write_run)

lemma feed_loop_calls:
  assumes "feed_loop (sink_write sink) d data w = (status, d', w')"
  shows "\<exists>cs. uw_calls w' = uw_calls w @ cs \<and> only_writes status cs"
  using assms
proof (induction "length data + dd_rank d" arbitrary: d data w rule: less_induct)
  case less
  show ?case
  proof (cases "data = []")
    case True
    then show ?thesis using less.prems by (simp add: feed_loop.simps only_writes_def)
  next
    case False
    obtain r d1 rest w1 where turn: "feed_turn (sink_write sink) d data w = (r, d1, rest, w1)"
      using prod_cases4 by blast
    note calls = feed_turn_calls [OF turn]
    show ?thesis
    proof (cases r)
      case (Some st)
      then have "status = st \<and> w' = w1" using less.prems False turn by (subst (asm) feed_loop.simps) simp
      then show ?thesis using calls Some by (auto intro: only_writes_intros)
    next
      case None
      then have run: "feed_loop (sink_write sink) d1 rest w1 = (status, d', w')"
        using less.prems False turn by (subst (asm) feed_loop.simps) simp
      have "length rest + dd_rank d1 < length data + dd_rank d"
        using feed_turn_progress [OF turn [unfolded None] False] .
      from less.hyps [OF this run] obtain cs where cs: "uw_calls w' = uw_calls w1 @ cs" "only_writes status cs"
        by blast
      then show ?thesis using calls None by (auto intro: only_writes_intros)
    qed
  qed
qed

lemma feed_emits:
  "emits (feed sink decoder data) (\<lambda>r cs. only_writes (fst r) cs)"
proof (rule emitsI)
  fix w a w'
  assume "run_state (feed sink decoder data) w = (a, w')"
  then show "\<exists>cs. uw_calls w' = uw_calls w @ cs \<and> only_writes (fst a) cs"
    by (auto simp: feed_def download_decoder_feed_def only_writes_intros
        split: prod.splits option.splits if_splits dest!: feed_loop_calls)
qed

text \<open>Reading the payload: the transfers with the writes they cause.\<close>

definition payload_traffic :: "download_decoder option option \<Rightarrow> usb_call list \<Rightarrow> bool" where
  "payload_traffic r cs \<longleftrightarrow> (\<exists>pieces. wire cs = map Received pieces)
     \<and> (\<exists>ds. actions cs = map accepted ds
          \<or> r = None \<and> (\<exists>data. actions cs = map accepted ds @ [CALL_WRITE data False]))"

lemma payload_traffic_stop [simp]:
  "actions cs = [] \<Longrightarrow> wire cs = map Received pieces \<Longrightarrow> payload_traffic r cs"
  by (auto simp: payload_traffic_def intro: exI [of _ "[]"])

lemma payload_traffic_step:
  assumes "actions cs = []" and "wire cs = [Received bytes]" and w: "only_writes status ws"
    and "status = AP_OK" and t: "payload_traffic r ds"
  shows "payload_traffic r (cs @ ws @ ds)"
proof -
  from w assms(4) obtain xs where xs: "ws = map accepted xs" by (auto simp: only_writes_def)
  from t obtain pieces ys where ys: "wire ds = map Received pieces" "actions ds = map accepted ys
      \<or> r = None \<and> (\<exists>data. actions ds = map accepted ys @ [CALL_WRITE data False])"
    by (auto simp: payload_traffic_def)
  show ?thesis
    using assms(1,2) ys only_writes_wire [OF w] xs
    unfolding payload_traffic_def
    by (intro conjI exI [of _ "bytes # pieces"] exI [of _ "xs @ ys"]) auto
qed

lemma payload_traffic_last:
  assumes "actions cs = []" and "wire cs = [Received bytes]" and w: "only_writes status ws"
    and "status \<noteq> AP_OK \<Longrightarrow> r = None"
  shows "payload_traffic r (cs @ ws)"
proof -
  from w obtain ds where "ws = map accepted ds
      \<or> status = AP_SINK_ERROR \<and> (\<exists>data. ws = map accepted ds @ [CALL_WRITE data False])"
    by (auto simp: only_writes_def)
  then show ?thesis
    using assms only_writes_wire [OF w] unfolding payload_traffic_def
    by (intro conjI exI [of _ "[bytes]"] exI [of _ ds]) auto
qed

lemma payload_reads_emits: "emits (payload_reads env sink reads decoder) payload_traffic"
proof (induction reads arbitrary: decoder)
  case 0
  then show ?case by (simp add: emits_ret payload_traffic_stop [of "[]" "[]"])
next
  case (Suc reads)
  show ?case
    apply simp
    apply (rule emits_bind [OF cancelled_emits])
    apply (rule emits_if, rule emits_ret, rule payload_traffic_stop [where pieces = "[]"], simp, simp)
    apply (rule emits_bind [OF acceptance_in_emits])
    apply (rule emits_option, rule emits_ret, rule payload_traffic_stop [where pieces = "[]"], simp, simp)
    apply (rule emits_bind [OF feed_emits])
    subgoal for b cs r ds bytes fed ws
      using payload_traffic_last [of "CALL_CANCEL_READ False # ds" bytes "fst fed" ws]
        payload_traffic_step [of "CALL_CANCEL_READ False # ds" bytes "fst fed" ws]
      by (intro emits_if emits_ret emits_weaken [OF Suc.IH]) auto
    done
qed

text \<open>The decoder stays in step with what was received and written.\<close>

lemma payload_reads_hold:
  assumes "run_state (payload_reads env sink reads (Some d)) w = (r, w')"
    and "usb_sink.holds sink e s b False d w"
  shows "\<exists>cs. uw_calls w' = uw_calls w @ cs \<and> (\<forall>d'. r = Some d' \<longrightarrow>
    (\<exists>d1. d' = Some d1 \<and> usb_sink.holds sink e (s @ concat (received cs)) b False d1 w'))"
  using assms
proof (induction reads arbitrary: d w s)
  case 0
  then show ?case by auto
next
  case (Suc reads)
  obtain c w1 where c: "run_state (sync_cancelled env) w = (c, w1)" by fastforce
  have cc: "uw_calls w1 = uw_calls w @ [CALL_CANCEL_READ c]"
    using emitsE [OF cancelled_emits c] by metis
  obtain x w2 where x: "run_state (acceptance_in env) w1 = (x, w2)" by fastforce
  obtain ds where ds: "uw_calls w2 = uw_calls w1 @ ds" "actions ds = []"
    "wire ds = (case x of None \<Rightarrow> [] | Some bytes \<Rightarrow> [Received bytes])"
    using emitsE [OF acceptance_in_emits x] by metis
  show ?case
  proof (cases "c \<or> x = None")
    case True
    then show ?thesis using Suc.prems(1) c x cc ds by (auto split: if_splits)
  next
    case False
    then obtain bytes where bytes: "\<not> c" "x = Some bytes" by auto
    obtain st d1' w3 where f: "run_state (feed sink (Some d) bytes) w2 = ((st, d1'), w3)" by (metis prod.collapse)
    then have df: "download_decoder_feed (Some d) (Span bytes) (Some (sink_write sink)) w2 = (st, d1', w3)"
      by (auto simp: feed_def split: prod.splits)
    have "written ds = []" using written_actions [of ds] ds(2) by simp
    then have "usb_sink.holds sink e s b False d w2"
      using Suc.prems(2) cc ds(1) by (simp add: usb_sink.holds_def)
    from usb_sink.feed_outcome [OF this, of bytes] df obtain d1 where d1: "d1' = Some d1"
      "st = AP_OK \<longrightarrow> usb_sink.holds sink e (s @ bytes) b False d1 w3"
      by (auto simp: usb_sink.outcome_def)
    obtain ws where ws: "uw_calls w3 = uw_calls w2 @ ws" "only_writes st ws"
      using emitsE [OF feed_emits f] by auto
    have rw: "received ws = []" "received ds = [bytes]"
      using only_writes_wire [OF ws(2)] ds(3) bytes(2) by (simp_all add: received_def)
    show ?thesis
    proof (cases "st = AP_OK \<and> dd_state d1 \<noteq> DD_COMPLETE")
      case False
      then have "w' = w3 \<and> (r = None \<or> st = AP_OK \<and> r = Some (Some d1))"
        using Suc.prems(1) c x f bytes d1(1) by (auto split: if_splits)
      then show ?thesis using d1 cc ds(1) ws(1) rw by auto
    next
      case True
      then have run: "run_state (payload_reads env sink reads (Some d1)) w3 = (r, w')"
        using Suc.prems(1) c x f bytes d1(1) by simp
      from Suc.IH [OF run] d1(2) True obtain es where "uw_calls w' = uw_calls w3 @ es"
        "\<forall>d'. r = Some d' \<longrightarrow> (\<exists>d2. d' = Some d2
          \<and> usb_sink.holds sink e ((s @ bytes) @ concat (received es)) b False d2 w')" by blast
      then show ?thesis using cc ds(1) ws(1) rw by auto
    qed
  qed
qed

lemma payload_reads_nothing:
  assumes "run_state (payload_reads env sink reads (Some (decoder_init 0))) w = (r, w')"
  shows "r = None \<or> r = Some (Some (decoder_init 0))"
proof (cases reads)
  case 0
  then show ?thesis using assms by simp
next
  case (Suc n)
  have "run_state (feed sink (Some (decoder_init 0)) bytes) v = ((AP_INVALID_ARGUMENT, Some (decoder_init 0)), v)"
    for bytes v by (simp add: feed_def download_decoder_feed_def decoder_init_def decoder_zeroed_def)
  then show ?thesis using assms Suc by (auto split: prod.splits if_splits option.splits)
qed

text \<open>A completed download: the accepted writes are the payload of the stream received.\<close>

definition stream_stored :: "nat \<Rightarrow> u8 list list \<Rightarrow> usb_call list \<Rightarrow> bool" where
  "stream_stored e ds cs \<longleftrightarrow> (\<exists>extra. download_stream e (concat ds) extra (concat (received cs)))"

lemma payload_emits:
  "emits (payload_reads env sink reads (Some (decoder_init e))) (\<lambda>r cs. payload_traffic r cs
     \<and> (\<forall>d. r = Some d \<longrightarrow> download_decoder_complete d \<longrightarrow>
          (\<exists>ds. actions cs = map accepted ds \<and> stream_stored e ds cs)))"
proof (rule emitsI)
  fix w r w'
  assume run: "run_state (payload_reads env sink reads (Some (decoder_init e))) w = (r, w')"
  obtain cs where cs: "uw_calls w' = uw_calls w @ cs" "payload_traffic r cs"
    by (rule emitsE [OF payload_reads_emits run])
  have "\<exists>ds. actions cs = map accepted ds \<and> stream_stored e ds cs"
    if r: "r = Some d" "download_decoder_complete d" for d
  proof -
    obtain ds where ds: "actions cs = map accepted ds"
      using cs(2) r(1) by (auto simp: payload_traffic_def)
    have e: "0 < e"
      using payload_reads_nothing [of env sink reads w r w'] run r
      by (cases "e = 0") (auto simp: decoder_init_def decoder_zeroed_def)
    then have "usb_sink.holds sink e [] (written (uw_calls w)) False (decoder_init e) w"
      by (intro usb_sink.holds_init) simp_all
    from payload_reads_hold [OF run this] r(1) cs(1) obtain d1 c where d1: "d = Some d1"
      "dd_rel e (concat (received cs)) c d1" "written (uw_calls w') = written (uw_calls w) @ c"
      by (auto simp: usb_sink.holds_def)
    have "c = concat ds" using d1(3) cs(1) ds written_actions [of cs] by simp
    then show ?thesis
      using ds d1(1,2) r(2) by (auto simp: dd_rel_def stream_stored_def)
  qed
  then show "\<exists>cs. uw_calls w' = uw_calls w @ cs \<and> payload_traffic r cs
      \<and> (\<forall>d. r = Some d \<longrightarrow> download_decoder_complete d \<longrightarrow>
          (\<exists>ds. actions cs = map accepted ds \<and> stream_stored e ds cs))"
    using cs by blast
qed

section \<open>One file\<close>

text \<open>The two requests of a download.\<close>

definition download_requests :: "u8 list \<Rightarrow> u8 list \<Rightarrow> u8 list list" where
  "download_requests name path =
     [archive_record AP_OPCODE_DOWNLOAD (delete_payload name path),
      archive_record AP_OPCODE_TEMP_NOTICE (lp_field (temporary_prefix @ name))]"

text \<open>
  The transfer itself: the two requests, or the first of them, or none, then only answers; when
  it succeeds the sink has taken the payload of the stream.
\<close>

definition transfer_traffic :: "listing_entry \<Rightarrow> bool \<Rightarrow> usb_call list \<Rightarrow> bool" where
  "transfer_traffic entry ok cs \<longleftrightarrow>
     (\<exists>k pieces. k \<le> 2 \<and> (k < 2 \<longrightarrow> pieces = []) \<and> (ok \<longrightarrow> k = 2)
       \<and> wire cs = map Sent (take k (download_requests (le_name entry) (le_path entry))) @ map Received pieces)
     \<and> (\<exists>ds. actions cs = map accepted ds \<and> (ok \<longrightarrow> stream_stored (unat (le_size entry)) ds cs)
          \<or> \<not> ok \<and> (\<exists>data. actions cs = map accepted ds @ [CALL_WRITE data False]))"

lemma transfer_stops:
  "actions cs = [] \<Longrightarrow> k \<le> 2 \<Longrightarrow>
   wire cs = map Sent (take k (download_requests (le_name entry) (le_path entry))) \<Longrightarrow>
   transfer_traffic entry False cs"
  unfolding transfer_traffic_def by (auto intro: exI [of _ k] exI [of _ "[]"])

lemma transfer_received:
  assumes pre: "actions pre = []" "wire pre = map Sent (download_requests (le_name entry) (le_path entry))"
    and t: "payload_traffic r cs"
    and stored: "\<forall>d. r = Some d \<longrightarrow> download_decoder_complete d \<longrightarrow>
      (\<exists>ds. actions cs = map accepted ds \<and> stream_stored (unat (le_size entry)) ds cs)"
  shows "transfer_traffic entry (case r of None \<Rightarrow> False | Some d \<Rightarrow> download_decoder_complete d) (pre @ cs)"
proof -
  have two: "take 2 (download_requests name path) = download_requests name path" for name path
    by (simp add: download_requests_def)
  have "received pre = []" by (simp add: received_def pre(2) download_requests_def)
  then have s: "stream_stored e ds (pre @ cs) \<longleftrightarrow> stream_stored e ds cs" for e ds
    by (simp add: stream_stored_def)
  from t obtain pieces ds where "wire cs = map Received pieces" and ds: "actions cs = map accepted ds
      \<or> r = None \<and> (\<exists>data. actions cs = map accepted ds @ [CALL_WRITE data False])"
    by (auto simp: payload_traffic_def)
  moreover have "\<exists>ds. actions (pre @ cs) = map accepted ds
        \<and> ((case r of None \<Rightarrow> False | Some d \<Rightarrow> download_decoder_complete d)
           \<longrightarrow> stream_stored (unat (le_size entry)) ds (pre @ cs))
      \<or> \<not> (case r of None \<Rightarrow> False | Some d \<Rightarrow> download_decoder_complete d)
        \<and> (\<exists>data. actions (pre @ cs) = map accepted ds @ [CALL_WRITE data False])"
    using ds stored pre(1) by (cases r) (auto simp: s)
  ultimately show ?thesis
    unfolding transfer_traffic_def using pre(2) by (auto intro!: exI [of _ "2::nat"] simp: two)
qed

lemma transfer_emits: "emits (download_transfer env sink entry) (transfer_traffic entry)"
proof -
  let ?q = "download_requests (le_name entry) (le_path entry)"
  show ?thesis
    unfolding download_transfer_def
    apply (rule emits_bind [OF out_request_emits])
    apply (rule emits_if, rule emits_ret)
    subgoal for ok cs
      by (rule transfer_stops [of _ "if wire cs = [] then 0 else 1"])
        (auto simp: request_download download_requests_def split: if_splits)
    apply (rule emits_if, rule emits_ret)
    subgoal for ok cs
      by (rule transfer_stops [of _ 1]) (auto simp: request_download download_requests_def split: if_splits)
    apply (rule emits_bind [OF out_request_emits])
    apply (rule emits_if, rule emits_ret)
    subgoal for ok cs ok' ds
      by (rule transfer_stops [of _ "if wire ds = [] then 1 else 2"])
        (auto simp: request_download request_temp_notice download_requests_def split: if_splits)
    apply (rule quiet_call_bind, simp add: quiet_def)
    apply (rule emits_if, rule emits_ret)
    subgoal for ok cs ok' ds b es
      by (rule transfer_stops [of _ 2])
        (auto simp: request_download request_temp_notice download_requests_def quiet_def split: if_splits)
    apply (simp only: download_decoder_init.simps)
    apply (rule emits_bind [OF payload_emits], rule emits_ret)
    subgoal for ok cs ok' ds b es r fs
      using transfer_received [of "cs @ ds @ es" entry r fs]
      by (auto simp: request_download request_temp_notice download_requests_def quiet_def split: if_splits)
    done
qed

text \<open>The whole download, with the bracket of the calls on the sink.\<close>

definition begin_call :: "listing_entry \<Rightarrow> esp_err \<Rightarrow> usb_call" where
  "begin_call entry = CALL_BEGIN (le_name entry) (le_path entry) (le_device_time_raw entry) (le_size entry)"

definition file_session :: "listing_entry \<Rightarrow> bool \<Rightarrow> usb_call list \<Rightarrow> bool" where
  "file_session entry ok cs \<longleftrightarrow>
     (\<exists>k pieces. k \<le> 2 \<and> (k < 2 \<longrightarrow> pieces = []) \<and> (ok \<longrightarrow> k = 2)
       \<and> wire cs = map Sent (take k (download_requests (le_name entry) (le_path entry))) @ map Received pieces)
     \<and> (if ok then \<exists>ds. actions cs = begin_call entry ESP_OK # map accepted ds @ [CALL_COMMIT ESP_OK]
              \<and> stream_stored (unat (le_size entry)) ds cs
        else actions cs = [] \<or> (\<exists>err. err \<noteq> ESP_OK \<and> actions cs = [begin_call entry err])
          \<or> (\<exists>ds tail. actions cs = begin_call entry ESP_OK # map accepted ds @ tail
               \<and> (tail = [CALL_ABORT] \<or> (\<exists>data. tail = [CALL_WRITE data False, CALL_ABORT])
                  \<or> (\<exists>err. err \<noteq> ESP_OK \<and> tail = [CALL_COMMIT err]
                       \<and> stream_stored (unat (le_size entry)) ds cs))))"

lemma file_session_nothing:
  "wire cs = [] \<Longrightarrow> actions cs = [] \<or> (\<exists>err. err \<noteq> ESP_OK \<and> actions cs = [begin_call entry err]) \<Longrightarrow>
   file_session entry False cs"
  unfolding file_session_def by (auto intro: exI [of _ 0] exI [of _ "[]"])

lemma stream_stored_prefix:
  "received pre = [] \<Longrightarrow> received post = [] \<Longrightarrow> stream_stored e ds cs \<Longrightarrow> stream_stored e ds (pre @ cs @ post)"
  by (simp add: stream_stored_def)

lemma file_session_commit:
  assumes "transfer_traffic entry True es"
  shows "file_session entry (err = ESP_OK)
    (CALL_CANCEL_READ False # begin_call entry ESP_OK # es @ [CALL_COMMIT err])"
proof -
  from assms obtain pieces ds where es: "actions es = map accepted ds" "stream_stored (unat (le_size entry)) ds es"
    "wire es = map Sent (take 2 (download_requests (le_name entry) (le_path entry))) @ map Received pieces"
    by (auto simp: transfer_traffic_def)
  let ?cs = "CALL_CANCEL_READ False # begin_call entry ESP_OK # es @ [CALL_COMMIT err]"
  have a: "actions ?cs = begin_call entry ESP_OK # map accepted ds @ [CALL_COMMIT err]"
    using es(1) by (simp add: begin_call_def)
  have w: "\<exists>k pieces. k \<le> 2 \<and> (k < 2 \<longrightarrow> pieces = []) \<and> (err = ESP_OK \<longrightarrow> k = 2)
       \<and> wire ?cs = map Sent (take k (download_requests (le_name entry) (le_path entry))) @ map Received pieces"
    using es(3) by (intro exI [of _ "2::nat"] exI [of _ pieces]) (simp add: begin_call_def)
  have s: "stream_stored (unat (le_size entry)) ds ?cs"
    using es(2) stream_stored_prefix [of "[CALL_CANCEL_READ False, begin_call entry ESP_OK]" "[CALL_COMMIT err]"]
    by (simp add: begin_call_def)
  show ?thesis using a w s unfolding file_session_def by auto
qed

lemma file_session_abort:
  assumes "transfer_traffic entry False es"
  shows "file_session entry False
    (CALL_CANCEL_READ False # begin_call entry ESP_OK # es @ [CALL_ABORT])"
proof -
  let ?cs = "CALL_CANCEL_READ False # begin_call entry ESP_OK # es @ [CALL_ABORT]"
  from assms obtain ds where "actions es = map accepted ds
      \<or> (\<exists>data. actions es = map accepted ds @ [CALL_WRITE data False])"
    by (auto simp: transfer_traffic_def)
  then obtain post where post: "post = [] \<or> (\<exists>data. post = [CALL_WRITE data False])"
    "actions es = map accepted ds @ post"
    by (metis append_Nil2)
  then have a: "actions ?cs = begin_call entry ESP_OK # map accepted ds @ post @ [CALL_ABORT]"
    "post @ [CALL_ABORT] = [CALL_ABORT] \<or> (\<exists>data. post @ [CALL_ABORT] = [CALL_WRITE data False, CALL_ABORT])"
    by (auto simp: begin_call_def)
  show ?thesis
    unfolding file_session_def if_False
  proof (intro conjI disjI2)
    show "\<exists>k pieces. k \<le> 2 \<and> (k < 2 \<longrightarrow> pieces = []) \<and> (False \<longrightarrow> k = 2)
        \<and> wire ?cs = map Sent (take k (download_requests (le_name entry) (le_path entry))) @ map Received pieces"
      using assms by (auto simp: transfer_traffic_def begin_call_def)
    show "\<exists>ds tail. actions ?cs = begin_call entry ESP_OK # map accepted ds @ tail
        \<and> (tail = [CALL_ABORT] \<or> (\<exists>data. tail = [CALL_WRITE data False, CALL_ABORT])
          \<or> (\<exists>err. err \<noteq> ESP_OK \<and> tail = [CALL_COMMIT err]
               \<and> stream_stored (unat (le_size entry)) ds ?cs))"
      using a by (intro exI [of _ ds] exI [of _ "post @ [CALL_ABORT]"]) simp
  qed
qed

lemma download_entry_outcome_emits: "emits (download_file_entry env sink entry) (file_session entry)"
  unfolding download_file_entry_def
  apply (rule emits_bind [OF cancelled_emits])
  apply (rule emits_if, rule emits_ret, rule file_session_nothing, simp, simp)
  apply (rule emits_bind [where Q = "\<lambda>err cs. cs = [begin_call entry err]"])
   apply (rule emits_call, simp add: begin_call_def)
  apply (rule emits_if, rule emits_ret, rule file_session_nothing, simp add: begin_call_def,
      simp add: begin_call_def)
  apply (rule emits_bind [OF transfer_emits])
  apply (rule emits_if)
   apply (rule emits_bind [where Q = "\<lambda>err cs. cs = [CALL_COMMIT err]"], rule emits_call, simp, rule emits_ret)
  subgoal for b cs err ds ok es err' fs
    using file_session_commit [of entry es err'] by simp
  apply (rule emits_bind [where Q = "\<lambda>_ cs. cs = [CALL_ABORT]"], rule emits_call, simp, rule emits_ret)
  subgoal for b cs err ds ok es u fs
    using file_session_abort [of entry es] by simp
  done

section \<open>What the exchanges may send\<close>

lemma sent_of_wire:
  "wire cs = [] \<Longrightarrow> sent cs = []" "wire cs = map Received pieces \<Longrightarrow> sent cs = []"
  by (simp_all add: sent_def)

lemma sent_conversation:
  "concat (map sent_of (conversation requests answers)) = take (length answers) requests"
proof (induction requests arbitrary: answers)
  case (Cons q requests)
  have "concat (map sent_of (map Received ps)) = []" for ps by (induction ps) simp_all
  then show ?case using Cons by (cases answers) (simp_all add: o_def)
qed simp

lemma list_all_take: "list_all P xs \<Longrightarrow> list_all P (take n xs)"
  by (auto simp: list_all_iff dest: in_set_takeD)

lemma allowed_out [allowed_intros]:
  "(\<And>request. request_bytes built = Some request \<Longrightarrow> P request) \<Longrightarrow> allowed P A (out_request env built)"
  by (rule allowedI [OF out_request_emits]) (auto simp: sent_def split: option.splits)

lemma allowed_out_bytes [allowed_intros]: "P request \<Longrightarrow> allowed P A (acceptance_out env request)"
  by (rule allowedI [OF acceptance_out_emits]) (simp add: sent_def)

lemma allowed_in [allowed_intros]: "allowed P A (acceptance_in env)"
  by (rule allowedI [OF acceptance_in_emits]) (auto simp: sent_def split: option.splits)

lemma allowed_cancelled [allowed_intros]: "allowed P A (sync_cancelled env)"
  unfolding sync_cancelled_def by (intro allowed_intros) simp_all

lemma allowed_record [allowed_intros]: "allowed P A (read_archive_record env capacity)"
  by (rule allowedI [OF read_record_emits]) (auto simp: record_traffic_def sent_of_wire)

lemma allowed_transfers [allowed_intros]: "allowed P A (session_transfers env)"
  unfolding session_transfers_def by (intro allowed_intros) simp_all

lemma allowed_identity [allowed_intros]:
  "list_all P IDENTITY_HANDSHAKE \<Longrightarrow> allowed P A (read_true_device_identity env)"
  by (rule allowedI [OF identity_emits])
    (auto simp: identity_traffic_def sent_def sent_conversation list_all_take)

lemma allowed_disconnect [allowed_intros]:
  "P DISCONNECT_REQUEST \<Longrightarrow> allowed P A (send_polite_disconnect env out_transfer in_transfer)"
  by (rule allowedI [OF disconnect_emits], cases out_transfer) (auto simp: sent_def o_def list_all_iff)

lemma allowed_download [allowed_intros]:
  assumes "list_all P (download_requests (le_name entry) (le_path entry))"
    and "\<And>err. A (begin_call entry err)" and "\<And>data ok. A (CALL_WRITE data ok)"
    and "\<And>err. A (CALL_COMMIT err)" and "A CALL_ABORT"
  shows "allowed P A (download_file_entry env sink entry)"
proof (rule allowedI [OF download_entry_outcome_emits])
  fix ok cs
  assume s: "file_session entry ok cs"
  then obtain k pieces where "wire cs = map Sent (take k (download_requests (le_name entry) (le_path entry)))
      @ map Received pieces" by (auto simp: file_session_def)
  moreover have "concat (map (sent_of \<circ> Sent) qs) = qs" for qs by (induction qs) simp_all
  moreover have "concat (map (sent_of \<circ> Received) ps) = []" for ps by (induction ps) simp_all
  ultimately have "sent cs = take k (download_requests (le_name entry) (le_path entry))"
    by (simp add: sent_def)
  moreover have "list_all A (map accepted ds)" for ds using assms(3) by (simp add: list_all_iff)
  then have "list_all A (actions cs)"
    using s assms(2-5) by (auto simp: file_session_def split: if_splits)
  ultimately show "list_all P (sent cs) \<and> list_all A (actions cs)"
    using assms(1) by (simp add: list_all_take)
qed

section \<open>The theorem on one file\<close>

text \<open>
  C20. Whatever the device and the sink do, a download sends the download request and the notice
  for exactly this entry, opens the sink at most once and closes it exactly once when it was
  opened, by commit or by abort; a commit is made only after every write was accepted and the
  received transfers are a well formed download of the announced size whose payload is what was
  written; the result is true exactly when that commit succeeded.
\<close>

theorem download_file_stored:
  "emits (download_file_entry env sink entry)
     (\<lambda>ok cs. file_session entry ok cs \<and> (ok \<longleftrightarrow> CALL_COMMIT ESP_OK \<in> set (actions cs)))"
  by (rule emits_weaken [OF download_entry_outcome_emits])
    (auto simp: file_session_def begin_call_def split: if_splits)

end
