(* ===== verification/Usb_Sync.thy ===== *)
theory Usb_Sync
  imports Usb_Transaction "HOL-Library.Multiset" "HOL-Library.List_Lexorder" "HOL-Library.Product_Lexorder"
begin

text \<open>
  The sync, identity and close-recovery session of the AccessPort transport
  (accessport_usb/revlink_accessport_usb.c, \<open>run_download_acceptance\<close> and its helpers), in the
  product configuration: runtime sync on, every acceptance mode off. The session claims the
  interface, reads the identity, lists the four collections, downloads what the cache does not
  hold within the limits of one session, closes politely and reports.
\<close>

section \<open>Selecting the files of a collection\<close>

record read_collection =
  rc_directory :: "u8 list"
  rc_extension :: "u8 list"
  rc_alternate_extension :: "u8 list option"

definition collections :: "read_collection list" where
  "collections =
    [\<lparr>rc_directory = ascii ''datalog'', rc_extension = ascii ''.csv'',
      rc_alternate_extension = Some (ascii ''.csv.gz'')\<rparr>,
     \<lparr>rc_directory = ascii ''maps'', rc_extension = ascii ''.ptm'', rc_alternate_extension = None\<rparr>,
     \<lparr>rc_directory = ascii ''images'', rc_extension = ascii ''.fb'', rc_alternate_extension = None\<rparr>,
     \<lparr>rc_directory = ascii ''screenshots'', rc_extension = ascii ''.png'',
      rc_alternate_extension = Some (ascii ''.bmp'')\<rparr>]"

definition safe_name_byte :: "u8 \<Rightarrow> bool" where
  "safe_name_byte v \<longleftrightarrow> (v \<ge> 97 \<and> v \<le> 122) \<or> (v \<ge> 65 \<and> v \<le> 90) \<or> (v \<ge> 48 \<and> v \<le> 57)
     \<or> v = 46 \<or> v = 95 \<or> v = 45 \<or> v = 32 \<or> v = 40 \<or> v = 41"

definition name_ends :: "u8 list \<Rightarrow> u8 list \<Rightarrow> bool" where
  "name_ends name extension \<longleftrightarrow> length name > length extension
     \<and> drop (length name - length extension) name = extension"

definition safe_collection_entry :: "listing_entry \<Rightarrow> read_collection \<Rightarrow> bool" where
  "safe_collection_entry entry collection =
     (let name = le_name entry; path = le_path entry; directory = rc_directory collection in
      if le_is_directory entry \<or> le_size entry = 0 \<or> le_size entry > 8 * 1024 * 1024
        \<or> length name = 0 \<or> length name \<ge> 128
        \<or> length path \<noteq> length directory + 1 + length name
        \<or> take (length directory) path \<noteq> directory
        \<or> path ! length directory \<noteq> 47
        \<or> drop (length directory + 1) path \<noteq> name then False
      else if \<exists>v \<in> set name. \<not> safe_name_byte v then False
      else name_ends name (rc_extension collection)
        \<or> (case rc_alternate_extension collection of
             None \<Rightarrow> False | Some extension \<Rightarrow> name_ends name extension))"

text \<open>\<open>memcmp\<close> on two blocks of the same length.\<close>

fun memcmp :: "u8 list \<Rightarrow> u8 list \<Rightarrow> int" where
  "memcmp (a # x) (b # y) = (if a < b then - 1 else if b < a then 1 else memcmp x y)"
| "memcmp _ _ = 0"

definition entry_precedes :: "listing_entry \<Rightarrow> listing_entry option \<Rightarrow> bool" where
  "entry_precedes candidate selected =
     (case selected of
        None \<Rightarrow> True
      | Some other \<Rightarrow>
          if le_size candidate < le_size other then True
          else if le_size candidate > le_size other then False
          else
            let common = min (length (le_path candidate)) (length (le_path other));
                order = memcmp (take common (le_path candidate)) (take common (le_path other))
            in order < 0 \<or> (order = 0 \<and> length (le_path candidate) < length (le_path other)))"

text \<open>The insertion sort of the candidates, on the array itself.\<close>

fun shift_back :: "listing_entry \<Rightarrow> nat \<Rightarrow> listing_entry list \<Rightarrow> listing_entry list" where
  "shift_back moving 0 candidates = candidates[0 := moving]"
| "shift_back moving (Suc position) candidates =
     (if entry_precedes moving (Some (candidates ! position))
      then shift_back moving position (candidates[Suc position := candidates ! position])
      else candidates[Suc position := moving])"

definition sort_candidates :: "listing_entry list \<Rightarrow> listing_entry list" where
  "sort_candidates candidates =
     foldl (\<lambda>cs index. shift_back (cs ! index) index cs) candidates [1..<length candidates]"

section \<open>The events\<close>

definition sync_event_zero :: sync_event where
  "sync_event_zero = \<lparr>sev_kind = SYNC_EV_STARTED, sev_candidates = 0, sev_downloaded = 0,
     sev_skipped = 0, sev_downloaded_bytes = 0, sev_pending = 0,
     sev_close_recovery_attempt = False, sev_data_phase_completed = False,
     sev_session_close_sent = False, sev_session_close_acknowledged = False,
     sev_platform_error = 0\<rparr>"

definition device_event_zero :: device_event where
  "device_event_zero = \<lparr>ev_kind = DEV_EV_MONITOR_STARTED, ev_identity = identity_zero,
     ev_platform_error = 0, ev_eligible_device_count = 0, ev_topology_revision = 0,
     ev_software_reenumeration = False\<rparr>"

text \<open>The variables of the session that the cleanup reads.\<close>

record sync_tally =
  tl_cancelled :: bool
  tl_listings_completed :: nat
  tl_collections_expected :: nat
  tl_candidates :: nat
  tl_downloaded :: nat
  tl_skipped :: nat
  tl_downloaded_bytes :: u32

definition tally_zero :: sync_tally where
  "tally_zero = \<lparr>tl_cancelled = False, tl_listings_completed = 0, tl_collections_expected = 0,
     tl_candidates = 0, tl_downloaded = 0, tl_skipped = 0, tl_downloaded_bytes = 0\<rparr>"

definition progress_event :: "sync_tally \<Rightarrow> sync_event" where
  "progress_event t = sync_event_zero\<lparr>sev_kind := SYNC_EV_PROGRESS,
     sev_candidates := tl_candidates t, sev_downloaded := tl_downloaded t,
     sev_skipped := tl_skipped t, sev_downloaded_bytes := tl_downloaded_bytes t,
     sev_pending := tl_candidates t - tl_downloaded t - tl_skipped t\<rparr>"

definition report :: "'d usb_env \<Rightarrow> bool \<Rightarrow> sync_event \<Rightarrow> ('d, unit) usb" where
  "report env report_runtime event = (if report_runtime then publish_sync_event env event else ret ())"

section \<open>One collection\<close>

text \<open>The bytes of the listing, if they are complete, and whether the sync was cancelled.\<close>

primrec listing_reads :: "'d usb_env \<Rightarrow> nat \<Rightarrow> u8 list \<Rightarrow> nat \<Rightarrow> ('d, u8 list option \<times> bool) usb" where
  "listing_reads env 0 listing target = ret (complete_record listing target, False)"
| "listing_reads env (Suc reads) listing target = do {
     cancelled \<leftarrow> sync_cancelled env;
     if cancelled then ret (None, True)
     else do {
       r \<leftarrow> acceptance_in env;
       case r of
         None \<Rightarrow> ret (None, False)
       | Some bytes \<Rightarrow>
           if length bytes > 32768 - length listing then ret (None, False)
           else let listing = listing @ bytes in
             case record_target 32768 11 target listing of
               None \<Rightarrow> ret (None, False)
             | Some target \<Rightarrow>
                 if target \<noteq> 0 \<and> length listing \<ge> target
                 then ret (complete_record listing target, False)
                 else listing_reads env reads listing target } }"

fun observe_entries :: "'d download_sink \<Rightarrow> listing_entry list \<Rightarrow> ('d, unit) usb" where
  "observe_entries sink [] = ret ()"
| "observe_entries sink (entry # rest) = do {
     notify (dk_scan_observe sink) CALL_SCAN_OBSERVE (le_path entry);
     observe_entries sink rest }"

text \<open>
  The downloads of one collection. The flag of the result is false for the jump to the cleanup;
  a file that would exceed the limits of the session ends the loop.
\<close>

fun download_candidates ::
  "'d usb_env \<Rightarrow> 'd download_sink \<Rightarrow> (u8 list \<Rightarrow> u32 \<Rightarrow> u32 \<Rightarrow> 'd \<Rightarrow> bool \<times> 'd) \<Rightarrow> bool
   \<Rightarrow> listing_entry list \<Rightarrow> sync_tally \<Rightarrow> ('d, bool \<times> sync_tally) usb" where
  "download_candidates env sink is_current report_runtime [] t = ret (True, t)"
| "download_candidates env sink is_current report_runtime (candidate # rest) t = do {
     cancelled \<leftarrow> sync_cancelled env;
     if cancelled then ret (False, t\<lparr>tl_cancelled := True\<rparr>)
     else do {
       current \<leftarrow> call (is_current (le_path candidate) (le_device_time_raw candidate) (le_size candidate))
         (CALL_IS_CURRENT (le_path candidate) (le_device_time_raw candidate) (le_size candidate));
       if current then do {
         let t = t\<lparr>tl_skipped := tl_skipped t + 1\<rparr>;
         report env report_runtime (progress_event t);
         download_candidates env sink is_current report_runtime rest t }
       else if tl_downloaded t \<ge> 4
         \<or> le_size candidate > 16 * 1024 * 1024 - tl_downloaded_bytes t then ret (True, t)
       else do {
         ok \<leftarrow> download_file_entry env sink candidate;
         if \<not> ok then do {
           cancelled \<leftarrow> sync_cancelled env;
           ret (False, t\<lparr>tl_cancelled := cancelled\<rparr>) }
         else do {
           let t = t\<lparr>tl_downloaded := tl_downloaded t + 1,
                     tl_downloaded_bytes := tl_downloaded_bytes t + le_size candidate\<rparr>;
           report env report_runtime (progress_event t);
           download_candidates env sink is_current report_runtime rest t } } } }"

definition entry_zero :: listing_entry where
  "entry_zero = \<lparr>le_name = [], le_device_time_raw = 0, le_size = 0, le_is_directory = False,
     le_path = []\<rparr>"

text \<open>
  The entries of a listing payload: its size first, then the strict second pass into an array of
  that size; \<open>None\<close> for a payload that is refused.
\<close>

definition listing_count :: "u8 list \<Rightarrow> nat option" where
  "listing_count payload =
     (case parse_listing_payload (Span payload) (NullSpan 0) (Some 0) of
        (status, _, found) \<Rightarrow>
          if (status \<noteq> AP_OK \<and> status \<noteq> AP_BUFFER_TOO_SMALL) \<or> the found > 128 then None
          else found)"

definition listing_entries :: "u8 list \<Rightarrow> nat \<Rightarrow> listing_entry list option" where
  "listing_entries payload entry_count =
     (case parse_listing_payload (Span payload) (Span (replicate entry_count entry_zero)) (Some entry_count) of
        (status, entries, _) \<Rightarrow> if status \<noteq> AP_OK then None else Some (sbytes entries))"

definition sync_entries ::
  "'d usb_env \<Rightarrow> 'd download_sink \<Rightarrow> (u8 list \<Rightarrow> u32 \<Rightarrow> u32 \<Rightarrow> 'd \<Rightarrow> bool \<times> 'd) \<Rightarrow> bool
   \<Rightarrow> read_collection \<Rightarrow> listing_entry list \<Rightarrow> sync_tally \<Rightarrow> ('d, bool \<times> sync_tally) usb" where
  "sync_entries env sink is_current report_runtime collection entries t = do {
     let t = t\<lparr>tl_listings_completed := tl_listings_completed t + 1\<rparr>;
     observe_entries sink entries;
     allocated \<leftarrow> call (env_allocate env) CALL_ALLOCATE;
     if \<not> allocated then ret (False, t)
     else do {
       let candidates = filter (\<lambda>entry. safe_collection_entry entry collection) entries;
       let t = t\<lparr>tl_candidates := tl_candidates t + length candidates\<rparr>;
       report env report_runtime (progress_event t);
       download_candidates env sink is_current report_runtime (sort_candidates candidates) t } }"

definition sync_listing ::
  "'d usb_env \<Rightarrow> 'd download_sink \<Rightarrow> (u8 list \<Rightarrow> u32 \<Rightarrow> u32 \<Rightarrow> 'd \<Rightarrow> bool \<times> 'd) \<Rightarrow> bool
   \<Rightarrow> read_collection \<Rightarrow> u8 list \<Rightarrow> sync_tally \<Rightarrow> ('d, bool \<times> sync_tally) usb" where
  "sync_listing env sink is_current report_runtime collection listing t =
     (case plain_error_code (Span listing) (Some 0) of
        (True, code) \<Rightarrow> ret (code = Some 38, t)
      | (False, _) \<Rightarrow>
          (case response_payload listing of
             None \<Rightarrow> ret (False, t)
           | Some payload \<Rightarrow>
               (case listing_count payload of
                  None \<Rightarrow> ret (False, t)
                | Some entry_count \<Rightarrow>
                    if entry_count = 0
                    then ret (True, t\<lparr>tl_listings_completed := tl_listings_completed t + 1\<rparr>)
                    else do {
                      allocated \<leftarrow> call (env_allocate env) CALL_ALLOCATE;
                      if \<not> allocated then ret (False, t)
                      else case listing_entries payload entry_count of
                        None \<Rightarrow> ret (False, t)
                      | Some entries \<Rightarrow>
                          sync_entries env sink is_current report_runtime collection entries t })))"

definition sync_collection ::
  "'d usb_env \<Rightarrow> 'd download_sink \<Rightarrow> (u8 list \<Rightarrow> u32 \<Rightarrow> u32 \<Rightarrow> 'd \<Rightarrow> bool \<times> 'd) \<Rightarrow> bool
   \<Rightarrow> read_collection \<Rightarrow> sync_tally \<Rightarrow> ('d, bool \<times> sync_tally) usb" where
  "sync_collection env sink is_current report_runtime collection t = do {
     out_ok \<leftarrow> out_request env (build_list (Span (rc_directory collection)) request_buffer (Some 0));
     if \<not> out_ok then ret (False, t)
     else do {
       r \<leftarrow> listing_reads env (32768 div 512 + 2) [] 0;
       case fst r of
         None \<Rightarrow> ret (False, t\<lparr>tl_cancelled := tl_cancelled t \<or> snd r\<rparr>)
       | Some listing \<Rightarrow> sync_listing env sink is_current report_runtime collection listing t } }"

fun sync_collections ::
  "'d usb_env \<Rightarrow> 'd download_sink \<Rightarrow> (u8 list \<Rightarrow> u32 \<Rightarrow> u32 \<Rightarrow> 'd \<Rightarrow> bool \<times> 'd) \<Rightarrow> bool
   \<Rightarrow> read_collection list \<Rightarrow> sync_tally \<Rightarrow> ('d, bool \<times> sync_tally) usb" where
  "sync_collections env sink is_current report_runtime [] t = ret (True, t)"
| "sync_collections env sink is_current report_runtime (collection # rest) t = do {
     r \<leftarrow> sync_collection env sink is_current report_runtime collection t;
     if fst r then sync_collections env sink is_current report_runtime rest (snd r) else ret r }"

section \<open>The session\<close>

text \<open>The part between the claimed interface and the cleanup: \<open>passed\<close> and the tally.\<close>

definition sync_data_phase ::
  "'d usb_env \<Rightarrow> 'd download_sink \<Rightarrow> (u8 list \<Rightarrow> u32 \<Rightarrow> u32 \<Rightarrow> 'd \<Rightarrow> bool \<times> 'd) \<Rightarrow> bool
   \<Rightarrow> ('d, bool \<times> sync_tally) usb" where
  "sync_data_phase env sink is_current report_runtime = do {
     listing_bytes \<leftarrow> call (env_allocate env) CALL_ALLOCATE;
     if \<not> listing_bytes then ret (False, tally_zero)
     else do {
       (case dk_scan_begin sink of None \<Rightarrow> ret () | Some f \<Rightarrow> call f (\<lambda>_. CALL_SCAN_BEGIN));
       sync_collections env sink is_current report_runtime collections
         (tally_zero\<lparr>tl_collections_expected := length collections\<rparr>) } }"

definition sync_identified ::
  "'d usb_env \<Rightarrow> 'd download_sink \<Rightarrow> (u8 list \<Rightarrow> u32 \<Rightarrow> u32 \<Rightarrow> 'd \<Rightarrow> bool \<times> 'd) \<Rightarrow> bool \<Rightarrow> bool
   \<Rightarrow> device_info \<Rightarrow> ('d, bool \<times> sync_tally) usb" where
  "sync_identified env sink is_current report_runtime identity_only true_identity =
     (if \<not> device_supported true_identity then ret (False, tally_zero)
      else do {
        status \<leftarrow> call (dk_select_device sink true_identity) (CALL_SELECT_DEVICE true_identity);
        if status \<noteq> ESP_OK then ret (False, tally_zero)
        else if identity_only then ret (True, tally_zero)
        else sync_data_phase env sink is_current report_runtime })"

definition sync_body ::
  "'d usb_env \<Rightarrow> 'd download_sink \<Rightarrow> (u8 list \<Rightarrow> u32 \<Rightarrow> u32 \<Rightarrow> 'd \<Rightarrow> bool \<times> 'd) \<Rightarrow> bool \<Rightarrow> bool \<Rightarrow> bool
   \<Rightarrow> ('d, bool \<times> sync_tally) usb" where
  "sync_body env sink is_current report_runtime close_recovery_attempt identity_only = do {
     cancelled \<leftarrow> sync_cancelled env;
     if cancelled then ret (False, tally_zero\<lparr>tl_cancelled := True\<rparr>)
     else do {
       probe \<leftarrow> read_true_device_identity env;
       (case probe of None \<Rightarrow> ret ()
        | Some identity \<Rightarrow> notify (env_identity_observer env) CALL_IDENTITY identity);
       if close_recovery_attempt then ret (False, tally_zero)
       else case probe of
         None \<Rightarrow> ret (False, tally_zero)
       | Some identity \<Rightarrow> sync_identified env sink is_current report_runtime identity_only identity } }"

definition finished_event :: "bool \<Rightarrow> bool \<Rightarrow> bool \<Rightarrow> bool \<Rightarrow> bool \<Rightarrow> esp_err \<Rightarrow> sync_tally \<Rightarrow> sync_event" where
  "finished_event close_recovery_attempt passed cancelled disconnect_sent disconnect_acknowledged status t =
     (let session_closed_cleanly = disconnect_sent \<and> disconnect_acknowledged \<and> status = ESP_OK;
          completed = (passed \<or> close_recovery_attempt) \<and> session_closed_cleanly;
          cancelled_cleanly = cancelled \<and> session_closed_cleanly
      in \<lparr>sev_kind = (if cancelled_cleanly then SYNC_EV_CANCELLED
            else if completed then SYNC_EV_COMPLETED else SYNC_EV_FAILED),
          sev_candidates = tl_candidates t, sev_downloaded = tl_downloaded t,
          sev_skipped = tl_skipped t, sev_downloaded_bytes = tl_downloaded_bytes t,
          sev_pending = (if tl_candidates t \<ge> tl_downloaded t + tl_skipped t
            then tl_candidates t - tl_downloaded t - tl_skipped t else 0),
          sev_close_recovery_attempt = close_recovery_attempt,
          sev_data_phase_completed = passed,
          sev_session_close_sent = disconnect_sent,
          sev_session_close_acknowledged = disconnect_acknowledged,
          sev_platform_error = (if completed \<or> cancelled_cleanly then ESP_OK
            else if status \<noteq> ESP_OK then status
            else if disconnect_sent \<and> \<not> disconnect_acknowledged then ESP_ERR_INVALID_RESPONSE
            else ESP_FAIL)\<rparr>)"

text \<open>The cleanup; the result is what is stored in \<open>*polite_disconnect_sent\<close>.\<close>

definition sync_cleanup ::
  "'d usb_env \<Rightarrow> 'd download_sink \<Rightarrow> device_identity \<Rightarrow> bool \<Rightarrow> bool \<Rightarrow> bool \<times> bool
   \<Rightarrow> bool \<Rightarrow> sync_tally \<Rightarrow> ('d, bool) usb" where
  "sync_cleanup env sink identity report_runtime close_recovery_attempt transfers passed t = do {
     cancelled \<leftarrow> or_else (ret (tl_cancelled t)) (sync_cancelled env);
     disconnect \<leftarrow> send_polite_disconnect env (fst transfers) (snd transfers);
     status \<leftarrow> call (env_release_interface env) CALL_RELEASE_INTERFACE;
     publish_event env (device_event_zero\<lparr>ev_kind := DEV_EV_SESSION_CLOSED, ev_identity := identity\<rparr>);
     notify (dk_scan_end sink) CALL_SCAN_END
       (tl_collections_expected t > 0 \<and> tl_listings_completed t = tl_collections_expected t \<and> \<not> cancelled);
     call (dk_release_device sink) (\<lambda>_. CALL_RELEASE_DEVICE);
     report env report_runtime
       (finished_event close_recovery_attempt passed cancelled (fst disconnect) (snd disconnect) status t);
     ret (fst disconnect) }"

definition failed_event :: "bool \<Rightarrow> esp_err \<Rightarrow> sync_event" where
  "failed_event close_recovery_attempt platform_error = sync_event_zero\<lparr>sev_kind := SYNC_EV_FAILED,
     sev_close_recovery_attempt := close_recovery_attempt, sev_platform_error := platform_error\<rparr>"

text \<open>
  The whole session. The result is \<open>Some\<close> when \<open>*polite_disconnect_sent\<close> is stored, which the
  early returns do not do.
\<close>

definition run_download_acceptance ::
  "'d usb_env \<Rightarrow> 'd download_sink option \<Rightarrow> device_identity \<Rightarrow> bool \<Rightarrow> bool \<Rightarrow> bool
   \<Rightarrow> ('d, bool option) usb" where
  "run_download_acceptance env configured identity report_runtime close_recovery_attempt identity_only =
     (case configured of
        None \<Rightarrow> do {
          report env report_runtime (failed_event close_recovery_attempt ESP_ERR_INVALID_STATE);
          ret None }
      | Some sink \<Rightarrow>
          (case dk_is_current sink of
             None \<Rightarrow> do {
               report env report_runtime (failed_event close_recovery_attempt ESP_ERR_INVALID_STATE);
               ret None }
           | Some is_current \<Rightarrow> do {
               report env report_runtime
                 (sync_event_zero\<lparr>sev_kind := SYNC_EV_STARTED,
                    sev_close_recovery_attempt := close_recovery_attempt\<rparr>);
               status \<leftarrow> call (env_claim env) CALL_CLAIM;
               if status \<noteq> ESP_OK then do {
                 report env report_runtime (failed_event close_recovery_attempt status);
                 ret None }
               else do {
                 publish_event env
                   (device_event_zero\<lparr>ev_kind := DEV_EV_SESSION_OPENED, ev_identity := identity\<rparr>);
                 transfers \<leftarrow> session_transfers env;
                 r \<leftarrow> (if \<not> snd transfers then ret (False, tally_zero)
                   else sync_body env sink is_current report_runtime close_recovery_attempt identity_only);
                 sent \<leftarrow> sync_cleanup env sink identity report_runtime close_recovery_attempt
                   transfers (fst r) (snd r);
                 ret (Some sent) } }))"

section \<open>The requests of a session\<close>

text \<open>
  The requests a session may send: the captured identity requests, the polite close, the
  listings of the four collections and the downloads of files that pass the selection.
\<close>

definition sync_request :: "u8 list \<Rightarrow> bool" where
  "sync_request q \<longleftrightarrow> q \<in> set IDENTITY_HANDSHAKE \<or> q = DISCONNECT_REQUEST
     \<or> (\<exists>c \<in> set collections. q = archive_record AP_OPCODE_LIST (lp_field (rc_directory c))
          \<or> (\<exists>e. safe_collection_entry e c \<and> q \<in> set (download_requests (le_name e) (le_path e))))"

fun sync_action :: "usb_call \<Rightarrow> bool" where
  "sync_action (CALL_RECOVERY_STORE _) = False"
| "sync_action (CALL_SOURCE_OPEN _ _) = False"
| "sync_action (CALL_SOURCE_READ _ _ _) = False"
| "sync_action (CALL_SOURCE_REWIND _) = False"
| "sync_action CALL_SOURCE_CLOSE = False"
| "sync_action (CALL_CACHED_MATCHES _ _ _ _) = False"
| "sync_action (CALL_UPLOAD_EVENT _) = False"
| "sync_action (CALL_DELETE_EVENT _) = False"
| "sync_action (CALL_SCAN_END _) = False"
| "sync_action _ = True"

text \<open>The end of the scan is reported by the cleanup only.\<close>

definition session_action :: "usb_call \<Rightarrow> bool" where
  "session_action c \<longleftrightarrow> sync_action c \<or> (\<exists>complete. c = CALL_SCAN_END complete)"

lemma session_action_simps [simp]: "session_action (CALL_SCAN_END complete)" "sync_action c \<Longrightarrow> session_action c"
  by (simp_all add: session_action_def)

abbreviation sync_allowed :: "('d, 'a) usb \<Rightarrow> bool" where
  "sync_allowed \<equiv> allowed sync_request sync_action"

lemma allowed_report [allowed_intros]:
  "A (CALL_SYNC_EVENT event) \<Longrightarrow> allowed P A (report env report_runtime event)"
  unfolding report_def publish_sync_event_def by (intro allowed_intros) simp_all

lemma allowed_event [allowed_intros]:
  "A (CALL_DEVICE_EVENT event) \<Longrightarrow> allowed P A (publish_event env event)"
  unfolding publish_event_def by (intro allowed_intros) simp_all

lemma sync_allowed_reads [allowed_intros]: "sync_allowed (listing_reads env reads listing target)"
proof (induction reads arbitrary: listing target)
  case (Suc reads)
  then show ?case by (auto intro!: allowed_intros simp: Let_def)
qed (simp add: allowed_ret)

lemma sync_allowed_observe [allowed_intros]: "sync_allowed (observe_entries sink entries)"
  by (induction entries) (auto intro!: allowed_intros)

lemma sync_allowed_file:
  "c \<in> set collections \<Longrightarrow> safe_collection_entry e c \<Longrightarrow> sync_allowed (download_file_entry env sink e)"
  by (rule allowed_download) (auto simp: list_all_iff sync_request_def begin_call_def)

lemma sync_allowed_downloads:
  "c \<in> set collections \<Longrightarrow> \<forall>e \<in> set candidates. safe_collection_entry e c \<Longrightarrow>
   sync_allowed (download_candidates env sink is_current report_runtime candidates t)"
proof (induction candidates arbitrary: t)
  case Nil
  then show ?case by (simp add: allowed_ret)
next
  case (Cons e candidates)
  have e: "sync_allowed (download_file_entry env sink e)" by (rule sync_allowed_file) (use Cons.prems in auto)
  have rest: "sync_allowed (download_candidates env sink is_current report_runtime candidates t)" for t
    using Cons by simp
  show ?case by (simp only: download_candidates.simps) (intro allowed_intros e rest; simp)
qed

text \<open>Sorting keeps the candidates.\<close>

lemma shift_back_mset:
  "position < length candidates \<Longrightarrow>
   mset (shift_back moving position candidates) = mset (candidates[position := moving])"
proof (induction position arbitrary: candidates)
  case (Suc position)
  have "mset ((candidates[Suc position := candidates ! position])[position := moving])
      = mset (candidates[Suc position := moving])"
    using Suc.prems mset_swap [of "Suc position" "candidates[Suc position := moving]" position]
    by (simp add: list_update_swap [of "Suc position" position])
  then show ?case using Suc by simp
qed simp

lemma shift_back_length [simp]: "length (shift_back moving position candidates) = length candidates"
  by (induction position arbitrary: candidates) simp_all

lemma sort_candidates_mset [simp]: "mset (sort_candidates candidates) = mset candidates"
proof -
  have "mset (foldl (\<lambda>cs index. shift_back (cs ! index) index cs) cs is) = mset cs"
    if "\<forall>i \<in> set is. i < length cs" for "is" cs
    using that by (induction "is" arbitrary: cs) (simp_all add: shift_back_mset)
  then show ?thesis by (simp add: sort_candidates_def)
qed

lemma sort_candidates_set [simp]: "set (sort_candidates candidates) = set candidates"
  by (metis set_mset_mset sort_candidates_mset)

lemma sync_allowed_entries:
  "c \<in> set collections \<Longrightarrow> sync_allowed (sync_entries env sink is_current report_runtime c entries t)"
  unfolding sync_entries_def Let_def
  by (intro allowed_intros sync_allowed_downloads [where c = c]) simp_all

lemma sync_allowed_listing:
  "c \<in> set collections \<Longrightarrow> sync_allowed (sync_listing env sink is_current report_runtime c listing t)"
  unfolding sync_listing_def
  by (auto split: prod.split bool.split intro!: allowed_intros sync_allowed_entries)

lemma sync_allowed_collection:
  assumes "c \<in> set collections"
  shows "sync_allowed (sync_collection env sink is_current report_runtime c t)"
  unfolding sync_collection_def
  by (intro allowed_intros sync_allowed_listing assms)
    (use assms in \<open>auto simp: request_list sync_request_def split: if_splits\<close>)

lemma sync_allowed_collections:
  "set cs \<subseteq> set collections \<Longrightarrow> sync_allowed (sync_collections env sink is_current report_runtime cs t)"
  by (induction cs arbitrary: t) (auto intro!: allowed_intros sync_allowed_collection)

lemma sync_handshake: "list_all sync_request IDENTITY_HANDSHAKE"
  by (auto simp: list_all_iff sync_request_def)

lemma sync_allowed_body: "sync_allowed (sync_body env sink is_current report_runtime recovery identity_only)"
  unfolding sync_body_def sync_identified_def sync_data_phase_def
  by (intro allowed_intros sync_allowed_collections sync_handshake) simp_all

lemma session_allowed_cleanup:
  "allowed sync_request session_action (sync_cleanup env sink identity report_runtime recovery transfers passed t)"
  unfolding sync_cleanup_def or_else_def
  by (intro allowed_intros) (simp_all add: sync_request_def)

text \<open>
  C21. A sync, identity or recovery session only reads: whatever the device answers, every
  transfer it sends is one of the captured identity requests, the polite close, the listing of
  one of the four collections or a request of the download of a file that passes the selection,
  and it makes no call of the write path.
\<close>

theorem sync_session_reads_only:
  "emits (run_download_acceptance env sink identity report_runtime recovery identity_only)
     (\<lambda>_ cs. list_all sync_request (sent cs) \<and> list_all session_action (actions cs))"
  unfolding allowed_def [symmetric] run_download_acceptance_def
  by (intro allowed_intros allowed_weaken [OF sync_allowed_body] session_allowed_cleanup) simp_all

section \<open>The order of the downloads\<close>

definition entry_key :: "listing_entry \<Rightarrow> u32 \<times> u8 list" where
  "entry_key e = (le_size e, le_path e)"

lemma memcmp_lex:
  "(memcmp (take (min (length x) (length y)) x) (take (min (length x) (length y)) y) < 0
     \<or> memcmp (take (min (length x) (length y)) x) (take (min (length x) (length y)) y) = 0
       \<and> length x < length y) \<longleftrightarrow> x < y"
proof (induction x arbitrary: y)
  case Nil
  then show ?case by (cases y) simp_all
next
  case (Cons a x)
  then show ?case by (cases y) (auto split: if_splits)
qed

lemma entry_precedes_key: "entry_precedes a (Some b) \<longleftrightarrow> entry_key a < entry_key b"
  using memcmp_lex [of "le_path a" "le_path b"]
  by (auto simp: entry_precedes_def entry_key_def less_prod_def Let_def)

lemma takeWhile_snoc: "\<not> P x \<Longrightarrow> takeWhile P (xs @ [x]) = takeWhile P xs"
  by (induction xs) simp_all

lemma dropWhile_snoc: "\<not> P x \<Longrightarrow> dropWhile P (xs @ [x]) = dropWhile P xs @ [x]"
  by (induction xs) simp_all

lemma shift_back_insert:
  "position < length cs \<Longrightarrow> sorted (map entry_key (take position cs)) \<Longrightarrow>
   shift_back m position cs
     = takeWhile (\<lambda>x. \<not> entry_key m < entry_key x) (take position cs) @ m #
       dropWhile (\<lambda>x. \<not> entry_key m < entry_key x) (take position cs) @ drop (Suc position) cs"
proof (induction position arbitrary: cs)
  case 0
  then show ?case by (cases cs) simp_all
next
  case (Suc p)
  let ?x = "cs ! p" and ?P = "\<lambda>x. \<not> entry_key m < entry_key x"
  have t: "take (Suc p) cs = take p cs @ [?x]" using Suc.prems(1) by (simp add: take_Suc_conv_app_nth)
  have s: "sorted (map entry_key (take p cs))" "\<forall>y \<in> set (take p cs). entry_key y \<le> entry_key ?x"
    using Suc.prems(2) by (auto simp: t sorted_append)
  show ?case
  proof (cases "entry_key m < entry_key ?x")
    case True
    have "drop (Suc p) (cs[Suc p := ?x]) = ?x # drop (Suc (Suc p)) cs"
      using Suc.prems(1) by (simp add: drop_update_swap Cons_nth_drop_Suc [symmetric])
    then have "shift_back m (Suc p) cs
        = takeWhile ?P (take p cs) @ m # dropWhile ?P (take p cs) @ ?x # drop (Suc (Suc p)) cs"
      using Suc.IH [of "cs[Suc p := ?x]"] Suc.prems(1) s(1) True by (simp add: entry_precedes_key)
    moreover have "takeWhile ?P (take p cs @ [?x]) = takeWhile ?P (take p cs)"
      "dropWhile ?P (take p cs @ [?x]) = dropWhile ?P (take p cs) @ [?x]"
      using True by (simp_all add: takeWhile_snoc dropWhile_snoc)
    ultimately show ?thesis by (simp add: t)
  next
    case False
    then have "\<forall>y \<in> set (take (Suc p) cs). ?P y" using s(2) by (auto simp: t)
    then have tw: "takeWhile ?P (take (Suc p) cs) = take (Suc p) cs" "dropWhile ?P (take (Suc p) cs) = []"
      by (simp_all add: takeWhile_eq_all_conv)
    show ?thesis
      using False Suc.prems(1) by (simp add: entry_precedes_key upd_conv_take_nth_drop tw)
  qed
qed

lemma insert_sorted_key:
  fixes f :: "'a \<Rightarrow> 'b :: linorder"
  assumes "sorted (map f xs)"
    and l_def: "l = takeWhile (\<lambda>x. \<not> f m < f x) xs" and r_def: "r = dropWhile (\<lambda>x. \<not> f m < f x) xs"
  shows "sorted (map f (l @ m # r))" and "filter (\<lambda>x. k = f x) (l @ m # r) = filter (\<lambda>x. k = f x) (xs @ [m])"
proof -
  have xs: "xs = l @ r" by (simp add: l_def r_def)
  then have s: "sorted (map f l)" "sorted (map f r)" using assms(1) by (auto simp: sorted_append)
  have l: "\<forall>x \<in> set l. f x \<le> f m" by (auto simp: l_def dest: set_takeWhileD)
  have r: "\<forall>x \<in> set r. f m < f x"
  proof (cases r)
    case (Cons y ys)
    then have "f m < f y" using hd_dropWhile [of "\<lambda>x. \<not> f m < f x" xs] by (auto simp: r_def)
    then show ?thesis using s(2) Cons by auto
  qed simp
  show "sorted (map f (l @ m # r))" using s l r by (auto simp: sorted_append) (meson le_less_trans less_imp_le)+
  show "filter (\<lambda>x. k = f x) (l @ m # r) = filter (\<lambda>x. k = f x) (xs @ [m])"
  proof -
    have "filter (\<lambda>x. f m = f x) r = []" using r by (auto simp: filter_empty_conv)
    then show ?thesis by (simp add: xs)
  qed
qed

definition sorted_upto :: "nat \<Rightarrow> listing_entry list \<Rightarrow> listing_entry list \<Rightarrow> bool" where
  "sorted_upto n cs ds \<longleftrightarrow> length ds = length cs \<and> sorted (map entry_key (take n ds)) \<and> drop n ds = drop n cs
     \<and> (\<forall>k. filter (\<lambda>x. k = entry_key x) ds = filter (\<lambda>x. k = entry_key x) cs)"

lemma sorted_upto_step:
  assumes "sorted_upto n cs ds" and "n < length cs"
  shows "sorted_upto (Suc n) cs (shift_back (ds ! n) n ds)"
proof -
  define l where "l = takeWhile (\<lambda>x. \<not> entry_key (ds ! n) < entry_key x) (take n ds)"
  define r where "r = dropWhile (\<lambda>x. \<not> entry_key (ds ! n) < entry_key x) (take n ds)"
  have ds: "length ds = length cs" "sorted (map entry_key (take n ds))" "drop n ds = drop n cs"
    using assms(1) by (simp_all add: sorted_upto_def)
  have flt: "filter (\<lambda>x. k = entry_key x) ds = filter (\<lambda>x. k = entry_key x) cs" for k
    using assms(1) unfolding sorted_upto_def by blast
  have e: "shift_back (ds ! n) n ds = (l @ ds ! n # r) @ drop (Suc n) ds"
    using shift_back_insert [of n ds "ds ! n"] ds assms(2) by (simp add: l_def r_def)
  have lr: "l @ r = take n ds" by (simp add: l_def r_def)
  have "length (l @ r) = n" unfolding lr using ds(1) assms(2) by simp
  then have len: "length (l @ ds ! n # r) = Suc n" by simp
  note ins = insert_sorted_key [OF ds(2) l_def r_def]
  have "filter (\<lambda>x. k = entry_key x) (shift_back (ds ! n) n ds) = filter (\<lambda>x. k = entry_key x) cs" for k
  proof -
    have "ds = (take n ds @ [ds ! n]) @ drop (Suc n) ds"
      using assms(2) ds(1) by (simp add: id_take_nth_drop [symmetric])
    then have "filter (\<lambda>x. k = entry_key x) ds
        = filter (\<lambda>x. k = entry_key x) (take n ds @ [ds ! n]) @ filter (\<lambda>x. k = entry_key x) (drop (Suc n) ds)"
      by (metis filter_append)
    then show ?thesis unfolding e using ins(2) [of k] flt [of k] by (simp only: filter_append)
  qed
  moreover have "take (Suc n) (shift_back (ds ! n) n ds) = l @ ds ! n # r"
    "drop (Suc n) (shift_back (ds ! n) n ds) = drop (Suc n) ds"
    unfolding e using append_eq_conv_conj [of "l @ ds ! n # r" "drop (Suc n) ds"] len by metis+
  moreover have "drop (Suc n) ds = drop (Suc n) cs" using ds(3) by (metis drop_drop plus_1_eq_Suc)
  ultimately show ?thesis using ds(1) ins(1) by (simp add: sorted_upto_def)
qed

text \<open>
  The in-place insertion sort is the stable sort of the candidates by size and then by path:
  the order of the downloads is determined by the listing alone.
\<close>

lemma sort_candidates_exact: "sort_candidates candidates = sort_key entry_key candidates"
proof -
  have upto: "sorted_upto n candidates
      (foldl (\<lambda>cs index. shift_back (cs ! index) index cs) candidates [1..<n])"
    if "1 \<le> n" "n \<le> length candidates" for n
    using that
  proof (induction n rule: nat_induct_at_least)
    case base
    then show ?case by (cases candidates) (simp_all add: sorted_upto_def)
  next
    case (Suc n)
    then show ?case using sorted_upto_step [of n candidates] by simp
  qed
  have "sorted_upto (length candidates) candidates (sort_candidates candidates)"
  proof (cases candidates)
    case (Cons a as)
    then have "1 \<le> length candidates" by simp
    then show ?thesis using upto [of "length candidates"] by (simp add: sort_candidates_def)
  qed (simp add: sorted_upto_def sort_candidates_def)
  note srt = this [unfolded sorted_upto_def]
  have "filter (\<lambda>x. k = entry_key x) (sort_candidates candidates) = filter (\<lambda>x. k = entry_key x) candidates" for k
    using srt by blast
  moreover have "sorted (map entry_key (sort_candidates candidates))"
    using srt by (metis take_all_iff order_refl)
  ultimately show ?thesis by (intro properties_for_sort_key [symmetric]) simp_all
qed

section \<open>The accounts of a session\<close>

text \<open>Counting the calls on the sink.\<close>

fun commits_of :: "usb_call \<Rightarrow> nat" where
  "commits_of (CALL_COMMIT err) = (if err = ESP_OK then 1 else 0)"
| "commits_of _ = 0"

fun begins_of :: "usb_call \<Rightarrow> nat" where
  "begins_of (CALL_BEGIN _ _ _ _ _) = 1"
| "begins_of _ = 0"

fun skips_of :: "usb_call \<Rightarrow> nat" where
  "skips_of (CALL_IS_CURRENT _ _ _ b) = (if b then 1 else 0)"
| "skips_of _ = 0"

fun final_of :: "usb_call \<Rightarrow> sync_event list" where
  "final_of (CALL_SYNC_EVENT e) =
     (if sev_kind e = SYNC_EV_STARTED \<or> sev_kind e = SYNC_EV_PROGRESS then [] else [e])"
| "final_of _ = []"

definition commits :: "usb_call list \<Rightarrow> nat" where "commits cs = sum_list (map commits_of (actions cs))"
definition begins :: "usb_call list \<Rightarrow> nat" where "begins cs = sum_list (map begins_of (actions cs))"
definition skips :: "usb_call list \<Rightarrow> nat" where "skips cs = sum_list (map skips_of (actions cs))"
definition final_events :: "usb_call list \<Rightarrow> sync_event list" where
  "final_events cs = concat (map final_of (actions cs))"
definition stored :: "usb_call list \<Rightarrow> nat" where "stored cs = length (written (actions cs))"

lemmas count_defs = commits_def begins_def skips_def final_events_def stored_def

lemma count_append [simp]:
  "commits (cs @ ds) = commits cs + commits ds" "begins (cs @ ds) = begins cs + begins ds"
  "skips (cs @ ds) = skips cs + skips ds" "final_events (cs @ ds) = final_events cs @ final_events ds"
  "stored (cs @ ds) = stored cs + stored ds"
  by (simp_all add: count_defs)

lemma count_Nil [simp]:
  "commits [] = 0" "begins [] = 0" "skips [] = 0" "final_events [] = []" "stored [] = 0"
  by (simp_all add: count_defs)

lemma count_Cons [simp]:
  "commits (c # cs) = commits_of c + commits cs" "begins (c # cs) = begins_of c + begins cs"
  "skips (c # cs) = skips_of c + skips cs" "final_events (c # cs) = final_of c @ final_events cs"
  "stored (c # cs) = length (written_of c) + stored cs"
  by (cases c; simp add: count_defs)+

lemma count_silent:
  assumes "actions cs = []"
  shows "commits cs = 0" "begins cs = 0" "skips cs = 0" "final_events cs = []" "stored cs = 0"
  using assms by (simp_all add: count_defs)

lemma count_accepted: "sum_list (map commits_of (map accepted ds)) = 0"
  "sum_list (map begins_of (map accepted ds)) = 0" "sum_list (map skips_of (map accepted ds)) = 0"
  "concat (map final_of (map accepted ds)) = []"
  by (induction ds) simp_all

lemma file_session_counts:
  assumes "file_session entry ok cs"
  shows "commits cs = (if ok then 1 else 0)" "begins cs \<le> 1" "ok \<Longrightarrow> begins cs = 1" "skips cs = 0" "final_events cs = []"
    "ok \<Longrightarrow> stored cs = unat (le_size entry)"
proof -
  show "commits cs = (if ok then 1 else 0)" "begins cs \<le> 1" "ok \<Longrightarrow> begins cs = 1" "skips cs = 0" "final_events cs = []"
    using assms by (auto simp: file_session_def count_defs begin_call_def count_accepted split: if_splits)
  assume ok
  with assms obtain ds where "actions cs = begin_call entry ESP_OK # map accepted ds @ [CALL_COMMIT ESP_OK]"
    "stream_stored (unat (le_size entry)) ds cs" by (auto simp: file_session_def)
  then show "stored cs = unat (le_size entry)"
    by (auto simp: stored_def begin_call_def stream_stored_def download_stream_def)
qed

text \<open>
  The tally of a session within its limits, with room for \<open>n\<close> more candidates, and a step that
  counts what it did.
\<close>

definition tally_sane :: "nat \<Rightarrow> sync_tally \<Rightarrow> bool" where
  "tally_sane n t \<longleftrightarrow> tl_downloaded t \<le> 4 \<and> unat (tl_downloaded_bytes t) \<le> 16 * 1024 * 1024
     \<and> tl_downloaded t + tl_skipped t + n \<le> tl_candidates t"

definition tally_step :: "sync_tally \<Rightarrow> bool \<times> sync_tally \<Rightarrow> usb_call list \<Rightarrow> bool" where
  "tally_step t r cs \<longleftrightarrow> tally_sane 0 (snd r)
     \<and> tl_downloaded (snd r) = tl_downloaded t + commits cs
     \<and> tl_skipped (snd r) = tl_skipped t + skips cs
     \<and> begins cs + tl_downloaded t \<le> 4 \<and> final_events cs = []
     \<and> (if fst r then begins cs = commits cs
          \<and> unat (tl_downloaded_bytes (snd r)) = unat (tl_downloaded_bytes t) + stored cs
        else unat (tl_downloaded_bytes (snd r)) \<le> unat (tl_downloaded_bytes t) + stored cs)"

lemma tally_step_stop:
  "actions cs = [] \<Longrightarrow> tally_sane n t \<Longrightarrow> tally_step t (ok, t) cs"
  by (simp add: tally_step_def tally_sane_def count_silent)

text \<open>Calls that no account counts.\<close>

definition uncounted :: "usb_call list \<Rightarrow> bool" where
  "uncounted cs \<longleftrightarrow> commits cs = 0 \<and> begins cs = 0 \<and> skips cs = 0 \<and> final_events cs = [] \<and> stored cs = 0"

lemma uncounted_silent: "actions cs = [] \<Longrightarrow> uncounted cs"
  by (simp add: uncounted_def count_silent)

lemma uncounted_append [simp]: "uncounted (cs @ ds) \<longleftrightarrow> uncounted cs \<and> uncounted ds"
  by (auto simp: uncounted_def)

lemma tally_step_uncounted:
  "uncounted ds \<Longrightarrow> tally_step t r cs \<Longrightarrow> tally_step t r (ds @ cs)"
  "uncounted ds \<Longrightarrow> tally_step t r cs \<Longrightarrow> tally_step t r (cs @ ds)"
  by (simp_all add: tally_step_def uncounted_def)

lemma tally_step_none:
  "uncounted cs \<Longrightarrow> tally_sane 0 t \<Longrightarrow> tl_downloaded t' = tl_downloaded t \<Longrightarrow> tl_skipped t' = tl_skipped t \<Longrightarrow>
   tl_downloaded_bytes t' = tl_downloaded_bytes t \<Longrightarrow> tl_candidates t' = tl_candidates t \<Longrightarrow> tally_step t (ok, t') cs"
  by (simp add: tally_step_def tally_sane_def uncounted_def)

lemma report_progress_emits:
  "emits (report env report_runtime (progress_event t)) (\<lambda>_ cs. uncounted cs)"
  unfolding report_def publish_sync_event_def
  by (intro emits_if emits_notify emits_ret) (simp_all add: progress_event_def uncounted_def)

text \<open>The check of the session's limits before a download keeps the sum from wrapping around.\<close>

lemma tally_download:
  assumes "tally_sane (Suc n) t" and "\<not> (tl_downloaded t \<ge> 4 \<or> file_size > 16 * 1024 * 1024 - tl_downloaded_bytes t)"
  defines "t' \<equiv> t\<lparr>tl_downloaded := tl_downloaded t + 1,
    tl_downloaded_bytes := tl_downloaded_bytes t + file_size\<rparr>"
  shows "tally_sane n t'" "unat (tl_downloaded_bytes t') = unat (tl_downloaded_bytes t) + unat file_size"
proof -
  have b: "unat (tl_downloaded_bytes t) \<le> 16 * 1024 * 1024" using assms(1) by (simp add: tally_sane_def)
  then have "tl_downloaded_bytes t \<le> 16 * 1024 * 1024" by (simp add: word_le_nat_alt)
  then have "unat (16 * 1024 * 1024 - tl_downloaded_bytes t) = 16 * 1024 * 1024 - unat (tl_downloaded_bytes t)"
    by (simp add: unat_sub)
  moreover have "unat file_size \<le> unat (16 * 1024 * 1024 - tl_downloaded_bytes t)"
    using assms(2) by (simp add: word_less_nat_alt)
  ultimately have sum: "unat (tl_downloaded_bytes t) + unat file_size \<le> 16 * 1024 * 1024" using b by linarith
  then have eq: "unat (tl_downloaded_bytes t + file_size) = unat (tl_downloaded_bytes t) + unat file_size"
    by (subst unat_word_ariths) simp
  show "unat (tl_downloaded_bytes t') = unat (tl_downloaded_bytes t) + unat file_size"
    by (simp add: t'_def eq)
  show "tally_sane n t'"
    using assms(1,2) sum by (simp add: tally_sane_def t'_def eq)
qed

lemma downloads_tally:
  "tally_sane (length candidates) t \<Longrightarrow>
   emits (download_candidates env sink is_current report_runtime candidates t) (tally_step t)"
proof (induction candidates arbitrary: t)
  case Nil
  then show ?case by (simp add: emits_ret tally_step_stop [where n = 0])
next
  case (Cons e candidates)
  have sane: "tally_sane 0 t" using Cons.prems by (simp add: tally_sane_def)
  show ?case
    apply (simp only: download_candidates.simps)
    apply (rule emits_bind [OF cancelled_emits])
    apply (rule emits_if, rule emits_ret)
    subgoal using sane by (simp add: tally_step_def tally_sane_def)
    apply (rule emits_bind [where Q = "\<lambda>b cs. cs = [CALL_IS_CURRENT (le_path e) (le_device_time_raw e) (le_size e) b]"],
        rule emits_call, simp)
    apply (rule emits_if, simp only: Let_def)
    subgoal for c cs current ds
      apply (rule emits_bind [OF report_progress_emits])
      apply (rule emits_weaken [OF Cons.IH])
      using Cons.prems by (auto simp: tally_sane_def tally_step_def uncounted_def)
    apply (rule emits_if, rule emits_ret)
    subgoal using sane by (simp add: tally_step_def tally_sane_def)
    apply (rule emits_bind [OF download_entry_outcome_emits])
    apply (rule emits_if)
    subgoal for c cs current ds ok es
      apply (rule emits_bind [OF cancelled_emits], rule emits_ret)
      using sane file_session_counts [of e False es]
      by (auto simp: tally_step_def tally_sane_def)
    apply (simp only: Let_def)
    subgoal for c cs current ds ok es
      apply (rule emits_bind [OF report_progress_emits])
      using tally_download [of "length candidates" t "le_size e"] file_session_counts [of e True es] Cons.prems
      by (intro emits_weaken [OF Cons.IH]) (auto simp: tally_step_def uncounted_def)
    done
qed

lemma listing_reads_emits:
  "target_known 32768 11 target listing \<Longrightarrow>
   emits (listing_reads env reads listing target) (\<lambda>r cs. record_traffic 32768 11 listing (fst r) cs)"
proof (induction reads arbitrary: listing target)
  case 0
  then show ?case
    by (auto intro!: emits_ret simp: record_traffic_def dest: complete_record_framed)
next
  case (Suc reads)
  have stop: "emits (State_Monad.return (None, b)) (\<lambda>r ds. record_traffic 32768 11 listing (fst r) (cs @ ds))"
    if "actions cs = []" "\<exists>pieces. wire cs = map Received pieces" for cs b
    using that by (simp add: emits_ret)
  have step: "emits m (\<lambda>r ds. record_traffic 32768 11 listing (fst r) (cs @ ds))"
    if "actions cs = []" "wire cs = [Received bytes]"
      "emits m (\<lambda>r. record_traffic 32768 11 (listing @ bytes) (fst r))" for m cs bytes
    using that by (blast intro: emits_weaken [OF that(3)] record_traffic_step)
  show ?case
    apply simp
    apply (rule emits_bind [OF cancelled_emits])
    apply (rule emits_if, rule stop, simp, simp)
    apply (rule emits_bind [OF acceptance_in_emits])
    apply (rule emits_option)
     apply (rule emits_ret, simp)
    subgoal for b cs r ds bytes
      apply (rule emits_if, rule emits_ret, simp, rule exI [of _ "[bytes]"], simp)
      apply (simp only: Let_def append_assoc [symmetric])
      apply (rule step; simp?)
      apply (rule emits_option, rule emits_ret, simp)
      subgoal for target'
        using record_target_known [OF _ Suc.prems, of bytes target']
        by (auto intro!: emits_ret Suc.IH simp: record_traffic_def dest: complete_record_framed)
      done
    done
qed

lemma observe_emits:
  "emits (observe_entries sink entries) (\<lambda>_ cs. uncounted cs \<and> wire cs = []
     \<and> actions cs = (if dk_scan_observe sink = None then [] else map (CALL_SCAN_OBSERVE \<circ> le_path) entries))"
proof (induction entries)
  case Nil
  then show ?case by (simp add: emits_ret uncounted_def)
next
  case (Cons e entries)
  show ?case
    apply (simp only: observe_entries.simps)
    apply (rule emits_bind [where Q = "\<lambda>_ cs. cs = (if dk_scan_observe sink = None then [] else [CALL_SCAN_OBSERVE (le_path e)])"])
     apply (auto simp: notify_def intro!: emits_ret emits_call split: option.splits)[1]
    apply (rule emits_weaken [OF Cons.IH])
    apply (auto simp: uncounted_def split: if_splits)
    done
qed

lemma entries_tally:
  "tally_sane 0 t \<Longrightarrow> emits (sync_entries env sink is_current report_runtime c entries t) (tally_step t)"
  unfolding sync_entries_def Let_def
  apply (rule emits_bind [OF observe_emits])
  apply (rule quiet_call_bind, simp add: quiet_def)
  apply (rule emits_if, rule emits_ret, rule tally_step_none; simp add: quiet_def uncounted_silent)
  apply (rule emits_bind [OF report_progress_emits])
  apply (rule emits_weaken [OF downloads_tally])
   apply (simp add: tally_sane_def) [1]
   apply (metis add_mono_thms_linordered_semiring(1) order_refl size_mset sort_candidates_mset)
  apply (auto simp: tally_step_def uncounted_def quiet_def count_silent)
  done

lemma listing_tally:
  assumes "tally_sane 0 t"
  shows "emits (sync_listing env sink is_current report_runtime c listing t) (tally_step t)"
proof -
  have stop: "tally_step t (ok, t) cs" "tally_step t (ok, t\<lparr>tl_listings_completed := n\<rparr>) cs"
    if "actions cs = []" for ok n cs
    using that assms by (simp_all add: tally_step_none uncounted_silent)
  have entries: "emits (sync_entries env sink is_current report_runtime c entries t) (\<lambda>r ds. tally_step t r (cs @ ds))"
    if "actions cs = []" for entries cs
    by (rule emits_weaken [OF entries_tally [OF assms]]) (simp add: tally_step_uncounted uncounted_silent that)
  show ?thesis
    unfolding sync_listing_def
    by (auto split: prod.split bool.split intro!: emits_ret emits_option emits_if quiet_call_bind entries stop
        simp: quiet_def)
qed

lemma collection_tally:
  "tally_sane 0 t \<Longrightarrow> emits (sync_collection env sink is_current report_runtime c t) (tally_step t)"
  unfolding sync_collection_def
  apply (rule emits_bind [OF out_request_emits])
  apply (rule emits_if, rule emits_ret, rule tally_step_none; simp add: uncounted_silent)
  apply (rule emits_bind [OF listing_reads_emits], simp add: target_known_def)
  apply (rule emits_option, rule emits_ret, rule tally_step_none; simp add: uncounted_silent record_traffic_def)
  apply (rule emits_weaken [OF listing_tally]; simp add: tally_step_uncounted uncounted_silent record_traffic_def)
  done

lemma tally_step_trans:
  "tally_step t (True, t1) cs \<Longrightarrow> tally_step t1 r ds \<Longrightarrow> tally_step t r (cs @ ds)"
  by (auto simp: tally_step_def)

lemma collections_tally:
  "tally_sane 0 t \<Longrightarrow> emits (sync_collections env sink is_current report_runtime cs t) (tally_step t)"
proof (induction cs arbitrary: t)
  case Nil
  then show ?case by (simp add: emits_ret tally_step_stop)
next
  case (Cons c cs)
  show ?case
    apply simp
    apply (rule emits_bind [OF collection_tally [OF Cons.prems]])
    subgoal for r es
      using tally_step_trans [of t "snd r" es]
      by (cases r) (auto simp: tally_step_def intro!: emits_ret emits_weaken [OF Cons.IH])
    done
qed

lemma tally_step_zero:
  "tally_step (tally_zero\<lparr>tl_collections_expected := n\<rparr>) r cs \<Longrightarrow> tally_step tally_zero r cs"
  unfolding tally_step_def tally_zero_def by (cases "fst r") simp_all

lemma tally_zero_sane: "tally_sane 0 tally_zero" "tally_sane 0 (tally_zero\<lparr>tl_collections_expected := n\<rparr>)"
  by (simp_all add: tally_sane_def tally_zero_def)

lemma tally_zero_step: "uncounted cs \<Longrightarrow> tally_step tally_zero (ok, tally_zero) cs"
  "uncounted cs \<Longrightarrow> tally_step tally_zero (ok, tally_zero\<lparr>tl_cancelled := b\<rparr>) cs"
  by (simp_all add: tally_step_none tally_zero_sane)

lemma uncounted_call_bind:
  assumes "\<And>a. uncounted [item a]" and "\<And>a cs. uncounted cs \<Longrightarrow> emits (f a) (\<lambda>b ds. R b (cs @ ds))"
  shows "emits (State_Monad.bind (call g item) f) R"
  by (rule emits_bind [where Q = "\<lambda>_ cs. uncounted cs"]) (simp_all add: emits_call assms)

lemma data_phase_tally:
  "emits (sync_data_phase env sink is_current report_runtime) (tally_step tally_zero)"
proof -
  have cols: "emits (sync_collections env sink is_current report_runtime collections
      (tally_zero\<lparr>tl_collections_expected := length collections\<rparr>)) (\<lambda>r ds. tally_step tally_zero r (cs @ ds))"
    if "uncounted cs" for cs
    by (rule emits_weaken [OF collections_tally [OF tally_zero_sane(2)]])
      (rule tally_step_uncounted(1) [OF that tally_step_zero])
  show ?thesis
    unfolding sync_data_phase_def
    apply (rule uncounted_call_bind, simp add: uncounted_def)
    apply (rule emits_if, rule emits_ret, simp add: tally_zero_step)
    apply (rule emits_bind [where Q = "\<lambda>_ cs. uncounted cs"])
     apply (rule emits_option, rule emits_ret, simp add: uncounted_def, rule emits_call, simp add: uncounted_def)
    apply (simp only: append_assoc [symmetric], rule cols, simp)
    done
qed

lemma body_tally:
  "emits (sync_body env sink is_current report_runtime recovery identity_only) (tally_step tally_zero)"
proof -
  have data: "emits (sync_data_phase env sink is_current report_runtime) (\<lambda>r ds. tally_step tally_zero r (cs @ ds))"
    if "uncounted cs" for cs
    by (rule emits_weaken [OF data_phase_tally]) (rule tally_step_uncounted(1) [OF that])
  have identified: "emits (sync_identified env sink is_current report_runtime identity_only identity)
      (\<lambda>r ds. tally_step tally_zero r (cs @ ds))" if "uncounted cs" for cs identity
    unfolding sync_identified_def
    apply (rule emits_if, rule emits_ret, simp add: tally_zero_step that)
    apply (rule uncounted_call_bind, simp add: uncounted_def)
    apply (rule emits_if, rule emits_ret, simp add: tally_zero_step that)
    apply (rule emits_if, rule emits_ret, simp add: tally_zero_step that)
    apply (simp only: append_assoc [symmetric], rule data, simp add: that)
    done
  show ?thesis
    unfolding sync_body_def
    apply (rule emits_bind [OF cancelled_emits])
    apply (rule emits_if, rule emits_ret, simp add: tally_zero_step uncounted_def)
    apply (rule emits_bind [OF identity_emits])
    apply (rule emits_bind [where Q = "\<lambda>_ cs. uncounted cs"])
     apply (rule emits_option, rule emits_ret, simp add: uncounted_def, rule emits_notify; simp add: uncounted_def)
    apply (rule emits_if, rule emits_ret, simp add: tally_zero_step uncounted_def identity_traffic_def count_silent)
    apply (rule emits_option, rule emits_ret, simp add: tally_zero_step uncounted_def identity_traffic_def count_silent)
    apply (simp only: append_assoc [symmetric], rule identified)
    apply (simp add: uncounted_def identity_traffic_def count_silent)
    done
qed

text \<open>The cleanup closes the session and publishes exactly one final event.\<close>

definition cleanup_traffic ::
  "bool \<Rightarrow> bool \<Rightarrow> bool \<Rightarrow> sync_tally \<Rightarrow> bool \<Rightarrow> usb_call list \<Rightarrow> bool" where
  "cleanup_traffic reported recovery passed t sent_ok cs \<longleftrightarrow>
     commits cs = 0 \<and> begins cs = 0 \<and> skips cs = 0 \<and> stored cs = 0
     \<and> (\<exists>cancelled acknowledged status.
          final_events cs = (if reported
            then [finished_event recovery passed cancelled sent_ok acknowledged status t] else [])
          \<and> CALL_RELEASE_INTERFACE status \<in> set cs
          \<and> (acknowledged \<longrightarrow> sent_ok \<and> received cs = [DISCONNECT_ACK]))"

lemma finished_event_final:
  "final_of (CALL_SYNC_EVENT (finished_event recovery passed cancelled sent_ok acknowledged status t))
     = [finished_event recovery passed cancelled sent_ok acknowledged status t]"
  by (simp add: finished_event_def Let_def)

lemma cleanup_trafficI:
  assumes pre: "uncounted as" "wire as = []"
    and close: "actions ds = []" "\<exists>answers. received ds = answers \<and> (acknowledged \<longrightarrow> sent_ok \<and> answers = [DISCONNECT_ACK])"
    and mid: "uncounted fs" "wire fs = []"
    and last: "gs = (if reported
      then [CALL_SYNC_EVENT (finished_event recovery passed cancelled sent_ok acknowledged status t)] else [])"
  shows "cleanup_traffic reported recovery passed t sent_ok (as @ ds @ CALL_RELEASE_INTERFACE status # fs @ gs)"
proof -
  let ?cs = "as @ ds @ CALL_RELEASE_INTERFACE status # fs @ gs"
  have fe: "final_events ?cs = (if reported
      then [finished_event recovery passed cancelled sent_ok acknowledged status t] else [])"
    using pre(1) close(1) mid(1)
    by (auto simp: uncounted_def count_silent last finished_event_final simp del: final_of.simps(1))
  have rc: "received ?cs = received ds"
    using pre(2) mid(2) by (simp add: received_def last)
  have "\<exists>cancelled acknowledged status.
      final_events ?cs = (if reported
        then [finished_event recovery passed cancelled sent_ok acknowledged status t] else [])
      \<and> CALL_RELEASE_INTERFACE status \<in> set ?cs
      \<and> (acknowledged \<longrightarrow> sent_ok \<and> received ?cs = [DISCONNECT_ACK])"
    by (rule exI [of _ cancelled], rule exI [of _ acknowledged], rule exI [of _ status], unfold fe rc)
      (use close(2) in simp)
  moreover have "commits ?cs = 0 \<and> begins ?cs = 0 \<and> skips ?cs = 0 \<and> stored ?cs = 0"
    using pre(1) close(1) mid(1) by (simp add: uncounted_def count_silent last)
  ultimately show ?thesis unfolding cleanup_traffic_def by blast
qed

lemma cleanup_emits:
  "emits (sync_cleanup env sink identity report_runtime recovery transfers passed t)
     (cleanup_traffic (report_runtime \<and> env_sync_observer env \<noteq> None) recovery passed t)"
proof -
  have silent: "emits (notify f item e) (\<lambda>_ cs. uncounted cs \<and> wire cs = [])"
    if "uncounted [item e]" "wire_of (item e) = []" for f :: "(('b \<Rightarrow> 'd \<Rightarrow> unit \<times> 'd)) option" and item e
    using that by (intro emits_notify) (simp_all add: uncounted_def)
  have final: "emits (report env report_runtime e)
      (\<lambda>_ cs. cs = (if report_runtime \<and> env_sync_observer env \<noteq> None then [CALL_SYNC_EVENT e] else []))" for e
    unfolding report_def publish_sync_event_def notify_def
    by (auto intro!: emits_ret emits_call split: option.splits)
  show ?thesis
    unfolding sync_cleanup_def publish_event_def
    apply (rule emits_bind [where Q = "\<lambda>_ cs. uncounted cs \<and> wire cs = []"])
     apply (rule emits_or_else [where Q = "\<lambda>_ cs. cs = []"], rule emits_ret, simp, simp add: uncounted_def)
     apply (rule emits_weaken [OF cancelled_emits], simp add: uncounted_def)
    apply (rule emits_bind [OF disconnect_emits])
    apply (rule emits_bind [where Q = "\<lambda>status cs. cs = [CALL_RELEASE_INTERFACE status]"], rule emits_call, simp)
    apply (rule emits_bind [OF silent], simp add: uncounted_def, simp)
    apply (rule emits_bind [OF silent], simp add: uncounted_def, simp)
    apply (rule emits_bind [where Q = "\<lambda>_ cs. cs = [CALL_RELEASE_DEVICE]"], rule emits_call, simp)
    apply (rule emits_bind [OF final], rule emits_ret)
    subgoal for cancelled cs disconnect ds status es u fs v gs w hs x ks
      using cleanup_trafficI [of cs ds "snd disconnect" "fst disconnect" "fs @ gs @ hs" ks
          "report_runtime \<and> env_sync_observer env \<noteq> None" recovery passed cancelled status t]
      by (cases "fst transfers") (auto simp: case_prod_beta uncounted_def received_def o_def)
    done
qed

text \<open>What a final event must say about the calls of its session.\<close>

definition session_report :: "bool \<Rightarrow> usb_call list \<Rightarrow> sync_event \<Rightarrow> bool" where
  "session_report recovery cs e \<longleftrightarrow>
     sev_kind e \<in> {SYNC_EV_COMPLETED, SYNC_EV_CANCELLED, SYNC_EV_FAILED}
     \<and> sev_downloaded e = commits cs \<and> sev_skipped e = skips cs
     \<and> sev_candidates e = sev_downloaded e + sev_skipped e + sev_pending e
     \<and> begins cs \<le> 4 \<and> unat (sev_downloaded_bytes e) \<le> 16 * 1024 * 1024
     \<and> unat (sev_downloaded_bytes e) \<le> stored cs
     \<and> (sev_data_phase_completed e \<longrightarrow> begins cs = commits cs \<and> unat (sev_downloaded_bytes e) = stored cs)
     \<and> (sev_kind e \<noteq> SYNC_EV_FAILED \<longrightarrow> sev_session_close_sent e \<and> sev_session_close_acknowledged e
          \<and> last (received cs) = DISCONNECT_ACK \<and> CALL_RELEASE_INTERFACE ESP_OK \<in> set cs)
     \<and> (sev_kind e = SYNC_EV_COMPLETED \<longrightarrow> sev_data_phase_completed e \<or> recovery)
     \<and> (sev_platform_error e = ESP_OK \<longleftrightarrow> sev_kind e \<noteq> SYNC_EV_FAILED)"

lemma finished_report:
  assumes t: "tally_step tally_zero (passed, t) bs"
    and c: "commits cs = 0" "begins cs = 0" "skips cs = 0" "stored cs = 0"
      "CALL_RELEASE_INTERFACE status \<in> set cs" "acknowledged \<longrightarrow> sent_ok \<and> received cs = [DISCONNECT_ACK]"
    and a: "uncounted as"
  shows "session_report recovery (as @ bs @ cs)
    (finished_event recovery passed cancelled sent_ok acknowledged status t)"
  unfolding session_report_def
  using t c a
  by (auto simp: finished_event_def Let_def tally_step_def tally_sane_def tally_zero_def uncounted_def
      split: if_splits)

lemma report_emits:
  "emits (report env report_runtime e) (\<lambda>_ cs.
     cs = (if report_runtime \<and> env_sync_observer env \<noteq> None then [CALL_SYNC_EVENT e] else []))"
  unfolding report_def publish_sync_event_def notify_def
  by (auto intro!: emits_ret emits_call split: option.splits)

lemma transfers_emits: "emits (session_transfers env) (\<lambda>_ cs. quiet cs)"
  unfolding session_transfers_def
  by (intro quiet_call_bind emits_if emits_ret) (simp_all add: quiet_def)

definition session_outcome :: "bool \<Rightarrow> bool \<Rightarrow> bool option \<Rightarrow> usb_call list \<Rightarrow> bool" where
  "session_outcome reported recovery r cs \<longleftrightarrow>
     (\<exists>e. final_events cs = (if reported then [e] else [])
        \<and> (case r of
             None \<Rightarrow> sev_kind e = SYNC_EV_FAILED \<and> sev_platform_error e \<noteq> ESP_OK \<and> sent cs = []
           | Some sent_ok \<Rightarrow> sev_session_close_sent e = sent_ok \<and> session_report recovery cs e))"

lemma failed_outcome:
  assumes "final_events cs = []" "sent cs = []" "err \<noteq> ESP_OK"
  shows "emits (State_Monad.bind (report env report_runtime (failed_event recovery err))
        (\<lambda>_. State_Monad.return None))
      (\<lambda>r ds. session_outcome (report_runtime \<and> env_sync_observer env \<noteq> None) recovery r (cs @ ds))"
  apply (rule emits_bind [OF report_emits], rule emits_ret)
  using assms unfolding session_outcome_def
  by (auto simp: failed_event_def sent_def intro!: exI [of _ "failed_event recovery err"])

lemma session_closes:
  assumes a: "uncounted as" and t: "tally_step tally_zero r bs"
    and c: "cleanup_traffic reported recovery (fst r) (snd r) sent_ok cs"
  shows "session_outcome reported recovery (Some sent_ok) (as @ bs @ cs)"
proof -
  from c obtain cancelled acknowledged status where e: "final_events cs = (if reported
      then [finished_event recovery (fst r) cancelled sent_ok acknowledged status (snd r)] else [])"
    and s: "CALL_RELEASE_INTERFACE status \<in> set cs" "acknowledged \<longrightarrow> sent_ok \<and> received cs = [DISCONNECT_ACK]"
    and z: "commits cs = 0" "begins cs = 0" "skips cs = 0" "stored cs = 0"
    by (auto simp: cleanup_traffic_def)
  let ?e = "finished_event recovery (fst r) cancelled sent_ok acknowledged status (snd r)"
  have "session_report recovery (as @ bs @ cs) ?e"
    using t by (intro finished_report z s a) simp
  moreover have "final_events (as @ bs @ cs) = (if reported then [?e] else [])"
    using a t e by (simp add: uncounted_def tally_step_def)
  moreover have "sev_session_close_sent ?e = sent_ok" by (simp add: finished_event_def Let_def)
  ultimately show ?thesis unfolding session_outcome_def by (intro exI [of _ ?e]) simp
qed

text \<open>
  C22. The account of a session is true. A reported session publishes exactly one final event.
  When the session never opened, the event is a failure with its error and nothing was sent.
  Otherwise its counts are the commits and the cache hits of the session, at most four downloads
  were attempted, the reported bytes are within the limit of the session and within what was
  stored (and equal to it when the data phase passed), candidates are downloads, hits and pending
  files; success or a clean cancellation is claimed only when the device acknowledged the close
  and the interface was released.
\<close>

theorem sync_report_exact:
  "emits (run_download_acceptance env sink identity report_runtime recovery identity_only)
     (session_outcome (report_runtime \<and> env_sync_observer env \<noteq> None) recovery)"
  unfolding run_download_acceptance_def
  apply (rule emits_option)
  subgoal using failed_outcome [of "[]" ESP_ERR_INVALID_STATE] by simp
  apply (rule emits_option)
  subgoal using failed_outcome [of "[]" ESP_ERR_INVALID_STATE] by simp
  apply (rule emits_bind [OF report_emits])
  apply (rule emits_bind [where Q = "\<lambda>err cs. cs = [CALL_CLAIM err]"], rule emits_call, simp)
  apply (rule emits_if)
  subgoal for sink is_current u as err bs
    using failed_outcome [of "as @ bs" err env report_runtime recovery]
    by (cases "report_runtime \<and> env_sync_observer env \<noteq> None") (simp_all add: sync_event_zero_def sent_def)
  apply (rule emits_bind [where Q = "\<lambda>_ cs. uncounted cs"], unfold publish_event_def,
      rule emits_notify, simp add: uncounted_def, simp add: uncounted_def)
  apply (rule emits_bind [OF transfers_emits])
  apply (rule emits_bind [where Q = "tally_step tally_zero"])
   apply (rule emits_if, rule emits_ret, simp add: tally_zero_step uncounted_def, rule body_tally)
  apply (rule emits_bind [OF cleanup_emits], rule emits_ret)
  subgoal for sink is_current u as err bs v cs w ds r es sent_ok fs
    using session_closes [of "as @ bs @ cs @ ds" r es _ recovery sent_ok fs]
    by (auto simp: uncounted_def quiet_def count_silent sync_event_zero_def)
  done

end
