(* ===== verification/Usb_Evidence.thy ===== *)
theory Usb_Evidence
  imports Usb_Sync Accessport_Targets
begin

text \<open>
  What the two operations that change the device share
  (accessport_usb/revlink_accessport_usb.c): opening the session with the identity of the device
  that the owner authorised, the question whether a directory holds a path, and the close with
  the recovery latch. The lemmas say which evidence was on the wire when each of them succeeded.
\<close>

section \<open>Opening and closing\<close>

definition session_event :: "device_event_kind \<Rightarrow> device_identity \<Rightarrow> device_event" where
  "session_event kind identity = device_event_zero\<lparr>ev_kind := kind, ev_identity := identity\<rparr>"

text \<open>
  The transfers, the identity read from the device itself and the two checks on it: the part
  number and the serial of the request, and the catalog.
\<close>

definition open_device ::
  "'d usb_env \<Rightarrow> device_identity \<Rightarrow> u8 list \<Rightarrow> u8 list
   \<Rightarrow> ('d, (bool \<times> bool) \<times> (esp_err + device_info)) usb" where
  "open_device env identity part_number serial = do {
     publish_event env (session_event DEV_EV_SESSION_OPENED identity);
     transfers \<leftarrow> session_transfers env;
     if \<not> snd transfers then ret (transfers, Inl ESP_ERR_NO_MEM)
     else do {
       probe \<leftarrow> read_true_device_identity env;
       ret (transfers,
         case probe of
           None \<Rightarrow> Inl ESP_ERR_INVALID_STATE
         | Some true_identity \<Rightarrow>
             if di_part_number true_identity \<noteq> c_str part_number
               \<or> di_serial true_identity \<noteq> c_str serial then Inl ESP_ERR_INVALID_STATE
             else if \<not> device_supported true_identity then Inl ESP_ERR_NOT_SUPPORTED
             else Inr true_identity) } }"

text \<open>
  The first half of the cleanup; the result is what is stored in \<open>*polite_disconnect_sent\<close> and
  the final error. \<open>latch\<close> is the condition on which the recovery lock is taken.
\<close>

definition close_device ::
  "'d usb_env \<Rightarrow> device_identity \<Rightarrow> bool \<Rightarrow> bool \<times> bool \<Rightarrow> bool \<Rightarrow> esp_err
   \<Rightarrow> ('d, bool \<times> esp_err) usb" where
  "close_device env identity interface_claimed transfers latch final_error = do {
     (if latch \<and> final_error \<noteq> ESP_OK
      then call (env_store_recovery env True) (\<lambda>_. CALL_RECOVERY_STORE True) else ret ());
     disconnect \<leftarrow> send_polite_disconnect env (fst transfers \<and> interface_claimed) (snd transfers);
     if \<not> interface_claimed then ret (fst disconnect, final_error)
     else do {
       release_status \<leftarrow> call (env_release_interface env) CALL_RELEASE_INTERFACE;
       publish_event env (session_event DEV_EV_SESSION_CLOSED identity);
       ret (fst disconnect,
         if final_error = ESP_OK \<and> release_status \<noteq> ESP_OK then release_status else final_error) } }"

section \<open>Asking for a directory\<close>

text \<open>The entries of the directory, or \<open>None\<close> for a question that was not answered.\<close>

definition query_directory :: "'d usb_env \<Rightarrow> u8 list \<Rightarrow> ('d, listing_entry list option) usb" where
  "query_directory env directory = do {
     out_ok \<leftarrow> out_request env (build_list (Span directory) request_buffer (Some 0));
     if \<not> out_ok then ret None
     else do {
       allocated \<leftarrow> call (env_allocate env) CALL_ALLOCATE;
       if \<not> allocated then ret None
       else do {
         r \<leftarrow> read_archive_record env 32768;
         case r of
           None \<Rightarrow> ret None
         | Some response \<Rightarrow>
             (case response_payload response of
                None \<Rightarrow> ret None
              | Some payload \<Rightarrow>
                  (case listing_count payload of
                     None \<Rightarrow> ret None
                   | Some entry_count \<Rightarrow>
                       if entry_count = 0 then ret (Some [])
                       else do {
                         allocated \<leftarrow> call (env_allocate env) CALL_ALLOCATE;
                         ret (if allocated then listing_entries payload entry_count else None) })) } } }"

text \<open>The comparison of a listed path with a requested one ignores the case of ASCII letters.\<close>

definition same_path :: "u8 list \<Rightarrow> listing_entry \<Rightarrow> bool" where
  "same_path path entry \<longleftrightarrow> length (le_path entry) = length path
     \<and> list_all2 ascii_equal_case_insensitive (le_path entry) path"

definition map_destination_absent :: "'d usb_env \<Rightarrow> u8 list \<Rightarrow> ('d, bool) usb" where
  "map_destination_absent env path = do {
     r \<leftarrow> query_directory env (ascii ''maps'');
     ret (case r of None \<Rightarrow> False | Some entries \<Rightarrow> \<not> list_ex (same_path path) entries) }"

datatype listing_query = LISTING_QUERY_FAILED | LISTING_ENTRY_PRESENT | LISTING_ENTRY_ABSENT

definition directory_entry_state :: "'d usb_env \<Rightarrow> u8 list \<Rightarrow> u8 list \<Rightarrow> ('d, listing_query) usb" where
  "directory_entry_state env directory path = do {
     r \<leftarrow> query_directory env directory;
     ret (case r of
            None \<Rightarrow> LISTING_QUERY_FAILED
          | Some entries \<Rightarrow>
              if list_ex (same_path path) entries then LISTING_ENTRY_PRESENT else LISTING_ENTRY_ABSENT) }"

section \<open>The evidence on the wire\<close>

text \<open>
  The device on the wire is the one that was authorised: it answered the four identity requests,
  its answers name the part and the serial, and the catalog allows file operations on the part.
\<close>

definition device_shown :: "u8 list \<Rightarrow> u8 list \<Rightarrow> wire_item list \<Rightarrow> bool" where
  "device_shown part_number serial ws \<longleftrightarrow>
     (\<exists>answers identity. ws = conversation IDENTITY_HANDSHAKE answers
        \<and> identifies (map concat answers) identity
        \<and> di_part_number identity = c_str part_number \<and> di_serial identity = c_str serial
        \<and> device_supported identity)"

definition list_request :: "u8 list \<Rightarrow> u8 list" where
  "list_request directory = archive_record AP_OPCODE_LIST (lp_field directory)"

text \<open>The device answered the question for a directory with a well formed listing of these entries.\<close>

definition listing_shown :: "u8 list \<Rightarrow> wire_item list \<Rightarrow> listing_entry list \<Rightarrow> bool" where
  "listing_shown directory ws entries \<longleftrightarrow>
     (\<exists>pieces wes. ws = Sent (list_request directory) # map Received pieces
        \<and> concat pieces = archive_record AP_OPCODE_RESPONSE (wire_listing wes)
        \<and> wire_entries_ok True wes \<and> entries = map we_entry wes)"

text \<open>Every request in a stretch of the wire satisfies a predicate.\<close>

fun asks_one :: "(u8 list \<Rightarrow> bool) \<Rightarrow> wire_item \<Rightarrow> bool" where
  "asks_one P (Sent q) = P q"
| "asks_one P (Received x) = True"

definition asks :: "(u8 list \<Rightarrow> bool) \<Rightarrow> wire_item list \<Rightarrow> bool" where
  "asks P ws \<longleftrightarrow> list_all (asks_one P) ws"

lemma asks_simps [simp]:
  "asks P []" "asks P (w # ws) \<longleftrightarrow> asks_one P w \<and> asks P ws" "asks P (ws @ vs) \<longleftrightarrow> asks P ws \<and> asks P vs"
  "asks P (map Received pieces)" "asks P (map Sent qs) \<longleftrightarrow> list_all P qs"
  by (auto simp: asks_def list_all_iff)

lemma asks_conversation: "list_all P requests \<Longrightarrow> asks P (conversation requests answers)"
proof (induction requests arbitrary: answers)
  case (Cons q requests)
  then show ?case by (cases answers) simp_all
qed simp

lemma asks_weaken: "asks P ws \<Longrightarrow> (\<And>q. P q \<Longrightarrow> Q q) \<Longrightarrow> asks Q ws"
proof (induction ws)
  case (Cons w ws)
  then show ?case by (cases w) simp_all
qed simp

lemma device_shown_asks: "device_shown part_number serial ws \<Longrightarrow> asks (\<lambda>q. q \<in> set IDENTITY_HANDSHAKE) ws"
  unfolding device_shown_def by (auto intro!: asks_conversation simp: list_all_iff)

lemma listing_shown_asks: "listing_shown directory ws entries \<Longrightarrow> asks (\<lambda>q. q = list_request directory) ws"
  unfolding listing_shown_def by auto

section \<open>Listings\<close>

lemma parse_without_array:
  "parse_listing_payload (Span payload) (NullSpan 0) (Some 0)
     = (case parse_listing_payload (Span payload) (Span []) (Some 0) of (st, _, found) \<Rightarrow> (st, NullSpan 0, found))"
proof -
  obtain result es where "parse_listing_loop payload (unat (load_u32_le (drop 2 payload))) 0 8 [] = (result, es)"
    by fastforce
  then show ?thesis by (cases result) (simp_all add: parse_listing_payload_def Let_def)
qed

lemma listing_count_Some:
  assumes "listing_count payload = Some n"
  shows "\<exists>wes. payload = wire_listing wes \<and> wire_entries_ok True wes \<and> length wes < 2 ^ 32 \<and> length wes = n"
proof -
  obtain st es found where p: "parse_listing_payload (Span payload) (Span []) (Some 0) = (st, es, found)"
    using prod_cases3 by blast
  have st: "st \<in> {AP_OK, AP_BUFFER_TOO_SMALL}" and f: "found = Some n"
    using assms by (auto simp: listing_count_def parse_without_array p split: if_splits)
  from parse_listing_is_wire [of payload "[]" 0] p st obtain wes where
    w: "payload = wire_listing wes" "wire_entries_ok True wes" "length wes < 2 ^ 32" by auto
  then have "found = Some (length wes)" using p by (simp add: parse_wire_listing)
  then show ?thesis using w f by auto
qed

lemma listing_entries_wire:
  assumes "listing_entries (wire_listing wes) (length wes) = Some entries"
    and "wire_entries_ok True wes" and "length wes < 2 ^ 32"
  shows "entries = map we_entry wes"
  using assms by (simp add: listing_entries_def parse_wire_listing fill_def)

lemma take_strnlen: "strnlen xs n < n \<Longrightarrow> take (strnlen xs n) xs = c_str xs"
proof -
  assume "strnlen xs n < n"
  moreover have "c_str (take n xs) = take n (c_str xs)"
  proof (induction xs arbitrary: n)
    case (Cons x xs)
    then show ?case by (cases n) (simp_all add: c_str_def)
  qed (simp add: c_str_def)
  ultimately have "strnlen xs n = length (c_str xs)" by (auto simp: strnlen_def)
  then show ?thesis by (simp add: c_str_def takeWhile_eq_take [symmetric])
qed

section \<open>Traffic\<close>

lemma event_emits:
  "emits (publish_event env event) (\<lambda>_ cs. wire cs = []
     \<and> actions cs = (if env_device_observer env = None then [] else [CALL_DEVICE_EVENT event]))"
  unfolding publish_event_def notify_def by (auto intro!: emits_ret emits_call split: option.splits)

definition query_traffic :: "u8 list \<Rightarrow> listing_entry list option \<Rightarrow> usb_call list \<Rightarrow> bool" where
  "query_traffic directory r cs \<longleftrightarrow> actions cs = [] \<and> asks (\<lambda>q. q = list_request directory) (wire cs)
     \<and> (\<forall>entries. r = Some entries \<longrightarrow> listing_shown directory (wire cs) entries)"

lemma query_none:
  "actions cs = [] \<Longrightarrow> asks (\<lambda>q. q = list_request directory) (wire cs) \<Longrightarrow>
   emits (State_Monad.return None) (\<lambda>r ds. query_traffic directory r (cs @ ds))"
  by (simp add: emits_ret query_traffic_def)

lemma query_answered:
  assumes "actions cs = []" and "wire cs = Sent (list_request directory) # map Received pieces"
    and "response_payload (concat pieces) = Some payload" and "listing_count payload = Some n"
    and "if n = 0 then entries = [] else listing_entries payload n = Some entries"
  shows "query_traffic directory (Some entries) cs"
proof -
  from listing_count_Some [OF assms(4)] obtain wes where w: "payload = wire_listing wes"
    "wire_entries_ok True wes" "length wes < 2 ^ 32" "length wes = n" by blast
  have "entries = map we_entry wes"
  proof (cases "n = 0")
    case False
    then show ?thesis using assms(5) w listing_entries_wire [of wes] by simp
  qed (use assms(5) w in simp)
  then show ?thesis
    unfolding query_traffic_def listing_shown_def
    using assms(1-3) w by (auto simp: response_payload_Some)
qed

lemma query_emits:
  assumes "length directory \<le> 462"
  shows "emits (query_directory env directory) (query_traffic directory)"
proof -
  have q: "request_bytes (build_list (Span directory) request_buffer (Some 0)) = Some (list_request directory)"
    using assms by (simp add: request_list list_request_def)
  show ?thesis
    unfolding query_directory_def
    apply (rule emits_bind [OF out_request_emits [of env "build_list (Span directory) request_buffer (Some 0)", unfolded q option.case]])
    apply (rule emits_if, rule query_none [of "[]", simplified] emits_ret)
    subgoal by (simp add: query_traffic_def)
    apply (rule quiet_call_bind, simp add: quiet_def)
    apply (rule emits_if, rule emits_ret, simp add: query_traffic_def quiet_def)
    apply (rule emits_bind [OF read_record_emits])
    apply (rule emits_option, rule emits_ret, simp add: query_traffic_def quiet_def, force)
    apply (rule emits_option, rule emits_ret, simp add: query_traffic_def quiet_def record_traffic_def, force)
    apply (rule emits_option, rule emits_ret, simp add: query_traffic_def quiet_def record_traffic_def, force)
    subgoal for ok cs b ds r es response payload n
      apply (rule emits_if, rule emits_ret)
      subgoal by (auto simp: record_traffic_def quiet_def intro!: query_answered [where n = n and payload = payload])
      apply (rule quiet_call_bind, simp add: quiet_def, rule emits_ret)
      subgoal for alloc fs
        apply (cases "if alloc then listing_entries payload n else None")
        subgoal by (auto simp: query_traffic_def quiet_def record_traffic_def)
        subgoal by (auto simp: record_traffic_def quiet_def split: if_splits
              intro!: query_answered [where n = n and payload = payload])
        done
      done
    done
qed

lemma destination_absent_emits:
  "emits (map_destination_absent env path) (\<lambda>absent cs. actions cs = []
     \<and> asks (\<lambda>q. q = list_request (ascii ''maps'')) (wire cs)
     \<and> (absent \<longrightarrow> (\<exists>entries. listing_shown (ascii ''maps'') (wire cs) entries
          \<and> \<not> list_ex (same_path path) entries)))"
  unfolding map_destination_absent_def
  by (rule emits_bind [OF query_emits], simp, rule emits_ret)
    (auto simp: query_traffic_def split: option.splits)

lemma entry_state_emits:
  assumes "length directory \<le> 462"
  shows "emits (directory_entry_state env directory path) (\<lambda>r cs. actions cs = []
     \<and> asks (\<lambda>q. q = list_request directory) (wire cs)
     \<and> (r \<noteq> LISTING_QUERY_FAILED \<longrightarrow> (\<exists>entries. listing_shown directory (wire cs) entries
          \<and> (r = LISTING_ENTRY_PRESENT \<longleftrightarrow> list_ex (same_path path) entries))))"
  unfolding directory_entry_state_def
  by (rule emits_bind [OF query_emits], rule assms, rule emits_ret)
    (auto simp: query_traffic_def split: option.splits)

text \<open>Observers of the device events are told of the session; nothing else is called.\<close>

definition device_events_only :: "usb_call list \<Rightarrow> bool" where
  "device_events_only cs \<longleftrightarrow> (\<forall>c \<in> set (actions cs). \<exists>e. c = CALL_DEVICE_EVENT e)"

lemma device_events_only_simps [simp]:
  "device_events_only []" "device_events_only (cs @ ds) \<longleftrightarrow> device_events_only cs \<and> device_events_only ds"
  "actions cs = [] \<Longrightarrow> device_events_only cs"
  by (auto simp: device_events_only_def)

definition open_traffic ::
  "u8 list \<Rightarrow> u8 list \<Rightarrow> (bool \<times> bool) \<times> (esp_err + device_info) \<Rightarrow> usb_call list \<Rightarrow> bool" where
  "open_traffic part_number serial r cs \<longleftrightarrow> device_events_only cs
     \<and> asks (\<lambda>q. q \<in> set IDENTITY_HANDSHAKE) (wire cs)
     \<and> (\<forall>err. snd r = Inl err \<longrightarrow> err \<noteq> ESP_OK)
     \<and> (\<forall>identity. snd r = Inr identity \<longrightarrow> fst (fst r) \<and> device_shown part_number serial (wire cs))"

lemma transfers_result_emits:
  "emits (session_transfers env) (\<lambda>r cs. quiet cs \<and> (snd r \<longrightarrow> fst r))"
proof -
  have step: "emits (State_Monad.bind (call g item) f) (\<lambda>r cs. quiet cs \<and> (snd r \<longrightarrow> fst r))"
    if "\<And>a. quiet [item a]" "\<And>a. emits (f a) (\<lambda>r cs. quiet cs \<and> (snd r \<longrightarrow> fst r))" for g item f
    by (rule quiet_call_bind) (auto intro: that emits_weaken [OF that(2)])
  show ?thesis
    unfolding session_transfers_def
    by (intro step emits_if emits_ret) (simp_all add: quiet_def)
qed

lemma open_emits: "emits (open_device env identity part_number serial) (open_traffic part_number serial)"
  unfolding open_device_def
  apply (rule emits_bind [OF event_emits])
  apply (rule emits_bind [OF transfers_result_emits])
  apply (rule emits_if, rule emits_ret)
  subgoal by (simp add: open_traffic_def quiet_def device_events_only_def)
  apply (rule emits_bind [OF identity_emits], rule emits_ret)
  subgoal for u cs transfers ds probe es
    by (auto simp: open_traffic_def quiet_def device_events_only_def identity_traffic_def device_shown_def
        list_all_iff intro!: asks_conversation split: option.splits if_splits)
  done

text \<open>The close stores the lock first and asks for the end of the session at most once.\<close>

definition close_traffic :: "bool \<Rightarrow> bool \<Rightarrow> bool \<Rightarrow> esp_err \<Rightarrow> bool \<times> esp_err \<Rightarrow> usb_call list \<Rightarrow> bool" where
  "close_traffic asked claimed lock final_error r cs \<longleftrightarrow>
     (\<exists>answers. wire cs = (if asked then Sent DISCONNECT_REQUEST # map Received answers else []))
     \<and> (\<exists>es. actions cs = (if lock then [CALL_RECOVERY_STORE True] else []) @ map CALL_DEVICE_EVENT es)
     \<and> (final_error \<noteq> ESP_OK \<longrightarrow> snd r = final_error)
     \<and> (snd r = ESP_OK \<longrightarrow> final_error = ESP_OK \<and> (claimed \<longrightarrow> CALL_RELEASE_INTERFACE ESP_OK \<in> set cs))
     \<and> (final_error = ESP_OK \<and> claimed \<longrightarrow> CALL_RELEASE_INTERFACE (snd r) \<in> set cs)"

lemma close_emits:
  "emits (close_device env identity interface_claimed transfers latch final_error)
     (close_traffic (fst transfers \<and> interface_claimed) interface_claimed
       (latch \<and> final_error \<noteq> ESP_OK) final_error)"
proof -
  let ?asked = "fst transfers \<and> interface_claimed" and ?lock = "latch \<and> final_error \<noteq> ESP_OK"
  have store: "emits (if ?lock then call (env_store_recovery env True) (\<lambda>_. CALL_RECOVERY_STORE True) else State_Monad.return ())
      (\<lambda>_ cs. cs = (if ?lock then [CALL_RECOVERY_STORE True] else []))"
    by (auto intro!: emits_call emits_ret)
  have ask: "emits (send_polite_disconnect env ?asked b) (\<lambda>_ cs. actions cs = []
      \<and> (\<exists>answers. wire cs = (if ?asked then Sent DISCONNECT_REQUEST # map Received answers else [])))" for b
    by (rule emits_weaken [OF disconnect_emits], cases ?asked) auto
  have wire: "\<exists>answers. wire (as @ ds @ es) = (if ?asked then Sent DISCONNECT_REQUEST # map Received answers else [])"
    if "as = (if ?lock then [CALL_RECOVERY_STORE True] else [])" "wire es = []"
      "\<exists>answers. wire ds = (if ?asked then Sent DISCONNECT_REQUEST # map Received answers else [])" for as ds es
    using that by auto
  show ?thesis
    unfolding close_device_def close_traffic_def
    apply (rule emits_bind [OF store])
    apply (rule emits_bind [OF ask])
    apply (rule emits_if, rule emits_ret)
    subgoal for u as d ds
      using wire [of as "[]" ds] by (auto intro: exI [of _ "[]"])
    apply (rule emits_bind [where Q = "\<lambda>err cs. cs = [CALL_RELEASE_INTERFACE err]"], rule emits_call, simp)
    apply (rule emits_bind [OF event_emits], rule emits_ret)
    subgoal for u as d ds err cs v es
      apply (intro conjI)
      subgoal using wire [of as "cs @ es" ds] by simp
      subgoal
        by (rule exI [of _ "if env_device_observer env = None then [] else [session_event DEV_EV_SESSION_CLOSED identity]"])
          auto
      subgoal by simp
      subgoal by (auto split: if_splits)
      subgoal by simp
      done
    done
qed

end
