(* ===== verification/Usb_Upload.thy ===== *)
theory Usb_Upload
  imports Usb_Evidence
begin


section \<open>The code\<close>



text \<open>
  A read of the source: the status and the bytes it stored. The loops stop on an error, on an
  empty read and on a count above what was asked for. Their counters run from the size of the
  file down to zero, by no more than is left, so natural numbers stand for the 32 bit variables.
\<close>

definition source_read :: "'d upload_source \<Rightarrow> nat \<Rightarrow> ('d, esp_err \<times> u8 list) usb" where
  "source_read source wanted =
     call (us_read source wanted) (\<lambda>r. CALL_SOURCE_READ wanted (fst r) (snd r))"

definition bad_read :: "nat \<Rightarrow> esp_err \<times> u8 list \<Rightarrow> bool" where
  "bad_read wanted r \<longleftrightarrow> fst r \<noteq> ESP_OK \<or> length (snd r) = 0 \<or> length (snd r) > wanted"

function crc_reads :: "'d upload_source \<Rightarrow> nat \<Rightarrow> jamcrc option \<Rightarrow> ('d, jamcrc option option) usb" where
  "crc_reads source remaining st =
     (if remaining = 0 then ret (Some st)
      else do {
        r \<leftarrow> source_read source (min remaining 4096);
        if bad_read (min remaining 4096) r then ret None
        else crc_reads source (remaining - length (snd r)) (jamcrc_update st (Span (snd r))) })"
  by auto
termination by (relation "measure (\<lambda>(_, remaining, _). remaining)") (auto simp: bad_read_def)

declare crc_reads.simps [simp del]


text \<open>The inner loop: the packet is filled from the source.\<close>

function fill_packet :: "'d upload_source \<Rightarrow> u8 list \<Rightarrow> nat \<Rightarrow> ('d, (u8 list \<times> nat) option) usb" where
  "fill_packet source packet remaining =
     (if length packet < 512 \<and> remaining > 0 then do {
        r \<leftarrow> source_read source (min remaining (512 - length packet));
        if bad_read (min remaining (512 - length packet)) r then ret None
        else fill_packet source (packet @ snd r) (remaining - length (snd r)) }
      else ret (Some (packet, remaining)))"
  by auto
termination by (relation "measure (\<lambda>(_, _, remaining). remaining)") (auto simp: bad_read_def)

declare fill_packet.simps [simp del]

lemma fill_packet_result:
  "run_state (fill_packet source packet remaining) w = (Some (packet', remaining'), w') \<Longrightarrow>
   (\<exists>xs. packet' = packet @ xs \<and> length xs + remaining' = remaining
     \<and> (packet = [] \<longrightarrow> remaining > 0 \<longrightarrow> xs \<noteq> []) \<and> (remaining' > 0 \<longrightarrow> length packet' \<ge> 512)
     \<and> (length packet \<le> 512 \<longrightarrow> length packet' \<le> 512))"
proof (induction source packet remaining arbitrary: w rule: fill_packet.induct)
  case (1 source packet remaining)
  show ?case
  proof (cases "length packet < 512 \<and> remaining > 0")
    case True
    obtain r w1 where r: "run_state (source_read source (min remaining (512 - length packet))) w = (r, w1)"
      by fastforce
    have ok: "\<not> bad_read (min remaining (512 - length packet)) r"
      using 1(2) True r by (auto simp: fill_packet.simps [of _ packet])
    then have len: "0 < length (snd r)" "length (snd r) \<le> remaining" "length packet + length (snd r) \<le> 512"
      using True by (auto simp: bad_read_def)
    have "run_state (fill_packet source (packet @ snd r) (remaining - length (snd r))) w1 = (Some (packet', remaining'), w')"
      using 1(2) True r ok by (simp add: fill_packet.simps [of _ packet])
    from 1(1) [OF True r ok this] obtain xs where
      "packet' = packet @ snd r @ xs" "length xs + remaining' = remaining - length (snd r)"
      "remaining' > 0 \<longrightarrow> length packet' \<ge> 512" "length (packet @ snd r) \<le> 512 \<longrightarrow> length packet' \<le> 512" by auto
    then show ?thesis using len by (intro exI [of _ "snd r @ xs"]) auto
  next
    case False
    then have "packet' = packet \<and> remaining' = remaining" using 1(2)
      by (simp add: fill_packet.simps [of _ packet] split: if_splits)
    then show ?thesis using False by auto
  qed
qed

text \<open>
  The outer loop: what is left of the prefix, of the payload and of the trailer. The trailer
  follows the last byte of the payload, in the same packet when there is room.
\<close>

function stream_packets ::
  "'d usb_env \<Rightarrow> 'd upload_source \<Rightarrow> int \<Rightarrow> u8 list \<Rightarrow> nat \<Rightarrow> u8 list \<Rightarrow> ('d, bool) usb" where
  "stream_packets env source deadline head_bytes remaining trailer =
     (if head_bytes = [] \<and> remaining = 0 \<and> trailer = [] then ret True
      else do {
        now \<leftarrow> call (env_time env) CALL_TIME;
        if now \<ge> deadline then ret False
        else do {
          filled \<leftarrow> fill_packet source head_bytes remaining;
          case filled of
            None \<Rightarrow> ret False
          | Some (packet, remaining') \<Rightarrow>
              let count = (if remaining' = 0 \<and> length packet < 512
                    then min (length trailer) (512 - length packet) else 0) in
              do {
                out_ok \<leftarrow> acceptance_out env (packet @ take count trailer);
                if \<not> out_ok then ret False
                else stream_packets env source deadline [] remaining' (drop count trailer) } } })"
  by auto
termination
  apply (relation "measure (\<lambda>(_, _, _, head_bytes, remaining, trailer). length head_bytes + remaining + length trailer)")
   apply simp
  subgoal for env source deadline head_bytes remaining trailer w a w' wa aa w'a x2 packet remaining' count
    using fill_packet_result [of source head_bytes remaining wa packet remaining' w'a]
    by (cases "head_bytes = []") (auto simp flip: length_greater_0_conv)
  done

declare stream_packets.simps [simp del]

definition stream_upload_chunk ::
  "'d usb_env \<Rightarrow> 'd upload_source \<Rightarrow> map_upload_request \<Rightarrow> u8 list \<Rightarrow> u32 \<Rightarrow> ('d, bool) usb" where
  "stream_upload_chunk env source request head_bytes crc = do {
     now \<leftarrow> call (env_time env) CALL_TIME;
     stream_packets env source (now + 120000000) head_bytes (unat (mu_size request)) (store_u32_be crc) }"




text \<open>What the cleanup finds.\<close>

record upload_end =
  up_error :: esp_err
  up_source_open :: bool
  up_claimed :: bool
  up_transfers :: "bool \<times> bool"
  up_namespace :: bool
  up_write_phase :: bool

definition upload_ended :: "esp_err \<Rightarrow> bool \<Rightarrow> upload_end" where
  "upload_ended err source_open = \<lparr>up_error = err, up_source_open = source_open, up_claimed = False,
     up_transfers = (False, False), up_namespace = False, up_write_phase = False\<rparr>"





section \<open>Reading the source\<close>

text \<open>The bytes the source delivered.\<close>

fun source_of :: "usb_call \<Rightarrow> u8 list" where
  "source_of (CALL_SOURCE_READ wanted err bytes) = bytes"
| "source_of _ = []"

definition source_data :: "usb_call list \<Rightarrow> u8 list" where
  "source_data cs = concat (map source_of (actions cs))"

lemma source_data_simps [simp]:
  "source_data [] = []" "source_data (cs @ ds) = source_data cs @ source_data ds"
  "actions cs = [] \<Longrightarrow> source_data cs = []"
  by (simp_all add: source_data_def)

lemma source_read_emits:
  "emits (source_read source wanted) (\<lambda>r cs. wire cs = [] \<and> source_data cs = snd r)"
  unfolding source_read_def by (rule emits_call) (simp add: source_data_def)



lemma fill_emits:
  "length packet \<le> 512 \<Longrightarrow>
   emits (fill_packet source packet remaining) (\<lambda>r cs. wire cs = []
     \<and> (\<forall>packet' remaining'. r = Some (packet', remaining') \<longrightarrow> packet' = packet @ source_data cs
          \<and> length (source_data cs) + remaining' = remaining \<and> length packet' \<le> 512
          \<and> (remaining' > 0 \<longrightarrow> length packet' = 512)
          \<and> (packet = [] \<longrightarrow> remaining > 0 \<longrightarrow> packet' \<noteq> [])))"
proof (induction remaining arbitrary: packet rule: less_induct)
  case (less remaining)
  show ?case
  proof (cases "length packet < 512 \<and> remaining > 0")
    case False
    then have n: "(length packet < 512 \<and> remaining > 0) = False" by simp
    show ?thesis
      by (subst fill_packet.simps, simp only: n if_False, rule emits_ret) (use False less.prems in auto)
  next
    case True
    then have n: "(length packet < 512 \<and> remaining > 0) = True" by simp
    show ?thesis
      apply (subst fill_packet.simps, simp only: n if_True)
      apply (rule emits_bind [OF source_read_emits])
      apply (rule emits_if, rule emits_ret, simp)
      subgoal for r cs
        by (rule emits_weaken [OF less.IH]) (use True in \<open>auto simp: bad_read_def\<close>)
      done
  qed
qed

section \<open>The packets of a chunk\<close>

text \<open>Full packets, and a last one that is not empty.\<close>

definition packed :: "u8 list list \<Rightarrow> bool" where
  "packed packets \<longleftrightarrow> packets = []
     \<or> (\<forall>p \<in> set (butlast packets). length p = 512) \<and> 0 < length (last packets) \<and> length (last packets) \<le> 512"

lemma packed_Cons:
  "packed (p # packets) \<longleftrightarrow> packed packets \<and> 0 < length p \<and> length p \<le> 512
     \<and> (packets \<noteq> [] \<longrightarrow> length p = 512)"
  by (cases packets) (auto simp: packed_def)

text \<open>One turn of the outer loop: the packet is not empty, and full unless it is the last one.\<close>

lemma packet_turn:
  assumes "packet = head_bytes @ data" and "length data + remaining' = remaining" and "length packet \<le> 512"
    and "remaining' > 0 \<longrightarrow> length packet = 512" and "\<not> (head_bytes = [] \<and> remaining = 0 \<and> trailer = [])"
    and "head_bytes = [] \<longrightarrow> remaining > 0 \<longrightarrow> packet \<noteq> []"
    and "tail_count = (if remaining' = 0 \<and> length packet < 512 then min (length trailer) (512 - length packet) else 0)"
    and "q = packet @ take tail_count trailer"
  shows "0 < length q" and "length q \<le> 512"
    and "remaining' \<noteq> 0 \<or> drop tail_count trailer \<noteq> [] \<Longrightarrow> length q = 512"
    and "remaining' + length (drop tail_count trailer) < length head_bytes + remaining + length trailer"
  using assms by (auto simp: min_def split: if_splits)

definition stream_wire ::
  "u8 list \<Rightarrow> nat \<Rightarrow> u8 list \<Rightarrow> bool \<Rightarrow> usb_call list \<Rightarrow> bool" where
  "stream_wire head_bytes remaining trailer ok cs \<longleftrightarrow>
     (\<exists>packets. wire cs = map Sent packets \<and> packed packets
       \<and> (head_bytes = [] \<and> remaining = 0 \<and> trailer = [] \<longrightarrow> packets = [])
       \<and> (ok \<longrightarrow> concat packets = head_bytes @ source_data cs @ trailer \<and> length (source_data cs) = remaining))"

lemma stream_wire_stop: "wire cs = [] \<Longrightarrow> stream_wire head_bytes remaining trailer False cs"
  unfolding stream_wire_def by (rule exI [of _ "[]"]) (simp add: packed_def)

lemma stream_wire_sent:
  "wire cs = [Sent q] \<Longrightarrow> 0 < length q \<Longrightarrow> length q \<le> 512 \<Longrightarrow>
   \<not> (head_bytes = [] \<and> remaining = 0 \<and> trailer = []) \<Longrightarrow> stream_wire head_bytes remaining trailer False cs"
  unfolding stream_wire_def by (rule exI [of _ "[q]"]) (simp add: packed_def)

lemma stream_wire_step:
  assumes turn: "packet = head_bytes @ data" "length data + remaining' = remaining" "length packet \<le> 512"
      "remaining' > 0 \<longrightarrow> length packet = 512" "\<not> (head_bytes = [] \<and> remaining = 0 \<and> trailer = [])"
      "head_bytes = [] \<longrightarrow> remaining > 0 \<longrightarrow> packet \<noteq> []"
      "tail_count = (if remaining' = 0 \<and> length packet < 512 then min (length trailer) (512 - length packet) else 0)"
      "q = packet @ take tail_count trailer"
    and "wire cs = [Sent q]" and "source_data cs = data"
    and rest: "stream_wire [] remaining' (drop tail_count trailer) ok ds"
  shows "stream_wire head_bytes remaining trailer ok (cs @ ds)"
proof -
  note p = packet_turn [OF turn]
  from rest obtain packets where r: "wire ds = map Sent packets" "packed packets"
    "remaining' = 0 \<and> drop tail_count trailer = [] \<longrightarrow> packets = []"
    "ok \<longrightarrow> concat packets = source_data ds @ drop tail_count trailer \<and> length (source_data ds) = remaining'"
    by (auto simp: stream_wire_def)
  have full: "remaining' = 0 \<or> take tail_count trailer = []" using turn(7) by auto
  have "packets \<noteq> [] \<Longrightarrow> length q = 512" using p(3) r(3) by (cases "remaining' = 0 \<and> drop tail_count trailer = []") auto
  then have "packed (q # packets)" using p(1,2) r(2) unfolding packed_Cons by blast
  moreover have "concat (q # packets) = head_bytes @ (data @ source_data ds) @ trailer" if ok
  proof -
    have c: "concat packets = source_data ds @ drop tail_count trailer" "length (source_data ds) = remaining'"
      using r(4) that by simp_all
    from full show ?thesis
    proof
      assume "remaining' = 0"
      then show ?thesis using c by (simp add: turn(1,8))
    next
      assume "take tail_count trailer = []"
      then have "drop tail_count trailer = trailer" by (metis append_Nil append_take_drop_id)
      then show ?thesis using c \<open>take tail_count trailer = []\<close> by (simp add: turn(1,8))
    qed
  qed
  ultimately show ?thesis
    unfolding stream_wire_def using turn(2,5) r(1,4) assms(9,10)
    by (intro exI [of _ "q # packets"]) auto
qed

lemma packets_emits:
  "length head_bytes \<le> 512 \<Longrightarrow>
   emits (stream_packets env source deadline head_bytes remaining trailer) (stream_wire head_bytes remaining trailer)"
proof (induction "length head_bytes + remaining + length trailer" arbitrary: head_bytes remaining trailer
    rule: less_induct)
  case less
  show ?case
  proof (cases "head_bytes = [] \<and> remaining = 0 \<and> trailer = []")
    case True
    then show ?thesis by (subst stream_packets.simps) (simp add: emits_ret stream_wire_def packed_def)
  next
    case False
    then have n: "(head_bytes = [] \<and> remaining = 0 \<and> trailer = []) = False" by simp
    show ?thesis
      apply (subst stream_packets.simps, simp only: n if_False Let_def)
      apply (rule quiet_call_bind, simp add: quiet_def)
      apply (rule emits_if, rule emits_ret, simp add: stream_wire_stop quiet_def)
      apply (rule emits_bind [OF fill_emits [OF less.prems]])
      apply (rule emits_option, rule emits_ret, simp add: stream_wire_stop quiet_def)
      subgoal for now as r bs pair
      proof -
        assume as: "quiet as" and r: "r = Some pair" and q: "wire bs = []
          \<and> (\<forall>packet' remaining'. r = Some (packet', remaining') \<longrightarrow> packet' = head_bytes @ source_data bs
            \<and> length (source_data bs) + remaining' = remaining \<and> length packet' \<le> 512
            \<and> (remaining' > 0 \<longrightarrow> length packet' = 512)
            \<and> (head_bytes = [] \<longrightarrow> remaining > 0 \<longrightarrow> packet' \<noteq> []))"
        obtain packet remaining' where pair: "pair = (packet, remaining')" by (rule prod.exhaust)
        let ?count = "if remaining' = 0 \<and> length packet < 512 then min (length trailer) (512 - length packet) else 0"
        let ?q = "packet @ take ?count trailer"
        from q r pair have t: "packet = head_bytes @ source_data bs" "length (source_data bs) + remaining' = remaining"
          "length packet \<le> 512" "remaining' > 0 \<longrightarrow> length packet = 512"
          "head_bytes = [] \<longrightarrow> remaining > 0 \<longrightarrow> packet \<noteq> []" "wire bs = []" by blast+
        note p = packet_turn [OF t(1-4) False t(5) refl refl]
        have IH: "emits (stream_packets env source deadline [] remaining' (drop ?count trailer))
            (stream_wire [] remaining' (drop ?count trailer))"
          by (rule less.hyps) (use p(4) in simp_all)
        show ?thesis
          unfolding pair prod.case
          apply (rule emits_bind [OF acceptance_out_emits])
          apply (rule emits_if, rule emits_ret, rule stream_wire_sent [of _ ?q])
          subgoal using as t(6) by (simp add: quiet_def)
          subgoal by (rule p(1))
          subgoal by (rule p(2))
          subgoal by (rule False)
          subgoal for ok cs
            apply (rule emits_weaken [OF IH])
            using stream_wire_step [OF t(1-4) False t(5) refl refl, of "as @ bs @ cs"] as t(6)
            by (simp add: quiet_def)
          done
      qed
      done
  qed
qed

text \<open>The chunk that goes out for a file whose checksum was computed over \<open>first\<close>.\<close>

definition upload_head :: "map_upload_request \<Rightarrow> u8 list" where
  "upload_head request = chunk_head 0x23 (unat (mu_size request))"

definition upload_crc :: "map_upload_request \<Rightarrow> u8 list \<Rightarrow> u32" where
  "upload_crc request first = crc32_update (- 1) (upload_head request @ first @ zero_trailer)"

lemma upload_chunk_record:
  "length first = unat (mu_size request) \<Longrightarrow>
   upload_head request @ first @ store_u32_be (upload_crc request first) = chunk_record 0x23 first"
  by (simp add: upload_head_def upload_crc_def chunk_record_def sealed_def)

definition streamed ::
  "map_upload_request \<Rightarrow> u8 list \<Rightarrow> u32 \<Rightarrow> bool \<Rightarrow> usb_call list \<Rightarrow> bool" where
  "streamed request head_bytes crc ok cs \<longleftrightarrow>
     (\<exists>packets. wire cs = map Sent packets \<and> packed packets
       \<and> (ok \<longrightarrow> concat packets = head_bytes @ source_data cs @ store_u32_be crc
            \<and> length (source_data cs) = unat (mu_size request)))"

lemma stream_emits:
  assumes "length head_bytes \<le> 512"
  shows "emits (stream_upload_chunk env source request head_bytes crc) (streamed request head_bytes crc)"
  unfolding stream_upload_chunk_def
  apply (rule quiet_call_bind, simp add: quiet_def)
  apply (rule emits_weaken [OF packets_emits [OF assms]])
  apply (auto simp: stream_wire_def streamed_def quiet_def)
  done


text \<open>The packets against the chunk that the builder makes of the whole file in memory.\<close>

definition chunk_streamed :: "u8 list \<Rightarrow> bool \<Rightarrow> usb_call list \<Rightarrow> bool" where
  "chunk_streamed content ok cs \<longleftrightarrow> packed (sent cs)
     \<and> (ok \<and> source_data cs = content \<longrightarrow>
          build_chunk (Span content) 0x23 (Span (replicate (length content + 11) 0)) (Some 0)
            = (AP_OK, Span (concat (sent cs)), Some (length (concat (sent cs)))))"

text \<open>
  C24. Streaming agrees with building: the packets of an upload are full except for a last one
  that is not empty, and when the second pass over the source delivers the file of the first pass,
  their concatenation is byte for byte the chunk that \<open>revlink_ap_build_chunk\<close> builds of
  that file in one buffer, checksum included.
\<close>

theorem chunk_streaming_exact:
  assumes "length content = unat (mu_size request)" and "length content \<le> 2 ^ 24 - 5"
  shows "emits (stream_upload_chunk env source request (upload_head request) (upload_crc request content))
    (chunk_streamed content)"
proof (rule emits_weaken [OF stream_emits])
  show "length (upload_head request) \<le> 512" by (simp add: upload_head_def)
next
  fix ok cs
  assume "streamed request (upload_head request) (upload_crc request content) ok cs"
  then obtain packets where p: "wire cs = map Sent packets" "packed packets"
    "ok \<longrightarrow> concat packets = upload_head request @ source_data cs @ store_u32_be (upload_crc request content)"
    by (auto simp: streamed_def)
  have "sent cs = packets"
    using p(1) by (simp add: sent_def o_def)
  then show "chunk_streamed content ok cs"
    using p(2,3) assms upload_chunk_record [of content request]
    by (auto simp: chunk_streamed_def build_chunk_outcome SIZE_MAX_def)
qed

theorem chunk_streaming_exact_witness:
  "\<forall>(env :: unit usb_env) source.
     emits (stream_upload_chunk env source
       \<lparr>mu_name = ascii ''a.ptm'', mu_path = ascii ''maps/a.ptm'', mu_expected_part_number = ascii ''p'',
        mu_expected_serial = ascii ''s'', mu_modification_time = 0, mu_size = 3, mu_source_sha256 = []\<rparr>
       (chunk_head 0x23 3) (crc32_update (- 1) (chunk_head 0x23 3 @ [7, 8, 9] @ zero_trailer)))
     (chunk_streamed [7, 8, 9])"
proof (intro allI)
  fix env :: "unit usb_env" and source
  let ?request = "\<lparr>mu_name = ascii ''a.ptm'', mu_path = ascii ''maps/a.ptm'', mu_expected_part_number = ascii ''p'',
        mu_expected_serial = ascii ''s'', mu_modification_time = 0, mu_size = 3, mu_source_sha256 = []\<rparr>"
  have "upload_head ?request = chunk_head 0x23 3" by (simp add: upload_head_def)
  then show "emits (stream_upload_chunk env source ?request (chunk_head 0x23 3)
      (crc32_update (- 1) (chunk_head 0x23 3 @ [7, 8, 9] @ zero_trailer))) (chunk_streamed [7, 8, 9])"
    using chunk_streaming_exact [of "[7, 8, 9]" ?request env source] by (simp add: upload_crc_def)
qed

section \<open>The write phase\<close>







section \<open>The exchange\<close>









section \<open>The operation before the cleanup\<close>





text \<open>The calls of the steps between these brackets.\<close>

fun inner_action :: "usb_call \<Rightarrow> bool" where
  "inner_action (CALL_DEVICE_EVENT _) = True"
| "inner_action (CALL_SOURCE_READ _ _ _) = True"
| "inner_action (CALL_SOURCE_REWIND _) = True"
| "inner_action (CALL_BEGIN _ _ _ _ _) = True"
| "inner_action (CALL_WRITE _ _) = True"
| "inner_action (CALL_COMMIT _) = True"
| "inner_action CALL_ABORT = True"
| "inner_action (CALL_CACHED_MATCHES _ _ _ _) = True"
| "inner_action _ = False"


definition inner_calls :: "usb_call list \<Rightarrow> bool" where
  "inner_calls cs \<longleftrightarrow> list_all inner_action (actions cs)"

lemma inner_calls_simps [simp]:
  "inner_calls []" "inner_calls (cs @ ds) \<longleftrightarrow> inner_calls cs \<and> inner_calls ds"
  by (auto simp: inner_calls_def)


abbreviation inner :: "('d, 'a) usb \<Rightarrow> bool" where
  "inner \<equiv> allowed (\<lambda>_. True) inner_action"


lemma inner_source [allowed_intros]: "inner (source_read source n)"
  unfolding source_read_def by (intro allowed_intros) simp_all

lemma inner_crc_reads [allowed_intros]: "inner (crc_reads source remaining st)"
proof (induction remaining arbitrary: st rule: less_induct)
  case (less remaining)
  then show ?case
    by (subst crc_reads.simps, intro allowed_intros) (auto simp: bad_read_def)
qed

lemma inner_fill [allowed_intros]: "inner (fill_packet source packet remaining)"
proof (induction remaining arbitrary: packet rule: less_induct)
  case (less remaining)
  then show ?case
    by (subst fill_packet.simps, intro allowed_intros) (auto simp: bad_read_def)
qed

lemma allowed_bind_result:
  "emits m (\<lambda>a _. Q a) \<Longrightarrow> allowed P A m \<Longrightarrow> (\<And>a. Q a \<Longrightarrow> allowed P A (f a)) \<Longrightarrow>
   allowed P A (State_Monad.bind m f)"
  unfolding allowed_def
  by (rule emits_bind [OF emits_conj], assumption, assumption) (auto elim!: emits_weaken)

lemma inner_packets [allowed_intros]:
  "length head_bytes \<le> 512 \<Longrightarrow> inner (stream_packets env source deadline head_bytes remaining trailer)"
proof (induction "length head_bytes + remaining + length trailer" arbitrary: head_bytes remaining trailer
    rule: less_induct)
  case less
  show ?case
  proof (cases "head_bytes = [] \<and> remaining = 0 \<and> trailer = []")
    case True
    then show ?thesis by (subst stream_packets.simps) (simp add: allowed_ret)
  next
    case False
    then have n: "(head_bytes = [] \<and> remaining = 0 \<and> trailer = []) = False" by simp
    have filled: "emits (fill_packet source head_bytes remaining) (\<lambda>r _. \<forall>packet' remaining'. r = Some (packet', remaining') \<longrightarrow>
        (\<forall>n. n = (if remaining' = 0 \<and> length packet' < 512 then min (length trailer) (512 - length packet') else 0) \<longrightarrow>
          remaining' + length (drop n trailer) < length head_bytes + remaining + length trailer))"
      by (rule emits_weaken [OF fill_emits [OF less.prems]])
        (use packet_turn(4) [OF _ _ _ _ False _ _ refl] in blast)
    show ?thesis
      apply (subst stream_packets.simps, simp only: n if_False Let_def)
      apply (rule allowed_bind, rule allowed_call, simp, simp)
      apply (rule allowed_if, rule allowed_ret)
      apply (rule allowed_bind_result [OF filled inner_fill])
      apply (rule allowed_option, rule allowed_ret)
      subgoal for now r pair
        by (cases pair) (auto intro!: allowed_intros less.hyps)
      done
  qed
qed















lemma upload_ended_sel [simp]:
  "up_error (upload_ended err so) = err" "up_source_open (upload_ended err so) = so"
  by (simp_all add: upload_ended_def)


section \<open>The theorem on an upload\<close>

fun upload_event_of :: "usb_call \<Rightarrow> upload_event list" where
  "upload_event_of (CALL_UPLOAD_EVENT e) = [e]"
| "upload_event_of _ = []"

definition upload_events :: "usb_call list \<Rightarrow> upload_event list" where
  "upload_events cs = concat (map upload_event_of (actions cs))"



lemma upload_events_append [simp]: "upload_events (cs @ ds) = upload_events cs @ upload_events ds"
  by (simp add: upload_events_def)








end
