(* ===== verification/Usb_Delete.thy ===== *)
theory Usb_Delete
  imports Usb_Evidence
begin


section \<open>The code\<close>







section \<open>The evidence of a removal\<close>





section \<open>The exchange\<close>



section \<open>The operation\<close>







section \<open>The theorem on a removal\<close>

fun delete_event_of :: "usb_call \<Rightarrow> delete_event list" where
  "delete_event_of (CALL_DELETE_EVENT e) = [e]"
| "delete_event_of _ = []"

definition delete_events :: "usb_call list \<Rightarrow> delete_event list" where
  "delete_events cs = concat (map delete_event_of (actions cs))"

lemma delete_events_append [simp]: "delete_events (cs @ ds) = delete_events cs @ delete_events ds"
  by (simp add: delete_events_def)







end
