(* ===== verification/Usb_Descriptors.thy ===== *)
theory Usb_Descriptors
  imports Usb_Host
begin

text \<open>
  The validation of a configuration descriptor (\<open>inspect_config_descriptor\<close> in
  accessport_usb/revlink_accessport_usb.c): the walk over the descriptors behind the header, which
  come from the attached device and are not trusted. Field offsets and constants are those of the
  USB 2.0 standard descriptors. The theorem says which descriptors make an AccessPort.
\<close>

section \<open>The code\<close>

abbreviation (input) INTERFACE_DESCRIPTOR :: u8 where "INTERFACE_DESCRIPTOR \<equiv> 0x04"
abbreviation (input) ENDPOINT_DESCRIPTOR :: u8 where "ENDPOINT_DESCRIPTOR \<equiv> 0x05"
abbreviation (input) TRANSFER_BULK :: u8 where "TRANSFER_BULK \<equiv> 2"

text \<open>The transfer type and the maximum packet size of an endpoint descriptor.\<close>

definition ep_transfer_type :: "u8 list \<Rightarrow> u8" where
  "ep_transfer_type d = and (d ! 3) 3"

definition ep_max_packet :: "u8 list \<Rightarrow> u16" where
  "ep_max_packet d = and (load_u16_le (drop 4 d)) 0x7ff"

record descriptor_scan =
  sc_interface_zero :: bool
  sc_bulk_out :: bool
  sc_bulk_in :: bool
  sc_out_packet :: u16
  sc_in_packet :: u16
  sc_current :: u8

definition scan_zero :: descriptor_scan where
  "scan_zero = \<lparr>sc_interface_zero = False, sc_bulk_out = False, sc_bulk_in = False,
     sc_out_packet = 0, sc_in_packet = 0, sc_current = 255\<rparr>"

definition scan_endpoint :: "descriptor_scan \<Rightarrow> u8 list \<Rightarrow> descriptor_scan" where
  "scan_endpoint s d =
     (let s = (if sc_current s = 0 \<and> ep_transfer_type d = TRANSFER_BULK \<and> d ! 2 = BULK_OUT
               then s\<lparr>sc_bulk_out := True, sc_out_packet := ep_max_packet d\<rparr> else s)
      in if sc_current s = 0 \<and> ep_transfer_type d = TRANSFER_BULK \<and> d ! 2 = BULK_IN
         then s\<lparr>sc_bulk_in := True, sc_in_packet := ep_max_packet d\<rparr> else s)"

text \<open>One descriptor, of the length it declares.\<close>

definition scan_descriptor :: "descriptor_scan \<Rightarrow> u8 list \<Rightarrow> descriptor_scan" where
  "scan_descriptor s d =
     (if d ! 1 = INTERFACE_DESCRIPTOR \<and> d ! 0 \<ge> 9
      then s\<lparr>sc_interface_zero := sc_interface_zero s \<or> d ! 2 = 0, sc_current := d ! 2\<rparr>
      else if d ! 1 = ENDPOINT_DESCRIPTOR \<and> d ! 0 \<ge> 7 then scan_endpoint s d
      else s)"

function descriptor_walk :: "u8 list \<Rightarrow> nat \<Rightarrow> nat \<Rightarrow> descriptor_scan \<Rightarrow> descriptor_scan" where
  "descriptor_walk bytes total_length offset s =
     (if offset + 2 \<le> total_length then
        let n = unat (bytes ! offset) in
        if n < 2 \<or> offset + n > total_length then s
        else descriptor_walk bytes total_length (offset + n) (scan_descriptor s (take n (drop offset bytes)))
      else s)"
  by auto
termination by (relation "measure (\<lambda>(_, total_length, offset, _). total_length - offset)") auto

declare descriptor_walk.simps [simp del]

text \<open>\<open>bytes\<close> is the memory of the descriptor; \<open>wTotalLength\<close> is its field. The result is the
  return value with what \<open>*bulk_max_packet_size\<close> becomes.\<close>

definition inspect_config_descriptor :: "u8 list \<Rightarrow> u16 option \<Rightarrow> bool \<times> u16 option" where
  "inspect_config_descriptor bytes bulk_max_packet_size =
     (let s = descriptor_walk bytes (unat (load_u16_le (drop 2 bytes))) 0 scan_zero in
      (sc_interface_zero s \<and> sc_bulk_out s \<and> sc_bulk_in s,
       if sc_bulk_out s \<and> sc_bulk_in s
       then map_option (\<lambda>_. min (sc_out_packet s) (sc_in_packet s)) bulk_max_packet_size
       else bulk_max_packet_size))"

section \<open>The descriptors of a configuration\<close>

text \<open>The longest prefix of well formed descriptors.\<close>

function descriptors :: "u8 list \<Rightarrow> u8 list list" where
  "descriptors xs =
     (if length xs < 2 \<or> xs ! 0 < 2 \<or> unat (xs ! 0) > length xs then []
      else take (unat (xs ! 0)) xs # descriptors (drop (unat (xs ! 0)) xs))"
  by auto
termination by (relation "measure length") (auto simp: word_less_nat_alt)

declare descriptors.simps [simp del]

lemma descriptors_append:
  "2 \<le> length d \<Longrightarrow> unat (d ! 0) = length d \<Longrightarrow> descriptors (d @ rest) = d # descriptors rest"
  by (subst descriptors.simps) (auto simp: nth_append word_less_nat_alt)

lemma walk_descriptors:
  "total_length \<le> length bytes \<Longrightarrow>
   descriptor_walk bytes total_length offset s = foldl scan_descriptor s (descriptors (drop offset (take total_length bytes)))"
proof (induction bytes total_length offset s rule: descriptor_walk.induct)
  case (1 bytes total_length offset s)
  let ?xs = "drop offset (take total_length bytes)" and ?n = "unat (bytes ! offset)"
  show ?case
  proof (cases "offset + 2 \<le> total_length \<and> \<not> (?n < 2 \<or> offset + ?n > total_length)")
    case True
    then have x: "?xs ! 0 = bytes ! offset" using "1.prems" by simp
    have len: "length ?xs = total_length - offset" using "1.prems" by simp
    have t: "take ?n ?xs = take ?n (drop offset bytes)"
      using True by (simp add: drop_take) (metis (no_types, opaque_lifting) Nat.le_diff_conv2 add.commute add_leE le_iff_add min.absorb1 not_less)
    have d: "drop ?n ?xs = drop (offset + ?n) (take total_length bytes)" by (simp add: add.commute)
    have c: "(length ?xs < 2 \<or> ?xs ! 0 < 2 \<or> unat (?xs ! 0) > length ?xs) = False"
      using True unfolding x len by (auto simp: word_less_nat_alt)
    have ds: "descriptors ?xs = take ?n (drop offset bytes) # descriptors (drop (offset + ?n) (take total_length bytes))"
      by (subst descriptors.simps, subst c) (simp only: if_False x t d)
    have "descriptor_walk bytes total_length offset s
        = descriptor_walk bytes total_length (offset + ?n) (scan_descriptor s (take ?n (drop offset bytes)))"
      using True by (subst descriptor_walk.simps) (simp add: Let_def)
    then show ?thesis using 1 True by (simp add: ds Let_def)
  next
    case False
    have len: "length ?xs = total_length - offset" using "1.prems" by simp
    have "descriptors ?xs = []"
    proof (cases "offset + 2 \<le> total_length")
      case True
      then have "?xs ! 0 = bytes ! offset" using "1.prems" by simp
      then show ?thesis
        using False True by (subst descriptors.simps) (auto simp: len word_less_nat_alt simp del: length_drop length_take)
    next
      case False
      then have "length ?xs < 2" unfolding len by linarith
      then show ?thesis by (subst descriptors.simps) simp
    qed
    moreover have "descriptor_walk bytes total_length offset s = s"
      using False by (subst descriptor_walk.simps) (auto simp: Let_def)
    ultimately show ?thesis by simp
  qed
qed

section \<open>Which configurations are accepted\<close>

definition interface_of :: "u8 list \<Rightarrow> bool" where
  "interface_of d \<longleftrightarrow> d ! 1 = INTERFACE_DESCRIPTOR \<and> d ! 0 \<ge> 9"

definition bulk_endpoint :: "u8 \<Rightarrow> u8 list \<Rightarrow> bool" where
  "bulk_endpoint address d \<longleftrightarrow> d ! 1 = ENDPOINT_DESCRIPTOR \<and> d ! 0 \<ge> 7
     \<and> ep_transfer_type d = TRANSFER_BULK \<and> d ! 2 = address"

text \<open>The bulk endpoint appears below an interface descriptor with the number 0.\<close>

definition offers :: "u8 \<Rightarrow> u8 list list \<Rightarrow> bool" where
  "offers address ds \<longleftrightarrow> (\<exists>pre i mid d post. ds = pre @ i # mid @ d # post
     \<and> interface_of i \<and> i ! 2 = 0 \<and> \<not> list_ex interface_of mid \<and> bulk_endpoint address d)"

definition configuration_descriptors :: "u8 list \<Rightarrow> u8 list list" where
  "configuration_descriptors bytes = descriptors (take (unat (load_u16_le (drop 2 bytes))) bytes)"

definition scan_of :: "u8 list list \<Rightarrow> descriptor_scan" where
  "scan_of ds = foldl scan_descriptor scan_zero ds"

lemma scan_of_snoc: "scan_of (ds @ [d]) = scan_descriptor (scan_of ds) d"
  by (simp add: scan_of_def)

lemma split_snoc:
  "(\<exists>pre i mid. ds @ [x] = pre @ i # mid \<and> P i \<and> \<not> list_ex Q mid)
     \<longleftrightarrow> P x \<or> \<not> Q x \<and> (\<exists>pre i mid. ds = pre @ i # mid \<and> P i \<and> \<not> list_ex Q mid)" (is "?l \<longleftrightarrow> ?r")
proof
  assume ?l
  then obtain pre i mid where l: "ds @ [x] = pre @ i # mid" "P i" "\<not> list_ex Q mid" by blast
  then show ?r by (cases mid rule: rev_cases) (auto simp: list_ex_iff)
next
  assume ?r
  then show ?l
  proof
    assume "P x"
    then show ?l by (intro exI [of _ ds] exI [of _ x] exI [of _ "[]"]) simp
  next
    assume "\<not> Q x \<and> (\<exists>pre i mid. ds = pre @ i # mid \<and> P i \<and> \<not> list_ex Q mid)"
    then obtain pre i mid where "\<not> Q x" "ds = pre @ i # mid" "P i" "\<not> list_ex Q mid" by blast
    then show ?l by (intro exI [of _ pre] exI [of _ i] exI [of _ "mid @ [x]"]) (simp add: list_ex_iff)
  qed
qed

definition below_zero :: "u8 list list \<Rightarrow> bool" where
  "below_zero ds \<longleftrightarrow> (\<exists>pre i mid. ds = pre @ i # mid \<and> (interface_of i \<and> i ! 2 = 0) \<and> \<not> list_ex interface_of mid)"

lemma below_zero_snoc:
  "below_zero (ds @ [x]) \<longleftrightarrow> (if interface_of x then x ! 2 = 0 else below_zero ds)"
  unfolding below_zero_def split_snoc by auto

lemma offers_snoc: "offers a (ds @ [x]) \<longleftrightarrow> offers a ds \<or> below_zero ds \<and> bulk_endpoint a x" (is "?l \<longleftrightarrow> ?r")
proof
  assume ?l
  then obtain pre i mid d post where o: "ds @ [x] = pre @ i # mid @ d # post" "interface_of i" "i ! 2 = 0"
    "\<not> list_ex interface_of mid" "bulk_endpoint a d" unfolding offers_def by blast
  show ?r
  proof (cases post rule: rev_cases)
    case Nil
    then have "ds = pre @ i # mid" "x = d" using o(1) by (auto simp: append_eq_append_conv2 Cons_eq_append_conv)
    then show ?thesis unfolding below_zero_def using o by blast
  next
    case (snoc post' y)
    then have "ds = pre @ i # mid @ d # post'" using o(1) by simp
    then show ?thesis unfolding offers_def using o by blast
  qed
next
  assume ?r
  then show ?l
  proof
    assume "offers a ds"
    then obtain pre i mid d post where "ds = pre @ i # mid @ d # post" "interface_of i" "i ! 2 = 0"
      "\<not> list_ex interface_of mid" "bulk_endpoint a d" unfolding offers_def by blast
    then show ?l unfolding offers_def
      by (intro exI [of _ pre] exI [of _ i] exI [of _ mid] exI [of _ d] exI [of _ "post @ [x]"]) simp
  next
    assume "below_zero ds \<and> bulk_endpoint a x"
    then obtain pre i mid where "ds = pre @ i # mid" "interface_of i" "i ! 2 = 0"
      "\<not> list_ex interface_of mid" "bulk_endpoint a x" unfolding below_zero_def by blast
    then show ?l unfolding offers_def
      by (intro exI [of _ pre] exI [of _ i] exI [of _ mid] exI [of _ x] exI [of _ "[]"]) simp
  qed
qed

lemma scan_of_spec:
  "(sc_current (scan_of ds) = 0 \<longleftrightarrow> below_zero ds) \<and> (sc_bulk_out (scan_of ds) \<longleftrightarrow> offers BULK_OUT ds)
     \<and> (sc_bulk_in (scan_of ds) \<longleftrightarrow> offers BULK_IN ds)
     \<and> (below_zero ds \<or> offers BULK_OUT ds \<longrightarrow> sc_interface_zero (scan_of ds))"
proof (induction ds rule: rev_induct)
  case Nil
  then show ?case by (simp add: scan_of_def scan_zero_def below_zero_def offers_def)
next
  case (snoc d ds)
  show ?case
    using snoc unfolding scan_of_snoc below_zero_snoc offers_snoc
    by (auto simp: scan_descriptor_def scan_endpoint_def interface_of_def bulk_endpoint_def Let_def)
qed

text \<open>The last descriptor of an offered endpoint, whose packet size counts.\<close>

definition latest_bulk :: "u8 \<Rightarrow> u8 list list \<Rightarrow> u8 list \<Rightarrow> bool" where
  "latest_bulk address ds d \<longleftrightarrow> (\<exists>pre post. ds = pre @ d # post \<and> below_zero pre \<and> bulk_endpoint address d
     \<and> (\<forall>p x q. post = p @ x # q \<longrightarrow> \<not> (below_zero (pre @ d # p) \<and> bulk_endpoint address x)))"

lemma latest_bulk_snoc:
  "latest_bulk a (ds @ [x]) d \<longleftrightarrow> (if below_zero ds \<and> bulk_endpoint a x then d = x else latest_bulk a ds d)" (is "?l \<longleftrightarrow> ?r")
proof
  assume ?l
  then obtain pre post where l: "ds @ [x] = pre @ d # post" "below_zero pre" "bulk_endpoint a d"
    "\<And>p y q. post = p @ y # q \<Longrightarrow> \<not> (below_zero (pre @ d # p) \<and> bulk_endpoint a y)"
    unfolding latest_bulk_def by blast
  show ?r
  proof (cases post rule: rev_cases)
    case Nil
    then show ?thesis using l by simp
  next
    case (snoc post' y)
    then have ds: "ds = pre @ d # post'" "y = x" using l(1) by simp_all
    have last: "\<not> (below_zero ds \<and> bulk_endpoint a x)" using l(4) [of post' y "[]"] snoc ds by simp
    have "\<not> (below_zero (pre @ d # p) \<and> bulk_endpoint a z)" if "post' = p @ z # q" for p z q
      using l(4) [of p z "q @ [y]"] snoc that by simp
    then have "latest_bulk a ds d"
      unfolding latest_bulk_def using l(2,3) ds(1) by (intro exI [of _ pre] exI [of _ post']) blast
    then show ?thesis using last by auto
  qed
next
  assume r: ?r
  show ?l
  proof (cases "below_zero ds \<and> bulk_endpoint a x")
    case True
    then show ?thesis unfolding latest_bulk_def using r by (intro exI [of _ ds] exI [of _ "[]"]) simp
  next
    case False
    then obtain pre post where l: "ds = pre @ d # post" "below_zero pre" "bulk_endpoint a d"
      "\<And>p y q. post = p @ y # q \<Longrightarrow> \<not> (below_zero (pre @ d # p) \<and> bulk_endpoint a y)"
      using r unfolding latest_bulk_def by (simp only: if_False if_not_P) blast
    have "\<not> (below_zero (pre @ d # p) \<and> bulk_endpoint a y)" if "post @ [x] = p @ y # q" for p y q
    proof (cases q rule: rev_cases)
      case Nil
      then have "p = post" "y = x" using that by simp_all
      then show ?thesis using False l(1) by simp
    next
      case (snoc q' z)
      then show ?thesis using that l(4) [of p y q'] by simp
    qed
    then have "\<forall>p y q. post @ [x] = p @ y # q \<longrightarrow> \<not> (below_zero (pre @ d # p) \<and> bulk_endpoint a y)" by blast
    moreover have "ds @ [x] = pre @ d # (post @ [x])" using l(1) by simp
    ultimately show ?thesis unfolding latest_bulk_def using l(2,3) by blast
  qed
qed

lemma offers_latest: "offers a ds \<longleftrightarrow> (\<exists>d. latest_bulk a ds d)"
proof (induction ds rule: rev_induct)
  case Nil
  then show ?case by (simp add: offers_def latest_bulk_def)
next
  case (snoc x ds)
  then show ?case unfolding offers_snoc latest_bulk_snoc by auto
qed

lemma scan_of_packets:
  "(\<forall>d. latest_bulk BULK_OUT ds d \<longrightarrow> sc_out_packet (scan_of ds) = ep_max_packet d)
   \<and> (\<forall>d. latest_bulk BULK_IN ds d \<longrightarrow> sc_in_packet (scan_of ds) = ep_max_packet d)"
proof (induction ds rule: rev_induct)
  case Nil
  then show ?case by (simp add: latest_bulk_def)
next
  case (snoc d ds)
  have "sc_current (scan_of ds) = 0 \<longleftrightarrow> below_zero ds" using scan_of_spec by blast
  then show ?case
    using snoc unfolding scan_of_snoc latest_bulk_snoc
    by (auto simp: scan_descriptor_def scan_endpoint_def bulk_endpoint_def Let_def)
qed

text \<open>
  C26. A configuration is taken for an AccessPort exactly when, among the well formed descriptors
  that its declared total length covers, both bulk endpoints (0x03 and 0x82) follow an interface
  descriptor with the number 0 and no other interface descriptor comes between. Then the packet size
  that is reported is the smaller of the sizes of the last descriptors of the two endpoints, and
  otherwise the caller's value is left alone. Lengths below two or beyond the total end the walk, so it
  terminates and stays inside the configuration for every input of the device.
\<close>

theorem inspect_config_exact:
  assumes "unat (load_u16_le (drop 2 bytes)) \<le> length bytes"
  shows "(fst (inspect_config_descriptor bytes packet_size) \<longleftrightarrow>
      offers BULK_OUT (configuration_descriptors bytes) \<and> offers BULK_IN (configuration_descriptors bytes))
    \<and> (if fst (inspect_config_descriptor bytes packet_size)
       then \<exists>d_out d_in. latest_bulk BULK_OUT (configuration_descriptors bytes) d_out
          \<and> latest_bulk BULK_IN (configuration_descriptors bytes) d_in
          \<and> snd (inspect_config_descriptor bytes packet_size)
              = map_option (\<lambda>_. min (ep_max_packet d_out) (ep_max_packet d_in)) packet_size
       else snd (inspect_config_descriptor bytes packet_size) = packet_size)"
proof -
  let ?ds = "configuration_descriptors bytes"
  have w: "descriptor_walk bytes (unat (load_u16_le (drop 2 bytes))) 0 scan_zero = scan_of ?ds"
    using walk_descriptors [OF assms, of 0] by (simp add: scan_of_def configuration_descriptors_def)
  have f: "fst (inspect_config_descriptor bytes packet_size) \<longleftrightarrow> offers BULK_OUT ?ds \<and> offers BULK_IN ?ds"
    using w scan_of_spec [of ?ds] by (auto simp: inspect_config_descriptor_def Let_def)
  show ?thesis
  proof (cases "offers BULK_OUT ?ds \<and> offers BULK_IN ?ds")
    case True
    then obtain d_out d_in where d: "latest_bulk BULK_OUT ?ds d_out" "latest_bulk BULK_IN ?ds d_in"
      using offers_latest by blast
    have "snd (inspect_config_descriptor bytes packet_size)
        = map_option (\<lambda>_. min (ep_max_packet d_out) (ep_max_packet d_in)) packet_size"
      using True w scan_of_spec [of ?ds] scan_of_packets [of ?ds] d by (auto simp: inspect_config_descriptor_def Let_def)
    then show ?thesis using f True d by auto
  next
    case False
    then have "snd (inspect_config_descriptor bytes packet_size) = packet_size"
      using w scan_of_spec [of ?ds] by (auto simp: inspect_config_descriptor_def Let_def)
    then show ?thesis using f False by auto
  qed
qed

theorem inspect_config_exact_witness:
  "fst (inspect_config_descriptor
     [9, 2, 32, 0, 1, 1, 0, 128, 50,  9, 4, 0, 0, 2, 255, 0, 0, 0,
      7, 5, 3, 2, 0, 2, 0,  7, 5, 0x82, 2, 0, 2, 0] (Some 0)) = True"
proof -
  let ?b = "[9, 2, 32, 0, 1, 1, 0, 128, 50,  9, 4, 0, 0, 2, 255, 0, 0, 0,
      7, 5, 3, 2, 0, 2, 0,  7, 5, 0x82, 2, 0, 2, 0] :: u8 list"
  have t: "unat (load_u16_le (drop 2 ?b)) = 32" by (simp add: load_u16_le_def)
  have ds: "configuration_descriptors ?b = [[9, 2, 32, 0, 1, 1, 0, 128, 50], [9, 4, 0, 0, 2, 255, 0, 0, 0],
      [7, 5, 3, 2, 0, 2, 0], [7, 5, 0x82, 2, 0, 2, 0]]"
  proof -
    have "?b = [9, 2, 32, 0, 1, 1, 0, 128, 50] @ [9, 4, 0, 0, 2, 255, 0, 0, 0]
        @ [7, 5, 3, 2, 0, 2, 0] @ [7, 5, 0x82, 2, 0, 2, 0] @ []" by simp
    moreover have "descriptors ([7, 5, 0x82, 2, 0, 2, 0] @ []) = [[7, 5, 0x82, 2, 0, 2, 0]]"
      by (subst descriptors_append) (simp_all add: descriptors.simps [of "[]"])
    ultimately show ?thesis
      unfolding configuration_descriptors_def t
      by (simp only: descriptors_append take_all length_append) (simp add: descriptors_append del: append.simps)
  qed
  have bulk: "bulk_endpoint 3 [7, 5, 3, 2, 0, 2, 0]" "bulk_endpoint 0x82 [7, 5, 0x82, 2, 0, 2, 0]"
    "\<not> interface_of [7, 5, 3, 2, 0, 2, 0]" "interface_of [9, 4, 0, 0, 2, 255, 0, 0, 0]"
    by (simp_all add: bulk_endpoint_def interface_of_def ep_transfer_type_def)
  have "offers BULK_OUT (configuration_descriptors ?b)"
    unfolding ds offers_def
    by (rule exI [of _ "[[9, 2, 32, 0, 1, 1, 0, 128, 50]]"], rule exI [of _ "[9, 4, 0, 0, 2, 255, 0, 0, 0]"],
        rule exI [of _ "[]"], rule exI [of _ "[7, 5, 3, 2, 0, 2, 0]"], rule exI [of _ "[[7, 5, 0x82, 2, 0, 2, 0]]"])
      (simp add: bulk)
  moreover have "offers BULK_IN (configuration_descriptors ?b)"
    unfolding ds offers_def
    by (rule exI [of _ "[[9, 2, 32, 0, 1, 1, 0, 128, 50]]"], rule exI [of _ "[9, 4, 0, 0, 2, 255, 0, 0, 0]"],
        rule exI [of _ "[[7, 5, 3, 2, 0, 2, 0]]"], rule exI [of _ "[7, 5, 0x82, 2, 0, 2, 0]"], rule exI [of _ "[]"])
      (simp add: bulk)
  moreover have "unat (load_u16_le (drop 2 ?b)) \<le> length ?b" unfolding t by simp
  note inspect_config_exact [OF this, of "Some 0"]
  ultimately show ?thesis by blast
qed

end
