(* ===== verification/Usb_Topology.thy ===== *)
theory Usb_Topology
  imports Usb_Descriptors Usb_Sync
begin

text \<open>
  The enumeration client of the AccessPort transport (accessport_usb/revlink_accessport_usb.c):
  the table of attached devices, the queues between the client task, the descriptor task and the
  transaction task, the conflict latch, and the recovery latch. Each handler is a function on the
  shared state; the answers of the USB host are its arguments and the calls on the observers its
  second result. A step relation interleaves the handlers of the three tasks.
\<close>

section \<open>The state\<close>

datatype device_action = DEVICE_ACTION_NONE | DEVICE_ACTION_OPEN | DEVICE_ACTION_CLOSE

text \<open>A handle is a number; \<open>None\<close> is NULL.\<close>

record enumerated_device =
  ed_address :: u8
  ed_handle :: "nat option"
  ed_action :: device_action
  ed_scan_in_progress :: bool
  ed_is_accessport :: bool
  ed_eligible_accessport :: bool
  ed_polite_disconnect_sent :: bool
  ed_software_reenumeration :: bool
  ed_transaction_ready_after_us :: int
  ed_attachment_generation :: u32
  ed_identity :: device_identity

definition device_zero :: enumerated_device where
  "device_zero = \<lparr>ed_address = 0, ed_handle = None, ed_action = DEVICE_ACTION_NONE,
     ed_scan_in_progress = False, ed_is_accessport = False, ed_eligible_accessport = False,
     ed_polite_disconnect_sent = False, ed_software_reenumeration = False,
     ed_transaction_ready_after_us = 0, ed_attachment_generation = 0, ed_identity = identity_zero\<rparr>"

text \<open>A request and a work item carry the payload of their kind.\<close>

datatype usb_control_request = CONTROL_REQUEST_IDENTITY | CONTROL_REQUEST_SYNC
  | CONTROL_REQUEST_CLOSE_RECOVERY | CONTROL_CANCEL_SYNC
  | CONTROL_REQUEST_MAP_UPLOAD map_upload_request | CONTROL_REQUEST_DELETE delete_request

datatype work_kind = WORK_SCAN | WORK_IDENTITY | WORK_SYNC | WORK_CLOSE_RECOVERY
  | WORK_MAP_UPLOAD map_upload_request | WORK_DELETE delete_request

text \<open>The pointer to the device is its index in the table.\<close>

record descriptor_work =
  wk_kind :: work_kind
  wk_device :: nat
  wk_pinned_handle :: "nat option"
  wk_attachment_generation :: u32

text \<open>
  The client state with the queues, the flags shared with the other tasks, and the work that the
  transaction task has taken from its queue and not yet reported.
\<close>

record usb_client =
  uc_devices :: "enumerated_device list"
  uc_next_attachment_generation :: u32
  uc_next_topology_revision :: u32
  uc_conflict_latched :: bool
  uc_expect_polite_reenumeration :: bool
  uc_polite_deadline_us :: int
  uc_detach_recovery_pending :: bool
  uc_detach_recovery_deadline_us :: int
  uc_scan_requests :: "descriptor_work list"
  uc_scan_results :: "descriptor_work list"
  uc_transaction_requests :: "descriptor_work list"
  uc_transaction_results :: "descriptor_work list"
  uc_running :: "descriptor_work option"
  uc_control_requests :: "usb_control_request list"
  uc_sync_cancel_requested :: bool
  uc_write_recovery_required :: bool

definition client_zero :: usb_client where
  "client_zero = \<lparr>uc_devices = replicate 128 device_zero, uc_next_attachment_generation = 0,
     uc_next_topology_revision = 0, uc_conflict_latched = False,
     uc_expect_polite_reenumeration = False, uc_polite_deadline_us = 0,
     uc_detach_recovery_pending = False, uc_detach_recovery_deadline_us = 0,
     uc_scan_requests = [], uc_scan_results = [], uc_transaction_requests = [],
     uc_transaction_results = [], uc_running = None, uc_control_requests = [],
     uc_sync_cancel_requested = False, uc_write_recovery_required = False\<rparr>"

abbreviation device_at :: "usb_client \<Rightarrow> nat \<Rightarrow> enumerated_device" where
  "device_at c i \<equiv> uc_devices c ! i"

definition set_device :: "nat \<Rightarrow> (enumerated_device \<Rightarrow> enumerated_device) \<Rightarrow> usb_client \<Rightarrow> usb_client" where
  "set_device i f c = c\<lparr>uc_devices := (uc_devices c)[i := f (uc_devices c ! i)]\<rparr>"

text \<open>A queue of depth four; a send that has to wait fails when the queue is still full.\<close>

definition queue_send :: "'a \<Rightarrow> 'a list \<Rightarrow> 'a list option" where
  "queue_send x q = (if length q < 4 then Some (q @ [x]) else None)"

section \<open>Counting the eligible devices\<close>

definition counts :: "enumerated_device \<Rightarrow> bool" where
  "counts d \<longleftrightarrow> ed_handle d \<noteq> None \<and> ed_eligible_accessport d \<and> ed_action d \<noteq> DEVICE_ACTION_CLOSE"

definition eligible_accessport_count :: "usb_client \<Rightarrow> nat" where
  "eligible_accessport_count c = length (filter (\<lambda>i. counts (device_at c i)) [1..<128])"

definition bounded_eligible_count :: "usb_client \<Rightarrow> u8" where
  "bounded_eligible_count c =
     (let n = eligible_accessport_count c in if n > 255 then 255 else of_nat n)"

definition advance_topology_revision :: "usb_client \<Rightarrow> usb_client" where
  "advance_topology_revision c =
     (let r = uc_next_topology_revision c + 1 in
      c\<lparr>uc_next_topology_revision := if r = 0 then r + 1 else r\<rparr>)"

section \<open>Events\<close>

definition attachment_event :: "device_event_kind \<Rightarrow> device_identity \<Rightarrow> device_event" where
  "attachment_event kind identity = device_event_zero\<lparr>ev_kind := kind, ev_identity := identity\<rparr>"

definition publish_multiple_accessports :: "usb_client \<Rightarrow> usb_client \<times> usb_call list" where
  "publish_multiple_accessports c =
     (let count = bounded_eligible_count c in
      if count < 2 then (c, [])
      else (c\<lparr>uc_conflict_latched := True, uc_sync_cancel_requested := True\<rparr>,
        [CALL_DEVICE_EVENT (device_event_zero\<lparr>ev_kind := DEV_EV_MULTIPLE_DETECTED,
           ev_eligible_device_count := count,
           ev_topology_revision := uc_next_topology_revision c\<rparr>)]))"

text \<open>The failures that a request or a work item of a kind is answered with.\<close>

definition sync_refused :: "bool \<Rightarrow> esp_err \<Rightarrow> usb_call" where
  "sync_refused close_recovery err = CALL_SYNC_EVENT (failed_event close_recovery err)"

definition upload_refused :: "usb_client \<Rightarrow> map_upload_request \<Rightarrow> esp_err \<Rightarrow> usb_call" where
  "upload_refused c request err = CALL_UPLOAD_EVENT \<lparr>ue_state = UPLOAD_FAILED, ue_request = request,
     ue_readback_sha256 = replicate 32 0, ue_recovery_required = uc_write_recovery_required c,
     ue_platform_error = err\<rparr>"

definition delete_refused :: "usb_client \<Rightarrow> delete_request \<Rightarrow> esp_err \<Rightarrow> usb_call" where
  "delete_refused c request err = CALL_DELETE_EVENT \<lparr>de_state = DELETE_FAILED, de_request = request,
     de_recovery_required = uc_write_recovery_required c, de_platform_error = err\<rparr>"

section \<open>The callback of the host\<close>

datatype host_event = NEW_DEV u8 | DEV_GONE nat | OTHER_EVENT nat

definition next_generation :: "u32 \<Rightarrow> u32" where
  "next_generation g = (let h = g + 1 in if h = 0 then h + 1 else h)"

definition client_event_callback :: "host_event \<Rightarrow> usb_client \<Rightarrow> usb_client" where
  "client_event_callback event c =
     (case event of
        NEW_DEV address \<Rightarrow>
          if address > 127 then c
          else let g = next_generation (uc_next_attachment_generation c) in
            (set_device (unat address) (\<lambda>_. device_zero\<lparr>ed_address := address,
               ed_attachment_generation := g, ed_action := DEVICE_ACTION_OPEN\<rparr>) c)
            \<lparr>uc_next_attachment_generation := g, uc_detach_recovery_pending := False,
             uc_detach_recovery_deadline_us := 0\<rparr>
      | DEV_GONE handle \<Rightarrow>
          (case find (\<lambda>i. ed_handle (device_at c i) = Some handle) [1..<128] of
             None \<Rightarrow> c
           | Some i \<Rightarrow> set_device i (\<lambda>d. d\<lparr>ed_action := DEVICE_ACTION_CLOSE\<rparr>) c)
      | OTHER_EVENT n \<Rightarrow> c)"

section \<open>The descriptor task\<close>

text \<open>
  What the host answers about a device: its speed and active configuration value, its device
  descriptor (vendor, product, number of configurations), the memory of the active configuration
  descriptor, and the time. \<open>None\<close> is an error or a NULL.
\<close>

record host_view =
  hv_info :: "(bool \<times> u8) option"
  hv_device :: "(u16 \<times> u16 \<times> u8) option"
  hv_config :: "u8 list option"
  hv_now :: int

definition open_identity :: "enumerated_device \<Rightarrow> u16 \<Rightarrow> u16 \<Rightarrow> u8 \<Rightarrow> bool \<Rightarrow> device_identity" where
  "open_identity d vendor product configurations high_speed =
     \<lparr>id_vendor_id = vendor, id_product_id = product, id_address = ed_address d,
      id_configuration_count = configurations, id_matching_configuration_count = 0,
      id_interface_number = 0, id_bulk_out_endpoint = BULK_OUT, id_bulk_in_endpoint = BULK_IN,
      id_bulk_max_packet_size = 0, id_attachment_generation = ed_attachment_generation d,
      id_high_speed = high_speed\<rparr>"

text \<open>The classification of an attach behind a polite close.\<close>

definition classify_attach :: "int \<Rightarrow> usb_client \<Rightarrow> bool \<times> usb_client" where
  "classify_attach now c =
     (if uc_expect_polite_reenumeration c
      then (now \<le> uc_polite_deadline_us c,
            c\<lparr>uc_expect_polite_reenumeration := False, uc_polite_deadline_us := 0\<rparr>)
      else (False, c))"

definition active_configuration :: "host_view \<Rightarrow> device_identity \<Rightarrow> device_identity" where
  "active_configuration view identity =
     (case hv_config view of
        None \<Rightarrow> identity
      | Some bytes \<Rightarrow>
          (case inspect_config_descriptor bytes (Some 0) of
             (matches, packet) \<Rightarrow>
               if matches
               then identity\<lparr>id_bulk_max_packet_size := the packet, id_matching_configuration_count := 1\<rparr>
               else identity))"

text \<open>The events about a device whose active configuration matches, and about one that does not.\<close>

definition accept_device :: "nat \<Rightarrow> usb_client \<Rightarrow> usb_client \<times> usb_call list" where
  "accept_device i c =
     (let c = set_device i (\<lambda>d. d\<lparr>ed_eligible_accessport := True\<rparr>) c;
          c = advance_topology_revision c;
          event = (\<lambda>kind. CALL_DEVICE_EVENT \<lparr>ev_kind = kind, ev_identity = ed_identity (device_at c i),
            ev_platform_error = ESP_OK, ev_eligible_device_count = 1,
            ev_topology_revision = uc_next_topology_revision c,
            ev_software_reenumeration = ed_software_reenumeration (device_at c i)\<rparr>)
      in if bounded_eligible_count c \<ge> 2 \<or> uc_conflict_latched c then publish_multiple_accessports c
         else (c, [event DEV_EV_ATTACHED, event DEV_EV_ACCEPTED]))"

definition reject_device :: "nat \<Rightarrow> usb_client \<Rightarrow> usb_client \<times> usb_call list" where
  "reject_device i c =
     (if eligible_accessport_count c = 0 \<and> \<not> uc_conflict_latched c
      then (c, [CALL_DEVICE_EVENT ((attachment_event DEV_EV_ATTACHED (ed_identity (device_at c i)))
                  \<lparr>ev_software_reenumeration := ed_software_reenumeration (device_at c i)\<rparr>),
                CALL_DEVICE_EVENT ((attachment_event DEV_EV_FAILURE (ed_identity (device_at c i)))
                  \<lparr>ev_platform_error := ESP_ERR_INVALID_RESPONSE\<rparr>)])
      else (c, []))"

text \<open>The host refuses a NULL handle, so such a device is left alone.\<close>

definition log_open_device :: "host_view \<Rightarrow> nat \<Rightarrow> usb_client \<Rightarrow> usb_client \<times> usb_call list" where
  "log_open_device view i c =
     (if ed_handle (device_at c i) = None then (c, [])
      else case hv_info view of
        None \<Rightarrow> (c, [])
      | Some (high_speed, _) \<Rightarrow>
          (case hv_device view of
             None \<Rightarrow> (c, [])
           | Some (vendor, product, configurations) \<Rightarrow>
               let is_accessport = (vendor = 0x1a84 \<and> product = 0x0121);
                   c = set_device i (\<lambda>d. d\<lparr>ed_is_accessport := is_accessport\<rparr>) c
               in if \<not> is_accessport then (c, [])
                  else case classify_attach (hv_now view) c of
                    (software_reenumeration, c) \<Rightarrow>
                      let c = set_device i (\<lambda>d. d\<lparr>ed_software_reenumeration := software_reenumeration,
                            ed_identity := active_configuration view
                              (open_identity d vendor product configurations high_speed)\<rparr>) c
                      in if id_matching_configuration_count (ed_identity (device_at c i)) = 1
                         then accept_device i c else reject_device i c))"

section \<open>The transaction task\<close>

definition transaction_refused :: "usb_client \<Rightarrow> descriptor_work \<Rightarrow> usb_call list" where
  "transaction_refused c work =
     (case wk_kind work of
        WORK_DELETE request \<Rightarrow> [delete_refused c request ESP_ERR_INVALID_STATE]
      | WORK_MAP_UPLOAD request \<Rightarrow> [upload_refused c request ESP_ERR_INVALID_STATE]
      | WORK_IDENTITY \<Rightarrow> []
      | WORK_CLOSE_RECOVERY \<Rightarrow> [sync_refused True ESP_ERR_INVALID_STATE]
      | _ \<Rightarrow> [sync_refused False ESP_ERR_INVALID_STATE])"

text \<open>The guard on a work item that was taken from the queue.\<close>

definition transaction_admitted :: "usb_client \<Rightarrow> descriptor_work \<Rightarrow> bool" where
  "transaction_admitted c work \<longleftrightarrow>
     (let d = device_at c (wk_device work) in
      \<not> (ed_handle d \<noteq> wk_pinned_handle work
         \<or> ed_attachment_generation d \<noteq> wk_attachment_generation work
         \<or> \<not> ed_eligible_accessport d \<or> uc_conflict_latched c \<or> eligible_accessport_count c \<noteq> 1))"

text \<open>
  What a transaction leaves: \<open>*polite_disconnect_sent\<close>, when it is stored, and the recovery flag,
  when it is taken.
\<close>

definition transaction_done :: "descriptor_work \<Rightarrow> bool option \<Rightarrow> bool \<Rightarrow> usb_client \<Rightarrow> usb_client" where
  "transaction_done work disconnect_sent recovery c =
     (case disconnect_sent of None \<Rightarrow> c
      | Some b \<Rightarrow> set_device (wk_device work) (\<lambda>d. d\<lparr>ed_polite_disconnect_sent := b\<rparr>) c)
     \<lparr>uc_write_recovery_required := uc_write_recovery_required c \<or> recovery\<rparr>"

section \<open>The client task\<close>

definition work_collected :: "descriptor_work \<Rightarrow> usb_client \<Rightarrow> usb_client" where
  "work_collected work c =
     (if ed_attachment_generation (device_at c (wk_device work)) = wk_attachment_generation work
      then set_device (wk_device work) (\<lambda>d. d\<lparr>ed_scan_in_progress := False\<rparr>) c
      else c)"

definition collect_scan_results :: "usb_client \<Rightarrow> usb_client" where
  "collect_scan_results c =
     (let c = foldl (\<lambda>c work. work_collected work c) (c\<lparr>uc_scan_results := []\<rparr>) (uc_scan_results c)
      in foldl (\<lambda>c work. work_collected work c) (c\<lparr>uc_transaction_results := []\<rparr>) (uc_transaction_results c))"

definition selectable :: "enumerated_device \<Rightarrow> bool" where
  "selectable d \<longleftrightarrow> ed_handle d \<noteq> None \<and> ed_eligible_accessport d \<and> \<not> ed_scan_in_progress d
     \<and> ed_action d \<noteq> DEVICE_ACTION_CLOSE \<and> id_configuration_count (ed_identity d) \<noteq> 0
     \<and> id_matching_configuration_count (ed_identity d) = 1"

definition accepted_busy :: "enumerated_device \<Rightarrow> bool" where
  "accepted_busy d \<longleftrightarrow> ed_handle d \<noteq> None \<and> ed_is_accessport d \<and> ed_scan_in_progress d
     \<and> ed_action d \<noteq> DEVICE_ACTION_CLOSE"

text \<open>The answer to a request that meets a conflict or no single device.\<close>

definition request_refused :: "usb_client \<Rightarrow> usb_control_request \<Rightarrow> usb_call list" where
  "request_refused c request =
     (case request of
        CONTROL_REQUEST_DELETE r \<Rightarrow> [delete_refused c r ESP_ERR_INVALID_STATE]
      | CONTROL_REQUEST_MAP_UPLOAD r \<Rightarrow> [upload_refused c r ESP_ERR_INVALID_STATE]
      | CONTROL_REQUEST_IDENTITY \<Rightarrow> []
      | CONTROL_REQUEST_CLOSE_RECOVERY \<Rightarrow> [sync_refused True ESP_ERR_INVALID_STATE]
      | _ \<Rightarrow> [sync_refused False ESP_ERR_INVALID_STATE])"

text \<open>
  The answer to a request that finds no device it may take, and to one that no queue takes. These
  branches do not look for a delete.
\<close>

definition request_failed :: "usb_client \<Rightarrow> usb_control_request \<Rightarrow> esp_err \<Rightarrow> usb_call list" where
  "request_failed c request err =
     (case request of
        CONTROL_REQUEST_MAP_UPLOAD r \<Rightarrow> [upload_refused c r err]
      | CONTROL_REQUEST_IDENTITY \<Rightarrow> []
      | CONTROL_REQUEST_CLOSE_RECOVERY \<Rightarrow> [sync_refused True err]
      | _ \<Rightarrow> [sync_refused False err])"

definition deferrable :: "usb_control_request \<Rightarrow> bool" where
  "deferrable request \<longleftrightarrow> request \<noteq> CONTROL_REQUEST_IDENTITY \<and> request \<noteq> CONTROL_CANCEL_SYNC"

fun work_of_request :: "usb_control_request \<Rightarrow> work_kind" where
  "work_of_request (CONTROL_REQUEST_DELETE r) = WORK_DELETE r"
| "work_of_request (CONTROL_REQUEST_MAP_UPLOAD r) = WORK_MAP_UPLOAD r"
| "work_of_request CONTROL_REQUEST_CLOSE_RECOVERY = WORK_CLOSE_RECOVERY"
| "work_of_request CONTROL_REQUEST_IDENTITY = WORK_IDENTITY"
| "work_of_request CONTROL_CANCEL_SYNC = WORK_SYNC"
| "work_of_request CONTROL_REQUEST_SYNC = WORK_SYNC"

fun keeps_cancel :: "usb_control_request \<Rightarrow> bool" where
  "keeps_cancel (CONTROL_REQUEST_MAP_UPLOAD r) = True"
| "keeps_cancel (CONTROL_REQUEST_DELETE r) = True"
| "keeps_cancel _ = False"

definition dispatch_request :: "usb_control_request \<Rightarrow> nat \<Rightarrow> usb_client \<Rightarrow> usb_client \<times> usb_call list" where
  "dispatch_request request i c =
     (let c = (if keeps_cancel request then c else c\<lparr>uc_sync_cancel_requested := False\<rparr>);
          c = set_device i (\<lambda>d. d\<lparr>ed_scan_in_progress := True\<rparr>) c;
          d = device_at c i;
          work = \<lparr>wk_kind = work_of_request request, wk_device = i, wk_pinned_handle = ed_handle d,
            wk_attachment_generation = ed_attachment_generation d\<rparr>
      in case queue_send work (uc_transaction_requests c) of
           Some q \<Rightarrow> (c\<lparr>uc_transaction_requests := q\<rparr>, [])
         | None \<Rightarrow> (set_device i (\<lambda>d. d\<lparr>ed_scan_in_progress := False\<rparr>) c,
                    request_failed c request ESP_ERR_TIMEOUT))"

text \<open>
  One request taken from the queue. The flag of the result is false for the \<open>break\<close>.
  \<open>requeued\<close> tells whether the deferred request still finds room, which another task may have
  taken meanwhile.
\<close>

definition process_request ::
  "bool \<Rightarrow> usb_control_request \<Rightarrow> usb_client \<Rightarrow> bool \<times> usb_client \<times> usb_call list" where
  "process_request requeued request c =
     (if request = CONTROL_CANCEL_SYNC then (True, c\<lparr>uc_sync_cancel_requested := True\<rparr>, [])
      else if uc_conflict_latched c \<or> eligible_accessport_count c \<noteq> 1
        then (True, c, request_refused c request)
      else case find (\<lambda>i. selectable (device_at c i)) [1..<128] of
        Some i \<Rightarrow> (True, dispatch_request request i c)
      | None \<Rightarrow>
          if deferrable request \<and> list_ex (\<lambda>i. accepted_busy (device_at c i)) [1..<128]
          then (if requeued
                then (False, c\<lparr>uc_control_requests := uc_control_requests c @ [request]\<rparr>, [])
                else (False, c, request_failed c request ESP_ERR_TIMEOUT))
          else (True, c, request_failed c request ESP_ERR_INVALID_STATE))"

fun control_loop :: "bool \<Rightarrow> usb_control_request list \<Rightarrow> usb_client \<Rightarrow> usb_client \<times> usb_call list" where
  "control_loop requeued [] c = (c\<lparr>uc_control_requests := []\<rparr>, [])"
| "control_loop requeued (request # rest) c =
     (case process_request requeued request (c\<lparr>uc_control_requests := rest\<rparr>) of
        (continue, c', calls) \<Rightarrow>
          if continue then (case control_loop requeued rest c' of (c'', calls') \<Rightarrow> (c'', calls @ calls'))
          else (c', calls))"

definition process_control_requests :: "bool \<Rightarrow> usb_client \<Rightarrow> usb_client \<times> usb_call list" where
  "process_control_requests requeued c = control_loop requeued (uc_control_requests c) c"

text \<open>An attached device is opened and its scan queued; \<open>opened\<close> is the answer of the host.\<close>

definition open_device_at :: "nat option \<Rightarrow> int \<Rightarrow> nat \<Rightarrow> usb_client \<Rightarrow> usb_client" where
  "open_device_at opened now i c =
     (let c = set_device i (\<lambda>d. d\<lparr>ed_action := DEVICE_ACTION_NONE, ed_handle := opened\<rparr>) c in
      if opened = None then c
      else let c = set_device i (\<lambda>d. d\<lparr>ed_scan_in_progress := True,
                 ed_transaction_ready_after_us := now + 5000000\<rparr>) c;
               work = \<lparr>wk_kind = WORK_SCAN, wk_device = i, wk_pinned_handle = opened,
                 wk_attachment_generation = ed_attachment_generation (device_at c i)\<rparr>
        in case queue_send work (uc_scan_requests c) of
             Some q \<Rightarrow> c\<lparr>uc_scan_requests := q\<rparr>
           | None \<Rightarrow> set_device i (\<lambda>d. d\<lparr>ed_scan_in_progress := False\<rparr>) c)"

text \<open>A detached device is closed: the event, the recovery timer and the two latches.\<close>

definition detach_accessport :: "int \<Rightarrow> nat \<Rightarrow> usb_client \<Rightarrow> usb_client \<times> usb_call list" where
  "detach_accessport now i c =
     (let d = device_at c i;
          c = advance_topology_revision c;
          c = (if ed_polite_disconnect_sent d
               then c\<lparr>uc_expect_polite_reenumeration := True, uc_polite_deadline_us := now + 3000000\<rparr>
               else c);
          event = \<lparr>ev_kind = DEV_EV_DETACHED, ev_identity = ed_identity d, ev_platform_error = ESP_OK,
            ev_eligible_device_count = bounded_eligible_count c,
            ev_topology_revision = uc_next_topology_revision c,
            ev_software_reenumeration = ed_polite_disconnect_sent d\<rparr>;
          c = (if \<not> ed_polite_disconnect_sent d \<and> eligible_accessport_count c = 0
               then c\<lparr>uc_detach_recovery_pending := True,
                      uc_detach_recovery_deadline_us := now + 1200 * 1000\<rparr>
               else c)
      in (c, [CALL_DEVICE_EVENT event]))"

definition close_device_at :: "int \<Rightarrow> nat \<Rightarrow> usb_client \<Rightarrow> usb_client \<times> usb_call list" where
  "close_device_at now i c =
     (let c = set_device i (\<lambda>d. d\<lparr>ed_action := DEVICE_ACTION_NONE, ed_eligible_accessport := False\<rparr>) c in
      case (if ed_is_accessport (device_at c i) then detach_accessport now i c else (c, [])) of
        (c, calls) \<Rightarrow>
          let c = (if uc_conflict_latched c \<and> eligible_accessport_count c = 0
                   then c\<lparr>uc_conflict_latched := False\<rparr> else c);
              c = (if \<not> ed_polite_disconnect_sent (device_at c i) \<and> eligible_accessport_count c = 0
                   then c\<lparr>uc_write_recovery_required := False\<rparr> else c)
          in (set_device i (\<lambda>_. device_zero) c, calls))"

definition inspect_device :: "nat option \<Rightarrow> int \<Rightarrow> nat \<Rightarrow> usb_client \<Rightarrow> usb_client \<times> usb_call list" where
  "inspect_device opened now i c =
     (let d = device_at c i in
      case ed_action d of
        DEVICE_ACTION_OPEN \<Rightarrow> (open_device_at opened now i c, [])
      | DEVICE_ACTION_CLOSE \<Rightarrow>
          if ed_handle d \<noteq> None \<and> \<not> ed_scan_in_progress d then close_device_at now i c else (c, [])
      | DEVICE_ACTION_NONE \<Rightarrow> (c, []))"

text \<open>The pass over the table; the host answers each address.\<close>

fun inspect_loop :: "(nat \<Rightarrow> nat option) \<Rightarrow> (nat \<Rightarrow> int) \<Rightarrow> nat list \<Rightarrow> usb_client \<Rightarrow> usb_client \<times> usb_call list" where
  "inspect_loop opened now [] c = (c, [])"
| "inspect_loop opened now (i # rest) c =
     (case inspect_device (opened i) (now i) i c of (c', calls) \<Rightarrow>
        (case inspect_loop opened now rest c' of (c'', calls') \<Rightarrow> (c'', calls @ calls')))"

definition inspect_pending_devices :: "(nat \<Rightarrow> nat option) \<Rightarrow> (nat \<Rightarrow> int) \<Rightarrow> usb_client \<Rightarrow> usb_client \<times> usb_call list" where
  "inspect_pending_devices opened now c = inspect_loop opened now [1..<128] c"

text \<open>
  The recovery of the root port; the flag tells whether the port is cycled, which the host may
  refuse.
\<close>

definition recover_root_port :: "int \<Rightarrow> usb_client \<Rightarrow> bool \<times> usb_client" where
  "recover_root_port now c =
     (if \<not> uc_detach_recovery_pending c \<or> now < uc_detach_recovery_deadline_us c then (False, c)
      else let c = c\<lparr>uc_detach_recovery_pending := False, uc_detach_recovery_deadline_us := 0\<rparr> in
        (eligible_accessport_count c = 0, c))"

section \<open>Requests from other tasks\<close>

definition post_request :: "bool \<Rightarrow> usb_control_request \<Rightarrow> usb_client \<Rightarrow> esp_err \<times> usb_client" where
  "post_request refused request c =
     (if refused then (ESP_ERR_INVALID_STATE, c)
      else case queue_send request (uc_control_requests c) of
        Some q \<Rightarrow> (ESP_OK, c\<lparr>uc_control_requests := q\<rparr>)
      | None \<Rightarrow> (ESP_ERR_TIMEOUT, c))"

text \<open>\<open>started\<close> stands for \<open>monitor_started\<close> with the request queue.\<close>

definition usb_request_sync :: "bool \<Rightarrow> usb_client \<Rightarrow> esp_err \<times> usb_client" where
  "usb_request_sync started = post_request (\<not> started) CONTROL_REQUEST_SYNC"

definition usb_request_identity :: "bool \<Rightarrow> usb_client \<Rightarrow> esp_err \<times> usb_client" where
  "usb_request_identity started = post_request (\<not> started) CONTROL_REQUEST_IDENTITY"

definition usb_request_close_recovery :: "bool \<Rightarrow> usb_client \<Rightarrow> esp_err \<times> usb_client" where
  "usb_request_close_recovery started = post_request (\<not> started) CONTROL_REQUEST_CLOSE_RECOVERY"

definition usb_cancel_sync :: "bool \<Rightarrow> usb_client \<Rightarrow> esp_err \<times> usb_client" where
  "usb_cancel_sync started = post_request (\<not> started) CONTROL_CANCEL_SYNC"

definition usb_request_map_upload ::
  "bool \<Rightarrow> bool \<Rightarrow> map_upload_request option \<Rightarrow> usb_client \<Rightarrow> esp_err \<times> usb_client" where
  "usb_request_map_upload started source_configured request c =
     (case request of
        None \<Rightarrow> (ESP_ERR_INVALID_STATE, c)
      | Some r \<Rightarrow> post_request (\<not> started \<or> \<not> source_configured \<or> uc_write_recovery_required c)
          (CONTROL_REQUEST_MAP_UPLOAD r) c)"

definition usb_request_delete ::
  "bool \<Rightarrow> bool \<Rightarrow> delete_request option \<Rightarrow> usb_client \<Rightarrow> esp_err \<times> usb_client" where
  "usb_request_delete started sink_configured request c =
     (case request of
        None \<Rightarrow> (ESP_ERR_INVALID_STATE, c)
      | Some r \<Rightarrow> post_request (\<not> started \<or> \<not> sink_configured \<or> uc_write_recovery_required c)
          (CONTROL_REQUEST_DELETE r) c)"

section \<open>The three tasks\<close>

text \<open>
  One step of one task, except an attach. The descriptor and the transaction task report a work
  item only when the queue of the results has room, for which they wait.
\<close>

inductive usb_step :: "usb_client \<Rightarrow> usb_call list \<Rightarrow> usb_client \<Rightarrow> bool" where
  gone: "usb_step c [] (client_event_callback (DEV_GONE handle) c)"
| other: "usb_step c [] (client_event_callback (OTHER_EVENT k) c)"
| descriptor: "uc_scan_requests c = work # rest \<Longrightarrow> length (uc_scan_results c) < 4 \<Longrightarrow>
    log_open_device view (wk_device work) (c\<lparr>uc_scan_requests := rest\<rparr>) = (c', calls) \<Longrightarrow>
    usb_step c calls (c'\<lparr>uc_scan_results := uc_scan_results c' @ [work]\<rparr>)"
| refused: "uc_running c = None \<Longrightarrow> uc_transaction_requests c = work # rest \<Longrightarrow>
    \<not> transaction_admitted c work \<Longrightarrow> length (uc_transaction_results c) < 4 \<Longrightarrow>
    usb_step c (transaction_refused c work) (c\<lparr>uc_transaction_requests := rest,
      uc_transaction_results := uc_transaction_results c @ [work]\<rparr>)"
| started: "uc_running c = None \<Longrightarrow> uc_transaction_requests c = work # rest \<Longrightarrow>
    transaction_admitted c work \<Longrightarrow>
    usb_step c [] ((set_device (wk_device work) (\<lambda>d. d\<lparr>ed_transaction_ready_after_us := 0\<rparr>) c)
      \<lparr>uc_transaction_requests := rest, uc_running := Some work\<rparr>)"
| finished: "uc_running c = Some work \<Longrightarrow> length (uc_transaction_results c) < 4 \<Longrightarrow>
    usb_step c [] ((transaction_done work disconnect_sent recovery c)
      \<lparr>uc_running := None, uc_transaction_results := uc_transaction_results c @ [work]\<rparr>)"
| posted: "post_request refused request c = (err, c') \<Longrightarrow> usb_step c [] c'"
| collect: "usb_step c [] (collect_scan_results c)"
| control: "process_control_requests requeued c = (c', calls) \<Longrightarrow> usb_step c calls c'"
| inspect: "inspect_pending_devices opened now c = (c', calls) \<Longrightarrow> usb_step c calls c'"
| recover: "recover_root_port now c = (cycled, c') \<Longrightarrow> usb_step c [] c'"

text \<open>The states after \<open>n\<close> attachments.\<close>

inductive usb_reaches :: "nat \<Rightarrow> usb_client \<Rightarrow> bool" where
  start: "usb_reaches 0 client_zero"
| step: "usb_reaches n c \<Longrightarrow> usb_step c calls c' \<Longrightarrow> usb_reaches n c'"
| attach: "usb_reaches n c \<Longrightarrow> address \<le> 127 \<Longrightarrow>
    usb_reaches (Suc n) (client_event_callback (NEW_DEV address) c)"

end
