(* ===== verification/Usb_Table.thy ===== *)
theory Usb_Table
  imports Usb_Topology
begin

text \<open>
  The invariant of the device table and of the work in flight (Usb_Topology): a device whose
  attachment has work queued, running or reported is marked busy and keeps the pinned handle, and
  no attachment has two work items. Each handler of the three tasks keeps it.
\<close>

section \<open>The invariant\<close>

text \<open>The work that is queued, running or reported.\<close>

definition in_flight :: "usb_client \<Rightarrow> descriptor_work list" where
  "in_flight c = uc_scan_requests c @ uc_scan_results c @ uc_transaction_requests c
     @ uc_transaction_results c @ (case uc_running c of None \<Rightarrow> [] | Some work \<Rightarrow> [work])"

definition work_key :: "descriptor_work \<Rightarrow> nat \<times> u32" where
  "work_key work = (wk_device work, wk_attachment_generation work)"

text \<open>A device whose attachment has work in flight is marked busy and keeps the pinned handle.\<close>

definition holds :: "enumerated_device \<Rightarrow> descriptor_work \<Rightarrow> bool" where
  "holds d work \<longleftrightarrow> ed_scan_in_progress d \<and> ed_handle d = wk_pinned_handle work \<and> ed_handle d \<noteq> None
     \<and> ed_action d \<noteq> DEVICE_ACTION_OPEN"

definition slot_ok :: "nat \<Rightarrow> descriptor_work set \<Rightarrow> nat \<Rightarrow> enumerated_device \<Rightarrow> bool" where
  "slot_ok n ws i d \<longleftrightarrow> unat (ed_attachment_generation d) \<le> n
     \<and> (ed_handle d \<noteq> None \<or> ed_action d = DEVICE_ACTION_OPEN \<longrightarrow> ed_attachment_generation d \<noteq> 0)
     \<and> (ed_action d = DEVICE_ACTION_OPEN \<longrightarrow> ed_handle d = None \<and> \<not> ed_eligible_accessport d)
     \<and> (\<forall>work \<in> ws. work_key work = (i, ed_attachment_generation d) \<longrightarrow> holds d work)"

definition works_ok :: "nat \<Rightarrow> descriptor_work list \<Rightarrow> bool" where
  "works_ok n ws \<longleftrightarrow> distinct (map work_key ws)
     \<and> (\<forall>work \<in> set ws. 0 < wk_device work \<and> wk_device work < 128 \<and> wk_attachment_generation work \<noteq> 0
          \<and> unat (wk_attachment_generation work) \<le> n)"

definition table_ok :: "nat \<Rightarrow> usb_client \<Rightarrow> bool" where
  "table_ok n c \<longleftrightarrow> length (uc_devices c) = 128 \<and> unat (uc_next_attachment_generation c) = n
     \<and> works_ok n (in_flight c) \<and> (\<forall>i < 128. slot_ok n (set (in_flight c)) i (device_at c i))"

definition conflict_ok :: "usb_client \<Rightarrow> bool" where
  "conflict_ok c \<longleftrightarrow> (eligible_accessport_count c \<ge> 2 \<longrightarrow> uc_conflict_latched c)
     \<and> (uc_conflict_latched c \<longrightarrow> uc_sync_cancel_requested c)"

lemma set_device_sel [simp]:
  "length (uc_devices (set_device i f c)) = length (uc_devices c)"
  "uc_next_attachment_generation (set_device i f c) = uc_next_attachment_generation c"
  "in_flight (set_device i f c) = in_flight c"
  "uc_conflict_latched (set_device i f c) = uc_conflict_latched c"
  "uc_sync_cancel_requested (set_device i f c) = uc_sync_cancel_requested c"
  "uc_scan_requests (set_device i f c) = uc_scan_requests c"
  "uc_scan_results (set_device i f c) = uc_scan_results c"
  "uc_transaction_requests (set_device i f c) = uc_transaction_requests c"
  "uc_transaction_results (set_device i f c) = uc_transaction_results c"
  "uc_running (set_device i f c) = uc_running c"
  "uc_control_requests (set_device i f c) = uc_control_requests c"
  by (simp_all add: set_device_def in_flight_def)

lemma device_at_set:
  "i < length (uc_devices c) \<Longrightarrow> device_at (set_device i f c) j = (if j = i then f (device_at c i) else device_at c j)"
  by (simp add: set_device_def)

text \<open>The client fields that neither the table nor the works depend on.\<close>

lemma table_ok_cong:
  assumes "uc_devices c' = uc_devices c" and "uc_next_attachment_generation c' = uc_next_attachment_generation c"
    and "mset (in_flight c') = mset (in_flight c)"
  shows "table_ok n c' \<longleftrightarrow> table_ok n c"
proof -
  have "set (in_flight c') = set (in_flight c)" using assms(3) by (metis set_mset_mset)
  moreover have "distinct (map work_key (in_flight c')) \<longleftrightarrow> distinct (map work_key (in_flight c))"
    using assms(3) by (metis mset_eq_imp_distinct_iff mset_map)
  ultimately show ?thesis by (simp add: table_ok_def works_ok_def assms(1,2))
qed

text \<open>
  A change that leaves the queues alone and, of each device, the attachment, the handle, the
  action and the busy mark; only an open device becomes eligible.
\<close>

definition same_queues :: "usb_client \<Rightarrow> usb_client \<Rightarrow> bool" where
  "same_queues c c' \<longleftrightarrow> uc_scan_requests c' = uc_scan_requests c \<and> uc_scan_results c' = uc_scan_results c
     \<and> uc_transaction_requests c' = uc_transaction_requests c
     \<and> uc_transaction_results c' = uc_transaction_results c \<and> uc_running c' = uc_running c"

definition kept :: "enumerated_device \<Rightarrow> enumerated_device \<Rightarrow> bool" where
  "kept d d' \<longleftrightarrow> ed_attachment_generation d' = ed_attachment_generation d \<and> ed_handle d' = ed_handle d
     \<and> ed_action d' = ed_action d \<and> ed_scan_in_progress d' = ed_scan_in_progress d
     \<and> (ed_handle d = None \<longrightarrow> ed_eligible_accessport d' = ed_eligible_accessport d)"

definition gentle :: "usb_client \<Rightarrow> usb_client \<Rightarrow> bool" where
  "gentle c c' \<longleftrightarrow> length (uc_devices c') = length (uc_devices c)
     \<and> uc_next_attachment_generation c' = uc_next_attachment_generation c \<and> same_queues c c'
     \<and> (\<forall>i < length (uc_devices c). kept (device_at c i) (device_at c' i))"

lemma kept_refl [simp]: "kept d d"
  by (simp add: kept_def)

lemma kept_trans: "kept d e \<Longrightarrow> kept e f \<Longrightarrow> kept d f"
  by (simp add: kept_def)

lemma gentle_refl [simp]: "gentle c c"
  by (simp add: gentle_def same_queues_def)

lemma gentle_trans: "gentle c d \<Longrightarrow> gentle d e \<Longrightarrow> gentle c e"
  unfolding gentle_def same_queues_def by (metis kept_trans)

lemma gentle_set:
  "(i < length (uc_devices c) \<Longrightarrow> kept (device_at c i) (f (device_at c i))) \<Longrightarrow> gentle c (set_device i f c)"
  by (cases "i < length (uc_devices c)")
    (auto simp: gentle_def same_queues_def set_device_def nth_list_update)

lemma gentle_fields:
  "uc_devices c' = uc_devices c \<Longrightarrow> uc_next_attachment_generation c' = uc_next_attachment_generation c \<Longrightarrow>
   same_queues c c' \<Longrightarrow> gentle c c'"
  by (simp add: gentle_def)

lemma slot_ok_kept:
  assumes "slot_ok n ws i d" and "kept d d'"
  shows "slot_ok n ws i d'"
proof -
  from assms(2) have k: "ed_attachment_generation d' = ed_attachment_generation d" "ed_handle d' = ed_handle d"
    "ed_action d' = ed_action d" "ed_scan_in_progress d' = ed_scan_in_progress d"
    "ed_handle d = None \<Longrightarrow> ed_eligible_accessport d' = ed_eligible_accessport d" by (simp_all add: kept_def)
  then have "holds d' work = holds d work" for work by (simp add: holds_def)
  then show ?thesis using assms(1) k by (simp add: slot_ok_def)
qed

lemma table_ok_gentle: "table_ok n c \<Longrightarrow> gentle c c' \<Longrightarrow> table_ok n c'"
proof -
  assume t: "table_ok n c" and g: "gentle c c'"
  have "in_flight c' = in_flight c" using g by (simp add: gentle_def same_queues_def in_flight_def)
  then show "table_ok n c'" using t g by (auto simp: table_ok_def gentle_def intro: slot_ok_kept)
qed

text \<open>No device becomes eligible, and the latch and the cancellation stay.\<close>

definition calm :: "usb_client \<Rightarrow> usb_client \<Rightarrow> bool" where
  "calm c c' \<longleftrightarrow> (\<forall>i \<in> {1..<128}. counts (device_at c' i) \<longrightarrow> counts (device_at c i))
     \<and> uc_conflict_latched c' = uc_conflict_latched c
     \<and> (uc_conflict_latched c \<and> uc_sync_cancel_requested c \<longrightarrow> uc_sync_cancel_requested c')"

lemma calm_refl [simp]: "calm c c"
  by (simp add: calm_def)

lemma calm_trans: "calm c d \<Longrightarrow> calm d e \<Longrightarrow> calm c e"
  by (auto simp: calm_def)

lemma calm_fields:
  "uc_devices c' = uc_devices c \<Longrightarrow> uc_conflict_latched c' = uc_conflict_latched c \<Longrightarrow>
   (uc_sync_cancel_requested c \<longrightarrow> uc_sync_cancel_requested c') \<Longrightarrow> calm c c'"
  by (simp add: calm_def)

lemma calm_set:
  assumes "counts (f (device_at c i)) \<longrightarrow> counts (device_at c i)"
  shows "calm c (set_device i f c)"
proof -
  have "counts (device_at (set_device i f c) j) \<longrightarrow> counts (device_at c j)" for j
    using assms by (cases "i < length (uc_devices c)") (auto simp: set_device_def nth_list_update list_update_beyond)
  then show ?thesis by (simp add: calm_def)
qed

text \<open>Moving work between the queues, behind a gentle change.\<close>

lemma table_ok_moved:
  assumes t: "table_ok n c" and g: "gentle c0 c'" and "uc_devices c0 = uc_devices c"
    and "uc_next_attachment_generation c0 = uc_next_attachment_generation c"
    and "uc_devices c'' = uc_devices c'" and "uc_next_attachment_generation c'' = uc_next_attachment_generation c'"
    and m: "mset (in_flight c'') = mset (in_flight c)"
  shows "table_ok n c''"
proof -
  let ?c = "c\<lparr>uc_devices := uc_devices c'\<rparr>"
  have "gentle c ?c" using g assms(3,4) by (auto simp: gentle_def same_queues_def)
  then have "table_ok n ?c" by (rule table_ok_gentle [OF t])
  then show ?thesis
    by (rule table_ok_cong [THEN iffD1, rotated 3])
      (use assms(4-6) m g in \<open>simp_all add: gentle_def in_flight_def\<close>)
qed

text \<open>A device may change in any way that keeps its slot in order.\<close>

lemma table_ok_set:
  assumes "table_ok n c" and "i < 128 \<Longrightarrow> slot_ok n (set (in_flight c)) i (f (device_at c i))"
  shows "table_ok n (set_device i f c)"
proof (cases "i < 128")
  case True
  then show ?thesis using assms by (auto simp: table_ok_def device_at_set)
next
  case False
  then have "(uc_devices c)[i := x] = uc_devices c" for x
    using assms(1) by (simp add: table_ok_def list_update_beyond)
  then have "set_device i f c = c" by (simp add: set_device_def)
  then show ?thesis using assms(1) by simp
qed

lemma slot_ok_at: "table_ok n c \<Longrightarrow> i < 128 \<Longrightarrow> slot_ok n (set (in_flight c)) i (device_at c i)"
  by (simp add: table_ok_def)

section \<open>The descriptor task keeps the table\<close>

lemma gentle_advance: "gentle c (advance_topology_revision c)"
  by (rule gentle_fields) (simp_all add: advance_topology_revision_def Let_def same_queues_def)

lemma gentle_multiple: "gentle c (fst (publish_multiple_accessports c))"
  by (rule gentle_fields) (simp_all add: publish_multiple_accessports_def Let_def same_queues_def)

lemma gentle_accept:
  assumes "i < length (uc_devices c) \<longrightarrow> ed_handle (device_at c i) \<noteq> None"
  shows "gentle c (fst (accept_device i c))"
proof -
  have "gentle c (set_device i (\<lambda>d. d\<lparr>ed_eligible_accessport := True\<rparr>) c)"
    by (rule gentle_set) (use assms in \<open>auto simp: kept_def\<close>)
  from gentle_trans [OF this gentle_advance] show ?thesis
    by (auto simp: accept_device_def Let_def intro: gentle_trans [OF _ gentle_multiple])
qed

text \<open>A scan ends in a quiet change or in the acceptance behind one.\<close>

lemma log_open_cases:
  obtains c' where "gentle c c'" "calm c c'" "fst (log_open_device view i c) = c'"
  | c' where "gentle c c'" "calm c c'" "i < length (uc_devices c') \<longrightarrow> ed_handle (device_at c' i) \<noteq> None"
      "fst (log_open_device view i c) = fst (accept_device i c')"
proof (cases "ed_handle (device_at c i) = None \<or> hv_info view = None \<or> hv_device view = None")
  case True
  then have "fst (log_open_device view i c) = c" by (auto simp: log_open_device_def split: option.splits)
  then show ?thesis using that(1) by simp
next
  case False
  then obtain handle where handle: "ed_handle (device_at c i) = Some handle" by auto
  obtain speed active vendor product confs where v: "hv_info view = Some (speed, active)"
    "hv_device view = Some (vendor, product, confs)" using False by (metis not_None_eq prod_cases3 surj_pair)
  let ?a = "vendor = 0x1a84 \<and> product = 0x0121"
  define c1 where "c1 = set_device i (\<lambda>d. d\<lparr>ed_is_accessport := ?a\<rparr>) c"
  define c2 where "c2 = snd (classify_attach (hv_now view) c1)"
  define c3 where "c3 = set_device i (\<lambda>d. d\<lparr>ed_software_reenumeration := fst (classify_attach (hv_now view) c1),
    ed_identity := active_configuration view (open_identity d vendor product confs speed)\<rparr>) c2"
  have q1: "gentle c c1" "calm c c1"
    unfolding c1_def by (rule gentle_set, simp add: kept_def) (rule calm_set, simp add: counts_def)
  have q2: "gentle c1 c2" "calm c1 c2"
    unfolding c2_def
    by (rule gentle_fields; simp add: classify_attach_def same_queues_def)
      (rule calm_fields; simp add: classify_attach_def)
  have q3: "gentle c2 c3" "calm c2 c3"
    unfolding c3_def by (rule gentle_set, simp add: kept_def) (rule calm_set, simp add: counts_def)
  have q: "gentle c c3" "calm c c3" using q1 q2 q3 by (blast intro: gentle_trans calm_trans)+
  have h: "i < length (uc_devices c3) \<longrightarrow> ed_handle (device_at c3 i) \<noteq> None"
    using q(1) False by (auto simp: gentle_def kept_def)
  have "fst (log_open_device view i c) = (if \<not> ?a then c1
      else if id_matching_configuration_count (ed_identity (device_at c3 i)) = 1
        then fst (accept_device i c3) else c3)"
    using v by (simp add: handle log_open_device_def Let_def reject_device_def c1_def c2_def c3_def case_prod_beta)
  then show ?thesis using that(1) [OF q1] that(1) [OF q] that(2) [OF q h] by (auto split: if_splits)
qed

lemma gentle_log: "gentle c (fst (log_open_device view i c))"
  by (rule log_open_cases [of c view i]) (auto intro: gentle_trans [OF _ gentle_accept])

section \<open>Work that comes and goes\<close>

text \<open>A work item of the current attachment starts when the slot holds none.\<close>

lemma table_ok_add:
  assumes t: "table_ok n c" and pos: "0 < i" and i: "i < 128" and free: "\<forall>w \<in> set (in_flight c). work_key w \<noteq> (i, ed_attachment_generation (device_at c i))"
    and f: "slot_ok n {} i (f (device_at c i))" "ed_attachment_generation (f (device_at c i)) = ed_attachment_generation (device_at c i)"
      "ed_attachment_generation (device_at c i) \<noteq> 0"
    and work: "work_key work = (i, ed_attachment_generation (device_at c i))" "holds (f (device_at c i)) work"
    and c': "uc_devices c' = uc_devices (set_device i f c)"
      "uc_next_attachment_generation c' = uc_next_attachment_generation c"
      "mset (in_flight c') = mset (work # in_flight c)"
  shows "table_ok n c'"
proof -
  have len: "length (uc_devices c) = 128" using t by (simp add: table_ok_def)
  have ws: "set (in_flight c') = insert work (set (in_flight c))"
    using c'(3) by (metis list.simps(15) set_mset_mset)
  have "distinct (map work_key (in_flight c')) \<longleftrightarrow> distinct (map work_key (work # in_flight c))"
    using c'(3) by (metis mset_eq_imp_distinct_iff mset_map)
  moreover have "distinct (map work_key (work # in_flight c))"
    using t free work(1) by (auto simp: table_ok_def works_ok_def)
  moreover have "unat (ed_attachment_generation (device_at c i)) \<le> n"
    using slot_ok_at [OF t i] by (simp add: slot_ok_def)
  ultimately have "works_ok n (in_flight c')"
    using t work(1) pos i f(3) by (auto simp: works_ok_def ws table_ok_def work_key_def)
  moreover have "slot_ok n (set (in_flight c')) j (device_at c' j)" if j: "j < 128" for j
  proof (cases "j = i")
    case True
    then have d: "device_at c' j = f (device_at c i)" using len i by (simp add: c'(1) device_at_set)
    show ?thesis
      unfolding d slot_ok_def ws f(2)
      using f(1,2) work free True by (auto simp: slot_ok_def)
  next
    case False
    then have "device_at c' j = device_at c j" using len i by (simp add: c'(1) device_at_set)
    then show ?thesis
      using slot_ok_at [OF t j] work(1) False by (auto simp: slot_ok_def ws)
  qed
  ultimately show ?thesis
    using t c'(1,2) by (simp add: table_ok_def)
qed

text \<open>A slot without work in flight may be reset.\<close>

lemma table_ok_reset:
  assumes "table_ok n c" and "i < 128 \<Longrightarrow> \<not> ed_scan_in_progress (device_at c i)"
  shows "table_ok n (set_device i (\<lambda>_. device_zero) c)"
proof (rule table_ok_set [OF assms(1)])
  show "slot_ok n (set (in_flight c)) i device_zero"
    using assms(1) by (auto simp: slot_ok_def device_zero_def table_ok_def works_ok_def work_key_def)
qed

lemma idle_slot:
  assumes "table_ok n c" and "i < 128" and "\<not> ed_scan_in_progress (device_at c i) \<or> ed_action (device_at c i) = DEVICE_ACTION_OPEN"
  shows "\<forall>w \<in> set (in_flight c). work_key w \<noteq> (i, ed_attachment_generation (device_at c i))"
  using slot_ok_at [OF assms(1,2)] assms(3) by (auto simp: slot_ok_def holds_def)

section \<open>The client task keeps the table\<close>

lemma work_collected_queues:
  "work_collected work (c\<lparr>uc_scan_results := q\<rparr>) = (work_collected work c)\<lparr>uc_scan_results := q\<rparr>"
  "work_collected work (c\<lparr>uc_transaction_results := q\<rparr>) = (work_collected work c)\<lparr>uc_transaction_results := q\<rparr>"
  "uc_scan_results (work_collected work c) = uc_scan_results c"
  "uc_transaction_results (work_collected work c) = uc_transaction_results c"
  by (simp_all add: work_collected_def set_device_def)

lemma table_ok_collected:
  assumes t: "table_ok n c" and c': "uc_devices c' = uc_devices c"
    "uc_next_attachment_generation c' = uc_next_attachment_generation c"
    "mset (work # in_flight c') = mset (in_flight c)"
  shows "table_ok n (work_collected work c')"
proof -
  have ws: "set (in_flight c) = insert work (set (in_flight c'))"
    using c'(3) by (metis list.simps(15) set_mset_mset)
  have "distinct (map work_key (in_flight c)) \<longleftrightarrow> distinct (map work_key (work # in_flight c'))"
    using c'(3) by (metis mset_eq_imp_distinct_iff mset_map)
  then have k: "work_key work \<notin> work_key ` set (in_flight c')" and dd: "distinct (map work_key (in_flight c'))"
    using t by (simp_all add: table_ok_def works_ok_def)
  have d: "\<forall>w \<in> set (in_flight c'). work_key w \<noteq> work_key work"
    using k by (metis image_eqI)
  have t': "table_ok n c'"
    using t dd c'(1,2) by (auto simp: table_ok_def works_ok_def ws slot_ok_def)
  show ?thesis
  proof (cases "ed_attachment_generation (device_at c' (wk_device work)) = wk_attachment_generation work")
    case True
    have "slot_ok n (set (in_flight c')) (wk_device work)
        ((device_at c' (wk_device work))\<lparr>ed_scan_in_progress := False\<rparr>)" if "wk_device work < 128"
      using slot_ok_at [OF t' that] d True by (auto simp: slot_ok_def work_key_def)
    then show ?thesis using True t' by (simp add: work_collected_def table_ok_set)
  next
    case False
    then show ?thesis using t' by (simp add: work_collected_def)
  qed
qed

lemma table_ok_collect_scans:
  "table_ok n (c\<lparr>uc_scan_results := ws\<rparr>) \<Longrightarrow>
   table_ok n (foldl (\<lambda>c work. work_collected work c) (c\<lparr>uc_scan_results := []\<rparr>) ws)"
proof (induction ws arbitrary: c)
  case (Cons w ws)
  have "table_ok n (work_collected w (c\<lparr>uc_scan_results := ws\<rparr>))"
    by (rule table_ok_collected [OF Cons.prems]) (simp_all add: in_flight_def)
  then show ?case using Cons.IH [of "work_collected w c"] by (simp add: work_collected_queues)
qed simp

lemma table_ok_collect_transactions:
  "table_ok n (c\<lparr>uc_transaction_results := ws\<rparr>) \<Longrightarrow>
   table_ok n (foldl (\<lambda>c work. work_collected work c) (c\<lparr>uc_transaction_results := []\<rparr>) ws)"
proof (induction ws arbitrary: c)
  case (Cons w ws)
  have "table_ok n (work_collected w (c\<lparr>uc_transaction_results := ws\<rparr>))"
    by (rule table_ok_collected [OF Cons.prems]) (simp_all add: in_flight_def)
  then show ?case using Cons.IH [of "work_collected w c"] by (simp add: work_collected_queues)
qed simp

lemma table_ok_collect_results: "table_ok n c \<Longrightarrow> table_ok n (collect_scan_results c)"
proof -
  let ?d = "foldl (\<lambda>c work. work_collected work c) (c\<lparr>uc_scan_results := []\<rparr>) (uc_scan_results c)"
  have keep: "uc_transaction_results (foldl (\<lambda>c work. work_collected work c) c0 ws) = uc_transaction_results c0" for c0 ws
    by (induction ws arbitrary: c0) (simp_all add: work_collected_queues)
  assume "table_ok n c"
  then have "table_ok n ?d" using table_ok_collect_scans [of n "uc_scan_results c" c] by simp
  then have "table_ok n (foldl (\<lambda>c work. work_collected work c) (?d\<lparr>uc_transaction_results := []\<rparr>) (uc_transaction_results ?d))"
    using table_ok_collect_transactions [of n "uc_transaction_results ?d" ?d] by simp
  then show ?thesis by (simp add: collect_scan_results_def Let_def keep)
qed

lemma table_ok_dispatch:
  assumes t: "table_ok n c" and pos: "0 < i" and i: "i < 128" and s: "selectable (device_at c i)"
  shows "table_ok n (fst (dispatch_request request i c))"
proof -
  let ?c = "if keeps_cancel request then c else c\<lparr>uc_sync_cancel_requested := False\<rparr>"
  let ?f = "\<lambda>d. d\<lparr>ed_scan_in_progress := True\<rparr>"
  let ?d = "device_at c i"
  let ?work = "\<lparr>wk_kind = work_of_request request, wk_device = i, wk_pinned_handle = ed_handle ?d,
            wk_attachment_generation = ed_attachment_generation ?d\<rparr>"
  have c: "uc_devices ?c = uc_devices c" "in_flight ?c = in_flight c"
    "uc_next_attachment_generation ?c = uc_next_attachment_generation c"
    by (simp_all add: in_flight_def)
  have t1: "table_ok n ?c" using t by (rule table_ok_cong [THEN iffD2, rotated 3]) (simp_all add: c)
  have so: "slot_ok n (set (in_flight c)) i ?d" by (rule slot_ok_at [OF t i])
  have act: "ed_action ?d \<noteq> DEVICE_ACTION_OPEN" "ed_handle ?d \<noteq> None" "\<not> ed_scan_in_progress ?d"
    using so s by (auto simp: slot_ok_def selectable_def)
  have len: "i < length (uc_devices c)" using t i by (simp add: table_ok_def)
  have d2: "device_at (set_device i ?f ?c) i = ?f ?d" using len by (simp add: set_device_def)
  show ?thesis
  proof (cases "queue_send ?work (uc_transaction_requests c)")
    case (Some q)
    then have q: "q = uc_transaction_requests c @ [?work]" by (simp add: queue_send_def split: if_splits)
    have r: "fst (dispatch_request request i c) = (set_device i ?f ?c)\<lparr>uc_transaction_requests := q\<rparr>"
      using Some len by (simp add: dispatch_request_def Let_def set_device_def)
    show ?thesis
      unfolding r
    proof (rule table_ok_add [OF t1 pos i, where f = ?f and work = ?work])
      show "\<forall>w \<in> set (in_flight ?c). work_key w \<noteq> (i, ed_attachment_generation (device_at ?c i))"
        using idle_slot [OF t i] act(3) unfolding c by blast
      show "slot_ok n {} i (?f (device_at ?c i))" using so act unfolding c by (simp add: slot_ok_def)
      show "ed_attachment_generation (device_at ?c i) \<noteq> 0" using so act unfolding c by (simp add: slot_ok_def)
      show "holds (?f (device_at ?c i)) ?work" using act by (simp add: holds_def)
      show "mset (in_flight ((set_device i ?f ?c)\<lparr>uc_transaction_requests := q\<rparr>)) = mset (?work # in_flight ?c)"
        by (simp add: in_flight_def q set_device_def)
    qed (simp_all add: work_key_def)
  next
    case None
    have same: "(uc_devices c)[i := ?d\<lparr>ed_scan_in_progress := False\<rparr>] = uc_devices c"
    proof -
      have "?d\<lparr>ed_scan_in_progress := False\<rparr> = ?d" using act(3) by simp
      then show ?thesis by simp
    qed
    have r: "uc_devices (fst (dispatch_request request i c)) = uc_devices c"
      using None len same by (simp add: dispatch_request_def Let_def set_device_def)
    have "in_flight (fst (dispatch_request request i c)) = in_flight c"
      "uc_next_attachment_generation (fst (dispatch_request request i c)) = uc_next_attachment_generation c"
      using None len by (simp_all add: dispatch_request_def Let_def set_device_def in_flight_def)
    then show ?thesis using t r by (simp add: table_ok_def)
  qed
qed

text \<open>Fields outside the table may change freely.\<close>

lemma table_ok_fields:
  assumes "table_ok n c" and "uc_devices c' = uc_devices c" and "same_queues c c'"
    and "uc_next_attachment_generation c' = uc_next_attachment_generation c"
  shows "table_ok n c'"
  by (rule table_ok_gentle [OF assms(1) gentle_fields [OF assms(2,4,3)]])

lemma find_index: "find P [a..<b] = Some i \<Longrightarrow> a \<le> i \<and> i < b \<and> P i"
  by (auto simp: find_Some_iff)

lemma table_ok_request:
  assumes t: "table_ok n c"
  shows "table_ok n (fst (snd (process_request requeued request c)))"
proof -
  have cancel: "table_ok n (c\<lparr>uc_sync_cancel_requested := True\<rparr>)"
    by (rule table_ok_fields [OF t]) (simp_all add: same_queues_def)
  have requeue: "table_ok n (c\<lparr>uc_control_requests := q\<rparr>)" for q
    by (rule table_ok_fields [OF t]) (simp_all add: same_queues_def)
  have dispatch: "table_ok n (fst (dispatch_request request i c))"
    if "find (\<lambda>i. selectable (device_at c i)) [1..<128] = Some i" for i
    by (rule table_ok_dispatch [OF t]) (use find_index [OF that] in auto)
  show ?thesis
    unfolding process_request_def using t cancel requeue dispatch by (auto split: option.splits)
qed

lemma table_ok_control_loop: "table_ok n c \<Longrightarrow> table_ok n (fst (control_loop requeued requests c))"
proof (induction requests arbitrary: c)
  case Nil
  then show ?case by (auto intro: table_ok_fields simp: same_queues_def)
next
  case (Cons request rest)
  let ?c = "c\<lparr>uc_control_requests := rest\<rparr>"
  have "table_ok n ?c" by (rule table_ok_fields [OF Cons.prems]) (simp_all add: same_queues_def)
  then have "table_ok n (fst (snd (process_request requeued request ?c)))" by (rule table_ok_request)
  then show ?case using Cons.IH by (simp add: case_prod_beta)
qed

lemma table_ok_open:
  assumes t: "table_ok n c" and pos: "0 < i" and i: "i < 128" and a: "ed_action (device_at c i) = DEVICE_ACTION_OPEN"
  shows "table_ok n (open_device_at opened now i c)"
proof -
  let ?d = "device_at c i"
  have so: "slot_ok n (set (in_flight c)) i ?d" by (rule slot_ok_at [OF t i])
  have free: "\<forall>w \<in> set (in_flight c). work_key w \<noteq> (i, ed_attachment_generation ?d)"
    using idle_slot [OF t i] a by blast
  have len: "i < length (uc_devices c)" using t i by (simp add: table_ok_def)
  have gen: "ed_attachment_generation ?d \<noteq> 0" using so a by (simp add: slot_ok_def)
  have vac: "slot_ok n (set (in_flight c)) i d"
    if "ed_attachment_generation d = ed_attachment_generation ?d" "ed_action d \<noteq> DEVICE_ACTION_OPEN" for d
    using that so free gen by (auto simp: slot_ok_def)
  have set: "table_ok n (set_device i f c)"
    if "ed_attachment_generation (f ?d) = ed_attachment_generation ?d" "ed_action (f ?d) \<noteq> DEVICE_ACTION_OPEN" for f
    by (rule table_ok_set [OF t]) (rule vac [OF that])
  show ?thesis
  proof (cases opened)
    case None
    then show ?thesis by (simp add: open_device_at_def Let_def set)
  next
    case (Some h)
    let ?f = "\<lambda>d. d\<lparr>ed_action := DEVICE_ACTION_NONE, ed_handle := opened, ed_scan_in_progress := True,
      ed_transaction_ready_after_us := now + 5000000\<rparr>"
    let ?work = "\<lparr>wk_kind = WORK_SCAN, wk_device = i, wk_pinned_handle = opened,
                 wk_attachment_generation = ed_attachment_generation ?d\<rparr>"
    let ?r = "open_device_at opened now i c"
    show ?thesis
    proof (cases "queue_send ?work (uc_scan_requests c)")
      case (Some q)
      then have q: "q = uc_scan_requests c @ [?work]" by (simp add: queue_send_def split: if_splits)
      have r: "?r = (set_device i ?f c)\<lparr>uc_scan_requests := q\<rparr>"
        using Some \<open>opened = Some h\<close> len by (simp add: open_device_at_def Let_def set_device_def)
      show ?thesis
        unfolding r
      proof (rule table_ok_add [OF t pos i free, where f = ?f and work = ?work])
        show "slot_ok n {} i (?f ?d)" using so gen by (simp add: slot_ok_def)
        show "holds (?f ?d) ?work" using \<open>opened = Some h\<close> by (simp add: holds_def)
        show "mset (in_flight ((set_device i ?f c)\<lparr>uc_scan_requests := q\<rparr>)) = mset (?work # in_flight c)"
          by (simp add: in_flight_def q set_device_def)
      qed (simp_all add: work_key_def gen)
    next
      case None
      have "?r = set_device i (\<lambda>d. (?f d)\<lparr>ed_scan_in_progress := False\<rparr>) c"
        using None \<open>opened = Some h\<close> len by (simp add: open_device_at_def Let_def set_device_def)
      then show ?thesis by (simp add: set)
    qed
  qed
qed

lemma gentle_detach: "gentle c (fst (detach_accessport now i c))"
  by (rule gentle_fields)
    (simp_all add: detach_accessport_def advance_topology_revision_def Let_def same_queues_def)

lemma table_ok_close:
  assumes t: "table_ok n c" and i: "i < 128"
    and a: "ed_action (device_at c i) = DEVICE_ACTION_CLOSE" "\<not> ed_scan_in_progress (device_at c i)"
  shows "table_ok n (fst (close_device_at now i c))"
proof -
  let ?c1 = "set_device i (\<lambda>d. d\<lparr>ed_action := DEVICE_ACTION_NONE, ed_eligible_accessport := False\<rparr>) c"
  let ?c2 = "if ed_is_accessport (device_at ?c1 i) then detach_accessport now i ?c1 else (?c1, [])"
  have so: "slot_ok n (set (in_flight c)) i (device_at c i)" by (rule slot_ok_at [OF t i])
  have "table_ok n ?c1"
    by (rule table_ok_set [OF t]) (use so a in \<open>auto simp: slot_ok_def holds_def\<close>)
  then have t2: "table_ok n (fst ?c2)"
    using table_ok_gentle [OF _ gentle_detach] by (cases "ed_is_accessport (device_at ?c1 i)") simp_all
  have busy: "\<not> ed_scan_in_progress (device_at (fst ?c2) i)"
  proof -
    have "i < length (uc_devices c)" using t i by (simp add: table_ok_def)
    then have b1: "\<not> ed_scan_in_progress (device_at ?c1 i)" using a(2) by (simp add: set_device_def)
    have "i < length (uc_devices ?c1)" using t i by (simp add: table_ok_def set_device_def)
    then have "kept (device_at ?c1 i) (device_at (fst (detach_accessport now i ?c1)) i)"
      using gentle_detach [of ?c1 now i] unfolding gentle_def by blast
    then show ?thesis using b1 by (simp add: kept_def)
  qed
  define c3 where "c3 = (if uc_conflict_latched (fst ?c2) \<and> eligible_accessport_count (fst ?c2) = 0
    then (fst ?c2)\<lparr>uc_conflict_latched := False\<rparr> else fst ?c2)"
  define c4 where "c4 = (if \<not> ed_polite_disconnect_sent (device_at c3 i) \<and> eligible_accessport_count c3 = 0
    then c3\<lparr>uc_write_recovery_required := False\<rparr> else c3)"
  have t4: "table_ok n c4"
    by (rule table_ok_fields [OF t2]) (simp_all add: c3_def c4_def same_queues_def)
  have "fst (close_device_at now i c) = set_device i (\<lambda>_. device_zero) c4"
    by (simp add: close_device_at_def Let_def case_prod_beta c3_def c4_def)
  moreover have "\<not> ed_scan_in_progress (device_at c4 i)" using busy by (simp add: c3_def c4_def)
  ultimately show ?thesis using table_ok_reset [OF t4] by simp
qed

lemma table_ok_inspect_device:
  "table_ok n c \<Longrightarrow> 0 < i \<Longrightarrow> i < 128 \<Longrightarrow> table_ok n (fst (inspect_device opened now i c))"
  by (auto simp: inspect_device_def Let_def table_ok_open table_ok_close split: device_action.split)

lemma table_ok_inspect: "table_ok n c \<Longrightarrow> \<forall>i \<in> set is. 0 < i \<and> i < 128 \<Longrightarrow> table_ok n (fst (inspect_loop opened now is c))"
proof (induction "is" arbitrary: c)
  case (Cons i "is")
  then have "table_ok n (fst (inspect_device (opened i) (now i) i c))" by (simp add: table_ok_inspect_device)
  then show ?case using Cons by (simp add: case_prod_beta)
qed simp

end
