(* ===== verification/Usb_Safety.thy ===== *)
theory Usb_Safety
  imports Usb_Table
begin

text \<open>
  What holds in every state that the three tasks of the AccessPort transport can reach
  (Usb_Topology): the table is in order, two eligible devices latch the conflict and stop the
  transaction, and a device with work in flight is not closed.
\<close>

section \<open>The table is in order in every reachable state\<close>

lemma table_ok_start: "table_ok 0 client_zero"
  by (simp add: table_ok_def client_zero_def works_ok_def in_flight_def slot_ok_def device_zero_def)

lemma slot_ok_closed: "slot_ok n ws i d \<Longrightarrow> ed_handle d \<noteq> None \<Longrightarrow> slot_ok n ws i (d\<lparr>ed_action := DEVICE_ACTION_CLOSE\<rparr>)"
  by (auto simp: slot_ok_def holds_def)

lemma table_ok_gone: "table_ok n c \<Longrightarrow> table_ok n (client_event_callback (DEV_GONE handle) c)"
proof (cases "find (\<lambda>i. ed_handle (device_at c i) = Some handle) [1..<128]")
  case (Some i)
  assume t: "table_ok n c"
  from find_index [OF Some] have i: "i < 128" "ed_handle (device_at c i) = Some handle" by auto
  have "table_ok n (set_device i (\<lambda>d. d\<lparr>ed_action := DEVICE_ACTION_CLOSE\<rparr>) c)"
    by (rule table_ok_set [OF t]) (use slot_ok_closed [OF slot_ok_at [OF t i(1)]] i(2) in simp)
  then show ?thesis using Some by (simp add: client_event_callback_def)
qed (simp add: client_event_callback_def)

lemma next_generation_fresh:
  assumes "Suc n < 2 ^ 32" and "unat g = n"
  shows "unat (next_generation g) = Suc n"
proof -
  have "unat (g + 1) = Suc n" using assms by (simp add: unat_word_ariths)
  moreover from this have "g + 1 \<noteq> 0" by auto
  ultimately show ?thesis by (simp add: next_generation_def Let_def)
qed

lemma slot_ok_mono: "slot_ok n ws i d \<Longrightarrow> n \<le> m \<Longrightarrow> slot_ok m ws i d"
  by (auto simp: slot_ok_def)

lemma table_ok_attach:
  assumes t: "table_ok n c" and n: "Suc n < 2 ^ 32" and a: "address \<le> 127"
  shows "table_ok (Suc n) (client_event_callback (NEW_DEV address) c)"
proof -
  let ?g = "next_generation (uc_next_attachment_generation c)" and ?i = "unat address"
  let ?d = "device_zero\<lparr>ed_address := address, ed_attachment_generation := ?g, ed_action := DEVICE_ACTION_OPEN\<rparr>"
  let ?c = "client_event_callback (NEW_DEV address) c"
  have g: "unat ?g = Suc n" using t n by (intro next_generation_fresh) (simp_all add: table_ok_def)
  have i: "?i < 128" using a by (simp add: word_le_nat_alt)
  have len: "?i < length (uc_devices c)" using t i by (simp add: table_ok_def)
  have r: "?c = (set_device ?i (\<lambda>_. ?d) c)\<lparr>uc_next_attachment_generation := ?g,
      uc_detach_recovery_pending := False, uc_detach_recovery_deadline_us := 0\<rparr>"
    using a by (simp add: client_event_callback_def Let_def)
  have fl: "in_flight ?c = in_flight c" unfolding r by (simp add: in_flight_def)
  have old: "\<forall>work \<in> set (in_flight c). wk_attachment_generation work \<noteq> ?g"
  proof
    fix work assume "work \<in> set (in_flight c)"
    then have "unat (wk_attachment_generation work) \<le> n" using t by (simp add: table_ok_def works_ok_def)
    then show "wk_attachment_generation work \<noteq> ?g" using g by auto
  qed
  have new: "slot_ok (Suc n) (set (in_flight c)) ?i ?d"
    using old g by (auto simp: slot_ok_def device_zero_def work_key_def)
  have "slot_ok (Suc n) (set (in_flight c)) j (device_at ?c j)" if j: "j < 128" for j
  proof (cases "j = ?i")
    case True
    then show ?thesis using new len by (simp add: r device_at_set)
  next
    case False
    then have "device_at ?c j = device_at c j" using len by (simp add: r device_at_set)
    then show ?thesis using slot_ok_mono [OF slot_ok_at [OF t j]] by simp
  qed
  moreover have "works_ok (Suc n) (in_flight c)" using t by (auto simp: table_ok_def works_ok_def)
  moreover have "length (uc_devices ?c) = 128" "unat (uc_next_attachment_generation ?c) = Suc n"
    using t g by (simp_all add: r table_ok_def)
  ultimately show ?thesis unfolding table_ok_def fl by blast
qed

lemma gentle_done: "gentle c (transaction_done work disc recovery c)"
proof -
  have "gentle c (c\<lparr>uc_write_recovery_required := uc_write_recovery_required c \<or> recovery\<rparr>)"
    by (rule gentle_fields) (simp_all add: same_queues_def)
  moreover have "gentle c ((set_device i (\<lambda>d. d\<lparr>ed_polite_disconnect_sent := b\<rparr>) c)
      \<lparr>uc_write_recovery_required := uc_write_recovery_required c \<or> recovery\<rparr>)" for i b
    by (rule gentle_trans [OF gentle_set gentle_fields]) (simp_all add: kept_def same_queues_def)
  ultimately show ?thesis by (simp add: transaction_done_def split: option.split)
qed

lemma table_ok_step:
  assumes "usb_step c calls c'" and t: "table_ok n c"
  shows "table_ok n c'"
  using assms(1)
proof cases
  case gone
  then show ?thesis using table_ok_gone [OF t] by simp
next
  case other
  then show ?thesis using t by (simp add: client_event_callback_def)
next
  case (descriptor work rest view c1)
  have g: "gentle (c\<lparr>uc_scan_requests := rest\<rparr>) c1"
    using gentle_log [of "c\<lparr>uc_scan_requests := rest\<rparr>" view "wk_device work"] descriptor(4) by simp
  show ?thesis
    by (rule table_ok_moved [OF t g])
      (use descriptor g in \<open>simp_all add: in_flight_def gentle_def same_queues_def\<close>)
next
  case (refused work rest)
  show ?thesis
    by (rule table_ok_moved [OF t gentle_refl]) (use refused in \<open>simp_all add: in_flight_def\<close>)
next
  case (started work rest)
  have "gentle c (set_device (wk_device work) (\<lambda>d. d\<lparr>ed_transaction_ready_after_us := 0\<rparr>) c)"
    by (rule gentle_set) (simp add: kept_def)
  then show ?thesis
    by (rule table_ok_moved [OF t]) (use started in \<open>simp_all add: in_flight_def set_device_def\<close>)
next
  case (finished work disc recovery)
  have g: "gentle c (transaction_done work disc recovery c)" by (rule gentle_done)
  show ?thesis
    by (rule table_ok_moved [OF t g])
      (use finished g in \<open>simp_all add: in_flight_def gentle_def same_queues_def\<close>)
next
  case (posted refused request err)
  then have "c' = c \<or> (\<exists>q. c' = c\<lparr>uc_control_requests := q\<rparr>)"
    by (auto simp: post_request_def split: if_splits option.splits)
  then show ?thesis by (auto intro: table_ok_fields [OF t] simp: t same_queues_def)
next
  case collect
  then show ?thesis using table_ok_collect_results [OF t] by simp
next
  case (control requeued)
  then show ?thesis
    using table_ok_control_loop [OF t, of requeued "uc_control_requests c"]
    by (simp add: process_control_requests_def)
next
  case (inspect opened now)
  then show ?thesis
    using table_ok_inspect [OF t, of "[1..<128]" opened now] by (simp add: inspect_pending_devices_def)
next
  case (recover now cycled)
  have "gentle c c'" using recover by (auto simp: recover_root_port_def Let_def same_queues_def
      intro!: gentle_fields split: if_splits)
  then show ?thesis by (rule table_ok_gentle [OF t])
qed

lemma reachable_table_ok: "usb_reaches n c \<Longrightarrow> n < 2 ^ 32 \<Longrightarrow> table_ok n c"
proof (induction rule: usb_reaches.induct)
  case start
  show ?case by (rule table_ok_start)
next
  case (step n c calls c')
  then show ?case using table_ok_step by blast
next
  case (attach n c address)
  then show ?case by (intro table_ok_attach) auto
qed

section \<open>The conflict latch\<close>

lemma length_filter_mono: "(\<And>x. x \<in> set xs \<Longrightarrow> P x \<Longrightarrow> Q x) \<Longrightarrow> length (filter P xs) \<le> length (filter Q xs)"
  by (induction xs) (auto intro: le_SucI)

lemma eligible_bound: "eligible_accessport_count c \<le> 127"
  unfolding eligible_accessport_count_def by (rule order_trans [OF length_filter_le]) simp

lemma bounded_count: "unat (bounded_eligible_count c) = eligible_accessport_count c"
  using eligible_bound [of c] by (simp add: bounded_eligible_count_def Let_def unsigned_of_nat take_bit_nat_eq_self)

lemma calm_count: "calm c c' \<Longrightarrow> eligible_accessport_count c' \<le> eligible_accessport_count c"
  unfolding eligible_accessport_count_def by (rule length_filter_mono) (auto simp: calm_def)

lemma conflict_ok_calm: "conflict_ok c \<Longrightarrow> calm c c' \<Longrightarrow> conflict_ok c'"
  using calm_count [of c c'] by (auto simp: conflict_ok_def calm_def)

lemma calm_advance: "calm c (advance_topology_revision c)"
  by (rule calm_fields) (simp_all add: advance_topology_revision_def Let_def)

lemma conflict_ok_multiple:
  assumes "uc_conflict_latched c \<longrightarrow> uc_sync_cancel_requested c"
    and "2 \<le> eligible_accessport_count c \<or> uc_conflict_latched c"
  shows "conflict_ok (fst (publish_multiple_accessports c))"
proof -
  have "2 \<le> eligible_accessport_count c \<longleftrightarrow> \<not> bounded_eligible_count c < 2"
    using bounded_count [of c] by (auto simp: word_less_nat_alt)
  then show ?thesis
    using assms by (auto simp: publish_multiple_accessports_def Let_def conflict_ok_def eligible_accessport_count_def)
qed

lemma conflict_ok_accept:
  assumes "conflict_ok c"
  shows "conflict_ok (fst (accept_device i c))"
proof -
  let ?c = "advance_topology_revision (set_device i (\<lambda>d. d\<lparr>ed_eligible_accessport := True\<rparr>) c)"
  have l: "uc_conflict_latched ?c \<longrightarrow> uc_sync_cancel_requested ?c"
    using assms by (simp add: conflict_ok_def advance_topology_revision_def Let_def)
  have n: "2 \<le> eligible_accessport_count ?c \<longleftrightarrow> 2 \<le> bounded_eligible_count ?c"
    using bounded_count [of ?c] by (simp add: word_le_nat_alt)
  show ?thesis
  proof (cases "2 \<le> eligible_accessport_count ?c \<or> uc_conflict_latched ?c")
    case True
    then have "fst (accept_device i c) = fst (publish_multiple_accessports ?c)"
      using n by (simp add: accept_device_def Let_def)
    then show ?thesis using conflict_ok_multiple [OF l True] by simp
  next
    case False
    then have "fst (accept_device i c) = ?c" using n by (simp add: accept_device_def Let_def)
    then show ?thesis using False by (simp add: conflict_ok_def)
  qed
qed

lemma conflict_ok_log:
  assumes "conflict_ok c"
  shows "conflict_ok (fst (log_open_device view i c))"
proof (rule log_open_cases [of c view i])
  fix c1 assume q: "calm c c1" and r: "fst (log_open_device view i c) = c1"
  show ?thesis unfolding r by (rule conflict_ok_calm [OF assms q])
next
  fix c1 assume q: "calm c c1" and r: "fst (log_open_device view i c) = fst (accept_device i c1)"
  show ?thesis unfolding r by (rule conflict_ok_accept [OF conflict_ok_calm [OF assms q]])
qed

lemma calm_gone: "calm c (client_event_callback (DEV_GONE handle) c)"
  by (auto simp: client_event_callback_def counts_def intro!: calm_set split: option.split)

lemma calm_attach: "calm c (client_event_callback (NEW_DEV address) c)"
proof -
  have "calm c (set_device (unat address) (\<lambda>_. d) c)" if "ed_handle d = None" for d
    by (rule calm_set) (simp add: counts_def that)
  then have q: "calm c (set_device (unat address) (\<lambda>_. device_zero\<lparr>ed_address := address,
      ed_attachment_generation := g, ed_action := DEVICE_ACTION_OPEN\<rparr>) c)" for g
    by (simp add: device_zero_def)
  show ?thesis
    by (auto simp: client_event_callback_def Let_def intro!: calm_trans [OF q calm_fields])
qed

lemma calm_done: "calm c (transaction_done work disc recovery c)"
proof -
  have "calm c (case disc of None \<Rightarrow> c
      | Some b \<Rightarrow> set_device (wk_device work) (\<lambda>d. d\<lparr>ed_polite_disconnect_sent := b\<rparr>) c)"
    by (auto simp: counts_def intro!: calm_set split: option.split)
  then show ?thesis unfolding transaction_done_def by (rule calm_trans) (rule calm_fields; simp)
qed

lemma calm_collected: "calm c (work_collected work c)"
  by (auto simp: work_collected_def counts_def intro!: calm_set)

lemma calm_foldl: "calm c (foldl (\<lambda>c work. work_collected work c) c ws)"
  by (induction ws arbitrary: c) (auto intro: calm_trans calm_collected)

lemma calm_collect: "calm c (collect_scan_results c)"
proof -
  have a: "calm c (c\<lparr>uc_scan_results := []\<rparr>)" "calm c (c\<lparr>uc_transaction_results := []\<rparr>)" for c
    by (rule calm_fields; simp)+
  show ?thesis
    unfolding collect_scan_results_def Let_def
    by (rule calm_trans [OF calm_trans [OF a(1) calm_foldl] calm_trans [OF a(2) calm_foldl]])
qed

lemma calm_dispatch:
  assumes "\<not> uc_conflict_latched c"
  shows "calm c (fst (dispatch_request request i c))"
proof -
  let ?c = "if keeps_cancel request then c else c\<lparr>uc_sync_cancel_requested := False\<rparr>"
  have a: "calm c ?c" using assms by (simp add: calm_def)
  have b: "calm d (set_device i (\<lambda>d. d\<lparr>ed_scan_in_progress := b\<rparr>) d)" for d b
    by (rule calm_set) (simp add: counts_def)
  have q: "calm d (d\<lparr>uc_transaction_requests := q\<rparr>)" for d q by (rule calm_fields; simp)
  let ?c2 = "set_device i (\<lambda>d. d\<lparr>ed_scan_in_progress := True\<rparr>) ?c"
  have c2: "calm c ?c2" by (rule calm_trans [OF a b])
  show ?thesis
    using calm_trans [OF c2 q] calm_trans [OF c2 b]
    by (simp add: dispatch_request_def Let_def split: option.split split del: if_split)
qed

lemma calm_request: "calm c (fst (snd (process_request requeued request c)))"
proof -
  have "calm c (c\<lparr>uc_sync_cancel_requested := True\<rparr>)" "calm c (c\<lparr>uc_control_requests := q\<rparr>)" for q
    by (rule calm_fields; simp)+
  then show ?thesis by (auto simp: process_request_def intro: calm_dispatch split: option.split)
qed

lemma calm_control_loop: "calm c (fst (control_loop requeued requests c))"
proof (induction requests arbitrary: c)
  case Nil
  show ?case by (simp add: calm_fields)
next
  case (Cons request rest)
  have "calm c (c\<lparr>uc_control_requests := rest\<rparr>)" by (simp add: calm_fields)
  from calm_trans [OF this calm_request] have
    "calm c (fst (snd (process_request requeued request (c\<lparr>uc_control_requests := rest\<rparr>))))" .
  then show ?case using Cons.IH by (auto simp: case_prod_beta intro: calm_trans)
qed

lemma calm_open:
  assumes "\<not> ed_eligible_accessport (device_at c i)"
  shows "calm c (open_device_at opened now i c)"
proof -
  let ?c = "set_device i (\<lambda>d. d\<lparr>ed_action := DEVICE_ACTION_NONE, ed_handle := opened\<rparr>) c"
  have a: "calm c ?c" by (rule calm_set) (simp add: counts_def assms)
  have b: "calm d (set_device i (\<lambda>d. d\<lparr>ed_scan_in_progress := True, ed_transaction_ready_after_us := t\<rparr>) d)" for d t
    by (rule calm_set) (simp add: counts_def)
  have b': "calm d (set_device i (\<lambda>d. d\<lparr>ed_scan_in_progress := False\<rparr>) d)" for d
    by (rule calm_set) (simp add: counts_def)
  have q: "calm d (d\<lparr>uc_scan_requests := q\<rparr>)" for d q by (rule calm_fields; simp)
  show ?thesis
    using a calm_trans [OF calm_trans [OF a b] q] calm_trans [OF calm_trans [OF a b] b']
    by (cases opened) (simp_all add: open_device_at_def Let_def split: option.split)
qed

lemma calm_detach: "calm c (fst (detach_accessport now i c))"
  by (rule calm_fields) (simp_all add: detach_accessport_def advance_topology_revision_def Let_def)

text \<open>The closing of a device: a quiet change, the two latches, and the reset of its entry.\<close>

lemma close_decompose:
  obtains c2 where "calm c c2" and "uc_write_recovery_required c2 = uc_write_recovery_required c"
    and "ed_polite_disconnect_sent (device_at c2 i) = ed_polite_disconnect_sent (device_at c i)"
    and "fst (close_device_at now i c) = set_device i (\<lambda>_. device_zero)
      (c2\<lparr>uc_conflict_latched := uc_conflict_latched c2 \<and> eligible_accessport_count c2 \<noteq> 0,
          uc_write_recovery_required := uc_write_recovery_required c2
            \<and> (ed_polite_disconnect_sent (device_at c2 i) \<or> eligible_accessport_count c2 \<noteq> 0)\<rparr>)"
proof -
  let ?c1 = "set_device i (\<lambda>d. d\<lparr>ed_action := DEVICE_ACTION_NONE, ed_eligible_accessport := False\<rparr>) c"
  define c2 where "c2 = (if ed_is_accessport (device_at ?c1 i) then fst (detach_accessport now i ?c1) else ?c1)"
  have dev: "uc_devices c2 = uc_devices ?c1" "uc_write_recovery_required c2 = uc_write_recovery_required c"
    by (simp_all add: c2_def detach_accessport_def advance_topology_revision_def Let_def set_device_def)
  have "calm c ?c1" by (rule calm_set) (simp add: counts_def)
  moreover have "calm ?c1 c2" by (simp add: c2_def calm_detach)
  ultimately have c: "calm c c2" by (rule calm_trans)
  have p: "ed_polite_disconnect_sent (device_at c2 i) = ed_polite_disconnect_sent (device_at c i)"
    unfolding dev by (cases "i < length (uc_devices c)") (simp_all add: set_device_def list_update_beyond)
  have n: "eligible_accessport_count (c2\<lparr>uc_conflict_latched := l\<rparr>) = eligible_accessport_count c2" for l
    by (simp add: eligible_accessport_count_def)
  define c3 where "c3 = (if uc_conflict_latched c2 \<and> eligible_accessport_count c2 = 0
    then c2\<lparr>uc_conflict_latched := False\<rparr> else c2)"
  define c4 where "c4 = (if \<not> ed_polite_disconnect_sent (device_at c3 i) \<and> eligible_accessport_count c3 = 0
    then c3\<lparr>uc_write_recovery_required := False\<rparr> else c3)"
  have "c4 = c2\<lparr>uc_conflict_latched := uc_conflict_latched c2 \<and> eligible_accessport_count c2 \<noteq> 0,
      uc_write_recovery_required := uc_write_recovery_required c2
        \<and> (ed_polite_disconnect_sent (device_at c2 i) \<or> eligible_accessport_count c2 \<noteq> 0)\<rparr>"
    by (rule usb_client.equality) (auto simp: c4_def c3_def n)
  moreover have "fst (close_device_at now i c) = set_device i (\<lambda>_. device_zero) c4"
    by (simp add: close_device_at_def Let_def case_prod_beta c2_def c3_def c4_def)
  ultimately have "fst (close_device_at now i c) = set_device i (\<lambda>_. device_zero)
      (c2\<lparr>uc_conflict_latched := uc_conflict_latched c2 \<and> eligible_accessport_count c2 \<noteq> 0,
          uc_write_recovery_required := uc_write_recovery_required c2
            \<and> (ed_polite_disconnect_sent (device_at c2 i) \<or> eligible_accessport_count c2 \<noteq> 0)\<rparr>)"
    by simp
  then show ?thesis by (rule that [OF c dev(2) p])
qed

lemma conflict_ok_close:
  assumes "conflict_ok c"
  shows "conflict_ok (fst (close_device_at now i c))"
proof -
  obtain c2 where c2: "calm c c2" and r: "fst (close_device_at now i c) = set_device i (\<lambda>_. device_zero)
      (c2\<lparr>uc_conflict_latched := uc_conflict_latched c2 \<and> eligible_accessport_count c2 \<noteq> 0,
          uc_write_recovery_required := uc_write_recovery_required c2
            \<and> (ed_polite_disconnect_sent (device_at c2 i) \<or> eligible_accessport_count c2 \<noteq> 0)\<rparr>)"
    (is "_ = set_device i _ ?c3") by (rule close_decompose [of c i now])
  have "conflict_ok c2" by (rule conflict_ok_calm [OF assms c2])
  then have "conflict_ok ?c3" by (auto simp: conflict_ok_def eligible_accessport_count_def)
  moreover have "calm ?c3 (set_device i (\<lambda>_. device_zero) ?c3)"
    by (rule calm_set) (simp add: counts_def device_zero_def)
  ultimately show ?thesis unfolding r by (rule conflict_ok_calm)
qed

lemma conflict_ok_inspect_device:
  assumes "table_ok n c" and "i < 128" and o: "conflict_ok c"
  shows "conflict_ok (fst (inspect_device opened now i c))"
proof (cases "ed_action (device_at c i)")
  case DEVICE_ACTION_OPEN
  then have "\<not> ed_eligible_accessport (device_at c i)" using slot_ok_at [OF assms(1,2)] by (simp add: slot_ok_def)
  then show ?thesis
    using DEVICE_ACTION_OPEN conflict_ok_calm [OF o calm_open] by (simp add: inspect_device_def)
qed (simp_all add: inspect_device_def Let_def o conflict_ok_close)

lemma conflict_ok_inspect:
  "table_ok n c \<Longrightarrow> conflict_ok c \<Longrightarrow> \<forall>i \<in> set is. 0 < i \<and> i < 128 \<Longrightarrow> conflict_ok (fst (inspect_loop opened now is c))"
proof (induction "is" arbitrary: c)
  case (Cons i "is")
  then have "table_ok n (fst (inspect_device (opened i) (now i) i c))"
    "conflict_ok (fst (inspect_device (opened i) (now i) i c))"
    by (simp_all add: table_ok_inspect_device conflict_ok_inspect_device)
  then show ?case using Cons by (simp add: case_prod_beta)
qed simp

lemma conflict_ok_step:
  assumes "usb_step c calls c'" and t: "table_ok n c" and o: "conflict_ok c"
  shows "conflict_ok c'"
  using assms(1)
proof cases
  case (descriptor work rest view c1)
  have "conflict_ok (c\<lparr>uc_scan_requests := rest\<rparr>)" by (rule conflict_ok_calm [OF o]) (simp add: calm_fields)
  then have "conflict_ok c1" using conflict_ok_log descriptor(4) by (metis fst_conv)
  then show ?thesis unfolding descriptor(1) by (rule conflict_ok_calm) (simp add: calm_fields)
next
  case (started work rest)
  have "calm c (set_device (wk_device work) (\<lambda>d. d\<lparr>ed_transaction_ready_after_us := 0\<rparr>) c)"
    by (rule calm_set) (simp add: counts_def)
  then show ?thesis using started by (intro conflict_ok_calm [OF o]) (simp add: calm_def)
next
  case (finished work disc recovery)
  have "calm (transaction_done work disc recovery c) c'" unfolding finished(2) by (rule calm_fields; simp)
  from calm_trans [OF calm_done this] have "calm c c'" .
  then show ?thesis by (rule conflict_ok_calm [OF o])
next
  case (inspect opened now)
  then show ?thesis
    using conflict_ok_inspect [OF t o, of "[1..<128]" opened now] by (simp add: inspect_pending_devices_def)
next
  case (control requeued)
  then have "calm c c'" using calm_control_loop [of c requeued] by (metis fst_conv process_control_requests_def)
  then show ?thesis by (rule conflict_ok_calm [OF o])
next
  case (recover now cycled)
  then have "calm c c'" by (auto simp: recover_root_port_def Let_def intro!: calm_fields split: if_splits)
  then show ?thesis by (rule conflict_ok_calm [OF o])
next
  case (posted refused request err)
  then have "calm c c'" by (auto simp: post_request_def intro!: calm_fields split: if_splits option.splits)
  then show ?thesis by (rule conflict_ok_calm [OF o])
next
  case gone
  then show ?thesis using conflict_ok_calm [OF o calm_gone] by simp
next
  case other
  then show ?thesis using o by (simp add: client_event_callback_def)
next
  case (refused work rest)
  then show ?thesis by (intro conflict_ok_calm [OF o]) (simp add: calm_fields)
next
  case collect
  then show ?thesis using conflict_ok_calm [OF o calm_collect] by simp
qed

lemma reachable_conflict_ok: "usb_reaches n c \<Longrightarrow> n < 2 ^ 32 \<Longrightarrow> conflict_ok c"
proof (induction rule: usb_reaches.induct)
  case start
  have "eligible_accessport_count client_zero = 0"
    by (simp add: eligible_accessport_count_def client_zero_def counts_def device_zero_def)
  then show ?case by (simp add: conflict_ok_def client_zero_def)
next
  case (step n c calls c')
  then show ?case using conflict_ok_step [OF _ reachable_table_ok] by blast
next
  case (attach n c address)
  then show ?case by (intro conflict_ok_calm [OF _ calm_attach]) auto
qed

end
