(* ===== verification/Usb_Runs.thy ===== *)
theory Usb_Runs
  imports Usb_Safety
begin

text \<open>
  Concrete runs of the enumeration client (Usb_Topology) with one and with two devices, evaluated
  step by step: two AccessPorts at once; an upload whose device leaves while it waits; an upload
  that fails behind a polite close, followed by a device that is no AccessPort.
\<close>

section \<open>Tables of two devices\<close>

text \<open>A table that only uses the first two addresses.\<close>

definition demo_table :: "enumerated_device \<Rightarrow> enumerated_device \<Rightarrow> enumerated_device list" where
  "demo_table d e = device_zero # d # e # replicate 125 device_zero"

lemma demo_upt:
  obtains "is" where "[1..<128] = 1 # 2 # is" "\<forall>i \<in> set is. 3 \<le> i \<and> i < (128 :: nat)"
proof -
  have "[1..<128] = 1 # 2 # [3..<128 :: nat]" by (simp add: upt_rec)
  moreover have "\<forall>i \<in> set [3..<128]. 3 \<le> i \<and> i < (128 :: nat)" unfolding set_upt by simp
  ultimately show ?thesis by (rule that)
qed

lemma demo_table_nth:
  "demo_table d e ! 1 = d" "demo_table d e ! Suc 0 = d" "demo_table d e ! 2 = e"
  "3 \<le> i \<Longrightarrow> i < 128 \<Longrightarrow> demo_table d e ! i = device_zero"
  by (simp_all add: demo_table_def nth_Cons')

lemma demo_table_update:
  "(demo_table d e)[1 := x] = demo_table x e" "(demo_table d e)[Suc 0 := x] = demo_table x e"
  "(demo_table d e)[2 := x] = demo_table d x"
  by (simp_all add: demo_table_def numeral_2_eq_2)

lemma demo_start: "replicate 128 device_zero = demo_table device_zero device_zero"
  by (simp add: demo_table_def numeral_eq_Suc)

lemma demo_find:
  assumes "\<not> P device_zero"
  shows "find (\<lambda>i. P (demo_table d e ! i)) [1..<128] = (if P d then Some 1 else if P e then Some 2 else None)"
proof -
  obtain "is" where "is": "[1..<128] = 1 # 2 # is" "\<forall>i \<in> set is. 3 \<le> i \<and> i < 128" by (rule demo_upt)
  then have "find (\<lambda>i. P (demo_table d e ! i)) is = None"
    using assms by (auto simp: find_None_iff demo_table_nth)
  then show ?thesis unfolding "is"(1) by (simp add: demo_table_nth)
qed

lemma demo_find_handle:
  "find (\<lambda>i. ed_handle (demo_table d e ! i) = Some h) [Suc 0..<128]
   = (if ed_handle d = Some h then Some 1 else if ed_handle e = Some h then Some 2 else None)"
  using demo_find [of "\<lambda>d. ed_handle d = Some h"] by (simp add: device_zero_def)

lemma demo_find_selectable:
  "find (\<lambda>i. selectable (demo_table d e ! i)) [Suc 0..<128]
   = (if selectable d then Some 1 else if selectable e then Some 2 else None)"
  using demo_find [of selectable] by (simp add: device_zero_def selectable_def)

lemma demo_count:
  assumes "uc_devices c = demo_table d e"
  shows "eligible_accessport_count c = (if counts d then 1 else 0) + (if counts e then 1 else 0)"
proof -
  obtain "is" where "is": "[1..<128] = 1 # 2 # is" "\<forall>i \<in> set is. 3 \<le> i \<and> i < 128" by (rule demo_upt)
  then have "filter (\<lambda>i. counts (demo_table d e ! i)) is = []"
    by (auto simp: filter_empty_conv demo_table_nth counts_def device_zero_def)
  then show ?thesis unfolding eligible_accessport_count_def assms "is"(1) by (simp add: demo_table_nth)
qed

lemma demo_inspect:
  assumes "uc_devices (fst (inspect_device (opened 2) (now 2) 2 (fst (inspect_device (opened 1) (now 1) 1 c)))) = demo_table d e"
  shows "inspect_pending_devices opened now c =
    (let r = inspect_device (opened 1) (now 1) 1 c; s = inspect_device (opened 2) (now 2) 2 (fst r)
     in (fst s, snd r @ snd s))"
proof -
  have idle: "inspect_loop opened now is c' = (c', [])"
    if "uc_devices c' = demo_table d e" "\<forall>i \<in> set is. 3 \<le> i \<and> i < 128" for "is" c'
    using that(2)
  proof (induction "is")
    case (Cons i "is")
    then have "ed_action (device_at c' i) = DEVICE_ACTION_NONE" by (simp add: that(1) demo_table_nth device_zero_def)
    then show ?case using Cons by (simp add: inspect_device_def)
  qed simp
  obtain "is" where "is": "[1..<128] = 1 # 2 # is" "\<forall>i \<in> set is. 3 \<le> i \<and> i < 128" by (rule demo_upt)
  show ?thesis
    unfolding inspect_pending_devices_def "is"(1) using idle [OF assms "is"(2)]
    by (simp add: case_prod_beta Let_def)
qed

lemma demo_bounded:
  "uc_devices c = demo_table d e \<Longrightarrow>
   bounded_eligible_count c = (if counts d then 1 else 0) + (if counts e then 1 else 0)"
  by (simp add: bounded_eligible_count_def demo_count)

section \<open>The runs\<close>

text \<open>A view of A device of a vendor, and an upload.\<close>

definition demo_view :: "u16 \<Rightarrow> host_view" where
  "demo_view vendor = \<lparr>hv_info = Some (True, 1), hv_device = Some (vendor, 0x0121, 1),
     hv_config = Some [9, 2, 32, 0, 1, 1, 0, 128, 50,  9, 4, 0, 0, 2, 255, 0, 0, 0,
       7, 5, 3, 2, 0, 2, 0,  7, 5, 0x82, 2, 0, 2, 0], hv_now = 0\<rparr>"

lemma demo_configuration: "inspect_config_descriptor (the (hv_config (demo_view v))) (Some 0) = (True, Some 512)"
  by code_simp

lemma demo_view_sel:
  "hv_info (demo_view v) = Some (True, 1)" "hv_device (demo_view v) = Some (v, 0x0121, 1)"
  "hv_now (demo_view v) = 0"
  by (simp_all add: demo_view_def)

lemma demo_active: "active_configuration (demo_view v) d = d\<lparr>id_bulk_max_packet_size := 512, id_matching_configuration_count := 1\<rparr>"
  using demo_configuration [of v] by (simp add: active_configuration_def demo_view_def)

definition demo_request :: map_upload_request where
  "demo_request = \<lparr>mu_name = [0x61], mu_path = [0x61], mu_expected_part_number = [0x31],
     mu_expected_serial = [0x32], mu_modification_time = 0, mu_size = 1, mu_source_sha256 = replicate 32 0\<rparr>"

text \<open>A device that was announced, opened, and accepted, with the work on it.\<close>

definition demo_new :: "u8 \<Rightarrow> enumerated_device" where
  "demo_new i = device_zero\<lparr>ed_address := i, ed_attachment_generation := ucast i, ed_action := DEVICE_ACTION_OPEN\<rparr>"

definition demo_open :: "u8 \<Rightarrow> enumerated_device" where
  "demo_open i = (demo_new i)\<lparr>ed_action := DEVICE_ACTION_NONE, ed_handle := Some (unat i),
     ed_scan_in_progress := True, ed_transaction_ready_after_us := 5000000\<rparr>"

definition demo_accepted :: "u8 \<Rightarrow> enumerated_device" where
  "demo_accepted i = (demo_open i)\<lparr>ed_is_accessport := True, ed_eligible_accessport := True,
     ed_identity := \<lparr>id_vendor_id = 0x1a84, id_product_id = 0x0121, id_address = i,
       id_configuration_count = 1, id_matching_configuration_count = 1, id_interface_number = 0,
       id_bulk_out_endpoint = BULK_OUT, id_bulk_in_endpoint = BULK_IN, id_bulk_max_packet_size = 512,
       id_attachment_generation = ucast i, id_high_speed = True\<rparr>\<rparr>"

definition demo_work :: "work_kind \<Rightarrow> u8 \<Rightarrow> descriptor_work" where
  "demo_work kind i = \<lparr>wk_kind = kind, wk_device = unat i, wk_pinned_handle = Some (unat i),
     wk_attachment_generation = ucast i\<rparr>"

lemmas demo_device = demo_new_def demo_open_def demo_accepted_def device_zero_def demo_work_def

text \<open>The first device attaches and is accepted.\<close>

definition demo1 :: usb_client where
  "demo1 = client_zero\<lparr>uc_devices := demo_table (demo_new 1) device_zero, uc_next_attachment_generation := 1\<rparr>"

definition demo2 :: usb_client where
  "demo2 = demo1\<lparr>uc_devices := demo_table (demo_open 1) device_zero, uc_scan_requests := [demo_work WORK_SCAN 1]\<rparr>"

definition demo3 :: usb_client where
  "demo3 = demo2\<lparr>uc_devices := demo_table (demo_accepted 1) device_zero, uc_scan_requests := [],
     uc_scan_results := [demo_work WORK_SCAN 1], uc_next_topology_revision := 1\<rparr>"

text \<open>A second one, while the first still reports.\<close>

definition demo4 :: usb_client where
  "demo4 = demo3\<lparr>uc_devices := demo_table (demo_accepted 1) (demo_new 2), uc_next_attachment_generation := 2\<rparr>"

definition demo5 :: usb_client where
  "demo5 = demo4\<lparr>uc_devices := demo_table (demo_accepted 1) (demo_open 2), uc_scan_requests := [demo_work WORK_SCAN 2]\<rparr>"

definition demo6 :: usb_client where
  "demo6 = demo5\<lparr>uc_devices := demo_table (demo_accepted 1) (demo_accepted 2), uc_scan_requests := [],
     uc_scan_results := [demo_work WORK_SCAN 1, demo_work WORK_SCAN 2], uc_next_topology_revision := 2,
     uc_conflict_latched := True, uc_sync_cancel_requested := True\<rparr>"

lemmas demo_states = demo1_def demo2_def demo3_def demo4_def demo5_def demo6_def client_zero_def

lemmas demo_eval = set_device_def demo_table_nth demo_table_update Let_def queue_send_def demo_count
  demo_bounded counts_def advance_topology_revision_def

lemma demo_step1: "client_event_callback (NEW_DEV 1) client_zero = demo1"
  by (simp add: client_event_callback_def demo_states demo_eval demo_start demo_new_def next_generation_def)

lemma demo_step2: "inspect_pending_devices Some (\<lambda>_. 0) demo1 = (demo2, [])"
  by (subst demo_inspect) (simp_all add: demo_states demo_eval inspect_device_def open_device_at_def demo_device)

lemma demo_step3:
  "fst (log_open_device (demo_view 0x1a84) 1 (demo2\<lparr>uc_scan_requests := []\<rparr>)) = demo3\<lparr>uc_scan_results := []\<rparr>"
  by (simp add: log_open_device_def demo_active demo_view_sel demo_states demo_eval demo_device
      classify_attach_def open_identity_def accept_device_def word_le_nat_alt)

lemma demo_step4: "client_event_callback (NEW_DEV 2) demo3 = demo4"
  by (simp add: client_event_callback_def demo_states demo_eval demo_start demo_device next_generation_def)

lemma demo_step5: "inspect_pending_devices Some (\<lambda>_. 0) demo4 = (demo5, [])"
  by (subst demo_inspect) (simp_all add: demo_states demo_eval inspect_device_def open_device_at_def demo_device)

lemma demo_step6:
  "fst (log_open_device (demo_view 0x1a84) 2 (demo5\<lparr>uc_scan_requests := []\<rparr>))
   = demo6\<lparr>uc_scan_results := [demo_work WORK_SCAN 1]\<rparr>"
  by (simp add: log_open_device_def demo_active demo_view_sel demo_states demo_eval demo_device
      classify_attach_def open_identity_def accept_device_def publish_multiple_accessports_def word_less_nat_alt word_le_nat_alt)

text \<open>An upload on the first device.\<close>

definition demo_idle :: "u8 \<Rightarrow> enumerated_device" where
  "demo_idle i = (demo_accepted i)\<lparr>ed_scan_in_progress := False\<rparr>"

abbreviation (input) demo_upload :: descriptor_work where
  "demo_upload \<equiv> demo_work (WORK_MAP_UPLOAD demo_request) 1"

definition upload1 :: usb_client where
  "upload1 = demo3\<lparr>uc_devices := demo_table (demo_idle 1) device_zero, uc_scan_results := []\<rparr>"

definition upload2 :: usb_client where
  "upload2 = upload1\<lparr>uc_control_requests := [CONTROL_REQUEST_MAP_UPLOAD demo_request]\<rparr>"

definition upload3 :: usb_client where
  "upload3 = upload2\<lparr>uc_devices := demo_table (demo_accepted 1) device_zero, uc_control_requests := [],
     uc_transaction_requests := [demo_upload]\<rparr>"

definition upload4 :: usb_client where
  "upload4 = upload3\<lparr>uc_devices := demo_table ((demo_accepted 1)\<lparr>ed_transaction_ready_after_us := 0\<rparr>) device_zero,
     uc_transaction_requests := [], uc_running := Some demo_upload\<rparr>"

lemmas upload_states = upload1_def upload2_def upload3_def upload4_def demo_idle_def demo_states

lemma upload_step1: "collect_scan_results demo3 = upload1"
  by (simp add: collect_scan_results_def work_collected_def upload_states demo_eval demo_device)

lemma upload_step2: "post_request False (CONTROL_REQUEST_MAP_UPLOAD demo_request) upload1 = (ESP_OK, upload2)"
  by (simp add: post_request_def upload_states demo_eval)

lemma upload_step3: "process_control_requests False upload2 = (upload3, [])"
proof -
  have "uc_conflict_latched upload2 = False" "eligible_accessport_count upload2 = 1"
    "uc_control_requests upload2 = [CONTROL_REQUEST_MAP_UPLOAD demo_request]"
    by (simp_all add: upload_states demo_eval demo_device)
  moreover have "find (\<lambda>i. selectable (device_at upload2 i)) [1..<128] = Some 1"
    by (simp add: upload2_def upload1_def demo_find_selectable) (simp add: selectable_def demo_idle_def demo_device)
  moreover have "dispatch_request (CONTROL_REQUEST_MAP_UPLOAD demo_request) 1 (upload2\<lparr>uc_control_requests := []\<rparr>)
      = (upload3, [])"
    by (simp add: dispatch_request_def upload_states demo_eval demo_device)
  moreover have "eligible_accessport_count (c\<lparr>uc_control_requests := q\<rparr>) = eligible_accessport_count c" for c q
    by (simp add: eligible_accessport_count_def)
  ultimately show ?thesis
    by (simp add: process_control_requests_def process_request_def) (simp add: upload3_def)
qed

lemma upload_step4:
  "transaction_admitted upload3 demo_upload"
  "(set_device 1 (\<lambda>d. d\<lparr>ed_transaction_ready_after_us := 0\<rparr>) upload3)
     \<lparr>uc_transaction_requests := [], uc_running := Some demo_upload\<rparr> = upload4"
  by (simp_all add: transaction_admitted_def upload_states demo_eval demo_device)

text \<open>The device leaves while the upload waits, and a second one is accepted.\<close>

definition gone1 :: usb_client where
  "gone1 = upload3\<lparr>uc_devices := demo_table ((demo_accepted 1)\<lparr>ed_action := DEVICE_ACTION_CLOSE\<rparr>) device_zero\<rparr>"

definition gone2 :: usb_client where
  "gone2 = gone1\<lparr>uc_devices := demo_table ((demo_accepted 1)\<lparr>ed_action := DEVICE_ACTION_CLOSE\<rparr>) (demo_new 2),
     uc_next_attachment_generation := 2\<rparr>"

definition gone3 :: usb_client where
  "gone3 = gone2\<lparr>uc_devices := demo_table ((demo_accepted 1)\<lparr>ed_action := DEVICE_ACTION_CLOSE\<rparr>) (demo_open 2),
     uc_scan_requests := [demo_work WORK_SCAN 2]\<rparr>"

definition gone4 :: usb_client where
  "gone4 = gone3\<lparr>uc_devices := demo_table ((demo_accepted 1)\<lparr>ed_action := DEVICE_ACTION_CLOSE\<rparr>) (demo_accepted 2),
     uc_scan_requests := [], uc_scan_results := [demo_work WORK_SCAN 2], uc_next_topology_revision := 2\<rparr>"

lemmas gone_states = gone1_def gone2_def gone3_def gone4_def upload_states

lemma gone_step1: "client_event_callback (DEV_GONE 1) upload3 = gone1"
  by (simp add: client_event_callback_def demo_find_handle gone_states demo_eval demo_device)

lemma gone_step2: "client_event_callback (NEW_DEV 2) gone1 = gone2"
  by (simp add: client_event_callback_def gone_states demo_eval demo_device next_generation_def)

lemma gone_step3: "inspect_pending_devices Some (\<lambda>_. 0) gone2 = (gone3, [])"
  by (subst demo_inspect) (simp_all add: gone_states demo_eval inspect_device_def open_device_at_def demo_device)

lemma gone_step4:
  "fst (log_open_device (demo_view 0x1a84) 2 (gone3\<lparr>uc_scan_requests := []\<rparr>)) = gone4\<lparr>uc_scan_results := []\<rparr>"
  by (simp add: log_open_device_def demo_active demo_view_sel gone_states demo_eval demo_device
      classify_attach_def open_identity_def accept_device_def word_le_nat_alt)

text \<open>
  The upload fails behind a polite close, the device enumerates again, and another device that is
  not an AccessPort comes and goes.
\<close>

definition demo_polite :: enumerated_device where
  "demo_polite = (demo_accepted 1)\<lparr>ed_transaction_ready_after_us := 0, ed_polite_disconnect_sent := True\<rparr>"

definition latch1 :: usb_client where
  "latch1 = upload4\<lparr>uc_devices := demo_table demo_polite device_zero, uc_running := None,
     uc_transaction_results := [demo_upload], uc_write_recovery_required := True\<rparr>"

definition latch2 :: usb_client where
  "latch2 = latch1\<lparr>uc_devices := demo_table (demo_polite\<lparr>ed_scan_in_progress := False\<rparr>) device_zero,
     uc_transaction_results := []\<rparr>"

definition latch3 :: usb_client where
  "latch3 = latch2\<lparr>uc_devices := demo_table (demo_polite\<lparr>ed_scan_in_progress := False,
     ed_action := DEVICE_ACTION_CLOSE\<rparr>) device_zero\<rparr>"

definition latch4 :: usb_client where
  "latch4 = latch3\<lparr>uc_devices := demo_table device_zero device_zero, uc_next_topology_revision := 2,
     uc_expect_polite_reenumeration := True, uc_polite_deadline_us := 3000000\<rparr>"

definition latch5 :: usb_client where
  "latch5 = latch4\<lparr>uc_devices := demo_table device_zero (demo_new 2), uc_next_attachment_generation := 2\<rparr>"

definition latch6 :: usb_client where
  "latch6 = latch5\<lparr>uc_devices := demo_table device_zero (demo_open 2), uc_scan_requests := [demo_work WORK_SCAN 2]\<rparr>"

definition latch7 :: usb_client where
  "latch7 = latch6\<lparr>uc_scan_requests := [], uc_scan_results := [demo_work WORK_SCAN 2]\<rparr>"

definition latch8 :: usb_client where
  "latch8 = latch7\<lparr>uc_devices := demo_table device_zero ((demo_open 2)\<lparr>ed_scan_in_progress := False\<rparr>),
     uc_scan_results := []\<rparr>"

definition latch9 :: usb_client where
  "latch9 = latch8\<lparr>uc_devices := demo_table device_zero ((demo_open 2)\<lparr>ed_scan_in_progress := False,
     ed_action := DEVICE_ACTION_CLOSE\<rparr>)\<rparr>"

definition latch10 :: usb_client where
  "latch10 = latch9\<lparr>uc_devices := demo_table device_zero device_zero, uc_write_recovery_required := False\<rparr>"

lemmas latch_states = latch1_def latch2_def latch3_def latch4_def latch5_def latch6_def latch7_def
  latch8_def latch9_def latch10_def demo_polite_def upload_states

lemma latch_step1:
  "(transaction_done demo_upload (Some True) True upload4)\<lparr>uc_running := None,
     uc_transaction_results := [demo_upload]\<rparr> = latch1"
  by (simp add: transaction_done_def latch_states demo_eval demo_device)

lemma latch_step2: "collect_scan_results latch1 = latch2"
  by (simp add: collect_scan_results_def work_collected_def latch_states demo_eval demo_device)

lemma latch_step3: "client_event_callback (DEV_GONE 1) latch2 = latch3"
  by (simp add: client_event_callback_def demo_find_handle latch_states demo_eval demo_device)

lemma latch_step4: "\<exists>calls. inspect_pending_devices Some (\<lambda>_. 0) latch3 = (latch4, calls)"
  by (subst demo_inspect) (simp_all add: latch_states demo_eval inspect_device_def close_device_at_def
      detach_accessport_def demo_device)

lemma latch_step5: "client_event_callback (NEW_DEV 2) latch4 = latch5"
  by (simp add: client_event_callback_def latch_states demo_eval demo_device next_generation_def)

lemma latch_step6: "inspect_pending_devices Some (\<lambda>_. 0) latch5 = (latch6, [])"
  by (subst demo_inspect) (simp_all add: latch_states demo_eval inspect_device_def open_device_at_def demo_device)

lemma latch_step7:
  "log_open_device (demo_view 0x1234) 2 (latch6\<lparr>uc_scan_requests := []\<rparr>)
   = (latch7\<lparr>uc_scan_results := []\<rparr>, [])"
  by (simp add: log_open_device_def demo_view_sel latch_states demo_eval demo_device)

lemma latch_step8: "collect_scan_results latch7 = latch8"
  by (simp add: collect_scan_results_def work_collected_def latch_states demo_eval demo_device)

lemma latch_step9: "client_event_callback (DEV_GONE 2) latch8 = latch9"
  by (simp add: client_event_callback_def demo_find_handle latch_states demo_eval demo_device)

lemma latch_step10: "inspect_pending_devices Some (\<lambda>_. 0) latch9 = (latch10, [])"
  by (subst demo_inspect) (simp_all add: latch_states demo_eval inspect_device_def close_device_at_def demo_device)

section \<open>The runs are reachable\<close>

lemma step_inspect: "usb_reaches n c \<Longrightarrow> inspect_pending_devices opened now c = (c', calls) \<Longrightarrow> usb_reaches n c'"
  using usb_reaches.step [OF _ usb_step.inspect] by blast

lemma step_descriptor:
  assumes "usb_reaches n c" and "uc_scan_requests c = [work]" and "length (uc_scan_results c) < 4"
    and "fst (log_open_device view (wk_device work) (c\<lparr>uc_scan_requests := []\<rparr>)) = d"
    and "d\<lparr>uc_scan_results := uc_scan_results d @ [work]\<rparr> = c'"
  shows "usb_reaches n c'"
  using usb_reaches.step [OF assms(1) usb_step.descriptor [OF assms(2,3)]] assms(4,5) by (metis prod.collapse)

lemma step_collect: "usb_reaches n c \<Longrightarrow> collect_scan_results c = c' \<Longrightarrow> usb_reaches n c'"
  using usb_reaches.step [OF _ usb_step.collect] by blast

lemma step_gone: "usb_reaches n c \<Longrightarrow> client_event_callback (DEV_GONE h) c = c' \<Longrightarrow> usb_reaches n c'"
  using usb_reaches.step [OF _ usb_step.gone] by blast

lemma step_attach:
  "usb_reaches n c \<Longrightarrow> client_event_callback (NEW_DEV a) c = c' \<Longrightarrow> a \<le> 127 \<Longrightarrow> m = Suc n \<Longrightarrow> usb_reaches m c'"
  using usb_reaches.attach by blast

lemma reach_demo3: "usb_reaches 1 demo3"
proof -
  have "usb_reaches 1 demo1" by (rule step_attach [OF usb_reaches.start demo_step1]) simp_all
  then have "usb_reaches 1 demo2" by (rule step_inspect [OF _ demo_step2])
  then show ?thesis
    by (rule step_descriptor [where work = "demo_work WORK_SCAN 1" and view = "demo_view 0x1a84"
          and d = "demo3\<lparr>uc_scan_results := []\<rparr>"])
      (use demo_step3 in \<open>simp_all add: demo_states demo_work_def\<close>)
qed

lemma reach_demo6: "usb_reaches 2 demo6"
proof -
  have "usb_reaches 2 demo4" by (rule step_attach [OF reach_demo3 demo_step4]) simp_all
  then have "usb_reaches 2 demo5" by (rule step_inspect [OF _ demo_step5])
  then show ?thesis
    by (rule step_descriptor [where work = "demo_work WORK_SCAN 2" and view = "demo_view 0x1a84"
          and d = "demo6\<lparr>uc_scan_results := [demo_work WORK_SCAN 1]\<rparr>"])
      (use demo_step6 in \<open>simp_all add: demo_states demo_work_def\<close>)
qed

lemma reach_upload3: "usb_reaches 1 upload3"
proof -
  have "usb_reaches 1 upload1" by (rule step_collect [OF reach_demo3 upload_step1])
  then have "usb_reaches 1 upload2" by (rule usb_reaches.step [OF _ usb_step.posted [OF upload_step2]])
  then show ?thesis by (rule usb_reaches.step [OF _ usb_step.control [OF upload_step3]])
qed

lemma upload_starts: "usb_step upload3 [] upload4"
proof -
  have "uc_running upload3 = None" "uc_transaction_requests upload3 = demo_upload # []"
    by (simp_all add: upload_states)
  from usb_step.started [OF this upload_step4(1)] show ?thesis
    using upload_step4(2) by (simp add: demo_work_def)
qed

lemma reach_gone4: "usb_reaches 2 gone4"
proof -
  have "usb_reaches 1 gone1" by (rule step_gone [OF reach_upload3 gone_step1])
  then have "usb_reaches 2 gone2" by (rule step_attach [OF _ gone_step2]) simp_all
  then have "usb_reaches 2 gone3" by (rule step_inspect [OF _ gone_step3])
  then show ?thesis
    by (rule step_descriptor [where work = "demo_work WORK_SCAN 2" and view = "demo_view 0x1a84"
          and d = "gone4\<lparr>uc_scan_results := []\<rparr>"])
      (use gone_step4 in \<open>simp_all add: gone_states demo_work_def\<close>)
qed

lemma reach_latch9: "usb_reaches 2 latch9"
proof -
  have "usb_reaches 1 upload4" by (rule usb_reaches.step [OF reach_upload3 upload_starts])
  moreover have "usb_step upload4 [] latch1"
    using usb_step.finished [of upload4 demo_upload "Some True" True] latch_step1
    by (simp add: upload4_def) (simp add: upload_states)
  ultimately have "usb_reaches 1 latch1" by (rule usb_reaches.step)
  then have "usb_reaches 1 latch2" by (rule step_collect [OF _ latch_step2])
  then have "usb_reaches 1 latch3" by (rule step_gone [OF _ latch_step3])
  then have "usb_reaches 1 latch4" using step_inspect latch_step4 by blast
  then have "usb_reaches 2 latch5" by (rule step_attach [OF _ latch_step5]) simp_all
  then have "usb_reaches 2 latch6" by (rule step_inspect [OF _ latch_step6])
  then have "usb_reaches 2 latch7"
    by (rule step_descriptor [where work = "demo_work WORK_SCAN 2" and view = "demo_view 0x1234"
          and d = "latch7\<lparr>uc_scan_results := []\<rparr>"])
      (use latch_step7 in \<open>simp_all add: latch_states demo_work_def\<close>)
  then have "usb_reaches 2 latch8" by (rule step_collect [OF _ latch_step8])
  then show ?thesis by (rule step_gone [OF _ latch_step9])
qed

end
