(* ===== verification/Usb_Latches.thy ===== *)
theory Usb_Latches
  imports Usb_Runs
begin

text \<open>
  The guarantees of the enumeration client (Usb_Topology) over every interleaving of its tasks:
  the conflict latch, the device under a transaction, and the recovery latch. The witnesses are the
  runs of Usb_Runs.
\<close>

section \<open>A device with work in flight stays\<close>

definition steady :: "nat \<Rightarrow> usb_client \<Rightarrow> usb_client \<Rightarrow> bool" where
  "steady i c c' \<longleftrightarrow> ed_attachment_generation (device_at c' i) = ed_attachment_generation (device_at c i)
     \<and> ed_handle (device_at c' i) = ed_handle (device_at c i)"

lemma steady_refl [simp]: "steady i c c"
  by (simp add: steady_def)

lemma steady_trans: "steady i c d \<Longrightarrow> steady i d e \<Longrightarrow> steady i c e"
  by (simp add: steady_def)

lemma steady_fields: "uc_devices c' = uc_devices c \<Longrightarrow> steady i c c'"
  by (simp add: steady_def)

lemma steady_set:
  assumes "ed_attachment_generation (f (device_at c j)) = ed_attachment_generation (device_at c j)"
    and "ed_handle (f (device_at c j)) = ed_handle (device_at c j)"
  shows "steady i c (set_device j f c)"
  using assms by (cases "j < length (uc_devices c)")
    (auto simp: steady_def set_device_def nth_list_update list_update_beyond)

lemma steady_gentle: "gentle c c' \<Longrightarrow> i < length (uc_devices c) \<Longrightarrow> steady i c c'"
  by (simp add: gentle_def kept_def steady_def)

lemma steady_collected: "steady i c (work_collected work c)"
  by (auto simp: work_collected_def intro!: steady_set)

lemma steady_foldl: "steady i c (foldl (\<lambda>c work. work_collected work c) c ws)"
  by (induction ws arbitrary: c) (auto intro: steady_trans steady_collected)

lemma steady_collect: "steady i c (collect_scan_results c)"
proof -
  have a: "steady i c (c\<lparr>uc_scan_results := []\<rparr>)" "steady i c (c\<lparr>uc_transaction_results := []\<rparr>)" for c
    by (rule steady_fields; simp)+
  show ?thesis
    unfolding collect_scan_results_def Let_def
    by (rule steady_trans [OF steady_trans [OF a(1) steady_foldl] steady_trans [OF a(2) steady_foldl]])
qed

lemma steady_dispatch: "steady i c (fst (dispatch_request request j c))"
proof -
  let ?c = "if keeps_cancel request then c else c\<lparr>uc_sync_cancel_requested := False\<rparr>"
  have a: "steady i c ?c" by (simp add: steady_def)
  have b: "steady i d (set_device j (\<lambda>d. d\<lparr>ed_scan_in_progress := b\<rparr>) d)" for d b
    by (rule steady_set; simp)
  have q: "steady i d (d\<lparr>uc_transaction_requests := q\<rparr>)" for d q by (rule steady_fields; simp)
  let ?c2 = "set_device j (\<lambda>d. d\<lparr>ed_scan_in_progress := True\<rparr>) ?c"
  have c2: "steady i c ?c2" by (rule steady_trans [OF a b])
  show ?thesis
    using steady_trans [OF c2 q] steady_trans [OF c2 b]
    by (simp add: dispatch_request_def Let_def split: option.split split del: if_split)
qed

lemma steady_request: "steady i c (fst (snd (process_request requeued request c)))"
  by (auto simp: process_request_def intro: steady_dispatch steady_fields split: option.split)

lemma steady_control_loop: "steady i c (fst (control_loop requeued requests c))"
proof (induction requests arbitrary: c)
  case Nil
  show ?case by (simp add: steady_fields)
next
  case (Cons request rest)
  have "steady i c (c\<lparr>uc_control_requests := rest\<rparr>)" by (simp add: steady_fields)
  from steady_trans [OF this steady_request] have
    "steady i c (fst (snd (process_request requeued request (c\<lparr>uc_control_requests := rest\<rparr>))))" .
  then show ?case using Cons.IH by (auto simp: case_prod_beta intro: steady_trans)
qed

text \<open>The pass over the table leaves a busy device alone.\<close>

lemma device_at_other: "j \<noteq> i \<Longrightarrow> device_at (set_device j f c) i = device_at c i"
  by (simp add: set_device_def)

lemma inspect_other: "j \<noteq> i \<Longrightarrow> device_at (fst (inspect_device opened now j c)) i = device_at c i"
proof -
  assume j: "j \<noteq> i"
  have f: "device_at (fst (detach_accessport now j c)) i = device_at c i" for c
    by (simp add: detach_accessport_def advance_topology_revision_def Let_def)
  have "device_at (open_device_at opened now j c) i = device_at c i" for c
    using j by (simp add: open_device_at_def Let_def device_at_other split: option.split)
  moreover have "device_at (fst (close_device_at now j c)) i = device_at c i" for c
    using j f by (simp add: close_device_at_def Let_def case_prod_beta device_at_other)
  ultimately show ?thesis by (simp add: inspect_device_def Let_def split: device_action.split)
qed

lemma inspect_busy:
  assumes "ed_scan_in_progress (device_at c i)" and "ed_action (device_at c i) \<noteq> DEVICE_ACTION_OPEN"
  shows "device_at (fst (inspect_loop opened now is c)) i = device_at c i"
  using assms
proof (induction "is" arbitrary: c)
  case (Cons j "is")
  have "device_at (fst (inspect_device (opened j) (now j) j c)) i = device_at c i"
  proof (cases "j = i")
    case True
    then show ?thesis using Cons.prems by (auto simp: inspect_device_def Let_def split: device_action.split)
  qed (rule inspect_other)
  then show ?case using Cons by (simp add: case_prod_beta)
qed simp

lemma steady_step:
  assumes "usb_step c calls c'" and t: "table_ok n c" and i: "i < 128"
    and busy: "ed_scan_in_progress (device_at c i)" "ed_action (device_at c i) \<noteq> DEVICE_ACTION_OPEN"
  shows "steady i c c'"
proof -
  have len: "i < length (uc_devices c)" using t i by (simp add: table_ok_def)
  show ?thesis
    using assms(1)
  proof cases
    case gone
    then show ?thesis by (auto simp: client_event_callback_def intro!: steady_set split: option.split)
  next
    case other
    then show ?thesis by (simp add: client_event_callback_def)
  next
    case (descriptor work rest view c1)
    have g: "gentle (c\<lparr>uc_scan_requests := rest\<rparr>) c1"
      using gentle_log [of "c\<lparr>uc_scan_requests := rest\<rparr>" view "wk_device work"] descriptor(4) by simp
    from steady_gentle [OF g, of i] show ?thesis using len descriptor(1) by (simp add: steady_def)
  next
    case (refused work rest)
    then show ?thesis by (simp add: steady_fields)
  next
    case (started work rest)
    have "steady i c (set_device (wk_device work) (\<lambda>d. d\<lparr>ed_transaction_ready_after_us := 0\<rparr>) c)"
      by (rule steady_set; simp)
    then show ?thesis using started by (simp add: steady_def)
  next
    case (finished work disc recovery)
    from steady_gentle [OF gentle_done len] show ?thesis using finished by (simp add: steady_def)
  next
    case (posted refused request err)
    then show ?thesis by (auto simp: post_request_def intro!: steady_fields split: if_splits option.splits)
  next
    case collect
    then show ?thesis using steady_collect by simp
  next
    case (control requeued)
    then show ?thesis using steady_control_loop [of i c requeued]
      by (metis fst_conv process_control_requests_def)
  next
    case (inspect opened now)
    then have "device_at c' i = device_at c i"
      using inspect_busy [OF busy, of opened now "[1..<128]"] by (simp add: inspect_pending_devices_def)
    then show ?thesis by (simp add: steady_def)
  next
    case (recover now cycled)
    then show ?thesis by (auto simp: recover_root_port_def Let_def intro!: steady_fields split: if_splits)
  qed
qed

section \<open>The work that runs\<close>

lemma running_fields:
  "uc_running (set_device i f c) = uc_running c"
  "uc_running (work_collected work c) = uc_running c"
  "uc_running (fst (dispatch_request request i c)) = uc_running c"
  "uc_running (open_device_at opened t i c) = uc_running c"
  "uc_running (fst (detach_accessport t i c)) = uc_running c"
  by (simp_all add: work_collected_def dispatch_request_def open_device_at_def detach_accessport_def
      advance_topology_revision_def Let_def split: option.split)

lemma running_collect: "uc_running (collect_scan_results c) = uc_running c"
proof -
  have "uc_running (foldl (\<lambda>c work. work_collected work c) c ws) = uc_running c" for c ws
    by (induction ws arbitrary: c) (simp_all add: running_fields)
  then show ?thesis by (simp add: collect_scan_results_def Let_def)
qed

lemma running_control: "uc_running (fst (control_loop requeued requests c)) = uc_running c"
proof (induction requests arbitrary: c)
  case (Cons request rest)
  have "uc_running (fst (snd (process_request requeued request d))) = uc_running d" for d
    by (auto simp: process_request_def running_fields split: option.split)
  then show ?case using Cons.IH by (simp add: case_prod_beta)
qed simp

lemma running_inspect: "uc_running (fst (inspect_loop opened now is c)) = uc_running c"
proof (induction "is" arbitrary: c)
  case (Cons i "is")
  have "uc_running (fst (inspect_device h t i d)) = uc_running d" for h t d
    by (simp add: inspect_device_def close_device_at_def running_fields case_prod_beta Let_def
        split: device_action.split)
  then show ?case using Cons.IH by (simp add: case_prod_beta)
qed simp

lemma running_started:
  assumes "usb_step c calls c'" and "uc_running c = None" and "uc_running c' = Some work"
  shows "transaction_admitted c work \<and> (\<exists>rest. uc_transaction_requests c = work # rest)"
  using assms(1)
proof cases
  case (descriptor w rest view c1)
  have "uc_running c1 = uc_running c"
    using gentle_log [of "c\<lparr>uc_scan_requests := rest\<rparr>" view "wk_device w"] descriptor(4)
    by (simp add: gentle_def same_queues_def)
  then show ?thesis using assms(2,3) descriptor by simp
next
  case (inspect opened now)
  then show ?thesis
    using assms(2,3) running_inspect [of opened now "[1..<128]" c] by (simp add: inspect_pending_devices_def)
next
  case (control requeued)
  then show ?thesis
    using assms(2,3) running_control [of requeued "uc_control_requests c" c] by (simp add: process_control_requests_def)
qed (use assms(2,3) in \<open>auto simp: client_event_callback_def running_collect post_request_def
      recover_root_port_def Let_def split: option.splits if_splits\<close>)

section \<open>The recovery latch\<close>

lemma recovery_log: "uc_write_recovery_required (fst (log_open_device view i c)) = uc_write_recovery_required c"
proof -
  have m: "uc_write_recovery_required (fst (publish_multiple_accessports c)) = uc_write_recovery_required c" for c
    by (simp add: publish_multiple_accessports_def Let_def)
  have "uc_write_recovery_required (fst (accept_device i c)) = uc_write_recovery_required c" for c
    by (simp add: accept_device_def Let_def m advance_topology_revision_def set_device_def)
  then show ?thesis
    by (simp add: log_open_device_def Let_def reject_device_def classify_attach_def set_device_def
        split: option.split prod.split)
qed

lemma recovery_fields:
  "uc_write_recovery_required (set_device i f c) = uc_write_recovery_required c"
  "uc_write_recovery_required (work_collected work c) = uc_write_recovery_required c"
  "uc_write_recovery_required (fst (dispatch_request request i c)) = uc_write_recovery_required c"
  "uc_write_recovery_required (open_device_at opened t i c) = uc_write_recovery_required c"
  by (simp_all add: work_collected_def dispatch_request_def open_device_at_def set_device_def
      Let_def split: option.split)

lemma recovery_collect: "uc_write_recovery_required (collect_scan_results c) = uc_write_recovery_required c"
proof -
  have "uc_write_recovery_required (foldl (\<lambda>c work. work_collected work c) c ws) = uc_write_recovery_required c" for c ws
    by (induction ws arbitrary: c) (simp_all add: recovery_fields)
  then show ?thesis by (simp add: collect_scan_results_def Let_def)
qed

lemma recovery_control: "uc_write_recovery_required (fst (control_loop requeued requests c)) = uc_write_recovery_required c"
proof (induction requests arbitrary: c)
  case (Cons request rest)
  have "uc_write_recovery_required (fst (snd (process_request requeued request d))) = uc_write_recovery_required d" for d
    by (auto simp: process_request_def recovery_fields split: option.split)
  then show ?case using Cons.IH by (simp add: case_prod_beta)
qed simp

definition clears_recovery :: "enumerated_device \<Rightarrow> bool" where
  "clears_recovery d \<longleftrightarrow> ed_action d = DEVICE_ACTION_CLOSE \<and> ed_handle d \<noteq> None \<and> \<not> ed_scan_in_progress d
     \<and> \<not> ed_polite_disconnect_sent d"

lemma close_effect:
  "eligible_accessport_count (fst (close_device_at now i c)) \<le> eligible_accessport_count c"
  "uc_write_recovery_required c \<Longrightarrow> \<not> uc_write_recovery_required (fst (close_device_at now i c)) \<Longrightarrow>
     \<not> ed_polite_disconnect_sent (device_at c i)
     \<and> eligible_accessport_count (fst (close_device_at now i c)) = 0"
proof -
  obtain c2 where c2: "calm c c2" "uc_write_recovery_required c2 = uc_write_recovery_required c"
      "ed_polite_disconnect_sent (device_at c2 i) = ed_polite_disconnect_sent (device_at c i)"
    and r: "fst (close_device_at now i c) = set_device i (\<lambda>_. device_zero)
      (c2\<lparr>uc_conflict_latched := uc_conflict_latched c2 \<and> eligible_accessport_count c2 \<noteq> 0,
          uc_write_recovery_required := uc_write_recovery_required c2
            \<and> (ed_polite_disconnect_sent (device_at c2 i) \<or> eligible_accessport_count c2 \<noteq> 0)\<rparr>)"
    (is "_ = set_device i _ ?c3") by (rule close_decompose [of c i now])
  have "calm ?c3 (set_device i (\<lambda>_. device_zero) ?c3)" by (rule calm_set) (simp add: counts_def device_zero_def)
  then have le: "eligible_accessport_count (fst (close_device_at now i c)) \<le> eligible_accessport_count c2"
    unfolding r by (rule order_trans [OF calm_count]) (simp add: eligible_accessport_count_def)
  then show "eligible_accessport_count (fst (close_device_at now i c)) \<le> eligible_accessport_count c"
    using calm_count [OF c2(1)] by simp
  assume "uc_write_recovery_required c" and "\<not> uc_write_recovery_required (fst (close_device_at now i c))"
  then have "\<not> ed_polite_disconnect_sent (device_at c i) \<and> eligible_accessport_count c2 = 0"
    using c2(2,3) by (simp add: r recovery_fields)
  then show "\<not> ed_polite_disconnect_sent (device_at c i)
     \<and> eligible_accessport_count (fst (close_device_at now i c)) = 0" using le by simp
qed

lemma inspect_count:
  assumes "table_ok n c" and "i < 128"
  shows "eligible_accessport_count (fst (inspect_device opened now i c)) \<le> eligible_accessport_count c"
proof (cases "ed_action (device_at c i)")
  case DEVICE_ACTION_OPEN
  then have "\<not> ed_eligible_accessport (device_at c i)" using slot_ok_at [OF assms] by (simp add: slot_ok_def)
  then show ?thesis using DEVICE_ACTION_OPEN calm_count [OF calm_open] by (simp add: inspect_device_def)
qed (simp_all add: inspect_device_def Let_def close_effect(1))

lemma loop_count:
  "table_ok n c \<Longrightarrow> \<forall>i \<in> set is. 0 < i \<and> i < 128 \<Longrightarrow>
   eligible_accessport_count (fst (inspect_loop opened now is c)) \<le> eligible_accessport_count c"
proof (induction "is" arbitrary: c)
  case (Cons i "is")
  let ?c = "fst (inspect_device (opened i) (now i) i c)"
  have "table_ok n ?c" using Cons.prems by (simp add: table_ok_inspect_device)
  then have "eligible_accessport_count (fst (inspect_loop opened now is ?c)) \<le> eligible_accessport_count ?c"
    using Cons by simp
  moreover have "eligible_accessport_count ?c \<le> eligible_accessport_count c"
    using Cons.prems by (intro inspect_count) auto
  ultimately show ?case by (simp add: case_prod_beta)
qed simp

lemma recovery_inspect:
  "table_ok n c \<Longrightarrow> \<forall>i \<in> set is. 0 < i \<and> i < 128 \<Longrightarrow> distinct is \<Longrightarrow> uc_write_recovery_required c \<Longrightarrow>
   \<not> uc_write_recovery_required (fst (inspect_loop opened now is c)) \<Longrightarrow>
   eligible_accessport_count (fst (inspect_loop opened now is c)) = 0
   \<and> (\<exists>i \<in> set is. clears_recovery (device_at c i))"
proof (induction "is" arbitrary: c)
  case (Cons i "is")
  let ?c = "fst (inspect_device (opened i) (now i) i c)" and ?r = "fst (inspect_loop opened now (i # is) c)"
  have t: "table_ok n ?c" using Cons.prems by (simp add: table_ok_inspect_device)
  have r: "?r = fst (inspect_loop opened now is ?c)" by (simp add: case_prod_beta)
  show ?case
  proof (cases "uc_write_recovery_required ?c")
    case True
    then have ih: "eligible_accessport_count ?r = 0 \<and> (\<exists>j \<in> set is. clears_recovery (device_at ?c j))"
      using Cons.IH [OF t] Cons.prems unfolding r by simp
    then obtain j where j: "j \<in> set is" "clears_recovery (device_at ?c j)" by blast
    then have "i \<noteq> j" using Cons.prems(3) by auto
    then show ?thesis using ih j inspect_other [of i j] by auto
  next
    case False
    then have a: "ed_action (device_at c i) = DEVICE_ACTION_CLOSE" "ed_handle (device_at c i) \<noteq> None"
      "\<not> ed_scan_in_progress (device_at c i)" and e: "?c = fst (close_device_at (now i) i c)"
      using Cons.prems(4)
      by (auto simp: inspect_device_def Let_def recovery_fields split: device_action.splits if_splits)
    have "\<not> ed_polite_disconnect_sent (device_at c i) \<and> eligible_accessport_count ?c = 0"
      unfolding e by (rule close_effect(2) [OF Cons.prems(4)]) (use False e in simp)
    moreover have "eligible_accessport_count ?r \<le> eligible_accessport_count ?c"
      unfolding r by (rule loop_count [OF t]) (use Cons.prems in simp)
    ultimately show ?thesis using a by (auto simp: clears_recovery_def)
  qed
qed simp

lemma recovery_step:
  assumes "usb_step c calls c'" and t: "table_ok n c" and rec: "uc_write_recovery_required c" "\<not> uc_write_recovery_required c'"
  shows "eligible_accessport_count c' = 0 \<and> (\<exists>i \<in> {1..<128}. clears_recovery (device_at c i))"
  using assms(1)
proof cases
  case (inspect opened now)
  then show ?thesis
    using recovery_inspect [OF t, of "[1..<128]" opened now] rec by (simp add: inspect_pending_devices_def)
next
  case (descriptor work rest view c1)
  then show ?thesis
    using recovery_log [of view "wk_device work" "c\<lparr>uc_scan_requests := rest\<rparr>"] rec by simp
next
  case (control requeued)
  then show ?thesis
    using recovery_control [of requeued "uc_control_requests c" c] rec by (simp add: process_control_requests_def)
qed (use rec in \<open>auto simp: client_event_callback_def recovery_collect recovery_fields post_request_def
      recover_root_port_def transaction_done_def Let_def split: option.splits if_splits\<close>)

section \<open>The guarantees\<close>

lemma holds_handle: "holds d work \<Longrightarrow> ed_scan_in_progress d \<and> ed_handle d = wk_pinned_handle work \<and> wk_pinned_handle work \<noteq> None"
  by (metis holds_def)

lemma in_flight_holds:
  assumes "table_ok n c" and "work \<in> set (in_flight c)"
    and "ed_attachment_generation (device_at c (wk_device work)) = wk_attachment_generation work"
  shows "holds (device_at c (wk_device work)) work"
proof -
  have "wk_device work < 128" using assms(1,2) by (simp add: table_ok_def works_ok_def)
  then show ?thesis using slot_ok_at [OF assms(1)] assms(2,3) by (auto simp: slot_ok_def work_key_def)
qed

text \<open>
  C27. In every state that the tasks reach, two or more eligible AccessPorts latch the conflict,
  and a latched conflict has asked the running transaction to cancel. The latch blocks the
  transaction task: no work is started while it is set.
\<close>

theorem conflict_stops_transactions:
  assumes "usb_reaches n c" and "n < 2 ^ 32"
  shows "(2 \<le> eligible_accessport_count c \<longrightarrow> uc_conflict_latched c)
    \<and> (uc_conflict_latched c \<longrightarrow> uc_sync_cancel_requested c
         \<and> (\<forall>calls c'. usb_step c calls c' \<and> uc_running c = None \<longrightarrow> uc_running c' = None))"
proof -
  have "uc_running c' = None"
    if "uc_conflict_latched c" "usb_step c calls c'" "uc_running c = None" for calls c'
    using that running_started [OF that(2,3)]
    by (cases "uc_running c'") (auto simp: transaction_admitted_def Let_def)
  then show ?thesis using reachable_conflict_ok [OF assms] by (auto simp: conflict_ok_def)
qed

theorem conflict_stops_transactions_witness:
  "uc_conflict_latched demo6 \<and> uc_sync_cancel_requested demo6"
proof -
  have "2 \<le> eligible_accessport_count demo6" by (simp add: demo_states demo_eval demo_device)
  then show ?thesis using conflict_stops_transactions [OF reach_demo6] by simp
qed

text \<open>
  C28. Work in flight pins its device. While work is queued, running or reported for an attachment,
  the entry of the device is marked busy and keeps the handle that the work pinned, no second work
  exists for the attachment, and no step of any task closes the device or replaces its handle; so
  the transaction task never transfers on a closed handle.
\<close>

theorem work_pins_device:
  assumes "usb_reaches n c" and "n < 2 ^ 32"
    and "work \<in> set (in_flight c)"
    and "ed_attachment_generation (device_at c (wk_device work)) = wk_attachment_generation work"
  shows "ed_scan_in_progress (device_at c (wk_device work))
    \<and> ed_handle (device_at c (wk_device work)) = wk_pinned_handle work \<and> wk_pinned_handle work \<noteq> None
    \<and> distinct (map work_key (in_flight c))
    \<and> (\<forall>calls c'. usb_step c calls c' \<longrightarrow>
          ed_attachment_generation (device_at c' (wk_device work)) = wk_attachment_generation work
          \<and> ed_handle (device_at c' (wk_device work)) = wk_pinned_handle work)"
proof -
  have t: "table_ok n c" by (rule reachable_table_ok [OF assms(1,2)])
  then have i: "wk_device work < 128" using assms(3) by (simp add: table_ok_def works_ok_def)
  have h: "holds (device_at c (wk_device work)) work" by (rule in_flight_holds [OF t assms(3,4)])
  have "ed_attachment_generation (device_at c' (wk_device work)) = wk_attachment_generation work
      \<and> ed_handle (device_at c' (wk_device work)) = wk_pinned_handle work" if "usb_step c calls c'" for calls c'
  proof -
    have "steady (wk_device work) c c'" by (rule steady_step [OF that t i]) (use h in \<open>simp_all add: holds_def\<close>)
    then show ?thesis using h assms(4) by (simp add: steady_def holds_def)
  qed
  moreover have "distinct (map work_key (in_flight c))" using t by (simp add: table_ok_def works_ok_def)
  ultimately show ?thesis using holds_handle [OF h] by blast
qed

theorem work_pins_device_witness: "ed_handle (device_at upload4 1) = Some 1"
proof -
  have s: "work \<in> set (in_flight upload3) \<and> wk_device work = 1 \<and> wk_pinned_handle work = Some 1
      \<and> wk_attachment_generation work = 1" if "work = demo_work (WORK_MAP_UPLOAD demo_request) 1" for work
    using that by (simp add: upload_states in_flight_def demo_work_def)
  have g: "ed_attachment_generation (device_at upload3 1) = 1"
    by (simp add: upload_states demo_eval demo_device)
  show ?thesis
    using work_pins_device [OF reach_upload3, of "demo_work (WORK_MAP_UPLOAD demo_request) 1"] s g upload_starts
    by auto
qed

text \<open>
  The transaction task starts work only without a conflict, while exactly one device is
  eligible, and on a device that still has the attachment and the handle of the work. Unless the
  device has meanwhile been reported as gone, it is that one device: no other is eligible.
\<close>

lemma transaction_starts_alone:
  assumes "usb_reaches n c" and "n < 2 ^ 32" and "usb_step c calls c'"
    and "uc_running c = None" and "uc_running c' = Some work"
  shows "\<not> uc_conflict_latched c \<and> eligible_accessport_count c = 1
    \<and> (let d = device_at c (wk_device work) in
        ed_attachment_generation d = wk_attachment_generation work \<and> ed_eligible_accessport d
        \<and> ed_handle d = wk_pinned_handle work \<and> ed_handle d \<noteq> None
        \<and> (ed_action d \<noteq> DEVICE_ACTION_CLOSE \<longrightarrow>
             (\<forall>j \<in> {1..<128}. counts (device_at c j) \<longleftrightarrow> j = wk_device work)))"
proof -
  let ?i = "wk_device work" and ?d = "device_at c (wk_device work)"
  obtain rest where adm: "transaction_admitted c work" and q: "uc_transaction_requests c = work # rest"
    using running_started [OF assms(3-5)] by blast
  have t: "table_ok n c" by (rule reachable_table_ok [OF assms(1,2)])
  have w: "work \<in> set (in_flight c)" using q by (simp add: in_flight_def)
  then have i: "0 < ?i" "?i < 128" using t by (simp_all add: table_ok_def works_ok_def)
  have a: "\<not> uc_conflict_latched c" "eligible_accessport_count c = 1" "ed_eligible_accessport ?d"
    "ed_attachment_generation ?d = wk_attachment_generation work" "ed_handle ?d = wk_pinned_handle work"
    using adm by (simp_all add: transaction_admitted_def Let_def)
  have h: "ed_handle ?d \<noteq> None"
    using holds_handle [OF in_flight_holds [OF t w a(4)]] by simp
  have "counts (device_at c j) \<longleftrightarrow> j = ?i" if c: "ed_action ?d \<noteq> DEVICE_ACTION_CLOSE" and j: "j \<in> {1..<128}" for j
  proof -
    let ?s = "{j \<in> {1..<128}. counts (device_at c j)}"
    have "card ?s = length (filter (\<lambda>j. counts (device_at c j)) [1..<128])"
      using distinct_card [of "filter (\<lambda>j. counts (device_at c j)) [1..<128]"] by (simp add: set_filter conj_commute del: upt_rec_numeral)
    then have "card ?s = 1" using a(2) by (simp add: eligible_accessport_count_def)
    then obtain k where k: "?s = {k}" by (metis card_1_singletonE)
    have "?i \<in> ?s" using i h a(3) c by (simp add: counts_def)
    then have e: "?i = k" unfolding k by simp
    have "j \<in> ?s \<longleftrightarrow> j = ?i" unfolding k e by simp
    then show ?thesis using j by simp
  qed
  then show ?thesis unfolding Let_def using a h by blast
qed

theorem transaction_starts_alone_witness: "counts (device_at upload3 1) \<and> \<not> counts (device_at upload3 2)"
proof -
  have s: "uc_running upload3 = None" "uc_running upload4 = Some (demo_work (WORK_MAP_UPLOAD demo_request) 1)"
    by (simp_all add: upload_states)
  have d: "ed_action (device_at upload3 1) \<noteq> DEVICE_ACTION_CLOSE"
    by (simp add: upload_states demo_eval demo_device)
  show ?thesis
    using transaction_starts_alone [OF reach_upload3 _ upload_starts s] d by (simp add: Let_def demo_work_def)
qed

text \<open>
  The proviso about a gone device is needed: the guard counts the eligible devices, but it does not
  ask that the device of the work is the one that counts.
\<close>

theorem gone_device_admitted:
  "usb_reaches 2 gone4 \<and> uc_running gone4 = None
   \<and> uc_transaction_requests gone4 = [demo_work (WORK_MAP_UPLOAD demo_request) 1]
   \<and> transaction_admitted gone4 (demo_work (WORK_MAP_UPLOAD demo_request) 1)
   \<and> ed_action (device_at gone4 1) = DEVICE_ACTION_CLOSE \<and> counts (device_at gone4 2)"
  using reach_gone4 by (simp add: transaction_admitted_def gone_states demo_eval demo_device)

text \<open>
  The recovery latch that a failed device write sets is only cleared by the closing of a
  device that was not sent a polite disconnect, at a moment when no AccessPort is eligible; every
  other step of every task leaves it set.
\<close>

lemma recovery_latch_held:
  assumes "usb_reaches n c" and "n < 2 ^ 32" and "usb_step c calls c'"
    and "uc_write_recovery_required c" and "\<not> uc_write_recovery_required c'"
  shows "eligible_accessport_count c' = 0
    \<and> (\<exists>i \<in> {1..<128}. ed_action (device_at c i) = DEVICE_ACTION_CLOSE \<and> ed_handle (device_at c i) \<noteq> None
         \<and> \<not> ed_scan_in_progress (device_at c i) \<and> \<not> ed_polite_disconnect_sent (device_at c i))"
  using recovery_step [OF assms(3) reachable_table_ok [OF assms(1,2)] assms(4,5)] by (simp add: clears_recovery_def)

theorem recovery_latch_held_witness:
  "uc_write_recovery_required latch9 \<and> usb_step latch9 [] latch10 \<and> \<not> uc_write_recovery_required latch10
   \<and> eligible_accessport_count latch10 = 0"
proof -
  have s: "usb_step latch9 [] latch10" by (rule usb_step.inspect [OF latch_step10])
  have r: "uc_write_recovery_required latch9" "\<not> uc_write_recovery_required latch10"
    by (simp_all add: latch_states)
  show ?thesis using recovery_latch_held [OF reach_latch9 _ s r] s r by simp
qed

text \<open>
  That device need not be the AccessPort, nor an AccessPort at all: while the AccessPort
  enumerates again behind a polite close, the departure of any other device clears the latch.
\<close>

theorem recovery_latch_lost:
  "usb_reaches 2 latch9 \<and> uc_write_recovery_required latch9 \<and> usb_step latch9 [] latch10
   \<and> \<not> uc_write_recovery_required latch10
   \<and> (\<forall>i \<in> {1..<128}. ed_action (device_at latch9 i) = DEVICE_ACTION_CLOSE \<longrightarrow> \<not> ed_is_accessport (device_at latch9 i))"
proof -
  have "ed_is_accessport (device_at latch9 i) = False" if "i \<in> {1..<128}" for i
    using that demo_table_nth
    by (cases "i = 1 \<or> i = 2") (auto simp: latch9_def demo_device)
  moreover have "usb_step latch9 [] latch10" by (rule usb_step.inspect [OF latch_step10])
  moreover have "uc_write_recovery_required latch9" "\<not> uc_write_recovery_required latch10"
    by (simp_all add: latch_states)
  ultimately show ?thesis using reach_latch9 by simp
qed

end
