(* ===== verification/Bounded_Text.thy ===== *)
theory Bounded_Text
  imports Usb_Evidence
begin

text \<open>
  The text helpers that the services of esp32p4/main share: the bounded copy of a C string into a
  zeroed array (\<open>copy_bounded\<close> in revlink_file_delete.c and revlink_map_upload.c) and the name
  behind the last slash of a path.
\<close>

text \<open>A bounded copy into a zeroed array, or \<open>None\<close> for the result false.\<close>

definition copy_bounded :: "nat \<Rightarrow> u8 list \<Rightarrow> u8 list option" where
  "copy_bounded capacity input =
     (let n = strnlen input capacity in
      if capacity = 0 \<or> n = 0 \<or> n \<ge> capacity then None
      else Some (take n input @ replicate (capacity - n) 0))"

text \<open>What follows the last slash of a path.\<close>

definition behind_last_slash :: "u8 list \<Rightarrow> u8 list option" where
  "behind_last_slash path =
     (if 0x2f \<in> set path then Some (rev (takeWhile (\<lambda>b. b \<noteq> 0x2f) (rev path))) else None)"

lemma copy_contents:
  assumes "copy_bounded capacity input = Some out"
  shows "c_str out = c_str input \<and> length out = capacity \<and> c_str input \<noteq> [] \<and> length (c_str input) < capacity"
proof -
  let ?n = "strnlen input capacity"
  have n: "0 < ?n" "?n < capacity" and out: "out = take ?n input @ replicate (capacity - ?n) 0"
    using assms by (auto simp: copy_bounded_def Let_def split: if_splits)
  have c: "take ?n input = c_str input" using n(2) by (rule take_strnlen)
  have "length (c_str input) = ?n" using n(2) by (metis c length_take min.absorb2 strnlen_le strnlen_def c_str_def length_takeWhile_le nat_le_linear take_all)
  moreover have "c_str out = c_str input"
  proof -
    obtain k where "capacity - ?n = Suc k" using n(2) by (metis Suc_diff_Suc)
    then have "out = c_str input @ 0 # replicate k 0" by (simp add: out c)
    then show ?thesis using c_str_terminated [OF c_str_no_nul] by simp
  qed
  ultimately show ?thesis using n out c by auto
qed

lemma behind_last_slash_set: "behind_last_slash path = Some name \<Longrightarrow> set name \<subseteq> set path"
  unfolding behind_last_slash_def using set_takeWhileD by (fastforce split: if_splits)

end
