(* ===== verification/File_Delete.thy ===== *)
theory File_Delete
  imports Accessport_Targets Bounded_Text
begin

text \<open>
  The file delete service (esp32p4/main/revlink_file_delete.c): the consent, the single delete in
  flight, the request it hands to the transport, and what it records of the outcome. The card and
  the transport are the environment: their answers are arguments, the calls on the card are the
  second result. A call that takes the lock is given whether it gets it in time.
\<close>

section \<open>The service\<close>

record delete_service =
  fd_mutex :: bool
  fd_started :: bool
  fd_consent_enabled :: bool
  fd_recovery_required :: bool
  fd_state :: delete_state
  fd_platform_error :: esp_err
  fd_path :: "u8 list"
  fd_forget_cached_copy :: bool

definition delete_service_zero :: delete_service where
  "delete_service_zero = \<lparr>fd_mutex = False, fd_started = False, fd_consent_enabled = False,
     fd_recovery_required = False, fd_state = DELETE_IDLE, fd_platform_error = ESP_OK,
     fd_path = replicate 256 0, fd_forget_cached_copy = False\<rparr>"

text \<open>What the service does to the card; the audit line carries the fields of the event.\<close>

datatype card_call = CARD_AUDIT delete_event | CARD_MARK_ABSENT "u8 list" | CARD_FORGET_CACHED "u8 list"

definition take_lock :: "delete_service \<Rightarrow> bool \<Rightarrow> bool" where
  "take_lock s in_time \<longleftrightarrow> fd_mutex s \<and> in_time"

text \<open>\<open>locks\<close> are the first and the second attempt in the order of the code.\<close>

definition observe_delete ::
  "bool \<times> bool \<Rightarrow> delete_event option \<Rightarrow> delete_service \<Rightarrow> delete_service \<times> card_call list" where
  "observe_delete locks event s =
     (case event of
        None \<Rightarrow> (s, [])
      | Some e \<Rightarrow>
          if \<not> take_lock s (fst locks) then (s, [])
          else let s = s\<lparr>fd_state := de_state e, fd_platform_error := de_platform_error e,
                   fd_recovery_required := de_recovery_required e\<rparr>;
                 path = c_str (dr_path (de_request e))
            in case de_state e of
                 DELETE_REMOVED \<Rightarrow>
                   (let also_forget = take_lock s (snd locks) \<and> fd_forget_cached_copy s
                    in (if take_lock s (snd locks) then s\<lparr>fd_forget_cached_copy := False\<rparr> else s,
                        [CARD_AUDIT e, CARD_MARK_ABSENT path]
                        @ (if also_forget then [CARD_FORGET_CACHED path] else [])))
               | DELETE_FAILED \<Rightarrow>
                   (if take_lock s (snd locks) then s\<lparr>fd_forget_cached_copy := False\<rparr> else s, [CARD_AUDIT e])
               | _ \<Rightarrow> (s, []))"

text \<open>\<open>created\<close>: the mutex could be created; \<open>configured\<close>: the answer of the transport.\<close>

definition file_delete_start :: "bool \<Rightarrow> esp_err \<Rightarrow> delete_service \<Rightarrow> esp_err \<times> delete_service" where
  "file_delete_start created configured s =
     (if fd_started s then (ESP_ERR_INVALID_STATE, s)
      else if \<not> created then (ESP_ERR_NO_MEM, s\<lparr>fd_mutex := False\<rparr>)
      else if configured \<noteq> ESP_OK then (configured, s\<lparr>fd_mutex := False\<rparr>)
      else (ESP_OK, s\<lparr>fd_mutex := True, fd_started := True, fd_consent_enabled := False,
              fd_state := DELETE_IDLE, fd_platform_error := ESP_OK\<rparr>))"

definition file_delete_set_consent :: "bool \<Rightarrow> bool \<Rightarrow> delete_service \<Rightarrow> esp_err \<times> delete_service" where
  "file_delete_set_consent in_time enabled s =
     (if \<not> fd_started s \<or> \<not> take_lock s in_time then (ESP_ERR_INVALID_STATE, s)
      else if fd_state s = DELETE_RUNNING then (ESP_ERR_INVALID_STATE, s)
      else (ESP_OK, s\<lparr>fd_consent_enabled := enabled\<rparr>))"

definition delete_request_of :: "u8 list \<Rightarrow> u8 list \<Rightarrow> device_info \<Rightarrow> delete_request option" where
  "delete_request_of path name identity =
     (case (copy_bounded 256 path, copy_bounded 128 name, copy_bounded 40 (di_part_number identity),
            copy_bounded 64 (di_serial identity)) of
        (Some p, Some n, Some part_number, Some serial) \<Rightarrow>
          Some \<lparr>dr_name = n, dr_path = p, dr_expected_part_number = part_number, dr_expected_serial = serial\<rparr>
      | _ \<Rightarrow> None)"

text \<open>
  The checks on the arguments: the path with its terminator removed and the name, or \<open>None\<close> for
  \<open>ESP_ERR_INVALID_ARG\<close>. The strings of an identity do not hold their terminator.
\<close>

definition delete_arguments ::
  "device_info option \<Rightarrow> u8 list option \<Rightarrow> (device_info \<times> u8 list \<times> u8 list) option" where
  "delete_arguments identity path =
     (case (identity, path) of
        (Some identity, Some memory) \<Rightarrow>
          (if c_str (di_part_number identity) = [] \<or> c_str (di_serial identity) = [] then None
           else let path_length = strnlen memory 256; path = take path_length memory in
             if path_length = 0 \<or> path_length \<ge> 256 \<or> validate_delete_target (Span path) \<noteq> AP_OK then None
             else case behind_last_slash path of
                    None \<Rightarrow> None
                  | Some name \<Rightarrow> if name = [] then None else Some (identity, path, name))
      | _ \<Rightarrow> None)"

text \<open>
  The third result is the request handed to the transport, whose answer is \<open>answer\<close>; the second
  lock is taken only for a refusal.
\<close>

definition file_delete_request ::
  "bool \<times> bool \<Rightarrow> esp_err \<Rightarrow> device_info option \<Rightarrow> u8 list option \<Rightarrow> bool \<Rightarrow> delete_service
   \<Rightarrow> esp_err \<times> delete_service \<times> delete_request option" where
  "file_delete_request locks answer identity path forget_cached_copy s =
     (case delete_arguments identity path of
        None \<Rightarrow> (ESP_ERR_INVALID_ARG, s, None)
      | Some (identity, path, name) \<Rightarrow>
          if \<not> take_lock s (fst locks) then (ESP_ERR_INVALID_STATE, s, None)
          else if \<not> fd_started s \<or> \<not> fd_consent_enabled s \<or> fd_state s = DELETE_RUNNING
            \<or> fd_recovery_required s then (ESP_ERR_INVALID_STATE, s, None)
          else case delete_request_of path name identity of
            None \<Rightarrow> (ESP_ERR_INVALID_ARG, s, None)
          | Some request \<Rightarrow>
              let s = s\<lparr>fd_state := DELETE_RUNNING, fd_platform_error := ESP_OK,
                    fd_forget_cached_copy := forget_cached_copy, fd_path := the (copy_bounded 256 path)\<rparr>
              in (answer,
                  if answer \<noteq> ESP_OK \<and> take_lock s (snd locks)
                  then s\<lparr>fd_state := DELETE_FAILED, fd_platform_error := answer\<rparr> else s,
                  Some request))"

record delete_snapshot =
  ss_deletes_compiled :: bool
  ss_consent_enabled :: bool
  ss_recovery_required :: bool
  ss_state :: delete_state
  ss_platform_error :: esp_err
  ss_path :: "u8 list"

definition file_delete_snapshot :: "bool \<Rightarrow> delete_service \<Rightarrow> esp_err \<times> delete_snapshot" where
  "file_delete_snapshot in_time s =
     (if \<not> fd_started s \<or> \<not> take_lock s in_time
      then (ESP_ERR_INVALID_STATE, \<lparr>ss_deletes_compiled = True, ss_consent_enabled = False,
              ss_recovery_required = False, ss_state = DELETE_IDLE, ss_platform_error = ESP_OK,
              ss_path = replicate 256 0\<rparr>)
      else (ESP_OK, \<lparr>ss_deletes_compiled = True, ss_consent_enabled = fd_consent_enabled s,
              ss_recovery_required = fd_recovery_required s, ss_state = fd_state s,
              ss_platform_error = fd_platform_error s, ss_path = fd_path s\<rparr>))"

section \<open>The service over time\<close>

text \<open>
  What happens: requests that the transport takes (with the wish to drop the cached copy), calls
  on the card, and consents.
\<close>

datatype delete_note = ASKED delete_request bool | ON_CARD card_call | CONSENT bool

text \<open>
  A state is the service and the request that the transport has taken and not answered with a final
  event. The transport reports only on that request, and may never do so.
\<close>

inductive delete_step ::
  "delete_service \<times> delete_request option \<Rightarrow> delete_note list \<Rightarrow> delete_service \<times> delete_request option \<Rightarrow> bool" where
  start: "file_delete_start created configured s = (err, s') \<Longrightarrow> delete_step (s, r) [] (s', r)"
| consent: "file_delete_set_consent in_time enabled s = (err, s') \<Longrightarrow>
    delete_step (s, r) (if err = ESP_OK then [CONSENT enabled] else []) (s', r)"
| refused: "file_delete_request locks answer identity path forget s = (err, s', None) \<Longrightarrow>
    delete_step (s, r) [] (s', r)"
| rejected: "file_delete_request locks answer identity path forget s = (err, s', Some request) \<Longrightarrow>
    answer \<noteq> ESP_OK \<Longrightarrow> delete_step (s, r) [] (s', r)"
| asked: "file_delete_request locks ESP_OK identity path forget s = (err, s', Some request) \<Longrightarrow>
    delete_step (s, r) [ASKED request forget] (s', Some request)"
| reported: "observe_delete locks (Some e) s = (s', calls) \<Longrightarrow> de_request e = request \<Longrightarrow>
    de_state e \<noteq> DELETE_IDLE \<Longrightarrow>
    delete_step (s, Some request) (map ON_CARD calls)
      (s', (if de_state e = DELETE_RUNNING then Some request else None))"

inductive delete_run ::
  "delete_service \<times> delete_request option \<Rightarrow> delete_note list \<Rightarrow> delete_service \<times> delete_request option \<Rightarrow> bool" where
  refl: "delete_run s [] s"
| step: "delete_run s ns s' \<Longrightarrow> delete_step s' ms s'' \<Longrightarrow> delete_run s (ns @ ms) s''"

abbreviation delete_starts :: "delete_note list \<Rightarrow> delete_service \<times> delete_request option \<Rightarrow> bool" where
  "delete_starts \<equiv> delete_run (delete_service_zero, None)"

section \<open>What a request needs\<close>

lemma request_passed:
  "file_delete_request locks answer identity path forget s = (err, s', Some request) \<longleftrightarrow>
   (\<exists>i p name. delete_arguments identity path = Some (i, p, name) \<and> delete_request_of p name i = Some request
      \<and> take_lock s (fst locks) \<and> fd_started s \<and> fd_consent_enabled s \<and> fd_state s \<noteq> DELETE_RUNNING
      \<and> \<not> fd_recovery_required s \<and> err = answer
      \<and> s' = (let s1 = s\<lparr>fd_state := DELETE_RUNNING, fd_platform_error := ESP_OK,
                    fd_forget_cached_copy := forget, fd_path := the (copy_bounded 256 p)\<rparr>
             in if answer \<noteq> ESP_OK \<and> take_lock s1 (snd locks)
                then s1\<lparr>fd_state := DELETE_FAILED, fd_platform_error := answer\<rparr> else s1))"
  by (auto simp: file_delete_request_def Let_def split: option.splits if_splits)

lemma request_effect:
  assumes "file_delete_request locks answer identity path forget s = (err, s', Some request)"
  shows "fd_started s" "fd_consent_enabled s" "fd_state s \<noteq> DELETE_RUNNING" "\<not> fd_recovery_required s" "fd_started s'"
    "fd_consent_enabled s'" "\<not> fd_recovery_required s'" "fd_forget_cached_copy s' = forget"
    "answer = ESP_OK \<Longrightarrow> fd_state s' = DELETE_RUNNING"
proof -
  define s1 where "s1 = s\<lparr>fd_state := DELETE_RUNNING, fd_platform_error := ESP_OK, fd_forget_cached_copy := forget,
    fd_path := fd_path s'\<rparr>"
  have "fd_started s \<and> fd_consent_enabled s \<and> fd_state s \<noteq> DELETE_RUNNING \<and> \<not> fd_recovery_required s
      \<and> (s' = s1 \<or> answer \<noteq> ESP_OK \<and> s' = s1\<lparr>fd_state := DELETE_FAILED, fd_platform_error := answer\<rparr>)"
    using assms unfolding request_passed Let_def s1_def by (elim exE conjE) (simp split: if_splits)
  then have g: "fd_started s" "fd_consent_enabled s" "fd_state s \<noteq> DELETE_RUNNING" "\<not> fd_recovery_required s"
    and e: "s' = s1 \<or> answer \<noteq> ESP_OK \<and> s' = s1\<lparr>fd_state := DELETE_FAILED, fd_platform_error := answer\<rparr>"
    by simp_all
  show "fd_started s" "fd_consent_enabled s" "fd_state s \<noteq> DELETE_RUNNING" "\<not> fd_recovery_required s"
    by (rule g)+
  have f: "fd_started s1" "fd_consent_enabled s1" "\<not> fd_recovery_required s1" "fd_forget_cached_copy s1 = forget"
    "fd_state s1 = DELETE_RUNNING" using g by (simp_all add: s1_def)
  show "fd_started s'" "fd_consent_enabled s'" "\<not> fd_recovery_required s'" "fd_forget_cached_copy s' = forget"
    using e f by (elim disjE; simp)+
  show "fd_state s' = DELETE_RUNNING" if "answer = ESP_OK" using e f(5) that by simp
qed

lemma observe_effect:
  assumes "observe_delete locks (Some e) s = (s', calls)"
  shows "fd_started s' = fd_started s" "fd_consent_enabled s' = fd_consent_enabled s"
    "de_state e = DELETE_RUNNING \<Longrightarrow> fd_state s = DELETE_RUNNING \<Longrightarrow> fd_state s' = DELETE_RUNNING"
    "de_state e = DELETE_RUNNING \<Longrightarrow> fd_forget_cached_copy s' = fd_forget_cached_copy s"
  using assms by (auto simp: observe_delete_def Let_def split: delete_state.splits if_splits)

lemma request_not_passed:
  "file_delete_request locks answer identity path forget s = (err, s', None) \<Longrightarrow> s' = s"
  by (auto simp: file_delete_request_def Let_def split: option.splits if_splits)

section \<open>Consent, and one delete at a time\<close>

text \<open>The last note of a kind.\<close>

fun consented :: "delete_note list \<Rightarrow> bool" where
  "consented [] = False"
| "consented (CONSENT b # ns) = b"
| "consented (n # ns) = consented ns"

text \<open>The notes are read backwards, the latest first.\<close>

definition last_consent :: "delete_note list \<Rightarrow> bool" where
  "last_consent ns = consented (rev ns)"

fun wishes :: "delete_note list \<Rightarrow> (delete_request \<times> bool) option" where
  "wishes [] = None"
| "wishes (ASKED r forget # ns) = Some (r, forget)"
| "wishes (n # ns) = wishes ns"

definition last_request :: "delete_note list \<Rightarrow> (delete_request \<times> bool) option" where
  "last_request ns = wishes (rev ns)"

lemma wishes_card [simp]: "wishes (map ON_CARD calls @ ns) = wishes ns"
  by (induction calls) simp_all

lemma consented_card [simp]: "consented (map ON_CARD calls @ ns) = consented ns"
  by (induction calls) simp_all

lemma last_notes [simp]:
  "last_consent [] = False" "last_request [] = None"
  "last_consent (ns @ [CONSENT b]) = b" "last_request (ns @ [CONSENT b]) = last_request ns"
  "last_consent (ns @ [ASKED r f]) = last_consent ns" "last_request (ns @ [ASKED r f]) = Some (r, f)"
  "last_consent (ns @ map ON_CARD calls) = last_consent ns" "last_request (ns @ map ON_CARD calls) = last_request ns"
  by (simp_all add: last_consent_def last_request_def rev_map)

definition delete_inv :: "delete_note list \<Rightarrow> delete_service \<times> delete_request option \<Rightarrow> bool" where
  "delete_inv ns st \<longleftrightarrow> (case st of (s, r) \<Rightarrow>
     (fd_started s \<longrightarrow> fd_consent_enabled s = last_consent ns)
     \<and> (\<not> fd_started s \<longrightarrow> \<not> last_consent ns \<and> r = None)
     \<and> (case r of None \<Rightarrow> True
        | Some request \<Rightarrow> fd_state s = DELETE_RUNNING \<and> last_request ns = Some (request, fd_forget_cached_copy s)))"

lemma delete_inv_step:
  assumes "delete_step st ms st'" and "delete_inv ns st"
  shows "delete_inv (ns @ ms) st'"
  using assms(1)
proof cases
  case (start created configured s err s' r)
  then show ?thesis using assms(2)
    by (auto simp: delete_inv_def file_delete_start_def split: if_splits option.splits)
next
  case (consent in_time enabled s err s' r)
  then show ?thesis using assms(2)
    by (auto simp: delete_inv_def file_delete_set_consent_def split: if_splits option.splits)
next
  case (refused locks answer identity path forget s err s' r)
  then show ?thesis using assms(2) request_not_passed [of locks answer identity path forget s err s'] by simp
next
  case (rejected locks answer identity path forget s err s' request r)
  then show ?thesis
    using assms(2) request_effect [of locks answer identity path forget s err s' request]
    by (cases r) (simp_all add: delete_inv_def)
next
  case (asked locks identity path forget s err s' request r)
  then show ?thesis
    using assms(2) request_effect [of locks ESP_OK identity path forget s err s' request]
    by (simp add: delete_inv_def)
next
  case (reported locks e s s' calls request)
  then show ?thesis
    using assms(2) observe_effect [OF reported(4)] by (simp add: delete_inv_def)
qed

lemma delete_inv_run: "delete_run st ns st' \<Longrightarrow> st = (delete_service_zero, None) \<Longrightarrow> delete_inv ns st'"
proof (induction rule: delete_run.induct)
  case (refl s)
  then show ?case by (simp add: delete_inv_def delete_service_zero_def)
next
  case (step s ns s' ms s'')
  then show ?case using delete_inv_step by blast
qed

section \<open>Where a note comes from\<close>

lemma asked_step: "delete_step st ms st' \<Longrightarrow> ASKED q f \<in> set ms \<Longrightarrow> ms = [ASKED q f]"
  by (cases rule: delete_step.cases) (auto split: if_splits)

lemma asked_source:
  "delete_run st ns st' \<Longrightarrow> ns = xs @ ASKED q f # ys \<Longrightarrow>
   \<exists>st1 st2. delete_run st xs st1 \<and> delete_step st1 [ASKED q f] st2"
proof (induction arbitrary: xs ys rule: delete_run.induct)
  case (step s ns s' ms s'')
  show ?case
  proof (cases "length xs < length ns")
    case True
    then obtain zs where "ns = xs @ ASKED q f # zs"
      using step.prems by (auto simp: append_eq_append_conv2 append_eq_Cons_conv)
    then show ?thesis by (rule step.IH)
  next
    case False
    then obtain zs where xs: "xs = ns @ zs" and ms: "ms = zs @ ASKED q f # ys"
      using step.prems by (auto simp: append_eq_append_conv2)
    then have e: "ms = [ASKED q f]" by (intro asked_step [OF step.hyps(2)]) simp
    then have "zs = []" using ms by (cases zs) simp_all
    then have "xs = ns" using xs by simp
    then show ?thesis using e step.hyps by (intro exI [of _ s'] exI [of _ s'']) simp
  qed
qed simp

lemma forget_step:
  assumes "delete_step st ms st'" and "ON_CARD (CARD_FORGET_CACHED path) \<in> set ms"
  obtains e s where "st = (s, Some (de_request e))" and "de_state e = DELETE_REMOVED"
    and "fd_forget_cached_copy s" and "path = c_str (dr_path (de_request e))"
    and "ms = [ON_CARD (CARD_AUDIT e), ON_CARD (CARD_MARK_ABSENT path), ON_CARD (CARD_FORGET_CACHED path)]"
  using assms
proof (cases rule: delete_step.cases)
  case (reported locks e s s' calls request)
  then have "CARD_FORGET_CACHED path \<in> set calls" using assms(2) by auto
  then show ?thesis
    using that [of s e] reported
    by (auto simp: observe_delete_def Let_def split: delete_state.splits if_splits)
qed (auto split: if_splits)

lemma forget_source:
  "delete_run st ns st' \<Longrightarrow> ns = xs @ ON_CARD (CARD_FORGET_CACHED path) # ys \<Longrightarrow>
   \<exists>pre e s. delete_run st pre (s, Some (de_request e)) \<and> fd_forget_cached_copy s \<and> de_state e = DELETE_REMOVED
     \<and> path = c_str (dr_path (de_request e))
     \<and> xs = pre @ [ON_CARD (CARD_AUDIT e), ON_CARD (CARD_MARK_ABSENT path)]"
proof (induction arbitrary: xs ys rule: delete_run.induct)
  case (step s ns s' ms s'')
  show ?case
  proof (cases "length xs < length ns")
    case True
    then obtain zs where "ns = xs @ ON_CARD (CARD_FORGET_CACHED path) # zs"
      using step.prems by (auto simp: append_eq_append_conv2 append_eq_Cons_conv)
    then show ?thesis by (rule step.IH)
  next
    case False
    then obtain zs where xs: "xs = ns @ zs" and ms: "ms = zs @ ON_CARD (CARD_FORGET_CACHED path) # ys"
      using step.prems by (auto simp: append_eq_append_conv2)
    then have "ON_CARD (CARD_FORGET_CACHED path) \<in> set ms" by simp
    then obtain e s1 where e: "s' = (s1, Some (de_request e))"
      "de_state e = DELETE_REMOVED" "fd_forget_cached_copy s1" "path = c_str (dr_path (de_request e))"
      and c: "ms = [ON_CARD (CARD_AUDIT e), ON_CARD (CARD_MARK_ABSENT path), ON_CARD (CARD_FORGET_CACHED path)]"
      by (rule forget_step [OF step.hyps(2)])
    have "zs = [ON_CARD (CARD_AUDIT e), ON_CARD (CARD_MARK_ABSENT path)]"
      using ms unfolding c by (auto simp: Cons_eq_append_conv)
    then show ?thesis
      by (intro exI [of _ ns] exI [of _ e] exI [of _ s1]) (use e xs step.hyps(1) in simp)
  qed
qed simp

section \<open>The guarantees\<close>

lemma arguments_ok:
  assumes "delete_arguments identity path = Some (i, p, name)"
  shows "validate_delete_target (Span p) = AP_OK \<and> behind_last_slash p = Some name \<and> c_str p = p \<and> c_str name = name"
proof -
  obtain memory where m: "strnlen memory 256 < 256" "p = take (strnlen memory 256) memory"
    "validate_delete_target (Span p) = AP_OK" "behind_last_slash p = Some name"
    using assms by (auto simp: delete_arguments_def Let_def not_le split: option.splits if_splits)
  have "p = c_str memory" using m(1,2) take_strnlen by simp
  then have "0 \<notin> set p" by (simp add: c_str_no_nul)
  moreover from this have "0 \<notin> set name" using behind_last_slash_set [OF m(4)] by blast
  ultimately show ?thesis using m(3,4) by (simp add: c_str_id)
qed

text \<open>
  C29. Every delete request that reaches the transport was asked for while the last consent given
  since the start was ON. It names a file directly inside an allowed directory, by its path and by
  what follows the last slash of it, and the part number and the serial of the identity given.
\<close>

theorem delete_needs_consent:
  assumes "delete_starts ns st" and "ns = xs @ ASKED request forget # ys"
  shows "last_consent xs
    \<and> validate_delete_target (Span (c_str (dr_path request))) = AP_OK
    \<and> behind_last_slash (c_str (dr_path request)) = Some (c_str (dr_name request))
    \<and> c_str (dr_expected_part_number request) \<noteq> [] \<and> c_str (dr_expected_serial request) \<noteq> []"
proof -
  obtain s r st2 where run: "delete_starts xs (s, r)" and s: "delete_step (s, r) [ASKED request forget] st2"
    using asked_source [OF assms] by (metis surj_pair)
  obtain locks identity path err s' where
    q: "file_delete_request locks ESP_OK identity path forget s = (err, s', Some request)"
    using s by (cases rule: delete_step.cases) (auto split: if_splits)
  have "delete_inv xs (s, r)" using delete_inv_run [OF run] by simp
  then have "last_consent xs" using request_effect(1,2) [OF q] by (simp add: delete_inv_def)
  moreover obtain i p name where a: "delete_arguments identity path = Some (i, p, name)"
    and d: "delete_request_of p name i = Some request" using q by (auto simp: request_passed)
  note p = arguments_ok [OF a]
  have "copy_bounded 256 p = Some (dr_path request)" "copy_bounded 128 name = Some (dr_name request)"
    "copy_bounded 40 (di_part_number i) = Some (dr_expected_part_number request)"
    "copy_bounded 64 (di_serial i) = Some (dr_expected_serial request)"
    using d by (auto simp: delete_request_of_def split: option.splits)
  from this [THEN copy_contents] show ?thesis using p calculation by auto
qed

text \<open>A run: the service starts, the owner consents, and a file goes with its cached copy.\<close>

definition demo_path :: "u8 list" where
  "demo_path = ascii ''maps/a.ptm''"

definition demo_info :: device_info where
  "demo_info = \<lparr>di_firmware = [], di_part_number = ascii ''AP3'', di_serial = ascii ''1'', di_install_status = [],
     di_vehicle = [], di_trailing_field = []\<rparr>"

definition demo_delete :: delete_request where
  "demo_delete = \<lparr>dr_name = ascii ''a.ptm'' @ replicate 123 0, dr_path = demo_path @ replicate 246 0,
     dr_expected_part_number = ascii ''AP3'' @ replicate 37 0, dr_expected_serial = ascii ''1'' @ replicate 63 0\<rparr>"

definition demo_removed :: delete_event where
  "demo_removed = \<lparr>de_state = DELETE_REMOVED, de_request = demo_delete, de_recovery_required = False,
     de_platform_error = ESP_OK\<rparr>"

definition demo_consented :: delete_service where
  "demo_consented = delete_service_zero\<lparr>fd_mutex := True, fd_started := True, fd_consent_enabled := True\<rparr>"

definition demo_running :: delete_service where
  "demo_running = demo_consented\<lparr>fd_state := DELETE_RUNNING, fd_forget_cached_copy := True,
     fd_path := demo_path @ replicate 246 0\<rparr>"

lemma demo_passed:
  "file_delete_request (True, True) ESP_OK (Some demo_info) (Some (demo_path @ [0])) True demo_consented
   = (ESP_OK, demo_running, Some demo_delete)"
  by code_simp

lemma demo_asked: "delete_starts [CONSENT True, ASKED demo_delete True] (demo_running, Some demo_delete)"
proof -
  let ?s = "delete_service_zero\<lparr>fd_mutex := True, fd_started := True\<rparr>"
  have "file_delete_start True ESP_OK delete_service_zero = (ESP_OK, ?s)"
    by (simp add: file_delete_start_def delete_service_zero_def)
  from delete_run.step [OF delete_run.refl delete_step.start [OF this]]
  have "delete_starts [] (?s, None)" by simp
  moreover have "file_delete_set_consent True True ?s = (ESP_OK, demo_consented)"
    by (simp add: file_delete_set_consent_def take_lock_def delete_service_zero_def demo_consented_def)
  ultimately have "delete_starts [CONSENT True] (demo_consented, None)"
    using delete_run.step [OF _ delete_step.consent] by fastforce
  from delete_run.step [OF this delete_step.asked [OF demo_passed]] show ?thesis by simp
qed

lemma demo_forgotten:
  "delete_starts ([CONSENT True, ASKED demo_delete True] @ [ON_CARD (CARD_AUDIT demo_removed),
     ON_CARD (CARD_MARK_ABSENT demo_path), ON_CARD (CARD_FORGET_CACHED demo_path)])
   (demo_running\<lparr>fd_state := DELETE_REMOVED, fd_forget_cached_copy := False\<rparr>, None)"
proof -
  have p: "c_str (dr_path demo_delete) = demo_path" by code_simp
  have "observe_delete (True, True) (Some demo_removed) demo_running
      = (demo_running\<lparr>fd_state := DELETE_REMOVED, fd_forget_cached_copy := False\<rparr>,
         [CARD_AUDIT demo_removed, CARD_MARK_ABSENT demo_path, CARD_FORGET_CACHED demo_path])"
    by (simp add: observe_delete_def take_lock_def demo_removed_def p demo_running_def demo_consented_def
        delete_service_zero_def)
  from delete_run.step [OF demo_asked delete_step.reported [OF this]] show ?thesis
    by (simp add: demo_removed_def)
qed

theorem delete_needs_consent_witness: "last_consent [CONSENT True]"
  using delete_needs_consent [OF demo_asked, of "[CONSENT True]" demo_delete True "[]"] by simp

text \<open>
  C30. The copy on the card is dropped only at the owner's wish and only after the device has
  confirmed the removal: right before it come the audit line of that removal and the mark that
  the file is absent, for the same path, and the latest request is the one removed, which asked
  for the copy to go.
\<close>

theorem forget_after_removal:
  assumes "delete_starts ns st" and "ns = xs @ ON_CARD (CARD_FORGET_CACHED path) # ys"
  shows "\<exists>pre e. xs = pre @ [ON_CARD (CARD_AUDIT e), ON_CARD (CARD_MARK_ABSENT path)]
    \<and> de_state e = DELETE_REMOVED \<and> path = c_str (dr_path (de_request e))
    \<and> last_request pre = Some (de_request e, True)"
proof -
  obtain pre e s where run: "delete_starts pre (s, Some (de_request e))" and f: "fd_forget_cached_copy s"
    and e: "de_state e = DELETE_REMOVED" "path = c_str (dr_path (de_request e))"
      "xs = pre @ [ON_CARD (CARD_AUDIT e), ON_CARD (CARD_MARK_ABSENT path)]"
    using forget_source [OF assms] by blast
  have "delete_inv pre (s, Some (de_request e))" using delete_inv_run [OF run] by simp
  then have "last_request pre = Some (de_request e, True)" using f by (simp add: delete_inv_def)
  then show ?thesis using e by blast
qed

theorem forget_after_removal_witness:
  "last_request [CONSENT True, ASKED demo_delete True] = Some (demo_delete, True)
   \<and> demo_path = c_str (dr_path demo_delete)"
  using forget_after_removal [OF demo_forgotten, of "[CONSENT True, ASKED demo_delete True,
     ON_CARD (CARD_AUDIT demo_removed), ON_CARD (CARD_MARK_ABSENT demo_path)]" demo_path "[]"] by (auto simp: demo_removed_def)

text \<open>
  A failed delete ends the deletes: once the recovery is required and no delete is in flight,
  no request reaches the transport any more, whatever the owner does and whatever is detached; only
  a restart of the sidecar clears the flag.
\<close>

lemma failed_delete_final:
  assumes "delete_run (s, None) ns (s', r')" and "fd_recovery_required s"
  shows "fd_recovery_required s' \<and> r' = None \<and> (\<forall>request forget. ASKED request forget \<notin> set ns)"
proof -
  have "fd_recovery_required (fst st') \<and> snd st' = None \<and> (\<forall>request forget. ASKED request forget \<notin> set ns)"
    if "delete_run st ns st'" "fd_recovery_required (fst st)" "snd st = None" for st st'
    using that
  proof (induction rule: delete_run.induct)
    case (step st ns st1 ms st2)
    then have st1: "fd_recovery_required (fst st1)" "snd st1 = None"
      and old: "\<forall>request forget. ASKED request forget \<notin> set ns" by auto
    have "fd_recovery_required (fst st2) \<and> snd st2 = None \<and> (\<forall>request forget. ASKED request forget \<notin> set ms)"
      using step.hyps(2)
    proof cases
      case (start created configured s err s' r)
      then show ?thesis using st1 by (auto simp: file_delete_start_def split: if_splits)
    next
      case (consent in_time enabled s err s' r)
      then show ?thesis using st1 by (auto simp: file_delete_set_consent_def split: if_splits)
    next
      case (refused locks answer identity path forget s err s' r)
      then show ?thesis using st1 request_not_passed by fastforce
    next
      case (rejected locks answer identity path forget s err s' request r)
      then show ?thesis using st1 request_effect(4) by fastforce
    next
      case (asked locks identity path forget s err s' request r)
      then show ?thesis using st1 request_effect(4) by fastforce
    qed (use st1 in simp)
    then show ?case using old by auto
  qed auto
  from this [OF assms(1)] assms(2) show ?thesis by simp
qed

theorem failed_delete_final_witness:
  "fd_recovery_required (demo_consented\<lparr>fd_recovery_required := True, fd_consent_enabled := False\<rparr>)"
proof -
  let ?s = "demo_consented\<lparr>fd_recovery_required := True\<rparr>"
  have "file_delete_set_consent True False ?s = (ESP_OK, ?s\<lparr>fd_consent_enabled := False\<rparr>)"
    by (simp add: file_delete_set_consent_def take_lock_def delete_service_zero_def demo_consented_def)
  from delete_run.step [OF delete_run.refl delete_step.consent [OF this]]
  have "delete_run (?s, None) [CONSENT False] (?s\<lparr>fd_consent_enabled := False\<rparr>, None)" by simp
  from failed_delete_final [OF this] show ?thesis by simp
qed

end
