(* ===== verification/Map_Staging.thy ===== *)
theory Map_Staging
  imports Staged_Map Bounded_Text Accessport_Targets
begin

text \<open>
  The staging half of the map write service (esp32p4/main/revlink_map_upload.c): a payload is
  streamed to a temporary file, hashed, renamed, and described by a metadata file that lets it
  survive a restart; after a restart it is restored only when everything about it verifies. The
  card is the state of four files; every change of it is recorded, so that a loss of power is any
  recorded card. SHA-256 is a parameter. Answers of the card are arguments.
\<close>

section \<open>The card\<close>

datatype upload_file = MAP_TEMP | MAP_STAGE | MAP_META | MAP_META_TEMP

type_synonym upload_card = "upload_file \<Rightarrow> u8 list option"

text \<open>The card and the cards that were passed through, the latest last.\<close>

type_synonym 'a card_io = "(upload_card \<times> upload_card list, 'a) state"

abbreviation (input) give :: "'a \<Rightarrow> 'a card_io" where "give \<equiv> State_Monad.return"

definition change :: "(upload_card \<Rightarrow> 'a \<times> upload_card) \<Rightarrow> 'a card_io" where
  "change f = State (\<lambda>(c, h). case f c of (x, c') \<Rightarrow> (x, c', h @ [c']))"

definition unlink_file :: "bool \<Rightarrow> upload_file \<Rightarrow> unit card_io" where
  "unlink_file ok p = change (\<lambda>c. ((), if ok then c(p := None) else c))"

text \<open>The file system does not replace an existing file.\<close>

definition rename_file :: "bool \<Rightarrow> upload_file \<Rightarrow> upload_file \<Rightarrow> bool card_io" where
  "rename_file ok p q = change (\<lambda>c.
     if ok \<and> c p \<noteq> None \<and> c q = None then (True, c(p := None, q := c p)) else (False, c))"

definition put_file :: "upload_file \<Rightarrow> u8 list \<Rightarrow> unit card_io" where
  "put_file p content = change (\<lambda>c. ((), c(p := Some content)))"

definition append_file :: "upload_file \<Rightarrow> u8 list \<Rightarrow> unit card_io" where
  "append_file p data = change (\<lambda>c. ((), c(p := Some (case c p of None \<Rightarrow> data | Some old \<Rightarrow> old @ data))))"

definition read_file :: "bool \<Rightarrow> upload_file \<Rightarrow> u8 list option card_io" where
  "read_file ok p = State (\<lambda>(c, h). (if ok then c p else None, c, h))"

text \<open>
  The answers during one operation: of \<open>unlink\<close> in the order of the calls, of \<open>fopen\<close>, of flushing
  the payload, of writing (with what a failed write leaves), of \<open>rename\<close> in order, of the reads, of the
  hash, and the number of bytes that a read of the metadata delivers at most.
\<close>

record card_answers =
  an_unlink :: "nat \<Rightarrow> bool"
  an_open :: bool
  an_open_stage :: bool
  an_flushed :: bool
  an_written :: bool
  an_partial :: "u8 list"
  an_rename :: "nat \<Rightarrow> bool"
  an_read :: bool
  an_hash :: bool
  an_metadata :: nat

section \<open>The service\<close>

text \<open>Text arrays are their strings; the open stream writes to the temporary file.\<close>

record map_service =
  ms_mutex :: bool
  ms_started :: bool
  ms_consent_enabled :: bool
  ms_auto_apply_enabled :: bool
  ms_staged :: bool
  ms_staging :: bool
  ms_source_open :: bool
  ms_recovery_required :: bool
  ms_auto_apply_attempted :: bool
  ms_kind :: upload_kind
  ms_stage_stream :: bool
  ms_source_stream :: "nat option"
  ms_stage_hash :: "u8 list"
  ms_stage_hash_active :: bool
  ms_expected_size :: u32
  ms_written_size :: u32
  ms_state :: upload_state
  ms_platform_error :: esp_err
  ms_name :: "u8 list"
  ms_destination :: "u8 list"
  ms_target_part_number :: "u8 list"
  ms_target_serial :: "u8 list"
  ms_sha256 :: "u8 list"

definition map_service_zero :: map_service where
  "map_service_zero = \<lparr>ms_mutex = False, ms_started = False, ms_consent_enabled = False,
     ms_auto_apply_enabled = False, ms_staged = False, ms_staging = False, ms_source_open = False,
     ms_recovery_required = False, ms_auto_apply_attempted = False, ms_kind = UPLOAD_MAP,
     ms_stage_stream = False, ms_source_stream = None, ms_stage_hash = [],
     ms_stage_hash_active = False, ms_expected_size = 0, ms_written_size = 0,
     ms_state = UPLOAD_IDLE, ms_platform_error = ESP_OK, ms_name = [], ms_destination = [],
     ms_target_part_number = [], ms_target_serial = [], ms_sha256 = replicate 32 0\<rparr>"

definition map_lock :: "map_service \<Rightarrow> bool \<Rightarrow> bool" where
  "map_lock s in_time \<longleftrightarrow> ms_mutex s \<and> in_time"

text \<open>A string copied into an array of the service.\<close>

definition copy_text :: "nat \<Rightarrow> u8 list \<Rightarrow> u8 list option" where
  "copy_text capacity input = map_option c_str (copy_bounded capacity input)"

section \<open>Removing\<close>

definition remove_staged_files :: "card_answers \<Rightarrow> nat \<Rightarrow> unit card_io" where
  "remove_staged_files a k = do {
     unlink_file (an_unlink a k) MAP_META;
     unlink_file (an_unlink a (k + 1)) MAP_META_TEMP;
     unlink_file (an_unlink a (k + 2)) MAP_STAGE }"

definition discard_staged :: "card_answers \<Rightarrow> nat \<Rightarrow> map_service \<Rightarrow> map_service card_io" where
  "discard_staged a k s = do {
     remove_staged_files a k;
     give (s\<lparr>ms_staged := False, ms_target_part_number := [], ms_target_serial := []\<rparr>) }"

section \<open>The metadata\<close>

definition staged_kind :: "upload_kind \<Rightarrow> sm_kind" where
  "staged_kind kind = (if kind = UPLOAD_STARTUP_SCREEN then SM_KIND_STARTUP_IMAGE else SM_KIND_MAP)"

definition staged_record :: "map_service \<Rightarrow> sm_record option" where
  "staged_record s =
     (case (copy_bounded 128 (ms_name s), copy_bounded 256 (ms_destination s),
            copy_bounded 40 (ms_target_part_number s), copy_bounded 64 (ms_target_serial s)) of
        (Some name, Some destination, Some part_number, Some serial) \<Rightarrow>
          Some \<lparr>sm_kind = staged_kind (ms_kind s), sm_size = ms_expected_size s, sm_sha256 = ms_sha256 s,
            sm_name = name, sm_destination = destination, sm_target_part_number = part_number,
            sm_target_serial = serial\<rparr>
      | _ \<Rightarrow> None)"

definition encoded_record :: "map_service \<Rightarrow> u8 list option" where
  "encoded_record s =
     (case staged_record s of None \<Rightarrow> None
      | Some r \<Rightarrow>
          (case staged_map_encode (Some r) (Span (replicate 540 0)) None of
             (status, out, _) \<Rightarrow> if status = SM_OK then Some (sbytes out) else None))"

definition write_metadata :: "card_answers \<Rightarrow> nat \<Rightarrow> map_service \<Rightarrow> bool card_io" where
  "write_metadata a k s =
     (case encoded_record s of
        None \<Rightarrow> give False
      | Some encoded \<Rightarrow>
          if \<not> an_open a then give False
          else do {
            put_file MAP_META_TEMP [];
            put_file MAP_META_TEMP (if an_written a then encoded else an_partial a);
            if \<not> an_written a then do {
              unlink_file (an_unlink a k) MAP_META_TEMP;
              give False }
            else do {
              unlink_file (an_unlink a k) MAP_META;
              renamed \<leftarrow> rename_file (an_rename a 1) MAP_META_TEMP MAP_META;
              if renamed then give True
              else do {
                unlink_file (an_unlink a (k + 1)) MAP_META_TEMP;
                give False } } })"

section \<open>Restoring\<close>

text \<open>
  The loop over the payload: chunks of 4096 bytes, the number of bytes hashed so far and the bytes
  themselves. \<open>None\<close> is the end with \<open>ok\<close> false.
\<close>

function hash_payload :: "nat \<Rightarrow> nat \<Rightarrow> u8 list \<Rightarrow> u8 list \<Rightarrow> (nat \<times> u8 list) option" where
  "hash_payload limit seen hashed content =
     (let chunk = take 4096 content in
      if length chunk = 0 then Some (seen, hashed)
      else if length chunk > limit - seen then None
      else hash_payload limit (seen + length chunk) (hashed @ chunk) (drop 4096 content))"
  by auto
termination by (relation "measure (\<lambda>(_, _, _, content). length content)") auto

declare hash_payload.simps [simp del]

definition staged_payload_digest_matches ::
  "(u8 list \<Rightarrow> u8 list) \<Rightarrow> card_answers \<Rightarrow> sm_record \<Rightarrow> bool card_io" where
  "staged_payload_digest_matches sha a r = do {
     stream \<leftarrow> read_file (an_open_stage a) MAP_STAGE;
     give (case stream of
         None \<Rightarrow> False
       | Some content \<Rightarrow>
           an_hash a \<and> an_read a \<and>
           (case hash_payload (unat (sm_size r)) 0 [] content of
              None \<Rightarrow> False
            | Some (seen, hashed) \<Rightarrow> seen = unat (sm_size r) \<and> sha hashed = sm_sha256 r)) }"

text \<open>The text of a record that the service takes over; what the decoder returns always fits (\<open>restore_fields_fit\<close>).\<close>

definition restore_fields :: "sm_record \<Rightarrow> map_service \<Rightarrow> map_service option" where
  "restore_fields r s =
     (case (copy_text 128 (sm_name r), copy_text 256 (sm_destination r),
            copy_text 40 (sm_target_part_number r), copy_text 64 (sm_target_serial r)) of
        (Some name, Some destination, Some part_number, Some serial) \<Rightarrow>
          Some (s\<lparr>ms_name := name, ms_destination := destination,
            ms_target_part_number := part_number, ms_target_serial := serial\<rparr>)
      | _ \<Rightarrow> None)"

definition record_zero :: sm_record where
  "record_zero = \<lparr>sm_kind = SM_KIND_MAP, sm_size = 0, sm_sha256 = replicate 32 0, sm_name = [],
     sm_destination = [], sm_target_part_number = [], sm_target_serial = []\<rparr>"

definition restore_staged ::
  "(u8 list \<Rightarrow> u8 list) \<Rightarrow> card_answers \<Rightarrow> nat \<Rightarrow> map_service \<Rightarrow> map_service card_io" where
  "restore_staged sha a k s = do {
     stream \<leftarrow> read_file (an_open a) MAP_META;
     case stream of
       None \<Rightarrow> do { unlink_file (an_unlink a k) MAP_STAGE; give s }
     | Some content \<Rightarrow>
         (case staged_map_decode (Span (take (min 540 (an_metadata a)) content)) (Some record_zero) of
            (status, decoded) \<Rightarrow>
              if status \<noteq> SM_OK then discard_staged a k s
              else let r = the decoded in
                case validate_upload_target (Span (c_str (sm_destination r))) (sm_size r) (Some UPLOAD_MAP) of
                  (verdict, kind) \<Rightarrow>
                    if verdict \<noteq> AP_OK then discard_staged a k s
                    else do {
                      matches \<leftarrow> staged_payload_digest_matches sha a r;
                      if \<not> matches then discard_staged a k s
                      else let s = s\<lparr>ms_kind := the kind, ms_expected_size := sm_size r, ms_sha256 := sm_sha256 r\<rparr> in
                        case restore_fields r s of
                          None \<Rightarrow> discard_staged a k s
                        | Some s \<Rightarrow> give (s\<lparr>ms_staged := True\<rparr>) }) }"

text \<open>\<open>directory\<close>: the upload directory exists; \<open>created\<close>: the mutex was created.\<close>

definition map_upload_start ::
  "(u8 list \<Rightarrow> u8 list) \<Rightarrow> card_answers \<Rightarrow> bool \<Rightarrow> bool \<Rightarrow> map_service \<Rightarrow> (esp_err \<times> map_service) card_io" where
  "map_upload_start sha a directory created s =
     (if ms_started s then give (ESP_ERR_INVALID_STATE, s)
      else if \<not> directory then give (ESP_FAIL, s)
      else if \<not> created then give (ESP_ERR_NO_MEM, s\<lparr>ms_mutex := False\<rparr>)
      else do {
        unlink_file (an_unlink a 0) MAP_TEMP;
        unlink_file (an_unlink a 1) MAP_META_TEMP;
        s \<leftarrow> restore_staged sha a 2 (s\<lparr>ms_mutex := True, ms_started := True, ms_consent_enabled := False,
          ms_auto_apply_enabled := False, ms_auto_apply_attempted := False, ms_state := UPLOAD_IDLE,
          ms_platform_error := ESP_OK\<rparr>);
        give (ESP_OK, s) })"

section \<open>Staging\<close>

definition reset_stage_writer :: "card_answers \<Rightarrow> nat \<Rightarrow> map_service \<Rightarrow> map_service card_io" where
  "reset_stage_writer a k s = do {
     unlink_file (an_unlink a k) MAP_TEMP;
     give (s\<lparr>ms_stage_stream := False, ms_stage_hash_active := False, ms_staging := False,
       ms_expected_size := 0, ms_written_size := 0\<rparr>) }"

text \<open>The kind of a payload whose name and destination are acceptable.\<close>

definition stage_target :: "u8 list option \<Rightarrow> u8 list option \<Rightarrow> u32 \<Rightarrow> (u8 list \<times> u8 list \<times> upload_kind) option" where
  "stage_target name destination bytes =
     (case (name, destination) of
        (Some name, Some destination) \<Rightarrow>
          (let name = c_str name; destination = c_str destination in
           if behind_last_slash destination \<noteq> Some name \<or> bytes = 0 \<or> bytes > of_nat AP_MAX_CHUNK_PAYLOAD then None
           else case validate_upload_target (Span destination) bytes (Some UPLOAD_MAP) of
             (verdict, kind) \<Rightarrow> if verdict \<noteq> AP_OK then None else Some (name, destination, the kind))
      | _ \<Rightarrow> None)"

definition stage_begin ::
  "card_answers \<Rightarrow> bool \<Rightarrow> u8 list option \<Rightarrow> u8 list option \<Rightarrow> u32 \<Rightarrow> map_service
   \<Rightarrow> (esp_err \<times> map_service) card_io" where
  "stage_begin a in_time name destination bytes s =
     (case (if ms_started s then stage_target name destination bytes else None) of
        None \<Rightarrow> give (ESP_ERR_INVALID_ARG, s)
      | Some (name, destination, kind) \<Rightarrow>
          if \<not> map_lock s in_time then give (ESP_ERR_INVALID_ARG, s)
          else if ms_staging s \<or> ms_source_open s \<or> ms_state s = UPLOAD_RUNNING
          then give (ESP_ERR_INVALID_STATE, s)
          else do {
            s \<leftarrow> reset_stage_writer a 0 s;
            case copy_text 128 name of
              None \<Rightarrow> give (ESP_ERR_INVALID_ARG, s)
            | Some name \<Rightarrow>
                let s = s\<lparr>ms_name := name\<rparr> in
                case copy_text 256 destination of
                  None \<Rightarrow> give (ESP_ERR_INVALID_ARG, s)
                | Some destination \<Rightarrow>
                    let s = s\<lparr>ms_destination := destination, ms_stage_hash := []\<rparr> in do {
                      (if an_open a then put_file MAP_TEMP [] else give ());
                      if \<not> an_open a \<or> \<not> an_hash a then do {
                        s \<leftarrow> reset_stage_writer a 1 s;
                        give (ESP_FAIL, s) }
                      else give (ESP_OK, s\<lparr>ms_stage_stream := True, ms_stage_hash_active := True,
                        ms_staging := True, ms_staged := False, ms_target_part_number := [],
                        ms_target_serial := [], ms_expected_size := bytes, ms_kind := kind,
                        ms_written_size := 0, ms_state := UPLOAD_IDLE, ms_platform_error := ESP_OK\<rparr>) } })"

definition stage_set_target ::
  "bool \<Rightarrow> u8 list option \<Rightarrow> u8 list option \<Rightarrow> map_service \<Rightarrow> esp_err \<times> map_service" where
  "stage_set_target in_time part_number serial s =
     (case (part_number, serial) of
        (Some part_number, Some serial) \<Rightarrow>
          if \<not> map_lock s in_time then (ESP_ERR_INVALID_ARG, s)
          else if \<not> ms_staging s then (ESP_ERR_INVALID_STATE, s)
          else (case (copy_text 40 part_number, copy_text 64 serial) of
              (Some p, Some q) \<Rightarrow> (ESP_OK, s\<lparr>ms_target_part_number := p, ms_target_serial := q\<rparr>)
            | _ \<Rightarrow> (ESP_ERR_INVALID_ARG, s\<lparr>ms_target_part_number := [], ms_target_serial := []\<rparr>))
      | _ \<Rightarrow> (ESP_ERR_INVALID_ARG, s))"

definition stage_write ::
  "card_answers \<Rightarrow> bool \<Rightarrow> u8 list option \<Rightarrow> map_service \<Rightarrow> (esp_err \<times> map_service) card_io" where
  "stage_write a in_time data s =
     (case data of
        None \<Rightarrow> give (ESP_ERR_INVALID_ARG, s)
      | Some data \<Rightarrow>
          if length data = 0 \<or> \<not> map_lock s in_time then give (ESP_ERR_INVALID_ARG, s)
          else if \<not> ms_staging s \<or> \<not> ms_stage_stream s
            \<or> length data > unat (ms_expected_size s - ms_written_size s)
          then do { s \<leftarrow> reset_stage_writer a 0 s; give (ESP_FAIL, s) }
          else do {
            append_file MAP_TEMP (if an_written a then data else an_partial a);
            if \<not> an_written a \<or> \<not> an_hash a
            then do { s \<leftarrow> reset_stage_writer a 0 s; give (ESP_FAIL, s) }
            else give (ESP_OK, s\<lparr>ms_stage_hash := ms_stage_hash s @ data,
              ms_written_size := ms_written_size s + of_nat (length data)\<rparr>) })"

definition stage_commit ::
  "(u8 list \<Rightarrow> u8 list) \<Rightarrow> card_answers \<Rightarrow> bool \<Rightarrow> map_service \<Rightarrow> (esp_err \<times> map_service) card_io" where
  "stage_commit sha a in_time s =
     (if \<not> map_lock s in_time then give (ESP_ERR_INVALID_STATE, s)
      else
        let flushed = ms_staging s \<and> ms_stage_stream s \<and> ms_written_size s = ms_expected_size s \<and> an_flushed a;
            valid = flushed \<and> an_hash a;
            s = s\<lparr>ms_sha256 := (if valid then sha (ms_stage_hash s) else ms_sha256 s),
              ms_stage_hash_active := False, ms_stage_stream := False, ms_staging := False\<rparr>
        in do {
          (if valid then remove_staged_files a 0 else give ());
          renamed \<leftarrow> (if valid then rename_file (an_rename a 0) MAP_TEMP MAP_STAGE else give False);
          if \<not> renamed then do {
            unlink_file (an_unlink a 3) MAP_TEMP;
            s \<leftarrow> discard_staged a 4 s;
            give (ESP_FAIL, s) }
          else if ms_target_serial s = [] then give (ESP_OK, s\<lparr>ms_staged := True\<rparr>)
          else do {
            persisted \<leftarrow> write_metadata a 3 s;
            if persisted then give (ESP_OK, s\<lparr>ms_staged := True\<rparr>)
            else do {
              s \<leftarrow> discard_staged a 5 s;
              give (ESP_FAIL, s) } } })"

definition stage_abort :: "card_answers \<Rightarrow> bool \<Rightarrow> map_service \<Rightarrow> map_service card_io" where
  "stage_abort a in_time s = (if \<not> map_lock s in_time then give s else reset_stage_writer a 0 s)"

definition map_upload_discard :: "card_answers \<Rightarrow> bool \<Rightarrow> map_service \<Rightarrow> (esp_err \<times> map_service) card_io" where
  "map_upload_discard a in_time s =
     (if \<not> ms_started s \<or> \<not> map_lock s in_time then give (ESP_ERR_INVALID_STATE, s)
      else if ms_staging s \<or> ms_state s = UPLOAD_RUNNING then give (ESP_ERR_INVALID_STATE, s)
      else do {
        s \<leftarrow> discard_staged a 0 s;
        give (ESP_OK, s\<lparr>ms_name := [], ms_destination := [], ms_expected_size := 0,
          ms_state := UPLOAD_IDLE, ms_platform_error := ESP_OK\<rparr>) })"

section \<open>Running\<close>

named_theorems card_run

lemma run_change [card_run]: "run_state (change f) (c, h) = (case f c of (x, c') \<Rightarrow> (x, c', h @ [c']))"
  by (simp add: change_def)

lemma run_give [card_run]: "run_state (give x) w = (x, w)"
  by (simp add: State_Monad.return_def)

lemma run_read [card_run]: "run_state (read_file ok p) (c, h) = (if ok then c p else None, c, h)"
  by (simp add: read_file_def)

lemma run_bind [card_run]:
  "run_state (State_Monad.bind m f) w = (case run_state m w of (x, w') \<Rightarrow> run_state (f x) w')"
  by (simp add: State_Monad.bind_def)

lemma run_unlink [card_run]: "run_state (unlink_file ok p) (c, h) =
    ((), if ok then c(p := None) else c, h @ [if ok then c(p := None) else c])"
  by (simp add: unlink_file_def run_change)

lemma run_put [card_run]: "run_state (put_file p content) (c, h) =
    ((), c(p := Some content), h @ [c(p := Some content)])"
  by (simp add: put_file_def run_change)

lemma run_rename [card_run]: "run_state (rename_file ok p q) (c, h) =
    (if ok \<and> c p \<noteq> None \<and> c q = None then (True, c(p := None, q := c p), h @ [c(p := None, q := c p)])
     else (False, c, h @ [c]))"
  by (simp add: rename_file_def run_change)

lemma run_append_file [card_run]: "run_state (append_file p data) (c, h) =
    ((), c(p := Some (case c p of None \<Rightarrow> data | Some old \<Rightarrow> old @ data)),
     h @ [c(p := Some (case c p of None \<Rightarrow> data | Some old \<Rightarrow> old @ data))])"
  by (simp add: append_file_def run_change)

section \<open>The digest of the payload\<close>

lemma hash_payload_exact:
  "seen \<le> limit \<Longrightarrow> hash_payload limit seen hashed content =
    (if seen + length content \<le> limit then Some (seen + length content, hashed @ content) else None)"
proof (induction limit seen hashed content rule: hash_payload.induct)
  case (1 limit seen hashed content)
  show ?case
  proof (cases "length (take 4096 content) = 0 \<or> length (take 4096 content) > limit - seen")
    case True
    then show ?thesis using "1.prems" by (subst hash_payload.simps) (auto simp: Let_def min_def)
  next
    case False
    then have "hash_payload limit (seen + length (take 4096 content)) (hashed @ take 4096 content) (drop 4096 content)
        = (if seen + length (take 4096 content) + length (drop 4096 content) \<le> limit
           then Some (seen + length (take 4096 content) + length (drop 4096 content),
                      (hashed @ take 4096 content) @ drop 4096 content) else None)"
      using "1.prems" by (intro "1.IH") auto
    moreover have "length (take 4096 content) + length (drop 4096 content) = length content"
      by (metis append_take_drop_id length_append)
    ultimately show ?thesis
      using False by (subst hash_payload.simps) (auto simp: Let_def add.assoc min_def)
  qed
qed

text \<open>The payload that a record describes.\<close>

definition describes :: "(u8 list \<Rightarrow> u8 list) \<Rightarrow> sm_record \<Rightarrow> u8 list \<Rightarrow> bool" where
  "describes sha r payload \<longleftrightarrow> length payload = unat (sm_size r) \<and> sha payload = sm_sha256 r"

lemma run_matches [card_run]:
  "run_state (staged_payload_digest_matches sha a r) (c, h) =
    ((case c MAP_STAGE of None \<Rightarrow> False
      | Some payload \<Rightarrow> an_open_stage a \<and> an_hash a \<and> an_read a \<and> describes sha r payload), c, h)"
  by (auto simp: staged_payload_digest_matches_def card_run hash_payload_exact describes_def split: option.split)

section \<open>Restoring after a restart\<close>

text \<open>What a restart accepts: a record that decodes, an allowed destination, the payload it describes.\<close>

definition restorable :: "(u8 list \<Rightarrow> u8 list) \<Rightarrow> upload_card \<Rightarrow> sm_record \<Rightarrow> u8 list \<Rightarrow> bool" where
  "restorable sha c r payload \<longleftrightarrow>
     (\<exists>content. c MAP_META = Some content
        \<and> staged_map_decode (Span (take 540 content)) (Some record_zero) = (SM_OK, Some r))
     \<and> fst (validate_upload_target (Span (c_str (sm_destination r))) (sm_size r) (Some UPLOAD_MAP)) = AP_OK
     \<and> c MAP_STAGE = Some payload \<and> describes sha r payload"

text \<open>The service that has taken over a record.\<close>

definition carries :: "sm_record \<Rightarrow> map_service \<Rightarrow> bool" where
  "carries r s \<longleftrightarrow> ms_expected_size s = sm_size r \<and> ms_sha256 s = sm_sha256 r
     \<and> ms_name s = c_str (sm_name r) \<and> ms_destination s = c_str (sm_destination r)
     \<and> ms_target_part_number s = c_str (sm_target_part_number r)
     \<and> ms_target_serial s = c_str (sm_target_serial r)
     \<and> snd (validate_upload_target (Span (ms_destination s)) (ms_expected_size s) (Some UPLOAD_MAP)) = Some (ms_kind s)"

lemma get_string_fits: "get_string b offset capacity = Some x \<Longrightarrow> fits capacity x \<and> length x = capacity"
proof -
  assume a: "get_string b offset capacity = Some x"
  let ?n = "strnlen (drop offset b) capacity"
  have n: "0 < ?n" "?n < capacity" and x: "x = take ?n (drop offset b) @ replicate (capacity - ?n) 0"
    using a by (auto simp: get_string_def Let_def split: if_splits)
  have t: "take ?n (drop offset b) = c_str (drop offset b)" using n(2) by (rule take_strnlen)
  have len: "length (take ?n (drop offset b)) = ?n"
    using n(2) by (metis strnlen_prefix strnlen_def)
  obtain m where m: "capacity - ?n = Suc m" using n(2) by (cases "capacity - ?n") auto
  have "c_str x = c_str (drop offset b)"
    using c_str_terminated [OF c_str_no_nul] by (simp add: x t m)
  moreover have lx: "length x = capacity" using n(2) len by (simp only: x length_append length_replicate)
  moreover have "take capacity x = x" using lx by simp
  ultimately have "strnlen x capacity = ?n" using len unfolding t by (simp only: strnlen_def)
  then show ?thesis using n lx by (simp add: fits_def)
qed

lemma fits_c_str: "fits capacity x \<Longrightarrow> c_str x \<noteq> [] \<and> length (c_str x) < capacity"
  by (metis copy_contents copy_bounded_def fits_def not_less option.distinct(1) take_strnlen strnlen_prefix strnlen_def length_greater_0_conv)

lemma copy_text_fits: "fits capacity x \<Longrightarrow> copy_text capacity x = Some (c_str x)"
proof -
  assume f: "fits capacity x"
  then obtain out where "copy_bounded capacity x = Some out" by (auto simp: fits_def copy_bounded_def Let_def)
  then show ?thesis using copy_contents by (fastforce simp: copy_text_def)
qed

lemma decoded_fits:
  "staged_map_decode buf (Some r0) = (SM_OK, Some r) \<Longrightarrow>
    fits 128 (sm_name r) \<and> fits 256 (sm_destination r) \<and> fits 40 (sm_target_part_number r)
    \<and> fits 64 (sm_target_serial r) \<and> sm_size r \<noteq> 0"
  by (auto simp: staged_map_decode_def Let_def split: if_splits option.splits Option.bind_splits
      dest: get_string_fits)

lemma restore_fields_fit:
  assumes "staged_map_decode buf (Some r0) = (SM_OK, Some r)"
  shows "restore_fields r s = Some (s\<lparr>ms_name := c_str (sm_name r), ms_destination := c_str (sm_destination r),
    ms_target_part_number := c_str (sm_target_part_number r), ms_target_serial := c_str (sm_target_serial r)\<rparr>)"
  using decoded_fits [OF assms] by (simp add: restore_fields_def copy_text_fits)

lemma decoded_some:
  "staged_map_decode buf (Some r0) = (SM_OK, decoded) \<Longrightarrow> \<exists>r. decoded = Some r"
  by (auto simp: staged_map_decode_def Let_def split: if_splits option.splits) (metis+)

definition taken :: "sm_record \<Rightarrow> map_service \<Rightarrow> map_service" where
  "taken r s = s\<lparr>ms_staged := True, ms_expected_size := sm_size r, ms_sha256 := sm_sha256 r,
     ms_kind := the (snd (validate_upload_target (Span (c_str (sm_destination r))) (sm_size r) (Some UPLOAD_MAP))),
     ms_name := c_str (sm_name r), ms_destination := c_str (sm_destination r),
     ms_target_part_number := c_str (sm_target_part_number r),
     ms_target_serial := c_str (sm_target_serial r)\<rparr>"

lemma allowed_kind:
  "fst (validate_upload_target path bytes (Some k)) = AP_OK \<Longrightarrow>
    \<exists>kind. snd (validate_upload_target path bytes (Some k)) = Some kind"
  by (auto simp: validate_upload_target_def Let_def split: if_splits)

lemma taken_carries: "restorable sha c r payload \<Longrightarrow> carries r (taken r s) \<and> ms_staged (taken r s)"
  unfolding restorable_def carries_def taken_def by (auto dest: allowed_kind)

definition reads_fine :: "card_answers \<Rightarrow> bool" where
  "reads_fine a \<longleftrightarrow> an_open a \<and> an_open_stage a \<and> an_hash a \<and> an_read a \<and> 540 \<le> an_metadata a"

text \<open>A record that is cut short is not decoded.\<close>

lemma short_record: "length bytes < 540 \<Longrightarrow> fst (staged_map_decode (Span bytes) (Some r)) \<noteq> SM_OK"
  by (auto simp: staged_map_decode_def Let_def)

lemma run_remove [card_run]:
  "run_state (remove_staged_files a k) (c, h) =
    (let c1 = if an_unlink a k then c(MAP_META := None) else c;
         c2 = if an_unlink a (k + 1) then c1(MAP_META_TEMP := None) else c1;
         c3 = if an_unlink a (k + 2) then c2(MAP_STAGE := None) else c2
     in ((), c3, h @ [c1, c2, c3]))"
  by (simp add: remove_staged_files_def card_run Let_def)

lemma run_discard [card_run]:
  "run_state (discard_staged a k s) w =
    (case run_state (remove_staged_files a k) w of
       (_, w') \<Rightarrow> (s\<lparr>ms_staged := False, ms_target_part_number := [], ms_target_serial := []\<rparr>, w'))"
  by (simp add: discard_staged_def card_run split: prod.split)

lemma restore_outcome:
  assumes "run_state (restore_staged sha a k s) (c, h) = (s', c', h')"
    and "\<not> ms_staged s" "ms_target_part_number s = []" "ms_target_serial s = []"
  shows "if reads_fine a \<and> (\<exists>r payload. restorable sha c r payload)
    then c' = c \<and> (\<exists>r payload. restorable sha c r payload \<and> s' = taken r s)
    else s' = s \<and> ((\<forall>i. an_unlink a i) \<longrightarrow> c' MAP_STAGE = None)"
proof -
  have blank: "s\<lparr>ms_staged := False, ms_target_part_number := [], ms_target_serial := []\<rparr> = s"
    using assms(2-4) by simp
  show ?thesis
  proof (cases "if an_open a then c MAP_META else None")
    case None
    then have "\<not> (reads_fine a \<and> (\<exists>r payload. restorable sha c r payload))"
      by (auto simp: reads_fine_def restorable_def split: if_splits)
    moreover have "s' = s \<and> ((\<forall>i. an_unlink a i) \<longrightarrow> c' MAP_STAGE = None)"
      using assms(1) None by (auto simp: restore_staged_def card_run)
    ultimately show ?thesis by simp
  next
    case (Some content)
    then have o: "an_open a" and m: "c MAP_META = Some content" by (auto split: if_splits)
    let ?bytes = "take (min 540 (an_metadata a)) content"
    obtain status decoded where d: "staged_map_decode (Span ?bytes) (Some record_zero) = (status, decoded)"
      by fastforce
    have whole: "540 \<le> an_metadata a \<and> ?bytes = take 540 content" if "status = SM_OK"
    proof -
      have "540 \<le> length ?bytes" using short_record [of ?bytes record_zero] d that by (cases "length ?bytes < 540") auto
      then have "540 \<le> an_metadata a" unfolding length_take by linarith
      then show ?thesis by simp
    qed
    define r where "r = the decoded"
    define v where "v = validate_upload_target (Span (c_str (sm_destination r))) (sm_size r) (Some UPLOAD_MAP)"
    define fine where "fine \<longleftrightarrow> (case c MAP_STAGE of None \<Rightarrow> False
      | Some payload \<Rightarrow> an_open_stage a \<and> an_hash a \<and> an_read a \<and> describes sha r payload)"
    have some: "status = SM_OK \<Longrightarrow> decoded = Some r"
      using d decoded_some by (fastforce simp: r_def)
    have iff: "reads_fine a \<and> (\<exists>r payload. restorable sha c r payload) \<longleftrightarrow>
        status = SM_OK \<and> fst v = AP_OK \<and> fine"
    proof (cases "540 \<le> an_metadata a")
      case True
      then have "?bytes = take 540 content" by simp
      then show ?thesis
        using some o True d by (auto simp: reads_fine_def restorable_def m v_def fine_def split: option.splits)
    next
      case False
      then show ?thesis using whole by (auto simp: reads_fine_def)
    qed
    show ?thesis
    proof (cases "status = SM_OK \<and> fst v = AP_OK \<and> fine")
      case True
      have "restore_fields r t = Some (t\<lparr>ms_name := c_str (sm_name r), ms_destination := c_str (sm_destination r),
          ms_target_part_number := c_str (sm_target_part_number r), ms_target_serial := c_str (sm_target_serial r)\<rparr>)" for t
        using restore_fields_fit [of "Span ?bytes"] d some True by simp
      then have "s' = taken r s \<and> c' = c"
        using assms(1) True o m d some
        by (auto simp: restore_staged_def card_run v_def [symmetric] fine_def [symmetric] Let_def r_def [symmetric] taken_def
            split: prod.splits)
      moreover have "\<exists>payload. restorable sha c r payload"
        using True some m d whole by (auto simp: restorable_def v_def fine_def split: option.splits)
      ultimately show ?thesis using iff True by auto
    next
      case False
      have "s' = s \<and> ((\<forall>i. an_unlink a i) \<longrightarrow> c' MAP_STAGE = None)"
        using assms(1) False o m d blank
        by (auto simp: restore_staged_def card_run v_def [symmetric] fine_def [symmetric] Let_def r_def [symmetric]
            split: prod.splits if_splits)
      then show ?thesis using iff False by simp
    qed
  qed
qed

text \<open>A restart reads the metadata and the payload that the card holds, whatever it removes first.\<close>

lemma start_outcome:
  assumes "run_state (map_upload_start sha a True True map_service_zero) (c, h) = ((err, s), c', h')"
  shows "\<exists>t. err = ESP_OK
    \<and> t = map_service_zero\<lparr>ms_mutex := True, ms_started := True\<rparr>
    \<and> (if reads_fine a \<and> (\<exists>r payload. restorable sha c r payload)
       then c' MAP_META = c MAP_META \<and> c' MAP_STAGE = c MAP_STAGE
         \<and> (\<exists>r payload. restorable sha c r payload \<and> s = taken r t)
       else s = t \<and> ((\<forall>i. an_unlink a i) \<longrightarrow> c' MAP_STAGE = None))"
proof -
  define t where "t = map_service_zero\<lparr>ms_mutex := True, ms_started := True\<rparr>"
  define c1 where "c1 = (if an_unlink a 0 then c(MAP_TEMP := None) else c)"
  define c2 where "c2 = (if an_unlink a (Suc 0) then c1(MAP_META_TEMP := None) else c1)"
  have t: "map_service_zero\<lparr>ms_mutex := True, ms_started := True, ms_consent_enabled := False,
      ms_auto_apply_enabled := False, ms_auto_apply_attempted := False, ms_state := UPLOAD_IDLE,
      ms_platform_error := ESP_OK\<rparr> = t"
    by (simp add: t_def map_service_zero_def)
  have "run_state (restore_staged sha a 2 t) (c2, (h @ [c1]) @ [c2]) = (s, c', h') \<and> err = ESP_OK"
    using assms t by (auto simp: map_upload_start_def card_run c1_def c2_def map_service_zero_def Let_def split: prod.splits)
  moreover have "\<not> ms_staged t" "ms_target_part_number t = []" "ms_target_serial t = []"
    by (simp_all add: t_def map_service_zero_def)
  moreover have "restorable sha c2 = restorable sha c"
    by (intro ext) (simp add: restorable_def c2_def c1_def)
  moreover have "c2 MAP_META = c MAP_META" "c2 MAP_STAGE = c MAP_STAGE" by (simp_all add: c1_def c2_def)
  ultimately show ?thesis using restore_outcome [of sha a 2 t c2 "(h @ [c1]) @ [c2]" s c' h']
    by (auto simp: t_def split: if_splits)
qed

end
