(* ===== verification/Map_Commit.thy ===== *)
theory Map_Commit
  imports Map_Staging
begin

text \<open>
  What a commit leaves on the card of \<open>Map_Staging\<close>, at its end and at every moment before, and what
  a restart makes of it.
\<close>

section \<open>Texts of the service\<close>

definition good_text :: "nat \<Rightarrow> u8 list \<Rightarrow> bool" where
  "good_text capacity x \<longleftrightarrow> x \<noteq> [] \<and> length x < capacity \<and> 0 \<notin> set x"

lemma copied_good: "copy_text capacity x = Some y \<Longrightarrow> good_text capacity y \<and> y = c_str x"
  using copy_contents c_str_no_nul by (fastforce simp: copy_text_def good_text_def)

lemma good_strnlen: "good_text capacity x \<Longrightarrow> strnlen (x @ replicate n 0) capacity = length x"
proof -
  assume g: "good_text capacity x"
  then have "take capacity (x @ replicate n 0) = x @ replicate (min (capacity - length x) n) 0"
    by (simp add: good_text_def)
  moreover have "c_str (x @ replicate m 0) = x" for m
    using g by (cases m) (simp_all add: good_text_def c_str_terminated c_str_id)
  ultimately show ?thesis by (simp add: strnlen_def)
qed

lemma good_c_str: "good_text capacity x \<Longrightarrow> c_str (x @ replicate n 0) = x"
  by (cases n) (simp_all add: good_text_def c_str_terminated c_str_id)

lemma good_copy: "good_text capacity x \<Longrightarrow>
    copy_bounded capacity x = Some (x @ replicate (capacity - length x) 0)"
  using good_strnlen [of capacity x 0] by (auto simp: copy_bounded_def good_text_def)

lemma good_fits: "good_text capacity x \<Longrightarrow> fits capacity (x @ replicate n 0)"
  by (simp add: fits_def good_strnlen) (simp add: good_text_def)

lemma good_padded: "good_text capacity x \<Longrightarrow> c_str (padded capacity (x @ replicate n 0)) = x"
proof -
  assume g: "good_text capacity x"
  have "c_str (take capacity (x @ replicate n 0)) = x"
    using g good_c_str [OF g, of "min (capacity - length x) n"] by (simp add: good_text_def)
  then show ?thesis using good_c_str [OF g] by (simp add: padded_def)
qed

section \<open>The record of a payload\<close>

text \<open>What the writer and the service know of the payload that is being written.\<close>

definition writer_ok :: "map_service \<Rightarrow> upload_card \<Rightarrow> bool" where
  "writer_ok s c \<longleftrightarrow> ms_staging s \<longrightarrow>
     ms_stage_stream s \<and> c MAP_TEMP = Some (ms_stage_hash s)
     \<and> length (ms_stage_hash s) = unat (ms_written_size s) \<and> ms_written_size s \<le> ms_expected_size s
     \<and> ms_expected_size s \<noteq> 0 \<and> good_text 128 (ms_name s) \<and> good_text 256 (ms_destination s)
     \<and> validate_upload_target (Span (ms_destination s)) (ms_expected_size s) (Some UPLOAD_MAP) = (AP_OK, Some (ms_kind s))
     \<and> (ms_target_part_number s = [] \<and> ms_target_serial s = []
        \<or> good_text 40 (ms_target_part_number s) \<and> good_text 64 (ms_target_serial s))"

lemma encode_no_length:
  "staged_map_encode rec buf None = (case staged_map_encode rec buf (Some l) of (status, out, _) \<Rightarrow> (status, out, None))"
  by (simp add: staged_map_encode_def Let_def split: option.split prod.split)

text \<open>A payload of the service that is described by a record.\<close>

definition same_payload :: "map_service \<Rightarrow> map_service \<Rightarrow> bool" where
  "same_payload s t \<longleftrightarrow> ms_name t = ms_name s \<and> ms_destination t = ms_destination s
     \<and> ms_target_part_number t = ms_target_part_number s \<and> ms_target_serial t = ms_target_serial s
     \<and> ms_expected_size t = ms_expected_size s \<and> ms_sha256 t = ms_sha256 s \<and> ms_kind t = ms_kind s"

lemma encoded_reads_back:
  assumes "good_text 128 (ms_name s)" "good_text 256 (ms_destination s)" "good_text 40 (ms_target_part_number s)"
    "good_text 64 (ms_target_serial s)" "ms_expected_size s \<noteq> 0" "length (ms_sha256 s) = 32"
  shows "\<exists>encoded r. encoded_record s = Some encoded \<and> length encoded = 540
    \<and> staged_map_decode (Span encoded) (Some r0) = (SM_OK, Some r)
    \<and> sm_size r = ms_expected_size s \<and> sm_sha256 r = ms_sha256 s
    \<and> c_str (sm_name r) = ms_name s \<and> c_str (sm_destination r) = ms_destination s
    \<and> c_str (sm_target_part_number r) = ms_target_part_number s
    \<and> c_str (sm_target_serial r) = ms_target_serial s"
proof -
  note g = assms(1-4)
  define r where "r = the (staged_record s)"
  have r: "staged_record s = Some r"
    unfolding r_def by (simp add: staged_record_def g [THEN good_copy])
  then have f: "r = \<lparr>sm_kind = staged_kind (ms_kind s), sm_size = ms_expected_size s, sm_sha256 = ms_sha256 s,
      sm_name = ms_name s @ replicate (128 - length (ms_name s)) 0,
      sm_destination = ms_destination s @ replicate (256 - length (ms_destination s)) 0,
      sm_target_part_number = ms_target_part_number s @ replicate (40 - length (ms_target_part_number s)) 0,
      sm_target_serial = ms_target_serial s @ replicate (64 - length (ms_target_serial s)) 0\<rparr>"
    by (simp add: staged_record_def g [THEN good_copy])
  have ok: "staged_ok r"
    using assms(5) by (simp add: f staged_ok_def staged_kind_def g [THEN good_fits])
  have sha: "length (sm_sha256 r) = 32" using assms(6) by (simp add: f)
  have "encoded_record s = Some (staged_bytes r)"
    by (simp add: encoded_record_def r encode_no_length [where l = 0]
        staged_map_encode_outcome [OF sha] ok)
  moreover have "length (staged_bytes r) = 540" using sha by (rule length_staged_bytes)
  moreover have "staged_map_decode (Span (staged_bytes r)) (Some r0) = (SM_OK, Some (cleared r))"
    using decode_staged_bytes [OF ok sha, of "[]"] by simp
  moreover have "c_str (sm_name (cleared r)) = ms_name s" "c_str (sm_destination (cleared r)) = ms_destination s"
    "c_str (sm_target_part_number (cleared r)) = ms_target_part_number s"
    "c_str (sm_target_serial (cleared r)) = ms_target_serial s"
    "sm_size (cleared r) = ms_expected_size s" "sm_sha256 (cleared r) = ms_sha256 s"
    by (simp_all add: cleared_def f g [THEN good_padded])
  ultimately show ?thesis by blast
qed

section \<open>The cards of a commit\<close>

lemma metadata_cards:
  assumes "run_state (write_metadata a k s) (c, h) = (ok, c', h')"
  shows "\<exists>hs. h' = h @ hs \<and> c' \<in> set (c # hs) \<and> c' MAP_STAGE = c MAP_STAGE
    \<and> (\<forall>x\<in>set hs. x MAP_STAGE = c MAP_STAGE \<and> x MAP_META \<in> {c MAP_META, None, encoded_record s})
    \<and> (ok \<longrightarrow> c' MAP_META = encoded_record s \<and> encoded_record s \<noteq> None)"
  using assms by (auto simp: write_metadata_def card_run split: option.splits if_splits)

lemma discard_cards:
  assumes "run_state (discard_staged a k s) (c, h) = (s', c', h')"
  shows "\<exists>hs. h' = h @ hs \<and> c' \<in> set hs \<and> s' = s\<lparr>ms_staged := False, ms_target_part_number := [], ms_target_serial := []\<rparr>
    \<and> (\<forall>x\<in>set hs. x MAP_STAGE \<in> {c MAP_STAGE, None} \<and> x MAP_META \<in> {c MAP_META, None})"
  using assms by (auto simp: card_run Let_def)

definition hashed_service :: "(u8 list \<Rightarrow> u8 list) \<Rightarrow> map_service \<Rightarrow> map_service" where
  "hashed_service sha s = s\<lparr>ms_sha256 := sha (ms_stage_hash s), ms_stage_hash_active := False,
     ms_stage_stream := False, ms_staging := False\<rparr>"

text \<open>The state in which a commit can succeed.\<close>

definition committable :: "card_answers \<Rightarrow> map_service \<Rightarrow> bool" where
  "committable a s \<longleftrightarrow> ms_staging s \<and> ms_stage_stream s \<and> ms_written_size s = ms_expected_size s
     \<and> an_flushed a \<and> an_hash a"

text \<open>What the metadata and the payload on the card can be at some moment of a commit.\<close>

definition commit_pair :: "(u8 list \<Rightarrow> u8 list) \<Rightarrow> card_answers \<Rightarrow> map_service \<Rightarrow> upload_card \<Rightarrow> upload_card \<Rightarrow> bool" where
  "commit_pair sha a s c x \<longleftrightarrow>
     x MAP_META \<in> {c MAP_META, None} \<and> x MAP_STAGE \<in> {c MAP_STAGE, None}
     \<or> committable a s \<and> x MAP_STAGE \<in> {c MAP_TEMP, None}
       \<and> x MAP_META \<in> {None, encoded_record (hashed_service sha s), if an_unlink a 0 then None else c MAP_META}"

lemma pair_back:
  assumes "commit_pair sha a s c y" "x MAP_META \<in> {y MAP_META, None}" "x MAP_STAGE \<in> {y MAP_STAGE, None}"
  shows "commit_pair sha a s c x"
  using assms unfolding commit_pair_def by auto

lemma commit_failed:
  assumes "\<not> committable a s" "map_lock s in_time"
    and "run_state (stage_commit sha a in_time s) (c, h) = ((err, s'), c', h')"
  shows "\<exists>hs. h' = h @ hs \<and> (\<forall>x\<in>set hs. commit_pair sha a s c x) \<and> c' \<in> set hs \<and> err = ESP_FAIL
    \<and> s' = s\<lparr>ms_stage_hash_active := False, ms_stage_stream := False, ms_staging := False,
        ms_staged := False, ms_target_part_number := [], ms_target_serial := []\<rparr>"
  using assms by (auto simp: stage_commit_def committable_def card_run Let_def commit_pair_def)

text \<open>A commit in three phases: the old pair goes, the payload is renamed, the metadata follow.\<close>

definition commit_tail :: "card_answers \<Rightarrow> map_service \<Rightarrow> (esp_err \<times> map_service) card_io" where
  "commit_tail a s =
     (if ms_target_serial s = [] then give (ESP_OK, s\<lparr>ms_staged := True\<rparr>)
      else do {
        persisted \<leftarrow> write_metadata a 3 s;
        if persisted then give (ESP_OK, s\<lparr>ms_staged := True\<rparr>)
        else do {
          s \<leftarrow> discard_staged a 5 s;
          give (ESP_FAIL, s) } })"

definition commit_undone :: "card_answers \<Rightarrow> map_service \<Rightarrow> (esp_err \<times> map_service) card_io" where
  "commit_undone a s = do {
     unlink_file (an_unlink a 3) MAP_TEMP;
     s \<leftarrow> discard_staged a 4 s;
     give (ESP_FAIL, s) }"

lemma commit_phases:
  assumes "committable a s" "map_lock s in_time"
  shows "stage_commit sha a in_time s = do {
     remove_staged_files a 0;
     renamed \<leftarrow> rename_file (an_rename a 0) MAP_TEMP MAP_STAGE;
     if renamed then commit_tail a (hashed_service sha s) else commit_undone a (hashed_service sha s) }"
proof -
  have swap: "(if \<not> P then x else y) = (if P then y else x)" for P and x y :: "(esp_err \<times> map_service) card_io"
    by simp
  show ?thesis
    using assms unfolding stage_commit_def committable_def commit_tail_def commit_undone_def hashed_service_def swap
    by (simp add: Let_def cong: if_cong)
qed

lemma tail_cards:
  assumes "run_state (commit_tail a s) (c, h) = ((err, s'), c', h')"
  shows "\<exists>hs. h' = h @ hs \<and> c' \<in> set (c # hs)
    \<and> (\<forall>x\<in>set hs. x MAP_STAGE \<in> {c MAP_STAGE, None} \<and> x MAP_META \<in> {c MAP_META, None, encoded_record s})
    \<and> (if err = ESP_OK
       then s' = s\<lparr>ms_staged := True\<rparr> \<and> c' MAP_STAGE = c MAP_STAGE
         \<and> (if ms_target_serial s = [] then c' MAP_META = c MAP_META
            else c' MAP_META = encoded_record s \<and> encoded_record s \<noteq> None)
       else err = ESP_FAIL \<and> s' = s\<lparr>ms_staged := False, ms_target_part_number := [], ms_target_serial := []\<rparr>)"
proof (cases "ms_target_serial s = []")
  case True
  then show ?thesis using assms by (auto simp: commit_tail_def card_run)
next
  case False
  obtain ok d g where w: "run_state (write_metadata a 3 s) (c, h) = (ok, d, g)"
    using prod_cases3 by blast
  obtain hs where hs: "g = h @ hs" "d \<in> set (c # hs)" "d MAP_STAGE = c MAP_STAGE"
      "\<forall>x\<in>set hs. x MAP_STAGE = c MAP_STAGE \<and> x MAP_META \<in> {c MAP_META, None, encoded_record s}"
      "ok \<longrightarrow> d MAP_META = encoded_record s \<and> encoded_record s \<noteq> None"
    using metadata_cards [OF w] by blast
  show ?thesis
  proof (cases ok)
    case True
    then have "err = ESP_OK" "s' = s\<lparr>ms_staged := True\<rparr>" "c' = d" "h' = g"
      using assms False w by (simp_all add: commit_tail_def run_bind run_give)
    then show ?thesis using True hs False by auto
  next
    case not_ok: False
    obtain s1 d1 g1 where r: "run_state (discard_staged a 5 s) (d, g) = (s1, d1, g1)"
      using prod_cases3 by blast
    then have e: "err = ESP_FAIL" "s' = s1" "c' = d1" "h' = g1"
      using assms False w not_ok by (simp_all add: commit_tail_def run_bind run_give)
    obtain hs' where "g1 = g @ hs'" "d1 \<in> set hs'"
        "s1 = s\<lparr>ms_staged := False, ms_target_part_number := [], ms_target_serial := []\<rparr>"
        "\<forall>x\<in>set hs'. x MAP_STAGE \<in> {d MAP_STAGE, None} \<and> x MAP_META \<in> {d MAP_META, None}"
      using discard_cards [OF r] by blast
    moreover have "d MAP_META \<in> {c MAP_META, None, encoded_record s}" using hs(2,4) by auto
    ultimately show ?thesis using hs(1,3,4) e by (intro exI [of _ "hs @ hs'"]) auto
  qed
qed

lemma undone_cards:
  assumes "run_state (commit_undone a s) (c, h) = ((err, s'), c', h')"
  shows "\<exists>hs. h' = h @ hs \<and> c' \<in> set hs
    \<and> (\<forall>x\<in>set hs. x MAP_STAGE \<in> {c MAP_STAGE, None} \<and> x MAP_META \<in> {c MAP_META, None})
    \<and> err = ESP_FAIL \<and> s' = s\<lparr>ms_staged := False, ms_target_part_number := [], ms_target_serial := []\<rparr>"
proof -
  define d where "d = (if an_unlink a 3 then c(MAP_TEMP := None) else c)"
  obtain s1 d1 g1 where r: "run_state (discard_staged a 4 s) (d, h @ [d]) = (s1, d1, g1)"
    using prod_cases3 by blast
  then have e: "err = ESP_FAIL" "s' = s1" "c' = d1" "h' = g1"
    using assms by (simp_all add: commit_undone_def run_bind run_give run_unlink d_def [symmetric])
  have "d MAP_STAGE = c MAP_STAGE" "d MAP_META = c MAP_META" by (simp_all add: d_def)
  then show ?thesis using discard_cards [OF r] e by auto
qed

lemma remove_cards:
  assumes "run_state (remove_staged_files a 0) (c, h) = (u, c', h')"
  shows "\<exists>hs. h' = h @ hs \<and> c' \<in> set hs \<and> c' MAP_TEMP = c MAP_TEMP
    \<and> (\<forall>x\<in>set hs. x MAP_STAGE \<in> {c MAP_STAGE, None} \<and> x MAP_META = (if an_unlink a 0 then None else c MAP_META))"
  using assms by (auto simp: run_remove Let_def)

lemma commit_done:
  assumes "committable a s" "map_lock s in_time"
    and run: "run_state (stage_commit sha a in_time s) (c, h) = ((err, s'), c', h')"
  shows "\<exists>hs. h' = h @ hs \<and> (\<forall>x\<in>set hs. commit_pair sha a s c x) \<and> c' \<in> set hs
    \<and> (if err = ESP_OK
       then s' = (hashed_service sha s)\<lparr>ms_staged := True\<rparr> \<and> c' MAP_STAGE = c MAP_TEMP \<and> c MAP_TEMP \<noteq> None
         \<and> (if ms_target_serial s = [] then c' MAP_META = (if an_unlink a 0 then None else c MAP_META)
            else c' MAP_META = encoded_record (hashed_service sha s) \<and> c' MAP_META \<noteq> None)
       else err = ESP_FAIL
         \<and> s' = (hashed_service sha s)\<lparr>ms_staged := False, ms_target_part_number := [], ms_target_serial := []\<rparr>)"
proof -
  let ?s = "hashed_service sha s"
  obtain u c3 h3 where rm: "run_state (remove_staged_files a 0) (c, h) = (u, c3, h3)" using prod_cases3 by blast
  obtain hs where hs: "h3 = h @ hs" "c3 \<in> set hs" "c3 MAP_TEMP = c MAP_TEMP"
      "\<forall>x\<in>set hs. x MAP_STAGE \<in> {c MAP_STAGE, None} \<and> x MAP_META = (if an_unlink a 0 then None else c MAP_META)"
    using remove_cards [OF rm] by (elim exE conjE) (rule that)
  have pre: "\<forall>x\<in>set hs. commit_pair sha a s c x" using hs(4) by (auto simp: commit_pair_def split: if_splits)
  show ?thesis
  proof (cases "an_rename a 0 \<and> c3 MAP_TEMP \<noteq> None \<and> c3 MAP_STAGE = None")
    case True
    define c4 where "c4 = c3(MAP_TEMP := None, MAP_STAGE := c3 MAP_TEMP)"
    have "run_state (commit_tail a ?s) (c4, h3 @ [c4]) = ((err, s'), c', h')"
      using run True by (simp add: commit_phases [OF assms(1,2)] run_bind rm run_rename c4_def)
    then obtain hs' where hs': "h' = (h3 @ [c4]) @ hs'" "c' \<in> set (c4 # hs')"
        "\<forall>x\<in>set hs'. x MAP_STAGE \<in> {c4 MAP_STAGE, None} \<and> x MAP_META \<in> {c4 MAP_META, None, encoded_record ?s}"
        "if err = ESP_OK
       then s' = ?s\<lparr>ms_staged := True\<rparr> \<and> c' MAP_STAGE = c4 MAP_STAGE
         \<and> (if ms_target_serial ?s = [] then c' MAP_META = c4 MAP_META
            else c' MAP_META = encoded_record ?s \<and> encoded_record ?s \<noteq> None)
       else err = ESP_FAIL \<and> s' = ?s\<lparr>ms_staged := False, ms_target_part_number := [], ms_target_serial := []\<rparr>"
      using tail_cards by blast
    have c4: "c4 MAP_STAGE = c MAP_TEMP" "c4 MAP_META = (if an_unlink a 0 then None else c MAP_META)" "c MAP_TEMP \<noteq> None"
      using hs(2,3,4) True by (auto simp: c4_def)
    have new: "\<forall>x\<in>set (c4 # hs'). commit_pair sha a s c x"
      using hs'(3) c4 assms(1) by (auto simp: commit_pair_def)
    have "ms_target_serial ?s = ms_target_serial s" by (simp add: hashed_service_def)
    with hs'(4) c4 have Q: "if err = ESP_OK
       then s' = ?s\<lparr>ms_staged := True\<rparr> \<and> c' MAP_STAGE = c MAP_TEMP \<and> c MAP_TEMP \<noteq> None
         \<and> (if ms_target_serial s = [] then c' MAP_META = (if an_unlink a 0 then None else c MAP_META)
            else c' MAP_META = encoded_record ?s \<and> c' MAP_META \<noteq> None)
       else err = ESP_FAIL \<and> s' = ?s\<lparr>ms_staged := False, ms_target_part_number := [], ms_target_serial := []\<rparr>"
      by (simp split: if_splits)
    show ?thesis
    proof (intro exI [of _ "hs @ [c4] @ hs'"] conjI)
      show "h' = h @ hs @ [c4] @ hs'" using hs(1) hs'(1) by simp
      show "\<forall>x\<in>set (hs @ [c4] @ hs'). commit_pair sha a s c x" using pre new by auto
      show "c' \<in> set (hs @ [c4] @ hs')" using hs'(2) by auto
    qed (rule Q)
  next
    case False
    have "run_state (commit_undone a ?s) (c3, h3 @ [c3]) = ((err, s'), c', h')"
      using run False by (simp add: commit_phases [OF assms(1,2)] run_bind rm run_rename del: not_None_eq not_Some_eq)
    then obtain hs' where hs': "h' = (h3 @ [c3]) @ hs'" "c' \<in> set hs'"
        "\<forall>x\<in>set hs'. x MAP_STAGE \<in> {c3 MAP_STAGE, None} \<and> x MAP_META \<in> {c3 MAP_META, None}"
        "err = ESP_FAIL" "s' = ?s\<lparr>ms_staged := False, ms_target_part_number := [], ms_target_serial := []\<rparr>"
      using undone_cards by blast
    have "commit_pair sha a s c c3" using pre hs(2) by blast
    then have "\<forall>x\<in>set (c3 # hs'). commit_pair sha a s c x" using hs'(3) pair_back by auto
    then show ?thesis using pre hs(1) hs'(1,2,4,5) by (intro exI [of _ "hs @ [c3] @ hs'"]) auto
  qed
qed

section \<open>Power loss\<close>

lemma restart_outcome_staged:
  assumes "run_state (map_upload_start sha b True True map_service_zero) (x, g) = ((err, t), y, g')" "ms_staged t"
  shows "\<exists>r payload. restorable sha x r payload \<and> carries r t \<and> y MAP_STAGE = x MAP_STAGE"
  using start_outcome [OF assms(1)] assms(2) taken_carries
  by (auto simp: map_service_zero_def split: if_splits)

lemma restart_outcome_all:
  assumes "run_state (map_upload_start sha b True True map_service_zero) (x, g) = ((err, t), y, g')"
    and "reads_fine b" "restorable sha x r payload"
  shows "ms_staged t"
  using start_outcome [OF assms(1)] assms(2,3) by (auto simp: taken_def split: if_splits)

lemma hashed_fields [simp]:
  "ms_name (hashed_service sha s) = ms_name s" "ms_destination (hashed_service sha s) = ms_destination s"
  "ms_target_part_number (hashed_service sha s) = ms_target_part_number s"
  "ms_target_serial (hashed_service sha s) = ms_target_serial s"
  "ms_expected_size (hashed_service sha s) = ms_expected_size s" "ms_kind (hashed_service sha s) = ms_kind s"
  "ms_sha256 (hashed_service sha s) = sha (ms_stage_hash s)"
  by (simp_all add: hashed_service_def)

lemma record_of_commit:
  assumes "writer_ok s c" "ms_staging s" "ms_target_serial s \<noteq> []" "\<forall>x. length (sha x) = 32"
  shows "\<exists>encoded r. encoded_record (hashed_service sha s) = Some encoded \<and> length encoded = 540
    \<and> staged_map_decode (Span encoded) (Some start) = (SM_OK, Some r)
    \<and> sm_size r = ms_expected_size s \<and> sm_sha256 r = sha (ms_stage_hash s)
    \<and> c_str (sm_name r) = ms_name s \<and> c_str (sm_destination r) = ms_destination s
    \<and> c_str (sm_target_part_number r) = ms_target_part_number s
    \<and> c_str (sm_target_serial r) = ms_target_serial s"
  using encoded_reads_back [of "hashed_service sha s" start] assms by (simp add: writer_ok_def)

lemma carried_payload:
  assumes "carries r t" "sm_size r = ms_expected_size s" "sm_sha256 r = sha (ms_stage_hash s)"
    "c_str (sm_name r) = ms_name s" "c_str (sm_destination r) = ms_destination s"
    "c_str (sm_target_part_number r) = ms_target_part_number s" "c_str (sm_target_serial r) = ms_target_serial s"
    "writer_ok s c" "ms_staging s"
  shows "same_payload (hashed_service sha s) t"
  using assms by (auto simp: carries_def same_payload_def writer_ok_def)

text \<open>
  C32. A commit is all or nothing. Cut the power at any moment of a commit whose first step removes
  the old metadata: whatever the next start stages is the old pair, as it was before, or the new
  payload under everything the service knew of it, with its digest. A payload without a pinned
  device is never brought back.
\<close>

theorem commit_power_loss:
  assumes commit: "run_state (stage_commit sha a in_time s) (c, h) = ((err, s'), c', h @ hs)"
    and cut: "x \<in> set hs" and removed: "an_unlink a 0"
    and writer: "writer_ok s c" and sha: "\<forall>y. length (sha y) = 32"
    and restart: "run_state (map_upload_start sha b True True map_service_zero) (x, g) = ((err', t), y, g')"
    and staged: "ms_staged t"
  shows "(\<exists>r payload. restorable sha c r payload \<and> carries r t \<and> y MAP_STAGE = Some payload)
    \<or> y MAP_STAGE = Some (ms_stage_hash s) \<and> same_payload (hashed_service sha s) t \<and> ms_target_serial s \<noteq> []"
proof -
  have lock: "map_lock s in_time"
    using commit cut by (cases "map_lock s in_time") (auto simp: stage_commit_def run_give)
  have pair: "commit_pair sha a s c x"
  proof (cases "committable a s")
    case True
    then show ?thesis using commit_done [OF True lock commit] cut by auto
  next
    case False
    then show ?thesis using commit_failed [OF False lock commit] cut by auto
  qed
  obtain r payload where r: "restorable sha x r payload" "carries r t" "y MAP_STAGE = x MAP_STAGE"
    using restart_outcome_staged [OF restart staged] by blast
  then have x: "x MAP_META \<noteq> None" "x MAP_STAGE = Some payload" by (auto simp: restorable_def)
  from pair consider (old) "x MAP_META = c MAP_META" "x MAP_STAGE = c MAP_STAGE"
    | (new) "committable a s" "x MAP_META = encoded_record (hashed_service sha s)" "x MAP_STAGE = c MAP_TEMP"
    using x removed by (auto simp: commit_pair_def)
  then show ?thesis
  proof cases
    case old
    then have "restorable sha c r payload" using r(1) by (simp add: restorable_def)
    then show ?thesis using r x by auto
  next
    case new
    have st: "ms_staging s" using new(1) by (simp add: committable_def)
    have pinned: "ms_target_serial s \<noteq> []"
    proof
      assume "ms_target_serial s = []"
      then have "encoded_record (hashed_service sha s) = None"
        by (simp add: encoded_record_def staged_record_def copy_bounded_def strnlen_def c_str_def split: option.split)
      then show False using x new by simp
    qed
    obtain encoded r' where e: "encoded_record (hashed_service sha s) = Some encoded" "length encoded = 540"
      "staged_map_decode (Span encoded) (Some record_zero) = (SM_OK, Some r')" and
      f: "sm_size r' = ms_expected_size s" "sm_sha256 r' = sha (ms_stage_hash s)"
      "c_str (sm_name r') = ms_name s" "c_str (sm_destination r') = ms_destination s"
      "c_str (sm_target_part_number r') = ms_target_part_number s" "c_str (sm_target_serial r') = ms_target_serial s"
      using record_of_commit [OF writer st pinned sha, where start = record_zero] by blast
    have "r' = r" using r(1) new(2) e by (auto simp: restorable_def)
    then have "same_payload (hashed_service sha s) t" using carried_payload [OF r(2)] f writer st by simp
    moreover have "x MAP_STAGE = Some (ms_stage_hash s)" using new(3) writer st by (simp add: writer_ok_def)
    ultimately show ?thesis using r(3) pinned by simp
  qed
qed

lemma committed_restorable:
  assumes writer: "writer_ok s c" and pinned: "ms_target_serial s \<noteq> []"
    and sha: "\<forall>y. length (sha y) = 32"
    and commit: "run_state (stage_commit sha a in_time s) (c, h) = ((ESP_OK, s'), c', h')"
  shows "\<exists>r. restorable sha c' r (ms_stage_hash s) \<and> s' = (hashed_service sha s)\<lparr>ms_staged := True\<rparr>
    \<and> (\<forall>t. carries r t \<longrightarrow> same_payload s' t)"
proof -
  have lock: "map_lock s in_time"
    using commit by (cases "map_lock s in_time") (auto simp: stage_commit_def run_give)
  have ok: "committable a s"
  proof (rule ccontr)
    assume "\<not> committable a s"
    from commit_failed [OF this lock commit] show False by auto
  qed
  then have st: "ms_staging s" by (simp add: committable_def)
  obtain encoded r where e: "encoded_record (hashed_service sha s) = Some encoded" "length encoded = 540"
    "staged_map_decode (Span encoded) (Some record_zero) = (SM_OK, Some r)" and
    f: "sm_size r = ms_expected_size s" "sm_sha256 r = sha (ms_stage_hash s)"
    "c_str (sm_name r) = ms_name s" "c_str (sm_destination r) = ms_destination s"
    "c_str (sm_target_part_number r) = ms_target_part_number s" "c_str (sm_target_serial r) = ms_target_serial s"
    using record_of_commit [OF writer st pinned sha, where start = record_zero] by blast
  have s': "s' = (hashed_service sha s)\<lparr>ms_staged := True\<rparr>" "c' MAP_STAGE = c MAP_TEMP" "c' MAP_META = Some encoded"
    using commit_done [OF ok lock commit] pinned e(1) by auto
  note w = writer [unfolded writer_ok_def, rule_format, OF st]
  have "describes sha r (ms_stage_hash s)"
    using w ok f by (simp add: describes_def committable_def)
  then have "restorable sha c' r (ms_stage_hash s)"
    using s' w e f by (simp add: restorable_def)
  moreover have "same_payload s' t" if "carries r t" for t
    using carried_payload [where sha = sha and s = s, OF that f writer st] by (simp add: same_payload_def s')
  ultimately show ?thesis using s'(1) by blast
qed

text \<open>
  C33. A committed payload with a pinned device survives a restart: the commit that succeeded left
  it on the card, and any later start on that card whose reads succeed stages it again, with the
  same name, destination, device, size, digest and kind.
\<close>

theorem commit_survives_restart:
  assumes commit: "run_state (stage_commit sha a in_time s) (c, h) = ((ESP_OK, s'), c', h')"
    and pinned: "ms_target_serial s \<noteq> []"
    and writer: "writer_ok s c" and sha: "\<forall>y. length (sha y) = 32"
    and restart: "run_state (map_upload_start sha b True True map_service_zero) (c', g) = ((err, t), y, g')"
    and reads: "reads_fine b"
  shows "ms_staged s' \<and> ms_staged t \<and> same_payload s' t \<and> y MAP_STAGE = Some (ms_stage_hash s)"
proof -
  obtain r where r: "restorable sha c' r (ms_stage_hash s)" "s' = (hashed_service sha s)\<lparr>ms_staged := True\<rparr>"
    and same: "\<forall>t. carries r t \<longrightarrow> same_payload s' t"
    using committed_restorable [OF writer pinned sha commit] by blast
  have t: "ms_staged t" by (rule restart_outcome_all [OF restart reads r(1)])
  obtain r' p where r': "restorable sha c' r' p" "carries r' t" "y MAP_STAGE = c' MAP_STAGE"
    using restart_outcome_staged [OF restart t] by blast
  then have "r' = r" "c' MAP_STAGE = Some (ms_stage_hash s)" using r(1) by (auto simp: restorable_def)
  then show ?thesis using r' r(2) same t by simp
qed

section \<open>A commit at work\<close>

definition demo_sha :: "u8 list \<Rightarrow> u8 list" where
  "demo_sha x = take 32 (x @ replicate 32 0)"

definition good_answers :: card_answers where
  "good_answers = \<lparr>an_unlink = (\<lambda>_. True), an_open = True, an_open_stage = True, an_flushed = True,
     an_written = True, an_partial = [], an_rename = (\<lambda>_. True), an_read = True, an_hash = True,
     an_metadata = 540\<rparr>"

definition demo_staging :: map_service where
  "demo_staging = map_service_zero\<lparr>ms_mutex := True, ms_started := True, ms_staging := True,
     ms_stage_stream := True, ms_stage_hash := [7], ms_stage_hash_active := True, ms_expected_size := 1,
     ms_written_size := 1, ms_name := ascii ''a.ptm'', ms_destination := ascii ''maps/a.ptm'',
     ms_target_part_number := [65], ms_target_serial := [83]\<rparr>"

definition demo_card :: upload_card where
  "demo_card = (\<lambda>_. None)(MAP_TEMP := Some [7])"

lemma demo_sha_length: "\<forall>y. length (demo_sha y) = 32"
  by (auto simp: demo_sha_def min_def)

lemma demo_writer: "writer_ok demo_staging demo_card"
proof -
  have "validate_upload_target (Span (ascii ''maps/a.ptm'')) 1 (Some UPLOAD_MAP) = (AP_OK, Some UPLOAD_MAP)"
    by (simp add: validate_upload_target_def Let_def maps_prefix_def startup_path_def map_extension_def
        ascii_def of_char_def ascii_equal_case_insensitive_def to_lower_def)
  moreover have "good_text 128 (ascii ''a.ptm'')" "good_text 256 (ascii ''maps/a.ptm'')" by code_simp+
  moreover have "good_text 40 [65]" "good_text 64 [83]" by (simp_all add: good_text_def)
  ultimately show ?thesis
    by (simp add: writer_ok_def demo_staging_def demo_card_def map_service_zero_def)
qed

lemma demo_commit:
  "\<exists>s' c' hs. run_state (stage_commit demo_sha good_answers True demo_staging) (demo_card, []) = ((ESP_OK, s'), c', [] @ hs)
     \<and> c' \<in> set hs"
proof -
  have ok: "committable good_answers demo_staging" "map_lock demo_staging True" "an_unlink good_answers 0"
    by (simp_all add: committable_def map_lock_def demo_staging_def good_answers_def)
  have st: "ms_staging demo_staging" "ms_target_serial demo_staging \<noteq> []" by (simp_all add: demo_staging_def)
  obtain encoded where e: "encoded_record (hashed_service demo_sha demo_staging) = Some encoded"
    using record_of_commit [OF demo_writer st demo_sha_length, where start = record_zero] by blast
  have "encoded_record (demo_staging\<lparr>ms_sha256 := demo_sha (ms_stage_hash demo_staging), ms_stage_hash_active := False,
      ms_stage_stream := False, ms_staging := False\<rparr>) = Some encoded"
    using e by (simp add: hashed_service_def)
  then show ?thesis
    unfolding commit_phases [OF ok(1,2)] commit_tail_def write_metadata_def e using st(2)
    by (simp add: card_run Let_def good_answers_def demo_card_def)
qed

text \<open>
  C31. A restart stages a payload exactly when everything about it verifies: the card answers, its
  metadata decodes, the destination is allowed today, and the payload has the recorded length and
  digest. The service then carries the record, pinned to a device; consent and automatic writing
  are off again. Otherwise nothing is staged, and the payload is gone if the card lets it go.
\<close>

theorem restart_stages_verified:
  assumes "run_state (map_upload_start sha a True True map_service_zero) (c, h) = ((err, s), c', h')"
  shows "err = ESP_OK \<and> \<not> ms_consent_enabled s \<and> \<not> ms_auto_apply_enabled s \<and> ms_state s = UPLOAD_IDLE
    \<and> (if reads_fine a \<and> (\<exists>r payload. restorable sha c r payload)
       then ms_staged s \<and> c' MAP_STAGE = c MAP_STAGE \<and> c' MAP_META = c MAP_META
         \<and> (\<exists>r payload. restorable sha c r payload \<and> carries r s
              \<and> ms_target_part_number s \<noteq> [] \<and> ms_target_serial s \<noteq> [])
       else \<not> ms_staged s \<and> ((\<forall>i. an_unlink a i) \<longrightarrow> c' MAP_STAGE = None))"
proof (cases "reads_fine a \<and> (\<exists>r payload. restorable sha c r payload)")
  case True
  then obtain r payload where r: "restorable sha c r payload"
    and s: "s = taken r (map_service_zero\<lparr>ms_mutex := True, ms_started := True\<rparr>)"
    and c: "c' MAP_META = c MAP_META" "c' MAP_STAGE = c MAP_STAGE" "err = ESP_OK"
    using start_outcome [OF assms] by auto
  have "fits 40 (sm_target_part_number r)" "fits 64 (sm_target_serial r)"
    using r by (auto simp: restorable_def dest!: decoded_fits)
  then have "c_str (sm_target_part_number r) \<noteq> []" "c_str (sm_target_serial r) \<noteq> []"
    by (auto simp: fits_c_str)
  then show ?thesis
    using True r c taken_carries [OF r, of "map_service_zero\<lparr>ms_mutex := True, ms_started := True\<rparr>"]
    by (auto simp: s taken_def map_service_zero_def)
next
  case False
  then show ?thesis using start_outcome [OF assms] by (auto simp: map_service_zero_def split: if_splits)
qed

theorem restart_stages_verified_witness:
  "\<exists>c g err s c' g'. run_state (map_upload_start demo_sha good_answers True True map_service_zero) (c, g) = ((err, s), c', g')
    \<and> ms_staged s \<and> \<not> ms_consent_enabled s"
proof -
  obtain s' c' hs where commit: "run_state (stage_commit demo_sha good_answers True demo_staging) (demo_card, [])
      = ((ESP_OK, s'), c', hs)" using demo_commit by auto
  have "ms_target_serial demo_staging \<noteq> []" by (simp add: demo_staging_def)
  from committed_restorable [OF demo_writer this demo_sha_length commit]
  obtain r where r: "restorable demo_sha c' r (ms_stage_hash demo_staging)" by blast
  obtain err t y g' where restart:
      "run_state (map_upload_start demo_sha good_answers True True map_service_zero) (c', []) = ((err, t), y, g')"
    by (metis surj_pair)
  have "reads_fine good_answers \<and> (\<exists>r payload. restorable demo_sha c' r payload)"
    using r by (auto simp: reads_fine_def good_answers_def)
  with restart_stages_verified [OF restart] have "ms_staged t \<and> \<not> ms_consent_enabled t" by auto
  with restart show ?thesis by blast
qed

theorem commit_survives_restart_witness:
  "\<exists>b g err t y g'. run_state (map_upload_start demo_sha b True True map_service_zero) g = ((err, t), y, g')
    \<and> ms_staged t \<and> ms_target_serial t = [83] \<and> y MAP_STAGE = Some [7]"
proof -
  obtain s' c' hs where commit: "run_state (stage_commit demo_sha good_answers True demo_staging) (demo_card, [])
      = ((ESP_OK, s'), c', hs)" using demo_commit by auto
  obtain err t y g' where restart:
      "run_state (map_upload_start demo_sha good_answers True True map_service_zero) (c', []) = ((err, t), y, g')"
    by (metis surj_pair)
  have serial: "ms_target_serial demo_staging = [83]" "ms_stage_hash demo_staging = [7]" by (simp_all add: demo_staging_def)
  have ok: "committable good_answers demo_staging" "map_lock demo_staging True"
    by (simp_all add: committable_def map_lock_def demo_staging_def good_answers_def)
  have s': "s' = (hashed_service demo_sha demo_staging)\<lparr>ms_staged := True\<rparr>"
    using commit_done [OF ok commit] by simp
  have "ms_staged s' \<and> ms_staged t \<and> same_payload s' t \<and> y MAP_STAGE = Some (ms_stage_hash demo_staging)"
    by (rule commit_survives_restart [OF commit _ demo_writer demo_sha_length restart])
      (simp_all add: good_answers_def serial reads_fine_def)
  then have "ms_staged t" "ms_target_serial t = [83]" "y MAP_STAGE = Some [7]"
    by (simp_all add: same_payload_def s' serial)
  with restart show ?thesis by blast
qed

theorem commit_power_loss_witness:
  "\<exists>b g err t y g'. run_state (map_upload_start demo_sha b True True map_service_zero) g = ((err, t), y, g')
    \<and> y MAP_STAGE = Some [7] \<and> same_payload (hashed_service demo_sha demo_staging) t"
proof -
  obtain s' c' hs where commit: "run_state (stage_commit demo_sha good_answers True demo_staging) (demo_card, [])
      = ((ESP_OK, s'), c', [] @ hs)" and cut: "c' \<in> set hs" using demo_commit by blast
  obtain err t y g' where restart:
      "run_state (map_upload_start demo_sha good_answers True True map_service_zero) (c', []) = ((err, t), y, g')"
    by (metis surj_pair)
  have "ms_staged t"
  proof -
    have ok: "committable good_answers demo_staging" "map_lock demo_staging True" "an_unlink good_answers 0"
      by (simp_all add: committable_def map_lock_def demo_staging_def good_answers_def)
    have st: "ms_staging demo_staging" "ms_target_serial demo_staging \<noteq> []" by (simp_all add: demo_staging_def)
    obtain r where "restorable demo_sha c' r (ms_stage_hash demo_staging)"
      using committed_restorable [OF demo_writer st(2) demo_sha_length commit] by blast
    then show ?thesis using restart_outcome_all [OF restart] by (simp add: reads_fine_def good_answers_def)
  qed
  from commit_power_loss [OF commit cut _ demo_writer demo_sha_length restart this]
  have "y MAP_STAGE = Some [7] \<and> same_payload (hashed_service demo_sha demo_staging) t"
    by (auto simp: good_answers_def restorable_def demo_card_def demo_staging_def)
  with restart show ?thesis by blast
qed

end
