(* ===== verification/Map_Apply.thy ===== *)
theory Map_Apply
  imports Map_Commit
begin

text \<open>
  The applying half of the map write service (esp32p4/main/revlink_map_upload.c): the source that
  the transport reads the payload from, the outcome it reports, the owner's consent, the request by
  hand and the automatic one after a clean sync, and the service as a step relation.
\<close>

section \<open>The source\<close>

definition source_matches :: "map_upload_request \<Rightarrow> map_service \<Rightarrow> bool" where
  "source_matches request s \<longleftrightarrow>
     ms_started s \<and> ms_consent_enabled s \<and> ms_staged s \<and> ms_state s = UPLOAD_RUNNING
     \<and> c_str (mu_name request) = ms_name s \<and> c_str (mu_path request) = ms_destination s
     \<and> mu_size request = ms_expected_size s \<and> mu_source_sha256 request = ms_sha256 s"

definition map_source_open ::
  "card_answers \<Rightarrow> bool \<Rightarrow> map_upload_request option \<Rightarrow> map_service \<Rightarrow> (esp_err \<times> map_service) card_io" where
  "map_source_open a in_time request s =
     (case request of
        None \<Rightarrow> give (ESP_ERR_INVALID_STATE, s)
      | Some request \<Rightarrow>
          if \<not> map_lock s in_time then give (ESP_ERR_INVALID_STATE, s)
          else if \<not> source_matches request s \<or> ms_source_open s then give (ESP_ERR_INVALID_STATE, s)
          else do {
            stream \<leftarrow> read_file (an_open_stage a) MAP_STAGE;
            give (case stream of
                None \<Rightarrow> (ESP_ERR_NOT_FOUND, s\<lparr>ms_source_stream := None\<rparr>)
              | Some _ \<Rightarrow> (ESP_OK, s\<lparr>ms_source_stream := Some 0, ms_source_open := True\<rparr>)) })"

text \<open>
  A read returns the bytes from the position of the stream; \<open>failing\<close> is the number of bytes that
  a failing card still delivers.
\<close>

definition map_source_read ::
  "bool \<Rightarrow> nat option \<Rightarrow> nat \<Rightarrow> map_service \<Rightarrow> (esp_err \<times> u8 list \<times> map_service) card_io" where
  "map_source_read in_time failing capacity s =
     (if \<not> map_lock s in_time then give (ESP_ERR_INVALID_ARG, [], s)
      else case (ms_source_open s, ms_source_stream s) of
        (True, Some position) \<Rightarrow> do {
          stream \<leftarrow> read_file True MAP_STAGE;
          let there = take capacity (drop position (case stream of None \<Rightarrow> [] | Some content \<Rightarrow> content));
              data = (case failing of None \<Rightarrow> there | Some k \<Rightarrow> take k there)
          in give (if data = [] \<and> failing \<noteq> None then ESP_FAIL else ESP_OK, data,
                s\<lparr>ms_source_stream := Some (position + length data)\<rparr>) }
      | _ \<Rightarrow> give (ESP_ERR_INVALID_STATE, [], s))"

definition map_source_rewind :: "bool \<Rightarrow> map_service \<Rightarrow> esp_err \<times> map_service" where
  "map_source_rewind in_time s =
     (if \<not> map_lock s in_time then (ESP_ERR_INVALID_STATE, s)
      else if ms_source_open s \<and> ms_source_stream s \<noteq> None then (ESP_OK, s\<lparr>ms_source_stream := Some 0\<rparr>)
      else (ESP_ERR_INVALID_STATE, s))"

definition map_source_close :: "bool \<Rightarrow> map_service \<Rightarrow> map_service" where
  "map_source_close in_time s =
     (if \<not> map_lock s in_time then s else s\<lparr>ms_source_stream := None, ms_source_open := False\<rparr>)"

section \<open>The outcome\<close>

text \<open>The second result is the event whose line goes to the audit file.\<close>

definition observe_upload ::
  "card_answers \<Rightarrow> bool \<Rightarrow> upload_event option \<Rightarrow> map_service \<Rightarrow> (map_service \<times> upload_event option) card_io" where
  "observe_upload a in_time event s =
     (case event of
        None \<Rightarrow> give (s, None)
      | Some e \<Rightarrow>
          if \<not> map_lock s in_time then give (s, None)
          else
            let s = s\<lparr>ms_state := ue_state e, ms_platform_error := ue_platform_error e,
                  ms_recovery_required := ue_recovery_required e\<rparr>
            in do {
              s \<leftarrow> (if ue_state e = UPLOAD_VERIFIED then discard_staged a 0 s else give s);
              give (s, if ue_state e = UPLOAD_VERIFIED \<or> ue_state e = UPLOAD_FAILED then Some e else None) })"

section \<open>The owner\<close>

definition map_upload_set_consent :: "bool \<Rightarrow> bool \<Rightarrow> map_service \<Rightarrow> esp_err \<times> map_service" where
  "map_upload_set_consent in_time enabled s =
     (if \<not> ms_started s \<or> \<not> map_lock s in_time then (ESP_ERR_INVALID_STATE, s)
      else if ms_state s = UPLOAD_RUNNING then (ESP_ERR_INVALID_STATE, s)
      else (ESP_OK, s\<lparr>ms_consent_enabled := enabled\<rparr>))"

definition map_upload_set_auto_apply :: "bool \<Rightarrow> bool \<Rightarrow> map_service \<Rightarrow> esp_err \<times> map_service" where
  "map_upload_set_auto_apply in_time enabled s =
     (if \<not> ms_started s \<or> \<not> map_lock s in_time then (ESP_ERR_INVALID_STATE, s)
      else (ESP_OK, s\<lparr>ms_auto_apply_enabled := enabled\<rparr>))"

definition map_upload_notify_attach :: "bool \<Rightarrow> map_service \<Rightarrow> map_service" where
  "map_upload_notify_attach in_time s =
     (if \<not> ms_started s \<or> \<not> map_lock s in_time then s else s\<lparr>ms_auto_apply_attempted := False\<rparr>)"

section \<open>The request\<close>

definition upload_request_of :: "u32 \<Rightarrow> device_info \<Rightarrow> map_service \<Rightarrow> map_upload_request option" where
  "upload_request_of now identity s =
     (case (copy_bounded 128 (ms_name s), copy_bounded 256 (ms_destination s),
            copy_bounded 40 (di_part_number identity), copy_bounded 64 (di_serial identity)) of
        (Some name, Some path, Some part_number, Some serial) \<Rightarrow>
          Some \<lparr>mu_name = name, mu_path = path, mu_expected_part_number = part_number,
            mu_expected_serial = serial, mu_modification_time = now, mu_size = ms_expected_size s,
            mu_source_sha256 = ms_sha256 s\<rparr>
      | _ \<Rightarrow> None)"

text \<open>
  \<open>locks\<close> are the first and the second attempt, \<open>pin\<close> the acceptance part number of the build,
  \<open>now\<close> the time, \<open>recovery\<close> and \<open>answer\<close> the answers of the transport. The third result is the
  request handed to it.
\<close>

definition map_upload_request_by_hand ::
  "u8 list \<Rightarrow> bool \<times> bool \<Rightarrow> bool \<Rightarrow> u32 \<Rightarrow> esp_err \<Rightarrow> device_info option \<Rightarrow> map_service
   \<Rightarrow> esp_err \<times> map_service \<times> map_upload_request option" where
  "map_upload_request_by_hand pin locks recovery now answer identity s =
     (case identity of
        None \<Rightarrow> (ESP_ERR_INVALID_ARG, s, None)
      | Some identity \<Rightarrow>
          if c_str (di_part_number identity) = [] \<or> c_str (di_serial identity) = []
            \<or> \<not> map_lock s (fst locks) then (ESP_ERR_INVALID_ARG, s, None)
          else if pin \<noteq> [] \<and> c_str (di_part_number identity) \<noteq> pin then (ESP_ERR_NOT_SUPPORTED, s, None)
          else if \<not> ms_started s \<or> \<not> ms_consent_enabled s \<or> \<not> ms_staged s \<or> recovery
            \<or> ms_state s = UPLOAD_RUNNING then (ESP_ERR_INVALID_STATE, s, None)
          else case upload_request_of now identity s of
            None \<Rightarrow> (ESP_ERR_INVALID_ARG, s, None)
          | Some request \<Rightarrow>
              let s = s\<lparr>ms_state := UPLOAD_RUNNING, ms_platform_error := ESP_OK\<rparr>
              in (answer,
                  if answer \<noteq> ESP_OK \<and> map_lock s (snd locks)
                  then s\<lparr>ms_state := UPLOAD_FAILED, ms_platform_error := answer\<rparr> else s,
                  Some request))"

section \<open>The automatic request\<close>

text \<open>A text in a zeroed array of the context; a text that does not fit leaves the array zero.\<close>

definition context_text :: "nat \<Rightarrow> u8 list \<Rightarrow> u8 list" where
  "context_text capacity input =
     (case copy_bounded capacity input of None \<Rightarrow> replicate capacity 0 | Some out \<Rightarrow> out)"

definition map_apply_context :: "device_info \<Rightarrow> bool \<Rightarrow> nat \<Rightarrow> bool \<Rightarrow> map_service \<Rightarrow> apply_context" where
  "map_apply_context identity sync_completed_clean sync_pending recovery s =
     \<lparr>ax_writes_compiled = True, ax_consent_enabled = ms_consent_enabled s,
      ax_auto_apply_enabled = ms_auto_apply_enabled s, ax_staged = ms_staged s,
      ax_target_part_number = context_text 40 (ms_target_part_number s),
      ax_target_serial = context_text 64 (ms_target_serial s),
      ax_device_identified = (c_str (di_serial identity) \<noteq> []),
      ax_attached_part_number = context_text 40 (di_part_number identity),
      ax_attached_serial = context_text 64 (di_serial identity),
      ax_sync_completed_clean = sync_completed_clean, ax_sync_pending = sync_pending,
      ax_transfer_running = (ms_state s = UPLOAD_RUNNING),
      ax_recovery_required = (ms_recovery_required s \<or> recovery),
      ax_already_attempted_this_attach = ms_auto_apply_attempted s\<rparr>"

text \<open>
  The automatic request works in two sections. The first evaluates under the lock and, when the
  decision is to apply, latches the attempt; its first result is the status of an early return. Then the
  lock is released, and \<open>revlink_map_upload_request\<close> takes it again for the device that was evaluated.
  What the other tasks do to the service in between is \<open>meanwhile\<close>. \<open>lock\<close> and \<open>recovery\<close> are the
  first section's, the further answers those of the request.
\<close>

definition map_upload_auto_decide ::
  "bool \<Rightarrow> bool \<Rightarrow> device_info option \<Rightarrow> bool \<Rightarrow> nat \<Rightarrow> map_service
   \<Rightarrow> esp_err option \<times> apply_decision \<times> map_service" where
  "map_upload_auto_decide lock recovery identity sync_completed_clean sync_pending s =
     (case identity of
        None \<Rightarrow> (Some ESP_ERR_INVALID_ARG, APPLY_NO_DEVICE, s)
      | Some device \<Rightarrow>
          if \<not> ms_started s \<or> \<not> map_lock s lock then (Some ESP_ERR_INVALID_STATE, APPLY_WRITES_NOT_COMPILED, s)
          else
            let decision = evaluate_apply (Some (map_apply_context device sync_completed_clean sync_pending recovery s))
            in if decision \<noteq> APPLY_ALLOWED then (Some ESP_ERR_INVALID_STATE, decision, s)
               else (None, decision, s\<lparr>ms_auto_apply_attempted := True\<rparr>))"

definition map_upload_auto_apply ::
  "u8 list \<Rightarrow> bool \<Rightarrow> bool \<Rightarrow> (map_service \<Rightarrow> map_service) \<Rightarrow> bool \<times> bool \<Rightarrow> bool \<Rightarrow> u32 \<Rightarrow> esp_err
   \<Rightarrow> device_info option \<Rightarrow> bool \<Rightarrow> nat \<Rightarrow> map_service
   \<Rightarrow> esp_err \<times> apply_decision \<times> map_service \<times> map_upload_request option" where
  "map_upload_auto_apply pin lock recovery meanwhile locks recovery' now answer identity sync_completed_clean
      sync_pending s =
     (case map_upload_auto_decide lock recovery identity sync_completed_clean sync_pending s of
        (Some err, decision, s) \<Rightarrow> (err, decision, s, None)
      | (None, decision, s) \<Rightarrow>
          (case map_upload_request_by_hand pin locks recovery' now answer identity (meanwhile s) of
             (err, s, request) \<Rightarrow> (err, decision, s, request)))"

section \<open>The snapshot\<close>

record map_snapshot =
  mz_writes_compiled :: bool
  mz_consent_enabled :: bool
  mz_auto_apply_enabled :: bool
  mz_staged :: bool
  mz_recovery_required :: bool
  mz_kind :: upload_kind
  mz_state :: upload_state
  mz_platform_error :: esp_err
  mz_name :: "u8 list"
  mz_destination :: "u8 list"
  mz_target_part_number :: "u8 list"
  mz_target_serial :: "u8 list"
  mz_size :: u32
  mz_sha256 :: "u8 list"

definition map_upload_snapshot :: "bool \<Rightarrow> bool \<Rightarrow> map_service \<Rightarrow> esp_err \<times> map_snapshot" where
  "map_upload_snapshot in_time recovery s =
     (if \<not> ms_started s \<or> \<not> map_lock s in_time
      then (ESP_ERR_INVALID_STATE, \<lparr>mz_writes_compiled = True, mz_consent_enabled = False,
              mz_auto_apply_enabled = False, mz_staged = False, mz_recovery_required = False,
              mz_kind = UPLOAD_MAP, mz_state = UPLOAD_IDLE, mz_platform_error = ESP_OK, mz_name = [],
              mz_destination = [], mz_target_part_number = [], mz_target_serial = [], mz_size = 0,
              mz_sha256 = replicate 32 0\<rparr>)
      else (ESP_OK, \<lparr>mz_writes_compiled = True, mz_consent_enabled = ms_consent_enabled s,
              mz_auto_apply_enabled = ms_auto_apply_enabled s, mz_staged = ms_staged s,
              mz_recovery_required = (ms_recovery_required s \<or> recovery), mz_kind = ms_kind s,
              mz_state = ms_state s, mz_platform_error = ms_platform_error s, mz_name = ms_name s,
              mz_destination = ms_destination s, mz_target_part_number = ms_target_part_number s,
              mz_target_serial = ms_target_serial s, mz_size = ms_expected_size s, mz_sha256 = ms_sha256 s\<rparr>))"

section \<open>The service over time\<close>

text \<open>The operations that work on the staged files.\<close>

datatype staging_op = DO_START bool bool | DO_BEGIN "u8 list option" "u8 list option" u32
  | DO_SET_TARGET "u8 list option" "u8 list option" | DO_WRITE "u8 list option" | DO_COMMIT | DO_ABORT | DO_DISCARD

definition staging :: "(u8 list \<Rightarrow> u8 list) \<Rightarrow> card_answers \<Rightarrow> bool \<Rightarrow> staging_op \<Rightarrow> map_service
    \<Rightarrow> (esp_err \<times> map_service) card_io" where
  "staging sha a in_time operation s =
     (case operation of
        DO_START directory created \<Rightarrow> map_upload_start sha a directory created s
      | DO_BEGIN name destination bytes \<Rightarrow> stage_begin a in_time name destination bytes s
      | DO_SET_TARGET part_number serial \<Rightarrow> give (stage_set_target in_time part_number serial s)
      | DO_WRITE data \<Rightarrow> stage_write a in_time data s
      | DO_COMMIT \<Rightarrow> stage_commit sha a in_time s
      | DO_ABORT \<Rightarrow> do { s \<leftarrow> stage_abort a in_time s; give (ESP_OK, s) }
      | DO_DISCARD \<Rightarrow> map_upload_discard a in_time s)"

text \<open>
  What is seen: consents, attaches, decisions to apply by itself with the device that the payload was
  pinned to at that moment, requests the transport takes (automatic or by hand), audit lines, restarts.
\<close>

datatype map_note = OWNER_CONSENT bool | ATTACHED | APPLY_DECIDED "u8 list" "u8 list"
  | UPLOAD_ASKED map_upload_request bool | AUDITED upload_event | RESTARTED

type_synonym map_world = "map_service \<times> upload_card \<times> map_upload_request option \<times> device_info option"

definition asked :: "esp_err \<Rightarrow> map_upload_request option \<Rightarrow> bool \<Rightarrow> map_note list" where
  "asked err request automatic =
     (case request of None \<Rightarrow> [] | Some q \<Rightarrow> if err = ESP_OK then [UPLOAD_ASKED q automatic] else [])"

definition in_flight :: "esp_err \<Rightarrow> map_upload_request option \<Rightarrow> map_upload_request option \<Rightarrow> map_upload_request option" where
  "in_flight err request r = (if request \<noteq> None \<and> err = ESP_OK then request else r)"

text \<open>
  A state is the service, the card, the request that the transport has taken and not answered
  with a final event, and the device of an automatic request whose first section is done and whose
  second is not: any other step may come between the two. Only the task of the USB host makes
  automatic requests, one at a time. A request itself is one step: between its two
  sections the service is running, and nothing else writes what the second one writes, the state and
  the error. The power can be lost between the operations and at any card they pass.
\<close>

inductive map_step :: "(u8 list \<Rightarrow> u8 list) \<Rightarrow> u8 list \<Rightarrow> map_world \<Rightarrow> map_note list \<Rightarrow> map_world \<Rightarrow> bool"
  for sha pin where
  stages: "run_state (staging sha a in_time operation s) (c, []) = ((err, s'), c', h) \<Longrightarrow>
    map_step sha pin (s, c, r, d) [] (s', c', r, d)"
| cut: "run_state (staging sha a in_time operation s) (c, []) = (x, c', h) \<Longrightarrow> y \<in> set h \<Longrightarrow>
    map_step sha pin (s, c, r, d) [RESTARTED] (map_service_zero, y, None, None)"
| lost: "map_step sha pin (s, c, r, d) [RESTARTED] (map_service_zero, c, None, None)"
| consents: "map_upload_set_consent in_time enabled s = (err, s') \<Longrightarrow>
    map_step sha pin (s, c, r, d) (if err = ESP_OK then [OWNER_CONSENT enabled] else []) (s', c, r, d)"
| prefers: "map_upload_set_auto_apply in_time enabled s = (err, s') \<Longrightarrow> map_step sha pin (s, c, r, d) [] (s', c, r, d)"
| attaches: "map_step sha pin (s, c, r, d) [ATTACHED] (map_upload_notify_attach in_time s, c, r, d)"
| by_hand: "map_upload_request_by_hand pin locks recovery now answer identity s = (err, s', request) \<Longrightarrow>
    map_step sha pin (s, c, r, d) (asked err request False) (s', c, in_flight err request r, d)"
| decides: "map_upload_auto_decide lock recovery identity clean waiting s = (refusal, decision, s') \<Longrightarrow>
    map_step sha pin (s, c, r, None)
      (if refusal = None then [APPLY_DECIDED (ms_target_part_number s) (ms_target_serial s)] else [])
      (s', c, r, if refusal = None then identity else None)"
| by_itself: "map_upload_request_by_hand pin locks recovery now answer (Some device) s = (err, s', request) \<Longrightarrow>
    map_step sha pin (s, c, r, Some device) (asked err request True) (s', c, in_flight err request r, None)"
| reports: "run_state (observe_upload a in_time (Some e) s) (c, []) = ((s', audit), c', h) \<Longrightarrow>
    ue_request e = request \<Longrightarrow>
    map_step sha pin (s, c, Some request, d) (case audit of None \<Rightarrow> [] | Some e \<Rightarrow> [AUDITED e])
      (s', c', if ue_state e = UPLOAD_RUNNING then Some request else None, d)"
| report_cut: "run_state (observe_upload a in_time (Some e) s) (c, []) = (x, c', h) \<Longrightarrow> y \<in> set h \<Longrightarrow>
    map_step sha pin (s, c, Some request, d) [RESTARTED] (map_service_zero, y, None, None)"
| opens: "run_state (map_source_open a in_time request s) (c, []) = ((err, s'), c', h) \<Longrightarrow>
    map_step sha pin (s, c, r, d) [] (s', c', r, d)"
| reads: "run_state (map_source_read in_time failing capacity s) (c, []) = ((err, data, s'), c', h) \<Longrightarrow>
    map_step sha pin (s, c, r, d) [] (s', c', r, d)"
| rewinds: "map_source_rewind in_time s = (err, s') \<Longrightarrow> map_step sha pin (s, c, r, d) [] (s', c, r, d)"
| closes: "map_step sha pin (s, c, r, d) [] (map_source_close in_time s, c, r, d)"

inductive map_run :: "(u8 list \<Rightarrow> u8 list) \<Rightarrow> u8 list \<Rightarrow> map_world \<Rightarrow> map_note list \<Rightarrow> map_world \<Rightarrow> bool"
  for sha pin where
  refl: "map_run sha pin w [] w"
| step: "map_run sha pin w ns w' \<Longrightarrow> map_step sha pin w' ms w'' \<Longrightarrow> map_run sha pin w (ns @ ms) w''"

section \<open>The writer\<close>

text \<open>What every operation keeps of the files and the service.\<close>

definition payload_ok :: "(u8 list \<Rightarrow> u8 list) \<Rightarrow> map_service \<Rightarrow> upload_card \<Rightarrow> bool" where
  "payload_ok sha s c \<longleftrightarrow> ms_staged s \<longrightarrow> \<not> ms_staging s
     \<and> (ms_target_part_number s = [] \<and> ms_target_serial s = []
        \<or> good_text 40 (ms_target_part_number s) \<and> good_text 64 (ms_target_serial s))
     \<and> (\<exists>payload. c MAP_STAGE = Some payload \<and> sha payload = ms_sha256 s
          \<and> (ms_expected_size s = 0
             \<or> length payload = unat (ms_expected_size s) \<and> good_text 128 (ms_name s) \<and> good_text 256 (ms_destination s)
               \<and> validate_upload_target (Span (ms_destination s)) (ms_expected_size s) (Some UPLOAD_MAP)
                   = (AP_OK, Some (ms_kind s))))"

definition files_ok :: "(u8 list \<Rightarrow> u8 list) \<Rightarrow> map_service \<Rightarrow> upload_card \<Rightarrow> bool" where
  "files_ok sha s c \<longleftrightarrow> writer_ok s c \<and> payload_ok sha s c"

lemma run_reset [card_run]:
  "run_state (reset_stage_writer a k s) (c, h) =
    (let c1 = if an_unlink a k then c(MAP_TEMP := None) else c
     in (s\<lparr>ms_stage_stream := False, ms_stage_hash_active := False, ms_staging := False,
          ms_expected_size := 0, ms_written_size := 0\<rparr>, c1, h @ [c1]))"
  by (simp add: reset_stage_writer_def card_run Let_def)

lemma target_found:
  "stage_target name destination bytes = Some (n, d, kind) \<Longrightarrow>
    bytes \<noteq> 0 \<and> validate_upload_target (Span d) bytes (Some UPLOAD_MAP) = (AP_OK, Some kind)
    \<and> d = c_str d \<and> n = c_str n"
  by (auto simp: stage_target_def Let_def c_str_id c_str_no_nul split: option.splits if_splits prod.splits)
    (metis allowed_kind fst_conv snd_conv option.sel)

definition fresh_or_started :: "map_service \<Rightarrow> bool" where
  "fresh_or_started s \<longleftrightarrow> ms_started s \<or> s = map_service_zero"

lemma ok_unstaged: "\<not> ms_staged s \<Longrightarrow> \<not> ms_staging s \<Longrightarrow> files_ok sha s c"
  by (simp add: files_ok_def payload_ok_def writer_ok_def)

lemma zero_ok: "files_ok sha map_service_zero c"
  by (rule ok_unstaged) (simp_all add: map_service_zero_def)

lemma carries_ok:
  assumes "restorable sha c r payload" "carries r s" "\<not> ms_staging s" "c' MAP_STAGE = c MAP_STAGE"
  shows "files_ok sha s c'"
proof -
  obtain content where d: "staged_map_decode (Span (take 540 content)) (Some record_zero) = (SM_OK, Some r)"
    and p: "c MAP_STAGE = Some payload" "describes sha r payload"
    and v: "fst (validate_upload_target (Span (c_str (sm_destination r))) (sm_size r) (Some UPLOAD_MAP)) = AP_OK"
    using assms(1) by (auto simp: restorable_def)
  have "good_text n (c_str x)" if "fits n x" for n x
    using fits_c_str [OF that] c_str_no_nul by (auto simp: good_text_def)
  then have "good_text 128 (ms_name s)" "good_text 256 (ms_destination s)" "good_text 40 (ms_target_part_number s)"
    "good_text 64 (ms_target_serial s)"
    using decoded_fits [OF d] assms(2) by (simp_all add: carries_def)
  moreover have "validate_upload_target (Span (ms_destination s)) (ms_expected_size s) (Some UPLOAD_MAP) = (AP_OK, Some (ms_kind s))"
    using assms(2) v by (auto simp: carries_def prod_eq_iff)
  moreover have "sha payload = ms_sha256 s" "length payload = unat (ms_expected_size s)"
    using p(2) assms(2) by (simp_all add: describes_def carries_def)
  ultimately show ?thesis using assms(3,4) p(1) by (simp add: files_ok_def payload_ok_def writer_ok_def)
qed

lemma start_ok:
  assumes "files_ok sha s c" "fresh_or_started s"
    and run: "run_state (map_upload_start sha a directory created s) (c, h) = ((err, s'), c', h')"
  shows "files_ok sha s' c' \<and> fresh_or_started s'"
proof (cases "ms_started s \<or> \<not> directory \<or> \<not> created")
  case True
  then show ?thesis using assms by (auto simp: map_upload_start_def card_run fresh_or_started_def map_service_zero_def split: if_splits)
next
  case False
  then have run': "run_state (map_upload_start sha a True True map_service_zero) (c, h) = ((err, s'), c', h')"
    using assms by (simp add: fresh_or_started_def)
  define t where "t = map_service_zero\<lparr>ms_mutex := True, ms_started := True\<rparr>"
  have t: "\<not> ms_staged t" "\<not> ms_staging t" "ms_started t" by (simp_all add: t_def map_service_zero_def)
  show ?thesis
  proof (cases "reads_fine a \<and> (\<exists>r payload. restorable sha c r payload)")
    case True
    then obtain r payload where "restorable sha c r payload" "s' = taken r t" "c' MAP_STAGE = c MAP_STAGE"
      using start_outcome [OF run'] by (auto simp: t_def)
    moreover from this taken_carries have "carries r s'" by blast
    ultimately show ?thesis using carries_ok [of sha c r payload s' c'] t by (simp add: fresh_or_started_def taken_def)
  next
    case False
    then have "s' = t" using start_outcome [OF run'] by (simp add: t_def)
    then show ?thesis using t ok_unstaged by (simp add: fresh_or_started_def)
  qed
qed

lemma begin_ok:
  assumes "files_ok sha s c"
    and "run_state (stage_begin a in_time name destination bytes s) (c, h) = ((err, s'), c', h')"
  shows "files_ok sha s' c' \<and> ms_started s' = ms_started s \<and> (s' = s \<or> ms_started s)"
proof (cases "if ms_started s then stage_target name destination bytes else None")
  case None
  then show ?thesis using assms by (simp add: stage_begin_def card_run)
next
  case (Some x)
  then obtain n d kind where t: "stage_target name destination bytes = Some (n, d, kind)" and x: "x = (n, d, kind)"
    and started: "ms_started s"
    by (cases x) (auto split: if_splits)
  note k = target_found [OF t]
  show ?thesis
  proof (cases "\<not> map_lock s in_time \<or> ms_staging s \<or> ms_source_open s \<or> ms_state s = UPLOAD_RUNNING")
    case True
    then have "s' = s \<and> c' = c"
      using assms(2) Some x by (elim disjE) (simp_all add: stage_begin_def run_give split: if_splits)
    then show ?thesis using assms(1) started by simp
  next
    case False
    define s1 where "s1 = s\<lparr>ms_stage_stream := False, ms_stage_hash_active := False, ms_staging := False,
          ms_expected_size := 0, ms_written_size := 0\<rparr>"
    define c1 where "c1 = (if an_unlink a 0 then c(MAP_TEMP := None) else c)"
    define unchanged where "unchanged t \<longleftrightarrow> ms_staged t = ms_staged s \<and> \<not> ms_staging t \<and> ms_expected_size t = 0
      \<and> ms_sha256 t = ms_sha256 s \<and> ms_target_part_number t = ms_target_part_number s
      \<and> ms_target_serial t = ms_target_serial s \<and> ms_started t = ms_started s" for t :: map_service
    have quiet: "files_ok sha t c2" if "unchanged t" "c2 MAP_STAGE = c MAP_STAGE" for t c2
      using assms(1) that by (auto simp: files_ok_def payload_ok_def writer_ok_def unchanged_def)
    have c1: "c1 MAP_STAGE = c MAP_STAGE" by (simp add: c1_def)
    have r0: "run_state (reset_stage_writer a 0 s) (c, h) = (s1, c1, h @ [c1])"
      by (simp add: run_reset Let_def s1_def c1_def)
    have run: "run_state (case copy_text 128 n of
              None \<Rightarrow> give (ESP_ERR_INVALID_ARG, s1)
            | Some name \<Rightarrow>
                let s = s1\<lparr>ms_name := name\<rparr> in
                case copy_text 256 d of
                  None \<Rightarrow> give (ESP_ERR_INVALID_ARG, s)
                | Some destination \<Rightarrow>
                    let s = s\<lparr>ms_destination := destination, ms_stage_hash := []\<rparr> in do {
                      (if an_open a then put_file MAP_TEMP [] else give ());
                      if \<not> an_open a \<or> \<not> an_hash a then do {
                        s \<leftarrow> reset_stage_writer a 1 s;
                        give (ESP_FAIL, s) }
                      else give (ESP_OK, s\<lparr>ms_stage_stream := True, ms_stage_hash_active := True,
                        ms_staging := True, ms_staged := False, ms_target_part_number := [],
                        ms_target_serial := [], ms_expected_size := bytes, ms_kind := kind,
                        ms_written_size := 0, ms_state := UPLOAD_IDLE, ms_platform_error := ESP_OK\<rparr>) })
          (c1, h @ [c1]) = ((err, s'), c', h')"
      using assms(2) False Some x r0 by (simp add: stage_begin_def run_bind)
    show ?thesis
    proof (cases "copy_text 128 n = None \<or> copy_text 256 d = None \<or> \<not> an_open a \<or> \<not> an_hash a")
      case True
      then consider "copy_text 128 n = None"
        | p where "copy_text 128 n = Some p" "copy_text 256 d = None"
        | p q where "copy_text 128 n = Some p" "copy_text 256 d = Some q" "\<not> an_open a \<or> \<not> an_hash a"
        by auto
      then have "unchanged s' \<and> c' MAP_STAGE = c MAP_STAGE"
      proof cases
        case 1
        then have "s' = s1" "c' = c1" using run by (simp_all add: run_give)
        then show ?thesis using c1 by (simp add: unchanged_def s1_def)
      next
        case 2
        then have "s' = s1\<lparr>ms_name := p\<rparr>" "c' = c1" using run by (simp_all add: run_give Let_def)
        then show ?thesis using c1 by (simp add: unchanged_def s1_def)
      next
        case 3
        then show ?thesis using run c1
          by (cases "an_open a") (auto simp: card_run Let_def unchanged_def s1_def)
      qed
      then show ?thesis using quiet started by (auto simp: unchanged_def)
    next
      case False
      then obtain p q where pq: "copy_text 128 n = Some p" "copy_text 256 d = Some q" by auto
      then have g: "good_text 128 p" "good_text 256 q" "q = d" using copied_good k by metis+
      have "s' = s1\<lparr>ms_name := p, ms_destination := q, ms_stage_hash := [], ms_stage_stream := True,
          ms_stage_hash_active := True, ms_staging := True, ms_staged := False, ms_target_part_number := [],
          ms_target_serial := [], ms_expected_size := bytes, ms_kind := kind,
          ms_written_size := 0, ms_state := UPLOAD_IDLE, ms_platform_error := ESP_OK\<rparr>" "c' = c1(MAP_TEMP := Some [])"
        using run False pq by (auto simp: card_run Let_def s1_def)
      then show ?thesis using g k started
        by (simp add: files_ok_def payload_ok_def writer_ok_def s1_def)
    qed
  qed
qed

lemma set_target_ok:
  assumes "files_ok sha s c" "stage_set_target in_time part_number serial s = (err, s')"
  shows "files_ok sha s' c \<and> ms_started s' = ms_started s \<and> (s' = s \<or> ms_mutex s)"
  using assms by (auto simp: stage_set_target_def files_ok_def writer_ok_def payload_ok_def map_lock_def
      dest!: copied_good split: option.splits if_splits)

definition writer_reset :: "map_service \<Rightarrow> map_service" where
  "writer_reset s = s\<lparr>ms_stage_stream := False, ms_stage_hash_active := False, ms_staging := False,
     ms_expected_size := 0, ms_written_size := 0\<rparr>"

lemma reset_effect:
  assumes "run_state (reset_stage_writer a k s) (c, h) = (s', c', h')"
  shows "s' = writer_reset s \<and> c' MAP_STAGE = c MAP_STAGE"
  using assms by (simp add: run_reset Let_def writer_reset_def split: if_splits) auto

lemma reset_ok: "files_ok sha s c \<Longrightarrow> c' MAP_STAGE = c MAP_STAGE \<Longrightarrow> files_ok sha (writer_reset s) c'"
  unfolding files_ok_def writer_ok_def payload_ok_def writer_reset_def by auto

lemma reset_fields [simp]: "ms_started (writer_reset s) = ms_started s" "ms_mutex (writer_reset s) = ms_mutex s"
  by (simp_all add: writer_reset_def)

lemma write_outcome:
  assumes run: "run_state (stage_write a in_time data s) (c, h) = ((err, s'), c', h')"
  obtains (same) "s' = s" "c' = c"
    | (failed) "ms_mutex s" "s' = writer_reset s" "c' MAP_STAGE = c MAP_STAGE"
    | (written) d where "ms_mutex s" "ms_staging s" "length d \<le> unat (ms_expected_size s - ms_written_size s)"
        "s' = s\<lparr>ms_stage_hash := ms_stage_hash s @ d, ms_written_size := ms_written_size s + of_nat (length d)\<rparr>"
        "c' = c(MAP_TEMP := Some (case c MAP_TEMP of None \<Rightarrow> d | Some old \<Rightarrow> old @ d))"
proof (cases "data = None \<or> data = Some [] \<or> \<not> map_lock s in_time")
  case True
  then have "s' = s" "c' = c" using run by (auto simp: stage_write_def run_give split: option.splits)
  then show ?thesis by (rule same)
next
  case False
  then obtain d where d: "data = Some d" "d \<noteq> []" and lock: "map_lock s in_time" by auto
  then have m: "ms_mutex s" by (simp add: map_lock_def)
  show ?thesis
  proof (cases "\<not> ms_staging s \<or> \<not> ms_stage_stream s \<or> length d > unat (ms_expected_size s - ms_written_size s)")
    case True
    obtain s1 c1 h1 where r: "run_state (reset_stage_writer a 0 s) (c, h) = (s1, c1, h1)" using prod_cases3 by blast
    then have "s' = s1" "c' = c1" using run d lock True by (auto simp: stage_write_def run_bind run_give)
    then show ?thesis using failed m reset_effect [OF r] by simp
  next
    case room: False
    define D where "D = (if an_written a then d else an_partial a)"
    define c0 where "c0 = c(MAP_TEMP := Some (case c MAP_TEMP of None \<Rightarrow> D | Some old \<Rightarrow> old @ D))"
    show ?thesis
    proof (cases "an_written a \<and> an_hash a")
      case True
      then show ?thesis using run d lock room m
        by (intro written [of d]) (simp_all add: stage_write_def run_bind run_give run_append_file)
    next
      case False
      obtain s1 c1 h1 where r: "run_state (reset_stage_writer a 0 s) (c0, h @ [c0]) = (s1, c1, h1)"
        using prod_cases3 by blast
      have "s' = s1 \<and> c' = c1" using run d lock room False r
        by (simp add: stage_write_def run_bind run_give run_append_file D_def [symmetric] c0_def [symmetric])
      then show ?thesis using failed m reset_effect [OF r] by (simp add: c0_def)
    qed
  qed
qed

lemma write_ok:
  assumes ok: "files_ok sha s c"
    and run: "run_state (stage_write a in_time data s) (c, h) = ((err, s'), c', h')"
  shows "files_ok sha s' c' \<and> ms_started s' = ms_started s \<and> (s' = s \<or> ms_mutex s)"
  using run
proof (cases rule: write_outcome)
    case same
    then show ?thesis using ok by simp
  next
    case failed
    then show ?thesis using reset_ok [OF ok] by simp
  next
    case (written d)
    have w: "writer_ok s c" using ok by (simp add: files_ok_def)
    have le: "ms_written_size s \<le> ms_expected_size s" using w written(2) by (simp add: writer_ok_def)
    then have e: "unat (ms_expected_size s - ms_written_size s) = unat (ms_expected_size s) - unat (ms_written_size s)"
      by (rule unat_sub)
    have b: "unat (ms_written_size s) + length d \<le> unat (ms_expected_size s)"
      using written(3) e le by (simp add: word_le_nat_alt)
    then have small: "unat (ms_written_size s) + length d < 2 ^ 32"
      using unsigned_less [of "ms_expected_size s", where ?'a = nat] by simp
    then have u: "unat (ms_written_size s + of_nat (length d)) = unat (ms_written_size s) + length d"
      by (simp add: unat_word_ariths unat_of_nat)
    show ?thesis
      using ok written u b
      by (auto simp: files_ok_def writer_ok_def payload_ok_def word_le_nat_alt map_lock_def)
qed

lemma commit_ok:
  assumes ok: "files_ok sha s c"
    and run: "run_state (stage_commit sha a in_time s) (c, h) = ((err, s'), c', h')"
  shows "files_ok sha s' c' \<and> ms_started s' = ms_started s \<and> (s' = s \<or> ms_mutex s)"
proof (cases "map_lock s in_time")
  case lock: True
  then have m: "ms_mutex s" by (simp add: map_lock_def)
  show ?thesis
  proof (cases "committable a s")
    case True
    then have w: "ms_staging s" "ms_written_size s = ms_expected_size s" by (simp_all add: committable_def)
    note o = ok [unfolded files_ok_def writer_ok_def, THEN conjunct1, rule_format, OF w(1)]
    show ?thesis
    proof (cases "err = ESP_OK")
      case True
      then have "s' = (hashed_service sha s)\<lparr>ms_staged := True\<rparr>" "c' MAP_STAGE = c MAP_TEMP"
        using commit_done [OF \<open>committable a s\<close> lock run] by auto
      then show ?thesis using o w m
        by (auto simp: files_ok_def writer_ok_def payload_ok_def) (simp_all add: hashed_service_def)
    next
      case False
      then have "s' = (hashed_service sha s)\<lparr>ms_staged := False, ms_target_part_number := [], ms_target_serial := []\<rparr>"
        using commit_done [OF \<open>committable a s\<close> lock run] by auto
      then show ?thesis using m by (simp add: ok_unstaged hashed_service_def)
    qed
  next
    case False
    then show ?thesis using commit_failed [OF False lock run] m by (auto intro: ok_unstaged)
  qed
next
  case False
  then show ?thesis using run ok by (simp add: stage_commit_def run_give)
qed

lemma abort_ok:
  assumes ok: "files_ok sha s c" and run: "run_state (stage_abort a in_time s) (c, h) = (s', c', h')"
  shows "files_ok sha s' c' \<and> ms_started s' = ms_started s \<and> (s' = s \<or> ms_mutex s)"
proof (cases "map_lock s in_time")
  case True
  then have "s' = writer_reset s" "c' MAP_STAGE = c MAP_STAGE"
    using run reset_effect by (simp_all add: stage_abort_def)
  then show ?thesis using reset_ok [OF ok] True by (simp add: map_lock_def)
next
  case False
  then show ?thesis using run ok by (simp add: stage_abort_def run_give)
qed

lemma discard_ok:
  assumes "files_ok sha s c" "run_state (map_upload_discard a in_time s) (c, h) = ((err, s'), c', h')"
  shows "files_ok sha s' c' \<and> ms_started s' = ms_started s \<and> (s' = s \<or> ms_started s)"
proof (cases "\<not> ms_started s \<or> \<not> map_lock s in_time \<or> ms_staging s \<or> ms_state s = UPLOAD_RUNNING")
  case True
  then show ?thesis using assms by (elim disjE) (simp_all add: map_upload_discard_def run_give split: if_splits)
next
  case False
  then have "\<not> ms_staged s' \<and> \<not> ms_staging s' \<and> ms_started s'"
    using assms(2) by (auto simp: map_upload_discard_def card_run Let_def)
  then show ?thesis using False ok_unstaged by simp
qed

section \<open>The invariant of the service\<close>

text \<open>The last decision of the owner, and whether an automatic request was made since the last attach.\<close>

fun upload_consented :: "map_note list \<Rightarrow> bool" where
  "upload_consented [] = False"
| "upload_consented (OWNER_CONSENT b # ns) = b"
| "upload_consented (RESTARTED # ns) = False"
| "upload_consented (_ # ns) = upload_consented ns"

fun upload_attempted :: "map_note list \<Rightarrow> bool" where
  "upload_attempted [] = False"
| "upload_attempted (ATTACHED # ns) = False"
| "upload_attempted (RESTARTED # ns) = False"
| "upload_attempted (APPLY_DECIDED _ _ # ns) = True"
| "upload_attempted (_ # ns) = upload_attempted ns"

text \<open>
  The decision to apply that no automatic request has followed, with what was seen before it. The
  three functions read the notes from the latest on.
\<close>

fun decision_pending :: "map_note list \<Rightarrow> (u8 list \<times> u8 list \<times> map_note list) option" where
  "decision_pending [] = None"
| "decision_pending (RESTARTED # ns) = None"
| "decision_pending (UPLOAD_ASKED _ True # ns) = None"
| "decision_pending (APPLY_DECIDED part_number serial # ns) = Some (part_number, serial, ns)"
| "decision_pending (_ # ns) = decision_pending ns"

lemma decision_pending_split:
  "decision_pending ns = Some (part_number, serial, earlier) \<Longrightarrow>
    \<exists>later. ns = later @ APPLY_DECIDED part_number serial # earlier \<and> RESTARTED \<notin> set later
      \<and> (\<forall>q. UPLOAD_ASKED q True \<notin> set later)"
proof (induction ns)
  case (Cons m ns)
  show ?case
  proof (cases "\<exists>p s. m = APPLY_DECIDED p s")
    case True
    then show ?thesis using Cons.prems by (intro exI [of _ "[]"]) auto
  next
    case False
    have m: "m \<noteq> RESTARTED \<and> (\<forall>q. m \<noteq> UPLOAD_ASKED q True)
        \<and> decision_pending ns = Some (part_number, serial, earlier)"
    proof (cases m)
      case (UPLOAD_ASKED q b)
      then show ?thesis using Cons.prems by (cases b) simp_all
    qed (use False Cons.prems in simp_all)
    obtain later where "ns = later @ APPLY_DECIDED part_number serial # earlier" "RESTARTED \<notin> set later"
      "\<forall>q. UPLOAD_ASKED q True \<notin> set later" using Cons.IH m by blast
    then show ?thesis using m by (intro exI [of _ "m # later"]) auto
  qed
qed simp

definition decided_for :: "map_note list \<Rightarrow> device_info \<Rightarrow> bool" where
  "decided_for ns device \<longleftrightarrow> (\<exists>earlier.
     decision_pending ns = Some (c_str (di_part_number device), c_str (di_serial device), earlier)
     \<and> \<not> upload_attempted earlier)"

definition map_inv :: "(u8 list \<Rightarrow> u8 list) \<Rightarrow> map_note list \<Rightarrow> map_world \<Rightarrow> bool" where
  "map_inv sha ns w \<longleftrightarrow>
     (case w of (s, c, r, d) \<Rightarrow> files_ok sha s c \<and> fresh_or_started s
        \<and> ms_consent_enabled s = upload_consented (rev ns)
        \<and> (upload_attempted (rev ns) \<longrightarrow> ms_auto_apply_attempted s)
        \<and> (\<forall>device. d = Some device \<longrightarrow> decided_for (rev ns) device))"

text \<open>The fields of the owner, which the work on the files leaves alone.\<close>

definition same_owner :: "map_service \<Rightarrow> map_service \<Rightarrow> bool" where
  "same_owner s t \<longleftrightarrow> ms_consent_enabled t = ms_consent_enabled s
     \<and> ms_auto_apply_attempted t = ms_auto_apply_attempted s \<and> ms_started t = ms_started s"

lemma same_owner_refl [simp]: "same_owner s s"
  by (simp add: same_owner_def)

lemma reset_owner: "same_owner s (writer_reset s)"
  by (simp add: same_owner_def writer_reset_def)

lemma begin_owner:
  assumes "run_state (stage_begin a in_time name destination bytes s) (c, h) = ((err, s'), c', h')"
  shows "same_owner s s'"
  using assms
  by (auto simp: stage_begin_def card_run Let_def same_owner_def split: option.splits if_splits prod.splits)

lemma set_target_owner: "stage_set_target in_time part_number serial s = (err, s') \<Longrightarrow> same_owner s s'"
  by (auto simp: stage_set_target_def same_owner_def split: option.splits if_splits)

lemma write_owner:
  assumes "run_state (stage_write a in_time data s) (c, h) = ((err, s'), c', h')"
  shows "same_owner s s'"
  using assms by (cases rule: write_outcome) (simp_all add: reset_owner, simp add: same_owner_def)

lemma commit_owner:
  assumes run: "run_state (stage_commit sha a in_time s) (c, h) = ((err, s'), c', h')"
  shows "same_owner s s'"
proof (cases "map_lock s in_time")
  case lock: True
  show ?thesis
  proof (cases "committable a s")
    case True
    then show ?thesis using commit_done [OF True lock run] by (auto simp: same_owner_def hashed_service_def split: if_splits)
  next
    case False
    then show ?thesis using commit_failed [OF False lock run] by (auto simp: same_owner_def)
  qed
qed (use run in \<open>simp add: stage_commit_def run_give\<close>)

lemma start_owner:
  assumes "fresh_or_started s"
    and "run_state (map_upload_start sha a directory created s) (c, h) = ((err, s'), c', h')"
  shows "ms_consent_enabled s' = ms_consent_enabled s \<and> (ms_started s \<longrightarrow> s' = s)
    \<and> (ms_auto_apply_attempted s \<longrightarrow> ms_auto_apply_attempted s')"
proof (cases "ms_started s \<or> \<not> directory \<or> \<not> created")
  case True
  then show ?thesis using assms by (auto simp: map_upload_start_def card_run fresh_or_started_def map_service_zero_def split: if_splits)
next
  case False
  then have z: "s = map_service_zero" and
    run: "run_state (map_upload_start sha a True True map_service_zero) (c, h) = ((err, s'), c', h')"
    using assms by (auto simp: fresh_or_started_def)
  have "\<not> ms_consent_enabled s'"
    using start_outcome [OF run] by (auto simp: taken_def map_service_zero_def split: if_splits)
  then show ?thesis using False z by (simp add: map_service_zero_def)
qed

lemma staging_inv:
  assumes inv: "map_inv sha ns (s, c, r, d)"
    and run: "run_state (staging sha a in_time operation s) (c, []) = ((err, s'), c', h)"
  shows "map_inv sha ns (s', c', r, d)"
proof -
  have ok: "files_ok sha s c" and fresh: "fresh_or_started s" using inv by (simp_all add: map_inv_def)
  have idle: "ms_mutex s \<Longrightarrow> ms_started s" using fresh by (auto simp: fresh_or_started_def map_service_zero_def)
  have close: "map_inv sha ns (s', c', r, d)"
    if "files_ok sha s' c' \<and> ms_started s' = ms_started s \<and> (s' = s \<or> ms_started s)" "same_owner s s'"
    using that inv by (auto simp: map_inv_def same_owner_def fresh_or_started_def)
  show ?thesis
  proof (cases operation)
    case (DO_START directory created)
    then have "run_state (map_upload_start sha a directory created s) (c, []) = ((err, s'), c', h)"
      using run by (simp add: staging_def)
    from start_ok [OF ok fresh this] start_owner [OF fresh this] inv show ?thesis
      by (auto simp: map_inv_def)
  next
    case (DO_BEGIN name destination bytes)
    then have "run_state (stage_begin a in_time name destination bytes s) (c, []) = ((err, s'), c', h)"
      using run by (simp add: staging_def)
    from begin_ok [OF ok this] begin_owner [OF this] show ?thesis by (rule close)
  next
    case (DO_SET_TARGET part_number serial)
    then have "stage_set_target in_time part_number serial s = (err, s')" "c' = c"
      using run by (simp_all add: staging_def run_give)
    from set_target_ok [OF ok this(1)] set_target_owner [OF this(1)] this(2) show ?thesis
      using idle by (intro close) auto
  next
    case (DO_WRITE data)
    then have r: "run_state (stage_write a in_time data s) (c, []) = ((err, s'), c', h)"
      using run by (simp add: staging_def)
    show ?thesis using write_ok [OF ok r] idle write_owner [OF r] by (intro close) auto
  next
    case DO_COMMIT
    then have r: "run_state (stage_commit sha a in_time s) (c, []) = ((err, s'), c', h)"
      using run by (simp add: staging_def)
    show ?thesis using commit_ok [OF ok r] idle commit_owner [OF r] by (intro close) auto
  next
    case DO_ABORT
    then have r: "run_state (stage_abort a in_time s) (c, []) = (s', c', h)"
      using run by (simp add: staging_def run_bind run_give split: prod.splits)
    have "s' = s \<or> s' = writer_reset s"
      using r reset_effect by (auto simp: stage_abort_def run_give split: if_splits)
    then show ?thesis using abort_ok [OF ok r] idle reset_owner by (intro close) auto
  next
    case DO_DISCARD
    then have r: "run_state (map_upload_discard a in_time s) (c, []) = ((err, s'), c', h)"
      using run by (simp add: staging_def)
    have "same_owner s s'"
      using r by (auto simp: map_upload_discard_def card_run Let_def same_owner_def split: if_splits)
    then show ?thesis using discard_ok [OF ok r] by (intro close) auto
  qed
qed

text \<open>The transport's reports and its reads.\<close>

lemma quiet_ok:
  "files_ok sha s c \<Longrightarrow> files_ok sha (s\<lparr>ms_state := st, ms_platform_error := e, ms_recovery_required := b\<rparr>) c"
  by (simp add: files_ok_def writer_ok_def payload_ok_def)

lemma observed_upload:
  assumes "files_ok sha s c" "run_state (observe_upload a in_time (Some e) s) (c, h) = ((s', audit), c', h')"
  shows "files_ok sha s' c' \<and> same_owner s s' \<and> (s' = s \<or> ms_mutex s)"
proof (cases "map_lock s in_time")
  case False
  then show ?thesis using assms by (simp add: observe_upload_def run_give)
next
  case lock: True
  define t where "t = s\<lparr>ms_state := ue_state e, ms_platform_error := ue_platform_error e,
                  ms_recovery_required := ue_recovery_required e\<rparr>"
  have t: "files_ok sha t c" "same_owner s t" using quiet_ok [OF assms(1)] by (simp_all add: t_def same_owner_def)
  show ?thesis
  proof (cases "ue_state e = UPLOAD_VERIFIED")
    case True
    obtain s1 c1 h1 where d: "run_state (discard_staged a 0 t) (c, h) = (s1, c1, h1)" using prod_cases3 by blast
    have t': "s\<lparr>ms_state := UPLOAD_VERIFIED, ms_platform_error := ue_platform_error e,
                  ms_recovery_required := ue_recovery_required e\<rparr> = t" using True by (simp add: t_def)
    have "s' = s1" "c' = c1"
      using assms(2) lock True d by (simp_all add: observe_upload_def run_bind run_give t' Let_def)
    moreover have "s1 = t\<lparr>ms_staged := False, ms_target_part_number := [], ms_target_serial := []\<rparr>"
      using discard_cards [OF d] by auto
    moreover have "c1 MAP_TEMP = c MAP_TEMP" using d by (auto simp: run_discard run_remove Let_def)
    ultimately show ?thesis using t lock
      by (auto simp: files_ok_def writer_ok_def payload_ok_def same_owner_def map_lock_def)
  next
    case False
    then have "s' = t" "c' = c"
      using assms(2) lock by (simp_all add: observe_upload_def run_bind run_give t_def [symmetric] Let_def)
    then show ?thesis using t lock by (simp add: map_lock_def)
  qed
qed

lemma stream_ok: "files_ok sha s c \<Longrightarrow> files_ok sha (s\<lparr>ms_source_stream := x, ms_source_open := b\<rparr>) c"
  "files_ok sha s c \<Longrightarrow> files_ok sha (s\<lparr>ms_source_stream := x\<rparr>) c"
  by (simp_all add: files_ok_def writer_ok_def payload_ok_def)

lemma open_effect:
  assumes "run_state (map_source_open a in_time request s) (c, h) = ((err, s'), c', h')"
  shows "c' = c \<and> (s' = s \<or> ms_mutex s \<and> (\<exists>x b. s' = s\<lparr>ms_source_stream := x, ms_source_open := b\<rparr>
    \<or> s' = s\<lparr>ms_source_stream := x\<rparr>))"
  using assms by (auto simp: map_source_open_def card_run map_lock_def split: option.splits if_splits)

lemma read_effect:
  assumes "run_state (map_source_read in_time failing capacity s) (c, h) = ((err, data, s'), c', h')"
  shows "c' = c \<and> (s' = s \<or> ms_mutex s \<and> (\<exists>x. s' = s\<lparr>ms_source_stream := x\<rparr>))"
  using assms by (auto simp: map_source_read_def card_run map_lock_def Let_def split: option.splits if_splits bool.splits)

section \<open>What a request carries\<close>

lemma hand_cases:
  assumes run: "map_upload_request_by_hand pin locks recovery now answer identity s = (err, s', request)"
  obtains (refused) "s' = s" "request = None"
    | (passed) device q st e where "identity = Some device" "upload_request_of now device s = Some q" "request = Some q"
        "err = answer" "s' = s\<lparr>ms_state := st, ms_platform_error := e\<rparr>" "ms_started s" "ms_consent_enabled s"
        "ms_staged s" "\<not> recovery" "ms_state s \<noteq> UPLOAD_RUNNING" "pin = [] \<or> c_str (di_part_number device) = pin"
proof (cases identity)
  case None
  then show ?thesis using run refused by (simp add: map_upload_request_by_hand_def)
next
  case (Some device)
  note run1 = run [unfolded map_upload_request_by_hand_def Some option.case]
  show ?thesis
  proof (cases "c_str (di_part_number device) = [] \<or> c_str (di_serial device) = [] \<or> \<not> map_lock s (fst locks)")
    case True
    then show ?thesis using run1 refused by (simp only: if_True) simp
  next
    case n1: False
    note run2 = run1 [unfolded if_not_P [OF n1]]
    show ?thesis
    proof (cases "pin \<noteq> [] \<and> c_str (di_part_number device) \<noteq> pin")
      case True
      then show ?thesis using run2 refused by simp
    next
      case n2: False
      note run3 = run2 [unfolded if_not_P [OF n2]]
      show ?thesis
      proof (cases "\<not> ms_started s \<or> \<not> ms_consent_enabled s \<or> \<not> ms_staged s \<or> recovery \<or> ms_state s = UPLOAD_RUNNING")
        case True
        then show ?thesis using run3 refused by (simp only: if_True) simp
      next
        case n3: False
        note run4 = run3 [unfolded if_not_P [OF n3]]
        show ?thesis
        proof (cases "upload_request_of now device s")
          case None
          then show ?thesis using run4 refused by simp
        next
          case q: (Some q)
          define b where "b \<longleftrightarrow> answer \<noteq> ESP_OK \<and> map_lock (s\<lparr>ms_state := UPLOAD_RUNNING, ms_platform_error := ESP_OK\<rparr>) (snd locks)"
          have "request = Some q" "err = answer"
            "s' = s\<lparr>ms_state := (if b then UPLOAD_FAILED else UPLOAD_RUNNING), ms_platform_error := (if b then answer else ESP_OK)\<rparr>"
            using run4 q by (auto simp: Let_def b_def split: if_splits)
          with Some q n2 n3 show ?thesis by (intro passed [of device q]) simp_all
        qed
      qed
    qed
  qed
qed

lemma hand_ok: "files_ok sha s c \<Longrightarrow> files_ok sha (s\<lparr>ms_state := st, ms_platform_error := e\<rparr>) c"
  "files_ok sha s c \<Longrightarrow> files_ok sha (s\<lparr>ms_state := st, ms_platform_error := e, ms_auto_apply_attempted := b\<rparr>) c"
  "files_ok sha s c \<Longrightarrow> files_ok sha (s\<lparr>ms_auto_apply_attempted := b\<rparr>) c"
  by (simp_all add: files_ok_def writer_ok_def payload_ok_def)

lemma decide_cases:
  assumes run: "map_upload_auto_decide lock recovery identity clean waiting s = (refusal, decision, s')"
  obtains (refused) "s' = s" "refusal \<noteq> None"
    | (passed) device where "identity = Some device" "refusal = None" "ms_started s"
        "evaluate_apply (Some (map_apply_context device clean waiting recovery s)) = APPLY_ALLOWED"
        "s' = s\<lparr>ms_auto_apply_attempted := True\<rparr>"
proof (cases identity)
  case None
  then have "s' = s" "refusal \<noteq> None" using run by (auto simp: map_upload_auto_decide_def)
  then show ?thesis by (rule refused)
next
  case (Some device)
  define v where "v = evaluate_apply (Some (map_apply_context device clean waiting recovery s))"
  show ?thesis
  proof (cases "\<not> ms_started s \<or> \<not> map_lock s lock \<or> v \<noteq> APPLY_ALLOWED")
    case True
    then have "s' = s" "refusal \<noteq> None"
      using run Some by (auto simp: map_upload_auto_decide_def v_def [symmetric] Let_def simp del: evaluate_apply.simps split: if_splits)
    then show ?thesis by (rule refused)
  next
    case False
    then have "refusal = None" "s' = s\<lparr>ms_auto_apply_attempted := True\<rparr>"
      using run Some by (simp_all add: map_upload_auto_decide_def v_def [symmetric] Let_def del: evaluate_apply.simps)
    then show ?thesis using False Some by (intro passed) (simp_all only: v_def, simp_all)
  qed
qed

text \<open>
  An abort keeps a payload that was staged before but drops its size, so that no request for it can
  be accepted by the transport, which refuses zero bytes.
\<close>

lemma abort_forgets_size:
  assumes "map_lock s in_time" "ms_staged s" "run_state (stage_abort a in_time s) (c, h) = (s', c', h')"
  shows "ms_staged s' \<and> ms_expected_size s' = 0 \<and> c' MAP_STAGE = c MAP_STAGE"
proof -
  have "run_state (reset_stage_writer a 0 s) (c, h) = (s', c', h')" using assms(1,3) by (simp add: stage_abort_def)
  from reset_effect [OF this] show ?thesis using assms(2) by (simp add: writer_reset_def)
qed

lemma context_c_str: "c_str (context_text capacity x) = (if copy_bounded capacity x = None then [] else c_str x)"
proof (cases "copy_bounded capacity x")
  case None
  then show ?thesis by (cases capacity) (simp_all add: context_text_def c_str_def)
next
  case (Some out)
  from copy_contents [OF this] Some show ?thesis by (simp add: context_text_def)
qed

lemma context_length: "length (context_text capacity x) = capacity"
  using copy_contents [of capacity x] by (auto simp: context_text_def split: option.split)

lemma context_equal:
  assumes "bounded_equal (context_text n target) (context_text n given) n" "good_text n target"
  shows "c_str given = target"
proof -
  have "c_str (context_text n target) = c_str (context_text n given)" "c_str (context_text n target) \<noteq> []"
    using assms(1) by (auto simp: bounded_equal_iff context_length fits_def strnlen_def)
  moreover have "c_str target = target" using assms(2) by (simp add: good_text_def c_str_id)
  ultimately show ?thesis by (simp add: context_c_str split: if_splits)
qed

lemma decided_pinned:
  assumes "payload_ok sha s c" "evaluate_apply (Some (map_apply_context device clean waiting recovery s)) = APPLY_ALLOWED"
  shows "\<not> ms_auto_apply_attempted s \<and> c_str (di_part_number device) = ms_target_part_number s
    \<and> c_str (di_serial device) = ms_target_serial s"
proof -
  have staged: "ms_staged s" and fresh: "\<not> ms_auto_apply_attempted s"
    and eq: "bounded_equal (context_text 64 (ms_target_serial s)) (context_text 64 (di_serial device)) 64"
      "bounded_equal (context_text 40 (ms_target_part_number s)) (context_text 40 (di_part_number device)) 40"
    using assms(2) by (auto simp: map_apply_context_def split: if_splits)
  have "ms_target_serial s \<noteq> []"
    using eq(1) by (auto simp: bounded_equal_iff fits_def context_text_def copy_bounded_def strnlen_def c_str_def)
  then have "good_text 40 (ms_target_part_number s)" "good_text 64 (ms_target_serial s)"
    using assms(1) staged by (auto simp: payload_ok_def)
  then show ?thesis using fresh eq context_equal by blast
qed

text \<open>The automatic request as a whole is the two steps, with the work of the other tasks in between.\<close>

lemma auto_apply_steps:
  assumes "map_upload_auto_apply pin lock recovery meanwhile locks recovery' now answer identity clean waiting s
      = (err, decision, s', Some q)"
  shows "\<exists>t device. identity = Some device
    \<and> map_step sha pin (s, c, r, None) [APPLY_DECIDED (ms_target_part_number s) (ms_target_serial s)] (t, c, r, Some device)
    \<and> map_step sha pin (meanwhile t, c', r', Some device) (asked err (Some q) True)
        (s', c', in_flight err (Some q) r', None)"
proof -
  obtain refusal verdict t where d: "map_upload_auto_decide lock recovery identity clean waiting s = (refusal, verdict, t)"
    using prod_cases3 by blast
  from d show ?thesis
  proof (cases rule: decide_cases)
    case refused
    then show ?thesis using assms d by (auto simp: map_upload_auto_apply_def)
  next
    case (passed device)
    have "map_upload_request_by_hand pin locks recovery' now answer (Some device) (meanwhile t) = (err, s', Some q)"
      using assms d passed(1,2) by (auto simp: map_upload_auto_apply_def split: prod.splits)
    from map_step.by_itself [OF this] map_step.decides [OF d] passed(1,2) show ?thesis by fastforce
  qed
qed

section \<open>Every run\<close>

lemma asked_none [simp]: "asked err None b = []" "in_flight err None r = r"
  by (simp_all add: asked_def in_flight_def)

lemma inv_quiet:
  assumes "map_inv sha ns (s, c, r, d)" "files_ok sha s' c'" "same_owner s s'" "s' = s \<or> ms_mutex s \<or> ms_started s"
  shows "map_inv sha ns (s', c', r', d)"
  using assms by (auto simp: map_inv_def same_owner_def fresh_or_started_def map_service_zero_def)

lemma inv_restart: "map_inv sha (ns @ [RESTARTED]) (map_service_zero, c, r, None)"
  by (simp add: map_inv_def zero_ok fresh_or_started_def) (simp add: map_service_zero_def)

lemma owner_ok: "files_ok sha s c \<Longrightarrow> files_ok sha (s\<lparr>ms_consent_enabled := b\<rparr>) c"
  "files_ok sha s c \<Longrightarrow> files_ok sha (s\<lparr>ms_auto_apply_enabled := b\<rparr>) c"
  by (simp_all add: files_ok_def writer_ok_def payload_ok_def)

lemma consent_effect: "map_upload_set_consent in_time enabled s = (err, s') \<Longrightarrow>
    err \<noteq> ESP_OK \<and> s' = s \<or> err = ESP_OK \<and> ms_started s \<and> s' = s\<lparr>ms_consent_enabled := enabled\<rparr>"
  by (auto simp: map_upload_set_consent_def split: if_splits)

lemma preference_effect: "map_upload_set_auto_apply in_time enabled s = (err, s') \<Longrightarrow>
    s' = s \<or> ms_started s \<and> s' = s\<lparr>ms_auto_apply_enabled := enabled\<rparr>"
  by (auto simp: map_upload_set_auto_apply_def split: if_splits)

lemma map_inv_step:
  assumes "map_step sha pin w ms w'" "map_inv sha ns w"
  shows "map_inv sha (ns @ ms) w'"
  using assms
proof (induction rule: map_step.induct)
  case (stages a in_time operation s c err s' c' h r d)
  then show ?case using staging_inv by simp
next
  case (consents in_time enabled s err s' c r d)
  then show ?case using consent_effect [OF consents(1)] owner_ok(1)
    by (auto simp: map_inv_def fresh_or_started_def decided_for_def)
next
  case (prefers in_time enabled s err s' c r d)
  then show ?case using preference_effect [OF prefers(1)] owner_ok(2)
    by (auto simp: map_inv_def fresh_or_started_def)
next
  case (attaches s c r d in_time)
  then show ?case using hand_ok(3)
    by (auto simp: map_upload_notify_attach_def map_inv_def fresh_or_started_def decided_for_def)
next
  case (by_hand locks recovery now answer identity s err s' request c r d)
  then have inv: "map_inv sha ns (s, c, r, d)" by simp
  from by_hand(1) show ?case
  proof (cases rule: hand_cases)
    case refused
    then show ?thesis using inv by simp
  next
    case (passed device q st e)
    then have "map_inv sha ns (s', c, in_flight err request r, d)"
      using inv by (intro inv_quiet [OF inv]) (auto simp: hand_ok same_owner_def map_inv_def)
    then show ?thesis by (simp add: asked_def map_inv_def decided_for_def split: option.split)
  qed
next
  case (decides lock recovery identity clean waiting s refusal decision s' c r)
  then have inv: "map_inv sha ns (s, c, r, None)" by simp
  from decides(1) show ?case
  proof (cases rule: decide_cases)
    case refused
    then show ?thesis using inv by auto
  next
    case (passed device)
    have "payload_ok sha s c" using inv by (simp add: map_inv_def files_ok_def)
    from decided_pinned [OF this passed(4)] show ?thesis
      using inv passed by (auto simp: map_inv_def hand_ok fresh_or_started_def decided_for_def)
  qed
next
  case (by_itself locks recovery now answer device s err s' request c r)
  then have "map_inv sha ns (s, c, r, Some device)" by simp
  then have inv: "map_inv sha ns (s, c, r, None)" by (simp add: map_inv_def)
  from by_itself(1) show ?case
  proof (cases rule: hand_cases)
    case refused
    then show ?thesis using inv by simp
  next
    case (passed device q st e)
    then have "map_inv sha ns (s', c, in_flight err request r, None)"
      using inv by (intro inv_quiet [OF inv]) (auto simp: hand_ok same_owner_def map_inv_def)
    then show ?thesis by (simp add: asked_def map_inv_def split: option.split)
  qed
next
  case (reports a in_time e s c s' audit c' h request d)
  then have inv: "map_inv sha ns (s, c, Some request, d)" by simp
  then have "map_inv sha ns (s', c', r', d)" for r'
    using observed_upload [OF _ reports(1)] by (intro inv_quiet [OF inv]) (auto simp: map_inv_def)
  then show ?case by (simp add: map_inv_def decided_for_def split: option.split)
next
  case (opens a in_time request s c err s' c' h r d)
  then have inv: "map_inv sha ns (s, c, r, d)" by simp
  then have ok: "files_ok sha s c" by (simp add: map_inv_def)
  show ?case using open_effect [OF opens(1)] stream_ok [OF ok] inv
    by (auto intro!: inv_quiet [OF inv] simp: same_owner_def)
next
  case (reads in_time failing capacity s c err data s' c' h r d)
  then have inv: "map_inv sha ns (s, c, r, d)" by simp
  then have ok: "files_ok sha s c" by (simp add: map_inv_def)
  show ?case using read_effect [OF reads(1)] stream_ok [OF ok] inv
    by (auto intro!: inv_quiet [OF inv] simp: same_owner_def)
next
  case (rewinds in_time s err s' c r d)
  then have inv: "map_inv sha ns (s, c, r, d)" by simp
  then have ok: "files_ok sha s c" by (simp add: map_inv_def)
  show ?case using rewinds(1) stream_ok [OF ok] inv
    by (auto intro!: inv_quiet [OF inv] simp: same_owner_def map_source_rewind_def map_lock_def split: if_splits)
next
  case (closes s c r d in_time)
  then have inv: "map_inv sha ns (s, c, r, d)" by simp
  then have ok: "files_ok sha s c" by (simp add: map_inv_def)
  show ?case using stream_ok [OF ok] inv
    by (auto intro!: inv_quiet [OF inv] simp: same_owner_def map_source_close_def map_lock_def split: if_splits)
qed (simp_all add: inv_restart)

abbreviation map_starts :: "(u8 list \<Rightarrow> u8 list) \<Rightarrow> u8 list \<Rightarrow> upload_card \<Rightarrow> map_note list \<Rightarrow> map_world \<Rightarrow> bool" where
  "map_starts sha pin c \<equiv> map_run sha pin (map_service_zero, c, None, None)"

lemma map_inv_run:
  assumes "map_starts sha pin c ns w"
  shows "map_inv sha ns w"
proof -
  have "map_inv sha ns w" if "map_run sha pin v ns w" "v = (map_service_zero, c, None, None)" for v
    using that
  proof (induction rule: map_run.induct)
    case (refl w)
    then show ?case using inv_restart [of sha "[]" c None] by (simp add: map_inv_def)
  qed (simp add: map_inv_step)
  then show ?thesis using assms by blast
qed

section \<open>What reaches the device\<close>

lemma request_fields:
  assumes "upload_request_of now device s = Some q"
  shows "c_str (mu_path q) = c_str (ms_destination s) \<and> mu_size q = ms_expected_size s \<and> mu_source_sha256 q = ms_sha256 s
    \<and> c_str (mu_name q) = c_str (ms_name s)
    \<and> c_str (mu_expected_part_number q) = c_str (di_part_number device) \<and> c_str (di_part_number device) \<noteq> []
    \<and> c_str (mu_expected_serial q) = c_str (di_serial device) \<and> c_str (di_serial device) \<noteq> []"
  using assms by (auto simp: upload_request_of_def dest!: copy_contents split: option.splits)

text \<open>What a request that was taken says of the payload on the card.\<close>

definition genuine :: "(u8 list \<Rightarrow> u8 list) \<Rightarrow> upload_card \<Rightarrow> map_upload_request \<Rightarrow> bool" where
  "genuine sha c q \<longleftrightarrow> (\<exists>payload. c MAP_STAGE = Some payload \<and> sha payload = mu_source_sha256 q
     \<and> (mu_size q = 0 \<or> length payload = unat (mu_size q)
          \<and> fst (validate_upload_target (Span (c_str (mu_path q))) (mu_size q) (Some UPLOAD_MAP)) = AP_OK))"

lemma staged_genuine:
  assumes "payload_ok sha s c" "ms_staged s" "upload_request_of now device s = Some q"
  shows "genuine sha c q"
proof -
  obtain payload where p: "c MAP_STAGE = Some payload" "sha payload = ms_sha256 s"
    "ms_expected_size s = 0 \<or> length payload = unat (ms_expected_size s) \<and> good_text 256 (ms_destination s)
       \<and> validate_upload_target (Span (ms_destination s)) (ms_expected_size s) (Some UPLOAD_MAP) = (AP_OK, Some (ms_kind s))"
    using assms(1,2) by (auto simp: payload_ok_def)
  have f: "mu_size q = ms_expected_size s" "mu_source_sha256 q = ms_sha256 s" "c_str (mu_path q) = c_str (ms_destination s)"
    using request_fields [OF assms(3)] by simp_all
  show ?thesis
  proof (cases "ms_expected_size s = 0")
    case True
    then show ?thesis using p(1,2) f by (simp add: genuine_def)
  next
    case False
    then have "c_str (ms_destination s) = ms_destination s" using p(3) by (simp add: good_text_def c_str_id)
    then show ?thesis using False p f by (simp add: genuine_def)
  qed
qed

text \<open>
  C34. No upload is asked for that the owner did not prepare: whatever was staged, replaced,
  aborted, interrupted or restarted before, a request that the transport takes was made while the
  last decision of the owner was to allow writes; the card holds a payload with the digest of the
  request, and unless the request is for zero bytes (left by an abort after the commit, which the
  transport refuses), it has its length and goes to an allowed destination; the device is the acceptance
  device, if there is one. A request that the service makes by itself follows a decision to apply,
  with no restart and no other automatic request since; the decision was the first since the attach
  before it, and the request goes to the device that the payload was pinned to at that decision. The
  payload may have been replaced between the decision and the request.
\<close>

theorem upload_request_genuine:
  assumes run: "map_starts sha pin c0 ns (s, c, r, d)" and step: "map_step sha pin (s, c, r, d) ms w"
    and asked: "UPLOAD_ASKED q automatic \<in> set ms"
  shows "upload_consented (rev ns) \<and> genuine sha c q
    \<and> c_str (mu_expected_part_number q) \<noteq> [] \<and> c_str (mu_expected_serial q) \<noteq> []
    \<and> (pin = [] \<or> c_str (mu_expected_part_number q) = pin)
    \<and> (automatic \<longrightarrow> (\<exists>earlier later.
         ns = earlier @ APPLY_DECIDED (c_str (mu_expected_part_number q)) (c_str (mu_expected_serial q)) # later
         \<and> \<not> upload_attempted (rev earlier)
         \<and> RESTARTED \<notin> set later \<and> (\<forall>q'. UPLOAD_ASKED q' True \<notin> set later)))"
proof -
  have inv: "payload_ok sha s c" "ms_consent_enabled s = upload_consented (rev ns)"
    "\<forall>device. d = Some device \<longrightarrow> decided_for (rev ns) device"
    using map_inv_run [OF run] by (auto simp: map_inv_def files_ok_def)
  from step show ?thesis
  proof cases
    case (by_hand locks recovery now answer identity err s' request)
    then have q: "request = Some q" "automatic = False" using asked by (auto simp: asked_def split: option.splits if_splits)
    from by_hand(3) show ?thesis
    proof (cases rule: hand_cases)
      case refused
      then show ?thesis using q by simp
    next
      case (passed device q' st e)
      then have u: "upload_request_of now device s = Some q" using q by simp
      show ?thesis using passed q(2) inv(2) staged_genuine [OF inv(1) passed(8) u] request_fields [OF u] by auto
    qed
  next
    case (by_itself locks recovery now answer device err s' request)
    then have q: "request = Some q" "automatic = True" using asked by (auto simp: asked_def split: option.splits if_splits)
    have "decided_for (rev ns) device" using inv(3) by_itself by simp
    then obtain before where dec: "decision_pending (rev ns) =
        Some (c_str (di_part_number device), c_str (di_serial device), before)" "\<not> upload_attempted before"
      by (auto simp: decided_for_def)
    obtain between where b: "rev ns = between @ APPLY_DECIDED (c_str (di_part_number device)) (c_str (di_serial device)) # before"
      "RESTARTED \<notin> set between" "\<forall>q. UPLOAD_ASKED q True \<notin> set between"
      using decision_pending_split [OF dec(1)] by blast
    have ns: "ns = rev before @ APPLY_DECIDED (c_str (di_part_number device)) (c_str (di_serial device)) # rev between"
      using arg_cong [OF b(1), of rev] by simp
    from by_itself(4) show ?thesis
    proof (cases rule: hand_cases)
      case refused
      then show ?thesis using q by simp
    next
      case (passed device' q' st e)
      then have u: "upload_request_of now device s = Some q" using q by simp
      have "\<exists>earlier later. ns = earlier @ APPLY_DECIDED (c_str (mu_expected_part_number q)) (c_str (mu_expected_serial q)) # later
          \<and> \<not> upload_attempted (rev earlier) \<and> RESTARTED \<notin> set later \<and> (\<forall>q'. UPLOAD_ASKED q' True \<notin> set later)"
        using ns b(2,3) dec(2) request_fields [OF u]
        by (intro exI [of _ "rev before"] exI [of _ "rev between"]) simp
      then show ?thesis using passed inv(2) staged_genuine [OF inv(1) passed(8) u] request_fields [OF u] by auto
    qed
  qed (use asked in \<open>auto split: option.splits if_splits\<close>)
qed

text \<open>A run: a map is staged without a pinned device, the owner consents and applies it by hand.\<close>

definition apply_name :: "u8 list" where "apply_name = ascii ''a.ptm''"
definition apply_path :: "u8 list" where "apply_path = ascii ''maps/a.ptm''"

definition apply_started :: map_service where
  "apply_started = map_service_zero\<lparr>ms_mutex := True, ms_started := True\<rparr>"

definition apply_staging :: map_service where
  "apply_staging = apply_started\<lparr>ms_name := apply_name, ms_destination := apply_path, ms_stage_hash := [],
     ms_stage_stream := True, ms_stage_hash_active := True, ms_staging := True, ms_expected_size := 1\<rparr>"

definition apply_written :: map_service where
  "apply_written = apply_staging\<lparr>ms_stage_hash := [7], ms_written_size := 1\<rparr>"

definition apply_committed :: map_service where
  "apply_committed = (hashed_service demo_sha apply_written)\<lparr>ms_staged := True\<rparr>"

definition apply_device :: device_info where
  "apply_device = \<lparr>di_firmware = [], di_part_number = [65], di_serial = [83], di_install_status = [],
     di_vehicle = [], di_trailing_field = []\<rparr>"

definition apply_request :: map_upload_request where
  "apply_request = \<lparr>mu_name = apply_name @ replicate (128 - length apply_name) 0,
     mu_path = apply_path @ replicate (256 - length apply_path) 0,
     mu_expected_part_number = 65 # replicate 39 0, mu_expected_serial = 83 # replicate 63 0,
     mu_modification_time = 0, mu_size = 1, mu_source_sha256 = demo_sha [7]\<rparr>"

lemma apply_text:
  "good_text 128 apply_name" "good_text 256 apply_path" "good_text 40 [65]" "good_text 64 [83]"
  by (simp_all add: good_text_def apply_name_def apply_path_def ascii_def of_char_def)

lemma good_copy_text: "good_text capacity x \<Longrightarrow> copy_text capacity x = Some x"
  using good_c_str good_copy by (fastforce simp: copy_text_def)

lemma apply_target:
  "stage_target (Some apply_name) (Some apply_path) 1
    = Some (apply_name, apply_path, UPLOAD_MAP)"
proof -
  have "validate_upload_target (Span apply_path) 1 (Some UPLOAD_MAP) = (AP_OK, Some UPLOAD_MAP)"
    by (simp add: validate_upload_target_def Let_def maps_prefix_def startup_path_def map_extension_def
        apply_name_def apply_path_def ascii_def of_char_def ascii_equal_case_insensitive_def to_lower_def)
  moreover have "behind_last_slash apply_path = Some apply_name"
    by (simp add: behind_last_slash_def apply_name_def apply_path_def ascii_def of_char_def)
  ultimately show ?thesis
    using apply_text(1,2) by (simp add: stage_target_def Let_def good_text_def c_str_id)
qed

lemma apply_go:
  assumes "\<exists>operation h. run_state (staging demo_sha good_answers True operation s) (c, []) = ((ESP_OK, s'), c', h)"
    and r: "map_starts demo_sha [] (\<lambda>_. None) [] (s, c, None, None)"
  shows "map_starts demo_sha [] (\<lambda>_. None) [] (s', c', None, None)"
proof -
  obtain operation h where "run_state (staging demo_sha good_answers True operation s) (c, []) = ((ESP_OK, s'), c', h)"
    using assms(1) by (elim exE)
  from map_run.step [OF r map_step.stages [OF this]] show ?thesis by simp
qed

lemma apply_written_run:
  "\<exists>c. map_starts demo_sha [] (\<lambda>_. None) [] (apply_written, c, None, None) \<and> c MAP_TEMP = Some [7]"
proof -
  let ?go = "\<lambda>s c s' c'. \<exists>operation h. run_state (staging demo_sha good_answers True operation s) (c, []) = ((ESP_OK, s'), c', h)"
  obtain err s1 c1 h1 where "run_state (map_upload_start demo_sha good_answers True True map_service_zero) (\<lambda>_. None, [])
      = ((err, s1), c1, h1)" by (metis surj_pair)
  from this start_outcome [OF this] have 1: "?go map_service_zero (\<lambda>_. None) apply_started c1"
    by (intro exI [of _ "DO_START True True"] exI [of _ h1]) (simp add: staging_def restorable_def apply_started_def)
  define c2 where "c2 = (c1(MAP_TEMP := None))(MAP_TEMP := Some [] :: u8 list option)"
  have copies: "copy_text 128 apply_name = Some apply_name"
    "copy_text 256 apply_path = Some apply_path"
    using apply_text(1,2) good_copy_text by blast+
  have 2: "?go apply_started c1 apply_staging c2"
    by (intro exI [of _ "DO_BEGIN (Some apply_name) (Some apply_path) 1"] exI)
      (simp add: staging_def stage_begin_def apply_target card_run copies Let_def good_answers_def map_lock_def
        apply_started_def apply_staging_def map_service_zero_def c2_def)
  define c3 where "c3 = c2(MAP_TEMP := Some [7])"
  have 3: "?go apply_staging c2 apply_written c3"
    by (intro exI [of _ "DO_WRITE (Some [7])"] exI)
      (simp add: staging_def stage_write_def card_run good_answers_def map_lock_def apply_written_def
        apply_started_def apply_staging_def map_service_zero_def c2_def c3_def)
  show ?thesis
    using apply_go [OF 3 apply_go [OF 2 apply_go [OF 1 map_run.refl]]] by (auto simp: c3_def)
qed

lemma apply_run:
  "\<exists>c. map_starts demo_sha [] (\<lambda>_. None) [OWNER_CONSENT True] (apply_committed\<lparr>ms_consent_enabled := True\<rparr>, c, None, None)"
proof -
  obtain c3 where c3: "map_starts demo_sha [] (\<lambda>_. None) [] (apply_written, c3, None, None)" "c3 MAP_TEMP = Some [7]"
    using apply_written_run by blast
  have "\<exists>c4 h. run_state (stage_commit demo_sha good_answers True apply_written) (c3, []) = ((ESP_OK, apply_committed), c4, h)"
  proof -
    have ok: "committable good_answers apply_written" "map_lock apply_written True"
      by (simp_all add: committable_def map_lock_def apply_written_def apply_staging_def apply_started_def good_answers_def)
    show ?thesis
      unfolding commit_phases [OF ok] commit_tail_def apply_committed_def
      by (simp add: card_run Let_def good_answers_def c3(2) apply_written_def apply_staging_def
          apply_started_def map_service_zero_def)
  qed
  then obtain c4 h where "run_state (staging demo_sha good_answers True DO_COMMIT apply_written) (c3, []) = ((ESP_OK, apply_committed), c4, h)"
    by (auto simp: staging_def)
  then have 4: "\<exists>operation h. run_state (staging demo_sha good_answers True operation apply_written) (c3, [])
      = ((ESP_OK, apply_committed), c4, h)" by blast
  from apply_go [OF 4 c3(1)] have "map_starts demo_sha [] (\<lambda>_. None) [] (apply_committed, c4, None, None)" .
  moreover have "map_step demo_sha [] (apply_committed, c4, None, None) [OWNER_CONSENT True] (apply_committed\<lparr>ms_consent_enabled := True\<rparr>, c4, None, None)"
    using map_step.consents [of True True apply_committed ESP_OK] 
    by (simp add: map_upload_set_consent_def map_lock_def apply_committed_def hashed_service_def apply_written_def
        apply_staging_def apply_started_def map_service_zero_def)
  ultimately show ?thesis using map_run.step by fastforce
qed

theorem upload_request_genuine_witness:
  "\<exists>c. genuine demo_sha c apply_request"
proof -
  let ?s = "apply_committed\<lparr>ms_consent_enabled := True\<rparr>"
  obtain c where run: "map_starts demo_sha [] (\<lambda>_. None) [OWNER_CONSENT True] (?s, c, None, None)" using apply_run by blast
  have "upload_request_of 0 apply_device ?s = Some apply_request"
    using apply_text [THEN good_copy]
    by (simp add: upload_request_of_def apply_device_def apply_request_def apply_committed_def hashed_service_def
        apply_written_def apply_staging_def)
  then have "map_upload_request_by_hand [] (True, True) False 0 ESP_OK (Some apply_device) ?s
    = (ESP_OK, ?s\<lparr>ms_state := UPLOAD_RUNNING, ms_platform_error := ESP_OK\<rparr>, Some apply_request)"
    by (simp add: map_upload_request_by_hand_def map_lock_def apply_device_def c_str_def apply_committed_def hashed_service_def
        apply_written_def apply_staging_def apply_started_def map_service_zero_def)
  from upload_request_genuine [OF run map_step.by_hand [OF this], of apply_request False]
  show ?thesis by (auto simp: asked_def)
qed

text \<open>
  C35. What is staged stays within what was announced: at any moment of any run, while a payload is
  being staged, the temporary file holds exactly the bytes that were hashed, their number is the
  counter of the writer, which has never wrapped around, and it is at most the announced size, which
  is at most what a chunk of the protocol carries.
\<close>

theorem staging_bounded:
  assumes run: "map_starts sha pin c0 ns (s, c, r)" and staging: "ms_staging s"
  shows "c MAP_TEMP = Some (ms_stage_hash s) \<and> length (ms_stage_hash s) = unat (ms_written_size s)
    \<and> unat (ms_written_size s) \<le> unat (ms_expected_size s) \<and> unat (ms_expected_size s) \<le> 16777211"
proof -
  have w: "c MAP_TEMP = Some (ms_stage_hash s)" "length (ms_stage_hash s) = unat (ms_written_size s)"
    "ms_written_size s \<le> ms_expected_size s"
    "validate_upload_target (Span (ms_destination s)) (ms_expected_size s) (Some UPLOAD_MAP) = (AP_OK, Some (ms_kind s))"
    using map_inv_run [OF run] staging by (auto simp: map_inv_def files_ok_def writer_ok_def)
  have "ms_expected_size s \<le> 16777211"
    using w(4) by (auto simp: validate_upload_target_def Let_def not_less split: if_splits)
  then show ?thesis using w(1-3) by (simp add: word_le_nat_alt)
qed

theorem staging_bounded_witness: "\<exists>c. c MAP_TEMP = Some [7 :: u8] \<and> length (ms_stage_hash apply_written) = 1"
proof -
  obtain c where run: "map_starts demo_sha [] (\<lambda>_. None) [] (apply_written, c, None, None)" using apply_written_run by blast
  have "ms_staging apply_written" "ms_stage_hash apply_written = [7]" by (simp_all add: apply_written_def apply_staging_def)
  with staging_bounded [OF run] show ?thesis by auto
qed

end
