(* ===== verification/Oled_Render.thy ===== *)
theory Oled_Render
  imports Text_Codec "HOL-Library.Signed_Division"
begin

unbundle bit_operations_syntax

text \<open>
  The renderer of the display (components/revlink_oled_render/revlink_oled_render.c): the font, the
  drawing into the frame buffer of 128 by 64 pixels, one byte for eight pixels of a column, and the
  splash. A C \<open>int\<close> is an integer: the coordinates that occur stay far from its limits. The functions
  are given for a frame buffer; on a null pointer each of them does nothing. The theorems give the
  picture that is drawn, pixel by pixel.
\<close>

section \<open>The font\<close>

type_synonym frame = "u8 list"

definition oled_font :: "(u8 \<times> u8 list) list" where
  "oled_font = [
    (32, [0x00, 0x00, 0x00, 0x00, 0x00]), (45, [0x08, 0x08, 0x08, 0x08, 0x08]),
    (46, [0x00, 0x60, 0x60, 0x00, 0x00]), (48, [0x3e, 0x51, 0x49, 0x45, 0x3e]),
    (49, [0x00, 0x42, 0x7f, 0x40, 0x00]), (50, [0x42, 0x61, 0x51, 0x49, 0x46]),
    (51, [0x21, 0x41, 0x45, 0x4b, 0x31]), (52, [0x18, 0x14, 0x12, 0x7f, 0x10]),
    (53, [0x27, 0x45, 0x45, 0x45, 0x39]), (54, [0x3c, 0x4a, 0x49, 0x49, 0x30]),
    (55, [0x01, 0x71, 0x09, 0x05, 0x03]), (56, [0x36, 0x49, 0x49, 0x49, 0x36]),
    (57, [0x06, 0x49, 0x49, 0x29, 0x1e]), (65, [0x7e, 0x11, 0x11, 0x11, 0x7e]),
    (66, [0x7f, 0x49, 0x49, 0x49, 0x36]), (67, [0x3e, 0x41, 0x41, 0x41, 0x22]),
    (68, [0x7f, 0x41, 0x41, 0x22, 0x1c]), (69, [0x7f, 0x49, 0x49, 0x49, 0x41]),
    (70, [0x7f, 0x09, 0x09, 0x09, 0x01]), (71, [0x3e, 0x41, 0x49, 0x49, 0x7a]),
    (72, [0x7f, 0x08, 0x08, 0x08, 0x7f]), (73, [0x00, 0x41, 0x7f, 0x41, 0x00]),
    (74, [0x20, 0x40, 0x41, 0x3f, 0x01]), (75, [0x7f, 0x08, 0x14, 0x22, 0x41]),
    (76, [0x7f, 0x40, 0x40, 0x40, 0x40]), (77, [0x7f, 0x02, 0x0c, 0x02, 0x7f]),
    (78, [0x7f, 0x04, 0x08, 0x10, 0x7f]), (79, [0x3e, 0x41, 0x41, 0x41, 0x3e]),
    (80, [0x7f, 0x09, 0x09, 0x09, 0x06]), (81, [0x3e, 0x41, 0x51, 0x21, 0x5e]),
    (82, [0x7f, 0x09, 0x19, 0x29, 0x46]), (83, [0x46, 0x49, 0x49, 0x49, 0x31]),
    (84, [0x01, 0x01, 0x7f, 0x01, 0x01]), (85, [0x3f, 0x40, 0x40, 0x40, 0x3f]),
    (86, [0x1f, 0x20, 0x40, 0x20, 0x1f]), (87, [0x3f, 0x40, 0x38, 0x40, 0x3f]),
    (88, [0x63, 0x14, 0x08, 0x14, 0x63]), (89, [0x07, 0x08, 0x70, 0x08, 0x07]),
    (90, [0x61, 0x51, 0x49, 0x45, 0x43]), (97, [0x20, 0x54, 0x54, 0x54, 0x78]),
    (98, [0x7f, 0x48, 0x44, 0x44, 0x38]), (99, [0x38, 0x44, 0x44, 0x44, 0x20]),
    (100, [0x38, 0x44, 0x44, 0x48, 0x7f]), (101, [0x38, 0x54, 0x54, 0x54, 0x18]),
    (102, [0x08, 0x7e, 0x09, 0x01, 0x02]), (103, [0x0c, 0x52, 0x52, 0x52, 0x3e]),
    (104, [0x7f, 0x08, 0x04, 0x04, 0x78]), (105, [0x00, 0x44, 0x7d, 0x40, 0x00]),
    (106, [0x20, 0x40, 0x44, 0x3d, 0x00]), (107, [0x7f, 0x10, 0x28, 0x44, 0x00]),
    (108, [0x00, 0x41, 0x7f, 0x40, 0x00]), (109, [0x7c, 0x04, 0x18, 0x04, 0x78]),
    (110, [0x7c, 0x08, 0x04, 0x04, 0x78]), (111, [0x38, 0x44, 0x44, 0x44, 0x38]),
    (112, [0x7c, 0x14, 0x14, 0x14, 0x08]), (113, [0x08, 0x14, 0x14, 0x18, 0x7c]),
    (114, [0x7c, 0x08, 0x04, 0x04, 0x08]), (115, [0x48, 0x54, 0x54, 0x54, 0x20]),
    (116, [0x04, 0x3f, 0x44, 0x40, 0x20]), (117, [0x3c, 0x40, 0x40, 0x20, 0x7c]),
    (118, [0x1c, 0x20, 0x40, 0x20, 0x1c]), (119, [0x3c, 0x40, 0x30, 0x40, 0x3c]),
    (120, [0x44, 0x28, 0x10, 0x28, 0x44]), (121, [0x0c, 0x50, 0x50, 0x50, 0x3c]),
    (122, [0x44, 0x64, 0x54, 0x4c, 0x44])
   ]"

definition glyph_columns :: "u8 \<Rightarrow> u8 list" where
  "glyph_columns character =
     (case find (\<lambda>g. fst g = character) oled_font of Some g \<Rightarrow> snd g | None \<Rightarrow> snd (hd oled_font))"

definition oled_glyph_known :: "u8 \<Rightarrow> bool" where
  "oled_glyph_known character = list_ex (\<lambda>g. fst g = character) oled_font"

section \<open>Drawing\<close>

definition set_pixel :: "int \<Rightarrow> int \<Rightarrow> bool \<Rightarrow> frame \<Rightarrow> frame" where
  "set_pixel x y enabled fb =
     (if x < 0 \<or> x \<ge> 128 \<or> y < 0 \<or> y \<ge> 64 then fb
      else
        let offset = nat x + nat (y div 8) * 128; mask = push_bit (nat (y mod 8)) (1 :: u8)
        in fb[offset := (if enabled then fb ! offset OR mask else fb ! offset AND NOT mask)])"

definition fill_rect :: "int \<Rightarrow> int \<Rightarrow> int \<Rightarrow> int \<Rightarrow> bool \<Rightarrow> frame \<Rightarrow> frame" where
  "fill_rect x y width height enabled fb =
     fold (\<lambda>row. fold (\<lambda>column. set_pixel column row enabled) [x..x + width - 1]) [y..y + height - 1] fb"

definition draw_rect :: "int \<Rightarrow> int \<Rightarrow> int \<Rightarrow> int \<Rightarrow> frame \<Rightarrow> frame" where
  "draw_rect x y width height fb =
     fill_rect (x + width - 1) y 1 height True
       (fill_rect x y 1 height True
         (fill_rect x (y + height - 1) width 1 True
           (fill_rect x y width 1 True fb)))"

abbreviation (input) GLYPH_ADVANCE :: int where "GLYPH_ADVANCE \<equiv> 6"

definition text_width :: "u8 list option \<Rightarrow> int \<Rightarrow> int" where
  "text_width text scale =
     (case text of None \<Rightarrow> 0 | Some memory \<Rightarrow> int (length (c_str memory)) * GLYPH_ADVANCE * scale - scale)"

definition draw_glyph :: "int \<Rightarrow> int \<Rightarrow> u8 list \<Rightarrow> int \<Rightarrow> frame \<Rightarrow> frame" where
  "draw_glyph x y columns scale fb =
     fold (\<lambda>column. fold (\<lambda>row fb.
         if (columns ! column) AND push_bit row 1 \<noteq> 0
         then fill_rect (x + int column * scale) (y + int row * scale) scale scale True fb else fb) [0..<7])
       [0..<5] fb"

fun draw_glyphs :: "int \<Rightarrow> int \<Rightarrow> u8 list \<Rightarrow> int \<Rightarrow> frame \<Rightarrow> frame" where
  "draw_glyphs x y [] scale fb = fb"
| "draw_glyphs x y (character # text) scale fb =
     draw_glyphs (x + GLYPH_ADVANCE * scale) y text scale (draw_glyph x y (glyph_columns character) scale fb)"

definition draw_text :: "int \<Rightarrow> int \<Rightarrow> u8 list option \<Rightarrow> int \<Rightarrow> frame \<Rightarrow> frame" where
  "draw_text x y text scale fb =
     (case text of None \<Rightarrow> fb
      | Some memory \<Rightarrow> if scale < 1 then fb else draw_glyphs x y (c_str memory) scale fb)"

definition draw_centered :: "int \<Rightarrow> u8 list option \<Rightarrow> int \<Rightarrow> frame \<Rightarrow> frame" where
  "draw_centered y text scale fb = draw_text ((128 - text_width text scale) sdiv 2) y text scale fb"

section \<open>The splash\<close>

definition draw_portal_mark :: "int \<Rightarrow> int \<Rightarrow> int \<Rightarrow> frame \<Rightarrow> frame" where
  "draw_portal_mark x y phase fb =
     fill_rect (x + 1) (y + 1 + phase smod 15) 15 1 True
       (fill_rect (x + 13) (y + 14) 4 3 True
         (fill_rect (x + 10) (y + 11) 7 3 True
           (fill_rect (x + 8) (y + 6) 3 8 False
             (draw_rect (x + 3) (y + 3) 11 11
               (draw_rect x y 17 17 fb)))))"

text \<open>\<open>output\<close> is the caller's array; the scale is stored only when the array is not empty.\<close>

definition splash_banner :: "u8 list option \<Rightarrow> u8 list option \<Rightarrow> int option \<Rightarrow> u8 list option \<times> int option" where
  "splash_banner version output scale =
     (case output of
        None \<Rightarrow> (None, scale)
      | Some buffer \<Rightarrow>
          if buffer = [] then (output, scale)
          else
            let shown = (case version of None \<Rightarrow> ascii ''UNKNOWN''
                         | Some memory \<Rightarrow> if c_str memory \<noteq> [] then c_str memory else ascii ''UNKNOWN'');
                buffer = fst (snprintf_into buffer (ascii ''V'' @ shown))
            in (Some buffer,
                map_option (\<lambda>_. if text_width (Some buffer) 2 \<le> 128 - 4 then 2 else 1) scale))"

definition draw_splash :: "u32 \<Rightarrow> u8 list option \<Rightarrow> frame \<Rightarrow> frame" where
  "draw_splash elapsed_ms version fb =
     (let fb = replicate 1024 0;
          fb = draw_portal_mark 10 18 (uint (elapsed_ms div 80)) fb;
          fb = draw_text 34 20 (Some (ascii ''REVLINK'')) 2 fb;
          (banner, scale) = splash_banner version (Some (replicate 22 0)) (Some 1);
          fb = draw_centered (if the scale = 2 then 37 else 41) banner (the scale) fb;
          fb = fill_rect 8 55 112 2 False fb;
          fb = draw_rect 8 54 112 4 fb;
          width = uint (elapsed_ms * 108 div 1500)
      in fill_rect 10 55 (if width > 108 then 108 else width) 2 True fb)"

section \<open>The picture\<close>

definition on_panel :: "int \<Rightarrow> int \<Rightarrow> bool" where
  "on_panel x y \<longleftrightarrow> 0 \<le> x \<and> x < 128 \<and> 0 \<le> y \<and> y < 64"

definition pixel :: "frame \<Rightarrow> int \<Rightarrow> int \<Rightarrow> bool" where
  "pixel fb x y = bit (fb ! (nat x + nat (y div 8) * 128)) (nat (y mod 8))"

lemma panel_offset:
  assumes "on_panel x y"
  shows "nat x + nat (y div 8) * 128 < 1024"
proof -
  have "nat x \<le> 127" "nat (y div 8) \<le> 7" using assms by (auto simp: on_panel_def)
  then show ?thesis by linarith
qed

lemma panel_same:
  assumes "on_panel x y" "on_panel x' y'"
  shows "nat x + nat (y div 8) * 128 = nat x' + nat (y' div 8) * 128 \<and> nat (y mod 8) = nat (y' mod 8) \<longleftrightarrow> x = x' \<and> y = y'"
proof
  assume e: "nat x + nat (y div 8) * 128 = nat x' + nat (y' div 8) * 128 \<and> nat (y mod 8) = nat (y' mod 8)"
  have "int (nat x + nat (y div 8) * 128) = x + y div 8 * 128" "int (nat x' + nat (y' div 8) * 128) = x' + y' div 8 * 128"
    using assms by (simp_all add: on_panel_def)
  with e have o: "x + y div 8 * 128 = x' + y' div 8 * 128" by simp
  have m: "y mod 8 = y' mod 8" using e by (simp add: nat_eq_iff)
  define k k' where "k = y div 8" and "k' = y' div 8"
  have "x + k * 128 = x' + k' * 128" "0 \<le> x" "x < 128" "0 \<le> x'" "x' < 128"
    using o assms by (simp_all add: on_panel_def k_def k'_def)
  moreover from this have "k = k'" by (cases k k' rule: linorder_cases) linarith+
  ultimately have "x = x' \<and> k = k'" by simp
  then show "x = x' \<and> y = y'" using m by (metis k_def k'_def div_mult_mod_eq)
qed simp

lemma length_set_pixel [simp]: "length (set_pixel x y e fb) = length fb"
  by (simp add: set_pixel_def Let_def)

lemma pixel_set_pixel:
  assumes "length fb = 1024" "on_panel x' y'"
  shows "pixel (set_pixel x y e fb) x' y' = (if x = x' \<and> y = y' then e else pixel fb x' y')"
proof (cases "on_panel x y")
  case False
  then show ?thesis using assms(2) by (auto simp: set_pixel_def on_panel_def)
next
  case True
  let ?o = "nat x + nat (y div 8) * 128" and ?o' = "nat x' + nat (y' div 8) * 128"
  have b: "nat (y mod 8) < 8" by (simp add: nat_less_iff)
  show ?thesis
  proof (cases "?o = ?o'")
    case same: True
    have m: "bit (2 ^ k :: u8) n \<longleftrightarrow> n = k" if "k < 8" for k n
      using that by (auto simp: bit_exp_iff)
    have b': "nat (y' mod 8) < 8" by (simp add: nat_less_iff)
    have "pixel (set_pixel x y e fb) x' y' = (if nat (y mod 8) = nat (y' mod 8) then e else pixel fb x' y')"
      using True assms panel_offset [OF assms(2)] same b'
      by (auto simp: pixel_def set_pixel_def Let_def on_panel_def bit_or_iff bit_and_iff bit_not_iff m [OF b] m [OF b'])
    then show ?thesis using panel_same [OF True assms(2)] same by auto
  next
    case False
    then show ?thesis using True panel_same [OF True assms(2)]
      by (auto simp: pixel_def set_pixel_def Let_def on_panel_def)
  qed
qed

text \<open>A list of pixels, drawn in any order.\<close>

lemma pixel_fold:
  assumes "length fb = 1024" "on_panel x' y'"
  shows "length (fold (\<lambda>p. set_pixel (fst p) (snd p) e) ps fb) = 1024
    \<and> pixel (fold (\<lambda>p. set_pixel (fst p) (snd p) e) ps fb) x' y' = (if (x', y') \<in> set ps then e else pixel fb x' y')"
  using assms(1)
proof (induction ps arbitrary: fb)
  case (Cons p ps)
  show ?case using Cons.IH [of "set_pixel (fst p) (snd p) e fb"] Cons.prems pixel_set_pixel [OF Cons.prems assms(2), of "fst p" "snd p" e]
    by (cases p) auto
qed simp

lemma fold_concat: "fold f (concat xss) a = fold (fold f) xss a"
  by (induction xss arbitrary: a) simp_all

lemma fill_rect_fold:
  "fill_rect x y width height e fb =
    fold (\<lambda>p. set_pixel (fst p) (snd p) e) (concat (map (\<lambda>row. map (\<lambda>column. (column, row)) [x..x + width - 1]) [y..y + height - 1])) fb"
  by (simp add: fill_rect_def fold_concat fold_map comp_def)

lemma fill_rect_picture:
  assumes "length fb = 1024" "on_panel x' y'"
  shows "length (fill_rect x y width height e fb) = 1024"
    and "pixel (fill_rect x y width height e fb) x' y'
      = (if x \<le> x' \<and> x' < x + width \<and> y \<le> y' \<and> y' < y + height then e else pixel fb x' y')"
proof -
  let ?ps = "concat (map (\<lambda>row. map (\<lambda>column. (column, row)) [x..x + width - 1]) [y..y + height - 1])"
  have s: "(x', y') \<in> set ?ps \<longleftrightarrow> x \<le> x' \<and> x' < x + width \<and> y \<le> y' \<and> y' < y + height"
    by (auto simp: image_iff)
  show "length (fill_rect x y width height e fb) = 1024"
    unfolding fill_rect_fold using pixel_fold [OF assms] by blast
  show "pixel (fill_rect x y width height e fb) x' y'
      = (if x \<le> x' \<and> x' < x + width \<and> y \<le> y' \<and> y' < y + height then e else pixel fb x' y')"
    unfolding fill_rect_fold using pixel_fold [OF assms, of e ?ps] s by presburger
qed

text \<open>A drawing that only turns pixels on: those of a set, clipped to the panel.\<close>

definition paints :: "(frame \<Rightarrow> frame) \<Rightarrow> (int \<times> int) set \<Rightarrow> bool" where
  "paints f ps \<longleftrightarrow> (\<forall>fb. length fb = 1024 \<longrightarrow> length (f fb) = 1024
     \<and> (\<forall>x y. on_panel x y \<longrightarrow> pixel (f fb) x y = (pixel fb x y \<or> (x, y) \<in> ps)))"

lemma paints_id [simp]: "paints (\<lambda>fb. fb) {}"
  by (simp add: paints_def)

lemma paints_comp: "paints f ps \<Longrightarrow> paints g qs \<Longrightarrow> paints (\<lambda>fb. g (f fb)) (ps \<union> qs)"
  by (auto simp: paints_def)

lemma paints_fold:
  "(\<And>a. paints (f a) (ps a)) \<Longrightarrow> paints (fold f xs) (\<Union>a \<in> set xs. ps a)"
proof (induction xs)
  case (Cons a xs)
  have "paints (\<lambda>fb. fold f xs (f a fb)) (ps a \<union> (\<Union>a \<in> set xs. ps a))"
    by (rule paints_comp) (use Cons in auto)
  then show ?case by simp
qed (simp add: paints_def)

lemma paints_rect: "paints (fill_rect x y width height True) ({x..<x + width} \<times> {y..<y + height})"
proof -
  have "length (fill_rect x y width height True fb) = 1024" if "length fb = 1024" for fb
    using fill_rect_picture(1) [OF that, of 0 0] by (simp add: on_panel_def)
  then show ?thesis unfolding paints_def by (auto simp: fill_rect_picture(2))
qed

definition glyph_pixels :: "int \<Rightarrow> int \<Rightarrow> u8 list \<Rightarrow> int \<Rightarrow> (int \<times> int) set" where
  "glyph_pixels x y columns scale =
     (\<Union>column \<in> {0..<5}. \<Union>row \<in> {row \<in> {0..<7}. bit (columns ! column) row}.
        {x + int column * scale..<x + int column * scale + scale} \<times> {y + int row * scale..<y + int row * scale + scale})"

lemma mask_bit: "(b :: u8) AND 2 ^ n \<noteq> 0 \<longleftrightarrow> bit b n"
  using bit_iff_and_push_bit_not_eq_0 [of b n] by simp

lemma union_if: "(\<Union>a \<in> A. if P a then R a else {}) = (\<Union>a \<in> {a \<in> A. P a}. R a)"
  by auto

lemma paints_glyph: "paints (draw_glyph x y columns scale) (glyph_pixels x y columns scale)"
proof -
  let ?rect = "\<lambda>column row. {x + int column * scale..<x + int column * scale + scale} \<times> {y + int row * scale..<y + int row * scale + scale}"
  have "paints (\<lambda>fb. if (columns ! column) AND push_bit row 1 \<noteq> 0
         then fill_rect (x + int column * scale) (y + int row * scale) scale scale True fb else fb)
       (if bit (columns ! column) row then ?rect column row else {})" for column row
    using paints_rect by (simp add: mask_bit)
  then have cell: "paints (\<lambda>fb. if (columns ! column) AND push_bit row 1 \<noteq> 0
         then fill_rect (x + int column * scale) (y + int row * scale) scale scale True fb else fb)
       (if bit (columns ! column) row then ?rect column row else {})" for column row .
  have column: "paints (fold (\<lambda>row fb. if (columns ! column) AND push_bit row 1 \<noteq> 0
         then fill_rect (x + int column * scale) (y + int row * scale) scale scale True fb else fb) [0..<7])
       (\<Union>row \<in> set [0..<7]. if bit (columns ! column) row then ?rect column row else {})" for column
    by (rule paints_fold) (rule cell)
  have "paints (fold (\<lambda>column. fold (\<lambda>row fb. if (columns ! column) AND push_bit row 1 \<noteq> 0
         then fill_rect (x + int column * scale) (y + int row * scale) scale scale True fb else fb) [0..<7]) [0..<5])
       (\<Union>column \<in> set [0..<5]. \<Union>row \<in> set [0..<7]. if bit (columns ! column) row then ?rect column row else {})"
    by (rule paints_fold) (rule column)
  moreover have "draw_glyph x y columns scale = fold (\<lambda>column. fold (\<lambda>row fb. if (columns ! column) AND push_bit row 1 \<noteq> 0
         then fill_rect (x + int column * scale) (y + int row * scale) scale scale True fb else fb) [0..<7]) [0..<5]"
    by (rule ext) (simp only: draw_glyph_def)
  moreover have "(\<Union>column \<in> set [0..<5]. \<Union>row \<in> set [0..<7]. if bit (columns ! column) row then ?rect column row else {})
      = glyph_pixels x y columns scale"
    by (simp only: glyph_pixels_def union_if set_upt)
  ultimately show ?thesis by simp
qed

text \<open>The pixels of a text: the lit cells of each glyph, at the scale, one advance after the other.\<close>

definition text_pixels :: "int \<Rightarrow> int \<Rightarrow> u8 list \<Rightarrow> int \<Rightarrow> (int \<times> int) set" where
  "text_pixels x y text scale =
     (\<Union>i \<in> {0..<length text}. glyph_pixels (x + 6 * scale * int i) y (glyph_columns (text ! i)) scale)"

lemma paints_glyphs: "paints (draw_glyphs x y t scale) (text_pixels x y t scale)"
proof (induction t arbitrary: x)
  case Nil
  then show ?case by (simp add: paints_def text_pixels_def)
next
  case (Cons c t)
  have "paints (\<lambda>fb. draw_glyphs (x + 6 * scale) y t scale (draw_glyph x y (glyph_columns c) scale fb))
      (glyph_pixels x y (glyph_columns c) scale \<union> text_pixels (x + 6 * scale) y t scale)"
    by (rule paints_comp [OF paints_glyph Cons.IH])
  moreover have "text_pixels x y (c # t) scale = glyph_pixels x y (glyph_columns c) scale \<union> text_pixels (x + 6 * scale) y t scale"
    unfolding text_pixels_def length_Cons
    by (simp add: atLeast0_lessThan_Suc_eq_insert_0 algebra_simps del: image_Suc_atLeastLessThan)
  ultimately show ?case by simp
qed

text \<open>
  C39. The renderer draws what the font says and stays inside its buffer: for any text at any place
  and scale the frame keeps its length, and a pixel of the panel is on afterwards exactly when it was
  on before or lies in a lit cell of the glyph of some character, at the place of that character.
\<close>

theorem draw_text_exact:
  assumes "length fb = 1024" "on_panel px py" "scale \<ge> 1"
  shows "length (draw_text x y (Some memory) scale fb) = 1024
    \<and> pixel (draw_text x y (Some memory) scale fb) px py
      = (pixel fb px py
         \<or> (\<exists>i column row. i < length (c_str memory) \<and> column < 5 \<and> row < 7
              \<and> bit (glyph_columns (c_str memory ! i) ! column) row
              \<and> x + 6 * scale * int i + int column * scale \<le> px
              \<and> px < x + 6 * scale * int i + int column * scale + scale
              \<and> y + int row * scale \<le> py \<and> py < y + int row * scale + scale))"
proof -
  have "paints (draw_text x y (Some memory) scale) (text_pixels x y (c_str memory) scale)"
    using paints_glyphs assms(3) by (simp add: draw_text_def [abs_def])
  then have "length (draw_text x y (Some memory) scale fb) = 1024"
    and p: "pixel (draw_text x y (Some memory) scale fb) px py = (pixel fb px py \<or> (px, py) \<in> text_pixels x y (c_str memory) scale)"
    using assms by (simp_all add: paints_def)
  moreover have "(px, py) \<in> text_pixels x y (c_str memory) scale \<longleftrightarrow>
      (\<exists>i column row. i < length (c_str memory) \<and> column < 5 \<and> row < 7
              \<and> bit (glyph_columns (c_str memory ! i) ! column) row
              \<and> x + 6 * scale * int i + int column * scale \<le> px
              \<and> px < x + 6 * scale * int i + int column * scale + scale
              \<and> y + int row * scale \<le> py \<and> py < y + int row * scale + scale)"
    unfolding text_pixels_def glyph_pixels_def by (simp add: Bex_def) blast
  ultimately show ?thesis by simp
qed

theorem draw_text_exact_witness:
  "length (draw_text 0 0 (Some [45]) 1 (replicate 1024 0)) = 1024
   \<and> pixel (draw_text 0 0 (Some [45]) 1 (replicate 1024 0)) 4 3"
proof -
  have "bit (glyph_columns (c_str [45] ! 0) ! 4) 3" by (simp add: c_str_def glyph_columns_def oled_font_def)
  then have "\<exists>i column row. i < length (c_str [45]) \<and> column < 5 \<and> row < 7
      \<and> bit (glyph_columns (c_str [45] ! i) ! column) row
      \<and> (0 :: int) + 6 * 1 * int i + int column * 1 \<le> 4 \<and> 4 < (0 :: int) + 6 * 1 * int i + int column * 1 + 1
      \<and> (0 :: int) + int row * 1 \<le> 3 \<and> 3 < (0 :: int) + int row * 1 + 1"
    by (intro exI [of _ 0] exI [of _ 4] exI [of _ 3]) (simp add: c_str_def)
  moreover have "on_panel 4 3" by (simp add: on_panel_def)
  ultimately show ?thesis
    using draw_text_exact [of "replicate 1024 0" 4 3 1 0 0 "[45]", OF length_replicate _ order_refl] by blast
qed

section \<open>The banner fits\<close>

lemma half: "0 \<le> n \<Longrightarrow> n sdiv 2 = n div (2 :: int)"
  by (cases "n = 0") (simp_all add: signed_divide_int_def)

lemma banner_text:
  assumes "0 \<notin> set shown"
  shows "c_str (fst (snprintf_into (replicate 22 0) (86 # shown))) = take 21 (86 # shown)"
proof -
  have "fst (snprintf_into (replicate 22 0) (86 # shown)) = take 21 (86 # shown) @ 0 # replicate (21 - min (length shown + 1) 21) 0"
    by (simp add: snprintf_into_def blit_0 min_def)
  moreover have "0 \<notin> set (take 21 (86 # shown))" using assms by (auto dest: in_set_takeD)
  ultimately show ?thesis using c_str_terminated [of "take 21 (86 # shown)"] by simp
qed

text \<open>
  The splash shows a version in full width or cuts it, but never draws it off the panel: the
  banner is the letter V and the version (or UNKNOWN), cut after 21 characters; the large font is
  chosen exactly for up to ten of them; and centred it begins and ends on the panel.
\<close>

lemma splash_banner_fits:
  "case splash_banner version (Some (replicate 22 0)) (Some 1) of
     (banner, scale) \<Rightarrow>
       let shown = (case version of None \<Rightarrow> ascii ''UNKNOWN''
                    | Some memory \<Rightarrow> if c_str memory = [] then ascii ''UNKNOWN'' else c_str memory);
           line = take 21 (ascii ''V'' @ shown);
           left = (128 - text_width banner (the scale)) sdiv 2
       in map_option c_str banner = Some line
          \<and> scale = Some (if length line \<le> 10 then 2 else 1)
          \<and> 0 \<le> left \<and> left + text_width banner (the scale) \<le> 128"
proof -
  define shown where "shown = (case version of None \<Rightarrow> ascii ''UNKNOWN''
                    | Some memory \<Rightarrow> if c_str memory = [] then ascii ''UNKNOWN'' else c_str memory)"
  define banner where "banner = fst (snprintf_into (replicate 22 0) (86 # shown))"
  define line where "line = take 21 (86 # shown)"
  have v: "ascii ''V'' = [86]" by (simp add: ascii_def of_char_def)
  have "0 \<notin> set (ascii ''UNKNOWN'')" by (simp add: ascii_def of_char_def)
  then have "0 \<notin> set shown" using c_str_no_nul by (auto simp: shown_def split: option.splits)
  then have c: "c_str banner = line" by (simp add: banner_def line_def banner_text)
  have len: "1 \<le> length line" "length line \<le> 21" by (simp_all add: line_def)
  have w: "text_width (Some banner) s = int (length line) * 6 * s - s" for s
    by (simp add: text_width_def c)
  have s: "(case version of None \<Rightarrow> ascii ''UNKNOWN''
      | Some memory \<Rightarrow> if c_str memory \<noteq> [] then c_str memory else ascii ''UNKNOWN'') = shown"
    by (simp add: shown_def split: option.split)
  have "splash_banner version (Some (replicate 22 0)) (Some 1)
      = (Some banner, Some (if text_width (Some banner) 2 \<le> 128 - 4 then 2 else 1))"
    unfolding splash_banner_def option.case s by (simp add: Let_def v banner_def)
  moreover have "text_width (Some banner) 2 \<le> 128 - 4 \<longleftrightarrow> length line \<le> 10" by (simp add: w) presburger
  ultimately have b: "splash_banner version (Some (replicate 22 0)) (Some 1)
      = (Some banner, Some (if length line \<le> 10 then 2 else 1))" by simp
  have le: "take 21 ([86] @ shown) = line" by (simp add: line_def)
  define t where "t = text_width (Some banner) (if length line \<le> 10 then 2 else 1)"
  have t: "0 \<le> 128 - t" "t \<le> 128" using len by (auto simp: t_def w)
  have "(128 - t) sdiv 2 = (128 - t) div 2" using t(1) by (rule half)
  moreover have "0 \<le> (128 - t) div 2" "(128 - t) div 2 + t \<le> 128" using t by auto
  ultimately show ?thesis
    unfolding b shown_def [symmetric] v prod.case Let_def le option.sel t_def [symmetric] by (simp add: c)
qed

end
