(* ===== verification/Status_Screen.thy ===== *)
theory Status_Screen
  imports Oled_Render Status_Model
begin

text \<open>
  The status display (esp32p4/main/revlink_status_oled.c): the screens, the display state that the
  other tasks set under a lock, the Wi-Fi code for a phone, and the turn of the display task that
  picks a screen, draws it and sends it to the panel when it has changed. The QR generator and the
  answers of the bus are parameters; times are microseconds of the system timer.
\<close>

section \<open>Texts\<close>

definition shown :: "string \<Rightarrow> u8 list option" where
  "shown s = Some (ascii s)"

definition exact_copy :: "u8 list option \<Rightarrow> u8 list option \<Rightarrow> u8 list option" where
  "exact_copy target source =
     (case target of
        None \<Rightarrow> None
      | Some buffer \<Rightarrow>
          if buffer = [] then target
          else
            let copied = (case source of None \<Rightarrow> [] | Some memory \<Rightarrow> take (length buffer - 1) (c_str memory))
            in Some (blit 0 (copied @ [0]) buffer))"

definition network_badge :: "net_state \<Rightarrow> u8 list option \<Rightarrow> u8 list option \<Rightarrow> u8 list option" where
  "network_badge state connected_ssid badge =
     (case badge of
        None \<Rightarrow> None
      | Some buffer \<Rightarrow>
          if buffer = [] then badge
          else
            let badge = Some (buffer[0 := 0]) in
            case state of
              NET_HOTSPOT_STARTING \<Rightarrow> exact_copy badge (shown ''LOCAL'')
            | NET_HOTSPOT_READY \<Rightarrow> exact_copy badge (shown ''LOCAL'')
            | NET_CLIENT_READY \<Rightarrow>
                (case connected_ssid of
                   None \<Rightarrow> exact_copy badge (shown ''WIFI'')
                 | Some ssid \<Rightarrow>
                     if c_str ssid = [] then exact_copy badge (shown ''WIFI'')
                     else if strnlen ssid 33 \<le> 12 then exact_copy badge connected_ssid
                     else map_option (\<lambda>b. blit 9 (ascii ''...'' @ [0]) (blit 0 (take 9 ssid) b)) badge)
            | NET_SEARCHING \<Rightarrow> exact_copy badge (shown ''WIFI'')
            | NET_CONNECTING \<Rightarrow> exact_copy badge (shown ''WIFI'')
            | NET_RECONNECTING \<Rightarrow> exact_copy badge (shown ''WIFI'')
            | _ \<Rightarrow> badge)"

section \<open>The screens\<close>

definition draw_wifi_icon :: "int \<Rightarrow> int \<Rightarrow> frame \<Rightarrow> frame" where
  "draw_wifi_icon x y fb =
     (let fb = set_pixel x (y + 2) True fb;
          fb = set_pixel (x + 1) (y + 1) True fb;
          fb = fill_rect (x + 2) y 3 1 True fb;
          fb = set_pixel (x + 5) (y + 1) True fb;
          fb = set_pixel (x + 6) (y + 2) True fb;
          fb = set_pixel (x + 1) (y + 4) True fb;
          fb = fill_rect (x + 2) (y + 3) 3 1 True fb;
          fb = set_pixel (x + 5) (y + 4) True fb
      in set_pixel (x + 3) (y + 6) True fb)"

definition blank_frame :: frame where
  "blank_frame = replicate 1024 0"

definition status_header :: "u32 \<Rightarrow> u8 list option \<Rightarrow> frame \<Rightarrow> frame" where
  "status_header animation_tick badge fb =
     (let header = (if animation_tick mod 150 \<ge> 150 - 30 then ''SIDECAR'' else ''REVLINK'');
          fb = draw_text 2 3 (shown header) 1 fb;
          fb = (case badge of
                  None \<Rightarrow> fb
                | Some memory \<Rightarrow>
                    if c_str memory = [] then fb
                    else let badge_x = 128 - text_width badge 1 - 11
                         in draw_text (badge_x + 9) 3 badge 1 (draw_wifi_icon badge_x 3 fb))
      in fill_rect 2 12 124 1 True fb)"

text \<open>The scale of the headline and the detail line of a view.\<close>

definition headline_scale :: "status_view \<Rightarrow> int" where
  "headline_scale view = (if text_width (Some (sv_headline view)) 2 \<le> 124 then 2 else 1)"

definition detail_text :: "status_view \<Rightarrow> u8 list" where
  "detail_text view =
     (if sv_kind view = STATUS_WIFI_RECONNECTING
      then fst (snprintf_into (replicate 24 0)
             (ascii ''RETRY '' @ dec_text (unat (sv_countdown_seconds view)) @ ascii '' SEC''))
      else sv_detail view)"

definition draw_status :: "status_view \<Rightarrow> u32 \<Rightarrow> u8 list option \<Rightarrow> frame \<Rightarrow> frame" where
  "draw_status view animation_tick badge fb =
     (let fb = status_header animation_tick badge blank_frame;
          fb = draw_centered 18 (Some (sv_headline view)) (headline_scale view) fb;
          fb = draw_centered (if headline_scale view = 2 then 35 else 30) (Some (detail_text view)) 1 fb
      in if sv_kind view = STATUS_READY
         then draw_centered 57 (shown ''TO SYNC'') 1 (draw_centered 42 (shown ''READY'') 2 fb)
         else if sv_show_progress view
         then
           let fb = draw_rect 8 46 112 8 fb;
               fb = (if sv_progress_indeterminate view
                     then
                       let position = uint (animation_tick mod (94 * 2));
                           x = (if position \<le> 94 then position else 94 * 2 - position)
                       in fill_rect (10 + x) 48 16 4 True fb
                     else fill_rect 10 48 (uint (ucast (sv_progress_percent view) * 108 div (100 :: u32))) 4 True fb)
           in draw_centered 57 (Some (sv_footer view)) 1 fb
         else draw_centered 51 (Some (sv_footer view)) 1 fb)"

definition draw_hotspot :: "u8 list \<Rightarrow> u8 list \<Rightarrow> frame \<Rightarrow> frame" where
  "draw_hotspot ssid password fb =
     (let fb = draw_text 2 2 (shown ''REVLINK'') 1 blank_frame;
          fb = draw_text 76 2 (shown ''SETUP'') 1 fb;
          fb = fill_rect 2 12 124 1 True fb;
          fb = draw_centered 18 (Some ssid) 1 fb;
          fb = draw_centered 31 (shown ''PASSWORD'') 1 fb;
          fb = draw_rect 15 41 98 17 fb
      in draw_centered 46 (Some password) 1 fb)"

definition draw_local_url :: "u8 list \<Rightarrow> frame \<Rightarrow> frame" where
  "draw_local_url hostname fb =
     (let fb = draw_text 2 2 (shown ''REVLINK'') 1 blank_frame;
          fb = draw_text 100 2 (shown ''WIFI'') 1 fb;
          fb = fill_rect 2 12 124 1 True fb;
          fb = draw_centered 17 (shown ''OPEN IN BROWSER'') 1 fb;
          fb = draw_centered 31 (Some hostname) 1 fb;
          fb = draw_centered 43 (shown ''.local'') 1 fb
      in draw_centered 56 (shown ''PRESS TO CLOSE'') 1 fb)"

datatype oled_storage = STORAGE_NORMAL | STORAGE_MISSING | STORAGE_UNREADABLE | STORAGE_ERROR
  | STORAGE_CONFIRM_FORMAT | STORAGE_FORMATTING | STORAGE_FORMAT_COMPLETE | STORAGE_FORMAT_FAILED

text \<open>The lines of a storage screen: row, text, scale.\<close>

definition storage_lines :: "oled_storage \<Rightarrow> u32 \<Rightarrow> (int \<times> u8 list \<times> int) list" where
  "storage_lines state seconds_remaining =
     (case state of
        STORAGE_MISSING \<Rightarrow>
          [(18, ascii ''SD CARD MISSING'', 1), (33, ascii ''INSERT A CARD'', 1), (49, ascii ''THEN RESTART'', 1)]
      | STORAGE_UNREADABLE \<Rightarrow>
          [(17, ascii ''SD UNREADABLE'', 1), (31, ascii ''DOUBLE-PRESS BOOT'', 1), (47, ascii ''TO FORMAT'', 2)]
      | STORAGE_CONFIRM_FORMAT \<Rightarrow>
          [(16, ascii ''ERASE SD CARD?'', 1), (29, ascii ''ALL DATA WILL BE LOST'', 1),
           (42, ascii ''DOUBLE-PRESS BOOT'', 1),
           (55, fst (snprintf_into (replicate 24 0)
              (ascii ''CONFIRM IN '' @ dec_text (unat seconds_remaining) @ ascii '' SEC'')), 1)]
      | STORAGE_FORMATTING \<Rightarrow> [(20, ascii ''FORMATTING SD'', 2), (44, ascii ''DO NOT POWER OFF'', 1)]
      | STORAGE_FORMAT_COMPLETE \<Rightarrow>
          [(18, ascii ''FORMAT COMPLETE'', 1), (34, ascii ''STORAGE READY'', 2), (56, ascii ''RESTARTING'', 1)]
      | STORAGE_FORMAT_FAILED \<Rightarrow>
          [(18, ascii ''FORMAT FAILED'', 2), (43, ascii ''CHECK SD CARD'', 1), (55, ascii ''THEN TRY AGAIN'', 1)]
      | _ \<Rightarrow> [(18, ascii ''STORAGE ERROR'', 2), (43, ascii ''CHECK SD CARD'', 1), (55, ascii ''THEN RESTART'', 1)])"

definition draw_storage_recovery :: "oled_storage \<Rightarrow> u32 \<Rightarrow> frame \<Rightarrow> frame" where
  "draw_storage_recovery state seconds_remaining fb =
     (let fb = draw_text 2 2 (shown ''REVLINK'') 1 blank_frame;
          fb = draw_text 82 2 (shown ''STORAGE'') 1 fb;
          fb = fill_rect 2 12 124 1 True fb
      in fold (\<lambda>(y, line, scale). draw_centered y (Some line) scale) (storage_lines state seconds_remaining) fb)"

section \<open>The Wi-Fi code\<close>

definition qr_bitmap_module :: "u8 list option \<Rightarrow> u8 \<Rightarrow> int \<Rightarrow> int \<Rightarrow> bool" where
  "qr_bitmap_module bitmap qr_size x y =
     (case bitmap of
        None \<Rightarrow> False
      | Some bits \<Rightarrow>
          if x < 0 \<or> y < 0 \<or> x \<ge> uint qr_size \<or> y \<ge> uint qr_size then False
          else let n = nat y * unat qr_size + nat x
               in bits ! (n div 8) AND push_bit (n mod 8) 1 \<noteq> 0)"

definition draw_hotspot_qr :: "u8 list option \<Rightarrow> u8 \<Rightarrow> frame \<Rightarrow> frame" where
  "draw_hotspot_qr bitmap qr_size fb =
     (if bitmap = None \<or> qr_size = 0 then blank_frame
      else
        let scale = (if uint qr_size * 2 + 4 \<le> 64 then 2 else 1);
            quiet_modules = (if scale = 2 then 1 else 4);
            side = (uint qr_size + quiet_modules * 2) * scale;
            origin_x = (128 - side) sdiv 2;
            origin_y = (64 - side) sdiv 2
        in fold (\<lambda>y. fold (\<lambda>x fb.
               if qr_bitmap_module bitmap qr_size x y
               then fill_rect (origin_x + (x + quiet_modules) * scale) (origin_y + (y + quiet_modules) * scale)
                      scale scale False fb
               else fb) [0..uint qr_size - 1]) [0..uint qr_size - 1]
             (fill_rect origin_x origin_y side side True blank_frame))"

text \<open>
  A code of the generator: its size and its modules. The bitmap has room for 33 by 33 modules.
\<close>

type_synonym qr_code = "int \<times> (int \<Rightarrow> int \<Rightarrow> bool)"

definition capture_qr :: "qr_code option \<Rightarrow> u8 \<times> u8 list \<Rightarrow> u8 \<times> u8 list" where
  "capture_qr qrcode render =
     (case qrcode of
        None \<Rightarrow> render
      | Some (dimension, module_at) \<Rightarrow>
          if dimension \<le> 0 \<or> dimension > 33 then render
          else
            (of_int dimension,
             fold (\<lambda>y. fold (\<lambda>x bitmap.
               if \<not> module_at x y then bitmap
               else let n = nat y * nat dimension + nat x
                    in bitmap[n div 8 := bitmap ! (n div 8) OR push_bit (n mod 8) 1])
               [0..dimension - 1]) [0..dimension - 1] (snd render)))"

text \<open>The loop over the source; the result, the array and the length reached.\<close>

fun append_qr_escaped :: "u8 list \<Rightarrow> u8 list \<Rightarrow> nat \<Rightarrow> bool \<times> u8 list \<times> nat" where
  "append_qr_escaped [] target n = (True, target[n := 0], n)"
| "append_qr_escaped (c # source) target n =
     (if c = 92 \<or> c = 59 \<or> c = 44 \<or> c = 58
      then if n + 2 \<ge> length target then (False, target, n)
           else append_qr_escaped source (target[n := 92, n + 1 := c]) (n + 2)
      else if n + 1 \<ge> length target then (False, target, n)
      else append_qr_escaped source (target[n := c]) (n + 1))"

text \<open>The payload that is handed to the generator, or \<open>None\<close> for \<open>ESP_ERR_INVALID_SIZE\<close>.\<close>

definition qr_payload :: "u8 list \<Rightarrow> u8 list \<Rightarrow> u8 list option" where
  "qr_payload ssid password =
     (let payload = blit 0 (ascii ''WIFI:T:WPA;S:'') (replicate 96 0);
          (ok, payload, n) = append_qr_escaped (c_str ssid) payload 13
      in if \<not> (ok \<and> n + 3 < 96) then None
         else
           let payload = (blit n (ascii '';P:'') payload)[n + 3 := 0];
               (ok, payload, n) = append_qr_escaped (c_str password) payload (n + 3)
           in if \<not> (ok \<and> n + 2 < 96) then None
              else Some (blit n (ascii '';;'' @ [0]) payload))"

end
