(* ===== verification/Status_Oled.thy ===== *)
theory Status_Oled
  imports Status_Screen Usb_Host
begin

text \<open>
  The display state and its task (esp32p4/main/revlink_status_oled.c). The other tasks set the state
  in short critical sections; each of their functions is one operation here, except the one that
  publishes a Wi-Fi code, which has two sections with the generator between them. The display task
  takes a snapshot under the same lock, draws it and sends the frame when it has changed. Times are
  microseconds of the system timer; the answers of the SPI bus, the QR generator and the
  application's version are parameters.
\<close>

section \<open>State\<close>

record oled =
  od_ready :: bool
  od_model :: status_model
  od_hotspot_visible :: bool
  od_hotspot_ssid :: "u8 list"
  od_hotspot_password :: "u8 list"
  od_qr_visible :: bool
  od_qr_started_us :: int
  od_qr_size :: u8
  od_qr_bitmap :: "u8 list"
  od_url_visible :: bool
  od_url_started_us :: int
  od_url_hostname :: "u8 list"
  od_connected_ssid :: "u8 list"
  od_storage :: oled_storage
  od_format_seconds :: u32
  od_framebuffer :: frame
  od_previous :: frame
  od_tick :: u32

definition oled_boot :: oled where
  "oled_boot = \<lparr>od_ready = False, od_model = status_model_zero, od_hotspot_visible = False,
     od_hotspot_ssid = replicate 20 0, od_hotspot_password = replicate 16 0, od_qr_visible = False,
     od_qr_started_us = 0, od_qr_size = 0, od_qr_bitmap = replicate 137 0, od_url_visible = False,
     od_url_started_us = 0, od_url_hostname = replicate 64 0, od_connected_ssid = replicate 33 0,
     od_storage = STORAGE_NORMAL, od_format_seconds = 0, od_framebuffer = replicate 1024 0,
     od_previous = replicate 1024 0, od_tick = 0\<rparr>"

text \<open>A call of a setter of the status model on the model in the state.\<close>

definition with_model :: "(status_model option \<Rightarrow> status_model option) \<Rightarrow> oled \<Rightarrow> oled" where
  "with_model setter s = s\<lparr>od_model := the (setter (Some (od_model s)))\<rparr>"

text \<open>\<open>exact_copy\<close> into one of the arrays of the state.\<close>

definition copied_into :: "u8 list \<Rightarrow> u8 list \<Rightarrow> u8 list" where
  "copied_into buffer source = the (exact_copy (Some buffer) (Some source))"

definition sync_busy :: "sync_snapshot \<Rightarrow> bool" where
  "sync_busy sync \<longleftrightarrow> ss_state sync = SYNC_QUEUED \<or> ss_state sync = SYNC_RUNNING \<or> ss_state sync = SYNC_CANCELLING"

section \<open>The bus and the panel\<close>

text \<open>What the driver puts on the wires: the reset pin, and a transfer with its data/command pin.\<close>

datatype panel_wire = ResetPin bool | Transfer bool "u8 list"

text \<open>The bus answers the transfer with the given number on the wires.\<close>

type_synonym spi_bus = "nat \<Rightarrow> esp_err"

fun oled_transmit_all :: "spi_bus \<Rightarrow> panel_wire list \<Rightarrow> panel_wire list \<Rightarrow> esp_err \<times> panel_wire list" where
  "oled_transmit_all bus wired [] = (ESP_OK, wired)"
| "oled_transmit_all bus wired (w # wires) =
     (let status = bus (length wired) in
      if status \<noteq> ESP_OK then (status, wired @ [w]) else oled_transmit_all bus (wired @ [w]) wires)"

definition init_commands :: "bool \<Rightarrow> u8 list" where
  "init_commands rotate_180 =
     [0xae, 0xd5, 0x80, 0xa8, 0x3f, 0xd3, 0x00, 0x40,
      0xad, 0x8b, if rotate_180 then 0xa0 else 0xa1, if rotate_180 then 0xc0 else 0xc8,
      0xda, 0x12, 0x81, 0x9f,
      0xd9, 0x22, 0xdb, 0x35, 0xa4, 0xa6, 0xaf]"

definition oled_reset_and_configure :: "bool \<Rightarrow> spi_bus \<Rightarrow> panel_wire list \<Rightarrow> esp_err \<times> panel_wire list" where
  "oled_reset_and_configure rotate_180 bus wired =
     oled_transmit_all bus (wired @ [ResetPin False, ResetPin True])
       (map (\<lambda>command. Transfer False [command]) (init_commands rotate_180))"

definition page_transfers :: "frame \<Rightarrow> nat \<Rightarrow> panel_wire list" where
  "page_transfers fb page =
     [Transfer False [0xb0 + of_nat page], Transfer False [0x02], Transfer False [0x10],
      Transfer True (take 128 (drop (page * 128) fb))]"

definition oled_flush :: "spi_bus \<Rightarrow> panel_wire list \<Rightarrow> frame \<Rightarrow> esp_err \<times> panel_wire list" where
  "oled_flush bus wired fb = oled_transmit_all bus wired (concat (map (page_transfers fb) [0..<8]))"

text \<open>The three set-up calls answer with the first three codes.\<close>

definition oled_initialize ::
  "esp_err \<times> esp_err \<times> esp_err \<Rightarrow> bool \<Rightarrow> spi_bus \<Rightarrow> oled \<Rightarrow> esp_err \<times> oled \<times> panel_wire list" where
  "oled_initialize setup rotate_180 bus s =
     (let (gpio, spi, device) = setup in
      if gpio \<noteq> ESP_OK then (gpio, s, [])
      else if spi \<noteq> ESP_OK then (spi, s, [])
      else if device \<noteq> ESP_OK then (device, s, [])
      else
        let (configured, wired) = oled_reset_and_configure rotate_180 bus [] in
        if configured \<noteq> ESP_OK then (configured, s, wired)
        else
          let (flushed, wired) = oled_flush bus wired blank_frame
          in (flushed, s\<lparr>od_framebuffer := blank_frame, od_previous := replicate 1024 0xff\<rparr>, wired))"

definition status_oled_start ::
  "esp_err \<times> esp_err \<times> esp_err \<Rightarrow> bool \<Rightarrow> spi_bus \<Rightarrow> bool \<Rightarrow> oled \<Rightarrow> esp_err \<times> oled \<times> panel_wire list" where
  "status_oled_start setup rotate_180 bus task_created s =
     (if od_ready s then (ESP_OK, s, [])
      else
        let (status, s, wired) = oled_initialize setup rotate_180 bus (with_model status_model_init s) in
        if status \<noteq> ESP_OK then (status, s, wired)
        else if \<not> task_created then (ESP_ERR_NO_MEM, s, wired)
        else (ESP_OK, s\<lparr>od_ready := True\<rparr>, wired))"

section \<open>The setters\<close>

definition oled_boot_complete :: "oled \<Rightarrow> oled" where
  "oled_boot_complete s =
     (if \<not> od_ready s then s else with_model (\<lambda>m. status_model_set_boot_complete m True) s)"

definition oled_update_device :: "device_snapshot option \<Rightarrow> oled \<Rightarrow> oled" where
  "oled_update_device snapshot s =
     (if \<not> od_ready s \<or> snapshot = None then s else with_model (\<lambda>m. status_model_set_device m snapshot) s)"

definition oled_update_sync :: "sync_snapshot option \<Rightarrow> oled \<Rightarrow> oled" where
  "oled_update_sync snapshot s =
     (case snapshot of
        None \<Rightarrow> s
      | Some sync \<Rightarrow>
          if \<not> od_ready s then s
          else
            let s = with_model (\<lambda>m. status_model_set_sync m snapshot) s
            in if sync_busy sync then s\<lparr>od_url_visible := False\<rparr> else s)"

definition oled_update_network :: "net_snapshot option \<Rightarrow> u8 list option \<Rightarrow> oled \<Rightarrow> oled" where
  "oled_update_network snapshot connected_ssid s =
     (case snapshot of
        None \<Rightarrow> s
      | Some network \<Rightarrow>
          if \<not> od_ready s then s
          else
            let s = with_model (\<lambda>m. status_model_set_network m snapshot) s;
                s = (case connected_ssid of
                       Some ssid \<Rightarrow>
                         if ns_state network = NET_CLIENT_READY
                         then s\<lparr>od_connected_ssid := copied_into (od_connected_ssid s) ssid\<rparr>
                         else s\<lparr>od_connected_ssid := (od_connected_ssid s)[0 := 0]\<rparr>
                     | None \<Rightarrow> s\<lparr>od_connected_ssid := (od_connected_ssid s)[0 := 0]\<rparr>)
            in if ns_state network \<noteq> NET_CLIENT_READY then s\<lparr>od_url_visible := False\<rparr> else s)"

definition oled_set_vehicle :: "u8 list option \<Rightarrow> oled \<Rightarrow> oled" where
  "oled_set_vehicle vehicle s =
     (if \<not> od_ready s then s else with_model (\<lambda>m. status_model_set_vehicle m vehicle) s)"

definition oled_set_identity :: "u8 list option \<Rightarrow> u8 list option \<Rightarrow> oled \<Rightarrow> oled" where
  "oled_set_identity vehicle part_number s =
     (if \<not> od_ready s then s
      else with_model (\<lambda>m. status_model_set_part_number m part_number)
             (with_model (\<lambda>m. status_model_set_vehicle m vehicle) s))"

section \<open>The hotspot and its code\<close>

definition oled_show_hotspot :: "u8 list option \<Rightarrow> u8 list option \<Rightarrow> oled \<Rightarrow> oled" where
  "oled_show_hotspot ssid password s =
     (case (ssid, password) of
        (Some name, Some secret) \<Rightarrow>
          if \<not> od_ready s then s
          else s\<lparr>od_hotspot_ssid := copied_into (od_hotspot_ssid s) name,
                 od_hotspot_password := copied_into (od_hotspot_password s) secret,
                 od_hotspot_visible := True, od_qr_visible := False, od_url_visible := False\<rparr>
      | _ \<Rightarrow> s)"

definition oled_hide_hotspot :: "oled \<Rightarrow> oled" where
  "oled_hide_hotspot s =
     (if \<not> od_ready s then s else s\<lparr>od_hotspot_visible := False, od_qr_visible := False\<rparr>)"

definition oled_restore_hotspot :: "oled \<Rightarrow> oled" where
  "oled_restore_hotspot s =
     (if \<not> od_ready s then s
      else s\<lparr>od_hotspot_visible := (od_hotspot_ssid s ! 0 \<noteq> 0 \<and> od_hotspot_password s ! 0 \<noteq> 0),
             od_url_visible := False\<rparr>)"

definition oled_clear_hotspot :: "oled \<Rightarrow> oled" where
  "oled_clear_hotspot s =
     (if \<not> od_ready s then s
      else s\<lparr>od_hotspot_password := replicate 16 0, od_hotspot_ssid := replicate 20 0,
             od_qr_bitmap := replicate 137 0, od_hotspot_visible := False, od_qr_visible := False,
             od_qr_size := 0, od_qr_started_us := 0, od_url_visible := False\<rparr>)"

abbreviation (input) ESP_ERR_INVALID_SIZE :: esp_err where "ESP_ERR_INVALID_SIZE \<equiv> 0x104"

text \<open>
  The code is made outside the lock, from a copy of the credentials: \<open>prepare_qr\<close> up to the call of
  the generator, whose answer is its status and, when it reaches the callback, the code.
\<close>

definition prepare_qr :: "(u8 list \<Rightarrow> esp_err \<times> qr_code option) \<Rightarrow> oled \<Rightarrow> esp_err + u8 \<times> u8 list" where
  "prepare_qr generate s =
     (let ssid = copied_into (replicate 20 0) (od_hotspot_ssid s);
          password = copied_into (replicate 16 0) (od_hotspot_password s);
          network_state = ns_state (sm_network (od_model s)) in
      if ssid ! 0 = 0 \<or> password ! 0 = 0
         \<or> network_state \<noteq> NET_HOTSPOT_STARTING \<and> network_state \<noteq> NET_HOTSPOT_READY
      then Inl ESP_ERR_INVALID_STATE
      else (case qr_payload ssid password of
              None \<Rightarrow> Inl ESP_ERR_INVALID_SIZE
            | Some payload \<Rightarrow>
                let (status, code) = generate (c_str payload);
                    render = capture_qr code (0, replicate 137 0)
                in if status \<noteq> ESP_OK \<or> fst render = 0
                   then Inl (if status = ESP_OK then ESP_FAIL else status) else Inr render))"

definition publish_qr :: "int \<Rightarrow> u8 \<times> u8 list \<Rightarrow> oled \<Rightarrow> oled" where
  "publish_qr now render s =
     s\<lparr>od_qr_bitmap := snd render, od_qr_size := fst render, od_qr_started_us := now,
       od_hotspot_visible := True, od_qr_visible := True, od_url_visible := False\<rparr>"

text \<open>What the other tasks do between the two critical sections is \<open>meanwhile\<close>.\<close>

definition oled_show_hotspot_qr ::
  "(u8 list \<Rightarrow> esp_err \<times> qr_code option) \<Rightarrow> (oled \<Rightarrow> oled) \<Rightarrow> int \<Rightarrow> oled \<Rightarrow> esp_err \<times> oled" where
  "oled_show_hotspot_qr generate meanwhile now s =
     (if \<not> od_ready s then (ESP_ERR_INVALID_STATE, s)
      else (case prepare_qr generate s of
              Inl status \<Rightarrow> (status, meanwhile s)
            | Inr render \<Rightarrow> (ESP_OK, publish_qr now render (meanwhile s))))"

definition oled_hide_hotspot_qr :: "oled \<Rightarrow> oled" where
  "oled_hide_hotspot_qr s = (if \<not> od_ready s then s else s\<lparr>od_qr_visible := False\<rparr>)"

definition oled_hotspot_qr_visible :: "oled \<Rightarrow> bool" where
  "oled_hotspot_qr_visible s \<longleftrightarrow> od_ready s \<and> od_qr_visible s"

section \<open>The local address\<close>

definition oled_show_local_url :: "u8 list option \<Rightarrow> int \<Rightarrow> oled \<Rightarrow> esp_err \<times> oled" where
  "oled_show_local_url hostname now s =
     (case hostname of
        None \<Rightarrow> (ESP_ERR_INVALID_STATE, s)
      | Some memory \<Rightarrow>
          if \<not> od_ready s \<or> c_str memory = [] then (ESP_ERR_INVALID_STATE, s)
          else if ns_state (sm_network (od_model s)) = NET_CLIENT_READY \<and> \<not> sync_busy (sm_sync (od_model s))
          then (ESP_OK, s\<lparr>od_url_hostname := copied_into (od_url_hostname s) memory,
                          od_url_started_us := now, od_url_visible := True, od_qr_visible := False\<rparr>)
          else (ESP_ERR_INVALID_STATE, s))"

definition oled_hide_local_url :: "oled \<Rightarrow> oled" where
  "oled_hide_local_url s = (if \<not> od_ready s then s else s\<lparr>od_url_visible := False\<rparr>)"

definition oled_local_url_visible :: "oled \<Rightarrow> bool" where
  "oled_local_url_visible s \<longleftrightarrow> od_ready s \<and> od_url_visible s"

section \<open>Storage screens\<close>

definition oled_show_storage_error :: "oled_storage \<Rightarrow> oled \<Rightarrow> oled" where
  "oled_show_storage_error state s =
     (if \<not> od_ready s \<or> state = STORAGE_NORMAL \<or> state = STORAGE_CONFIRM_FORMAT \<or> state = STORAGE_FORMATTING
      then s
      else s\<lparr>od_storage := state, od_format_seconds := 0, od_qr_visible := False, od_url_visible := False\<rparr>)"

definition oled_show_format_warning :: "u32 \<Rightarrow> oled \<Rightarrow> oled" where
  "oled_show_format_warning seconds_remaining s =
     (if \<not> od_ready s \<or> seconds_remaining = 0 then s
      else s\<lparr>od_storage := STORAGE_CONFIRM_FORMAT, od_format_seconds := seconds_remaining,
             od_qr_visible := False, od_url_visible := False\<rparr>)"

definition oled_show_formatting :: "oled \<Rightarrow> oled" where
  "oled_show_formatting s =
     (if \<not> od_ready s then s
      else s\<lparr>od_storage := STORAGE_FORMATTING, od_format_seconds := 0, od_qr_visible := False,
             od_url_visible := False\<rparr>)"

definition oled_show_format_complete :: "oled \<Rightarrow> oled" where
  "oled_show_format_complete s =
     (if \<not> od_ready s then s
      else s\<lparr>od_storage := STORAGE_FORMAT_COMPLETE, od_format_seconds := 0, od_qr_visible := False,
             od_url_visible := False\<rparr>)"

definition oled_show_format_failed :: "oled \<Rightarrow> oled" where
  "oled_show_format_failed s = oled_show_storage_error STORAGE_FORMAT_FAILED s"

section \<open>The display task\<close>

datatype oled_screen =
    STORAGE_SCREEN oled_storage u32
  | CODE_SCREEN "u8 list" u8
  | HOTSPOT_SCREEN "u8 list" "u8 list"
  | ADDRESS_SCREEN "u8 list"
  | STATUS_SCREEN status_view "u8 list option"

text \<open>The start of the critical section: the code and the address expire.\<close>

definition expire_screens :: "int \<Rightarrow> int \<Rightarrow> oled \<Rightarrow> oled" where
  "expire_screens qr_time url_time s =
     (let s = (if od_qr_visible s \<and> (qr_time - od_qr_started_us s) sdiv 1000 \<ge> 30000
               then s\<lparr>od_qr_visible := False\<rparr> else s)
      in if od_url_visible s \<and> (url_time - od_url_started_us s) sdiv 1000 \<ge> 20000
         then s\<lparr>od_url_visible := False\<rparr> else s)"

definition chosen_screen :: "oled \<Rightarrow> oled_screen" where
  "chosen_screen s =
     (if od_storage s \<noteq> STORAGE_NORMAL then STORAGE_SCREEN (od_storage s) (od_format_seconds s)
      else if od_qr_visible s then CODE_SCREEN (od_qr_bitmap s) (od_qr_size s)
      else if od_hotspot_visible s then HOTSPOT_SCREEN (od_hotspot_ssid s) (od_hotspot_password s)
      else if od_url_visible s then ADDRESS_SCREEN (od_url_hostname s)
      else STATUS_SCREEN (status_model_view (Some (od_model s)))
        (network_badge (ns_state (sm_network (od_model s))) (Some (od_connected_ssid s))
           (Some (replicate 13 0))))"

fun draw_screen :: "oled_screen \<Rightarrow> u32 \<Rightarrow> frame \<Rightarrow> frame" where
  "draw_screen (STORAGE_SCREEN state seconds) tick fb = draw_storage_recovery state seconds fb"
| "draw_screen (CODE_SCREEN bitmap qr_size) tick fb = draw_hotspot_qr (Some bitmap) qr_size fb"
| "draw_screen (HOTSPOT_SCREEN ssid password) tick fb = draw_hotspot ssid password fb"
| "draw_screen (ADDRESS_SCREEN hostname) tick fb = draw_local_url hostname fb"
| "draw_screen (STATUS_SCREEN view badge) tick fb = draw_status view tick badge fb"

definition refresh_panel :: "spi_bus \<Rightarrow> oled \<Rightarrow> oled \<times> panel_wire list" where
  "refresh_panel bus s =
     (if od_framebuffer s = od_previous s then (s, [])
      else
        let (status, wired) = oled_flush bus [] (od_framebuffer s)
        in (if status = ESP_OK then s\<lparr>od_previous := od_framebuffer s\<rparr> else s, wired))"

text \<open>One turn of the loop, with the times at which it reads the timer.\<close>

definition oled_turn ::
  "int \<Rightarrow> int \<times> int \<times> int \<Rightarrow> u8 list option \<Rightarrow> spi_bus \<Rightarrow> oled \<Rightarrow> oled \<times> panel_wire list" where
  "oled_turn started_us clock version bus s =
     (let (now, qr_time, url_time) = clock;
          elapsed_ms = (of_int ((now - started_us) sdiv 1000) :: u32);
          s = (if elapsed_ms < 1500 then s\<lparr>od_framebuffer := draw_splash elapsed_ms version (od_framebuffer s)\<rparr>
               else
                 let s = expire_screens qr_time url_time s
                 in s\<lparr>od_framebuffer := draw_screen (chosen_screen s) (od_tick s) (od_framebuffer s)\<rparr>);
          (s, wired) = refresh_panel bus s
      in (s\<lparr>od_tick := od_tick s + 1\<rparr>, wired))"

section \<open>The captured code\<close>

text \<open>The bitmap holds the modules of the code row by row, bit by bit.\<close>

definition bitmap_bit :: "u8 list \<Rightarrow> nat \<Rightarrow> bool" where
  "bitmap_bit bits n \<longleftrightarrow> bit (bits ! (n div 8)) (n mod 8)"

definition mark :: "nat \<Rightarrow> u8 list \<Rightarrow> u8 list" where
  "mark k bits = bits[k div 8 := bits ! (k div 8) OR push_bit (k mod 8) 1]"

lemma length_mark [simp]: "length (mark k bits) = length bits"
  by (simp add: mark_def)

lemma bit_mark:
  assumes "k div 8 < length bits"
  shows "bitmap_bit (mark k bits) n \<longleftrightarrow> bitmap_bit bits n \<or> n = k"
proof (cases "n div 8 = k div 8")
  case True
  then have "n = k \<longleftrightarrow> n mod 8 = k mod 8" by (metis div_mult_mod_eq)
  then show ?thesis using True assms by (auto simp: bitmap_bit_def mark_def bit_simps)
next
  case False
  then show ?thesis by (auto simp: bitmap_bit_def mark_def)
qed

lemma fold_marks:
  assumes "\<And>y bits. y \<in> set ys \<Longrightarrow> length bits = len \<Longrightarrow>
      length (row y bits) = len \<and> (bitmap_bit (row y bits) n \<longleftrightarrow> bitmap_bit bits n \<or> marks y)"
    and "length bits = len"
  shows "length (fold row ys bits) = len
    \<and> (bitmap_bit (fold row ys bits) n \<longleftrightarrow> bitmap_bit bits n \<or> (\<exists>y \<in> set ys. marks y))"
  using assms
proof (induction ys arbitrary: bits)
  case (Cons y ys)
  have "length (row y bits) = len \<and> (bitmap_bit (row y bits) n \<longleftrightarrow> bitmap_bit bits n \<or> marks y)"
    using Cons.prems by simp
  then show ?case using Cons.IH [of "row y bits"] Cons.prems(1) by auto
qed simp

lemma captured_modules:
  assumes "capture_qr (Some (dimension, module_at)) (0, replicate 137 0) = (modules, bitmap)" "modules \<noteq> 0"
  shows "0 < dimension \<and> dimension \<le> 33 \<and> uint modules = dimension
    \<and> (\<forall>x y. 0 \<le> x \<and> x < dimension \<and> 0 \<le> y \<and> y < dimension \<longrightarrow>
         (qr_bitmap_module (Some bitmap) modules x y \<longleftrightarrow> module_at x y))"
proof -
  have d: "0 < dimension" "dimension \<le> 33"
    using assms by (auto simp: capture_qr_def split: if_splits)
  let ?n = "\<lambda>x y. nat y * nat dimension + nat x"
  let ?row = "\<lambda>y. fold (\<lambda>x bits. if \<not> module_at x y then bits else mark (?n x y) bits) [0..dimension - 1]"
  have "capture_qr (Some (dimension, module_at)) (0, replicate 137 0)
      = (of_int dimension, fold ?row [0..dimension - 1] (replicate 137 0))"
    using d unfolding capture_qr_def mark_def Let_def by simp
  then have r: "modules = of_int dimension" "bitmap = fold ?row [0..dimension - 1] (replicate 137 0)"
    using assms by simp_all
  then have m: "uint modules = dimension" using d by (simp add: unsigned_of_int take_bit_int_eq_self)
  have room: "?n x y div 8 < 137" if "x \<in> set [0..dimension - 1]" "y \<in> set [0..dimension - 1]" for x y
  proof -
    have "nat y * nat dimension \<le> 32 * 33" using that d by (intro mult_le_mono) auto
    moreover have "nat x \<le> 32" using that d by auto
    ultimately show ?thesis by simp
  qed
  have bits: "bitmap_bit bitmap n \<longleftrightarrow> (\<exists>y \<in> set [0..dimension - 1]. \<exists>x \<in> set [0..dimension - 1]. module_at x y \<and> n = ?n x y)"
    if n: "n div 8 < 137" for n
  proof -
    have "length (?row y bits) = 137 \<and> (bitmap_bit (?row y bits) n \<longleftrightarrow> bitmap_bit bits n
        \<or> (\<exists>x \<in> set [0..dimension - 1]. module_at x y \<and> n = ?n x y))"
      if "y \<in> set [0..dimension - 1]" "length bits = 137" for y bits
      using that room by (intro fold_marks) (auto simp: bit_mark)
    then have "bitmap_bit bitmap n \<longleftrightarrow> bitmap_bit (replicate 137 0) n
        \<or> (\<exists>y \<in> set [0..dimension - 1]. \<exists>x \<in> set [0..dimension - 1]. module_at x y \<and> n = ?n x y)"
      unfolding r(2) by (intro fold_marks [THEN conjunct2]) auto
    moreover have "\<not> bitmap_bit (replicate 137 0) n" using n by (simp add: bitmap_bit_def)
    ultimately show ?thesis by blast
  qed
  have "qr_bitmap_module (Some bitmap) modules x y \<longleftrightarrow> module_at x y"
    if xy: "0 \<le> x" "x < dimension" "0 \<le> y" "y < dimension" for x y
  proof -
    have same: "x' = x \<and> y' = y"
      if "?n x y = ?n x' y'" "x' \<in> set [0..dimension - 1]" "y' \<in> set [0..dimension - 1]" for x' y'
    proof -
      have "nat x < nat dimension" "nat x' < nat dimension" using xy that by auto
      then have "nat y = nat y'" "nat x = nat x'"
        using arg_cong [OF that(1), of "\<lambda>n. n div nat dimension"] arg_cong [OF that(1), of "\<lambda>n. n mod nat dimension"]
        by simp_all
      then show ?thesis using xy that by auto
    qed
    have "unat modules = nat dimension" using m nat_uint_eq [of modules] by simp
    then have "qr_bitmap_module (Some bitmap) modules x y \<longleftrightarrow> bitmap_bit bitmap (?n x y)"
      using xy m by (simp add: qr_bitmap_module_def bitmap_bit_def bit_iff_and_push_bit_not_eq_0 Let_def)
    moreover have "?n x y div 8 < 137" using xy by (intro room) auto
    note bits [OF this]
    moreover have "x \<in> set [0..dimension - 1]" "y \<in> set [0..dimension - 1]" using xy by auto
    ultimately show ?thesis using same by metis
  qed
  then show ?thesis using d m by blast
qed

section \<open>What the display shows is allowed\<close>

text \<open>The moves of the other tasks and of the display task.\<close>

inductive oled_move :: "oled \<Rightarrow> oled \<Rightarrow> bool" where
  booted: "oled_move s (oled_boot_complete s)"
| device: "oled_move s (oled_update_device d s)"
| sync: "oled_move s (oled_update_sync y s)"
| network: "oled_move s (oled_update_network n connected s)"
| vehicle: "oled_move s (oled_set_vehicle v s)"
| identity: "oled_move s (oled_set_identity v part s)"
| show_hotspot: "oled_move s (oled_show_hotspot ssid password s)"
| hide_hotspot: "oled_move s (oled_hide_hotspot s)"
| restore_hotspot: "oled_move s (oled_restore_hotspot s)"
| clear_hotspot: "oled_move s (oled_clear_hotspot s)"
| hide_code: "oled_move s (oled_hide_hotspot_qr s)"
| show_address: "oled_move s (snd (oled_show_local_url hostname now s))"
| hide_address: "oled_move s (oled_hide_local_url s)"
| storage_error: "oled_move s (oled_show_storage_error state s)"
| format_warning: "oled_move s (oled_show_format_warning seconds s)"
| formatting: "oled_move s (oled_show_formatting s)"
| format_complete: "oled_move s (oled_show_format_complete s)"
| format_failed: "oled_move s (oled_show_format_failed s)"
| turn: "oled_move s (fst (oled_turn started_us clock version bus s))"

text \<open>
  The states of the display up to now, the latest first. \<open>generates\<close> says which answers the generator
  may give to a payload. A code is published from the credentials that the call read in an earlier
  state; any moves, other codes included, may come between the two.
\<close>

inductive oled_history :: "(u8 list \<Rightarrow> esp_err \<times> qr_code option \<Rightarrow> bool) \<Rightarrow> oled list \<Rightarrow> bool" for generates where
  boot: "oled_history generates [oled_boot]"
| start: "oled_history generates (s # older) \<Longrightarrow>
    oled_history generates (fst (snd (status_oled_start setup rotate_180 bus created s)) # s # older)"
| move: "oled_history generates (s # older) \<Longrightarrow> oled_move s t \<Longrightarrow> oled_history generates (t # s # older)"
| publish: "oled_history generates (s # older) \<Longrightarrow> earlier \<in> set (s # older) \<Longrightarrow> od_ready earlier \<Longrightarrow>
    (\<And>payload. generates payload (generate payload)) \<Longrightarrow> prepare_qr generate earlier = Inr render \<Longrightarrow>
    oled_history generates (publish_qr now render s # s # older)"

definition oled_reach :: "(u8 list \<Rightarrow> esp_err \<times> qr_code option \<Rightarrow> bool) \<Rightarrow> oled \<Rightarrow> bool" where
  "oled_reach generates s \<longleftrightarrow> (\<exists>older. oled_history generates (s # older))"

text \<open>The address is visible only on a ready client network with no synchronisation under way.\<close>

definition address_allowed :: "oled \<Rightarrow> bool" where
  "address_allowed s \<longleftrightarrow> ns_state (sm_network (od_model s)) = NET_CLIENT_READY \<and> \<not> sync_busy (sm_sync (od_model s))"

definition oled_inv :: "oled \<Rightarrow> bool" where
  "oled_inv s \<longleftrightarrow>
     (od_url_visible s \<longrightarrow> od_ready s \<and> address_allowed s \<and> \<not> od_qr_visible s \<and> c_str (od_url_hostname s) \<noteq> [])
     \<and> (od_qr_visible s \<longrightarrow> od_qr_size s \<noteq> 0)
     \<and> length (od_url_hostname s) = 64"

named_theorems oled_defs \<open>the operations of the display state\<close>

lemmas oled_setters [oled_defs] =
  oled_boot_complete_def oled_update_device_def oled_update_sync_def oled_update_network_def
  oled_set_vehicle_def oled_set_identity_def with_model_def status_model_set_boot_complete_def

lemmas oled_hotspot_defs [oled_defs] =
  oled_show_hotspot_def oled_hide_hotspot_def oled_restore_hotspot_def oled_clear_hotspot_def
  publish_qr_def oled_hide_hotspot_qr_def

lemmas oled_screen_defs [oled_defs] =
  oled_hide_local_url_def oled_show_storage_error_def oled_show_format_warning_def
  oled_show_formatting_def oled_show_format_complete_def oled_show_format_failed_def

lemma vehicle_keeps:
  "sm_network (the (status_model_set_vehicle (Some m) v)) = sm_network m"
  "sm_sync (the (status_model_set_vehicle (Some m) v)) = sm_sync m"
  by (auto simp: status_model_set_vehicle_def Let_def split: option.splits)

lemma part_number_keeps:
  "sm_network (the (status_model_set_part_number (Some m) v)) = sm_network m"
  "sm_sync (the (status_model_set_part_number (Some m) v)) = sm_sync m"
  by (auto simp: status_model_set_part_number_def Let_def split: option.splits prod.splits)

lemma device_keeps:
  "sm_network (the (status_model_set_device (Some m) d)) = sm_network m"
  "sm_sync (the (status_model_set_device (Some m) d)) = sm_sync m"
  by (cases d; simp)+

lemma some_status_model_set: "\<exists>m'. status_model_set_vehicle (Some m) v = Some m'"
  by (auto simp: status_model_set_vehicle_def Let_def split: option.splits)

lemma copied_length: "buffer \<noteq> [] \<Longrightarrow> length (copied_into buffer source) = length buffer"
  by (cases buffer) (auto simp: copied_into_def exact_copy_def blit_0)

lemma copied_text: "buffer \<noteq> [] \<Longrightarrow> c_str (copied_into buffer source) = take (length buffer - 1) (c_str source)"
proof -
  assume "buffer \<noteq> []"
  moreover have "0 \<notin> set (take k (c_str source))" for k
    using c_str_no_nul set_take_subset by (metis subsetD)
  ultimately show ?thesis by (simp add: copied_into_def exact_copy_def Let_def blit_0 c_str_terminated)
qed

lemma prepared_size: "prepare_qr generate s = Inr render \<Longrightarrow> fst render \<noteq> 0"
  by (auto simp: prepare_qr_def Let_def split: option.splits prod.splits if_splits)

text \<open>Where a rendered code comes from.\<close>

definition coded_from ::
  "(u8 list \<Rightarrow> esp_err \<times> qr_code option \<Rightarrow> bool) \<Rightarrow> oled \<Rightarrow> u8 \<Rightarrow> u8 list \<Rightarrow> bool" where
  "coded_from generates s modules bitmap \<longleftrightarrow>
     od_ready s \<and> ns_state (sm_network (od_model s)) \<in> {NET_HOTSPOT_STARTING, NET_HOTSPOT_READY}
     \<and> c_str (od_hotspot_ssid s) \<noteq> [] \<and> c_str (od_hotspot_password s) \<noteq> []
     \<and> (\<exists>payload dimension module_at.
          qr_payload (copied_into (replicate 20 0) (od_hotspot_ssid s))
            (copied_into (replicate 16 0) (od_hotspot_password s)) = Some payload
          \<and> generates (c_str payload) (ESP_OK, Some (dimension, module_at))
          \<and> 0 < dimension \<and> dimension \<le> 33 \<and> uint modules = dimension
          \<and> (\<forall>x y. 0 \<le> x \<and> x < dimension \<and> 0 \<le> y \<and> y < dimension \<longrightarrow>
               (qr_bitmap_module (Some bitmap) modules x y \<longleftrightarrow> module_at x y)))"

lemma copied_first:
  assumes "0 < n" "copied_into (replicate n 0) source ! 0 \<noteq> 0"
  shows "c_str source \<noteq> []"
proof -
  have b: "replicate n (0 :: u8) \<noteq> []" using assms(1) by simp
  then obtain x xs where c: "copied_into (replicate n 0) source = x # xs"
    using copied_length [OF b, of source] assms(1) by (cases "copied_into (replicate n 0) source") auto
  then have "c_str (copied_into (replicate n 0) source) \<noteq> []" using assms(2) by (simp add: c_str_def)
  then show ?thesis using copied_text [OF b, of source] by auto
qed

lemma prepared_code:
  assumes "prepare_qr generate s = Inr render" "od_ready s" "\<And>payload. generates payload (generate payload)"
  shows "coded_from generates s (fst render) (snd render)"
proof -
  let ?ssid = "copied_into (replicate 20 0) (od_hotspot_ssid s)"
  let ?password = "copied_into (replicate 16 0) (od_hotspot_password s)"
  from assms(1) obtain payload code where p: "?ssid ! 0 \<noteq> 0" "?password ! 0 \<noteq> 0"
    "ns_state (sm_network (od_model s)) \<in> {NET_HOTSPOT_STARTING, NET_HOTSPOT_READY}"
    "qr_payload ?ssid ?password = Some payload" "generate (c_str payload) = (ESP_OK, code)"
    "render = capture_qr code (0, replicate 137 0)" "fst render \<noteq> 0"
    by (auto simp: prepare_qr_def Let_def split: option.splits prod.splits if_splits)
  then obtain dimension module_at where code: "code = Some (dimension, module_at)"
    by (cases code) (auto simp: capture_qr_def)
  have "capture_qr (Some (dimension, module_at)) (0, replicate 137 0) = (fst render, snd render)"
    using p(6) code by simp
  note captured = captured_modules [OF this p(7)]
  have named: "c_str (od_hotspot_ssid s) \<noteq> []" "c_str (od_hotspot_password s) \<noteq> []"
    using copied_first [OF _ p(1)] copied_first [OF _ p(2)] by simp_all
  have "generates (c_str payload) (ESP_OK, Some (dimension, module_at))"
    using assms(3) [of "c_str payload"] p(5) code by simp
  then show ?thesis
    unfolding coded_from_def using assms(2) p(3,4) named captured by blast
qed

lemma inv_update_network: "oled_inv s \<Longrightarrow> oled_inv (oled_update_network n connected s)"
  by (cases n; cases connected) (auto simp: oled_inv_def address_allowed_def oled_defs Let_def)

lemma inv_update_sync: "oled_inv s \<Longrightarrow> oled_inv (oled_update_sync y s)"
  by (cases y) (auto simp: oled_inv_def address_allowed_def oled_defs Let_def)

lemma inv_update_device: "oled_inv s \<Longrightarrow> oled_inv (oled_update_device d s)"
  by (cases d) (auto simp: oled_inv_def address_allowed_def oled_defs)

lemma inv_identity: "oled_inv s \<Longrightarrow> oled_inv (oled_set_identity v part s)"
  using some_status_model_set [of "od_model s" v] vehicle_keeps [of "od_model s" v]
  by (auto simp: oled_inv_def address_allowed_def oled_defs part_number_keeps)

lemma inv_vehicle: "oled_inv s \<Longrightarrow> oled_inv (oled_set_vehicle v s)"
  by (auto simp: oled_inv_def address_allowed_def oled_defs vehicle_keeps)

lemma inv_show_address: "oled_inv s \<Longrightarrow> oled_inv (snd (oled_show_local_url hostname now s))"
proof (cases hostname)
  case (Some memory)
  assume s: "oled_inv s"
  then have "od_url_hostname s \<noteq> []" by (auto simp: oled_inv_def)
  then show ?thesis using s Some
    by (auto simp: oled_inv_def address_allowed_def oled_show_local_url_def copied_length copied_text)
qed (simp add: oled_show_local_url_def)

lemma inv_hotspot:
  "oled_inv s \<Longrightarrow> oled_inv (oled_show_hotspot ssid password s)"
  "oled_inv s \<Longrightarrow> oled_inv (oled_hide_hotspot s)"
  "oled_inv s \<Longrightarrow> oled_inv (oled_restore_hotspot s)"
  "oled_inv s \<Longrightarrow> oled_inv (oled_clear_hotspot s)"
  "oled_inv s \<Longrightarrow> fst render \<noteq> 0 \<Longrightarrow> oled_inv (publish_qr now render s)"
  "oled_inv s \<Longrightarrow> oled_inv (oled_hide_hotspot_qr s)"
  by (auto simp: oled_inv_def address_allowed_def oled_hotspot_defs split: option.splits)

lemma inv_screens:
  "oled_inv s \<Longrightarrow> oled_inv (oled_hide_local_url s)"
  "oled_inv s \<Longrightarrow> oled_inv (oled_show_storage_error state s)"
  "oled_inv s \<Longrightarrow> oled_inv (oled_show_format_warning seconds s)"
  "oled_inv s \<Longrightarrow> oled_inv (oled_show_formatting s)"
  "oled_inv s \<Longrightarrow> oled_inv (oled_show_format_complete s)"
  "oled_inv s \<Longrightarrow> oled_inv (oled_show_format_failed s)"
  by (auto simp: oled_inv_def address_allowed_def oled_screen_defs)

lemma inv_boot_complete: "oled_inv s \<Longrightarrow> oled_inv (oled_boot_complete s)"
  by (auto simp: oled_inv_def address_allowed_def oled_defs)

lemma inv_expire: "oled_inv s \<Longrightarrow> oled_inv (expire_screens qr_time url_time s)"
  by (auto simp: oled_inv_def address_allowed_def expire_screens_def Let_def)

lemma inv_frame [simp]:
  "oled_inv (s\<lparr>od_framebuffer := f\<rparr>) = oled_inv s" "oled_inv (s\<lparr>od_previous := f\<rparr>) = oled_inv s"
  "oled_inv (s\<lparr>od_tick := n\<rparr>) = oled_inv s"
  by (simp_all add: oled_inv_def address_allowed_def)

lemma inv_turn: "oled_inv s \<Longrightarrow> oled_inv (fst (oled_turn started_us clock version bus s))"
  by (auto simp: oled_turn_def refresh_panel_def Let_def inv_expire split: prod.splits)

lemma inv_move: "oled_move s t \<Longrightarrow> oled_inv s \<Longrightarrow> oled_inv t"
  by (induction rule: oled_move.induct)
    (simp_all only: inv_update_network inv_update_sync inv_update_device inv_identity inv_vehicle
      inv_show_address inv_hotspot inv_screens inv_boot_complete inv_turn prepared_size not_False_eq_True)

lemma inv_start: "oled_inv s \<Longrightarrow> oled_inv (fst (snd (status_oled_start setup rotate_180 bus created s)))"
  by (auto simp: oled_inv_def address_allowed_def status_oled_start_def oled_initialize_def with_model_def Let_def
      split: prod.splits)

lemma inv_history: "oled_history generates hist \<Longrightarrow> \<forall>s \<in> set hist. oled_inv s"
proof (induction rule: oled_history.induct)
  case boot
  show ?case by (simp add: oled_inv_def oled_boot_def)
next
  case (publish s older earlier generate render now)
  then show ?case using prepared_size inv_hotspot(5) by simp
qed (auto intro: inv_start inv_move)

text \<open>No other operation makes a code visible or changes a visible one.\<close>

definition same_code :: "oled \<Rightarrow> oled \<Rightarrow> bool" where
  "same_code s t \<longleftrightarrow>
     (od_qr_visible t \<longrightarrow> od_qr_visible s \<and> od_qr_bitmap t = od_qr_bitmap s \<and> od_qr_size t = od_qr_size s)"

lemma code_setters:
  "same_code s (oled_boot_complete s)" "same_code s (oled_set_vehicle v s)"
  "same_code s (oled_update_device d s)" "same_code s (oled_set_identity v part s)"
  by (simp_all add: same_code_def oled_setters)

lemma code_sync: "same_code s (oled_update_sync y s)"
  by (cases y) (simp_all add: same_code_def oled_setters Let_def)

lemma code_network: "same_code s (oled_update_network n connected s)"
  by (cases n; cases connected) (simp_all add: same_code_def oled_setters Let_def)

lemma code_hotspot:
  "same_code s (oled_show_hotspot ssid password s)"
  "same_code s (oled_hide_hotspot s)"
  "same_code s (oled_restore_hotspot s)"
  "same_code s (oled_clear_hotspot s)"
  "same_code s (oled_hide_hotspot_qr s)"
  by (simp_all add: same_code_def oled_hotspot_defs split: option.split)

lemma code_screens:
  "same_code s (snd (oled_show_local_url hostname now s))"
  "same_code s (oled_hide_local_url s)"
  "same_code s (oled_show_storage_error state s)"
  "same_code s (oled_show_format_warning seconds s)"
  "same_code s (oled_show_formatting s)"
  "same_code s (oled_show_format_complete s)"
  "same_code s (oled_show_format_failed s)"
  by (simp_all add: same_code_def oled_screen_defs oled_show_local_url_def split: option.split)

lemma code_refresh:
  "od_qr_visible (fst (refresh_panel bus s)) = od_qr_visible s"
  "od_qr_bitmap (fst (refresh_panel bus s)) = od_qr_bitmap s"
  "od_qr_size (fst (refresh_panel bus s)) = od_qr_size s"
  by (simp_all add: refresh_panel_def case_prod_unfold Let_def)

lemma code_turn: "same_code s (fst (oled_turn started_us clock version bus s))"
proof -
  obtain now qr_time url_time where clock: "clock = (now, qr_time, url_time)" by (cases clock)
  show ?thesis
    unfolding clock oled_turn_def Let_def prod.case
    by (simp add: same_code_def case_prod_unfold code_refresh expire_screens_def Let_def)
qed

lemma move_keeps_code: "oled_move s t \<Longrightarrow> same_code s t"
  by (induction rule: oled_move.induct)
    (simp_all only: code_setters code_sync code_network code_hotspot code_screens code_turn)

lemma initialize_keeps_code:
  "od_qr_visible (fst (snd (oled_initialize answers rotated bus s))) = od_qr_visible s"
  "od_qr_bitmap (fst (snd (oled_initialize answers rotated bus s))) = od_qr_bitmap s"
  "od_qr_size (fst (snd (oled_initialize answers rotated bus s))) = od_qr_size s"
  by (simp_all add: oled_initialize_def Let_def split: prod.split)

lemma start_keeps_code:
  "od_qr_visible (fst (snd (status_oled_start answers rotated bus created s))) = od_qr_visible s"
  "od_qr_bitmap (fst (snd (status_oled_start answers rotated bus created s))) = od_qr_bitmap s"
  "od_qr_size (fst (snd (status_oled_start answers rotated bus created s))) = od_qr_size s"
proof -
  obtain status t wired where i: "oled_initialize answers rotated bus (with_model status_model_init s) = (status, t, wired)"
    using prod_cases3 by blast
  from initialize_keeps_code [of answers rotated bus "with_model status_model_init s", unfolded i]
  show "od_qr_visible (fst (snd (status_oled_start answers rotated bus created s))) = od_qr_visible s"
    "od_qr_bitmap (fst (snd (status_oled_start answers rotated bus created s))) = od_qr_bitmap s"
    "od_qr_size (fst (snd (status_oled_start answers rotated bus created s))) = od_qr_size s"
    unfolding status_oled_start_def i Let_def prod.case by (simp_all add: with_model_def)
qed

lemma code_history:
  "oled_history generates hist \<Longrightarrow> od_qr_visible (hd hist) \<Longrightarrow>
    \<exists>earlier \<in> set (tl hist). coded_from generates earlier (od_qr_size (hd hist)) (od_qr_bitmap (hd hist))"
proof (induction rule: oled_history.induct)
  case boot
  then show ?case by (simp add: oled_boot_def)
next
  case (start s older answers rotated bus created)
  then show ?case using start_keeps_code [of answers rotated bus created s] by auto
next
  case (move s older t)
  then show ?case using move_keeps_code [of s t] by (auto simp: same_code_def)
next
  case (publish s older earlier generate render now)
  from prepared_code [where generates = generates, OF publish.hyps(5,3) publish.hyps(4)] publish.hyps(2)
  show ?case by (auto simp: publish_qr_def)
qed

text \<open>
  C36. What the display task shows is allowed at that moment, whatever the other tasks did before, in any
  order and between the two critical sections of the Wi-Fi code. The local address is on the screen only
  while the client network is ready, no synchronisation is queued, running or being cancelled, and for
  less than 20 seconds after the request. A Wi-Fi code is on the screen for less than 30 seconds, and it is,
  module by module, a code that the generator made from the payload of a name and a password that the
  display held, neither of them empty, in an earlier state in which the hotspot was starting or ready. A
  storage problem hides all of them, and the status shows only when nothing else is to be shown.
\<close>

theorem shown_screen_allowed:
  assumes "oled_history generates (s # older)"
  shows "case chosen_screen (expire_screens qr_time url_time s) of
      STORAGE_SCREEN state seconds \<Rightarrow> state = od_storage s \<and> state \<noteq> STORAGE_NORMAL
    | CODE_SCREEN bitmap modules \<Rightarrow>
        od_storage s = STORAGE_NORMAL \<and> modules \<noteq> 0 \<and> bitmap = od_qr_bitmap s
        \<and> (qr_time - od_qr_started_us s) sdiv 1000 < 30000
        \<and> (\<exists>earlier \<in> set older. \<exists>payload dimension module_at.
             ns_state (sm_network (od_model earlier)) \<in> {NET_HOTSPOT_STARTING, NET_HOTSPOT_READY}
             \<and> c_str (od_hotspot_ssid earlier) \<noteq> [] \<and> c_str (od_hotspot_password earlier) \<noteq> []
             \<and> qr_payload (copied_into (replicate 20 0) (od_hotspot_ssid earlier))
                 (copied_into (replicate 16 0) (od_hotspot_password earlier)) = Some payload
             \<and> generates (c_str payload) (ESP_OK, Some (dimension, module_at))
             \<and> uint modules = dimension
             \<and> (\<forall>x y. 0 \<le> x \<and> x < dimension \<and> 0 \<le> y \<and> y < dimension \<longrightarrow>
                  (qr_bitmap_module (Some bitmap) modules x y \<longleftrightarrow> module_at x y)))
    | HOTSPOT_SCREEN ssid password \<Rightarrow>
        od_storage s = STORAGE_NORMAL \<and> od_hotspot_visible s
        \<and> ssid = od_hotspot_ssid s \<and> password = od_hotspot_password s
    | ADDRESS_SCREEN hostname \<Rightarrow>
        od_storage s = STORAGE_NORMAL \<and> \<not> od_hotspot_visible s \<and> c_str hostname \<noteq> []
        \<and> ns_state (sm_network (od_model s)) = NET_CLIENT_READY \<and> \<not> sync_busy (sm_sync (od_model s))
        \<and> (url_time - od_url_started_us s) sdiv 1000 < 20000
    | STATUS_SCREEN view badge \<Rightarrow>
        od_storage s = STORAGE_NORMAL \<and> \<not> od_hotspot_visible s \<and> view = status_model_view (Some (od_model s))"
proof (cases "chosen_screen (expire_screens qr_time url_time s)")
  case (CODE_SCREEN bitmap modules)
  then have c: "od_storage s = STORAGE_NORMAL" "od_qr_visible s" "bitmap = od_qr_bitmap s" "modules = od_qr_size s"
    "(qr_time - od_qr_started_us s) sdiv 1000 < 30000"
    by (auto simp: chosen_screen_def expire_screens_def Let_def split: if_splits)
  obtain earlier where "earlier \<in> set older" "coded_from generates earlier modules bitmap"
    using code_history [OF assms] c by auto
  moreover have "modules \<noteq> 0" using inv_history [OF assms] c by (simp add: oled_inv_def)
  ultimately show ?thesis
    using c(1,3,5) unfolding CODE_SCREEN oled_screen.case coded_from_def by blast
next
  case (ADDRESS_SCREEN hostname)
  then show ?thesis using inv_history [OF assms]
    by (auto simp: oled_inv_def address_allowed_def chosen_screen_def expire_screens_def Let_def split: if_splits)
qed (auto simp: chosen_screen_def expire_screens_def Let_def split: if_splits)

lemma transmit_ok: "fst (oled_transmit_all (\<lambda>_. ESP_OK) wired wires) = ESP_OK"
  by (induction wires arbitrary: wired) auto

lemma address_reachable:
  "\<exists>s older hostname. oled_history generates (s # older) \<and> chosen_screen (expire_screens 6 6 s) = ADDRESS_SCREEN hostname"
proof -
  define a where "a = fst (snd (status_oled_start (0, 0, 0) False (\<lambda>_. ESP_OK) True oled_boot))"
  define b where "b = oled_update_network (Some (net_snapshot_zero\<lparr>ns_state := NET_CLIENT_READY\<rparr>)) None a"
  define c where "c = snd (oled_show_local_url (Some [114, 0]) 5 b)"
  have "od_ready a \<and> od_storage a = STORAGE_NORMAL \<and> \<not> od_hotspot_visible a \<and> ss_state (sm_sync (od_model a)) = SYNC_IDLE"
    using transmit_ok
    by (auto simp: a_def status_oled_start_def oled_initialize_def oled_reset_and_configure_def oled_flush_def
        with_model_def oled_boot_def Let_def case_prod_unfold)
  then have "od_ready b \<and> od_storage b = STORAGE_NORMAL \<and> \<not> od_hotspot_visible b
      \<and> ns_state (sm_network (od_model b)) = NET_CLIENT_READY \<and> ss_state (sm_sync (od_model b)) = SYNC_IDLE"
    by (simp add: b_def oled_update_network_def with_model_def)
  then have "chosen_screen (expire_screens 6 6 c) = ADDRESS_SCREEN (od_url_hostname c)"
    by (simp add: c_def oled_show_local_url_def c_str_def sync_busy_def chosen_screen_def expire_screens_def Let_def
        signed_divide_int_def)
  moreover have "oled_history generates [c, b, a, oled_boot]"
    unfolding c_def b_def a_def
    by (intro oled_history.move [OF _ oled_move.show_address] oled_history.move [OF _ oled_move.network]
        oled_history.start oled_history.boot)
  ultimately show ?thesis by blast
qed

theorem shown_screen_allowed_witness:
  "\<exists>s older hostname. oled_history (\<lambda>payload answer. answer = (ESP_FAIL, None)) (s # older)
     \<and> chosen_screen (expire_screens 6 6 s) = ADDRESS_SCREEN hostname
     \<and> ns_state (sm_network (od_model s)) = NET_CLIENT_READY \<and> \<not> sync_busy (sm_sync (od_model s))"
proof -
  obtain s older hostname where s: "oled_history (\<lambda>payload answer. answer = (ESP_FAIL, None)) (s # older)"
    "chosen_screen (expire_screens 6 6 s) = ADDRESS_SCREEN hostname"
    using address_reachable by blast
  then show ?thesis using shown_screen_allowed [of _ s older 6 6] by fastforce
qed

end
