(* ===== verification/Wifi_Code.thy ===== *)
theory Wifi_Code
  imports Status_Oled
begin

text \<open>
  What a phone reads from the Wi-Fi code of the display: the payload of the code, parsed by a reader
  that follows the format of such codes, gives back the name and the password of the hotspot.
\<close>

section \<open>The reader\<close>

text \<open>A field ends at the first semicolon without a backslash in front of it.\<close>

fun read_field :: "u8 list \<Rightarrow> (u8 list \<times> u8 list) option" where
  "read_field [] = None"
| "read_field (c # code) =
     (if c = 59 then Some ([], code)
      else if c = 92 then
        (case code of [] \<Rightarrow> None | d # rest \<Rightarrow> map_option (apfst (Cons d)) (read_field rest))
      else map_option (apfst (Cons c)) (read_field code))"

definition read_wifi_code :: "u8 list \<Rightarrow> (u8 list \<times> u8 list) option" where
  "read_wifi_code code =
     (if take 13 code \<noteq> ascii ''WIFI:T:WPA;S:'' then None
      else do {
        (ssid, rest) \<leftarrow> read_field (drop 13 code);
        if take 2 rest \<noteq> ascii ''P:'' then None
        else do {
          (password, end_mark) \<leftarrow> read_field (drop 2 rest);
          if end_mark = ascii '';'' then Some (ssid, password) else None
        }
      })"

section \<open>Escaping\<close>

definition qr_special :: "u8 \<Rightarrow> bool" where
  "qr_special c \<longleftrightarrow> c = 92 \<or> c = 59 \<or> c = 44 \<or> c = 58"

fun escaped :: "u8 list \<Rightarrow> u8 list" where
  "escaped [] = []"
| "escaped (c # source) = (if qr_special c then 92 # c # escaped source else c # escaped source)"

lemma escaped_le: "length (escaped source) \<le> 2 * length source"
  by (induction source) auto

lemma read_escaped: "read_field (escaped source @ 59 # rest) = Some (source, rest)"
  by (induction source) (auto simp: qr_special_def)

lemma escaped_no_nul: "0 \<notin> set source \<Longrightarrow> 0 \<notin> set (escaped source)"
  by (induction source) auto

text \<open>With room for it, the loop stores the escaped text and a NUL behind what is there.\<close>

lemma append_escaped:
  "length (escaped source) < length room \<Longrightarrow>
   append_qr_escaped source (written @ room) (length written) =
     (True, written @ escaped source @ 0 # drop (length (escaped source) + 1) room,
      length written + length (escaped source))"
proof (induction source arbitrary: written room)
  case Nil
  then show ?case by (cases room) (auto simp: list_update_append)
next
  case (Cons c source)
  show ?case
  proof (cases "qr_special c")
    case True
    obtain a b room' where room: "room = a # b # room'"
      using Cons.prems True by (cases room; cases "tl room") auto
    have "append_qr_escaped source ((written @ [92, c]) @ room') (length (written @ [92, c])) =
        (True, (written @ [92, c]) @ escaped source @ 0 # drop (length (escaped source) + 1) room',
         length (written @ [92, c]) + length (escaped source))"
      using Cons.prems True room by (intro Cons.IH) simp
    then show ?thesis
      using Cons.prems True room by (auto simp: qr_special_def list_update_append)
  next
    case False
    obtain a room' where room: "room = a # room'"
      using Cons.prems by (cases room) auto
    have "append_qr_escaped source ((written @ [c]) @ room') (length (written @ [c])) =
        (True, (written @ [c]) @ escaped source @ 0 # drop (length (escaped source) + 1) room',
         length (written @ [c]) + length (escaped source))"
      using Cons.prems False room by (intro Cons.IH) simp
    then show ?thesis
      using Cons.prems False room by (auto simp: qr_special_def list_update_append)
  qed
qed

definition wifi_code_text :: "u8 list \<Rightarrow> u8 list \<Rightarrow> u8 list" where
  "wifi_code_text ssid password =
     ascii ''WIFI:T:WPA;S:'' @ escaped ssid @ ascii '';P:'' @ escaped password @ ascii '';;''"

lemma read_wifi_code_text: "read_wifi_code (wifi_code_text ssid password) = Some (ssid, password)"
  using read_escaped [of ssid] read_escaped [of password "[59]"]
  by (simp add: read_wifi_code_def wifi_code_text_def of_char_def)

lemma payload_text:
  assumes "length (c_str ssid) < 20" "length (c_str password) < 16"
  shows "\<exists>room. qr_payload ssid password = Some (wifi_code_text (c_str ssid) (c_str password) @ 0 # room)
    \<and> length (wifi_code_text (c_str ssid) (c_str password) @ 0 # room) = 96"
proof -
  let ?s = "escaped (c_str ssid)" and ?p = "escaped (c_str password)"
  let ?intro = "ascii ''WIFI:T:WPA;S:''"
  have len: "length ?s \<le> 38" "length ?p \<le> 30"
    using assms escaped_le [of "c_str ssid"] escaped_le [of "c_str password"] by simp_all
  define room where "room = drop (length ?s + 1) (replicate 83 (0 :: u8))"
  define room2 where "room2 = drop 3 (0 # room)"
  have i: "length ?intro = 13" and i3: "length (ascii '';P:'') = 3" and i2: "length (ascii '';;'') = 2" by simp_all
  have j: "length (?intro @ ?s @ ascii '';P:'') = 13 + length ?s + 3" by simp
  have start: "blit 0 ?intro (replicate 96 0) = ?intro @ replicate 83 0"
    by (simp add: blit_def i del: ascii_simps length_ascii)
  have first: "append_qr_escaped (c_str ssid) (?intro @ replicate 83 0) 13 =
      (True, ?intro @ ?s @ 0 # room, 13 + length ?s)"
    using append_escaped [of "c_str ssid" "replicate 83 0" ?intro, unfolded i] len by (simp add: room_def del: ascii_simps)
  have l2: "length room2 = 80 - length ?s" using len by (simp add: room2_def room_def)
  define room4 where "room4 = drop 1 room2"
  have mid: "(blit (13 + length ?s) (ascii '';P:'') (?intro @ ?s @ 0 # room))[13 + length ?s + 3 := 0]
      = (?intro @ ?s @ ascii '';P:'') @ 0 # room4"
  proof -
    have "blit (13 + length ?s) (ascii '';P:'') (?intro @ ?s @ 0 # room) = (?intro @ ?s @ ascii '';P:'') @ room2"
      by (simp add: blit_def room2_def i i3 del: ascii_simps length_ascii)
    moreover have "room2[0 := 0] = 0 # room4" using l2 len by (cases room2) (auto simp: room4_def)
    ultimately show ?thesis using i i3 by (simp add: list_update_append del: ascii_simps length_ascii)
  qed
  have second: "append_qr_escaped (c_str password) ((?intro @ ?s @ ascii '';P:'') @ 0 # room4) (13 + length ?s + 3) =
      (True, (?intro @ ?s @ ascii '';P:'') @ ?p @ 0 # drop (length ?p) room4, 13 + length ?s + 3 + length ?p)"
    using append_escaped [of "c_str password" "0 # room4" "?intro @ ?s @ ascii '';P:''", unfolded j] len l2
    by (simp add: room4_def del: ascii_simps)
  have last: "blit (13 + length ?s + 3 + length ?p) (ascii '';;'' @ [0])
        ((?intro @ ?s @ ascii '';P:'') @ ?p @ 0 # drop (length ?p) room4)
      = wifi_code_text (c_str ssid) (c_str password) @ 0 # drop (length ?p + 2) room4"
    using i i2 i3 by (simp add: blit_def wifi_code_text_def del: ascii_simps length_ascii)
  have "qr_payload ssid password = Some (wifi_code_text (c_str ssid) (c_str password) @ 0 # drop (length ?p + 2) room4)"
    unfolding qr_payload_def Let_def start first prod.case mid second last using len by simp
  moreover have "length (wifi_code_text (c_str ssid) (c_str password) @ 0 # drop (length ?p + 2) room4) = 96"
    using len l2 by (simp add: wifi_code_text_def room4_def del: ascii_simps)
  ultimately show ?thesis by blast
qed

lemma wifi_code_text_no_nul:
  "0 \<notin> set ssid \<Longrightarrow> 0 \<notin> set password \<Longrightarrow> 0 \<notin> set (wifi_code_text ssid password)"
  by (simp add: wifi_code_text_def escaped_no_nul of_char_def)

text \<open>
  C37. A phone that scans the Wi-Fi code gets the hotspot's own name and password. Whatever text the
  application sets as name and password, with every special character in it, the copies that the display
  keeps fit the payload's 96 bytes after escaping, and a reader of such codes that undoes the escaping
  gives back exactly the name and the password that the display keeps.
\<close>

theorem wifi_code_roundtrip:
  "\<exists>payload. qr_payload (copied_into (replicate 20 0) ssid) (copied_into (replicate 16 0) password) = Some payload
     \<and> length payload = 96
     \<and> read_wifi_code (c_str payload) = Some (take 19 (c_str ssid), take 15 (c_str password))"
proof -
  let ?s = "copied_into (replicate 20 0) ssid" and ?p = "copied_into (replicate 16 0) password"
  have t: "c_str ?s = take 19 (c_str ssid)" "c_str ?p = take 15 (c_str password)"
    using copied_text [of "replicate 20 0" ssid] copied_text [of "replicate 16 0" password] by simp_all
  then have "length (c_str ?s) < 20" "length (c_str ?p) < 16" by simp_all
  from payload_text [OF this] obtain room where
    p: "qr_payload ?s ?p = Some (wifi_code_text (c_str ?s) (c_str ?p) @ 0 # room)"
    and n: "length (wifi_code_text (c_str ?s) (c_str ?p) @ 0 # room) = 96" by blast
  have "c_str (wifi_code_text (c_str ?s) (c_str ?p) @ 0 # room) = wifi_code_text (c_str ?s) (c_str ?p)"
    by (intro c_str_terminated wifi_code_text_no_nul c_str_no_nul)
  then have "read_wifi_code (c_str (wifi_code_text (c_str ?s) (c_str ?p) @ 0 # room)) = Some (c_str ?s, c_str ?p)"
    by (simp only: read_wifi_code_text)
  then show ?thesis using p n t by (intro exI [of _ "wifi_code_text (c_str ?s) (c_str ?p) @ 0 # room"]) simp
qed

end
