(* ===== verification/Status_Typed.thy ===== *)
theory Status_Typed
  imports Status_Oled
begin

text \<open>
  The arrays of the display: every operation keeps each of them at its size and, where it holds a text,
  terminated; and the texts of the status screen against the width of the panel.
\<close>

section \<open>Frames keep their length\<close>

lemma length_folded: "(\<And>a fb. length (f a fb) = length fb) \<Longrightarrow> length (fold f xs fb) = length fb"
  by (induction xs arbitrary: fb) auto

lemma length_fill_rect [simp]: "length (fill_rect x y width height e fb) = length fb"
  unfolding fill_rect_def by (intro length_folded) simp

lemma length_draw_rect [simp]: "length (draw_rect x y width height fb) = length fb"
  by (simp add: draw_rect_def)

lemma length_draw_glyph [simp]: "length (draw_glyph x y columns scale fb) = length fb"
  unfolding draw_glyph_def by (intro length_folded) simp

lemma length_draw_glyphs [simp]: "length (draw_glyphs x y t scale fb) = length fb"
  by (induction t arbitrary: x fb) auto

lemma length_draw_text [simp]:
  "length (draw_text x y t scale fb) = length fb" "length (draw_centered y t scale fb) = length fb"
  by (simp_all add: draw_centered_def draw_text_def split: option.splits)

lemma length_blank [simp]: "length blank_frame = 1024"
  by (simp add: blank_frame_def)

lemma length_splash: "length (draw_splash ms version fb) = 1024"
  by (simp add: draw_splash_def draw_portal_mark_def Let_def split: prod.splits)

lemma length_header: "length (status_header tick badge fb) = length fb"
  by (simp add: status_header_def draw_wifi_icon_def Let_def split: option.splits)

lemma length_status: "length (draw_status view tick badge fb) = 1024"
  by (simp add: draw_status_def Let_def length_header)

lemma length_storage: "length (draw_storage_recovery state seconds fb) = 1024"
proof -
  have "length (fold (\<lambda>(y, line, scale). draw_centered y (Some line) scale) xs f) = length f" for xs f
    by (rule length_folded) (simp split: prod.splits)
  then show ?thesis by (simp add: draw_storage_recovery_def Let_def)
qed

lemma length_code: "length (draw_hotspot_qr bitmap n fb) = 1024"
  by (simp add: draw_hotspot_qr_def Let_def length_folded)

lemma length_screen: "length (draw_screen picture tick fb) = 1024"
  by (cases picture) (simp_all add: length_storage length_code length_status draw_hotspot_def draw_local_url_def Let_def)

section \<open>Arrays\<close>

text \<open>An array of the given size that holds a terminated text.\<close>

definition text_array :: "nat \<Rightarrow> u8 list \<Rightarrow> bool" where
  "text_array capacity buffer \<longleftrightarrow> length buffer = capacity \<and> 0 \<in> set buffer"

definition oled_typed :: "oled \<Rightarrow> bool" where
  "oled_typed s \<longleftrightarrow>
     text_array 20 (od_hotspot_ssid s) \<and> text_array 16 (od_hotspot_password s)
     \<and> text_array 64 (od_url_hostname s) \<and> text_array 33 (od_connected_ssid s)
     \<and> text_array 24 (sm_vehicle_label (od_model s)) \<and> text_array 24 (sm_part_number (od_model s))
     \<and> text_array 36 (sm_connected_label (od_model s))
     \<and> length (od_qr_bitmap s) = 137 \<and> uint (od_qr_size s) \<le> 33
     \<and> length (od_framebuffer s) = 1024 \<and> length (od_previous s) = 1024"

lemma text_array_zero: "0 < n \<Longrightarrow> text_array n (replicate n 0)"
  by (simp add: text_array_def)

lemma text_array_copied: "text_array n buffer \<Longrightarrow> text_array n (copied_into buffer source)"
  by (cases buffer) (auto simp: text_array_def copied_into_def exact_copy_def blit_0)

lemma text_array_cleared: "text_array n buffer \<Longrightarrow> text_array n (buffer[0 := 0])"
  by (cases buffer) (auto simp: text_array_def)

lemma text_array_store:
  "length t < n \<Longrightarrow> text_array n (t @ 0 # drop (length t + 1) (replicate n 0))"
  by (simp add: text_array_def)

lemma typed_vehicle:
  "text_array 24 (sm_vehicle_label (the (status_model_set_vehicle (Some m) v)))"
  "sm_part_number (the (status_model_set_vehicle (Some m) v)) = sm_part_number m"
  "sm_connected_label (the (status_model_set_vehicle (Some m) v)) = sm_connected_label m"
proof -
  have "text_array 24 (take (vehicle_label_length w) w @ replicate (24 - vehicle_label_length w) 0)" for w
    using vehicle_label_length [of w] by (simp add: text_array_def)
  then show "text_array 24 (sm_vehicle_label (the (status_model_set_vehicle (Some m) v)))"
    by (cases v) (simp_all add: set_vehicle_label, simp add: status_model_set_vehicle_def text_array_zero)
qed (auto simp: status_model_set_vehicle_def Let_def split: option.splits)

lemma typed_part_number:
  "text_array 24 (sm_part_number (the (status_model_set_part_number (Some m) v)))"
  "text_array 36 (sm_connected_label (the (status_model_set_part_number (Some m) v)))"
  "sm_vehicle_label (the (status_model_set_part_number (Some m) v)) = sm_vehicle_label m"
proof -
  have part: "text_array 24 (blit n [0] (blit 0 (take n memory) (replicate 24 0)))"
    if "n < 24" "n \<le> length memory" for n and memory :: "u8 list"
    using that by (simp add: blit_def text_array_def)
  have label: "text_array 36 (fst (snprintf_into (replicate 36 0) t))" if "length t < 36" for t
    using that by (simp add: snprintf_fits text_array_def)
  have n: "strnlen memory 24 \<le> length memory" for memory
    using length_takeWhile_le [of "\<lambda>b. b \<noteq> 0" "take 24 memory"] by (simp add: strnlen_def c_str_def)
  show "text_array 24 (sm_part_number (the (status_model_set_part_number (Some m) v)))"
    using n part
    by (auto simp: status_model_set_part_number_def Let_def text_array_zero split: option.splits prod.splits)
  show "text_array 36 (sm_connected_label (the (status_model_set_part_number (Some m) v)))"
    using label
    by (auto simp: status_model_set_part_number_def Let_def text_array_zero prod_eq_iff split: option.splits prod.splits)
  show "sm_vehicle_label (the (status_model_set_part_number (Some m) v)) = sm_vehicle_label m"
    by (auto simp: status_model_set_part_number_def Let_def split: option.splits prod.splits)
qed

lemma captured_size:
  "fst (capture_qr code (0, replicate 137 0)) = n \<Longrightarrow> uint n \<le> 33"
  "length (snd (capture_qr code (0, replicate 137 0))) = 137"
proof -
  show "fst (capture_qr code (0, replicate 137 0)) = n \<Longrightarrow> uint n \<le> 33"
    by (auto simp: capture_qr_def word_of_int_eq_iff unsigned_of_int take_bit_int_eq_self split: option.splits)
  show "length (snd (capture_qr code (0, replicate 137 0))) = 137"
    by (simp add: capture_qr_def Let_def length_folded split: option.splits)
qed

lemma prepared_typed: "prepare_qr generate s = Inr render \<Longrightarrow> uint (fst render) \<le> 33 \<and> length (snd render) = 137"
  using captured_size by (auto simp: prepare_qr_def Let_def split: option.splits prod.splits if_splits)

section \<open>Every operation\<close>

lemma typed_setters:
  "oled_typed s \<Longrightarrow> oled_typed (oled_boot_complete s)"
  "oled_typed s \<Longrightarrow> oled_typed (oled_set_vehicle v s)"
  by (auto simp: oled_typed_def oled_setters typed_vehicle)

lemma typed_device: "oled_typed s \<Longrightarrow> oled_typed (oled_update_device d s)"
  by (cases d) (auto simp: oled_typed_def oled_setters)

lemma typed_sync: "oled_typed s \<Longrightarrow> oled_typed (oled_update_sync y s)"
  by (cases y) (auto simp: oled_typed_def oled_setters Let_def)

lemma typed_network: "oled_typed s \<Longrightarrow> oled_typed (oled_update_network n connected s)"
  by (cases n; cases connected)
    (auto simp: oled_typed_def oled_setters Let_def text_array_copied text_array_cleared)

lemma typed_identity: "oled_typed s \<Longrightarrow> oled_typed (oled_set_identity v part s)"
  using some_status_model_set [of "od_model s" v] typed_vehicle [of "od_model s" v]
  by (auto simp: oled_typed_def oled_setters typed_part_number)

lemma typed_hotspot:
  "oled_typed s \<Longrightarrow> oled_typed (oled_show_hotspot ssid password s)"
  "oled_typed s \<Longrightarrow> oled_typed (oled_hide_hotspot s)"
  "oled_typed s \<Longrightarrow> oled_typed (oled_restore_hotspot s)"
  "oled_typed s \<Longrightarrow> oled_typed (oled_clear_hotspot s)"
  "oled_typed s \<Longrightarrow> oled_typed (oled_hide_hotspot_qr s)"
  by (auto simp: oled_typed_def oled_hotspot_defs text_array_copied text_array_zero split: option.splits)

lemma typed_publish: "oled_typed s \<Longrightarrow> prepare_qr generate r = Inr render \<Longrightarrow> oled_typed (publish_qr now render s)"
  by (auto simp: oled_typed_def publish_qr_def dest: prepared_typed)

lemma typed_screens:
  "oled_typed s \<Longrightarrow> oled_typed (snd (oled_show_local_url hostname now s))"
  "oled_typed s \<Longrightarrow> oled_typed (oled_hide_local_url s)"
  "oled_typed s \<Longrightarrow> oled_typed (oled_show_storage_error state s)"
  "oled_typed s \<Longrightarrow> oled_typed (oled_show_format_warning seconds s)"
  "oled_typed s \<Longrightarrow> oled_typed (oled_show_formatting s)"
  "oled_typed s \<Longrightarrow> oled_typed (oled_show_format_complete s)"
  "oled_typed s \<Longrightarrow> oled_typed (oled_show_format_failed s)"
  by (auto simp: oled_typed_def oled_screen_defs oled_show_local_url_def text_array_copied split: option.splits)

lemma typed_expire: "oled_typed (expire_screens qr_time url_time s) = oled_typed s"
  by (simp add: oled_typed_def expire_screens_def Let_def)

lemma typed_frame:
  "oled_typed s \<Longrightarrow> length f = 1024 \<Longrightarrow> oled_typed (s\<lparr>od_framebuffer := f\<rparr>)"
  "oled_typed (s\<lparr>od_tick := n\<rparr>) = oled_typed s"
  by (simp_all add: oled_typed_def)

lemma typed_refresh: "oled_typed s \<Longrightarrow> oled_typed (fst (refresh_panel bus s))"
  by (auto simp: oled_typed_def refresh_panel_def split: prod.splits)

lemma typed_turn: "oled_typed s \<Longrightarrow> oled_typed (fst (oled_turn started_us clock version bus s))"
proof -
  assume s: "oled_typed s"
  obtain now qr_time url_time where clock: "clock = (now, qr_time, url_time)" by (cases clock)
  define ms :: u32 where "ms = of_int ((now - started_us) sdiv 1000)"
  define e where "e = expire_screens qr_time url_time s"
  define t where "t = (if ms < 1500 then s\<lparr>od_framebuffer := draw_splash ms version (od_framebuffer s)\<rparr>
    else e\<lparr>od_framebuffer := draw_screen (chosen_screen e) (od_tick e) (od_framebuffer e)\<rparr>)"
  have "oled_typed t"
    using s by (auto simp: t_def e_def length_splash length_screen typed_expire intro!: typed_frame(1))
  moreover have "fst (oled_turn started_us clock version bus s)
      = (fst (refresh_panel bus t))\<lparr>od_tick := od_tick (fst (refresh_panel bus t)) + 1\<rparr>"
    unfolding clock oled_turn_def Let_def prod.case ms_def [symmetric] e_def [symmetric] t_def [symmetric]
    by (simp add: case_prod_unfold)
  ultimately show ?thesis by (simp add: typed_frame(2) typed_refresh)
qed

lemma typed_start: "oled_typed s \<Longrightarrow> oled_typed (fst (snd (status_oled_start setup rotate_180 bus created s)))"
  by (auto simp: oled_typed_def status_oled_start_def oled_initialize_def with_model_def status_model_zero_def
      text_array_zero Let_def split: prod.splits)

lemma typed_move: "oled_move s t \<Longrightarrow> oled_typed s \<Longrightarrow> oled_typed t"
  by (induction rule: oled_move.induct)
    (simp_all only: typed_setters typed_device typed_sync typed_network typed_identity typed_hotspot typed_screens
      typed_turn)

lemma typed_history: "oled_history generates hist \<Longrightarrow> \<forall>s \<in> set hist. oled_typed s"
proof (induction rule: oled_history.induct)
  case boot
  show ?case by (simp add: oled_typed_def oled_boot_def status_model_zero_def text_array_zero)
next
  case (publish s older earlier generate render now)
  then show ?case using typed_publish by simp
qed (auto intro: typed_start typed_move)

text \<open>
  C38. No operation of the display outgrows one of its arrays or leaves a text without its end: in every
  state that can arise the name, the password, the host name, the network's name and the three labels are
  terminated inside their arrays, the code has at most 33 modules a side and its bitmap room for them,
  and both frames have the 1024 bytes of the panel.
\<close>

theorem oled_arrays_typed:
  assumes "oled_reach generates s"
  shows "text_array 20 (od_hotspot_ssid s) \<and> text_array 16 (od_hotspot_password s)
     \<and> text_array 64 (od_url_hostname s) \<and> text_array 33 (od_connected_ssid s)
     \<and> text_array 24 (sm_vehicle_label (od_model s)) \<and> text_array 24 (sm_part_number (od_model s))
     \<and> text_array 36 (sm_connected_label (od_model s))
     \<and> length (od_qr_bitmap s) = 137 \<and> uint (od_qr_size s) \<le> 33
     \<and> length (od_framebuffer s) = 1024 \<and> length (od_previous s) = 1024"
proof -
  have "oled_typed s" using assms typed_history by (fastforce simp: oled_reach_def)
  then show ?thesis by (simp add: oled_typed_def)
qed

theorem oled_arrays_typed_witness:
  "\<exists>s hostname. chosen_screen (expire_screens 6 6 s) = ADDRESS_SCREEN hostname \<and> text_array 64 (od_url_hostname s)"
proof -
  obtain s hostname where s: "oled_reach (\<lambda>payload answer. answer = (ESP_FAIL, None)) s"
    "chosen_screen (expire_screens 6 6 s) = ADDRESS_SCREEN hostname"
    using address_reachable unfolding oled_reach_def by blast
  then show ?thesis using oled_arrays_typed by blast
qed

section \<open>The status texts fit\<close>

text \<open>A centred line is on the panel when it starts and ends there.\<close>

definition line_fits :: "u8 list \<Rightarrow> int \<Rightarrow> bool" where
  "line_fits line scale \<longleftrightarrow>
     0 \<le> (128 - text_width (Some line) scale) sdiv 2
     \<and> (128 - text_width (Some line) scale) sdiv 2 + text_width (Some line) scale \<le> 128"

text \<open>At the small scale that is a matter of 21 characters.\<close>

lemma line_fits_exact: "line_fits line 1 \<longleftrightarrow> length (c_str line) \<le> 21"
proof (cases "length (c_str line) \<le> 21")
  case False
  define n where "n = int (length (c_str line)) * 6 - 129"
  have "n > 0" using False by (simp add: n_def)
  moreover have "128 - text_width (Some line) 1 = - n" by (simp add: text_width_def n_def)
  moreover have "text_width (Some line) 1 > 128" using False by (simp add: text_width_def)
  ultimately show ?thesis using False by (simp add: line_fits_def signed_divide_int_def sgn_if)
qed (simp add: line_fits_def text_width_def half)

lemmas line_fits_small = line_fits_exact [THEN iffD2]

lemma line_fits_large: "text_width (Some line) 2 \<le> 124 \<Longrightarrow> line_fits line 2"
  by (simp add: line_fits_def half)

lemma headline_fits: "length (c_str (sv_headline view)) \<le> 21 \<Longrightarrow> line_fits (sv_headline view) (headline_scale view)"
  by (simp add: headline_scale_def line_fits_small line_fits_large)

text \<open>The texts of a view are short: literals and the two labels.\<close>

definition short_texts :: "status_view \<Rightarrow> bool" where
  "short_texts view \<longleftrightarrow> length (c_str (sv_headline view)) \<le> 21 \<and> length (c_str (sv_detail view)) \<le> 21
     \<and> length (c_str (sv_footer view)) \<le> 21"

lemma c_str_le: "length (c_str t) \<le> length t"
  by (simp add: c_str_def length_takeWhile_le)

lemma short_literal: "length t \<le> 21 \<Longrightarrow> length (c_str (ascii t)) \<le> 21"
  using c_str_le [of "ascii t"] by simp

lemma short_screen:
  "length h \<le> 21 \<Longrightarrow> length d \<le> 21 \<Longrightarrow> length f \<le> 21 \<Longrightarrow> short_texts (screen k h d f)"
  by (simp add: short_texts_def screen_def short_literal)

lemma short_progress [simp]:
  "short_texts (v\<lparr>sv_progress_percent := p\<rparr>) = short_texts v"
  "short_texts (v\<lparr>sv_countdown_seconds := n\<rparr>) = short_texts v"
  "short_texts (v\<lparr>sv_show_progress := b\<rparr>) = short_texts v"
  "short_texts (v\<lparr>sv_progress_indeterminate := b\<rparr>) = short_texts v"
  by (simp_all add: short_texts_def)

lemma short_label:
  "length (c_str label) \<le> 21 \<Longrightarrow> length t \<le> 21 \<Longrightarrow> length (c_str (label_or label t)) \<le> 21"
  using c_str_le [of "c_str label"] by (auto simp: label_or_def short_literal)

lemma short_headline:
  "short_texts v \<Longrightarrow> length (c_str t) \<le> 21 \<Longrightarrow> short_texts (v\<lparr>sv_headline := t\<rparr>)"
  "short_texts v \<Longrightarrow> length (c_str t) \<le> 21 \<Longrightarrow> short_texts (v\<lparr>sv_detail := t\<rparr>)"
  by (simp_all add: short_texts_def)

lemma short_active: "active_sync_view sync = Some view \<Longrightarrow> short_texts view"
  by (auto simp: active_sync_view_def short_screen simp del: ascii_simps split: sync_state.splits if_splits)

lemma short_device:
  "length (c_str (sm_vehicle_label m)) \<le> 21 \<Longrightarrow> length (c_str (sm_connected_label m)) \<le> 21 \<Longrightarrow>
   short_texts (device_view m)"
  by (simp add: device_view_def short_screen short_headline short_label split: device_state.split)

lemma short_view:
  "length (c_str (sm_vehicle_label m)) \<le> 21 \<Longrightarrow> length (c_str (sm_connected_label m)) \<le> 21 \<Longrightarrow>
   short_texts (status_model_view (Some m))"
  by (auto simp: status_model_view_def Let_def short_screen short_headline short_label short_device short_active
      split: option.splits)

lemma c_str_before: "length (c_str (xs @ 0 # ys)) \<le> length xs"
  by (induction xs) (simp_all add: c_str_def)

lemma detail_short: "short_texts view \<Longrightarrow> length (c_str (detail_text view)) \<le> 21"
proof -
  assume v: "short_texts view"
  define t where "t = ascii ''RETRY '' @ dec_text (unat (sv_countdown_seconds view)) @ ascii '' SEC''"
  have "unat (sv_countdown_seconds view) < 2 ^ 16" using unsigned_less [of "sv_countdown_seconds view"] by simp
  then have t: "length t \<le> 15" using dec_text_length [of "unat (sv_countdown_seconds view)" 4] by (simp add: t_def)
  then have "fst (snprintf_into (replicate 24 0) t) = t @ 0 # drop (length t + 1) (replicate 24 0)"
    by (subst snprintf_fits) simp_all
  moreover have "length (c_str (t @ 0 # drop (length t + 1) (replicate 24 0))) \<le> 15"
    using c_str_before t by (rule le_trans)
  ultimately have "length (c_str (fst (snprintf_into (replicate 24 0) t))) \<le> 21" by simp
  then show ?thesis using v by (simp add: detail_text_def short_texts_def t_def [symmetric] del: ascii_simps)
qed

text \<open>
  The status screen does not draw its texts off the panel: when the vehicle's label and the label of
  the connected device have at most 21 characters, then in every situation of the device, the
  synchronisation and the network the headline at the scale chosen for it, the detail line with any
  countdown and the footer begin and end on the panel's 128 columns.
\<close>

lemma status_texts_fit:
  assumes "length (c_str (sm_vehicle_label m)) \<le> 21" "length (c_str (sm_connected_label m)) \<le> 21"
  shows "line_fits (sv_headline (status_model_view (Some m))) (headline_scale (status_model_view (Some m)))
    \<and> line_fits (detail_text (status_model_view (Some m))) 1
    \<and> line_fits (sv_footer (status_model_view (Some m))) 1"
proof -
  have "short_texts (status_model_view (Some m))" using assms by (rule short_view)
  then show ?thesis
    using detail_short [of "status_model_view (Some m)"]
    by (simp add: headline_fits line_fits_small short_texts_def)
qed

section \<open>The storage screens do not all fit\<close>

text \<open>At the large scale a line fits up to ten characters.\<close>

lemma line_fits_large_exact: "line_fits line 2 \<longleftrightarrow> length (c_str line) \<le> 10"
proof (cases "length (c_str line) \<le> 10")
  case False
  define n where "n = int (length (c_str line)) * 12 - 130"
  have "n > 1" using False by (simp add: n_def)
  moreover have "128 - text_width (Some line) 2 = - n" by (simp add: text_width_def n_def)
  ultimately show ?thesis using False by (simp add: line_fits_def signed_divide_int_def sgn_if)
qed (simp add: line_fits_def text_width_def half)

lemma countdown_fits:
  assumes "unat seconds < 1000000"
  shows "length (c_str (fst (snprintf_into (replicate 24 0)
    (ascii ''CONFIRM IN '' @ dec_text (unat seconds) @ ascii '' SEC'')))) \<le> 21"
proof -
  define t where "t = ascii ''CONFIRM IN '' @ dec_text (unat seconds) @ ascii '' SEC''"
  have t: "length t \<le> 21" using dec_text_length [of "unat seconds" 5] assms by (simp add: t_def)
  then have "fst (snprintf_into (replicate 24 0) t) = t @ 0 # drop (length t + 1) (replicate 24 0)"
    by (subst snprintf_fits) simp_all
  moreover have "length (c_str (t @ 0 # drop (length t + 1) (replicate 24 0))) \<le> 21"
    using c_str_before t by (rule le_trans)
  ultimately show ?thesis by (simp add: t_def [symmetric] del: ascii_simps)
qed

lemma literal_length: "list_all (\<lambda>c. of_char c \<noteq> (0 :: u8)) t \<Longrightarrow> length (c_str (ascii t)) = length t"
  by (induction t) (simp_all add: c_str_def)

text \<open>
  Which lines of the storage screens the panel cuts: the large headlines FORMATTING SD, STORAGE READY,
  FORMAT FAILED and STORAGE ERROR are 154 pixels wide, more than the 128 columns;
  every other line of every storage screen begins and ends on the panel, with any countdown below a
  million seconds.
\<close>

lemma storage_lines_cut:
  assumes "unat seconds < 1000000"
  shows "map (\<lambda>(y, line, scale). line) (filter (\<lambda>(y, line, scale). \<not> line_fits line scale) (storage_lines state seconds))
    = (case state of
         STORAGE_MISSING \<Rightarrow> []
       | STORAGE_UNREADABLE \<Rightarrow> []
       | STORAGE_CONFIRM_FORMAT \<Rightarrow> []
       | STORAGE_FORMATTING \<Rightarrow> [ascii ''FORMATTING SD'']
       | STORAGE_FORMAT_COMPLETE \<Rightarrow> [ascii ''STORAGE READY'']
       | STORAGE_FORMAT_FAILED \<Rightarrow> [ascii ''FORMAT FAILED'']
       | _ \<Rightarrow> [ascii ''STORAGE ERROR''])"
  using countdown_fits [OF assms]
  by (cases state) (simp_all add: storage_lines_def line_fits_exact line_fits_large_exact literal_length of_char_def
    del: ascii_simps)

end
