(* ===== verification/Spec2Isabelle.thy ===== *)
theory Spec2Isabelle
  imports Accessport_Session Accessport_Listing Accessport_Targets Download_Writer
    Application_Safety Staged_Map Sync_History Sync_Annotations
    Network_Coordinator Update_Health Storage_Recovery Power_Button
    Accessport_Catalog Captive_Dns Usb_Control Local_Identity Credentials Trusted_Time Status_Model Control
    Usb_Sync Usb_Upload Usb_Delete Usb_Latches File_Delete Map_Apply Wifi_Code Status_Typed
begin

text \<open>
  Verification of the RevLink sidecar firmware (C, src/firmware).

  The program. The sidecar is a small computer that sits on the USB port of an AccessPort, a device
  that stores engine maps and datalogs. When an AccessPort is attached it copies the files of the
  device to its own card (a sync), it serves them over Wi-Fi, and at the owner's wish it writes a map
  to the device or deletes a file from it. A failed write can leave the device unusable, so the code
  is a stack of gates: an allowlist of paths, a policy on operations, consents of the owner, a single
  transaction at a time on a single device whose identity is checked, a reading back of what was
  written, and latches that stop everything after a failure.

  How to read the model. A C struct is a record, an enumeration a datatype (a value outside of it,
  where the code checks for one, is a constructor of its own), a fixed width integer a word, a
  pointer and a length a \<open>span\<close> of Revlink_Prelude, a null pointer \<open>None\<close>. A function that writes
  through pointers returns its status with the new contents. A function that may not be trusted to
  return (a callback, a driver, the card, the USB host, the hash) is a parameter or an answer that is
  given to the definition; what the code relies on is then a hypothesis of the theorem. Loops are
  structural recursion, or \<open>function\<close> with a measure; there is no fuel, and every definition is total.
  Loops of the transport that wait for the device end because each round consumes either bytes that
  are still expected or one of a bounded number of reads (the constants are those of the code).

  Components and theories.

  The wire protocol (components/accessport_protocol): Byte_Order and Jamcrc (the integers and the
  checksum), Accessport_Build and Accessport_Parse (records: writing and validating them),
  Accessport_Session (acknowledgements, handshake, close), Accessport_Listing (identity and directory
  listings), Accessport_Targets (the allowlists of writes and deletes), Download_Decoder (the
  incremental decoder of a download), Download_Stream (what it accepts, as a grammar of the whole
  stream, inside the locale \<open>payload_sink\<close> of the writer it feeds) and Download_Writer (the cache file
  of esp32p4/main/revlink_sd_storage.c, an interpretation of that locale). Lemmas: parsers accept
  exactly the grammar, builders and parsers are inverse, the decoder is independent of how the
  transfers cut the stream.

  The core services (components/revlink_core, revlink_sync, revlink_application): Device_Service (the
  state of the attached device, and the safety policy), Sync_Coordinator (one operation at a time
  between the user and the transport), Application (both together with the automatic sync, its retry
  and the lock after a conflict; the application is the observer of its own device service) and
  Application_Safety (what holds after any sequence of events; an open conflict and a running monitor are
  read off the list of the calls). Each is an interpretation of the
  locale \<open>event_machine\<close>: an invariant that the initial states have and every step keeps.

  The files of the card (components/revlink_sync): Text_Codec (characters, numbers, digests, and the
  locale \<open>line_file\<close> of a format whose lines are printed and parsed one by one), Keyed_Table (tables
  as finite maps), Sync_Manifest, Sync_History, Sync_Annotations. Lemmas: the operations are those of
  a map, the printed text parses back to the same table, a damaged text changes nothing.

  Staged maps (components/revlink_staged_map and esp32p4/main/revlink_map_upload.c): Staged_Map (the
  record of the metadata file, with its checksum, and the decision whether a staged map may be
  written), Map_Staging (the service up to the restart: begin, write, commit, abort, discard, restore),
  Map_Commit (the cards that a commit passes through and what a restart makes of each) and Map_Apply
  (the source and the observer that the transport uses, the request by hand and the automatic one, and
  the service as a step relation in which the power can fail at every change of the card). The automatic
  request releases the lock between its decision and its request; the two are separate steps, and any
  other step may come between them.
  \<open>files_ok\<close> is the invariant: what is being staged is on the card byte by byte, and what is staged has
  the digest that the service reports. File_Delete is the same for deletes
  (esp32p4/main/revlink_file_delete.c).

  The transport (components/accessport_usb): Usb_Host (the environment and the state monad of a
  session, with the list of the calls made), Usb_Transaction (transfers, records, the handshake, the
  download of a file), Usb_Sync (the session of a sync), Usb_Evidence, Usb_Upload and Usb_Delete (the
  two operations that change the device), Usb_Descriptors (the walk over a configuration descriptor),
  Usb_Topology (the client task, the descriptor task and the transaction task with their queues, as a
  step relation on the shared state), Usb_Table and Usb_Safety (its invariant over every
  interleaving), Usb_Runs and Usb_Latches (runs, and the theorems on conflicts, pinned devices and the
  recovery latch). The theorems about a session speak of the calls it made and the bytes it sent and
  received, for every behaviour of the device.

  The display (components/revlink_oled_render and esp32p4/main/revlink_status_oled.c): Oled_Render is
  the renderer, from the font to the pixels of a text; Status_Screen the screens, and the payload and
  the bitmap of the Wi-Fi code; Status_Oled the display state, the functions by which the other tasks
  set it, and a turn of the display task, with the transfers it puts on the bus and the invariant over
  every order of these moves (a code on the screen is traced back, module by module, to the answer of the
  generator and to an earlier state of the display that held its credentials); Wifi_Code a reader of Wi-Fi codes, which gets back what was encoded; and
  Status_Typed the sizes of the arrays and which lines fit the panel. The generator of the code and
  the answers of the bus are parameters, and the timer is not assumed to advance.

  The other services: Network_Coordinator (saved network or own hotspot), Update_Health (accepting a
  new image), Storage_Recovery (formatting the card), Power_Button, Status_Model (what is shown),
  Accessport_Catalog (part numbers), Captive_Dns, Usb_Control (the two switches of the USB link),
  Local_Identity (names), Credentials, Trusted_Time and Control (the command line and the service
  behind it).

  Assumptions of the model. The configuration is that of the product: sync, device writes and device
  deletes compiled in, the acceptance-test modes off. SHA-256 is a parameter with results of 32 bytes;
  no theorem uses that it has no collisions, they speak of equal digests. A handler of a task runs
  undisturbed up to its end in Usb_Topology, as the code guards the shared state there by the order of
  the queues; generations of attachments are counted below \<open>2^32\<close>, which is a hypothesis where it
  matters. On the card of Map_Staging \<open>unlink\<close> and \<open>rename\<close> are single changes, and bytes written to
  the temporary file appear at once; a loss of power can only lose bytes of the temporary files, which
  a restart removes. The kind of a payload that was never staged, zero in C, is shown as a map. An
  attach is a move of its own in Usb_Topology, outside \<open>usb_step\<close>, so that the attachments can be counted,
  and the delay before the first transaction of a device is part of the step that starts it. The counter of trailing bytes of the decoder and the coordinates of the renderer do
  not wrap around: the first counts the bytes of one transfer sequence, the second stay within the
  screens that are drawn.

  Not modelled: logging, the freeing of memory, the creation of tasks and queues; the acceptance-test
  modes of the transport; most of revlink_sd_storage.c (directories, mounting and the atomic
  replacement of files around the formats that are modelled); the HTTP portal, onboarding and backup
  (parsing of requests and printing of JSON around calls of the modelled services); the drivers of the
  radio, the switches and the non-volatile store; the start-up of the program. These parts
  are calls of ESP-IDF with little state of their own.
\<close>

end
